(* ===== verification/PyValues.thy ===== *)
theory PyValues
  imports Prelude
begin

text \<open>
  The values that flow between LazyLLM's flows: Python's own, with dictionaries keyed by strings,
  and the three containers of \<open>lazyllm/common/common.py\<close>. \<open>VPkg\<close> is \<open>package\<close> (a
  tuple that is unpacked into positional arguments), \<open>VKw\<close> is \<open>kwargs\<close> (a dict that is
  unpacked into keyword arguments), \<open>VArgs\<close> is \<open>arguments\<close> (both).
\<close>

datatype val =
    VNone
  | VBool bool
  | VInt int
  | VStr string
  | VList "val list"
  | VTuple "val list"
  | VPkg "val list"
  | VDict "(string \<times> val) list"
  | VKw "(string \<times> val) list"
  | VArgs "val list" "(string \<times> val) list"

type_synonym kws = "(string \<times> val) list"

text \<open>Python's truth value; \<open>arguments\<close> defines neither \<open>__bool__\<close> nor \<open>__len__\<close>.\<close>

fun truthy :: "val \<Rightarrow> bool" where
  "truthy VNone = False"
| "truthy (VBool b) = b"
| "truthy (VInt i) = (i \<noteq> 0)"
| "truthy (VStr s) = (s \<noteq> [])"
| "truthy (VList xs) = (xs \<noteq> [])"
| "truthy (VTuple xs) = (xs \<noteq> [])"
| "truthy (VPkg xs) = (xs \<noteq> [])"
| "truthy (VDict d) = (d \<noteq> [])"
| "truthy (VKw d) = (d \<noteq> [])"
| "truthy (VArgs a k) = True"

text \<open>\<open>isinstance(x, (tuple, list))\<close> and \<open>isinstance(x, tuple)\<close>, with the elements.\<close>

fun as_seq :: "val \<Rightarrow> val list option" where
  "as_seq (VList xs) = Some xs"
| "as_seq (VTuple xs) = Some xs"
| "as_seq (VPkg xs) = Some xs"
| "as_seq _ = None"

fun as_tuple :: "val \<Rightarrow> val list option" where
  "as_tuple (VTuple xs) = Some xs"
| "as_tuple (VPkg xs) = Some xs"
| "as_tuple _ = None"

fun as_dict :: "val \<Rightarrow> kws option" where
  "as_dict (VDict d) = Some d"
| "as_dict (VKw d) = Some d"
| "as_dict _ = None"

text \<open>A sequence of the same class with other elements: \<open>type(x)(ys)\<close>.\<close>

fun same_seq :: "val \<Rightarrow> val list \<Rightarrow> val" where
  "same_seq (VTuple _) ys = VTuple ys"
| "same_seq (VPkg _) ys = VPkg ys"
| "same_seq _ ys = VList ys"

text \<open>\<open>x[k]\<close> for a key or an index.\<close>

definition val_getitem :: "val \<Rightarrow> val \<Rightarrow> val res" where
  "val_getitem x k =
     (case as_seq x of
        Some xs \<Rightarrow> (case k of VInt i \<Rightarrow> py_index xs i | _ \<Rightarrow> Inl TypeError)
      | None \<Rightarrow> (case as_dict x of
          Some d \<Rightarrow> (case k of VStr s \<Rightarrow> of_opt KeyError (map_of d s) | _ \<Rightarrow> Inl KeyError)
        | None \<Rightarrow> Inl TypeError))"

text \<open>\<open>str(x)\<close>; how a container prints is a parameter.\<close>

fun py_str :: "(val \<Rightarrow> string) \<Rightarrow> val \<Rightarrow> string" where
  "py_str rep (VStr s) = s"
| "py_str rep (VInt i) = show_int i"
| "py_str rep (VBool b) = (if b then ''True'' else ''False'')"
| "py_str rep VNone = ''None''"
| "py_str rep v = rep v"

section \<open>package\<close>

text \<open>\<open>package(*args)\<close>: a single sequence argument is the content, anything else is packed.\<close>

definition package_new :: "val list \<Rightarrow> val" where
  "package_new args =
     (case args of
        [a] \<Rightarrow> (case as_seq a of Some xs \<Rightarrow> VPkg xs | None \<Rightarrow> VPkg args)
      | _ \<Rightarrow> VPkg args)"

section \<open>arguments\<close>

text \<open>
  \<open>arguments.__init__\<close>: \<open>None\<close> stands for the argument that was not given. A first argument that
  is not a package becomes a package of one.
\<close>

definition arguments_init :: "val option \<Rightarrow> kws option \<Rightarrow> val list \<times> kws" where
  "arguments_init a k =
     ((case a of None \<Rightarrow> [] | Some (VPkg xs) \<Rightarrow> xs | Some x \<Rightarrow> [x]),
      (case k of None \<Rightarrow> [] | Some d \<Rightarrow> d))"

fun arguments_parts :: "val \<Rightarrow> val list \<times> kws" where
  "arguments_parts (VPkg xs) = (xs, [])"
| "arguments_parts (VKw d) = ([], d)"
| "arguments_parts (VArgs a k) = (a, k)"
| "arguments_parts x = ([x], [])"

definition arguments_append :: "val list \<times> kws \<Rightarrow> val \<Rightarrow> (val list \<times> kws) res" where
  "arguments_append self x =
     (let (args, kw) = arguments_parts x; (sargs, skw) = self
      in if set (map fst skw) \<inter> set (map fst kw) \<noteq> {} then Inl AssertionError
         else Inr (sargs @ args, skw @ kw))"

lemma package_new_two [simp]: "package_new (a # b # cs) = VPkg (a # b # cs)"
  by (simp add: package_new_def)

lemma package_new_nil [simp]: "package_new [] = VPkg []"
  by (simp add: package_new_def)

text \<open>Appending all of a list of inputs concatenates their positional and keyword parts.\<close>

lemma rfold_arguments_append:
  "rfold (\<lambda>x a. arguments_append a x) xs (a, k) =
     Inr (b, l) \<Longrightarrow>
   b = a @ concat (map (fst \<circ> arguments_parts) xs) \<and> l = k @ concat (map (snd \<circ> arguments_parts) xs)"
proof (induction xs arbitrary: a k)
  case (Cons x xs)
  obtain a' k' where p: "arguments_parts x = (a', k')" by fastforce
  with Cons.prems have "rfold (\<lambda>x a. arguments_append a x) xs (a @ a', k @ k') = Inr (b, l)"
    by (auto simp: arguments_append_def rbind_eq_Inr split: if_splits)
  from Cons.IH [OF this] p show ?case by simp
qed simp

end
