(* ===== verification/FlowCore.thy ===== *)
theory FlowCore
  imports PyValues
begin

text \<open>
  \<open>lazyllm/flow/flow.py\<close> and \<open>lazyllm/common/bind.py\<close>: calling an item of a flow
  (\<open>invoke\<close>), bound arguments, \<open>Pipeline\<close> and \<open>Loop\<close>. Items are functions of
  their positional and keyword arguments that read and write a world: the user's state, the
  \<open>locals['bind_args']\<close> table, the save flag of \<open>save_pipeline_result\<close> and the
  iteration counts a trace collects.
\<close>

record 's world =
  ustate :: 's
  bind_args :: "(string, kws) dict"
  save_flag :: "bool option"
  actual_iterations :: "(string, nat) dict option"

type_synonym 's callable = "val list \<Rightarrow> kws \<Rightarrow> ('s world, val) sx"

section \<open>Bound arguments\<close>

text \<open>
  An argument of a \<open>Bind\<close>: a value, a \<open>Placeholder\<close>, or a \<open>Bind.Args\<close> with its source, target,
  optional item key (\<open>args['k']\<close>) and unpack flag.
\<close>

datatype barg =
    AVal val
  | APlace nat
  | AArgs string string "val option" bool

datatype bres = BOne val | BUnpack "val list"

definition get_arg :: "string \<Rightarrow> string \<Rightarrow> val option \<Rightarrow> bool \<Rightarrow> kws option \<Rightarrow> 's world \<Rightarrow> bres res" where
  "get_arg sid tid key unpack src w =
     rbind
       (case src of
          Some d \<Rightarrow> (if d \<noteq> [] \<and> map_of d ''source'' = Some (VStr sid) then Inr d
                    else (case map_of (bind_args w) sid of
                            None \<Rightarrow> Inl RuntimeError
                          | Some d' \<Rightarrow> if map_of d' ''source'' = Some (VStr sid) then Inr d'
                                      else Inl RuntimeError))
        | None \<Rightarrow> (case map_of (bind_args w) sid of
                     None \<Rightarrow> Inl RuntimeError
                   | Some d' \<Rightarrow> if map_of d' ''source'' = Some (VStr sid) then Inr d'
                               else Inl RuntimeError))
       (\<lambda>d. rbind (of_opt KeyError (map_of d tid))
         (\<lambda>input. rbind (case key of None \<Rightarrow> Inr input | Some k \<Rightarrow> val_getitem input k)
           (\<lambda>result. Inr (case (unpack, result) of (True, VPkg xs) \<Rightarrow> BUnpack xs | _ \<Rightarrow> BOne result))))"

definition resolve_place :: "val list \<Rightarrow> barg \<Rightarrow> barg res" where
  "resolve_place args a =
     (case a of APlace i \<Rightarrow> rbind (py_nth args i) (\<lambda>v. Inr (AVal v)) | _ \<Rightarrow> Inr a)"

definition resolve_arg :: "kws option \<Rightarrow> 's world \<Rightarrow> barg \<Rightarrow> bres res" where
  "resolve_arg src w a =
     (case a of
        AVal v \<Rightarrow> Inr (BOne v)
      | APlace i \<Rightarrow> Inl TypeError
      | AArgs sid tid key unpack \<Rightarrow> get_arg sid tid key unpack src w)"

fun flat_arg :: "bres \<Rightarrow> val list" where
  "flat_arg (BOne v) = [v]"
| "flat_arg (BUnpack vs) = vs"

fun whole_arg :: "bres \<Rightarrow> val" where
  "whole_arg (BOne v) = v"
| "whole_arg (BUnpack vs) = VPkg vs"

text \<open>
  \<open>Bind.__call__\<close>: placeholders first, then sources, then the call of the bound function; a bind
  of no function (\<open>_f\<close> is \<open>None\<close>) returns \<open>None\<close>.
\<close>

definition bind_call ::
    "'s callable option \<Rightarrow> barg list \<Rightarrow> (string \<times> barg) list \<Rightarrow> kws option \<Rightarrow> 's callable" where
  "bind_call fo bargs bkw src args kw =
     (\<lambda>w. case fo of None \<Rightarrow> (Inr VNone, w) | Some f \<Rightarrow> (case
        rbind (ensure (set (map fst kw) \<inter> set (map fst bkw) = {}) AssertionError) (\<lambda>_.
        rbind (if bargs = [] then Inr (map AVal args) else rmap (resolve_place args) bargs) (\<lambda>bs.
        rbind (rmap (\<lambda>(k, b). rbind (resolve_place args b) (\<lambda>b'. Inr (k, b'))) bkw) (\<lambda>ks.
        rbind (rmap (resolve_arg src w) bs) (\<lambda>rs.
        rbind (rmap (\<lambda>(k, b). rbind (resolve_arg src w b) (\<lambda>r. Inr (k, whole_arg r))) ks) (\<lambda>kvs.
        Inr (concat (map flat_arg rs), kvs @ kw))))))
      of Inl e \<Rightarrow> (Inl e, w) | Inr (pos, kws) \<Rightarrow> f pos kws w))"

section \<open>Items and their invocation\<close>

text \<open>
  An item is a function, a flow (which receives its input as it is), or a \<open>Bind\<close> of one
  of them; the flag says whether the bound function is a flow.
\<close>

datatype 's item =
    Plain "val list \<Rightarrow> kws \<Rightarrow> 's world \<Rightarrow> (exn + val) \<times> 's world"
  | Flow "val list \<Rightarrow> kws \<Rightarrow> 's world \<Rightarrow> (exn + val) \<times> 's world"
  | BindOf bool "(val list \<Rightarrow> kws \<Rightarrow> 's world \<Rightarrow> (exn + val) \<times> 's world) option" "barg list" "(string \<times> barg) list"

fun is_flow :: "'s item \<Rightarrow> bool" where
  "is_flow (Plain f) = False"
| "is_flow (Flow f) = True"
| "is_flow (BindOf b f xs ks) = b"

fun item_call :: "'s item \<Rightarrow> kws option \<Rightarrow> 's callable" where
  "item_call (Plain f) src = f"
| "item_call (Flow f) src = f"
| "item_call (BindOf b f xs ks) src = bind_call f xs ks src"

text \<open>An exception that is not a \<open>HandledException\<close> leaves an item as a \<open>FlowException\<close>.\<close>

fun to_flow_exn :: "exn \<Rightarrow> exn" where
  "to_flow_exn (Handled s) = Handled s"
| "to_flow_exn (Raised s) = Handled s"
| "to_flow_exn _ = Handled ''FlowException''"

fun is_handled :: "exn \<Rightarrow> bool" where
  "is_handled (Handled s) = True"
| "is_handled _ = False"

text \<open>
  The call itself: a package or a \<open>kwargs\<close> is unpacked unless the item is a flow.
\<close>

definition call_item :: "'s item \<Rightarrow> val \<Rightarrow> kws option \<Rightarrow> kws \<Rightarrow> ('s world, val) sx" where
  "call_item it inp src kw =
     (\<lambda>w. if \<not> is_flow it then
            (case inp of
               VPkg xs \<Rightarrow> item_call it src xs kw w
             | VKw d \<Rightarrow> (if set (map fst d) \<inter> set (map fst kw) \<noteq> {} then (Inl TypeError, w)
                        else item_call it src [] (d @ kw) w)
             | _ \<Rightarrow> item_call it src [inp] kw w)
          else item_call it src [inp] kw w)"

definition invoke :: "'s item \<Rightarrow> val \<Rightarrow> kws option \<Rightarrow> kws \<Rightarrow> ('s world, val) sx" where
  "invoke it inp src kw =
     (\<lambda>w. case call_item it inp src kw w of
        (Inl e, w') \<Rightarrow> (Inl (to_flow_exn e), w') | (Inr v, w') \<Rightarrow> (Inr v, w'))"

fun unbound :: "'s item \<Rightarrow> bool" where
  "unbound (BindOf b f xs ks) = False"
| "unbound _ = True"

section \<open>Pipeline and Loop\<close>

text \<open>
  \<open>pl_stop\<close> and \<open>pl_limit\<close> are the loop's \<open>stop_condition\<close> and \<open>on_limit\<close>; a plain pipeline
  has neither and runs its items once.
\<close>

record 's pipeline =
  pl_id :: string
  pl_items :: "(string \<times> 's item) list"
  pl_save :: bool
  pl_loop :: bool
  pl_count :: nat
  pl_stop :: "'s item option"
  pl_full :: bool
  pl_limit :: "'s item option"

definition mk_pipeline :: "string \<Rightarrow> (string \<times> 's item) list \<Rightarrow> bool \<Rightarrow> 's pipeline" where
  "mk_pipeline i its save = \<lparr>pl_id = i, pl_items = its, pl_save = save, pl_loop = False,
     pl_count = 1, pl_stop = None, pl_full = True, pl_limit = None\<rparr>"

definition mk_loop ::
    "string \<Rightarrow> (string \<times> 's item) list \<Rightarrow> bool \<Rightarrow> 's item option \<Rightarrow> nat \<Rightarrow> bool \<Rightarrow> 's item option \<Rightarrow> 's pipeline res"
where
  "mk_loop i its save stop count full limit =
     (if 1 < count
      then Inr \<lparr>pl_id = i, pl_items = its, pl_save = save, pl_loop = True,
                pl_count = count, pl_stop = stop, pl_full = full, pl_limit = limit\<rparr>
      else Inl AssertionError)"

definition put_source :: "bool \<Rightarrow> string \<Rightarrow> kws \<Rightarrow> 's world \<Rightarrow> 's world" where
  "put_source flag i src w = (if flag then w\<lparr>bind_args := AList.update i src (bind_args w)\<rparr> else w)"

definition drop_source :: "bool \<Rightarrow> string \<Rightarrow> 's world \<Rightarrow> 's world" where
  "drop_source flag i w = (if flag then w\<lparr>bind_args := AList.delete i (bind_args w)\<rparr> else w)"

text \<open>
  The handler of \<open>invoke\<close> for an exception that is not handled yet pops \<open>kwargs\<close> from the source
  dictionary of a bound item, for its message; the dictionary is the entry of the table.
\<close>

definition fail_source :: "'s item \<Rightarrow> exn \<Rightarrow> bool \<Rightarrow> string \<Rightarrow> kws \<Rightarrow> 's world \<Rightarrow> 's world" where
  "fail_source it e flag pid src w =
     (if unbound it \<or> is_handled e then w else put_source flag pid (AList.delete ''kwargs'' src) w)"

text \<open>
  One pass over the items. The keyword arguments reach the first item only (\<open>kw.clear()\<close>), and
  every output is stored under its item's id in the source dictionary, which is the same object
  as the entry of \<open>locals['bind_args']\<close>.
\<close>

fun run_items ::
    "string \<Rightarrow> bool \<Rightarrow> (string \<times> 's item) list \<Rightarrow> val \<Rightarrow> kws \<Rightarrow> kws \<Rightarrow> ('s world, val \<times> kws \<times> kws) sx" where
  "run_items pid flag [] out kw src w = (Inr (out, kw, src), w)"
| "run_items pid flag ((i, it) # its) out kw src w =
     (case call_item it out (Some src) kw w of
        (Inl e, w1) \<Rightarrow> (Inl (to_flow_exn e), fail_source it e flag pid src w1)
      | (Inr out', w1) \<Rightarrow>
          (let src' = AList.update i out' src
           in run_items pid flag its out' [] src' (put_source flag pid src' w1)))"

definition split_exp :: "bool \<Rightarrow> val \<Rightarrow> (val \<times> val) res" where
  "split_exp full out =
     (if full then Inr (out, out)
      else (case out of
              VTuple (x # y # zs) \<Rightarrow> Inr (x, VTuple (y # zs))
            | VPkg (x # y # zs) \<Rightarrow> Inr (x, VPkg (y # zs))
            | _ \<Rightarrow> Inl AssertionError))"

definition ask_stop :: "'s item option \<Rightarrow> val \<Rightarrow> ('s world, bool) sx" where
  "ask_stop stop e =
     (case stop of
        None \<Rightarrow> sret False
      | Some it \<Rightarrow> sbind (invoke it e None []) (\<lambda>v. sret (truthy v)))"

text \<open>\<open>on_limit(output, done, limit)\<close> may return a larger limit.\<close>

definition ask_limit :: "'s item option \<Rightarrow> bool \<Rightarrow> val \<Rightarrow> nat \<Rightarrow> nat \<Rightarrow> ('s world, nat) sx" where
  "ask_limit limit is_loop out done count =
     (case limit of
        Some it \<Rightarrow>
          (if done = count \<and> is_loop then
             sbind (invoke it (package_new [out, VInt (int done), VInt (int count)]) None [])
               (\<lambda>v. sret (case v of VInt n \<Rightarrow> (if n > int count then nat n else count) | _ \<Rightarrow> count))
           else sret count)
      | None \<Rightarrow> sret count)"

text \<open>
  The \<open>while\<close> loop of \<open>_run\<close>; \<open>done\<close> is \<open>_iteration_idx + 1\<close>. An \<open>on_limit\<close> that always asks
  for more keeps it running, so it takes fuel, and \<open>None\<close> is a run that has not ended.
\<close>

fun pipe_loop ::
    "nat \<Rightarrow> 's pipeline \<Rightarrow> bool \<Rightarrow> nat \<Rightarrow> nat \<Rightarrow> val \<Rightarrow> kws \<Rightarrow> kws \<Rightarrow> 's world
     \<Rightarrow> ((exn + (val \<times> nat)) \<times> 's world) option" where
  "pipe_loop 0 p flag done count out kw src w = None"
| "pipe_loop (Suc fuel) p flag done count out kw src w =
     (if \<not> done < count then Some (Inr (out, done), w)
      else case run_items (pl_id p) flag (pl_items p) out kw src w of
        (Inl e, w1) \<Rightarrow> Some (Inl e, w1)
      | (Inr (out1, kw1, src1), w1) \<Rightarrow>
          (case split_exp (pl_full p) out1 of
             Inl e \<Rightarrow> Some (Inl e, w1)
           | Inr (ex, out2) \<Rightarrow>
               (case ask_stop (pl_stop p) ex w1 of
                  (Inl e, w2) \<Rightarrow> Some (Inl e, w2)
                | (Inr True, w2) \<Rightarrow> Some (Inr (out2, Suc done), w2)
                | (Inr False, w2) \<Rightarrow>
                    (case ask_limit (pl_limit p) (pl_loop p) out2 (Suc done) count w2 of
                       (Inl e, w3) \<Rightarrow> Some (Inl e, w3)
                     | (Inr count', w3) \<Rightarrow>
                         pipe_loop fuel p flag (Suc done) count' out2 kw1 src1 w3))))"

definition record_iterations :: "'s pipeline \<Rightarrow> nat \<Rightarrow> 's world \<Rightarrow> 's world" where
  "record_iterations p n w =
     (case actual_iterations w of
        Some d \<Rightarrow> (if pl_loop p then w\<lparr>actual_iterations := Some (AList.update (pl_id p) n d)\<rparr> else w)
      | None \<Rightarrow> w)"

definition init_source :: "'s pipeline \<Rightarrow> val \<Rightarrow> kws \<Rightarrow> kws" where
  "init_source p inp kw = [(''source'', VStr (pl_id p)), (''input'', inp), (''kwargs'', VDict kw)]"

definition pipeline_run ::
    "nat \<Rightarrow> 's pipeline \<Rightarrow> val \<Rightarrow> kws \<Rightarrow> 's world \<Rightarrow> ((exn + val) \<times> 's world) option" where
  "pipeline_run fuel p inp kw w =
     (let flag = (case save_flag w of None \<Rightarrow> pl_save p | Some f \<Rightarrow> f);
          src = init_source p inp kw
      in case pipe_loop fuel p flag 0 (pl_count p) inp kw src (put_source flag (pl_id p) src w) of
           None \<Rightarrow> None
         | Some (Inl e, w') \<Rightarrow> Some (Inl e, w')
         | Some (Inr (out, n), w') \<Rightarrow>
             Some (Inr out, drop_source flag (pl_id p) (record_iterations p n w')))"


section \<open>Calling a flow\<close>

text \<open>
  \<open>LazyLLMFlowsBase.__call__\<close>: several positional arguments become one package, the post
  action sees the output, the output is post-processed.
\<close>

definition flows_call ::
    "(val \<Rightarrow> kws \<Rightarrow> ('s world, val) sx) \<Rightarrow> 's item option \<Rightarrow> (val \<Rightarrow> val res) \<Rightarrow> 's callable" where
  "flows_call run post pp args kw =
     sbind (run (case args of [a] \<Rightarrow> a | _ \<Rightarrow> VPkg args) kw) (\<lambda>out.
     sbind (case post of None \<Rightarrow> sret () | Some it \<Rightarrow> sbind (invoke it out None []) (\<lambda>_. sret ())) (\<lambda>_.
     slift (pp out)))"

text \<open>
  A pipeline without \<open>on_limit\<close> as a total function: \<open>Suc (pl_count p)\<close> rounds of fuel are
  enough (\<open>pipeline_run_total\<close> below), so the last branch is never taken.
\<close>

definition pipeline_sx :: "'s pipeline \<Rightarrow> val \<Rightarrow> kws \<Rightarrow> ('s world, val) sx" where
  "pipeline_sx p inp kw w =
     (case pipeline_run (Suc (pl_count p)) p inp kw w of
        Some r \<Rightarrow> r | None \<Rightarrow> (Inl RuntimeError, w))"

definition flow_of :: "'s pipeline \<Rightarrow> 's item" where
  "flow_of p = Flow (flows_call (pipeline_sx p) None Inr)"

section \<open>Facts about one pass\<close>

lemma to_flow_exn_idem [simp]: "to_flow_exn (to_flow_exn e) = to_flow_exn e"
  by (cases e) auto

lemma invoke_Inl_handled: "invoke it inp src kw w = (Inl e, w') \<Longrightarrow> to_flow_exn e = e"
  by (auto simp: invoke_def split: prod.splits sum.splits)

lemma run_items_append:
  "run_items pid flag (xs @ ys) out kw src w =
     sbind (run_items pid flag xs out kw src) (\<lambda>(out', kw', src'). run_items pid flag ys out' kw' src') w"
proof (induction xs arbitrary: out kw src w)
  case (Cons x xs)
  show ?case
    by (cases x) (auto simp: sbind_def Cons.IH Let_def split: prod.splits sum.splits)
qed (simp add: sbind_def)

lemma run_items_Cons_unbound:
  assumes "unbound it"
  shows "run_items pid flag ((i, it) # its) out kw src w =
     (case invoke it out None kw w of
        (Inl e, w1) \<Rightarrow> (Inl e, w1)
      | (Inr out', w1) \<Rightarrow>
          (let src' = AList.update i out' src
           in run_items pid flag its out' [] src' (put_source flag pid src' w1)))"
proof -
  have "item_call it (Some src) = item_call it None" using assms by (cases it) auto
  then have "call_item it out (Some src) kw w = call_item it out None kw w"
    unfolding call_item_def by (simp only:)
  with assms show ?thesis
    by (simp add: invoke_def fail_source_def split: prod.splits sum.splits)
qed

lemma run_items_Inl_handled:
  "run_items pid flag its out kw src w = (Inl e, w') \<Longrightarrow> to_flow_exn e = e"
proof (induction its arbitrary: out kw src w)
  case (Cons x xs)
  obtain i it where x: "x = (i, it)" by fastforce
  from Cons.prems show ?case
    by (auto simp: x Let_def dest: Cons.IH split: prod.splits sum.splits)
qed simp

section \<open>Termination of Pipeline and Loop\<close>

lemma ask_limit_None [simp]: "ask_limit None l out done count w = (Inr count, w)"
  by (simp add: ask_limit_def)

lemma pipe_loop_total:
  assumes "pl_limit p = None" and "count - done < fuel"
  shows "\<exists>r w'. pipe_loop fuel p flag done count out kw src w = Some (r, w')
           \<and> (\<forall>v n. r = Inr (v, n) \<longrightarrow> done \<le> n \<and> n \<le> max done count)"
  using assms(2)
proof (induction fuel arbitrary: "done" out kw src w)
  case (Suc fuel)
  show ?case
  proof (cases "done < count")
    case False
    then show ?thesis by auto
  next
    case True
    with Suc.prems have f: "count - Suc done < fuel" by arith
    have IH: "\<exists>r w'. pipe_loop fuel p flag (Suc done) count out' kw' src' w1 = Some (r, w')
           \<and> (\<forall>v n. r = Inr (v, n) \<longrightarrow> done \<le> n \<and> n \<le> count)" for out' kw' src' w1
      using Suc.IH [OF f, of out' kw' src' w1] True
      by (fastforce simp: max_def split: if_splits)
    from True show ?thesis
      by (auto simp: assms(1) split: prod.splits sum.splits bool.splits) (use IH in blast)
  qed
qed simp

lemma pipeline_run_total:
  assumes "pl_limit p = None" and "pl_count p < fuel"
  shows "\<exists>r. pipeline_run fuel p inp kw w = Some r"
proof -
  have f: "pl_count p - 0 < fuel" using assms(2) by simp
  show ?thesis
    using pipe_loop_total [OF assms(1) f]
    by (fastforce simp: pipeline_run_def Let_def split: option.splits sum.splits prod.splits)
qed

text \<open>More fuel does not change the outcome.\<close>

lemma pipe_loop_fuel_mono:
  "pipe_loop fuel p flag done count out kw src w = Some r \<Longrightarrow>
   pipe_loop (Suc fuel) p flag done count out kw src w = Some r"
proof (induction fuel arbitrary: "done" count out kw src w)
  case (Suc fuel)
  note IH = Suc.IH
  from Suc.prems show ?case
    unfolding pipe_loop.simps(2) [of "Suc fuel" p flag "done" count out kw src w]
      pipe_loop.simps(2) [of fuel p flag "done" count out kw src w]
    by (auto simp del: pipe_loop.simps split: prod.splits sum.splits bool.splits if_splits intro: IH)
qed simp

lemma pipe_loop_fuel_le:
  "pipe_loop f p flag done count out kw src w = Some r \<Longrightarrow> f \<le> g \<Longrightarrow>
   pipe_loop g p flag done count out kw src w = Some r"
proof (induction g)
  case (Suc g)
  then show ?case by (cases "f = Suc g") (auto simp del: pipe_loop.simps intro: pipe_loop_fuel_mono)
qed simp

section \<open>Nested pipelines\<close>

text \<open>An item that leaves the save flag as it found it.\<close>

definition keeps_flag :: "'s item \<Rightarrow> bool" where
  "keeps_flag it \<longleftrightarrow> (\<forall>src args kw w. save_flag (snd (item_call it src args kw w)) = save_flag w)"

lemma invoke_keeps_flag: "keeps_flag it \<Longrightarrow> save_flag (snd (invoke it inp src kw w)) = save_flag w"
  unfolding keeps_flag_def invoke_def call_item_def
  by (auto split: val.splits sum.splits prod.splits) (metis snd_conv)+

section \<open>A pipeline as an item\<close>

lemma run_items_plain:
  assumes "pl_count p = 1" "pl_stop p = None" "pl_limit p = None" "pl_full p"
  shows "pipe_loop (Suc (Suc n)) p flag 0 1 out kw src w =
    (case run_items (pl_id p) flag (pl_items p) out kw src w of
       (Inl e, w1) \<Rightarrow> Some (Inl e, w1)
     | (Inr (out1, kw1, src1), w1) \<Rightarrow> Some (Inr (out1, Suc 0), w1))"
  using assms
  by (auto simp: split_exp_def ask_stop_def split: prod.splits sum.splits)

lemma pipeline_sx_plain:
  assumes "p = mk_pipeline pid its False" and "save_flag w = None"
  shows "pipeline_sx p inp kw w =
    (case run_items pid False its inp kw (init_source p inp kw) w of
       (Inl e, w1) \<Rightarrow> (Inl e, w1)
     | (Inr (out1, kw1, src1), w1) \<Rightarrow> (Inr out1, w1))"
proof -
  have p: "pl_count p = 1" "pl_stop p = None" "pl_limit p = None" "pl_full p" "pl_id p = pid"
    "pl_items p = its" "pl_save p = False" "pl_loop p = False"
    using assms(1) by (simp_all add: mk_pipeline_def)
  have q: "pipe_loop (Suc (Suc 0)) p False 0 1 inp kw src w =
    (case run_items pid False its inp kw src w of
       (Inl e, w1) \<Rightarrow> Some (Inl e, w1)
     | (Inr (out1, kw1, src1), w1) \<Rightarrow> Some (Inr (out1, Suc 0), w1))" for src
    using run_items_plain [OF p(1-4), of 0 False inp kw src w] p by simp
  have r: "record_iterations p n w1 = w1" "put_source False i d w1 = w1" "drop_source False i w1 = w1"
    for n i d w1
    using p by (simp_all add: record_iterations_def put_source_def drop_source_def split: option.splits)
  show ?thesis
    using assms(2) q p
    by (auto simp: pipeline_sx_def pipeline_run_def Let_def r simp del: pipe_loop.simps
        split: prod.splits sum.splits)
qed

section \<open>Items without effects\<close>

definition effect_free :: "'s item \<Rightarrow> bool" where
  "effect_free it \<longleftrightarrow> (\<forall>inp kw. \<exists>r. \<forall>w. invoke it inp None kw w = (r, w))"

definition answer :: "'s item \<Rightarrow> val \<Rightarrow> kws \<Rightarrow> val res" where
  "answer it inp kw = fst (invoke it inp None kw
     \<lparr>ustate = undefined, bind_args = [], save_flag = None, actual_iterations = None\<rparr>)"

lemma effect_free_invoke: "effect_free it \<Longrightarrow> invoke it inp None kw w = (answer it inp kw, w)"
  unfolding effect_free_def answer_def by (metis fst_conv)

text \<open>A function without effects, for the witnesses.\<close>

definition inc_item :: "unit item" where
  "inc_item = Plain (\<lambda>args kw w. (case args of [VInt i] \<Rightarrow> Inr (VInt (i + 1)) | _ \<Rightarrow> Inl TypeError, w))"

lemma plain_effect_free: "effect_free (Plain (\<lambda>args kw w. (g args kw, w)))"
  unfolding effect_free_def
proof (intro allI)
  fix inp :: val and kw :: kws
  let ?c = "case inp of VPkg xs \<Rightarrow> g xs kw
    | VKw d \<Rightarrow> (if set (map fst d) \<inter> set (map fst kw) \<noteq> {} then Inl TypeError else g [] (d @ kw))
    | _ \<Rightarrow> g [inp] kw"
  have c: "call_item (Plain (\<lambda>args kw w. (g args kw, w))) inp None kw w = (?c, w)" for w :: "'a world"
    by (cases inp) (simp_all add: call_item_def)
  have "invoke (Plain (\<lambda>args kw w. (g args kw, w))) inp None kw w =
      (case ?c of Inl e \<Rightarrow> Inl (to_flow_exn e) | Inr v \<Rightarrow> Inr v, w)" for w :: "'a world"
    unfolding invoke_def c by (simp split: sum.splits)
  then show "\<exists>r. \<forall>w :: 'a world. invoke (Plain (\<lambda>args kw w. (g args kw, w))) inp None kw w = (r, w)"
    by blast
qed

lemma inc_item_effect_free: "effect_free inc_item"
  unfolding inc_item_def by (rule plain_effect_free)

definition idle_world :: "unit world" where
  "idle_world = \<lparr>ustate = (), bind_args = [], save_flag = None, actual_iterations = None\<rparr>"

end
