(* ===== verification/FlowProps.thy ===== *)
theory FlowProps
  imports FlowCore
begin

text \<open>
  What \<open>Pipeline\<close> and \<open>Loop\<close> promise: nesting a pipeline is the same as writing its items in
  line, a loop stops within its count, and the table of bound arguments is cleaned up after a run
  that returns, but not after one that raises.
\<close>

fun items_sx :: "(string \<times> 's item) list \<Rightarrow> val \<Rightarrow> ('s world, val) sx" where
  "items_sx [] out = sret out"
| "items_sx ((i, it) # its) out = sbind (invoke it out None []) (items_sx its)"

lemma items_sx_append: "items_sx (xs @ ys) out = sbind (items_sx xs out) (items_sx ys)"
proof (induction xs arbitrary: out)
  case (Cons x xs)
  show ?case by (cases x) (simp add: fun_eq_iff sbind_def Cons.IH split: prod.splits sum.splits)
qed (simp add: fun_eq_iff sbind_def)

lemma items_sx_keeps_flag:
  "\<forall>(i, it) \<in> set its. keeps_flag it \<Longrightarrow> save_flag (snd (items_sx its out w)) = save_flag w"
proof (induction its arbitrary: out w)
  case (Cons x xs)
  obtain i it where x: "x = (i, it)" by fastforce
  obtain r w1 where r: "invoke it out None [] w = (r, w1)" by fastforce
  with Cons.prems x have "save_flag w1 = save_flag w"
    using invoke_keeps_flag [of it out None "[]" w] by auto
  with Cons r x show ?case by (cases r) auto
qed simp

lemma run_items_items_sx:
  assumes "\<forall>(i, it) \<in> set its. unbound it"
  shows "(case run_items pid False its out [] src w of
            (Inl e, w1) \<Rightarrow> (Inl e, w1) | (Inr (out1, kw1, src1), w1) \<Rightarrow> (Inr out1, w1)) =
         items_sx its out w"
  using assms
proof (induction its arbitrary: out src w)
  case (Cons x xs)
  obtain i it where x: "x = (i, it)" by fastforce
  with Cons.prems have u: "unbound it" by auto
  show ?case
  proof (cases "invoke it out None [] w")
    case (Pair r w1)
    with Cons show ?thesis
      by (cases r) (auto simp: x run_items_Cons_unbound [OF u] Let_def put_source_def
          simp del: run_items.simps(2))
  qed
qed simp

lemma items_sx_Inl_handled: "items_sx its out w = (Inl e, w') \<Longrightarrow> to_flow_exn e = e"
proof (induction its arbitrary: out w)
  case (Cons x xs)
  then show ?case by (cases x) (auto simp: sbind_eq dest: invoke_Inl_handled)
qed simp

lemma pipeline_sx_items:
  assumes "\<forall>(i, it) \<in> set its. unbound it" and "save_flag w = None"
  shows "pipeline_sx (mk_pipeline pid its False) inp [] w = items_sx its inp w"
  using run_items_items_sx [OF assms(1), of pid inp] pipeline_sx_plain [OF refl assms(2)] by simp

lemma invoke_flow_of:
  assumes "\<forall>(i, it) \<in> set its. unbound it" and "save_flag w = None"
  shows "invoke (flow_of (mk_pipeline pid its False)) inp None [] w = items_sx its inp w"
  using items_sx_Inl_handled [of its inp w]
  by (auto simp: invoke_def call_item_def flow_of_def flows_call_def sbind_def pipeline_sx_items [OF assms]
      split: prod.splits sum.splits)

text \<open>
  A pipeline used as an item of another one computes what its items would compute in its
  place: nesting changes neither the result, nor the exception, nor the effects, as long as no
  item binds arguments by the pipeline's id and the save flag is left alone.
\<close>

theorem pipeline_nested_flatten:
  assumes "\<forall>(i, it) \<in> set (xs @ ys @ zs). unbound it \<and> keeps_flag it" and "save_flag w = None"
  shows "pipeline_sx (mk_pipeline pid (xs @ (q, flow_of (mk_pipeline qid ys False)) # zs) False) inp [] w =
         pipeline_sx (mk_pipeline pid' (xs @ ys @ zs) False) inp [] w"
proof -
  have u: "\<forall>(i, it) \<in> set xs. unbound it" "\<forall>(i, it) \<in> set ys. unbound it" "\<forall>(i, it) \<in> set zs. unbound it"
    and k: "\<forall>(i, it) \<in> set xs. keeps_flag it"
    using assms(1) by auto
  have f: "unbound (flow_of (mk_pipeline qid ys False))" by (simp add: flow_of_def)
  have "sbind (items_sx xs inp) (items_sx ((q, flow_of (mk_pipeline qid ys False)) # zs)) w =
        sbind (items_sx xs inp) (\<lambda>o1. sbind (items_sx ys o1) (items_sx zs)) w"
  proof (cases "items_sx xs inp w")
    case (Pair r w1)
    with items_sx_keeps_flag [OF k, of inp w] assms(2) have "save_flag w1 = None" by simp
    with Pair show ?thesis
      by (cases r) (auto simp: sbind_def invoke_flow_of [OF u(2)])
  qed
  moreover have "items_sx (ys @ zs) = (\<lambda>o1. sbind (items_sx ys o1) (items_sx zs))"
    by (rule ext) (rule items_sx_append)
  ultimately show ?thesis
    using u f assms(2) by (subst (1 2) pipeline_sx_items) (auto simp: items_sx_append)
qed

text \<open>A small function, for the witnesses: it adds a number to an integer and counts its calls.\<close>

definition add_item :: "int \<Rightarrow> nat item" where
  "add_item n = Plain (\<lambda>args kw w. case args of
     [VInt i] \<Rightarrow> (Inr (VInt (i + n)), w\<lparr>ustate := Suc (ustate w)\<rparr>) | _ \<Rightarrow> (Inl TypeError, w))"

definition world0 :: "nat world" where
  "world0 = \<lparr>ustate = 0, bind_args = [], save_flag = None, actual_iterations = None\<rparr>"

lemma add_item_keeps [simp]: "unbound (add_item n)" "keeps_flag (add_item n)"
  by (auto simp: add_item_def keeps_flag_def split: list.splits val.splits)

theorem pipeline_nested_flatten_witness:
  "save_flag world0 = None \<and> pipeline_sx (mk_pipeline ''p'' ([(''a'', add_item 1)] @ (''q'', flow_of (mk_pipeline ''q''
      [(''b'', add_item 2)] False)) # [(''c'', add_item 3)]) False) (VInt 0) [] world0 =
   pipeline_sx (mk_pipeline ''p'' ([(''a'', add_item 1)] @ [(''b'', add_item 2)] @ [(''c'', add_item 3)]) False)
     (VInt 0) [] world0"
proof -
  have h: "save_flag world0 = None" by (simp add: world0_def)
  show ?thesis using h by (intro conjI pipeline_nested_flatten) auto
qed

text \<open>
  A loop without \<open>on_limit\<close> returns: with more fuel than its count a run ends, and when it
  ends without an exception under a trace, the recorded number of iterations is at most the count.
\<close>

theorem loop_run_terminates:
  assumes "pl_limit p = None" and "pl_count p < fuel"
  shows "\<exists>r w'. pipeline_run fuel p inp kw w = Some (r, w') \<and>
           (\<forall>v d. r = Inr v \<and> pl_loop p \<and> actual_iterations w' = Some d \<longrightarrow>
              (\<exists>n \<le> pl_count p. map_of d (pl_id p) = Some n))"
proof -
  have f: "pl_count p - 0 < fuel" using assms(2) by simp
  let ?flag = "case save_flag w of None \<Rightarrow> pl_save p | Some f \<Rightarrow> f"
  let ?src = "init_source p inp kw"
  obtain r w' where r: "pipe_loop fuel p ?flag 0 (pl_count p) inp kw ?src (put_source ?flag (pl_id p) ?src w)
      = Some (r, w')" and n: "\<And>v n. r = Inr (v, n) \<Longrightarrow> n \<le> pl_count p"
    using pipe_loop_total [OF assms(1) f, of ?flag inp kw ?src "put_source ?flag (pl_id p) ?src w"] by auto
  show ?thesis
  proof (cases r)
    case (Inl e)
    with r show ?thesis by (simp add: pipeline_run_def Let_def)
  next
    case (Inr a)
    obtain v k where a: "a = (v, k)" by fastforce
    with Inr n have "k \<le> pl_count p" by simp
    with r Inr a show ?thesis
      by (auto simp: pipeline_run_def Let_def record_iterations_def drop_source_def split: option.splits)
  qed
qed

theorem loop_run_terminates_witness:
  "pl_limit (mk_pipeline ''p'' [(''a'', add_item 1)] False) = None \<and>
   (\<exists>r w'. pipeline_run 2 (mk_pipeline ''p'' [(''a'', add_item 1)] False) (VInt 0) [] world0 = Some (r, w'))"
proof -
  have h: "pl_limit (mk_pipeline ''p'' [(''a'', add_item 1)] False) = None"
    "pl_count (mk_pipeline ''p'' [(''a'', add_item 1)] False) < 2" by (simp_all add: mk_pipeline_def)
  show ?thesis using h loop_run_terminates [OF h, of "VInt 0" "[]" world0] by blast
qed

text \<open>
  When the first item of a saving pipeline raises, the run raises and the entry the pipeline
  put into \<open>locals['bind_args']\<close> stays there: the removal is not in a \<open>finally\<close>.
\<close>

theorem pipeline_error_leaks_source:
  assumes "pl_items p = (i, it) # its" and "unbound it" and "0 < pl_count p" and "save_flag w = Some True"
    and "\<And>args kw' w1. bind_args (snd (item_call it None args kw' w1)) = bind_args w1"
    and "fst (invoke it inp None kw (put_source True (pl_id p) (init_source p inp kw) w)) = Inl e"
  shows "\<exists>w'. pipeline_run (Suc n) p inp kw w = Some (Inl e, w') \<and>
              map_of (bind_args w') (pl_id p) = Some (init_source p inp kw)"
proof -
  let ?src = "init_source p inp kw"
  let ?w = "put_source True (pl_id p) ?src w"
  obtain w' where w': "invoke it inp None kw ?w = (Inl e, w')"
    using assms(6) by (metis prod.collapse)
  have "bind_args (snd (invoke it inp None kw ?w)) = bind_args ?w"
    using assms(5) unfolding invoke_def call_item_def
    by (auto split: val.splits sum.splits prod.splits) (metis snd_conv)+
  with w' have "map_of (bind_args w') (pl_id p) = Some ?src" by (simp add: put_source_def)
  then show ?thesis
    using assms(1,3,4) w' run_items_Cons_unbound [OF assms(2)]
    by (auto simp: pipeline_run_def Let_def simp del: run_items.simps(2))
qed

theorem pipeline_error_leaks_source_witness:
  "\<exists>w'. pipeline_run (Suc 0) (mk_pipeline ''p'' [(''a'', add_item 1)] False) VNone []
     (world0\<lparr>save_flag := Some True\<rparr>) = Some (Inl (Handled ''FlowException''), w') \<and>
   map_of (bind_args w') ''p'' = Some (init_source (mk_pipeline ''p'' [(''a'', add_item 1)] False) VNone [])"
proof -
  let ?p = "mk_pipeline ''p'' [(''a'', add_item 1)] False"
  let ?w = "world0\<lparr>save_flag := Some True\<rparr>"
  have h: "pl_items ?p = (''a'', add_item 1) # []" "0 < pl_count ?p" "save_flag ?w = Some True"
    by (simp_all add: mk_pipeline_def)
  have b: "bind_args (snd (item_call (add_item 1) None args kw' w1)) = bind_args w1" for args kw' w1
    by (auto simp: add_item_def split: list.splits val.splits)
  have e: "fst (invoke (add_item 1) VNone None [] w1) = Inl (Handled ''FlowException'')" for w1
    by (simp add: invoke_def call_item_def add_item_def)
  show ?thesis
    using pipeline_error_leaks_source [OF h(1) add_item_keeps(1) h(2,3) b e, where n = 0]
    by (simp add: mk_pipeline_def)
qed

end
