(* ===== verification/PyText.thy ===== *)
theory PyText
  imports Prelude
begin

text \<open>
  Python's string methods on strings of 8-bit characters (code points below 256): white space,
  \<open>strip\<close>, \<open>startswith\<close>, \<open>split\<close>, \<open>join\<close>, \<open>find\<close>, \<open>replace\<close> and the lower case of ASCII letters.
\<close>

named_theorems py_text \<open>lemmas on Python strings\<close>

definition code :: "char \<Rightarrow> nat" where
  "code c = of_char c"

definition is_space :: "char \<Rightarrow> bool" where
  "is_space c \<longleftrightarrow> (let n = code c in 9 \<le> n \<and> n \<le> 13 \<or> 28 \<le> n \<and> n \<le> 32 \<or> n = 133 \<or> n = 160)"

definition is_digit :: "char \<Rightarrow> bool" where
  "is_digit c \<longleftrightarrow> (let n = code c in 48 \<le> n \<and> n \<le> 57)"

definition is_alpha :: "char \<Rightarrow> bool" where
  "is_alpha c \<longleftrightarrow> (let n = code c in 65 \<le> n \<and> n \<le> 90 \<or> 97 \<le> n \<and> n \<le> 122)"

text \<open>The class \<open>\\w\<close> of a regular expression.\<close>

definition is_word :: "char \<Rightarrow> bool" where
  "is_word c \<longleftrightarrow> is_alpha c \<or> is_digit c \<or> c = CHR ''_'' \<or>
     (let n = code c in n \<in> {170, 178, 179, 181, 185, 186, 188, 189, 190} \<or>
        192 \<le> n \<and> n \<noteq> 215 \<and> n \<noteq> 247)"

definition lower_char :: "char \<Rightarrow> char" where
  "lower_char c = (let n = code c in if 65 \<le> n \<and> n \<le> 90 then char_of (n + 32) else c)"

definition lower :: "string \<Rightarrow> string" where
  "lower s = map lower_char s"

definition lstrip :: "string \<Rightarrow> string" where
  "lstrip s = dropWhile is_space s"

definition rstrip :: "string \<Rightarrow> string" where
  "rstrip s = rev (dropWhile is_space (rev s))"

definition strip :: "string \<Rightarrow> string" where
  "strip s = rstrip (lstrip s)"

definition starts_with :: "string \<Rightarrow> string \<Rightarrow> bool" where
  "starts_with p s \<longleftrightarrow> take (length p) s = p"

definition ends_with :: "string \<Rightarrow> string \<Rightarrow> bool" where
  "ends_with p s \<longleftrightarrow> starts_with (rev p) (rev s)"

fun intercalate :: "'c list \<Rightarrow> 'c list list \<Rightarrow> 'c list" where
  "intercalate sep [] = []"
| "intercalate sep [x] = x"
| "intercalate sep (x # y # zs) = x @ sep @ intercalate sep (y # zs)"

text \<open>\<open>s.split(sep)\<close> for a separator that is not empty; \<open>acc\<close> is the current part, reversed.\<close>

function split_acc :: "string \<Rightarrow> string \<Rightarrow> string \<Rightarrow> string list" where
  "split_acc sep acc [] = [rev acc]"
| "split_acc sep acc (c # cs) =
     (if sep \<noteq> [] \<and> starts_with sep (c # cs)
      then rev acc # split_acc sep [] (drop (length sep) (c # cs))
      else split_acc sep (c # acc) cs)"
  by pat_completeness auto

termination
  by (relation "measure (\<lambda>(sep, acc, s). length s)") (auto simp: neq_Nil_conv)

definition split_on :: "string \<Rightarrow> string \<Rightarrow> string list" where
  "split_on sep s = split_acc sep [] s"

definition replace_all :: "string \<Rightarrow> string \<Rightarrow> string \<Rightarrow> string" where
  "replace_all old new s = intercalate new (split_on old s)"

fun find_from :: "nat \<Rightarrow> string \<Rightarrow> string \<Rightarrow> nat option" where
  "find_from i p [] = (if p = [] then Some i else None)"
| "find_from i p (c # cs) = (if starts_with p (c # cs) then Some i else find_from (Suc i) p cs)"

definition contains :: "string \<Rightarrow> string \<Rightarrow> bool" where
  "contains p s \<longleftrightarrow> find_from 0 p s \<noteq> None"

text \<open>\<open>s.split()\<close>: the runs of characters that are not white space.\<close>

fun words_acc :: "string \<Rightarrow> string \<Rightarrow> string list" where
  "words_acc acc [] = (if acc = [] then [] else [rev acc])"
| "words_acc acc (c # cs) =
     (if is_space c then (if acc = [] then words_acc [] cs else rev acc # words_acc [] cs)
      else words_acc (c # acc) cs)"

definition words :: "string \<Rightarrow> string list" where
  "words s = words_acc [] s"

section \<open>Facts\<close>

lemma starts_with_append [simp, py_text]: "starts_with p (p @ s)"
  by (simp add: starts_with_def)

lemma starts_with_iff [py_text]: "starts_with p s \<longleftrightarrow> (\<exists>t. s = p @ t)"
  by (auto simp: starts_with_def) (metis append_take_drop_id)

lemma starts_with_Nil [simp]: "starts_with [] s"
  by (simp add: starts_with_def)

lemma intercalate_Cons [py_text]: "xs \<noteq> [] \<Longrightarrow> intercalate sep (x # xs) = x @ sep @ intercalate sep xs"
  by (cases xs) auto

lemma split_acc_nonempty [simp]: "split_acc sep acc s \<noteq> []"
  by (induction sep acc s rule: split_acc.induct) auto

text \<open>\<open>sep.join(s.split(sep)) == s\<close>.\<close>

lemma intercalate_split_acc: "intercalate sep (split_acc sep acc s) = rev acc @ s"
proof (induction sep acc s rule: split_acc.induct)
  case (2 sep acc c cs)
  show ?case
  proof (cases "sep \<noteq> [] \<and> starts_with sep (c # cs)")
    case True
    then obtain t where t: "c # cs = sep @ t" by (auto simp: starts_with_iff)
    have "split_acc sep acc (c # cs) = rev acc # split_acc sep [] (drop (length sep) (c # cs))"
      using True by simp
    moreover have "drop (length sep) (c # cs) = t" by (simp add: t)
    ultimately show ?thesis using 2(1) [OF True] by (simp add: intercalate_Cons t)
  next
    case False
    with 2(2) show ?thesis by auto
  qed
qed simp

lemma join_split [simp, py_text]: "intercalate sep (split_on sep s) = s"
  by (simp add: split_on_def intercalate_split_acc)

lemma set_strip: "set (strip s) \<subseteq> set s"
  by (auto simp: strip_def rstrip_def lstrip_def dest!: set_dropWhileD)

lemma strip_nil_iff: "strip s = [] \<longleftrightarrow> list_all is_space s"
proof
  assume n: "strip s = []"
  have "\<forall>x \<in> set (lstrip s). is_space x" using n by (auto simp: strip_def rstrip_def)
  then have "lstrip s = []" by (metis hd_dropWhile hd_in_set lstrip_def)
  then show "list_all is_space s" by (simp add: lstrip_def list_all_iff)
next
  assume "list_all is_space s"
  then have "lstrip s = []" by (simp add: lstrip_def list_all_iff)
  then show "strip s = []" by (simp add: strip_def rstrip_def)
qed

lemma lower_idem [simp]: "lower (lower s) = lower s"
  by (induction s) (auto simp: lower_def lower_char_def code_def Let_def)

end
