(* ===== verification/FlowBranch.thy ===== *)
theory FlowBranch
  imports FlowCore PyText
begin

text \<open>
  The branching flows of \<open>lazyllm/flow/flow.py\<close>: \<open>Parallel\<close> (sequential and concurrent), \<open>Diverter\<close>,
  \<open>Warp\<close>, \<open>Switch\<close> and \<open>IFS\<close>.
\<close>

section \<open>Python equality\<close>

lemma as_tuple_size: "as_tuple a = Some xs \<Longrightarrow> x \<in> set xs \<Longrightarrow> size x < size a"
  by (cases a) (auto dest: size_list_estimation' [OF _ order_refl, where f = size])

lemma as_dict_size: "as_dict a = Some d \<Longrightarrow> (k, v) \<in> set d \<Longrightarrow> size v < size a"
proof -
  have "(k, v) \<in> set d \<Longrightarrow> size v < Suc (size_list (size_prod (\<lambda>_. 0) size) d)" for d :: kws
    by (induction d) auto
  then show "as_dict a = Some d \<Longrightarrow> (k, v) \<in> set d \<Longrightarrow> size v < size a"
    by (cases a) (auto simp: less_Suc_eq_le size_char_def intro: order.trans)
qed

text \<open>
  \<open>==\<close> on values: a package equals a tuple with equal elements, a \<open>kwargs\<close> a dict, a truth value
  the number it is; a dict has no order.
\<close>

function py_eq :: "val \<Rightarrow> val \<Rightarrow> bool" where
  "py_eq a b =
     (case (as_tuple a, as_tuple b) of
        (Some xs, Some ys) \<Rightarrow> length xs = length ys \<and> list_all (\<lambda>(x, y). py_eq x y) (zip xs ys)
      | (Some xs, None) \<Rightarrow> False
      | (None, Some ys) \<Rightarrow> False
      | (None, None) \<Rightarrow>
          (case (as_dict a, as_dict b) of
             (Some d, Some e) \<Rightarrow> fst ` set d = fst ` set e \<and>
                list_all (\<lambda>(k, v). case map_of e k of None \<Rightarrow> False | Some w \<Rightarrow> py_eq v w) d
           | (Some d, None) \<Rightarrow> False
           | (None, Some e) \<Rightarrow> False
           | (None, None) \<Rightarrow>
               (case (a, b) of
                  (VList xs, VList ys) \<Rightarrow>
                     length xs = length ys \<and> list_all (\<lambda>(x, y). py_eq x y) (zip xs ys)
                | (VBool p, VInt j) \<Rightarrow> (if p then 1 else 0) = j
                | (VInt i, VBool q) \<Rightarrow> i = (if q then 1 else 0)
                | _ \<Rightarrow> a = b)))"
  by pat_completeness auto

termination
  by (relation "measure (\<lambda>(a, b). size a)")
     (auto dest!: set_zip_leftD intro: as_tuple_size [OF sym] as_dict_size [OF sym]
       dest: size_list_estimation' [OF _ order_refl, where f = size])

declare py_eq.simps [simp del]

section \<open>Parallel\<close>

datatype post_type = PNone | PDict | PTuple | PList | PSum | PJoin string

record 's parallel =
  pa_items :: "'s item list"
  pa_names :: "string list"
  pa_scatter :: bool
  pa_concurrent :: nat
  pa_post :: post_type

text \<open>An entry of \<open>_kept_items\<close> or \<open>_skip_items\<close>: a position or an item name.\<close>

datatype sel = SIdx nat | SName string

definition sel_hits :: "sel list \<Rightarrow> nat \<Rightarrow> string option \<Rightarrow> bool" where
  "sel_hits ss i n = (SIdx i \<in> set ss \<or> (case n of None \<Rightarrow> False | Some s \<Rightarrow> SName s \<in> set ss))"

text \<open>\<open>zip(self._items, self._item_names or repeat(None))\<close>, with the positions.\<close>

definition named_positions :: "'s parallel \<Rightarrow> (nat \<times> string option) list" where
  "named_positions p =
     (let n = length (pa_items p)
      in if pa_names p = [] then zip [0..<n] (replicate n None)
         else zip [0..<n] (map Some (pa_names p)))"

definition kept_positions :: "'s parallel \<Rightarrow> sel list \<Rightarrow> sel list \<Rightarrow> nat list option res" where
  "kept_positions p kept skip =
     (if kept \<noteq> [] then
        (if skip \<noteq> [] then Inl RuntimeError
         else Inr (Some (map fst (List.filter (\<lambda>(i, n). sel_hits kept i n) (named_positions p)))))
      else if skip \<noteq> [] then
        Inr (Some (map fst (List.filter (\<lambda>(i, n). \<not> sel_hits skip i n) (named_positions p))))
      else Inr None)"

definition pick :: "nat list \<Rightarrow> 'a list \<Rightarrow> 'a list" where
  "pick ids xs = map snd (List.filter (\<lambda>(i, x). i \<in> set ids) (zip [0..<length xs] xs))"

text \<open>
  \<open>_split_input\<close>. A dictionary input with kept positions and no item names makes the
  code enumerate \<open>repeat(None)\<close>, which never ends; that case is the exception \<open>Raised ''endless''\<close>
  here.
\<close>

definition split_input :: "'s parallel \<Rightarrow> val \<Rightarrow> nat \<Rightarrow> nat list option \<Rightarrow> val list res" where
  "split_input p inp n_items kept =
     (let ids = (case kept of None \<Rightarrow> [] | Some ids \<Rightarrow> ids) in
      if pa_scatter p then
        (case as_dict inp of
           Some d \<Rightarrow>
             (if ids \<noteq> [] then
                (if pa_names p = [] then Inl (Raised ''endless'')
                 else rmap (\<lambda>n. of_opt KeyError (map_of d n)) (pick ids (pa_names p)))
              else rmap (\<lambda>n. of_opt KeyError (map_of d n)) (pa_names p))
         | None \<Rightarrow>
             (case as_seq (case inp of VPkg [x] \<Rightarrow> x | _ \<Rightarrow> inp) of
                None \<Rightarrow> Inl AssertionError
              | Some xs \<Rightarrow>
                  (if ids \<noteq> [] \<and> length xs \<noteq> length ids then
                     (if length xs = length (pa_items p) then Inr (pick ids xs) else Inl AssertionError)
                   else Inr xs)))
      else Inr (replicate n_items inp))"

definition resolve_items ::
    "'s parallel \<Rightarrow> val \<Rightarrow> 's item list option \<Rightarrow> sel list \<Rightarrow> sel list \<Rightarrow> ('s item list \<times> val list) res" where
  "resolve_items p inp given kept skip =
     rbind (kept_positions p kept skip) (\<lambda>ko.
       let items0 = (case given of None \<Rightarrow> pa_items p | Some its \<Rightarrow> its);
           items = (case ko of Some (i # is) \<Rightarrow> pick (i # is) (pa_items p) | _ \<Rightarrow> items0)
       in rbind (split_input p inp (length items) ko) (\<lambda>inputs. Inr (items, inputs)))"

text \<open>The sequential mode invokes the items one after the other.\<close>

definition run_sequential :: "('s item \<times> val) list \<Rightarrow> kws \<Rightarrow> ('s world, val) sx" where
  "run_sequential tasks kw =
     sbind (smap (\<lambda>(it, inp). invoke it inp None kw) tasks) (\<lambda>outs. sret (VPkg outs))"

text \<open>
  The concurrent mode with threads. A worker starts with a copy of the caller's locals and its
  changes to them are dropped (\<open>locals._scope\<close>); the save flag is thread-local, so a worker
  has none. \<open>order\<close> is the order in which the tasks happen to run, each as one step; all of
  them run, and the results are collected in the order of submission.
\<close>

definition run_worker :: "'s world \<Rightarrow> kws \<Rightarrow> 's item \<times> val \<Rightarrow> ('s world, val) sx" where
  "run_worker caller kw t w =
     (case invoke (fst t) (snd t) None kw (w\<lparr>bind_args := bind_args caller, save_flag := None\<rparr>) of
        (r, w1) \<Rightarrow> (r, w1\<lparr>bind_args := bind_args caller, save_flag := save_flag caller\<rparr>))"

fun run_schedule ::
    "'s world \<Rightarrow> kws \<Rightarrow> ('s item \<times> val) list \<Rightarrow> nat list \<Rightarrow> 's world \<Rightarrow> (nat \<times> val res) list \<times> 's world" where
  "run_schedule caller kw tasks [] w = ([], w)"
| "run_schedule caller kw tasks (i # is) w =
     (let (r, w1) = run_worker caller kw (tasks ! i) w;
          (rs, w2) = run_schedule caller kw tasks is w1
      in ((i, r) # rs, w2))"

definition run_concurrent :: "nat list \<Rightarrow> ('s item \<times> val) list \<Rightarrow> kws \<Rightarrow> ('s world, val) sx" where
  "run_concurrent order tasks kw w =
     (let (rs, w') = run_schedule w kw tasks order w
      in (rbind (rmap (\<lambda>i. case map_of rs i of Some r \<Rightarrow> r | None \<Rightarrow> Inl RuntimeError) [0..<length tasks])
            (\<lambda>outs. Inr (VPkg outs)), w'))"

definition parallel_run ::
    "nat list \<Rightarrow> 's parallel \<Rightarrow> val \<Rightarrow> 's item list option \<Rightarrow> sel list \<Rightarrow> sel list \<Rightarrow> kws \<Rightarrow> ('s world, val) sx" where
  "parallel_run order p inp given kept skip kw =
     sbind (slift (resolve_items p inp given kept skip)) (\<lambda>(items, inputs).
       if 0 < pa_concurrent p then run_concurrent order (zip items inputs) kw
       else run_sequential (zip items inputs) kw)"

section \<open>Post-processing\<close>

fun py_add :: "val \<Rightarrow> val \<Rightarrow> val res" where
  "py_add (VStr a) (VStr b) = Inr (VStr (a @ b))"
| "py_add (VList a) (VList b) = Inr (VList (a @ b))"
| "py_add (VPkg a) (VPkg b) = Inr (VPkg (a @ b))"
| "py_add (VPkg a) (VTuple b) = Inr (VPkg (a @ b))"
| "py_add (VTuple a) (VTuple b) = Inr (VTuple (a @ b))"
| "py_add (VTuple a) (VPkg b) = Inr (VTuple (a @ b))"
| "py_add (VInt a) (VInt b) = Inr (VInt (a + b))"
| "py_add (VInt a) (VBool b) = Inr (VInt (a + (if b then 1 else 0)))"
| "py_add (VBool a) (VInt b) = Inr (VInt ((if a then 1 else 0) + b))"
| "py_add (VBool a) (VBool b) = Inr (VInt ((if a then 1 else 0) + (if b then 1 else 0)))"
| "py_add _ _ = Inl TypeError"

text \<open>\<open>type(x)()\<close>.\<close>

fun type_new :: "val \<Rightarrow> val res" where
  "type_new VNone = Inr VNone"
| "type_new (VBool b) = Inr (VBool False)"
| "type_new (VInt i) = Inr (VInt 0)"
| "type_new (VStr s) = Inr (VStr [])"
| "type_new (VList xs) = Inr (VList [])"
| "type_new (VTuple xs) = Inr (VTuple [])"
| "type_new (VPkg xs) = Inr (VPkg [])"
| "type_new (VDict d) = Inr (VDict [])"
| "type_new (VKw d) = Inr (VKw [])"
| "type_new (VArgs a k) = Inr (VArgs [] [])"

definition post_process :: "(val \<Rightarrow> string) \<Rightarrow> 's parallel \<Rightarrow> val \<Rightarrow> val res" where
  "post_process rep p out =
     (let xs = (case as_seq out of Some xs \<Rightarrow> xs | None \<Rightarrow> [])
      in case pa_post p of
           PNone \<Rightarrow> Inr out
         | PDict \<Rightarrow> (if pa_names p = [] then Inl AssertionError
                    else Inr (VDict (dict_of (zip (pa_names p) xs))))
         | PTuple \<Rightarrow> Inr (VTuple xs)
         | PList \<Rightarrow> Inr (VList xs)
         | PSum \<Rightarrow> (case xs of
                      [] \<Rightarrow> Inl IndexError
                    | VStr s # _ \<Rightarrow> Inr (VStr (concat (map (py_str rep) xs)))
                    | x # _ \<Rightarrow> rbind (type_new x) (rfold (\<lambda>y acc. py_add acc y) xs))
         | PJoin sep \<Rightarrow> Inr (VStr (intercalate sep (map (py_str rep) xs))))"

section \<open>Diverter and Warp\<close>

definition diverter :: "'s item list \<Rightarrow> string list \<Rightarrow> nat \<Rightarrow> 's parallel" where
  "diverter its names conc = \<lparr>pa_items = its, pa_names = names, pa_scatter = True,
     pa_concurrent = conc, pa_post = PNone\<rparr>"

text \<open>\<open>len(package(x))\<close>.\<close>

definition package_len :: "val \<Rightarrow> nat" where
  "package_len x = (case as_seq x of Some xs \<Rightarrow> length xs | None \<Rightarrow> 1)"

definition warp_run :: "nat list \<Rightarrow> 's parallel \<Rightarrow> val \<Rightarrow> kws \<Rightarrow> ('s world, val) sx" where
  "warp_run order p inp kw =
     (case pa_items p of
        [it] \<Rightarrow> (if ''_skip_items'' \<in> set (map fst kw) \<or> ''_kept_items'' \<in> set (map fst kw)
                then sraise AssertionError
                else parallel_run order p inp (Some (replicate (package_len inp) it)) [] [] kw)
      | _ \<Rightarrow> sraise AssertionError)"

section \<open>Switch and IFS\<close>

text \<open>A condition of a \<open>Switch\<close>: a callable, or a value to compare with.\<close>

datatype 's cond = CFun "'s item" | CVal val

definition cond_holds :: "'s cond \<Rightarrow> val \<Rightarrow> ('s world, bool) sx" where
  "cond_holds c ex =
     (case c of
        CFun it \<Rightarrow> sbind (invoke it ex None []) (\<lambda>v. sret (v = VBool True))
      | CVal v \<Rightarrow> sret (py_eq ex v \<or> py_eq ex (VPkg [v]) \<or> v = VStr ''default''))"

fun switch_find :: "nat \<Rightarrow> 's cond list \<Rightarrow> val \<Rightarrow> ('s world, nat option) sx" where
  "switch_find i [] ex = sret None"
| "switch_find i (c # cs) ex =
     sbind (cond_holds c ex) (\<lambda>b. if b then sret (Some i) else switch_find (Suc i) cs ex)"

record 's switch =
  sw_conds :: "'s cond list"
  sw_items :: "'s item list"
  sw_full :: bool
  sw_conversion :: "'s callable option"

definition switch_split :: "bool \<Rightarrow> val \<Rightarrow> (val \<times> val) res" where
  "switch_split full inp =
     (if full then Inr (inp, inp)
      else (case inp of
              VTuple [x, y] \<Rightarrow> Inr (x, y)
            | VPkg [x, y] \<Rightarrow> Inr (x, y)
            | VTuple (x # y # zs) \<Rightarrow> Inr (x, VTuple (y # zs))
            | VPkg (x # y # zs) \<Rightarrow> Inr (x, VPkg (y # zs))
            | _ \<Rightarrow> Inl AssertionError))"

definition switch_run :: "'s switch \<Rightarrow> val \<Rightarrow> kws \<Rightarrow> ('s world, val) sx" where
  "switch_run s inp kw =
     sbind (slift (switch_split (sw_full s) inp)) (\<lambda>(ex, inp').
     sbind (case sw_conversion s of
              None \<Rightarrow> sret ex
            | Some f \<Rightarrow> f (case ex of VPkg xs \<Rightarrow> xs | _ \<Rightarrow> [ex]) []) (\<lambda>ex'.
     sbind (switch_find 0 (sw_conds s) ex') (\<lambda>r.
       case r of
         None \<Rightarrow> sret VNone
       | Some i \<Rightarrow> sbind (slift (py_nth (sw_items s) i)) (\<lambda>it. invoke it inp' None kw))))"

text \<open>
  The condition of an \<open>IFS\<close>: a constant, or a callable with what its signature says about
  parameters, \<open>None\<close> where it cannot be read.
\<close>

datatype 's ifcond = IBool bool | ICall "'s item" "bool option"

definition ifs_flag :: "'s ifcond \<Rightarrow> val \<Rightarrow> kws \<Rightarrow> ('s world, bool) sx" where
  "ifs_flag c inp kw =
     (case c of
        IBool b \<Rightarrow> sret b
      | ICall it (Some True) \<Rightarrow> sbind (invoke it inp None kw) (\<lambda>v. sret (truthy v))
      | ICall it (Some False) \<Rightarrow> sbind (invoke it (VPkg []) None []) (\<lambda>v. sret (truthy v))
      | ICall it None \<Rightarrow>
          (\<lambda>w. case item_call it None [] [] w of
                (Inr v, w1) \<Rightarrow> (Inr (truthy v), w1)
              | (Inl e, w1) \<Rightarrow> sbind (invoke it inp None kw) (\<lambda>v. sret (truthy v)) w1))"

definition ifs_run :: "'s ifcond \<Rightarrow> 's item \<Rightarrow> 's item \<Rightarrow> val \<Rightarrow> kws \<Rightarrow> ('s world, val) sx" where
  "ifs_run c tpath fpath inp kw =
     sbind (ifs_flag c inp kw) (\<lambda>b. invoke (if b then tpath else fpath) inp None kw)"

end
