(* ===== verification/BranchProps.thy ===== *)
theory BranchProps
  imports FlowBranch
begin

text \<open>
  What the branching flows promise: concurrent and sequential execution agree on items without
  effects, whatever the order of the threads; which items a selection runs; what \<open>Warp\<close> and
  \<open>Switch\<close> compute.
\<close>

section \<open>Threads and turns\<close>

lemma smap_effect_free:
  "\<forall>t \<in> set tasks. effect_free (fst t) \<Longrightarrow>
   smap (\<lambda>(it, inp). invoke it inp None kw) tasks w = (rmap (\<lambda>(it, inp). answer it inp kw) tasks, w)"
proof (induction tasks)
  case (Cons t ts)
  obtain it inp where t: "t = (it, inp)" by fastforce
  with Cons.prems have i: "invoke it inp None kw w = (answer it inp kw, w)"
    by (auto intro: effect_free_invoke)
  show ?case
  proof (cases "answer it inp kw")
    case (Inl e)
    with i t show ?thesis by simp
  next
    case (Inr v)
    with i t Cons show ?thesis
      by (cases "rmap (\<lambda>(it, inp). answer it inp kw) ts") simp_all
  qed
qed simp

lemma run_schedule_effect_free:
  assumes "\<forall>t \<in> set tasks. effect_free (fst t)" and "set order \<subseteq> {..<length tasks}"
  shows "run_schedule w kw tasks order w =
         (map (\<lambda>i. (i, answer (fst (tasks ! i)) (snd (tasks ! i)) kw)) order, w)"
  using assms(2)
proof (induction order)
  case (Cons i ids)
  then have "tasks ! i \<in> set tasks" by auto
  with assms(1) have "effect_free (fst (tasks ! i))" by blast
  with Cons show ?case by (simp add: run_worker_def effect_free_invoke)
qed simp

lemma run_sequential_effect_free:
  "\<forall>t \<in> set tasks. effect_free (fst t) \<Longrightarrow>
   run_sequential tasks kw w =
     (rbind (rmap (\<lambda>(it, inp). answer it inp kw) tasks) (\<lambda>outs. Inr (VPkg outs)), w)"
  by (cases "rmap (\<lambda>(it, inp). answer it inp kw) tasks")
     (simp_all add: run_sequential_def smap_effect_free)

text \<open>
  Running the items of a Parallel on threads gives the same package, or the same exception,
  as running them one after the other, in whatever order the threads get to run, when the items have
  no effects.
\<close>

theorem parallel_order_irrelevant:
  assumes "\<forall>t \<in> set tasks. effect_free (fst t)" and "set order = {..<length tasks}"
  shows "run_concurrent order tasks kw w = run_sequential tasks kw w"
proof -
  let ?g = "\<lambda>i. answer (fst (tasks ! i)) (snd (tasks ! i)) kw"
  have s: "run_schedule w kw tasks order w = (map (\<lambda>i. (i, ?g i)) order, w)"
    by (rule run_schedule_effect_free [OF assms(1)]) (simp add: assms(2))
  have m: "map_of (map (\<lambda>i. (i, ?g i)) order) i = Some (?g i)" if "i < length tasks" for i
    using that assms(2) by (simp add: map_of_map_restrict)
  have "rmap (\<lambda>i. case map_of (map (\<lambda>i. (i, ?g i)) order) i of Some r \<Rightarrow> r | None \<Rightarrow> Inl RuntimeError)
      [0..<length tasks] = rmap (\<lambda>(it, inp). answer it inp kw) tasks"
    by (rule rmap_upt_nth) (auto simp: m split: prod.splits)
  then show ?thesis
    by (simp add: run_concurrent_def s run_sequential_effect_free [OF assms(1)])
qed

theorem parallel_order_irrelevant_witness:
  "set [2, 0, 1] = {..<length [(inc_item, VInt 1), (inc_item, VInt 2), (inc_item, VNone)]} \<and>
   run_concurrent [2, 0, 1] [(inc_item, VInt 1), (inc_item, VInt 2), (inc_item, VNone)] [] idle_world =
   run_sequential [(inc_item, VInt 1), (inc_item, VInt 2), (inc_item, VNone)] [] idle_world"
proof -
  have h: "set [2, 0, 1] = {..<length [(inc_item, VInt 1), (inc_item, VInt 2), (inc_item, VNone)]}"
    by (auto simp: lessThan_Suc)
  have e: "\<forall>t \<in> set [(inc_item, VInt 1), (inc_item, VInt 2), (inc_item, VNone)]. effect_free (fst t)"
    by (simp add: inc_item_effect_free)
  show ?thesis using h parallel_order_irrelevant [OF e h, of "[]" idle_world] by simp
qed

section \<open>Selections\<close>

lemma split_input_no_positions: "split_input p inp n (Some []) = split_input p inp n None"
  unfolding split_input_def Let_def option.case ..

text \<open>
  Skipping every item skips none: when \<open>_skip_items\<close> names all the items, the list of kept
  positions is empty, which the code takes for \<open>no selection\<close>, and every item runs.
\<close>

theorem parallel_skip_all_runs_all:
  assumes "skip \<noteq> []" and "\<And>i n. (i, n) \<in> set (named_positions p) \<Longrightarrow> sel_hits skip i n"
  shows "resolve_items p inp None [] skip = resolve_items p inp None [] []"
proof -
  have "List.filter (\<lambda>(i, n). \<not> sel_hits skip i n) (named_positions p) = []"
    using assms(2) by (auto simp: filter_empty_conv)
  then show ?thesis
    using assms(1) by (simp add: resolve_items_def kept_positions_def split_input_no_positions Let_def)
qed

definition two_items :: "unit parallel" where
  "two_items = \<lparr>pa_items = [inc_item, inc_item], pa_names = [''a'', ''b''], pa_scatter = False,
     pa_concurrent = 0, pa_post = PNone\<rparr>"

theorem parallel_skip_all_runs_all_witness:
  "resolve_items two_items (VInt 1) None [] [SIdx 0, SName ''b''] =
     Inr ([inc_item, inc_item], [VInt 1, VInt 1])"
proof -
  have "resolve_items two_items (VInt 1) None [] [SIdx 0, SName ''b''] =
        resolve_items two_items (VInt 1) None [] []"
    by (rule parallel_skip_all_runs_all) (auto simp: named_positions_def two_items_def sel_hits_def upt_rec)
  then show ?thesis
    by (simp add: resolve_items_def kept_positions_def split_input_def two_items_def numeral_2_eq_2)
qed

section \<open>Warp\<close>

lemma warp_run_list:
  assumes "pa_items p = [it]" and "pa_scatter p" and "pa_concurrent p = 0"
    and "''_skip_items'' \<notin> fst ` set kw" and "''_kept_items'' \<notin> fst ` set kw"
  shows "warp_run order p (VList xs) kw = run_sequential (map (Pair it) xs) kw"
proof -
  have "zip (replicate (length xs) it) xs = map (Pair it) xs" by (simp add: zip_replicate1)
  then show ?thesis
    using assms
    by (simp add: fun_eq_iff warp_run_def parallel_run_def resolve_items_def kept_positions_def split_input_def
        package_len_def sbind_def)
qed

text \<open>
  \<open>Warp\<close> maps its item over a list, but a package that holds one list (what a \<open>Parallel\<close> of one
  item returns) reaches only the list's first element: the number of items is taken from the package,
  the inputs from the list inside.
\<close>

theorem warp_single_package_takes_first:
  assumes "pa_items p = [it]" and "pa_scatter p" and "pa_concurrent p = 0"
    and "''_skip_items'' \<notin> fst ` set kw" and "''_kept_items'' \<notin> fst ` set kw"
  shows "warp_run order p (VPkg [VList (x # xs)]) kw = run_sequential [(it, x)] kw \<and>
         warp_run order p (VList (x # xs)) kw = run_sequential (map (Pair it) (x # xs)) kw"
  using assms warp_run_list [OF assms, of order "x # xs"]
  by (simp add: fun_eq_iff warp_run_def parallel_run_def resolve_items_def kept_positions_def split_input_def
      package_len_def sbind_def)

theorem warp_single_package_takes_first_witness:
  "warp_run [] (diverter [inc_item] [] 0) (VPkg [VList [VInt 1, VInt 2]]) [] idle_world = (Inr (VPkg [VInt 2]), idle_world) \<and>
   warp_run [] (diverter [inc_item] [] 0) (VList [VInt 1, VInt 2]) [] idle_world = (Inr (VPkg [VInt 2, VInt 3]), idle_world)"
proof -
  have d: "pa_items (diverter [inc_item] [] 0) = [inc_item]" "pa_scatter (diverter [inc_item] [] 0)"
    "pa_concurrent (diverter [inc_item] [] 0) = 0" by (simp_all add: diverter_def)
  have n: "''_skip_items'' \<notin> fst ` set ([] :: kws)" "''_kept_items'' \<notin> fst ` set ([] :: kws)" by simp_all
  show ?thesis
    using warp_single_package_takes_first [OF d n, of "[]" "VInt 1" "[VInt 2]"]
    by (simp add: run_sequential_def invoke_def call_item_def inc_item_def sbind_def)
qed

section \<open>Switch\<close>

definition val_matches :: "val \<Rightarrow> val \<Rightarrow> bool" where
  "val_matches ex v \<longleftrightarrow> py_eq ex v \<or> py_eq ex (VPkg [v]) \<or> v = VStr ''default''"

lemma switch_find_vals:
  "switch_find k (map CVal vs) ex w =
     (Inr (case List.find (\<lambda>(i, v). val_matches ex v) (zip [k..<k + length vs] vs) of
             None \<Rightarrow> None | Some (i, v) \<Rightarrow> Some i), w)"
proof (induction vs arbitrary: k)
  case (Cons v vs)
  have "[k..<k + length (v # vs)] = k # [Suc k..<Suc k + length vs]" by (simp add: upt_rec)
  then show ?case
    using Cons [of "Suc k"] by (simp add: cond_holds_def val_matches_def)
qed simp

text \<open>
  A Switch over plain values runs exactly the branch of the first condition that matches the
  whole input, and returns \<open>None\<close> without running anything when no condition matches.
\<close>

theorem switch_first_match:
  assumes "sw_conds s = map CVal vs" and "sw_full s" and "sw_conversion s = None"
    and "length (sw_items s) = length vs"
  shows "switch_run s inp kw w =
     (if \<exists>v \<in> set vs. val_matches inp v
      then invoke (sw_items s ! length (takeWhile (\<lambda>v. \<not> val_matches inp v) vs)) inp None kw w
      else (Inr VNone, w))"
proof -
  have f: "(case List.find (\<lambda>(i, v). val_matches inp v) (zip [k..<k + length vs] vs) of
             None \<Rightarrow> None | Some (i, v) \<Rightarrow> Some i) =
     (if \<exists>v \<in> set vs. val_matches inp v
      then Some (k + length (takeWhile (\<lambda>v. \<not> val_matches inp v) vs)) else None)" for k
  proof (induction vs arbitrary: k)
    case (Cons v vs)
    have "[k..<k + length (v # vs)] = k # [Suc k..<Suc k + length vs]" by (simp add: upt_rec)
    then show ?case using Cons [of "Suc k"] by simp
  qed simp
  have l: "length (takeWhile (\<lambda>v. \<not> val_matches inp v) vs) < length (sw_items s)"
    if "\<exists>v \<in> set vs. val_matches inp v"
    using that assms(4) by (metis length_takeWhile_le nat_less_le takeWhile_eq_all_conv takeWhile_eq_take take_all)
  have "switch_find 0 (sw_conds s) inp w =
     (Inr (if \<exists>v \<in> set vs. val_matches inp v
      then Some (length (takeWhile (\<lambda>v. \<not> val_matches inp v) vs)) else None), w)"
    using switch_find_vals [of 0 vs inp w] f [of 0] by (simp add: assms(1))
  then show ?thesis
    using assms(2,3) l by (auto simp: switch_run_def switch_split_def sbind_def py_nth_def)
qed

theorem switch_first_match_witness:
  "switch_run \<lparr>sw_conds = map CVal [VInt 1, VInt 2, VStr ''default''], sw_items = [inc_item, inc_item, inc_item],
     sw_full = True, sw_conversion = None\<rparr> (VInt 2) [] idle_world = (Inr (VInt 3), idle_world)"
proof -
  let ?s = "\<lparr>sw_conds = map CVal [VInt 1, VInt 2, VStr ''default''],
     sw_items = [inc_item, inc_item, inc_item], sw_full = True, sw_conversion = None\<rparr>"
  have h: "sw_conds ?s = map CVal [VInt 1, VInt 2, VStr ''default'']" "sw_full ?s" "sw_conversion ?s = None"
    "length (sw_items ?s) = length [VInt 1, VInt 2, VStr ''default'']" by simp_all
  show ?thesis
    using switch_first_match [OF h, of "VInt 2" "[]" idle_world]
    by (simp add: val_matches_def py_eq.simps invoke_def call_item_def inc_item_def)
qed

end
