(* ===== verification/GraphSort.thy ===== *)
theory GraphSort
  imports Prelude
begin

text \<open>
  The nodes and edges of \<open>Graph\<close> in \<open>lazyllm/flow/flow.py\<close>, and \<open>topological_sort\<close>, with the
  proof that it returns an order of the connected nodes exactly when the graph has no cycle. The
  functions of the nodes, the formatters of the edges and the constants are type parameters.
\<close>

record ('f, 'm) gnode =
  gn_func :: "'f option"
  gn_args :: "string list"
  gn_inputs :: "(string, 'm option) dict"
  gn_outputs :: "string list"

record ('f, 'm, 'c) graph =
  gr_nodes :: "(string, ('f, 'm) gnode) dict"
  gr_in :: "(string, int) dict"
  gr_out :: "(string, int) dict"
  gr_sorted :: "string list option"
  gr_consts :: "'c list"

definition start_name :: string where "start_name = ''__start__''"
definition end_name :: string where "end_name = ''__end__''"

definition new_node :: "'f option \<Rightarrow> ('f, 'm) gnode" where
  "new_node f = \<lparr>gn_func = f, gn_args = [], gn_inputs = [], gn_outputs = []\<rparr>"

text \<open>\<open>__post_init__\<close>: the named items, then the start and the end node.\<close>

definition graph_init :: "'f \<Rightarrow> (string \<times> 'f) list \<Rightarrow> ('f, 'm, 'c) graph" where
  "graph_init ident items =
     (let ns = AList.update end_name (new_node (Some ident))
                 (AList.update start_name (new_node None)
                   (dict_of (map (\<lambda>(n, f). (n, new_node (Some f))) items)));
          zero = map (\<lambda>(n, nd). (n, 0)) ns
      in \<lparr>gr_nodes = ns, gr_in = zero, gr_out = zero, gr_sorted = None, gr_consts = []\<rparr>)"

definition set_node :: "string \<Rightarrow> ('f, 'm) gnode \<Rightarrow> ('f, 'm, 'c) graph \<Rightarrow> ('f, 'm, 'c) graph" where
  "set_node n nd g = g\<lparr>gr_nodes := AList.update n nd (gr_nodes g)\<rparr>"

definition bump :: "string \<Rightarrow> (string, int) dict \<Rightarrow> (string, int) dict" where
  "bump n d = AList.update n (dict_get d n 0 + 1) d"

text \<open>
  One edge. The target joins the source's outputs before the check for a duplicate, so a refused
  edge still leaves that entry behind.
\<close>

definition add_edge1 :: "string \<Rightarrow> string \<Rightarrow> 'm option \<Rightarrow> (('f, 'm, 'c) graph, unit) sx" where
  "add_edge1 f t fmt g =
     (case map_of (gr_nodes g) f of
        None \<Rightarrow> (Inl KeyError, g)
      | Some fn \<Rightarrow>
          (case map_of (gr_nodes g) t of
             None \<Rightarrow> (Inl KeyError, g)
           | Some _ \<Rightarrow>
               (let g1 = set_node f (fn\<lparr>gn_outputs := gn_outputs fn @ [t]\<rparr>) g in
                case map_of (gr_nodes g1) t of
                  None \<Rightarrow> (Inl KeyError, g1)
                | Some tn \<Rightarrow>
                    (if f \<in> set (map fst (gn_inputs tn)) then (Inl AssertionError, g1)
                     else (let g2 = set_node t (tn\<lparr>gn_inputs := AList.update f fmt (gn_inputs tn)\<rparr>) g1
                           in (Inr (), g2\<lparr>gr_in := bump t (gr_in g2), gr_out := bump f (gr_out g2)\<rparr>))))))"

datatype endp = EName string | EMany "endp list"

fun add_edge :: "endp \<Rightarrow> endp \<Rightarrow> 'm option \<Rightarrow> (('f, 'm, 'c) graph, unit) sx" where
  "add_edge (EMany fs) t fmt = sfor (\<lambda>f. add_edge f t fmt) fs"
| "add_edge (EName f) (EMany ts) fmt = sfor (\<lambda>t. add_edge (EName f) t fmt) ts"
| "add_edge (EName f) (EName t) fmt = add_edge1 f t fmt"

definition const_prefix :: string where "const_prefix = ''_lazyllm_constant_''"

definition const_name :: "nat \<Rightarrow> string" where
  "const_name n = const_prefix @ show_nat n"

definition add_const_edge1 :: "'c \<Rightarrow> string \<Rightarrow> (('f, 'm, 'c) graph, unit) sx" where
  "add_const_edge1 c t g =
     (case map_of (gr_nodes g) t of
        None \<Rightarrow> (Inl KeyError, g)
      | Some tn \<Rightarrow>
          (Inr (), (set_node t (tn\<lparr>gn_inputs := AList.update (const_name (length (gr_consts g))) None (gn_inputs tn)\<rparr>) g)
                     \<lparr>gr_consts := gr_consts g @ [c]\<rparr>))"

fun add_const_edge :: "'c \<Rightarrow> endp \<Rightarrow> (('f, 'm, 'c) graph, unit) sx" where
  "add_const_edge c (EMany ts) = sfor (add_const_edge c) ts"
| "add_const_edge c (EName t) = add_const_edge1 c t"

section \<open>topological_sort\<close>

definition outs :: "('f, 'm, 'c) graph \<Rightarrow> string \<Rightarrow> string list" where
  "outs g n = (case map_of (gr_nodes g) n of None \<Rightarrow> [] | Some nd \<Rightarrow> gn_outputs nd)"

fun relax :: "string list \<Rightarrow> (string, int) dict \<Rightarrow> string list \<Rightarrow> ((string, int) dict \<times> string list) res" where
  "relax [] deg q = Inr (deg, q)"
| "relax (t # ts) deg q =
     (case map_of deg t of
        None \<Rightarrow> Inl KeyError
      | Some d \<Rightarrow> relax ts (AList.update t (d - 1) deg) (if d - 1 = 0 then q @ [t] else q))"

definition pending :: "(string, int) dict \<Rightarrow> nat" where
  "pending deg = length (List.filter (\<lambda>(n, d). 0 < d) deg)"

lemma pending_update:
  "map_of deg t = Some d \<Longrightarrow>
   pending (AList.update t v deg) + (if 0 < d then 1 else 0) = pending deg + (if 0 < v then 1 else 0)"
  by (induction deg) (auto simp: pending_def split: if_splits)

lemma relax_pending: "relax ts deg q = Inr (deg', q') \<Longrightarrow> pending deg' + length q' \<le> pending deg + length q"
proof (induction ts arbitrary: deg q)
  case (Cons t ts)
  from Cons.prems obtain d where d: "map_of deg t = Some d" by (auto split: option.splits)
  with Cons.IH [of "AList.update t (d - 1) deg" "if d - 1 = 0 then q @ [t] else q"] Cons.prems
    pending_update [OF d, of "d - 1"]
  show ?case by (auto split: if_splits)
qed simp

text \<open>The \<open>while queue\<close> loop: every round takes a node out, and a node comes in when its count reaches zero.\<close>

function topo_loop ::
    "(string \<Rightarrow> string list) \<Rightarrow> (string, int) dict \<Rightarrow> string list \<Rightarrow> string list \<Rightarrow> string list res" where
  "topo_loop out deg [] sorted_nodes = Inr sorted_nodes"
| "topo_loop out deg (n # q) sorted_nodes =
     (case relax (out n) deg q of
        Inl e \<Rightarrow> Inl e
      | Inr (deg', q') \<Rightarrow> topo_loop out deg' q' (sorted_nodes @ [n]))"
  by pat_completeness auto

termination
  by (relation "measure (\<lambda>(out, deg, q, s). pending deg + length q)") (auto dest!: relax_pending)

definition topological_sort :: "('f, 'm, 'c) graph \<Rightarrow> string list res" where
  "topological_sort g =
     rbind (topo_loop (outs g) (gr_in g)
              (map fst (List.filter (\<lambda>(n, nd). dict_get (gr_in g) n 0 = 0) (gr_nodes g))) [])
       (\<lambda>ns. if length ns \<noteq> length (gr_nodes g) then Inl ValueError
             else Inr (List.filter (\<lambda>n. 0 < dict_get (gr_in g) n 0 \<or> 0 < dict_get (gr_out g) n 0) ns))"

section \<open>Well-formed graphs\<close>

definition names :: "('f, 'm, 'c) graph \<Rightarrow> string set" where
  "names g = fst ` set (gr_nodes g)"

definition edges :: "('f, 'm, 'c) graph \<Rightarrow> (string \<times> string) set" where
  "edges g = {(u, v). v \<in> set (outs g u)}"

text \<open>
  What \<open>__post_init__\<close> sets up and every accepted edge keeps: one entry per node in each table, no
  target twice among a node's outputs, targets that are nodes, the inputs of a node naming the
  sources of its edges, and counts that count edges.
\<close>

definition graph_ok :: "('f, 'm, 'c) graph \<Rightarrow> bool" where
  "graph_ok g \<longleftrightarrow>
     distinct (map fst (gr_nodes g)) \<and>
     (\<forall>u. distinct (outs g u) \<and> set (outs g u) \<subseteq> names g) \<and>
     (\<forall>u v tn. map_of (gr_nodes g) v = Some tn \<longrightarrow> v \<in> set (outs g u) \<longrightarrow> u \<in> fst ` set (gn_inputs tn)) \<and>
     (\<forall>v \<in> names g. map_of (gr_in g) v = Some (int (card {u. (u, v) \<in> edges g}))) \<and>
     (\<forall>u \<in> names g. map_of (gr_out g) u = Some (int (length (outs g u))))"

lemma names_map_of: "n \<in> names g \<longleftrightarrow> (\<exists>nd. map_of (gr_nodes g) n = Some nd)"
  using map_of_eq_None_iff [of "gr_nodes g" n] by (auto simp: names_def)

lemma outs_names: "v \<in> set (outs g u) \<Longrightarrow> u \<in> names g"
  by (cases "map_of (gr_nodes g) u") (auto simp: names_map_of outs_def)

lemma finite_names [simp]: "finite (names g)"
  by (simp add: names_def)

lemma edges_names: "graph_ok g \<Longrightarrow> edges g \<subseteq> names g \<times> names g"
  by (auto simp: edges_def graph_ok_def intro: outs_names)

lemma finite_preds [simp]: "finite {u. (u, v) \<in> edges g}"
  by (rule finite_subset [of _ "names g"]) (auto simp: edges_def intro: outs_names)

lemma outs_set_node [simp]: "outs (set_node n nd g) m = (if m = n then gn_outputs nd else outs g m)"
  by (simp add: outs_def set_node_def)

lemma outs_counts [simp]: "outs (g\<lparr>gr_in := a, gr_out := b\<rparr>) m = outs g m"
  by (simp add: outs_def)

lemma names_set_node: "names (set_node n nd g) = insert n (names g)"
  by (simp add: names_def set_node_def keys_update)

lemma map_of_zeros: "v \<in> fst ` set ns \<Longrightarrow> map_of (map (\<lambda>(n, nd). (n, 0 :: int)) ns) v = Some 0"
  by (induction ns) auto

lemma graph_ok_init: "graph_ok (graph_init ident items :: ('f, 'm, 'c) graph)"
proof -
  define g :: "('f, 'm, 'c) graph" where "g = graph_init ident items"
  let ?d = "dict_of (map (\<lambda>(n, f). (n, new_node (Some f))) items)"
  have "map_of ?d n = Some nd \<Longrightarrow> gn_outputs nd = []" for n and nd :: "('f, 'm) gnode"
    by (auto simp: map_of_dict_of new_node_def dest!: map_of_SomeD)
  then have "map_of (gr_nodes g) n = Some nd \<Longrightarrow> gn_outputs nd = []" for n nd
    by (auto simp: g_def graph_init_def Let_def new_node_def split: if_splits)
  then have o: "outs g u = []" for u
    by (auto simp: outs_def split: option.splits)
  have "map_of (gr_in g) v = Some 0" "map_of (gr_out g) v = Some 0" if "v \<in> names g" for v
    using that by (simp_all add: g_def names_def graph_init_def Let_def map_of_zeros)
  moreover have "distinct (map fst (gr_nodes g))"
    by (auto simp: g_def graph_init_def Let_def intro!: distinct_fst_update distinct_dict_of)
  ultimately have "graph_ok g"
    by (simp add: graph_ok_def o edges_def)
  then show ?thesis by (simp add: g_def)
qed

lemma edges_add: 
  assumes "outs g' = (outs g)(f := outs g f @ [t])"
  shows "edges g' = insert (f, t) (edges g)"
  using assms by (auto simp: edges_def split: if_splits)

text \<open>An accepted edge keeps the graph well-formed.\<close>

lemma add_edge1_ok:
  assumes "add_edge1 f t fmt g = (Inr (), g')" and "graph_ok g"
  shows "graph_ok g' \<and> edges g' = insert (f, t) (edges g) \<and> names g' = names g"
proof -
  from assms(1) obtain fn tn0 where fn: "map_of (gr_nodes g) f = Some fn" and "map_of (gr_nodes g) t = Some tn0"
    by (auto simp: add_edge1_def split: option.splits)
  define g1 where "g1 = set_node f (fn\<lparr>gn_outputs := gn_outputs fn @ [t]\<rparr>) g"
  from assms(1) fn \<open>map_of (gr_nodes g) t = Some tn0\<close>
  obtain tn where tn: "map_of (gr_nodes g1) t = Some tn" and fresh: "f \<notin> fst ` set (gn_inputs tn)"
    and g': "g' = (let g2 = set_node t (tn\<lparr>gn_inputs := AList.update f fmt (gn_inputs tn)\<rparr>) g1
                   in g2\<lparr>gr_in := bump t (gr_in g2), gr_out := bump f (gr_out g2)\<rparr>)"
    by (auto simp: add_edge1_def g1_def Let_def split: option.splits if_splits)
  have mem: "f \<in> names g" "t \<in> names g" using fn \<open>map_of (gr_nodes g) t = Some tn0\<close> by (auto simp: names_map_of)
  have o1: "outs g1 = (outs g)(f := outs g f @ [t])"
    using fn by (auto simp: g1_def outs_def set_node_def)
  have "gn_outputs tn = outs g1 t" using tn by (simp add: outs_def)
  then have o: "outs g' = (outs g)(f := outs g f @ [t])"
    using o1 by (auto simp: g' Let_def)
  have n: "names g' = names g"
    using mem by (auto simp: g' g1_def Let_def names_set_node names_def set_node_def keys_update)
  note e = edges_add [OF o]
  have ok: "distinct (map fst (gr_nodes g))" "\<And>u. distinct (outs g u)" "\<And>u. set (outs g u) \<subseteq> names g"
    "\<And>u v n. map_of (gr_nodes g) v = Some n \<Longrightarrow> v \<in> set (outs g u) \<Longrightarrow> u \<in> fst ` set (gn_inputs n)"
    "\<And>v. v \<in> names g \<Longrightarrow> map_of (gr_in g) v = Some (int (card {u. (u, v) \<in> edges g}))"
    "\<And>u. u \<in> names g \<Longrightarrow> map_of (gr_out g) u = Some (int (length (outs g u)))"
    using assms(2) by (auto simp: graph_ok_def)
  have tn_in: "gn_inputs tn = gn_inputs tn0"
    using tn \<open>map_of (gr_nodes g) t = Some tn0\<close> fn by (auto simp: g1_def set_node_def split: if_splits)
  have new: "t \<notin> set (outs g f)"
    using ok(4) [OF \<open>map_of (gr_nodes g) t = Some tn0\<close>] fresh tn_in by metis
  have inp: "u \<in> fst ` set (gn_inputs n)"
    if "map_of (gr_nodes g') v = Some n" "v \<in> set (outs g' u)" for u v n
  proof (cases "v = t")
    case True
    with that(1) have "gn_inputs n = AList.update f fmt (gn_inputs tn)"
      by (auto simp: g' Let_def set_node_def)
    with True that(2) ok(4) [OF \<open>map_of (gr_nodes g) t = Some tn0\<close>] show ?thesis
      by (auto simp: o keys_update tn_in split: if_splits)
  next
    case False
    with that(1) obtain n0 where "map_of (gr_nodes g) v = Some n0" "gn_inputs n = gn_inputs n0"
      using fn by (auto simp: g' g1_def Let_def set_node_def split: if_splits)
    with False that(2) ok(4) show ?thesis by (auto simp: o split: if_splits)
  qed
  have cnt: "map_of (gr_in g') v = Some (int (card {u. (u, v) \<in> edges g'}))" if "v \<in> names g'" for v
  proof -
    have "{u. (u, v) \<in> edges g'} = (if v = t then insert f {u. (u, v) \<in> edges g} else {u. (u, v) \<in> edges g})"
      by (auto simp: e)
    moreover have "f \<notin> {u. (u, t) \<in> edges g}" using new by (simp add: edges_def)
    ultimately show ?thesis
      using ok(5) that mem n by (auto simp: g' g1_def Let_def bump_def set_node_def dict_get_def)
  qed
  have cnt': "map_of (gr_out g') u = Some (int (length (outs g' u)))" if "u \<in> names g'" for u
    using ok(6) that mem n by (auto simp: o) (auto simp: g' g1_def Let_def bump_def set_node_def dict_get_def)
  have "graph_ok g'"
    unfolding graph_ok_def n
    using ok(2,3) new mem inp cnt cnt' n
    by (auto simp: o) (auto simp: g' g1_def Let_def set_node_def intro!: distinct_fst_update ok(1))
  with e n show ?thesis by simp
qed

lemma add_edge_ok:
  "add_edge f t fmt g = (Inr (), g') \<Longrightarrow> graph_ok g \<Longrightarrow> graph_ok g'"
proof (induction f t fmt arbitrary: g g' rule: add_edge.induct)
  case (1 fs t fmt)
  show ?case
    by (rule sfor_inv [where P = graph_ok, OF 1(2) [unfolded add_edge.simps] 1(3)]) (rule 1(1))
next
  case (2 f ts fmt)
  show ?case
    by (rule sfor_inv [where P = graph_ok, OF 2(2) [unfolded add_edge.simps] 2(3)]) (rule 2(1))
next
  case (3 f t fmt)
  then show ?case using add_edge1_ok [of f t fmt g g'] by simp
qed

section \<open>The loop invariant\<close>

text \<open>
  With \<open>preds out v\<close> the sources of the edges into \<open>v\<close>: the counts are the sources not yet sorted,
  the nodes sorted or queued are those without any, and every sorted node comes after its sources.
\<close>

definition preds :: "(string \<Rightarrow> string list) \<Rightarrow> string \<Rightarrow> string set" where
  "preds out v = {u. v \<in> set (out u)}"

definition kahn_inv ::
    "string set \<Rightarrow> (string \<Rightarrow> string list) \<Rightarrow> (string, int) dict \<Rightarrow> string list \<Rightarrow> string list \<Rightarrow> bool" where
  "kahn_inv N out deg q S \<longleftrightarrow>
     distinct (S @ q) \<and> set (S @ q) \<subseteq> N \<and>
     (\<forall>v \<in> N. map_of deg v = Some (int (card (preds out v - set S)))) \<and>
     (\<forall>v \<in> N. v \<in> set (S @ q) \<longleftrightarrow> preds out v \<subseteq> set S) \<and>
     (\<forall>xs v ys. S = xs @ v # ys \<longrightarrow> preds out v \<subseteq> set xs)"

lemma relax_spec:
  assumes "distinct ts" and "\<forall>t \<in> set ts. map_of deg t \<noteq> None"
  shows "\<exists>deg'. relax ts deg q = Inr (deg', q @ List.filter (\<lambda>t. map_of deg t = Some 1) ts) \<and>
     (\<forall>v. map_of deg' v = (if v \<in> set ts then map_option (\<lambda>d. d - 1) (map_of deg v) else map_of deg v))"
  using assms
proof (induction ts arbitrary: deg q)
  case (Cons t ts)
  then obtain d where d: "map_of deg t = Some d" by auto
  let ?deg = "AList.update t (d - 1) deg"
  have f: "List.filter (\<lambda>s. map_of ?deg s = Some 1) ts = List.filter (\<lambda>s. map_of deg s = Some 1) ts"
    using Cons.prems(1) by (auto intro!: filter_cong)
  from Cons.prems have p: "distinct ts" "\<forall>s \<in> set ts. map_of ?deg s \<noteq> None" by auto
  from Cons.IH [OF p, of "if d - 1 = 0 then q @ [t] else q"] Cons.prems(1) d
  show ?case unfolding f by auto
qed simp

lemma card_one_member: "x \<in> A \<Longrightarrow> card A = Suc 0 \<longleftrightarrow> A = {x}"
  by (metis One_nat_def card_1_singletonE is_singletonI is_singleton_altdef singletonD)

lemma kahn_step:
  assumes fin: "finite N" and out: "\<And>u. distinct (out u)" "\<And>u. set (out u) \<subseteq> N" "\<And>u. out u \<noteq> [] \<Longrightarrow> u \<in> N"
    and inv: "kahn_inv N out deg (n # q) S"
  shows "\<exists>deg' q'. relax (out n) deg q = Inr (deg', q') \<and> kahn_inv N out deg' q' (S @ [n])"
proof -
  let ?P = "preds out"
  have finP: "finite (?P v)" for v
    by (rule finite_subset [OF _ fin]) (auto simp: preds_def intro!: out(3))
  from inv have dist: "distinct (S @ n # q)" and sub: "set (S @ n # q) \<subseteq> N"
    and deg: "\<And>v. v \<in> N \<Longrightarrow> map_of deg v = Some (int (card (?P v - set S)))"
    and mem: "\<And>v. v \<in> N \<Longrightarrow> v \<in> set (S @ n # q) \<longleftrightarrow> ?P v \<subseteq> set S"
    and ord: "\<And>xs v ys. S = xs @ v # ys \<Longrightarrow> ?P v \<subseteq> set xs"
    by (auto simp: kahn_inv_def)
  have nS: "n \<notin> set S" "n \<in> N" "?P n \<subseteq> set S" using dist sub mem [of n] by auto
  have "\<forall>t \<in> set (out n). map_of deg t \<noteq> None" using out(2) deg by (metis option.distinct(1) subsetD)
  from relax_spec [OF out(1) this, of q]
  obtain deg' where r: "relax (out n) deg q = Inr (deg', q @ List.filter (\<lambda>t. map_of deg t = Some 1) (out n))"
    and deg': "\<And>v. map_of deg' v = (if v \<in> set (out n) then map_option (\<lambda>d. d - 1) (map_of deg v) else map_of deg v)"
    by auto
  let ?q = "q @ List.filter (\<lambda>t. map_of deg t = Some 1) (out n)"
  have one: "map_of deg v = Some 1 \<longleftrightarrow> ?P v - set S = {n}" if "v \<in> set (out n)" for v
  proof -
    have "n \<in> ?P v - set S" using that nS by (simp add: preds_def)
    note c = card_one_member [OF this]
    have "v \<in> N" using that out(2) by blast
    from deg [OF this] c show ?thesis by simp
  qed
  have mem': "v \<in> set ((S @ [n]) @ ?q) \<longleftrightarrow> ?P v \<subseteq> set (S @ [n])" if "v \<in> N" for v
  proof (cases "?P v \<subseteq> set S")
    case True
    then show ?thesis using mem [OF that] by auto
  next
    case False
    with mem [OF that] have "v \<notin> set (S @ n # q)" by blast
    moreover have "v \<in> set (out n) \<and> map_of deg v = Some 1 \<longleftrightarrow> ?P v \<subseteq> insert n (set S)"
      using False one [of v] by (auto simp: preds_def)
    ultimately show ?thesis by auto
  qed
  have "set (List.filter (\<lambda>t. map_of deg t = Some 1) (out n)) \<inter> set (S @ n # q) = {}"
  proof -
    have "v \<notin> set (S @ n # q)" if "v \<in> set (out n)" "map_of deg v = Some 1" for v
      using that one [of v] mem [of v] out(2) by blast
    then show ?thesis by auto
  qed
  with dist out(1) have d': "distinct ((S @ [n]) @ ?q)" by auto
  have s': "set ((S @ [n]) @ ?q) \<subseteq> N" using sub out(2) by auto
  have c': "map_of deg' v = Some (int (card (?P v - set (S @ [n]))))" if "v \<in> N" for v
  proof (cases "v \<in> set (out n)")
    case True
    then have "n \<in> ?P v - set S" using nS by (simp add: preds_def)
    moreover have "?P v - set (S @ [n]) = (?P v - set S) - {n}" by auto
    ultimately have "card (?P v - set S) = Suc (card (?P v - set (S @ [n])))"
      using card.remove [of "?P v - set S" n] finP [of v] by simp
    with True deg [OF that] show ?thesis by (simp add: deg')
  next
    case False
    then have "?P v - set (S @ [n]) = ?P v - set S" by (auto simp: preds_def)
    with False deg [OF that] show ?thesis by (simp add: deg')
  qed
  have o': "?P v \<subseteq> set xs" if "S @ [n] = xs @ v # ys" for xs v ys
    using that ord nS by (cases ys rule: rev_cases) auto
  have "kahn_inv N out deg' ?q (S @ [n])"
    unfolding kahn_inv_def
    by (intro conjI ballI allI impI) (rule d' s' c' mem' o'; assumption)+
  with r show ?thesis by blast
qed

lemma topo_loop_inv:
  assumes fin: "finite N" and out: "\<And>u. distinct (out u)" "\<And>u. set (out u) \<subseteq> N" "\<And>u. out u \<noteq> [] \<Longrightarrow> u \<in> N"
    and "kahn_inv N out deg q S"
  shows "\<exists>deg' L. topo_loop out deg q S = Inr L \<and> kahn_inv N out deg' [] L"
  using assms
proof (induction out deg q S rule: topo_loop.induct)
  case (2 out deg n q S)
  obtain deg' q' where r: "relax (out n) deg q = Inr (deg', q')" "kahn_inv N out deg' q' (S @ [n])"
    using kahn_step [OF 2(2) 2(3,4,5) 2(6)] by auto
  show ?case using "2.IH" [OF r(1) refl 2(2-5) r(2)] r(1) by simp
qed auto

section \<open>Correctness of topological_sort\<close>

lemma preds_edges: "preds (outs g) v = {u. (u, v) \<in> edges g}"
  by (simp add: preds_def edges_def)

lemma kahn_inv_init:
  assumes "graph_ok g"
  shows "kahn_inv (names g) (outs g) (gr_in g)
           (map fst (List.filter (\<lambda>(n, nd). dict_get (gr_in g) n 0 = 0) (gr_nodes g))) []"
proof -
  let ?q = "map fst (List.filter (\<lambda>(n, nd). dict_get (gr_in g) n 0 = 0) (gr_nodes g))"
  have d: "map_of (gr_in g) v = Some (int (card (preds (outs g) v)))" if "v \<in> names g" for v
    using assms that by (simp add: graph_ok_def preds_edges)
  have f: "finite (preds (outs g) v)" for v by (simp add: preds_edges)
  have "distinct (map fst (gr_nodes g))" using assms by (simp add: graph_ok_def)
  then have q: "distinct ?q" by (rule distinct_map_filter)
  have "set ?q = {v \<in> names g. dict_get (gr_in g) v 0 = 0}" by (auto simp: names_def)
  also have "\<dots> = {v \<in> names g. preds (outs g) v \<subseteq> {}}" using d f by (auto simp: dict_get_def)
  finally have s: "set ?q = {v \<in> names g. preds (outs g) v \<subseteq> {}}" .
  show ?thesis
    unfolding kahn_inv_def using q s d by simp
qed

lemma kahn_result:
  assumes "graph_ok g" and "kahn_inv (names g) (outs g) deg' [] L"
  shows "length L = length (gr_nodes g) \<longleftrightarrow> acyclic (edges g)"
proof -
  let ?N = "names g"
  have L: "distinct L" "set L \<subseteq> ?N" and mem: "\<And>v. v \<in> ?N \<Longrightarrow> v \<in> set L \<longleftrightarrow> preds (outs g) v \<subseteq> set L"
    and ord: "\<And>xs v ys. L = xs @ v # ys \<Longrightarrow> preds (outs g) v \<subseteq> set xs"
    using assms(2) by (auto simp: kahn_inv_def)
  have "distinct (map fst (gr_nodes g))" using assms(1) by (simp add: graph_ok_def)
  then have len: "length (gr_nodes g) = card ?N"
    by (metis distinct_card length_map list.set_map names_def)
  have full: "length L = length (gr_nodes g) \<longleftrightarrow> set L = ?N"
    using L len by (metis card_subset_eq distinct_card finite_names)
  have "acyclic (edges g)" if "set L = ?N"
  proof (rule acyclicI_order)
    fix u v assume uv: "(u, v) \<in> edges g"
    then have "v \<in> set L" using that edges_names [OF assms(1)] by auto
    then obtain xs ys where xs: "L = xs @ v # ys" "v \<notin> set xs" by (meson split_list_first)
    with ord uv have "u \<in> set xs" by (auto simp: preds_edges)
    then obtain as bs where "xs = as @ u # bs" "u \<notin> set as" by (meson split_list_first)
    with xs show "- int (length (takeWhile ((\<noteq>) v) L)) < - int (length (takeWhile ((\<noteq>) u) L))"
      by (auto simp: takeWhile_append takeWhile_eq_all_conv [THEN iffD2])
  qed
  moreover have "set L = ?N" if "acyclic (edges g)"
  proof (rule ccontr)
    have "finite (edges g)" by (rule finite_subset [OF edges_names [OF assms(1)]]) simp
    then have w: "wf (edges g)" using that by (rule finite_acyclic_wf)
    assume "set L \<noteq> ?N"
    then obtain x where "x \<in> ?N - set L" using L by auto
    from wfE_min [OF w this] obtain z where z: "z \<in> ?N - set L" "\<And>y. (y, z) \<in> edges g \<Longrightarrow> y \<notin> ?N - set L"
      by blast
    then have "preds (outs g) z \<subseteq> set L" using edges_names [OF assms(1)] by (auto simp: preds_edges)
    with z mem show False by auto
  qed
  ultimately show ?thesis using full by blast
qed

lemma filter_split_order:
  assumes "List.filter P L = xs @ v # ys"
  obtains as bs where "L = as @ v # bs" "List.filter P as = xs"
  using assms
proof (induction L arbitrary: xs thesis)
  case (Cons x L)
  show ?case
  proof (cases "P x \<and> xs = []")
    case True
    with Cons.prems show ?thesis by (auto intro: Cons.prems(1) [of "[]"])
  next
    case False
    obtain xs' where x: "xs = (if P x then x # xs' else xs')" "List.filter P L = xs' @ v # ys"
      using Cons.prems(2) False by (cases xs) (auto split: if_splits)
    from x(2) obtain as bs where "L = as @ v # bs" "List.filter P as = xs'" by (rule Cons.IH [rotated])
    with x(1) show ?thesis by (intro Cons.prems(1) [of "x # as" bs]) auto
  qed
qed simp

lemma graph_ok_degrees:
  assumes "graph_ok g" and "n \<in> names g"
  shows "0 < dict_get (gr_in g) n 0 \<or> 0 < dict_get (gr_out g) n 0 \<longleftrightarrow>
         (\<exists>u. (u, n) \<in> edges g \<or> (n, u) \<in> edges g)"
proof -
  have "0 < dict_get (gr_in g) n 0 \<longleftrightarrow> {u. (u, n) \<in> edges g} \<noteq> {}"
    using assms by (simp add: graph_ok_def dict_get_def card_gt_0_iff)
  moreover have "0 < dict_get (gr_out g) n 0 \<longleftrightarrow> outs g n \<noteq> []"
    using assms by (simp add: graph_ok_def dict_get_def)
  ultimately show ?thesis by (auto simp: edges_def neq_Nil_conv) (metis list.set_cases)
qed

lemma topological_sort_spec:
  assumes "graph_ok g"
  shows "if acyclic (edges g)
    then \<exists>ns. topological_sort g = Inr ns \<and> distinct ns \<and>
           set ns = {n \<in> names g. \<exists>u. (u, n) \<in> edges g \<or> (n, u) \<in> edges g} \<and>
           (\<forall>xs v ys u. ns = xs @ v # ys \<and> (u, v) \<in> edges g \<longrightarrow> u \<in> set xs)
    else topological_sort g = Inl ValueError"
proof -
  have out: "\<And>u. distinct (outs g u)" "\<And>u. set (outs g u) \<subseteq> names g"
    using assms by (auto simp: graph_ok_def)
  have src: "\<And>u. outs g u \<noteq> [] \<Longrightarrow> u \<in> names g"
    using outs_names by (metis list.set_intros(1) neq_Nil_conv)
  obtain deg' L where loop: "topo_loop (outs g) (gr_in g)
      (map fst (List.filter (\<lambda>(n, nd). dict_get (gr_in g) n 0 = 0) (gr_nodes g))) [] = Inr L"
    and inv: "kahn_inv (names g) (outs g) deg' [] L"
    using topo_loop_inv [OF finite_names out src kahn_inv_init [OF assms]] by auto
  let ?P = "\<lambda>n. 0 < dict_get (gr_in g) n 0 \<or> 0 < dict_get (gr_out g) n 0"
  note iff = kahn_result [OF assms inv]
  show ?thesis
  proof (cases "acyclic (edges g)")
    case False
    with iff loop show ?thesis by (simp add: topological_sort_def)
  next
    case True
    have L: "distinct L" "set L \<subseteq> names g" using inv by (auto simp: kahn_inv_def)
    have "distinct (map fst (gr_nodes g))" using assms by (simp add: graph_ok_def)
    then have "length (gr_nodes g) = card (names g)"
      by (metis distinct_card length_map list.set_map names_def)
    with L True iff have N: "set L = names g" by (metis card_subset_eq distinct_card finite_names)
    have "u \<in> set xs" if ns: "List.filter ?P L = xs @ v # ys" and uv: "(u, v) \<in> edges g" for xs v ys u
    proof -
      obtain as bs where as: "L = as @ v # bs" "List.filter ?P as = xs"
        using filter_split_order [OF ns] by blast
      have "\<forall>xs v ys. L = xs @ v # ys \<longrightarrow> preds (outs g) v \<subseteq> set xs"
        using inv by (simp add: kahn_inv_def)
      with as(1) have "preds (outs g) v \<subseteq> set as" by blast
      with uv have "u \<in> set as" unfolding preds_edges by blast
      moreover have "?P u" using graph_ok_degrees [OF assms] uv edges_names [OF assms] by blast
      ultimately show ?thesis using as(2) by auto
    qed
    moreover have "set (List.filter ?P L) = {n \<in> names g. \<exists>u. (u, n) \<in> edges g \<or> (n, u) \<in> edges g}"
      using N graph_ok_degrees [OF assms] by auto
    ultimately show ?thesis
      using True iff loop L(1) by (auto simp: topological_sort_def)
  qed
qed

text \<open>
  C2. On a well-formed graph \<open>topological_sort\<close> raises \<open>ValueError\<close> exactly when the edges have a cycle;
  otherwise it returns the nodes that have an edge, each once, every node after all sources of
  its edges.
\<close>

theorem topological_sort_correct:
  assumes "graph_ok g"
  shows "if acyclic (edges g)
    then \<exists>ns. topological_sort g = Inr ns \<and> distinct ns \<and>
           set ns = {n \<in> names g. \<exists>u. (u, n) \<in> edges g \<or> (n, u) \<in> edges g} \<and>
           (\<forall>xs v ys u. ns = xs @ v # ys \<and> (u, v) \<in> edges g \<longrightarrow> u \<in> set xs)
    else topological_sort g = Inl ValueError"
  by (rule topological_sort_spec [OF assms])

definition diamond :: "(unit, unit, unit) graph" where
  "diamond = snd (add_edge (EName start_name) (EMany [EName ''a'', EName ''b'']) None
                   (graph_init () [(''a'', ()), (''b'', ()), (''c'', ())]))"

theorem topological_sort_correct_witness:
  "graph_ok diamond \<and> (if acyclic (edges diamond)
    then \<exists>ns. topological_sort diamond = Inr ns \<and> distinct ns \<and>
           set ns = {n \<in> names diamond. \<exists>u. (u, n) \<in> edges diamond \<or> (n, u) \<in> edges diamond} \<and>
           (\<forall>xs v ys u. ns = xs @ v # ys \<and> (u, v) \<in> edges diamond \<longrightarrow> u \<in> set xs)
    else topological_sort diamond = Inl ValueError) \<and>
   topological_sort diamond = Inr [start_name, ''a'', ''b'']"
proof -
  have "add_edge (EName start_name) (EMany [EName ''a'', EName ''b'']) None
      (graph_init () [(''a'', ()), (''b'', ()), (''c'', ())] :: (unit, unit, unit) graph) = (Inr (), diamond)"
    unfolding diamond_def by code_simp
  then have ok: "graph_ok diamond" by (rule add_edge_ok [OF _ graph_ok_init])
  moreover have "topological_sort diamond = Inr [start_name, ''a'', ''b'']"
    unfolding diamond_def by code_simp
  ultimately show ?thesis using topological_sort_correct [OF ok] by blast
qed

end
