(* ===== verification/FlowGraph.thy ===== *)
theory FlowGraph
  imports FlowCore GraphSort
begin

text \<open>
  Running a \<open>Graph\<close> of \<open>lazyllm/flow/flow.py\<close>: the inputs of a node, the call of its
  function, and the run over the sorted nodes, whose tasks may finish in any order that their
  dependencies allow. Tasks are atomic: the steps inside two node functions do not interleave.
\<close>

type_synonym 's formatter = "val \<Rightarrow> ('s world, val) sx"
type_synonym 's fgraph = "('s item, 's formatter, val) graph"
type_synonym 's fnode = "('s item, 's formatter) gnode"

text \<open>\<open>intermediate_results['values']\<close>, \<open>futures\<close> (finished tasks) and the graph's constants.\<close>

record 's gstate =
  gs_world :: "'s world"
  gs_vals :: "(string, val) dict"
  gs_futs :: "(string, val res) dict"
  gs_consts :: "val list"

definition on_world :: "('s world, 'a) sx \<Rightarrow> ('s gstate, 'a) sx" where
  "on_world m st = (case m (gs_world st) of (r, w) \<Rightarrow> (r, st\<lparr>gs_world := w\<rparr>))"

definition is_const :: "string \<Rightarrow> bool" where
  "is_const nm \<longleftrightarrow> take (length const_prefix) nm = const_prefix"

definition const_index :: "string \<Rightarrow> nat option" where
  "const_index nm = parse_nat (drop (length const_prefix) nm)"

definition formatter_input :: "val \<Rightarrow> val res" where
  "formatter_input r =
     (case r of
        VArgs a k \<Rightarrow> (if (a = []) = (k = []) then Inl RuntimeError
                     else Inr (if a \<noteq> [] then VPkg a else VDict k))
      | _ \<Rightarrow> Inr r)"

text \<open>The value of a predecessor: from the table, or from its future, which then fills the table.\<close>

definition fetch :: "string \<Rightarrow> ('s gstate, val) sx" where
  "fetch nm st =
     (case map_of (gs_vals st) nm of
        Some r \<Rightarrow> (Inr r, st)
      | None \<Rightarrow>
          (case map_of (gs_futs st) nm of
             None \<Rightarrow> (Inl KeyError, st)
           | Some (Inl e) \<Rightarrow> (Inl e, st)
           | Some (Inr r) \<Rightarrow> (Inr r, st\<lparr>gs_vals := AList.update nm r (gs_vals st)\<rparr>)))"

definition get_input :: "string \<Rightarrow> 's fnode \<Rightarrow> ('s gstate, val) sx" where
  "get_input nm nd =
     (if is_const nm then
        (\<lambda>st. (case const_index nm of None \<Rightarrow> Inl ValueError | Some i \<Rightarrow> py_nth (gs_consts st) i, st))
      else
        sbind (fetch nm) (\<lambda>r.
          case map_of (gn_inputs nd) nm of
            None \<Rightarrow> sraise KeyError
          | Some None \<Rightarrow> sret r
          | Some (Some f) \<Rightarrow> sbind (slift (formatter_input r)) (\<lambda>x. on_world (f x))))"

definition node_input :: "'s fnode \<Rightarrow> ('s gstate, val) sx" where
  "node_input nd =
     (case gn_inputs nd of
        [(nm, f)] \<Rightarrow> get_input nm nd
      | ins \<Rightarrow>
          sbind (smap (\<lambda>nm. get_input nm nd) (map fst ins)) (\<lambda>xs.
            slift (rbind (rfold (\<lambda>x a. arguments_append a x) xs ([], []))
                     (\<lambda>(a, k). Inr (VArgs a k)))))"

text \<open>
  \<open>kw.update\<close> with a single input changes the keyword dictionary of that input itself, which
  other nodes read too.
\<close>

definition shared_kw :: "'s fnode \<Rightarrow> val list \<Rightarrow> kws \<Rightarrow> 's gstate \<Rightarrow> 's gstate" where
  "shared_kw nd a kw st =
     (case gn_inputs nd of
        [(nm, f)] \<Rightarrow>
          (if is_const nm then
             (case const_index nm of
                None \<Rightarrow> st | Some i \<Rightarrow> st\<lparr>gs_consts := (gs_consts st)[i := VArgs a kw]\<rparr>)
           else if f = None then
             st\<lparr>gs_vals := AList.update nm (VArgs a kw) (gs_vals st),
                gs_futs := (if nm \<in> set (map fst (gs_futs st))
                            then AList.update nm (Inr (VArgs a kw)) (gs_futs st) else gs_futs st)\<rparr>
           else st)
      | _ \<Rightarrow> st)"

definition bind_names :: "string list \<Rightarrow> val \<Rightarrow> kws \<Rightarrow> kws" where
  "bind_names ns inp kw =
     fold (\<lambda>(k, v) d. AList.update k v d)
       (zip ns (case as_seq inp of Some xs \<Rightarrow> xs | None \<Rightarrow> [inp])) kw"

definition compute_node :: "'s fnode \<Rightarrow> ('s gstate, val) sx" where
  "compute_node nd =
     sbind (node_input nd) (\<lambda>inp.
       let (inp1, kw) = (case inp of VArgs a k \<Rightarrow> (VPkg a, k) | _ \<Rightarrow> (inp, []));
           call = (\<lambda>x k. case gn_func nd of
                     None \<Rightarrow> sraise (to_flow_exn TypeError)
                   | Some it \<Rightarrow> on_world (invoke it x None k))
       in if gn_args nd = [] then call inp1 kw
          else let kw1 = bind_names (gn_args nd) inp1 kw
               in sbind (case inp of VArgs a k \<Rightarrow> supd (shared_kw nd a kw1) | _ \<Rightarrow> sret ())
                    (\<lambda>_. call (VPkg []) kw1))"

definition run_task :: "'s fgraph \<Rightarrow> string \<Rightarrow> 's gstate \<Rightarrow> 's gstate" where
  "run_task g n st =
     (case map_of (gr_nodes g) n of
        None \<Rightarrow> st
      | Some nd \<Rightarrow> (case compute_node nd st of (r, st') \<Rightarrow> st'\<lparr>gs_futs := AList.update n r (gs_futs st')\<rparr>))"

definition start_value :: "val \<Rightarrow> kws \<Rightarrow> val" where
  "start_value inp kw =
     (if truthy inp \<and> kw \<noteq> [] then (let (a, k) = arguments_init (Some inp) (Some kw) in VArgs a k)
      else if kw \<noteq> [] then VDict kw else inp)"

definition graph_tasks :: "'s fgraph \<Rightarrow> string list \<Rightarrow> string list \<Rightarrow> val \<Rightarrow> kws \<Rightarrow> 's world \<Rightarrow> 's gstate" where
  "graph_tasks g ns order inp kw w =
     fold (run_task g) order
       \<lparr>gs_world = w, gs_vals = (if start_name \<in> set ns then [(start_name, start_value inp kw)] else []),
        gs_futs = [], gs_consts = gr_consts g\<rparr>"

text \<open>
  \<open>_run\<close>: the sorted nodes are computed once and kept; \<open>order\<close> is the order in which the
  tasks of all sorted nodes but the start finish.
\<close>

definition graph_run :: "string list \<Rightarrow> val \<Rightarrow> kws \<Rightarrow> 's fgraph \<times> 's world \<Rightarrow> val res \<times> 's fgraph \<times> 's world" where
  "graph_run order inp kw gw =
     (let (g, w) = gw in
      case (case gr_sorted g of Some (n # ns) \<Rightarrow> Inr (n # ns) | _ \<Rightarrow> topological_sort g) of
        Inl e \<Rightarrow> (Inl e, g, w)
      | Inr ns \<Rightarrow>
          (let st = graph_tasks g ns order inp kw w
           in (case map_of (gs_futs st) end_name of None \<Rightarrow> Inl KeyError | Some r \<Rightarrow> r,
               g\<lparr>gr_sorted := Some ns, gr_consts := gs_consts st\<rparr>, gs_world st)))"

definition set_node_arg_name :: "string list \<Rightarrow> string list list \<Rightarrow> ('f, 'm, 'c) graph \<Rightarrow> (('f, 'm, 'c) graph) res" where
  "set_node_arg_name item_names arg_names g =
     rfold (\<lambda>(n, a) g. case map_of (gr_nodes g) n of
              None \<Rightarrow> Inl KeyError
            | Some nd \<Rightarrow> Inr (set_node n (nd\<lparr>gn_args := a\<rparr>) g))
       (zip item_names arg_names) g"

section \<open>Inputs come from edges\<close>

definition inputs_sourced :: "('f, 'm, 'c) graph \<Rightarrow> bool" where
  "inputs_sourced g \<longleftrightarrow>
     (\<forall>v nd k. map_of (gr_nodes g) v = Some nd \<longrightarrow> k \<in> fst ` set (gn_inputs nd) \<longrightarrow>
        is_const k \<or> (k, v) \<in> edges g)"

lemma inputs_sourced_init: "inputs_sourced (graph_init ident items :: ('f, 'm, 'c) graph)"
proof -
  let ?d = "dict_of (map (\<lambda>(n, f). (n, new_node (Some f))) items)"
  have "map_of ?d n = Some nd \<Longrightarrow> gn_inputs nd = []" for n and nd :: "('f, 'm) gnode"
    by (auto simp: map_of_dict_of new_node_def dest!: map_of_SomeD)
  then show ?thesis
    by (auto simp: inputs_sourced_def graph_init_def Let_def new_node_def split: if_splits)
qed

lemma is_const_name: "is_const (const_name i)"
  by (simp add: is_const_def const_name_def)

lemma sourced_set_node:
  assumes "inputs_sourced g" and "map_of (gr_nodes g) n = Some nd0"
    and "set (gn_outputs nd0) \<subseteq> set (gn_outputs nd)"
    and "\<And>k. k \<in> fst ` set (gn_inputs nd) \<Longrightarrow> k \<in> fst ` set (gn_inputs nd0) \<or> is_const k \<or> (k, n) \<in> edges g"
  shows "inputs_sourced (set_node n nd g)"
proof -
  have "outs g n = gn_outputs nd0" using assms(2) by (simp add: outs_def)
  then have e: "edges g \<subseteq> edges (set_node n nd g)"
    using assms(3) by (fastforce simp: edges_def)
  have "is_const k \<or> (k, v) \<in> edges g"
    if "map_of (gr_nodes (set_node n nd g)) v = Some nd'" "k \<in> fst ` set (gn_inputs nd')" for v nd' k
    using that assms by (auto simp: inputs_sourced_def set_node_def split: if_splits) (metis image_eqI fst_conv)+
  with e show ?thesis unfolding inputs_sourced_def by blast
qed

lemma inputs_sourced_counts [simp]:
  "inputs_sourced (g\<lparr>gr_in := a, gr_out := b\<rparr>) = inputs_sourced g"
  "inputs_sourced (g\<lparr>gr_consts := c\<rparr>) = inputs_sourced g"
  by (simp_all add: inputs_sourced_def edges_def outs_def)

lemma add_edge1_sourced:
  assumes "inputs_sourced g"
  shows "inputs_sourced (snd (add_edge1 f t fmt g))"
proof (cases "map_of (gr_nodes g) f")
  case (Some fn)
  show ?thesis
  proof (cases "map_of (gr_nodes g) t")
    case (Some tn0)
    define g1 where "g1 = set_node f (fn\<lparr>gn_outputs := gn_outputs fn @ [t]\<rparr>) g"
    have s1: "inputs_sourced g1"
      unfolding g1_def by (rule sourced_set_node [OF assms \<open>map_of (gr_nodes g) f = Some fn\<close>]) auto
    have e1: "(f, t) \<in> edges g1" by (simp add: g1_def edges_def)
    obtain tn where tn: "map_of (gr_nodes g1) t = Some tn"
      using Some by (cases "f = t") (auto simp: g1_def set_node_def)
    have "inputs_sourced (set_node t (tn\<lparr>gn_inputs := AList.update f fmt (gn_inputs tn)\<rparr>) g1)"
      by (rule sourced_set_node [OF s1 tn]) (use e1 in \<open>auto simp: keys_update\<close>)
    with Some \<open>map_of (gr_nodes g) f = Some fn\<close> s1 tn show ?thesis
      by (simp add: add_edge1_def Let_def flip: g1_def)
  qed (simp add: add_edge1_def assms Some)
qed (simp add: add_edge1_def assms)

lemma sfor_keeps:
  assumes "\<And>x s. x \<in> set xs \<Longrightarrow> P s \<Longrightarrow> P (snd (f x s))" and "P s"
  shows "P (snd (sfor f xs s))"
  using assms
proof (induction xs arbitrary: s)
  case (Cons x xs)
  obtain r t where "f x s = (r, t)" by fastforce
  moreover have "P t" using Cons.prems \<open>f x s = (r, t)\<close> by (metis list.set_intros(1) snd_conv)
  ultimately show ?case using Cons by (cases r) auto
qed simp

lemma add_edge_sourced: "inputs_sourced g \<Longrightarrow> inputs_sourced (snd (add_edge f t fmt g))"
  by (induction f t fmt arbitrary: g rule: add_edge.induct)
     (auto intro: add_edge1_sourced intro!: sfor_keeps [where P = inputs_sourced])

lemma add_const_edge_sourced: "inputs_sourced g \<Longrightarrow> inputs_sourced (snd (add_const_edge c t g))"
proof (induction c t arbitrary: g rule: add_const_edge.induct)
  case (2 c t)
  show ?case
  proof (cases "map_of (gr_nodes g) t")
    case (Some tn)
    have "inputs_sourced (set_node t (tn\<lparr>gn_inputs :=
        AList.update (const_name (length (gr_consts g))) None (gn_inputs tn)\<rparr>) g)"
      by (rule sourced_set_node [OF 2 Some]) (auto simp: keys_update is_const_name)
    with Some show ?thesis by (simp add: add_const_edge1_def)
  qed (simp add: add_const_edge1_def 2)
qed (auto intro!: sfor_keeps [where P = inputs_sourced])

section \<open>Schedules\<close>

text \<open>An order in which the tasks can finish: all sorted nodes but the start, after their sources.\<close>

definition schedule_ok :: "('f, 'm, 'c) graph \<Rightarrow> string list \<Rightarrow> string list \<Rightarrow> bool" where
  "schedule_ok g ns order \<longleftrightarrow>
     distinct order \<and> set order = set ns - {start_name} \<and>
     (\<forall>xs v ys u. order = xs @ v # ys \<longrightarrow> (u, v) \<in> edges g \<longrightarrow> u = start_name \<or> u \<in> set xs)"

definition pure_sx :: "('s world, 'a) sx \<Rightarrow> bool" where
  "pure_sx m \<longleftrightarrow> (\<exists>r. \<forall>w. m w = (r, w))"

definition sx_value :: "('s world, 'a) sx \<Rightarrow> exn + 'a" where
  "sx_value m = fst (m \<lparr>ustate = undefined, bind_args = [], save_flag = None, actual_iterations = None\<rparr>)"

lemma pure_sx_eq: "pure_sx m \<Longrightarrow> m w = (sx_value m, w)"
  unfolding pure_sx_def sx_value_def by (metis fst_conv)

text \<open>A node whose function and formatters have no effects and which renames no arguments.\<close>

definition pure_node :: "'s fnode \<Rightarrow> bool" where
  "pure_node nd \<longleftrightarrow> gn_args nd = [] \<and> (\<forall>it. gn_func nd = Some it \<longrightarrow> effect_free it) \<and>
     (\<forall>k f x. map_of (gn_inputs nd) k = Some (Some f) \<longrightarrow> pure_sx (f x))"

text \<open>What the tasks see of the results so far.\<close>

definition look :: "'s gstate \<Rightarrow> string \<Rightarrow> val res option" where
  "look st nm = (case map_of (gs_vals st) nm of Some v \<Rightarrow> Some (Inr v) | None \<Rightarrow> map_of (gs_futs st) nm)"

definition coherent :: "'s gstate \<Rightarrow> bool" where
  "coherent st \<longleftrightarrow> map_of (gs_futs st) start_name = None \<and>
     (\<forall>nm v. map_of (gs_vals st) nm = Some v \<longrightarrow> nm \<noteq> start_name \<longrightarrow> map_of (gs_futs st) nm = Some (Inr v))"

definition calm :: "'s gstate \<Rightarrow> 's gstate \<Rightarrow> bool" where
  "calm st st' \<longleftrightarrow> coherent st' \<and> look st' = look st \<and> gs_futs st' = gs_futs st \<and>
     gs_world st' = gs_world st \<and> gs_consts st' = gs_consts st"

definition den_get :: "(string \<Rightarrow> val res option) \<Rightarrow> val list \<Rightarrow> 's fnode \<Rightarrow> string \<Rightarrow> val res" where
  "den_get L cs nd nm =
     (if is_const nm then (case const_index nm of None \<Rightarrow> Inl ValueError | Some i \<Rightarrow> py_nth cs i)
      else rbind (case L nm of None \<Rightarrow> Inl KeyError | Some r \<Rightarrow> r) (\<lambda>r.
        case map_of (gn_inputs nd) nm of
          None \<Rightarrow> Inl KeyError
        | Some None \<Rightarrow> Inr r
        | Some (Some f) \<Rightarrow> rbind (formatter_input r) (\<lambda>x. sx_value (f x))))"

definition den_input :: "(string \<Rightarrow> val res option) \<Rightarrow> val list \<Rightarrow> 's fnode \<Rightarrow> val res" where
  "den_input L cs nd =
     (case gn_inputs nd of
        [(nm, f)] \<Rightarrow> den_get L cs nd nm
      | ins \<Rightarrow> rbind (rmap (den_get L cs nd) (map fst ins)) (\<lambda>xs.
          rbind (rfold (\<lambda>x a. arguments_append a x) xs ([], [])) (\<lambda>(a, k). Inr (VArgs a k))))"

definition den_node :: "(string \<Rightarrow> val res option) \<Rightarrow> val list \<Rightarrow> 's fnode \<Rightarrow> val res" where
  "den_node L cs nd =
     rbind (den_input L cs nd) (\<lambda>inp.
       let (inp1, kw) = (case inp of VArgs a k \<Rightarrow> (VPkg a, k) | _ \<Rightarrow> (inp, []))
       in case gn_func nd of None \<Rightarrow> Inl (to_flow_exn TypeError) | Some it \<Rightarrow> answer it inp1 kw)"

lemma calm_refl: "coherent st \<Longrightarrow> calm st st"
  by (simp add: calm_def)

lemma calm_trans: "calm st st' \<Longrightarrow> calm st' st'' \<Longrightarrow> calm st st''"
  by (simp add: calm_def)

lemma calm_coherent: "calm st st' \<Longrightarrow> coherent st'"
  by (simp add: calm_def)

lemma fetch_calm:
  assumes "coherent st"
  shows "\<exists>st'. fetch nm st = (case look st nm of None \<Rightarrow> Inl KeyError | Some r \<Rightarrow> r, st') \<and> calm st st'"
proof (cases "map_of (gs_vals st) nm")
  case None
  show ?thesis
  proof (cases "map_of (gs_futs st) nm")
    case (Some r)
    with None assms show ?thesis
      by (cases r) (auto simp: fetch_def look_def calm_def coherent_def fun_eq_iff split: option.splits)
  qed (use None assms in \<open>simp add: fetch_def look_def calm_refl\<close>)
qed (use assms in \<open>simp add: fetch_def look_def calm_refl\<close>)

lemma get_input_calm:
  assumes "coherent st" and "pure_node nd"
  shows "\<exists>st'. get_input nm nd st = (den_get (look st) (gs_consts st) nd nm, st') \<and> calm st st'"
proof (cases "is_const nm")
  case True
  then show ?thesis using assms(1) by (auto simp: get_input_def den_get_def calm_refl)
next
  case False
  obtain st' where f: "fetch nm st = (case look st nm of None \<Rightarrow> Inl KeyError | Some r \<Rightarrow> r, st')" and c: "calm st st'"
    using fetch_calm [OF assms(1)] by blast
  show ?thesis
  proof (cases "case look st nm of None \<Rightarrow> Inl KeyError | Some r \<Rightarrow> r")
    case (Inl e)
    with False f c show ?thesis by (auto simp: get_input_def den_get_def)
  next
    case (Inr r)
    show ?thesis
    proof (cases "\<exists>g. map_of (gn_inputs nd) nm = Some (Some g)")
      case True
      then obtain g where g: "map_of (gn_inputs nd) nm = Some (Some g)" by blast
      with assms(2) have "g x w = (sx_value (g x), w)" for x w
        by (auto simp: pure_node_def intro: pure_sx_eq)
      with False f Inr c g show ?thesis
        by (cases "formatter_input r") (auto simp: get_input_def den_get_def on_world_def)
    next
      case None: False
      then have "map_of (gn_inputs nd) nm = None \<or> map_of (gn_inputs nd) nm = Some None"
        by (metis option.exhaust)
      with False f Inr c show ?thesis
        by (auto simp: get_input_def den_get_def)
    qed
  qed
qed

lemma smap_get_input_calm:
  assumes "coherent st" and "pure_node nd"
  shows "\<exists>st'. smap (\<lambda>nm. get_input nm nd) nms st = (rmap (den_get (look st) (gs_consts st) nd) nms, st') \<and> calm st st'"
  using assms(1)
proof (induction nms arbitrary: st)
  case (Cons nm nms)
  obtain st1 where 1: "get_input nm nd st = (den_get (look st) (gs_consts st) nd nm, st1)" "calm st st1"
    using get_input_calm [OF Cons.prems assms(2)] by blast
  obtain st2 where 2: "smap (\<lambda>nm. get_input nm nd) nms st1 =
      (rmap (den_get (look st1) (gs_consts st1) nd) nms, st2)" "calm st1 st2"
    using Cons.IH [OF calm_coherent [OF 1(2)]] by blast
  have same: "look st1 = look st" "gs_consts st1 = gs_consts st" using 1(2) by (simp_all add: calm_def)
  show ?case
  proof (cases "den_get (look st) (gs_consts st) nd nm")
    case (Inl e)
    with 1 show ?thesis by auto
  next
    case (Inr v)
    with 1 2 same show ?thesis
      by (cases "rmap (den_get (look st) (gs_consts st) nd) nms") (auto intro: calm_trans)
  qed
qed (simp add: calm_refl)

lemma node_input_calm:
  assumes "coherent st" and "pure_node nd"
  shows "\<exists>st'. node_input nd st = (den_input (look st) (gs_consts st) nd, st') \<and> calm st st'"
proof (cases "\<exists>nm f. gn_inputs nd = [(nm, f)]")
  case True
  then show ?thesis using get_input_calm [OF assms] by (auto simp: node_input_def den_input_def)
next
  case False
  obtain st' where s: "smap (\<lambda>nm. get_input nm nd) (map fst (gn_inputs nd)) st =
      (rmap (den_get (look st) (gs_consts st) nd) (map fst (gn_inputs nd)), st')" "calm st st'"
    using smap_get_input_calm [OF assms] by blast
  have "node_input nd = sbind (smap (\<lambda>nm. get_input nm nd) (map fst (gn_inputs nd)))
      (\<lambda>xs. slift (rbind (rfold (\<lambda>x a. arguments_append a x) xs ([], [])) (\<lambda>(a, k). Inr (VArgs a k))))"
    using False unfolding node_input_def by (auto split: list.splits)
  moreover have "den_input (look st) (gs_consts st) nd =
      rbind (rmap (den_get (look st) (gs_consts st) nd) (map fst (gn_inputs nd))) (\<lambda>xs.
          rbind (rfold (\<lambda>x a. arguments_append a x) xs ([], [])) (\<lambda>(a, k). Inr (VArgs a k)))"
    using False unfolding den_input_def by (auto split: list.splits)
  ultimately show ?thesis using s
    by (cases "rmap (den_get (look st) (gs_consts st) nd) (map fst (gn_inputs nd))") auto
qed

lemma compute_node_calm:
  assumes "coherent st" and "pure_node nd"
  shows "\<exists>st'. compute_node nd st = (den_node (look st) (gs_consts st) nd, st') \<and> calm st st'"
proof -
  obtain st' where s: "node_input nd st = (den_input (look st) (gs_consts st) nd, st')" "calm st st'"
    using node_input_calm [OF assms] by blast
  have a: "gn_args nd = []" and f: "\<And>it. gn_func nd = Some it \<Longrightarrow> effect_free it"
    using assms(2) by (auto simp: pure_node_def)
  show ?thesis
  proof (cases "den_input (look st) (gs_consts st) nd")
    case (Inl e)
    with s show ?thesis by (auto simp: compute_node_def den_node_def)
  next
    case (Inr v)
    with s a f show ?thesis
      by (cases "gn_func nd")
         (auto simp: compute_node_def den_node_def on_world_def effect_free_invoke split: val.splits)
  qed
qed

lemma den_node_cong:
  assumes "\<And>k. k \<in> fst ` set (gn_inputs nd) \<Longrightarrow> is_const k \<or> L k = L' k"
  shows "den_node L cs nd = den_node L' cs nd"
proof -
  have g: "den_get L cs nd k = den_get L' cs nd k" if "k \<in> fst ` set (gn_inputs nd)" for k
    using assms [OF that] by (auto simp: den_get_def)
  then have m: "rmap (den_get L cs nd) (map fst (gn_inputs nd)) = rmap (den_get L' cs nd) (map fst (gn_inputs nd))"
    by (intro rmap_cong) auto
  have "den_input L cs nd = den_input L' cs nd"
  proof (cases "\<exists>nm f. gn_inputs nd = [(nm, f)]")
    case False
    then show ?thesis using m unfolding den_input_def by (auto split: list.splits)
  qed (use g in \<open>auto simp: den_input_def\<close>)
  then show ?thesis by (simp add: den_node_def)
qed

lemma run_task_pure:
  assumes "coherent st" and "map_of (gr_nodes g) n = Some nd" and "pure_node nd"
    and "look st n = None" and "n \<noteq> start_name"
  defines "st' \<equiv> run_task g n st"
  shows "coherent st' \<and> look st' = (look st)(n \<mapsto> den_node (look st) (gs_consts st) nd) \<and>
         gs_world st' = gs_world st \<and> gs_consts st' = gs_consts st"
proof -
  obtain s where s: "compute_node nd st = (den_node (look st) (gs_consts st) nd, s)" and c: "calm st s"
    using compute_node_calm [OF assms(1,3)] by blast
  have "look s n = None" using c assms(4) by (simp add: calm_def)
  then have fresh: "map_of (gs_vals s) n = None" by (auto simp: look_def split: option.splits)
  have "coherent (s\<lparr>gs_futs := AList.update n r (gs_futs s)\<rparr>)" for r
    using c fresh assms(5) by (auto simp: calm_def coherent_def)
  moreover have "look (s\<lparr>gs_futs := AList.update n r (gs_futs s)\<rparr>) = (look s)(n \<mapsto> r)" for r
    using fresh by (auto simp: look_def fun_eq_iff split: option.splits)
  ultimately show ?thesis
    using s c assms(2) by (simp add: st'_def run_task_def calm_def)
qed

text \<open>The results of the first tasks of a schedule satisfy the equations of the nodes.\<close>

lemma fold_tasks_pure:
  assumes "coherent st" and "dom (look st) \<subseteq> {start_name}"
    and "distinct order" and "start_name \<notin> set order"
    and "\<And>v. v \<in> set order \<Longrightarrow> \<exists>nd. map_of (gr_nodes g) v = Some nd \<and> pure_node nd"
    and "\<And>xs v ys nd k. order = xs @ v # ys \<Longrightarrow> map_of (gr_nodes g) v = Some nd \<Longrightarrow>
           k \<in> fst ` set (gn_inputs nd) \<Longrightarrow> is_const k \<or> k = start_name \<or> k \<in> set xs"
  defines "st' \<equiv> fold (run_task g) order st"
  shows "coherent st' \<and> gs_world st' = gs_world st \<and> gs_consts st' = gs_consts st \<and>
         look st' start_name = look st start_name \<and> dom (look st') \<subseteq> insert start_name (set order) \<and>
         (\<forall>v nd. v \<in> set order \<longrightarrow> map_of (gr_nodes g) v = Some nd \<longrightarrow>
            look st' v = Some (den_node (look st') (gs_consts st) nd))"
  using assms(3-6) unfolding st'_def
proof (induction order rule: rev_induct)
  case Nil
  then show ?case using assms(1,2) by auto
next
  case (snoc v order)
  define s where "s = fold (run_task g) order st"
  have dep: "is_const k \<or> k = start_name \<or> k \<in> set xs"
    if "order = xs @ u # ys" "map_of (gr_nodes g) u = Some nd" "k \<in> fst ` set (gn_inputs nd)" for xs u ys nd k
    using snoc.prems(4) [of xs u "ys @ [v]" nd k] that by simp
  have IH: "coherent s" "gs_world s = gs_world st" "gs_consts s = gs_consts st"
    "look s start_name = look st start_name" "dom (look s) \<subseteq> insert start_name (set order)"
    "\<And>u nd. u \<in> set order \<Longrightarrow> map_of (gr_nodes g) u = Some nd \<Longrightarrow>
       look s u = Some (den_node (look s) (gs_consts st) nd)"
    using snoc.IH [OF _ _ _ dep] snoc.prems by (auto simp: s_def)
  obtain nd where nd: "map_of (gr_nodes g) v = Some nd" "pure_node nd" using snoc.prems(3) by auto
  have v: "v \<noteq> start_name" "v \<notin> set order" using snoc.prems(1,2) by auto
  with IH(5) have "look s v = None" by (metis domIff insertE subsetD)
  note r = run_task_pure [OF IH(1) nd this v(1)]
  have old: "den_node (look (run_task g v s)) (gs_consts st) n = den_node (look s) (gs_consts st) n"
    if u: "u \<in> set order" and n: "map_of (gr_nodes g) u = Some n" for u n
  proof (rule den_node_cong)
    fix k assume k: "k \<in> fst ` set (gn_inputs n)"
    obtain xs ys where o: "order = xs @ u # ys" using split_list [OF u] by blast
    have "is_const k \<or> k = start_name \<or> k \<in> set order" using dep [OF o n k] o by auto
    with v have "is_const k \<or> k \<noteq> v" by blast
    with r show "is_const k \<or> look (run_task g v s) k = look s k" by auto
  qed
  have new: "den_node (look (run_task g v s)) (gs_consts st) nd = den_node (look s) (gs_consts st) nd"
  proof (rule den_node_cong)
    fix k assume "k \<in> fst ` set (gn_inputs nd)"
    with snoc.prems(4) [of order v "[]" nd k] nd v have "is_const k \<or> k \<noteq> v" by auto
    with r show "is_const k \<or> look (run_task g v s) k = look s k" by auto
  qed
  have "look (run_task g v s) u = Some (den_node (look (run_task g v s)) (gs_consts st) n)"
    if "u \<in> set (order @ [v])" "map_of (gr_nodes g) u = Some n" for u n
  proof (cases "u = v")
    case True
    with r new nd that(2) IH(3) show ?thesis by simp
  next
    case False
    with that(1) have "u \<in> set order" by simp
    from old [OF this that(2)] IH(6) [OF this that(2)] r False show ?thesis by simp
  qed
  moreover have "fold (run_task g) (order @ [v]) st = run_task g v s" by (simp add: s_def)
  moreover have "dom (look (run_task g v s)) \<subseteq> insert start_name (set (order @ [v]))"
    using r IH(5) by auto
  moreover have "look (run_task g v s) start_name = look st start_name"
    using r IH(4) v(1) by simp
  ultimately show ?case using r IH(2,3) by metis
qed

section \<open>What a run promises\<close>

lemma inputs_sourcedD:
  "inputs_sourced g \<Longrightarrow> map_of (gr_nodes g) v = Some nd \<Longrightarrow> k \<in> fst ` set (gn_inputs nd) \<Longrightarrow>
   is_const k \<or> (k, v) \<in> edges g"
  by (simp add: inputs_sourced_def)

lemma sorted_sources:
  assumes "graph_ok g" and "topological_sort g = Inr ns" and "ns = xs @ v # ys" and "(u, v) \<in> edges g"
  shows "u \<in> set xs"
  using topological_sort_spec [OF assms(1)] assms(2-4) by (auto split: if_splits)

lemma sorted_names:
  assumes "graph_ok g" and "topological_sort g = Inr ns"
  shows "set ns \<subseteq> names g"
  using topological_sort_spec [OF assms(1)] assms(2) by (auto split: if_splits)

text \<open>
  Every input of a node that is not a constant is the start or was sorted before the node, so
  the future a task waits for has been submitted before the task itself: no task waits for one
  that comes later, and \<open>futures[name]\<close> never raises.
\<close>

theorem graph_inputs_submitted:
  assumes "graph_ok g" and "inputs_sourced g" and "topological_sort g = Inr (xs @ v # ys)"
    and "map_of (gr_nodes g) v = Some nd" and "k \<in> fst ` set (gn_inputs nd)"
  shows "is_const k \<or> k \<in> set xs"
  using inputs_sourcedD [OF assms(2,4,5)] sorted_sources [OF assms(1,3) refl] by blast

lemma equations_determine:
  assumes "\<And>xs v ys nd k. ns = xs @ v # ys \<Longrightarrow> map_of (gr_nodes g) v = Some nd \<Longrightarrow>
      k \<in> fst ` set (gn_inputs nd) \<Longrightarrow> is_const k \<or> k \<in> set xs"
    and "set ns \<subseteq> names g" and "L start_name = L' start_name"
    and "\<And>v nd. v \<in> set ns - {start_name} \<Longrightarrow> map_of (gr_nodes g) v = Some nd \<Longrightarrow> L v = Some (den_node L cs nd)"
    and "\<And>v nd. v \<in> set ns - {start_name} \<Longrightarrow> map_of (gr_nodes g) v = Some nd \<Longrightarrow> L' v = Some (den_node L' cs nd)"
  shows "\<forall>v \<in> set ns. L v = L' v"
proof -
  have "ns = xs @ ys \<Longrightarrow> \<forall>v \<in> set xs. L v = L' v" for xs ys
  proof (induction xs arbitrary: ys rule: rev_induct)
    case (snoc v xs)
    then have n: "ns = xs @ v # ys" and IH: "\<forall>v \<in> set xs. L v = L' v" by auto
    have "L v = L' v"
    proof (cases "v = start_name")
      case False
      from n have m: "v \<in> set ns - {start_name}" using False by auto
      with assms(2) obtain nd where nd: "map_of (gr_nodes g) v = Some nd" by (metis DiffD1 names_map_of subsetD)
      have "den_node L cs nd = den_node L' cs nd"
        using assms(1) [OF n nd] IH by (intro den_node_cong) blast
      with assms(4,5) [OF m nd] show ?thesis by simp
    qed (simp add: assms(3))
    with IH show ?case by simp
  qed simp
  then show ?thesis by (metis append_Nil2)
qed

lemma schedule_inputs:
  assumes "inputs_sourced g" and "schedule_ok g ns order" and "order = xs @ v # ys"
    and "map_of (gr_nodes g) v = Some nd" and "k \<in> fst ` set (gn_inputs nd)"
  shows "is_const k \<or> k = start_name \<or> k \<in> set xs"
  using inputs_sourcedD [OF assms(1,4,5)] assms(2,3) unfolding schedule_ok_def by blast

lemma graph_tasks_pure:
  fixes inp kw w
  assumes "graph_ok g" and "inputs_sourced g" and "topological_sort g = Inr ns" and "schedule_ok g ns order"
    and "\<forall>(n, nd) \<in> set (gr_nodes g). pure_node nd"
  defines "st \<equiv> graph_tasks g ns order inp kw w"
  shows "coherent st \<and> gs_world st = w \<and> gs_consts st = gr_consts g \<and>
         look st start_name = (if start_name \<in> set ns then Some (Inr (start_value inp kw)) else None) \<and>
         dom (look st) \<subseteq> insert start_name (set ns) \<and>
         (\<forall>v nd. v \<in> set ns - {start_name} \<longrightarrow> map_of (gr_nodes g) v = Some nd \<longrightarrow>
            look st v = Some (den_node (look st) (gr_consts g) nd))"
proof -
  define st0 where "st0 = \<lparr>gs_world = w,
    gs_vals = (if start_name \<in> set ns then [(start_name, start_value inp kw)] else []),
    gs_futs = [], gs_consts = gr_consts g\<rparr>"
  have c: "coherent st0" "dom (look st0) \<subseteq> {start_name}"
    by (auto simp: st0_def coherent_def look_def dom_def split: option.splits if_splits)
  have o: "distinct order" "start_name \<notin> set order" "set order = set ns - {start_name}"
    using assms(4) by (auto simp: schedule_ok_def)
  have "\<exists>nd. map_of (gr_nodes g) v = Some nd \<and> pure_node nd" if "v \<in> set order" for v
  proof -
    from that o(3) sorted_names [OF assms(1,3)] obtain nd where "map_of (gr_nodes g) v = Some nd"
      by (metis DiffD1 names_map_of subsetD)
    with assms(5) show ?thesis by (fastforce dest: map_of_SomeD)
  qed
  note f = fold_tasks_pure [OF c o(1,2) this schedule_inputs [OF assms(2,4)]]
  have "look st0 start_name = (if start_name \<in> set ns then Some (Inr (start_value inp kw)) else None)"
    by (simp add: st0_def look_def)
  with f o(3) show ?thesis
    unfolding st_def graph_tasks_def st0_def [symmetric] by (auto simp: st0_def)
qed

lemma coherent_end: "coherent st \<Longrightarrow> map_of (gs_futs st) end_name = look st end_name"
  by (auto simp: coherent_def look_def start_name_def end_name_def split: option.splits)

text \<open>
  C28. When the node functions and formatters have no effects and no node renames its arguments, the
  result of a graph does not depend on the order in which the threads finish the nodes.
\<close>

theorem graph_schedule_irrelevant:
  assumes "graph_ok g" and "inputs_sourced g" and "gr_sorted g = None" and "topological_sort g = Inr ns"
    and "schedule_ok g ns order1" and "schedule_ok g ns order2"
    and "\<forall>(n, nd) \<in> set (gr_nodes g). pure_node nd"
  shows "graph_run order1 inp kw (g, w) = graph_run order2 inp kw (g, w)"
proof -
  define s1 where "s1 = graph_tasks g ns order1 inp kw w"
  define s2 where "s2 = graph_tasks g ns order2 inp kw w"
  note p1 = graph_tasks_pure [OF assms(1,2,4,5,7), of inp kw w, folded s1_def]
  note p2 = graph_tasks_pure [OF assms(1,2,4,6,7), of inp kw w, folded s2_def]
  have "\<forall>v \<in> set ns. look s1 v = look s2 v"
  proof (rule equations_determine)
    show "is_const k \<or> k \<in> set xs" if "ns = xs @ v # ys" "map_of (gr_nodes g) v = Some nd"
      "k \<in> fst ` set (gn_inputs nd)" for xs v ys nd k
      using inputs_sourcedD [OF assms(2) that(2,3)] sorted_sources [OF assms(1,4) that(1)] by blast
    show "set ns \<subseteq> names g" by (rule sorted_names [OF assms(1,4)])
  qed (use p1 p2 in auto)
  moreover have "look s1 v = look s2 v" if "v \<notin> set ns" for v
    using that p1 p2 by (metis domIff insertE subsetD)
  ultimately have "look s1 end_name = look s2 end_name" by blast
  with p1 p2 have "map_of (gs_futs s1) end_name = map_of (gs_futs s2) end_name"
    by (simp add: coherent_end)
  with p1 p2 assms(3,4) show ?thesis
    by (simp add: graph_run_def s1_def s2_def)
qed

text \<open>\<open>Identity\<close>, the function of the end node.\<close>

definition identity_item :: "'s item" where
  "identity_item = Plain (\<lambda>args kw w.
     (if kw \<noteq> [] then Inl TypeError else Inr (case args of [x] \<Rightarrow> x | _ \<Rightarrow> package_new args), w))"

definition demo_graph :: "unit fgraph" where
  "demo_graph =
     snd (add_edge (EMany [EName ''a'', EName ''b'']) (EName end_name) None
       (snd (add_edge (EName start_name) (EMany [EName ''a'', EName ''b'']) None
         (graph_init identity_item [(''a'', inc_item), (''b'', inc_item)]))))"

definition demo_order :: "string list" where
  "demo_order = [start_name, ''a'', ''b'', end_name]"

lemma demo_graph_ok: "graph_ok demo_graph" "inputs_sourced demo_graph"
proof -
  define g1 :: "unit fgraph" where
    "g1 = snd (add_edge (EName start_name) (EMany [EName ''a'', EName ''b'']) None
         (graph_init identity_item [(''a'', inc_item), (''b'', inc_item)]))"
  have d: "demo_graph = snd (add_edge (EMany [EName ''a'', EName ''b'']) (EName end_name) None g1)"
    by (simp add: demo_graph_def g1_def)
  have "fst (add_edge (EName start_name) (EMany [EName ''a'', EName ''b'']) None
         (graph_init identity_item [(''a'', inc_item), (''b'', inc_item)] :: unit fgraph)) = Inr ()"
    by code_simp
  then have "graph_ok g1"
    by (metis add_edge_ok g1_def graph_ok_init prod.collapse)
  moreover have "fst (add_edge (EMany [EName ''a'', EName ''b'']) (EName end_name) None g1) = Inr ()"
    unfolding g1_def by code_simp
  ultimately show "graph_ok demo_graph" by (metis add_edge_ok d prod.collapse)
  show "inputs_sourced demo_graph"
    unfolding d g1_def by (intro add_edge_sourced inputs_sourced_init)
qed

lemma demo_graph_sorted: "topological_sort demo_graph = Inr demo_order" "gr_sorted demo_graph = None"
  unfolding demo_graph_def demo_order_def by code_simp+

theorem graph_inputs_submitted_witness:
  "''a'' \<in> fst ` set (gn_inputs (the (map_of (gr_nodes demo_graph) end_name))) \<and>
   (is_const ''a'' \<or> ''a'' \<in> set [start_name, ''a'', ''b''])"
proof -
  obtain nd where nd: "map_of (gr_nodes demo_graph) end_name = Some nd" and k: "''a'' \<in> fst ` set (gn_inputs nd)"
  proof -
    have "map_option (\<lambda>nd. map fst (gn_inputs nd)) (map_of (gr_nodes demo_graph) end_name) = Some [''a'', ''b'']"
      unfolding demo_graph_def by code_simp
    then show thesis by (auto simp flip: set_map intro: that)
  qed
  have s: "topological_sort demo_graph = Inr ([start_name, ''a'', ''b''] @ end_name # [])"
    by (simp add: demo_graph_sorted demo_order_def)
  from graph_inputs_submitted [OF demo_graph_ok s nd k] nd k show ?thesis by simp
qed

text \<open>A check of a schedule that computes.\<close>

definition schedule_check :: "('f, 'm, 'c) graph \<Rightarrow> string list \<Rightarrow> string list \<Rightarrow> bool" where
  "schedule_check g ns order \<longleftrightarrow>
     distinct order \<and> set order = set ns - {start_name} \<and>
     list_all (\<lambda>i. list_all (\<lambda>(u, nd). order ! i \<in> set (gn_outputs nd) \<longrightarrow>
       u = start_name \<or> u \<in> set (take i order)) (gr_nodes g)) [0..<length order]"

lemma schedule_check_ok: "schedule_check g ns order \<Longrightarrow> schedule_ok g ns order"
  unfolding schedule_ok_def
proof (intro conjI allI impI)
  fix xs v ys u assume c: "schedule_check g ns order" and o: "order = xs @ v # ys" and "(u, v) \<in> edges g"
  then obtain nd where nd: "map_of (gr_nodes g) u = Some nd" "v \<in> set (gn_outputs nd)"
    by (cases "map_of (gr_nodes g) u") (auto simp: edges_def outs_def)
  have "length xs < length order" using o by simp
  with c have "list_all (\<lambda>(u, nd). order ! length xs \<in> set (gn_outputs nd) \<longrightarrow>
       u = start_name \<or> u \<in> set (take (length xs) order)) (gr_nodes g)"
    by (simp add: schedule_check_def list_all_iff)
  with map_of_SomeD [OF nd(1)] nd(2) o show "u = start_name \<or> u \<in> set xs"
    by (auto simp: list_all_iff)
qed (simp_all add: schedule_check_def)

lemma identity_item_pure: "effect_free identity_item"
  unfolding identity_item_def by (rule plain_effect_free)

lemma demo_graph_nodes:
  "gr_nodes demo_graph =
     [(''a'', \<lparr>gn_func = Some inc_item, gn_args = [], gn_inputs = [(start_name, None)], gn_outputs = [end_name]\<rparr>),
      (''b'', \<lparr>gn_func = Some inc_item, gn_args = [], gn_inputs = [(start_name, None)], gn_outputs = [end_name]\<rparr>),
      (start_name, \<lparr>gn_func = None, gn_args = [], gn_inputs = [], gn_outputs = [''a'', ''b'']\<rparr>),
      (end_name, \<lparr>gn_func = Some identity_item, gn_args = [], gn_inputs = [(''a'', None), (''b'', None)], gn_outputs = []\<rparr>)]"
  by (simp add: demo_graph_def graph_init_def dict_of_def new_node_def add_edge1_def set_node_def Let_def
      sbind_def start_name_def end_name_def)

lemma demo_graph_pure: "\<forall>(n, nd) \<in> set (gr_nodes demo_graph). pure_node nd"
  by (auto simp: demo_graph_nodes pure_node_def inc_item_effect_free identity_item_pure split: if_splits)

theorem graph_schedule_irrelevant_witness:
  "schedule_ok demo_graph demo_order [''a'', ''b'', end_name] \<and>
   schedule_ok demo_graph demo_order [''b'', ''a'', end_name] \<and>
   graph_run [''a'', ''b'', end_name] (VInt 3) [] (demo_graph, idle_world) =
   graph_run [''b'', ''a'', end_name] (VInt 3) [] (demo_graph, idle_world) \<and>
   fst (graph_run [''b'', ''a'', end_name] (VInt 3) [] (demo_graph, idle_world)) = Inr (VPkg [VInt 4, VInt 4])"
proof -
  have o: "schedule_ok demo_graph demo_order [''a'', ''b'', end_name]"
    "schedule_ok demo_graph demo_order [''b'', ''a'', end_name]"
    by (auto intro!: schedule_check_ok
        simp: schedule_check_def demo_graph_nodes demo_order_def upt_rec start_name_def end_name_def)
  have "fst (graph_run [''b'', ''a'', end_name] (VInt 3) [] (demo_graph, idle_world)) = Inr (VPkg [VInt 4, VInt 4])"
    unfolding demo_graph_def by code_simp
  with o graph_schedule_irrelevant [OF demo_graph_ok demo_graph_sorted(2,1) o demo_graph_pure]
  show ?thesis by blast
qed

end
