(* ===== verification/Hooks.thy ===== *)
theory Hooks
  imports Prelude "HOL-Library.Multiset"
begin

text \<open>
  \<open>lazyllm/hook.py\<close>: registering hooks on an object, preparing them for a call, running a phase
  over them, and the execution of a function between the phases. What the methods of a hook
  do is data: for each phase the exception it raises, if any. The state is the list of calls made.
\<close>

datatype hmode = Warn | Strict | BadMode

record hook =
  hk_id :: nat
  hk_priority :: int
  hk_mode :: hmode
  hk_build :: "exn option"
  hk_pre :: "exn option"
  hk_post :: "exn option"
  hk_error :: "exn option"
  hk_final :: "exn option"

datatype phase = Pre | Post | OnError | Finalize

type_synonym hlog = "(phase \<times> nat) list"

datatype hexn = Plain_exn exn | Phase_exn phase "(nat \<times> exn) list"

type_synonym 'a hx = "hlog \<Rightarrow> (hexn + 'a) \<times> hlog"

fun phase_result :: "phase \<Rightarrow> hook \<Rightarrow> exn option" where
  "phase_result Pre h = hk_pre h"
| "phase_result Post h = hk_post h"
| "phase_result OnError h = hk_error h"
| "phase_result Finalize h = hk_final h"

section \<open>Registration\<close>

text \<open>
  An entry of \<open>_hooks\<close>: a hook object, compared by \<open>==\<close>, or a hook type, compared by identity
  with the types only.
\<close>

datatype hook_entry = HObj nat | HType nat

definition register_hooks :: "hook_entry list option \<Rightarrow> hook_entry list \<Rightarrow> hook_entry list option res" where
  "register_hooks hooks new =
     (if new = [] then Inr hooks
      else case hooks of
        None \<Rightarrow> Inl AttributeError
      | Some hs \<Rightarrow> Inr (Some (fold (\<lambda>h acc. if h \<in> set acc then acc else acc @ [h]) new hs)))"

lemma fold_register_distinct:
  "distinct hs \<Longrightarrow> distinct (fold (\<lambda>h acc. if h \<in> set acc then acc else acc @ [h]) new hs)"
  by (induction new arbitrary: hs) auto

lemma fold_register_set:
  "set (fold (\<lambda>h acc. if h \<in> set acc then acc else acc @ [h]) new hs) = set hs \<union> set new"
  by (induction new arbitrary: hs) auto

section \<open>Phases\<close>

text \<open>The handler of a failing \<open>pre_hook\<close> finalizes the hook, and a strict one ends the call.\<close>

fun finalize_all :: "hook list \<Rightarrow> hlog \<Rightarrow> hlog" where
  "finalize_all [] log = log"
| "finalize_all (h # hs) log = finalize_all hs (log @ [(Finalize, hk_id h)])"

fun prepare_loop :: "hook list \<Rightarrow> hook list \<Rightarrow> hook list hx" where
  "prepare_loop [] active log = (Inr active, log)"
| "prepare_loop (h # hs) active log =
     (let log1 = log @ [(Pre, hk_id h)] in
      case hk_pre h of
        None \<Rightarrow> prepare_loop hs (active @ [h]) log1
      | Some e \<Rightarrow>
          (let log2 = log1 @ [(Finalize, hk_id h)] in
           case (hk_final h, hk_mode h) of
             (Some fe, Strict) \<Rightarrow> (Inl (Plain_exn fe), log2)
           | (_, BadMode) \<Rightarrow> (Inl (Plain_exn ValueError), log2)
           | (None, Strict) \<Rightarrow> (Inl (Plain_exn e), finalize_all active log2)
           | (_, Warn) \<Rightarrow> prepare_loop hs active log2))"

definition prepare_hooks :: "hook list \<Rightarrow> hook list hx" where
  "prepare_hooks types log =
     (case rmap (\<lambda>h. case hk_build h of None \<Rightarrow> Inr h | Some e \<Rightarrow> Inl e) types of
        Inl e \<Rightarrow> (Inl (Plain_exn e), log)
      | Inr hs \<Rightarrow> prepare_loop (sort_key hk_priority hs) [] log)"

fun run_phase :: "phase \<Rightarrow> hook list \<Rightarrow> (nat \<times> exn) list \<Rightarrow> ((nat \<times> exn) list) hx" where
  "run_phase p [] errs log = (Inr errs, log)"
| "run_phase p (h # hs) errs log =
     (let log1 = log @ [(p, hk_id h)] in
      case phase_result p h of
        None \<Rightarrow> run_phase p hs errs log1
      | Some e \<Rightarrow>
          (case hk_mode h of
             Strict \<Rightarrow> run_phase p hs (errs @ [(hk_id h, e)]) log1
           | Warn \<Rightarrow> run_phase p hs errs log1
           | BadMode \<Rightarrow> (Inl (Plain_exn ValueError), log1)))"

definition run_hooks :: "hook list \<Rightarrow> phase \<Rightarrow> unit hx" where
  "run_hooks hs p log =
     (if p = Pre then (Inl (Plain_exn ValueError), log)
      else case run_phase p (rev hs) [] log of
        (Inl e, log') \<Rightarrow> (Inl e, log')
      | (Inr errs, log') \<Rightarrow> (if errs = [] then Inr () else Inl (Phase_exn p errs), log'))"

section \<open>Execution\<close>

text \<open>
  How the wrapped function ends: a value, a \<open>HandledException\<close>, another \<open>Exception\<close> (which
  \<open>map_exception\<close> may replace), or a \<open>BaseException\<close> such as a cancellation.
\<close>

datatype 'v fn_end = FnRet 'v | FnHandled exn | FnExc exn | FnBase exn

definition hooked_call :: "(exn \<Rightarrow> exn) option \<Rightarrow> hook list \<Rightarrow> 'v fn_end \<Rightarrow> 'v hx" where
  "hooked_call mapexn hs e log =
     (case e of
        FnRet v \<Rightarrow> (case run_hooks hs Post log of (Inl x, log') \<Rightarrow> (Inl x, log') | (Inr u, log') \<Rightarrow> (Inr v, log'))
      | FnHandled x \<Rightarrow> (Inl (Plain_exn x), snd (run_hooks hs OnError log))
      | FnExc x \<Rightarrow>
          (Inl (Plain_exn (case mapexn of None \<Rightarrow> x | Some f \<Rightarrow> f x)), snd (run_hooks hs OnError log))
      | FnBase x \<Rightarrow> (Inl (Plain_exn x), snd (run_hooks hs OnError log)))"

text \<open>\<open>hook_execution\<close> around one call; what the finalize phase raises is swallowed.\<close>

definition hook_execution :: "(exn \<Rightarrow> exn) option \<Rightarrow> hook list \<Rightarrow> 'v fn_end \<Rightarrow> 'v hx" where
  "hook_execution mapexn types e log =
     (case prepare_hooks types log of
        (Inl x, log1) \<Rightarrow> (Inl x, log1)
      | (Inr hs, log1) \<Rightarrow>
          (case hooked_call mapexn hs e log1 of
             (r, log2) \<Rightarrow> (r, snd (run_hooks hs Finalize log2))))"

section \<open>What the phases call\<close>

definition valid_mode :: "hook \<Rightarrow> bool" where
  "valid_mode h \<longleftrightarrow> hk_mode h \<noteq> BadMode"

lemma finalize_all_log: "finalize_all hs log = log @ map (\<lambda>h. (Finalize, hk_id h)) hs"
  by (induction hs arbitrary: log) auto

lemma run_phase_log:
  "\<forall>h \<in> set hs. valid_mode h \<Longrightarrow> snd (run_phase p hs errs log) = log @ map (\<lambda>h. (p, hk_id h)) hs"
  by (induction hs arbitrary: errs log)
     (auto simp: valid_mode_def Let_def split: option.splits hmode.splits)

lemma run_hooks_log:
  assumes "\<forall>h \<in> set hs. valid_mode h" and "p \<noteq> Pre"
  shows "snd (run_hooks hs p log) = log @ map (\<lambda>h. (p, hk_id h)) (rev hs)"
  using run_phase_log [of "rev hs" p "[]" log] assms
  by (auto simp: run_hooks_def split: prod.splits sum.splits)

definition calls :: "phase \<Rightarrow> hlog \<Rightarrow> nat multiset" where
  "calls p log = mset (map snd (List.filter (\<lambda>(q, i). q = p) log))"

lemma calls_simps [simp]:
  "calls p [] = {#}" "calls p (log @ log') = calls p log + calls p log'"
  "calls p ((q, i) # log) = (if q = p then {#i#} else {#}) + calls p log"
  by (auto simp: calls_def)

lemma calls_map [simp]: "calls p (map (\<lambda>h. (q, hk_id h)) hs) = (if q = p then mset (map hk_id hs) else {#})"
  by (induction hs) auto

lemma calls_rev [simp]: "calls p (rev log) = calls p log"
  by (simp add: calls_def rev_filter [symmetric] rev_map [symmetric])

text \<open>
  A hook that fails to prepare and fails to finalize, strictly, ends the call at once, and the hooks prepared before it stay
  active. It is reached when every hook before it prepares or is not strict.
\<close>

definition fails_twice :: "hook \<Rightarrow> bool" where
  "fails_twice h \<longleftrightarrow> hk_pre h \<noteq> None \<and> hk_final h \<noteq> None \<and> hk_mode h = Strict"

definition leaks :: "hook list \<Rightarrow> bool" where
  "leaks hs \<longleftrightarrow> (\<exists>us h vs. hs = us @ h # vs \<and> fails_twice h \<and> (\<forall>g \<in> set us. hk_pre g \<noteq> None \<longrightarrow> hk_mode g \<noteq> Strict) \<and>
     (\<exists>g \<in> set us. hk_pre g = None))"

text \<open>The hooks that stay active, given those that are.\<close>

fun leaked :: "hook list \<Rightarrow> nat multiset \<Rightarrow> nat multiset" where
  "leaked [] act = {#}"
| "leaked (h # hs) act =
     (if hk_pre h = None then leaked hs (act + {#hk_id h#})
      else if fails_twice h then act
      else if hk_mode h = Strict then {#} else leaked hs act)"

definition leaky :: "hook list \<Rightarrow> bool \<Rightarrow> bool" where
  "leaky hs some \<longleftrightarrow> (\<exists>us h vs. hs = us @ h # vs \<and> fails_twice h \<and>
     (\<forall>g \<in> set us. hk_pre g \<noteq> None \<longrightarrow> hk_mode g \<noteq> Strict) \<and> (some \<or> (\<exists>g \<in> set us. hk_pre g = None)))"

lemma leakyI:
  "fails_twice h \<Longrightarrow> (\<forall>g \<in> set us. hk_pre g \<noteq> None \<longrightarrow> hk_mode g \<noteq> Strict) \<Longrightarrow> some \<or> (\<exists>g \<in> set us. hk_pre g = None) \<Longrightarrow>
   leaky (us @ h # vs) some"
  unfolding leaky_def by blast

lemma leaky_Nil [simp]: "\<not> leaky [] some"
  by (simp add: leaky_def)

lemma leaky_Cons:
  "leaky (h # hs) some \<longleftrightarrow> fails_twice h \<and> some \<or>
     (hk_pre h \<noteq> None \<longrightarrow> hk_mode h \<noteq> Strict) \<and> leaky hs (some \<or> hk_pre h = None)"
proof
  assume "leaky (h # hs) some"
  then obtain us x vs where "h # hs = us @ x # vs" "fails_twice x" "\<forall>g \<in> set us. hk_pre g \<noteq> None \<longrightarrow> hk_mode g \<noteq> Strict"
    "some \<or> (\<exists>g \<in> set us. hk_pre g = None)" by (auto simp: leaky_def)
  then show "fails_twice h \<and> some \<or> (hk_pre h \<noteq> None \<longrightarrow> hk_mode h \<noteq> Strict) \<and> leaky hs (some \<or> hk_pre h = None)"
    using leakyI [of x "tl us" "some \<or> hk_pre h = None" vs] by (cases us) auto
next
  assume r: "fails_twice h \<and> some \<or> (hk_pre h \<noteq> None \<longrightarrow> hk_mode h \<noteq> Strict) \<and> leaky hs (some \<or> hk_pre h = None)"
  then show "leaky (h # hs) some"
  proof
    assume "fails_twice h \<and> some"
    then show ?thesis unfolding leaky_def by (intro exI [of _ "[]"]) auto
  next
    assume r: "(hk_pre h \<noteq> None \<longrightarrow> hk_mode h \<noteq> Strict) \<and> leaky hs (some \<or> hk_pre h = None)"
    then obtain us x vs where u: "hs = us @ x # vs" "fails_twice x" "\<forall>g \<in> set us. hk_pre g \<noteq> None \<longrightarrow> hk_mode g \<noteq> Strict"
      "(some \<or> hk_pre h = None) \<or> (\<exists>g \<in> set us. hk_pre g = None)" by (auto simp: leaky_def)
    have "h # hs = (h # us) @ x # vs" using u(1) by simp
    moreover have "\<forall>g \<in> set (h # us). hk_pre g \<noteq> None \<longrightarrow> hk_mode g \<noteq> Strict" using u(3) r by simp
    moreover have "some \<or> (\<exists>g \<in> set (h # us). hk_pre g = None)" using u(4) by auto
    ultimately show ?thesis unfolding leaky_def using u(2) by blast
  qed
qed

lemma leaked_empty: "leaked hs act = {#} \<longleftrightarrow> \<not> leaky hs (act \<noteq> {#})"
proof (induction hs arbitrary: act)
  case (Cons h hs)
  show ?case
    by (cases "hk_pre h"; cases "fails_twice h"; cases "hk_mode h = Strict")
      (simp_all add: Cons.IH leaky_Cons fails_twice_def)
qed simp

lemma prepare_loop_balance:
  assumes "prepare_loop hs active log = (r, log')" and "\<forall>h \<in> set hs. valid_mode h"
    and "calls Pre log = calls Finalize log + mset (map hk_id active)"
  shows "calls Pre log' = calls Finalize log' + (case r of Inl e \<Rightarrow> leaked hs (mset (map hk_id active)) | Inr act \<Rightarrow> mset (map hk_id act)) \<and>
    (\<forall>act. r = Inr act \<longrightarrow> leaked hs (mset (map hk_id active)) = {#})"
  using assms
proof (induction hs arbitrary: active log)
  case (Cons h hs)
  show ?case
  proof (cases "hk_pre h")
    case None
    with Cons.prems Cons.IH [of "active @ [h]" "log @ [(Pre, hk_id h)]"] show ?thesis by (cases r) auto
  next
    case (Some e)
    with Cons.prems Cons.IH [of active "log @ [(Pre, hk_id h), (Finalize, hk_id h)]"] show ?thesis
      by (cases r) (auto simp: valid_mode_def fails_twice_def finalize_all_log Let_def split: option.splits hmode.splits)
  qed
qed auto

lemma prepare_loop_members:
  "prepare_loop hs active log = (Inr act, log') \<Longrightarrow> set act \<subseteq> set active \<union> set hs \<and>
   (sorted (map hk_priority (active @ hs)) \<longrightarrow> sorted (map hk_priority act))"
proof (induction hs arbitrary: active log)
  case (Cons h hs)
  show ?case
  proof (cases "hk_pre h")
    case None
    with Cons.prems Cons.IH [of "active @ [h]" "log @ [(Pre, hk_id h)]"] show ?thesis by auto
  next
    case (Some e)
    with Cons.prems have "prepare_loop hs active (log @ [(Pre, hk_id h), (Finalize, hk_id h)]) = (Inr act, log')"
      by (auto simp: Let_def split: option.splits hmode.splits)
    from Cons.IH [OF this] show ?thesis by (auto simp: sorted_append)
  qed
qed auto

lemma build_same: "rmap (\<lambda>h. case hk_build h of None \<Rightarrow> Inr h | Some e \<Rightarrow> Inl e) types = Inr hs \<Longrightarrow> hs = types"
proof (induction types arbitrary: hs)
  case (Cons h hs')
  then show ?case by (auto simp: rbind_eq_Inr split: option.splits)
qed simp

lemma build_all: "\<forall>h \<in> set types. hk_build h = None \<Longrightarrow>
    rmap (\<lambda>h. case hk_build h of None \<Rightarrow> Inr h | Some e \<Rightarrow> Inl e) types = Inr types"
  by (induction types) simp_all

lemma build_none: "rmap (\<lambda>h. case hk_build h of None \<Rightarrow> Inr h | Some e \<Rightarrow> Inl e) types = Inr hs \<Longrightarrow>
    \<forall>h \<in> set types. hk_build h = None"
  by (induction types arbitrary: hs) (auto simp: rbind_eq_Inr split: option.splits)

lemma prepare_hooks_ok:
  assumes "prepare_hooks types log = (Inr hs, log')"
  shows "set hs \<subseteq> set types \<and> sorted (map hk_priority hs)"
proof -
  from assms have "prepare_loop (sort_key hk_priority types) [] log = (Inr hs, log')"
    by (auto simp: prepare_hooks_def split: sum.splits dest: build_same)
  from prepare_loop_members [OF this] show ?thesis by simp
qed

fun end_phase :: "'v fn_end \<Rightarrow> phase" where
  "end_phase (FnRet v) = Post"
| "end_phase _ = OnError"

lemma end_phase_not [simp]: "end_phase e \<noteq> Pre" "end_phase e \<noteq> Finalize" "Finalize \<noteq> end_phase e"
  by (cases e; simp)+

lemma hooked_call_log:
  assumes "\<forall>h \<in> set hs. valid_mode h"
  shows "snd (hooked_call mapexn hs e log) = log @ map (\<lambda>h. (end_phase e, hk_id h)) (rev hs)"
  using run_hooks_log [OF assms, of "end_phase e" log]
  by (cases e) (auto simp: hooked_call_def split: prod.splits sum.splits)

lemma hook_execution_log:
  assumes "prepare_hooks types log = (Inr hs, log1)" and "\<forall>h \<in> set hs. valid_mode h"
  shows "snd (hook_execution mapexn types e log) =
     log1 @ map (\<lambda>h. (end_phase e, hk_id h)) (rev hs) @ map (\<lambda>h. (Finalize, hk_id h)) (rev hs)"
  using hooked_call_log [OF assms(2), of mapexn e log1] run_hooks_log [OF assms(2), of Finalize] assms(1)
  by (auto simp: hook_execution_def split: prod.splits)

text \<open>
  C35. Let the modes of the hooks be the two known ones. Whether the function returns, raises or is cancelled, and whether preparing
  succeeds or not, the hooks whose \<open>pre_hook\<close> was called are finalized exactly as often as it was called, but in one case:
  all hooks can be built, and in the order of priorities a strict hook that fails to prepare and to finalize is reached behind a
  hook that was prepared. In that case some prepared hook is never finalized.
\<close>

theorem hooks_finalized_once:
  assumes "\<forall>h \<in> set types. valid_mode h"
  shows "calls Finalize (snd (hook_execution mapexn types e [])) = calls Pre (snd (hook_execution mapexn types e [])) \<longleftrightarrow>
    \<not> ((\<forall>h \<in> set types. hk_build h = None) \<and> leaks (sort_key hk_priority types))"
proof -
  let ?log = "snd (hook_execution mapexn types e [])"
  obtain r log1 where p: "prepare_hooks types [] = (r, log1)" by fastforce
  have l: "leaks hs \<longleftrightarrow> leaked hs {#} \<noteq> {#}" for hs unfolding leaked_empty by (simp only: leaks_def leaky_def simp_thms)
  show ?thesis
  proof (cases "rmap (\<lambda>h. case hk_build h of None \<Rightarrow> Inr h | Some e \<Rightarrow> Inl e) types")
    case (Inl x)
    then have "\<not> (\<forall>h \<in> set types. hk_build h = None)" using build_all [of types] by force
    moreover have "?log = []" using Inl by (simp add: hook_execution_def prepare_hooks_def)
    ultimately show ?thesis by simp
  next
    case (Inr hs)
    then have b: "\<forall>h \<in> set types. hk_build h = None" using build_same [OF Inr] build_none [OF Inr] by simp
    from Inr p have "prepare_loop (sort_key hk_priority types) [] [] = (r, log1)"
      by (auto simp: prepare_hooks_def dest: build_same)
    note bal = prepare_loop_balance [OF this] and m = assms
    show ?thesis
    proof (cases r)
      case (Inl x)
      then have "?log = log1" using p by (simp add: hook_execution_def)
      then show ?thesis using bal m b l Inl by simp
    next
      case r: (Inr hs)
      have v: "\<forall>h \<in> set hs. valid_mode h" using prepare_hooks_ok p r assms by fastforce
      have "calls Finalize ?log = calls Pre ?log"
        using hook_execution_log [OF p [unfolded r] v, of mapexn e] bal m r by (simp add: rev_map [symmetric])
      then show ?thesis using bal m l r by simp
    qed
  qed
qed

text \<open>
  The hooks of a call are prepared in the order of their priorities, and both the post (or error)
  phase and the finalize phase visit the prepared ones in the reverse of that order, each once.
\<close>

theorem hooks_phase_order:
  assumes "prepare_hooks types [] = (Inr hs, log1)" and "\<forall>h \<in> set types. valid_mode h"
  shows "sorted (map hk_priority hs) \<and> set hs \<subseteq> set types \<and>
     snd (hook_execution mapexn types e []) =
       log1 @ map (\<lambda>h. (end_phase e, hk_id h)) (rev hs) @ map (\<lambda>h. (Finalize, hk_id h)) (rev hs)"
  using prepare_hooks_ok [OF assms(1)] assms(2) hook_execution_log [OF assms(1), of mapexn e] by blast

text \<open>
  A strict hook that fails to prepare and then fails to finalize leaves the hooks prepared before
  it active for ever: its own failure ends the call before they are finalized.
\<close>

theorem fails_twice_leaks:
  assumes "fails_twice h" and "hk_build g = None" and "hk_build h = None" and "hk_pre g = None"
    and "hk_priority g \<le> hk_priority h"
  shows "snd (hook_execution mapexn [g, h] e []) = [(Pre, hk_id g), (Pre, hk_id h), (Finalize, hk_id h)]"
  using assms by (auto simp: hook_execution_def prepare_hooks_def fails_twice_def Let_def sort_key_def)

definition demo_hook :: "nat \<Rightarrow> int \<Rightarrow> exn option \<Rightarrow> exn option \<Rightarrow> hook" where
  "demo_hook i p pre fin = \<lparr>hk_id = i, hk_priority = p, hk_mode = Strict, hk_build = None, hk_pre = pre,
     hk_post = None, hk_error = Some KeyError, hk_final = fin\<rparr>"

theorem hooks_finalized_once_witness:
  "(let log = snd (hook_execution None [demo_hook 1 10 None None, demo_hook 2 5 (Some ValueError) None] (FnRet ()) [])
    in calls Finalize log = calls Pre log) \<and>
   (let log = snd (hook_execution None [demo_hook 2 10 (Some ValueError) (Some KeyError), demo_hook 1 5 None None] (FnRet ()) [])
    in calls Finalize log \<noteq> calls Pre log)"
proof -
  have v: "\<forall>h \<in> set [demo_hook i p a b, demo_hook j q c d]. valid_mode h" for i p a b j q c d
    by (simp add: demo_hook_def valid_mode_def)
  have n: "\<not> leaks (sort_key hk_priority [demo_hook 1 10 None None, demo_hook 2 5 (Some ValueError) None])"
    by (auto simp: leaks_def sort_key_def demo_hook_def fails_twice_def Cons_eq_append_conv)
  have y: "leaks (sort_key hk_priority [demo_hook 2 10 (Some ValueError) (Some KeyError), demo_hook 1 5 None None])"
    unfolding leaks_def
    by (intro exI [of _ "[demo_hook 1 5 None None]"] exI [of _ "demo_hook 2 10 (Some ValueError) (Some KeyError)"] exI [of _ "[]"])
      (simp add: sort_key_def demo_hook_def fails_twice_def)
  have b: "\<forall>h \<in> set [demo_hook i p a b, demo_hook j q c d]. hk_build h = None" for i p a b j q c d
    by (simp add: demo_hook_def)
  show ?thesis using hooks_finalized_once [OF v] n y b unfolding Let_def by blast
qed

theorem hooks_phase_order_witness:
  "snd (hook_execution None [demo_hook 1 10 None None, demo_hook 2 5 None (Some ValueError)] (FnExc KeyError) []) =
     [(Pre, 2), (Pre, 1), (OnError, 1), (OnError, 2), (Finalize, 1), (Finalize, 2 :: nat)]"
proof -
  have v: "\<forall>h \<in> set [demo_hook 1 10 None None, demo_hook 2 5 None (Some ValueError)]. valid_mode h"
    by (simp add: demo_hook_def valid_mode_def)
  have "prepare_hooks [demo_hook 1 10 None None, demo_hook 2 5 None (Some ValueError)] [] =
      (Inr [demo_hook 2 5 None (Some ValueError), demo_hook 1 10 None None], [(Pre, 2), (Pre, 1)])"
    by (simp add: prepare_hooks_def demo_hook_def sort_key_def)
  from hooks_phase_order [OF this v, of None "FnExc KeyError"] show ?thesis by (simp add: demo_hook_def)
qed

theorem fails_twice_leaks_witness:
  "snd (hook_execution None [demo_hook 1 5 None None, demo_hook 2 10 (Some ValueError) (Some KeyError)] (FnRet ()) []) =
     [(Pre, 1), (Pre, 2), (Finalize, 2 :: nat)]"
  using fails_twice_leaks [of "demo_hook 2 10 (Some ValueError) (Some KeyError)" "demo_hook 1 5 None None" None "FnRet ()"]
  by (simp add: demo_hook_def fails_twice_def)

end
