(* ===== verification/ModelCall.thy ===== *)
theory ModelCall
  imports Prelude
begin

text \<open>
  One call of an online model: \<open>_ModelCallRunner.run\<close> of
  \<open>module/llms/onlinemodule/base/model_call_runner.py\<close> with its retries, events and terminal
  report, the records of \<open>model_outcome.py\<close>, and the cutting of a response into lines of
  \<open>model_request.py\<close>. What an attempt does, the clock, the random delay and what the
  control's checks find are parameters.
\<close>

section \<open>Outcomes\<close>

datatype model_finish = FStop | FToolCalls | FLength | FContentFilter | FResource | FUnknown

fun finish_value :: "model_finish \<Rightarrow> string" where
  "finish_value FStop = ''stop''"
| "finish_value FToolCalls = ''tool_calls''"
| "finish_value FLength = ''length''"
| "finish_value FContentFilter = ''content_filter''"
| "finish_value FResource = ''insufficient_system_resource''"
| "finish_value FUnknown = ''unknown''"

datatype failure_origin = OTransport | OHttp | OProvider | OProtocol

fun origin_value :: "failure_origin \<Rightarrow> string" where
  "origin_value OTransport = ''transport''"
| "origin_value OHttp = ''http''"
| "origin_value OProvider = ''provider''"
| "origin_value OProtocol = ''protocol''"

datatype failure_code =
    InvalidRequest | AuthenticationFailed | PermissionDenied | NotFound | RateLimited
  | UsageLimitExceeded | ConcurrencyLimited | QuotaExhausted | BalanceExhausted
  | OrganizationSpendLimitExceeded | ProjectSpendLimitExceeded | InputFiltered | OutputFiltered
  | TokenLimit | RequestTimeout | ProviderOverloaded | ServiceUnavailable | ProviderInternalError
  | ProviderRejected | Conflict | UnprocessableEntity | ProtocolFault | TransportFault

fun code_value :: "failure_code \<Rightarrow> string" where
  "code_value InvalidRequest = ''invalid_request''"
| "code_value AuthenticationFailed = ''authentication_failed''"
| "code_value PermissionDenied = ''permission_denied''"
| "code_value NotFound = ''not_found''"
| "code_value RateLimited = ''rate_limited''"
| "code_value UsageLimitExceeded = ''usage_limit_exceeded''"
| "code_value ConcurrencyLimited = ''concurrency_limited''"
| "code_value QuotaExhausted = ''quota_exhausted''"
| "code_value BalanceExhausted = ''balance_exhausted''"
| "code_value OrganizationSpendLimitExceeded = ''organization_spend_limit_exceeded''"
| "code_value ProjectSpendLimitExceeded = ''project_spend_limit_exceeded''"
| "code_value InputFiltered = ''input_filtered''"
| "code_value OutputFiltered = ''output_filtered''"
| "code_value TokenLimit = ''token_limit''"
| "code_value RequestTimeout = ''request_timeout''"
| "code_value ProviderOverloaded = ''provider_overloaded''"
| "code_value ServiceUnavailable = ''service_unavailable''"
| "code_value ProviderInternalError = ''provider_internal_error''"
| "code_value ProviderRejected = ''provider_rejected''"
| "code_value Conflict = ''conflict''"
| "code_value UnprocessableEntity = ''unprocessable_entity''"
| "code_value ProtocolFault = ''protocol_error''"
| "code_value TransportFault = ''transport_error''"

record model_failure =
  mf_origin :: failure_origin
  mf_code :: failure_code
  mf_provider_code :: "string option"
  mf_provider_type :: "string option"
  mf_http_status :: "int option"
  mf_diagnostic :: "string option"
  mf_response_started :: bool

datatype kind = KFinish | KFailure

record ('u) terminal =
  mt_call_id :: string
  mt_attempts :: nat
  mt_kind :: kind
  mt_semantic :: bool
  mt_duration :: "int option"
  mt_finish :: "model_finish option"
  mt_failure :: "model_failure option"
  mt_usage :: "(string \<times> 'u) list"

datatype 'u pub = PubStr string | PubNat nat | PubInt int | PubBool bool | PubUsage "(string \<times> 'u) list"
  | PubDict "(string \<times> string) list"

definition failure_public :: "model_failure \<Rightarrow> (string \<times> string) list" where
  "failure_public f =
     [(''origin'', origin_value (mf_origin f)), (''code'', code_value (mf_code f))] @
     (case mf_diagnostic f of Some (c # cs) \<Rightarrow> [(''diagnostic_id'', c # cs)] | _ \<Rightarrow> [])"

definition terminal_public :: "'u terminal \<Rightarrow> (string \<times> 'u pub) list" where
  "terminal_public t =
     [(''model_call_id'', PubStr (mt_call_id t)), (''attempt_count'', PubNat (mt_attempts t)),
      (''kind'', PubStr (case mt_kind t of KFinish \<Rightarrow> ''finish'' | KFailure \<Rightarrow> ''failure'')),
      (''has_semantic_output'', PubBool (mt_semantic t))] @
     (case mt_duration t of None \<Rightarrow> [] | Some d \<Rightarrow> [(''duration_ms'', PubInt d)]) @
     (case mt_finish t of None \<Rightarrow> [] | Some f \<Rightarrow> [(''finish'', PubStr (finish_value f))]) @
     (case mt_failure t of None \<Rightarrow> [] | Some f \<Rightarrow> [(''failure'', PubDict (failure_public f))]) @
     (if mt_usage t = [] then [] else [(''usage'', PubUsage (mt_usage t))])"

section \<open>Transport errors\<close>

text \<open>
  An exception: its class name, the names of the classes it is an instance of, its \<open>errno\<close>, and
  where its \<open>__cause__ or __context__\<close> sits in the store of exceptions.
\<close>

record pyexc =
  ex_name :: string
  ex_isa :: "string list"
  ex_errno :: "int option"
  ex_next :: "nat option"

function exception_chain :: "pyexc list \<Rightarrow> nat list \<Rightarrow> nat option \<Rightarrow> nat list" where
  "exception_chain heap seen None = []"
| "exception_chain heap seen (Some i) =
     (if i < length heap \<and> i \<notin> set seen
      then i # exception_chain heap (i # seen) (ex_next (heap ! i)) else [])"
  by pat_completeness auto

termination
proof (relation "measure (\<lambda>(heap, seen, i). card ({..<length heap} - set seen))")
  show "((heap, i # seen, ex_next (heap ! i)), heap, seen, Some i)
      \<in> measure (\<lambda>(heap, seen, i). card ({..<length heap} - set seen))"
    if "i < length heap \<and> i \<notin> set seen" for heap :: "pyexc list" and seen i
  proof -
    have "{..<length heap} - set (i # seen) \<subset> {..<length heap} - set seen" using that by auto
    then have "card ({..<length heap} - set (i # seen)) < card ({..<length heap} - set seen)"
      by (rule psubset_card_mono [rotated]) simp
    then show ?thesis by simp
  qed
qed simp

definition chain_items :: "pyexc list \<Rightarrow> nat \<Rightarrow> pyexc list" where
  "chain_items heap i = map ((!) heap) (exception_chain heap [] (Some i))"

definition isa :: "string list \<Rightarrow> pyexc \<Rightarrow> bool" where
  "isa cs e = list_ex (\<lambda>c. c \<in> set (ex_isa e)) cs"

definition retryable_types :: "string list" where
  "retryable_types = [''ConnectTimeout'', ''ReadTimeout'', ''ChunkedEncodingError'', ''ConnectionError'',
     ''ConnectionResetError'', ''ConnectionAbortedError'', ''BrokenPipeError'']"

definition retryable_names :: "string list" where
  "retryable_names = [''RemoteDisconnected'', ''IncompleteRead'', ''ProtocolError'']"

definition is_retryable_transport_error :: "int \<Rightarrow> pyexc list \<Rightarrow> bool" where
  "is_retryable_transport_error eagain chain =
     (if list_ex (isa [''SSLError'', ''ProxyError'']) chain then False
      else let dns = List.filter (isa [''gaierror'']) chain
           in if dns \<noteq> [] then list_ex (\<lambda>e. ex_errno e = Some eagain) dns
              else list_ex (\<lambda>e. isa retryable_types e \<or> ex_name e \<in> set retryable_names) chain)"

section \<open>The runner\<close>

text \<open>
  What an attempt leaves in its state, and how it ends: with frames, with a \<open>_ModelResponseError\<close>,
  with another exception (its chain), or with a \<open>ModelCallError\<close>, a \<open>ModuleExecutionError\<close> or a
  cancellation that the runner passes on.
\<close>

record 'u attempt_state =
  at_semantic :: bool
  at_started :: bool
  at_finish :: "model_finish option"
  at_frames :: "string list"
  at_usage :: "(string \<times> 'u) list"

datatype stop = SModuleError | SCallError | SCancelled

datatype attempt_end = EOk "string list" | EResponse model_failure | EExc "pyexc list" | EPass stop

datatype 'u event = Started string | Retry nat nat | Finished "'u terminal"

datatype 'u call_exn = Stopped stop | CallError "'u terminal" "string list" | Exhausted

record 'u runner =
  ru_events :: "'u event list"
  ru_reports :: "model_failure list"
  ru_checks :: nat

text \<open>
  The environment: the finding of the \<open>n\<close>-th check, the number of checks the wait after an attempt
  makes (none when there is no control), the call's id, the diagnostic id and the duration read
  at an attempt's end.
\<close>

record env =
  en_check :: "nat \<Rightarrow> stop option"
  en_wait :: "nat \<Rightarrow> nat"
  en_control :: bool
  en_call_id :: string
  en_diag :: "nat \<Rightarrow> string"
  en_duration :: "nat \<Rightarrow> int"
  en_eagain :: int

type_synonym ('u, 'a) rx = "'u runner \<Rightarrow> ('u call_exn + 'a) \<times> 'u runner"

definition check_cancel :: "env \<Rightarrow> ('u, unit) rx" where
  "check_cancel en s =
     (if en_control en then
        (case en_check en (ru_checks s) of
           None \<Rightarrow> (Inr (), s\<lparr>ru_checks := Suc (ru_checks s)\<rparr>)
         | Some x \<Rightarrow> (Inl (Stopped x), s\<lparr>ru_checks := Suc (ru_checks s)\<rparr>))
      else (Inr (), s))"

definition emit :: "'u event \<Rightarrow> 'u runner \<Rightarrow> 'u runner" where
  "emit e s = s\<lparr>ru_events := ru_events s @ [e]\<rparr>"

definition report_failure :: "model_failure \<Rightarrow> 'u runner \<Rightarrow> 'u runner" where
  "report_failure f s = s\<lparr>ru_reports := ru_reports s @ [f]\<rparr>"

fun wait_checks :: "env \<Rightarrow> nat \<Rightarrow> ('u, unit) rx" where
  "wait_checks en 0 s = (Inr (), s)"
| "wait_checks en (Suc n) s =
     (case check_cancel en s of (Inl x, s') \<Rightarrow> (Inl x, s') | (Inr u, s') \<Rightarrow> wait_checks en n s')"

definition mk_terminal ::
    "env \<Rightarrow> nat \<Rightarrow> kind \<Rightarrow> bool \<Rightarrow> 'u attempt_state \<Rightarrow> model_failure option \<Rightarrow> 'u terminal" where
  "mk_terminal en k kd sem st fl =
     \<lparr>mt_call_id = en_call_id en, mt_attempts = k, mt_kind = kd, mt_semantic = sem,
      mt_duration = Some (max 0 (en_duration en k)),
      mt_finish = (case kd of KFinish \<Rightarrow> at_finish st | KFailure \<Rightarrow> None),
      mt_failure = fl, mt_usage = at_usage st\<rparr>"

definition transport_failure :: "env \<Rightarrow> nat \<Rightarrow> 'u attempt_state \<Rightarrow> pyexc list \<Rightarrow> model_failure" where
  "transport_failure en k st chain =
     \<lparr>mf_origin = OTransport,
      mf_code = (if list_ex (isa [''Timeout'', ''timeout'']) chain then RequestTimeout else TransportFault),
      mf_provider_code = None, mf_provider_type = None, mf_http_status = None,
      mf_diagnostic = Some (en_diag en k), mf_response_started = at_started st\<rparr>"

text \<open>The three ways an attempt ends the call.\<close>

definition end_ok :: "env \<Rightarrow> nat \<Rightarrow> bool \<Rightarrow> 'u attempt_state \<Rightarrow> string list \<Rightarrow> ('u, string list) rx" where
  "end_ok en k sem st frames s =
     (let t = mk_terminal en k KFinish sem st None; s' = emit (Finished t) s
      in if at_finish st = Some FStop \<or> at_finish st = Some FToolCalls then (Inr frames, s')
         else (Inl (CallError t frames), s'))"

definition end_failed :: "env \<Rightarrow> nat \<Rightarrow> bool \<Rightarrow> 'u attempt_state \<Rightarrow> model_failure \<Rightarrow> ('u, string list) rx" where
  "end_failed en k sem st fl s =
     (let t = mk_terminal en k KFailure sem st (Some fl)
      in (Inl (CallError t (at_frames st)), emit (Finished t) (report_failure fl s)))"

text \<open>
  An attempt that neither passed an exception on nor was cancelled: a retryable transport error
  before any response and any output schedules a retry (\<open>None\<close>) while attempts are left, anything
  else ends the call.
\<close>

definition settle ::
    "env \<Rightarrow> nat \<Rightarrow> nat \<Rightarrow> bool \<Rightarrow> 'u attempt_state \<Rightarrow> attempt_end \<Rightarrow> 'u runner
     \<Rightarrow> ('u call_exn + string list) option \<times> 'u runner" where
  "settle en limit k sem st e s =
     (case e of
        EOk frames \<Rightarrow> apfst Some (end_ok en k sem st frames s)
      | EResponse fl \<Rightarrow> apfst Some (end_failed en k sem st (fl\<lparr>mf_response_started := at_started st\<rparr>) s)
      | EExc chain \<Rightarrow>
          (if is_retryable_transport_error (en_eagain en) chain \<and> \<not> at_started st \<and> \<not> sem \<and> k < limit
           then (None, emit (Retry k limit) s)
           else apfst Some (end_failed en k sem st (transport_failure en k st chain) s))
      | EPass x \<Rightarrow> (Some (Inl (Stopped x)), s))"

text \<open>
  One attempt. The first check stands before the call, the second after a call that returned or in
  the handler of one that raised.
\<close>

definition attempt_once ::
    "env \<Rightarrow> (nat \<Rightarrow> 'u attempt_state \<times> attempt_end) \<Rightarrow> nat \<Rightarrow> nat \<Rightarrow> bool \<Rightarrow> 'u runner
     \<Rightarrow> ('u call_exn + string list) option \<times> 'u runner" where
  "attempt_once en exec limit k sem s =
     (case check_cancel en s of
        (Inl x, s1) \<Rightarrow> (Some (Inl x), s1)
      | (Inr u, s1) \<Rightarrow>
          (case exec k of
             (st, EPass x) \<Rightarrow> (Some (Inl (Stopped x)), s1)
           | (st, e) \<Rightarrow>
               (case check_cancel en s1 of
                  (Inl x, s2) \<Rightarrow> (Some (Inl x), s2)
                | (Inr u, s2) \<Rightarrow> settle en limit k (sem \<or> at_semantic st) st e s2)))"

text \<open>The loop, by the number of attempts left; \<open>k\<close> is \<open>attempt_index\<close>.\<close>

fun attempt_loop ::
    "env \<Rightarrow> (nat \<Rightarrow> 'u attempt_state \<times> attempt_end) \<Rightarrow> nat \<Rightarrow> nat \<Rightarrow> nat \<Rightarrow> bool \<Rightarrow> ('u, string list) rx" where
  "attempt_loop en exec limit 0 k sem s = (Inl Exhausted, s)"
| "attempt_loop en exec limit (Suc left) k sem s =
     (case attempt_once en exec limit k sem s of
        (Some r, s1) \<Rightarrow> (r, s1)
      | (None, s1) \<Rightarrow>
          (case (if en_control en then wait_checks en (en_wait en k) s1 else (Inr (), s1)) of
             (Inl x, s2) \<Rightarrow> (Inl x, s2)
           | (Inr u, s2) \<Rightarrow>
               attempt_loop en exec limit left (Suc k) (sem \<or> at_semantic (fst (exec k))) s2))"

definition run_call ::
    "env \<Rightarrow> (nat \<Rightarrow> 'u attempt_state \<times> attempt_end) \<Rightarrow> int \<Rightarrow> ('u, string list) rx" where
  "run_call en exec max_attempts s =
     (let limit = nat (max 1 max_attempts)
      in attempt_loop en exec limit limit 1 False (emit (Started (en_call_id en)) s))"

section \<open>Lines of a response\<close>

text \<open>
  \<open>re.split(b'[\\r\\n]', s)\<close>, and the generator that cuts chunks into lines: what follows the last
  break waits for the next chunk, and a last part that is not empty is a line too.
\<close>

definition is_break :: "char \<Rightarrow> bool" where
  "is_break c \<longleftrightarrow> c = CHR 0x0D \<or> c = CHR 0x0A"

fun split_breaks :: "string \<Rightarrow> string \<Rightarrow> string list" where
  "split_breaks acc [] = [rev acc]"
| "split_breaks acc (c # cs) =
     (if is_break c then rev acc # split_breaks [] cs else split_breaks (c # acc) cs)"

fun frames_loop :: "string \<Rightarrow> string list \<Rightarrow> string list" where
  "frames_loop pending [] = (if pending \<noteq> [] then [pending] else [])"
| "frames_loop pending (c # cs) =
     (let parts = split_breaks [] (pending @ c) in butlast parts @ frames_loop (last parts) cs)"

definition response_frames :: "string list \<Rightarrow> string list" where
  "response_frames chunks = frames_loop [] chunks"

lemma split_breaks_nonempty [simp]: "split_breaks acc s \<noteq> []"
  by (induction s arbitrary: acc) auto

lemma split_breaks_append:
  "split_breaks acc (s @ t) =
     butlast (split_breaks acc s) @ split_breaks (rev (last (split_breaks acc s))) t"
  by (induction s arbitrary: acc) auto

lemma split_breaks_no_break: "\<not> list_ex is_break s \<Longrightarrow> split_breaks acc s = [rev acc @ s]"
  by (induction s arbitrary: acc) auto

lemma last_split_breaks: "\<not> list_ex is_break acc \<Longrightarrow> \<not> list_ex is_break (last (split_breaks acc s))"
  by (induction s arbitrary: acc) auto

lemma split_breaks_acc: "\<not> list_ex is_break acc \<Longrightarrow> split_breaks acc s = split_breaks [] (rev acc @ s)"
  by (simp add: split_breaks_append split_breaks_no_break list_ex_iff)

definition lines_of :: "string \<Rightarrow> string list" where
  "lines_of s = (let parts = split_breaks [] s
     in butlast parts @ (if last parts \<noteq> [] then [last parts] else []))"

lemma frames_loop_lines:
  "\<not> list_ex is_break pending \<Longrightarrow> frames_loop pending cs = lines_of (pending @ concat cs)"
proof (induction cs arbitrary: pending)
  case Nil
  then show ?case by (simp add: lines_of_def split_breaks_no_break)
next
  case (Cons c cs)
  let ?l = "last (split_breaks [] (pending @ c))"
  have l: "\<not> list_ex is_break ?l" by (rule last_split_breaks) simp
  have "split_breaks [] (pending @ c @ concat cs) =
      butlast (split_breaks [] (pending @ c)) @ split_breaks [] (?l @ concat cs)"
    using split_breaks_append [of "[]" "pending @ c" "concat cs"] split_breaks_acc [of "rev ?l" "concat cs"] l
    by (simp add: list_ex_iff)
  then show ?case using Cons.IH [OF l] by (simp add: lines_of_def Let_def butlast_append)
qed

text \<open>
  The lines that a controlled response yields depend on its bytes only, not on how the network
  cut them into chunks: they are the parts between line breaks, without an empty last one.
\<close>

theorem response_frames_chunking: "response_frames chunks = lines_of (concat chunks)"
  by (simp add: response_frames_def frames_loop_lines)

section \<open>What a call promises\<close>

definition may_retry :: "env \<Rightarrow> nat \<Rightarrow> 'u attempt_state \<times> attempt_end \<Rightarrow> bool" where
  "may_retry en limit res \<longleftrightarrow>
     (case res of (st, EExc chain) \<Rightarrow>
        is_retryable_transport_error (en_eagain en) chain \<and> \<not> at_started st \<and> \<not> at_semantic st
      | _ \<Rightarrow> False)"

lemma check_cancel_keeps:
  "check_cancel en s = (r, s') \<Longrightarrow> ru_events s' = ru_events s \<and> ru_reports s' = ru_reports s \<and>
     (r = Inr () \<or> (\<exists>x. r = Inl (Stopped x)))"
  by (auto simp: check_cancel_def split: if_splits option.splits)

lemma wait_checks_keeps:
  "wait_checks en n s = (r, s') \<Longrightarrow> ru_events s' = ru_events s \<and> ru_reports s' = ru_reports s \<and>
     (r = Inr () \<or> (\<exists>x. r = Inl (Stopped x)))"
proof (induction n arbitrary: s)
  case (Suc n)
  then show ?case
    by (cases "check_cancel en s") (auto split: sum.splits dest!: check_cancel_keeps)
qed simp

text \<open>How a call that was not stopped ended at attempt \<open>k\<close>, and the terminal event it sent.\<close>

definition ended :: "env \<Rightarrow> nat \<Rightarrow> (nat \<Rightarrow> 'u attempt_state \<times> attempt_end) \<Rightarrow> nat \<Rightarrow>
    'u call_exn + string list \<Rightarrow> 'u terminal \<Rightarrow> bool" where
  "ended en limit exec k r t \<longleftrightarrow> mt_attempts t = k \<and>
     (case exec k of
        (st, EOk frames) \<Rightarrow> mt_kind t = KFinish \<and> mt_finish t = at_finish st \<and> mt_failure t = None \<and>
          mt_semantic t = at_semantic st \<and>
          r = (if at_finish st = Some FStop \<or> at_finish st = Some FToolCalls then Inr frames
               else Inl (CallError t frames))
      | (st, EResponse fl) \<Rightarrow> mt_kind t = KFailure \<and> mt_failure t = Some (fl\<lparr>mf_response_started := at_started st\<rparr>) \<and>
          mt_semantic t = at_semantic st \<and> r = Inl (CallError t (at_frames st))
      | (st, EExc chain) \<Rightarrow> \<not> (may_retry en limit (exec k) \<and> k < limit) \<and> mt_kind t = KFailure \<and>
          mt_failure t = Some (transport_failure en k st chain) \<and>
          mt_semantic t = at_semantic st \<and> r = Inl (CallError t (at_frames st))
      | (st, EPass x) \<Rightarrow> False)"

lemma settle_spec:
  assumes "settle en limit k (at_semantic st) st e s = (ro, s')" and "exec k = (st, e)" and "\<nexists>x. e = EPass x"
  shows "(ro = None \<and> may_retry en limit (exec k) \<and> k < limit \<and> ru_events s' = ru_events s @ [Retry k limit]) \<or>
     (\<exists>r t. ro = Some r \<and> ended en limit exec k r t \<and> ru_events s' = ru_events s @ [Finished t])"
proof (cases e)
  case (EOk frames)
  let ?t = "mk_terminal en k KFinish (at_semantic st) st None"
  have "ro = Some (if at_finish st = Some FStop \<or> at_finish st = Some FToolCalls then Inr frames
      else Inl (CallError ?t frames))" "s' = emit (Finished ?t) s"
    using assms(1) EOk by (auto simp: settle_def end_ok_def Let_def split: if_splits)
  moreover have "ended en limit exec k (if at_finish st = Some FStop \<or> at_finish st = Some FToolCalls
      then Inr frames else Inl (CallError ?t frames)) ?t"
    using assms(2) EOk by (simp add: ended_def mk_terminal_def)
  ultimately show ?thesis unfolding emit_def by auto
next
  case (EResponse fl)
  let ?t = "mk_terminal en k KFailure (at_semantic st) st (Some (fl\<lparr>mf_response_started := at_started st\<rparr>))"
  have "ended en limit exec k (Inl (CallError ?t (at_frames st))) ?t"
    using assms(2) EResponse by (simp add: ended_def mk_terminal_def)
  with assms(1) EResponse show ?thesis
    by (auto simp: settle_def end_failed_def report_failure_def Let_def emit_def)
next
  case (EExc chain)
  let ?t = "mk_terminal en k KFailure (at_semantic st) st (Some (transport_failure en k st chain))"
  show ?thesis
  proof (cases "may_retry en limit (exec k) \<and> k < limit")
    case True
    with assms EExc show ?thesis by (auto simp: settle_def may_retry_def emit_def)
  next
    case False
    with assms(2) EExc have "ended en limit exec k (Inl (CallError ?t (at_frames st))) ?t"
      by (simp add: ended_def mk_terminal_def)
    moreover have "ro = Some (Inl (CallError ?t (at_frames st)))" "ru_events s' = ru_events s @ [Finished ?t]"
      using False assms EExc
      by (auto simp: settle_def end_failed_def report_failure_def Let_def emit_def may_retry_def split: if_splits)
    ultimately show ?thesis by blast
  qed
qed (use assms in auto)

lemma attempt_once_spec:
  assumes "attempt_once en exec limit k False s = (ro, s')"
  shows "(ro = None \<and> may_retry en limit (exec k) \<and> k < limit \<and> ru_events s' = ru_events s @ [Retry k limit]) \<or>
     (\<exists>x. ro = Some (Inl (Stopped x)) \<and> ru_events s' = ru_events s) \<or>
     (\<exists>r t. ro = Some r \<and> ended en limit exec k r t \<and> ru_events s' = ru_events s @ [Finished t])"
proof -
  obtain st e where e: "exec k = (st, e)" by fastforce
  obtain c1 s1 where c1: "check_cancel en s = (c1, s1)" by fastforce
  obtain c2 s2 where c2: "check_cancel en s1 = (c2, s2)" by fastforce
  note k1 = check_cancel_keeps [OF c1] and k2 = check_cancel_keeps [OF c2]
  consider x where "c1 = Inl (Stopped x)" | x where "c1 = Inr ()" "e = EPass x"
    | x where "c1 = Inr ()" "\<nexists>x. e = EPass x" "c2 = Inl (Stopped x)"
    | "c1 = Inr ()" "\<nexists>x. e = EPass x" "c2 = Inr ()"
    using k1 k2 by metis
  then show ?thesis
  proof cases
    case 4
    then have "settle en limit k (at_semantic st) st e s2 = (ro, s')"
      using assms c1 c2 e by (cases e) (auto simp: attempt_once_def)
    from settle_spec [of en limit k st e s2 ro s' exec, OF this e 4(2)] k1 k2 show ?thesis by auto
  next
    case 3
    then show ?thesis using assms c1 c2 e k1 k2 by (cases e) (auto simp: attempt_once_def)
  qed (use assms c1 e k1 in \<open>auto simp: attempt_once_def\<close>)
qed

text \<open>
  The events of a call: a retry for every attempt before the last, then the terminal event, or
  nothing more when the call was stopped.
\<close>

definition call_events :: "env \<Rightarrow> nat \<Rightarrow> (nat \<Rightarrow> 'u attempt_state \<times> attempt_end) \<Rightarrow> nat \<Rightarrow>
    'u call_exn + string list \<Rightarrow> 'u event list \<Rightarrow> bool" where
  "call_events en limit exec k r evs \<longleftrightarrow>
     (\<exists>n\<ge>k. n \<le> limit \<and> (\<forall>j. k \<le> j \<and> j < n \<longrightarrow> may_retry en limit (exec j)) \<and>
       ((\<exists>t. evs = map (\<lambda>j. Retry j limit) [k..<n] @ [Finished t] \<and> ended en limit exec n r t) \<or>
        (\<exists>x. r = Inl (Stopped x) \<and> (evs = map (\<lambda>j. Retry j limit) [k..<n] \<or>
           evs = map (\<lambda>j. Retry j limit) [k..<Suc n] \<and> may_retry en limit (exec n)))))"

lemma call_events_Cons:
  assumes "may_retry en limit (exec k)" and "call_events en limit exec (Suc k) r evs"
  shows "call_events en limit exec k r (Retry k limit # evs)"
proof -
  obtain n where n: "Suc k \<le> n" "n \<le> limit" "\<forall>j. Suc k \<le> j \<and> j < n \<longrightarrow> may_retry en limit (exec j)"
    "(\<exists>t. evs = map (\<lambda>j. Retry j limit) [Suc k..<n] @ [Finished t] \<and> ended en limit exec n r t) \<or>
     (\<exists>x. r = Inl (Stopped x) \<and> (evs = map (\<lambda>j. Retry j limit) [Suc k..<n] \<or>
        evs = map (\<lambda>j. Retry j limit) [Suc k..<Suc n] \<and> may_retry en limit (exec n)))"
    using assms(2) unfolding call_events_def by blast
  have "\<forall>j. k \<le> j \<and> j < n \<longrightarrow> may_retry en limit (exec j)"
    using n(3) assms(1) by (metis Suc_leI le_neq_implies_less)
  with n show ?thesis
    unfolding call_events_def by (intro exI [of _ n]) (auto simp: upt_conv_Cons simp del: upt_Suc)
qed

lemma attempt_loop_outcome:
  assumes "attempt_loop en exec limit left k False s = (r, s')" and "left + k = Suc limit" and "0 < left"
  shows "\<exists>evs. ru_events s' = ru_events s @ evs \<and> call_events en limit exec k r evs"
  using assms
proof (induction left arbitrary: k s)
  case (Suc left)
  obtain ro s1 where a: "attempt_once en exec limit k False s = (ro, s1)" by fastforce
  have k: "k \<le> limit" using Suc.prems(2) by simp
  from attempt_once_spec [OF a]
  consider x where "ro = Some (Inl (Stopped x))" "ru_events s1 = ru_events s"
    | r' t where "ro = Some r'" "ended en limit exec k r' t" "ru_events s1 = ru_events s @ [Finished t]"
    | "ro = None" "may_retry en limit (exec k)" "k < limit" "ru_events s1 = ru_events s @ [Retry k limit]"
    by blast
  then show ?case
  proof cases
    case 3
    obtain c s2 where c: "(if en_control en then wait_checks en (en_wait en k) s1 else (Inr (), s1)) = (c, s2)"
      by fastforce
    then have k2: "ru_events s2 = ru_events s1" "c = Inr () \<or> (\<exists>x. c = Inl (Stopped x))"
      using wait_checks_keeps [of en "en_wait en k" s1] by (auto split: if_splits)
    show ?thesis
    proof (cases c)
      case (Inl x)
      with k2 Suc.prems(1) a c 3 k show ?thesis
        by (auto simp: call_events_def intro!: exI [of _ k])
    next
      case (Inr u)
      have "at_semantic (fst (exec k)) = False"
        using 3(2) by (auto simp: may_retry_def split: prod.splits attempt_end.splits)
      with Inr Suc.prems(1) a c 3(1) have "attempt_loop en exec limit left (Suc k) False s2 = (r, s')"
        by simp
      from Suc.IH [OF this] Suc.prems(2) 3(3) obtain evs where
        "ru_events s' = ru_events s2 @ evs" "call_events en limit exec (Suc k) r evs" by auto
      with k2(1) 3(4) call_events_Cons [of en limit exec k r evs] 3(2) show ?thesis by auto
    qed
  qed (use Suc.prems(1) a k in \<open>auto simp: call_events_def intro!: exI [of _ k]\<close>)
qed simp

text \<open>
  C30. A model call sends one start event and at most one terminal event, last; it makes at most
  \<open>max(1, max_attempts)\<close> attempts; an attempt is repeated only after a retryable transport error that
  came before any response and any semantic output; and unless it was cancelled or passed an
  exception on, the terminal event reports the last attempt as the caller sees it.
\<close>

theorem run_call_outcome:
  assumes "run_call en exec max_attempts s = (r, s')"
  shows "\<exists>evs. ru_events s' = ru_events s @ Started (en_call_id en) # evs \<and>
     call_events en (nat (max 1 max_attempts)) exec 1 r evs"
  using attempt_loop_outcome [of en exec "nat (max 1 max_attempts)" "nat (max 1 max_attempts)" 1
      "emit (Started (en_call_id en)) s" r s'] assms
  by (auto simp: run_call_def Let_def emit_def)

definition demo_env :: env where
  "demo_env = \<lparr>en_check = (\<lambda>_. None), en_wait = (\<lambda>_. 1), en_control = False, en_call_id = ''id'',
     en_diag = (\<lambda>_. ''d''), en_duration = (\<lambda>_. 7), en_eagain = 11\<rparr>"

definition demo_exec :: "nat \<Rightarrow> unit attempt_state \<times> attempt_end" where
  "demo_exec k =
     (if k < 3 then (\<lparr>at_semantic = False, at_started = False, at_finish = None, at_frames = [], at_usage = []\<rparr>,
         EExc [\<lparr>ex_name = ''ConnectTimeout'', ex_isa = [''ConnectTimeout'', ''Timeout''], ex_errno = None, ex_next = None\<rparr>])
      else (\<lparr>at_semantic = True, at_started = True, at_finish = Some FStop, at_frames = [], at_usage = []\<rparr>, EOk [''hi'']))"

definition idle_runner :: "unit runner" where
  "idle_runner = \<lparr>ru_events = [], ru_reports = [], ru_checks = 0\<rparr>"

theorem run_call_outcome_witness:
  "fst (run_call demo_env demo_exec 4 idle_runner) = Inr [''hi''] \<and>
   (\<exists>evs. ru_events (snd (run_call demo_env demo_exec 4 idle_runner)) = Started ''id'' # evs \<and>
      call_events demo_env 4 demo_exec 1 (Inr [''hi'']) evs)"
proof -
  have f: "fst (run_call demo_env demo_exec 4 idle_runner) = Inr [''hi'']" by code_simp
  have "run_call demo_env demo_exec 4 idle_runner =
      (Inr [''hi''], snd (run_call demo_env demo_exec 4 idle_runner))"
    using f by (metis prod.collapse)
  from run_call_outcome [OF this] f show ?thesis
    by (simp add: idle_runner_def demo_env_def)
qed

text \<open>
  The public record of a terminal shows no provider detail: whatever the failure holds besides its
  origin, code and diagnostic id does not change it.
\<close>

lemma terminal_public_hides:
  assumes "mf_origin f = mf_origin g" and "mf_code f = mf_code g" and "mf_diagnostic f = mf_diagnostic g"
  shows "terminal_public (t\<lparr>mt_failure := Some f\<rparr>) = terminal_public (t\<lparr>mt_failure := Some g\<rparr>)"
  using assms by (simp add: terminal_public_def failure_public_def)

lemma exception_chain_distinct:
  "distinct (exception_chain heap seen i) \<and> set (exception_chain heap seen i) \<inter> set seen = {} \<and>
   set (exception_chain heap seen i) \<subseteq> {..<length heap}"
  by (induction heap seen i rule: exception_chain.induct) auto

end
