(* ===== verification/ToolAccess.thy ===== *)
theory ToolAccess
  imports PyText "HOL-Library.Multiset"
begin

text \<open>
  The resources a tool call declares (\<open>lazyllm/tools/agent/tool_runtime.py\<close>) and the segments of
  calls that may run side by side (\<open>toolsManager.py\<close>). The file system's canonical form of a path
  (\<open>normcase(realpath(abspath(expanduser(p))))\<close>, as path parts) is a parameter.
\<close>

section \<open>Resource keys\<close>

text \<open>What a tool declares: a string, a tuple of atoms, or something that is neither.\<close>

datatype atom = AtStr string | AtInt int | AtOther

datatype raw_key = RStr string | RTuple "atom list" | RBad

datatype rkey = Exact raw_key | FileKey "string list"

definition file_namespace :: string where "file_namespace = ''file''"

definition normalize_resource_key :: "(string \<Rightarrow> string list) \<Rightarrow> raw_key \<Rightarrow> rkey res" where
  "normalize_resource_key canon k =
     (case k of
        RStr s \<Rightarrow> (if strip s = [] then Inl ValueError else Inr (Exact k))
      | RBad \<Rightarrow> Inl TypeError
      | RTuple [] \<Rightarrow> Inl TypeError
      | RTuple (a # as) \<Rightarrow>
          (if a = AtStr file_namespace then
             (case as of
                [AtStr p] \<Rightarrow> (if strip p = [] then Inl ValueError else Inr (FileKey (canon p)))
              | [_] \<Rightarrow> Inl TypeError
              | _ \<Rightarrow> Inl ValueError)
           else Inr (Exact k)))"

text \<open>A declaration: one key, or a list or set of keys.\<close>

datatype raw_keys = KOne raw_key | KMany "raw_key list" | KBadType

definition normalize_resource_keys :: "(string \<Rightarrow> string list) \<Rightarrow> raw_keys \<Rightarrow> rkey set res" where
  "normalize_resource_keys canon v =
     (case v of
        KBadType \<Rightarrow> Inl TypeError
      | KOne RBad \<Rightarrow> Inl TypeError
      | KOne k \<Rightarrow> rbind (rmap (normalize_resource_key canon) [k]) (\<lambda>ks. Inr (set ks))
      | KMany [] \<Rightarrow> Inl ValueError
      | KMany ks \<Rightarrow> rbind (rmap (normalize_resource_key canon) ks) (\<lambda>ks. Inr (set ks)))"

record access =
  ac_read :: "rkey set"
  ac_write :: "rkey set"
  ac_exclusive :: bool

definition no_access :: access where
  "no_access = \<lparr>ac_read = {}, ac_write = {}, ac_exclusive = False\<rparr>"

section \<open>Metadata\<close>

datatype fileop = OpRead | OpWrite | OpDelete

record intent =
  hf_path :: string
  hf_op :: fileop

text \<open>\<open>HostFileIntent.__post_init__\<close>; an absolute path starts with a slash.\<close>

definition host_intent :: "string \<Rightarrow> string \<Rightarrow> intent res" where
  "host_intent p operation =
     (if \<not> starts_with ''/'' p then Inl ValueError
      else if operation = ''read'' then Inr \<lparr>hf_path = p, hf_op = OpRead\<rparr>
      else if operation = ''write'' then Inr \<lparr>hf_path = p, hf_op = OpWrite\<rparr>
      else if operation = ''delete'' then Inr \<lparr>hf_path = p, hf_op = OpDelete\<rparr>
      else Inl ValueError)"

definition file_keys :: "(string \<Rightarrow> string list) \<Rightarrow> intent list \<Rightarrow> rkey set res" where
  "file_keys canon fs =
     rbind (rmap (\<lambda>f. normalize_resource_key canon (RTuple [AtStr file_namespace, AtStr (hf_path f)])) fs)
       (\<lambda>ks. Inr (set ks))"

definition host_file_access :: "(string \<Rightarrow> string list) \<Rightarrow> intent list \<Rightarrow> access res" where
  "host_file_access canon fs =
     rbind (file_keys canon (List.filter (\<lambda>f. hf_op f = OpRead) fs)) (\<lambda>rs.
     rbind (file_keys canon (List.filter (\<lambda>f. hf_op f \<noteq> OpRead) fs)) (\<lambda>ws.
     Inr \<lparr>ac_read = rs - ws, ac_write = ws, ac_exclusive = False\<rparr>))"

text \<open>A source of keys: none, a fixed declaration, or a function of the arguments that may raise.\<close>

datatype 'a source = NoSource | Fixed raw_keys | Computed "'a \<Rightarrow> exn + raw_keys"

record 'a metadata =
  md_read :: "'a source"
  md_write :: "'a source"
  md_exclusive :: bool

text \<open>The checks of \<open>ToolRuntimeMetadata.__post_init__\<close> on the resource fields.\<close>

definition metadata_check :: "(string \<Rightarrow> string list) \<Rightarrow> 'a metadata \<Rightarrow> unit res" where
  "metadata_check canon md =
     rbind (ensure (\<not> (md_exclusive md \<and> \<not> (case (md_read md, md_write md) of
                        (NoSource, NoSource) \<Rightarrow> True | _ \<Rightarrow> False))) ValueError) (\<lambda>_.
     rfold (\<lambda>s u. case s of Fixed ks \<Rightarrow> rbind (normalize_resource_keys canon ks) (\<lambda>_. Inr ()) | _ \<Rightarrow> Inr ())
       [md_read md, md_write md] ())"

definition resolve_source :: "(string \<Rightarrow> string list) \<Rightarrow> 'a source \<Rightarrow> 'a \<Rightarrow> rkey set res" where
  "resolve_source canon s args =
     (case s of
        NoSource \<Rightarrow> Inr {}
      | Fixed ks \<Rightarrow> normalize_resource_keys canon ks
      | Computed f \<Rightarrow> rbind (f args) (normalize_resource_keys canon))"

definition resolve :: "(string \<Rightarrow> string list) \<Rightarrow> 'a metadata \<Rightarrow> 'a \<Rightarrow> access res" where
  "resolve canon md args =
     (if md_exclusive md then Inr (no_access\<lparr>ac_exclusive := True\<rparr>)
      else rbind (resolve_source canon (md_read md) args) (\<lambda>rs.
           rbind (resolve_source canon (md_write md) args) (\<lambda>ws.
           Inr \<lparr>ac_read = rs - ws, ac_write = ws, ac_exclusive = False\<rparr>)))"

text \<open>A tool whose keys cannot be resolved runs alone.\<close>

definition resolve_runtime_access :: "(string \<Rightarrow> string list) \<Rightarrow> 'a metadata \<Rightarrow> 'a \<Rightarrow> access" where
  "resolve_runtime_access canon md args =
     (case resolve canon md args of Inr a \<Rightarrow> a | Inl e \<Rightarrow> no_access\<lparr>ac_exclusive := True\<rparr>)"

text \<open>The access of a prepared call joins the declared keys and the host files.\<close>

definition join_access :: "access \<Rightarrow> access \<Rightarrow> access" where
  "join_access a h =
     (let rs = ac_read a \<union> ac_read h; ws = ac_write a \<union> ac_write h
      in \<lparr>ac_read = rs - ws, ac_write = ws, ac_exclusive = ac_exclusive a\<rparr>)"

section \<open>Conflicts\<close>

text \<open>Two files overlap when one path lies at or below the other.\<close>

definition keys_overlap :: "rkey \<Rightarrow> rkey \<Rightarrow> bool" where
  "keys_overlap l r =
     (case (l, r) of
        (Exact a, Exact b) \<Rightarrow> a = b
      | (FileKey ps, FileKey qs) \<Rightarrow>
          (let n = min (length ps) (length qs) in 0 < n \<and> take n ps = take n qs)
      | _ \<Rightarrow> False)"

definition accesses_conflict :: "access \<Rightarrow> access \<Rightarrow> bool" where
  "accesses_conflict current reserved \<longleftrightarrow>
     (\<exists>w \<in> ac_write current. \<exists>k \<in> ac_read reserved \<union> ac_write reserved. keys_overlap w k) \<or>
     (\<exists>r \<in> ac_read current. \<exists>k \<in> ac_write reserved. keys_overlap r k)"

definition reserve :: "access \<Rightarrow> access \<Rightarrow> access" where
  "reserve r a = \<lparr>ac_read = ac_read r \<union> ac_read a, ac_write = ac_write r \<union> ac_write a, ac_exclusive = False\<rparr>"

lemma keys_overlap_sym: "keys_overlap a b = keys_overlap b a"
  by (auto simp: keys_overlap_def min.commute Let_def split: rkey.splits)

lemma accesses_conflict_sym: "accesses_conflict a b = accesses_conflict b a"
  unfolding accesses_conflict_def using keys_overlap_sym by blast

lemma conflict_no_access [simp]: "\<not> accesses_conflict a no_access"
  by (simp add: accesses_conflict_def no_access_def)

lemma conflict_reserve: "accesses_conflict a (reserve r b) \<longleftrightarrow> accesses_conflict a r \<or> accesses_conflict a b"
  by (auto simp: accesses_conflict_def reserve_def)

section \<open>Segments\<close>

text \<open>The loop of \<open>_build_execution_segments\<close>: the closed segments, the open one, what it reserves.\<close>

definition close_segment :: "nat list list \<Rightarrow> nat list \<Rightarrow> nat list list" where
  "close_segment segs cur = (if cur \<noteq> [] then segs @ [cur] else segs)"

fun build_loop :: "nat \<Rightarrow> access list \<Rightarrow> nat list list \<Rightarrow> nat list \<Rightarrow> access \<Rightarrow> nat list list" where
  "build_loop i [] segs cur reserved = close_segment segs cur"
| "build_loop i (a # as) segs cur reserved =
     (if ac_exclusive a then build_loop (Suc i) as (close_segment segs cur @ [[i]]) [] no_access
      else if accesses_conflict a reserved
        then build_loop (Suc i) as (close_segment segs cur) [i] (reserve no_access a)
      else build_loop (Suc i) as segs (cur @ [i]) (reserve reserved a))"

definition build_segments :: "access list \<Rightarrow> nat list list" where
  "build_segments as = build_loop 0 as [] [] no_access"

text \<open>Calls that may share a segment: neither exclusive, and no declared keys that clash.\<close>

definition compatible :: "access \<Rightarrow> access \<Rightarrow> bool" where
  "compatible a b \<longleftrightarrow> \<not> ac_exclusive a \<and> \<not> ac_exclusive b \<and> \<not> accesses_conflict a b"

lemma compatible_sym: "compatible a b = compatible b a"
  by (auto simp: compatible_def accesses_conflict_sym)

definition segment_ok :: "access list \<Rightarrow> nat list \<Rightarrow> bool" where
  "segment_ok as seg \<longleftrightarrow> seg \<noteq> [] \<and> pairwise (\<lambda>i j. compatible (as ! i) (as ! j)) (set seg)"

text \<open>
  The invariant after \<open>i\<close> calls: segments and open segment list the calls so far in order, the segments are sound,
  and the reservation stands for the keys of the open one, whose calls are not exclusive.
\<close>

definition build_inv :: "access list \<Rightarrow> nat \<Rightarrow> nat list list \<Rightarrow> nat list \<Rightarrow> access \<Rightarrow> bool" where
  "build_inv as i segs cur reserved \<longleftrightarrow>
     concat segs @ cur = [0..<i] \<and> (\<forall>s \<in> set segs. segment_ok as s) \<and>
     (cur = [] \<or> segment_ok as cur) \<and> (\<forall>j \<in> set cur. \<not> ac_exclusive (as ! j)) \<and>
     (\<forall>a. accesses_conflict a reserved \<longleftrightarrow> (\<exists>j \<in> set cur. accesses_conflict a (as ! j)))"

lemma close_segment_inv:
  assumes "build_inv as i segs cur reserved"
  shows "concat (close_segment segs cur) = [0..<i]" "\<forall>s \<in> set (close_segment segs cur). segment_ok as s"
  using assms by (auto simp: build_inv_def close_segment_def)

lemma segment_ok_single [simp]: "segment_ok as [i]"
  by (simp add: segment_ok_def pairwise_def)

lemma build_loop_inv:
  assumes "build_inv as i segs cur reserved" and "drop i as = rest" and "i \<le> length as"
  defines "out \<equiv> build_loop i rest segs cur reserved"
  shows "concat out = [0..<length as] \<and> (\<forall>s \<in> set out. segment_ok as s)"
  using assms(1-3) unfolding out_def
proof (induction rest arbitrary: i segs cur reserved)
  case Nil
  then show ?case using close_segment_inv [OF Nil.prems(1)] by simp
next
  case (Cons a rest)
  then have "i < length as" by (metis drop_eq_Nil linorder_not_less list.discI)
  with Cons.prems(2) have i: "i < length as" "as ! i = a" "drop (Suc i) as = rest"
    by (auto simp: Cons_nth_drop_Suc [symmetric])
  note c = close_segment_inv [OF Cons.prems(1)]
  note step = Cons.IH [OF _ i(3) Suc_leI [OF i(1)]]
  consider "ac_exclusive a" | "\<not> ac_exclusive a" "accesses_conflict a reserved"
    | "\<not> ac_exclusive a" "\<not> accesses_conflict a reserved" by blast
  then show ?case
  proof cases
    case 1
    have "build_inv as (Suc i) (close_segment segs cur @ [[i]]) [] no_access"
      using c by (auto simp: build_inv_def)
    from step [OF this] 1 show ?thesis by simp
  next
    case 2
    have "build_inv as (Suc i) (close_segment segs cur) [i] (reserve no_access a)"
      using c i 2 by (auto simp: build_inv_def conflict_reserve)
    from step [OF this] 2 show ?thesis by simp
  next
    case 3
    have "segment_ok as (cur @ [i])"
      using Cons.prems(1) 3 i(2) accesses_conflict_sym [of "as ! i"]
      by (auto simp: build_inv_def segment_ok_def pairwise_insert compatible_def)
    then have "build_inv as (Suc i) segs (cur @ [i]) (reserve reserved a)"
      using Cons.prems(1) 3 i(2) by (auto simp: build_inv_def conflict_reserve append_assoc [symmetric] simp del: append_assoc)
    from step [OF this] 3 show ?thesis by simp
  qed
qed

lemma build_segments_ok:
  "concat (build_segments as) = [0..<length as] \<and> (\<forall>s \<in> set (build_segments as). segment_ok as s)"
  unfolding build_segments_def
  by (rule build_loop_inv) (auto simp: build_inv_def)

section \<open>Running the segments\<close>

text \<open>
  A call is a step of a shared state that may raise. A segment runs its calls side by side, here in
  any order, one after the other; the results go to the calls' positions, and the error with the
  smallest position is raised after all segments have run (\<open>_execute_tool_calls\<close>).
\<close>

type_synonym ('s, 'r) tool_step = "'s \<Rightarrow> ('r res) \<times> 's"

fun run_order :: "(nat \<Rightarrow> ('s, 'r) tool_step) \<Rightarrow> nat list \<Rightarrow> (nat \<Rightarrow> 'r res option) \<Rightarrow> 's \<Rightarrow> (nat \<Rightarrow> 'r res option) \<times> 's" where
  "run_order f [] res s = (res, s)"
| "run_order f (i # is) res s = (let (r, s') = f i s in run_order f is (res(i \<mapsto> r)) s')"

definition first_error :: "nat \<Rightarrow> (nat \<Rightarrow> 'r res option) \<Rightarrow> exn option" where
  "first_error n res =
     (case List.filter (\<lambda>i. case res i of Some (Inl e) \<Rightarrow> True | _ \<Rightarrow> False) [0..<n] of
        [] \<Rightarrow> None
      | i # _ \<Rightarrow> (case res i of Some (Inl e) \<Rightarrow> Some e | _ \<Rightarrow> None))"

definition collect :: "nat \<Rightarrow> (nat \<Rightarrow> 'r res option) \<Rightarrow> 'r list res" where
  "collect n res =
     (case first_error n res of
        Some e \<Rightarrow> Inl e
      | None \<Rightarrow> rmap (\<lambda>i. case res i of Some r \<Rightarrow> r | None \<Rightarrow> Inl KeyError) [0..<n])"

text \<open>\<open>sched\<close> gives, for each segment, the order in which its threads happen to run.\<close>

definition execute_tool_calls ::
    "nat list list \<Rightarrow> nat \<Rightarrow> (nat \<Rightarrow> ('s, 'r) tool_step) \<Rightarrow> 's \<Rightarrow> 'r list res \<times> 's" where
  "execute_tool_calls sched n f s =
     (let (res, s') = run_order f (concat sched) (\<lambda>_. None) s in (collect n res, s'))"

definition sched_of :: "access list \<Rightarrow> nat list list \<Rightarrow> bool" where
  "sched_of as sched \<longleftrightarrow> list_all2 (\<lambda>seg ord. mset ord = mset seg) (build_segments as) sched"

text \<open>Two calls commute: running them in either order gives each its result and the same state.\<close>

definition commute :: "('s, 'r) tool_step \<Rightarrow> ('s, 'r) tool_step \<Rightarrow> bool" where
  "commute f g \<longleftrightarrow> (\<forall>s. fst (f s) = fst (f (snd (g s))) \<and> fst (g (snd (f s))) = fst (g s) \<and>
     snd (g (snd (f s))) = snd (f (snd (g s))))"

lemma run_order_append:
  "run_order f (xs @ ys) res s = (let (res', s') = run_order f xs res s in run_order f ys res' s')"
  by (induction xs arbitrary: res s) (auto simp: Let_def split: prod.splits)

lemma run_order_swap:
  assumes "i \<noteq> j" and "commute (f i) (f j)"
  shows "run_order f (i # j # xs) res s = run_order f (j # i # xs) res s"
  using assms by (auto simp: commute_def Let_def fun_upd_twist split: prod.splits) (metis fst_conv snd_conv)+

lemma run_order_front:
  assumes "\<And>j. j \<in> set as \<Longrightarrow> i \<noteq> j \<and> commute (f i) (f j)"
  shows "run_order f (as @ i # bs) res s = run_order f (i # as @ bs) res s"
  using assms
proof (induction as arbitrary: res s)
  case (Cons a as)
  then have "run_order f ((a # as) @ i # bs) res s = run_order f (a # i # as @ bs) res s"
    by (auto simp: Let_def split: prod.splits)
  also have "\<dots> = run_order f (i # a # as @ bs) res s"
    using Cons.prems [of a] by (intro run_order_swap [symmetric]) auto
  finally show ?case by simp
qed simp

lemma run_order_permuted:
  assumes "mset ord = mset seg" and "distinct seg"
    and "\<And>i j. i \<in> set seg \<Longrightarrow> j \<in> set seg \<Longrightarrow> i \<noteq> j \<Longrightarrow> commute (f i) (f j)"
  shows "run_order f ord res s = run_order f seg res s"
  using assms
proof (induction seg arbitrary: ord res s)
  case (Cons i seg)
  from mset_eq_setD [OF Cons.prems(1)] have i: "i \<in> set ord" by simp
  obtain as bs where o: "ord = as @ i # bs" using split_list [OF i] by blast
  with Cons.prems(1) have m: "mset (as @ bs) = mset seg" by simp
  from mset_eq_setD [OF m] have sub: "set as \<subseteq> set seg" by auto
  have "run_order f ord res s = run_order f (i # as @ bs) res s"
    unfolding o using Cons.prems(2,3) sub by (intro run_order_front) auto
  also have "\<dots> = run_order f (i # seg) res s"
  proof -
    have "run_order f (as @ bs) res' s' = run_order f seg res' s'" for res' s'
      by (rule Cons.IH [OF m]) (use Cons.prems(2,3) in auto)
    then show ?thesis by (simp split: prod.split)
  qed
  finally show ?case .
qed simp

lemma run_order_segments:
  assumes "list_all2 (\<lambda>seg ord. mset ord = mset seg) segs sched"
    and "\<And>seg. seg \<in> set segs \<Longrightarrow> distinct seg \<and>
      (\<forall>i \<in> set seg. \<forall>j \<in> set seg. i \<noteq> j \<longrightarrow> commute (f i) (f j))"
  shows "run_order f (concat sched) res s = run_order f (concat segs) res s"
  using assms
proof (induction segs sched arbitrary: res s rule: list_all2_induct)
  case (Cons seg segs ord sched)
  have "run_order f ord res s = run_order f seg res s"
    using Cons.hyps(1) Cons.prems [of seg] by (intro run_order_permuted) auto
  moreover have "run_order f (concat sched) res' s' = run_order f (concat segs) res' s'" for res' s'
    by (rule Cons.IH) (use Cons.prems in auto)
  ultimately show ?case by (simp add: run_order_append split: prod.split)
qed simp

text \<open>
  C9. Serializability: when calls whose declared accesses are compatible commute, running the
  segments with their calls side by side, in any order of the threads, gives the results, the error
  and the state of running all the calls one after the other in their given order.
\<close>

theorem execution_serializable:
  assumes "sched_of as sched"
    and "\<And>i j. i < length as \<Longrightarrow> j < length as \<Longrightarrow> i \<noteq> j \<Longrightarrow> compatible (as ! i) (as ! j) \<Longrightarrow> commute (f i) (f j)"
  shows "execute_tool_calls sched (length as) f s = execute_tool_calls [[0..<length as]] (length as) f s"
proof -
  have segs: "concat (build_segments as) = [0..<length as]" "\<And>seg. seg \<in> set (build_segments as) \<Longrightarrow> segment_ok as seg"
    using build_segments_ok by auto
  have "distinct seg \<and> (\<forall>i \<in> set seg. \<forall>j \<in> set seg. i \<noteq> j \<longrightarrow> commute (f i) (f j))"
    if seg: "seg \<in> set (build_segments as)" for seg
  proof -
    have "distinct (concat (build_segments as))" by (simp add: segs(1))
    with seg have d: "distinct seg" by (simp add: distinct_concat_iff)
    have "set seg \<subseteq> set (concat (build_segments as))" using seg by auto
    then have "set seg \<subseteq> {..<length as}" by (auto simp: segs(1))
    with segs(2) [OF seg] have "i < length as \<and> j < length as \<and> compatible (as ! i) (as ! j)"
      if "i \<in> set seg" "j \<in> set seg" "i \<noteq> j" for i j
      using that by (auto simp: segment_ok_def pairwise_def)
    with d assms(2) show ?thesis by blast
  qed
  from run_order_segments [OF assms(1) [unfolded sched_of_def] this]
  show ?thesis by (simp add: execute_tool_calls_def segs(1))
qed

text \<open>
  Conflicting calls never share a segment: the segments list the calls in order, each call
  once, and two calls in one segment are both not exclusive and have no clashing keys.
\<close>

theorem segments_sound:
  "concat (build_segments as) = [0..<length as] \<and>
   list_all (\<lambda>seg. seg \<noteq> [] \<and> pairwise (\<lambda>i j. compatible (as ! i) (as ! j)) (set seg))
     (build_segments as)"
  using build_segments_ok [of as] by (simp add: segment_ok_def list_all_iff)

text \<open>Two writers of one file, then a reader of another, on a store of numbers.\<close>

definition demo_accesses :: "access list" where
  "demo_accesses =
     [no_access\<lparr>ac_write := {FileKey [''/'', ''a'']}\<rparr>, no_access\<lparr>ac_write := {FileKey [''/'', ''b'']}\<rparr>,
      no_access\<lparr>ac_read := {FileKey [''/'', ''a'', ''x'']}\<rparr>]"

definition demo_calls :: "nat \<Rightarrow> (nat \<times> nat, nat) tool_step" where
  "demo_calls i s =
     (if i = 0 then (Inr 0, (fst s + 1, snd s)) else if i = 1 then (Inr (snd s), (fst s, 5))
      else if i = 2 then (Inr (fst s), s) else (Inl KeyError, s))"

lemma demo_segments: "build_segments demo_accesses = [[0, 1], [2]]"
  by (simp add: build_segments_def demo_accesses_def no_access_def reserve_def accesses_conflict_def
      keys_overlap_def close_segment_def)

theorem execution_serializable_witness:
  "sched_of demo_accesses [[1, 0], [2]] \<and>
   execute_tool_calls [[1, 0], [2]] 3 demo_calls (0, 7) = execute_tool_calls [[0, 1, 2]] 3 demo_calls (0, 7) \<and>
   fst (execute_tool_calls [[1, 0], [2]] 3 demo_calls (0, 7)) = Inr [0, 7, 1]"
proof -
  have s: "sched_of demo_accesses [[1, 0], [2]]"
    by (simp add: sched_of_def demo_segments)
  have "commute (demo_calls i) (demo_calls j)"
    if "i < length demo_accesses" "j < length demo_accesses" "i \<noteq> j"
      "compatible (demo_accesses ! i) (demo_accesses ! j)" for i j
  proof -
    have "i \<in> {0, 1, 2}" "j \<in> {0, 1, 2}" using that(1,2) by (auto simp: demo_accesses_def)
    with that(3,4) show ?thesis
      by (auto simp: commute_def demo_calls_def compatible_def accesses_conflict_def demo_accesses_def
          no_access_def keys_overlap_def)
  qed
  note e = execution_serializable [OF s this]
  have l: "length demo_accesses = 3" "[0..<3] = [0, 1, 2 :: nat]" by (simp_all add: demo_accesses_def upt_rec)
  have "fst (execute_tool_calls [[0, 1, 2]] 3 demo_calls (0, 7)) = Inr [0, 7, 1]" by code_simp
  with s e show ?thesis unfolding l by simp
qed

end
