(* ===== verification/ToolBatch.thy ===== *)
theory ToolBatch
  imports ToolAccess PyValues
begin

text \<open>
  \<open>ToolManager\<close> of \<open>lazyllm/tools/agent/toolsManager.py\<close>: normalising and parsing the tool calls
  of a model, preparing them, the authorization of each, and the execution of a prepared batch.
  JSON, the validation schemas, the host-file resolvers and the tools are parameters.
\<close>

section \<open>Normalising tool calls\<close>

definition dget :: "kws \<Rightarrow> string \<Rightarrow> val" where
  "dget d k = dict_get d k VNone"

definition blank :: "val \<Rightarrow> bool" where
  "blank v \<longleftrightarrow> (case v of VNone \<Rightarrow> True | VStr s \<Rightarrow> strip s = [] | _ \<Rightarrow> False)"

text \<open>\<open>str(x or '')\<close>.\<close>

definition str_or_empty :: "(val \<Rightarrow> string) \<Rightarrow> val \<Rightarrow> string" where
  "str_or_empty rep v = (if truthy v then py_str rep v else [])"

definition normalize_function :: "(val \<Rightarrow> string) \<Rightarrow> kws \<Rightarrow> kws" where
  "normalize_function dumps f =
     (let a = dget f ''arguments'' in
      if blank a then AList.update ''arguments'' (VStr ''{}'') f
      else case a of VDict d \<Rightarrow> AList.update ''arguments'' (VStr (dumps a)) f | _ \<Rightarrow> f)"

definition normalize_tool_call :: "(val \<Rightarrow> string) \<Rightarrow> (val \<Rightarrow> string) \<Rightarrow> string \<Rightarrow> val \<Rightarrow> val" where
  "normalize_tool_call rep dumps uuid tc =
     (case tc of
        VDict d \<Rightarrow>
          (let d1 = (if strip (str_or_empty rep (dget d ''id'')) = [] then AList.update ''id'' (VStr uuid) d else d)
           in case dget d1 ''function'' of
                VDict f \<Rightarrow> VDict (AList.update ''function'' (VDict (normalize_function dumps f)) d1)
              | _ \<Rightarrow> VDict d1)
      | _ \<Rightarrow> tc)"

fun normalize_tool_calls :: "(val \<Rightarrow> string) \<Rightarrow> (val \<Rightarrow> string) \<Rightarrow> (nat \<Rightarrow> string) \<Rightarrow> nat \<Rightarrow> val list \<Rightarrow> val list" where
  "normalize_tool_calls rep dumps uuid i [] = []"
| "normalize_tool_calls rep dumps uuid i (tc # tcs) =
     normalize_tool_call rep dumps (uuid i) tc # normalize_tool_calls rep dumps uuid (Suc i) tcs"

section \<open>Lenient JSON\<close>

text \<open>\<open>re.sub(r',\\s*([}\\]])', r'\\1', raw)\<close>: a comma before a closing bracket goes, with the space between.\<close>

function drop_trailing_commas :: "string \<Rightarrow> string" where
  "drop_trailing_commas [] = []"
| "drop_trailing_commas (c # cs) =
     (if c = CHR '','' \<and> (case lstrip cs of d # ds \<Rightarrow> d = CHR ''}'' \<or> d = CHR '']'' | [] \<Rightarrow> False)
      then drop_trailing_commas (lstrip cs)
      else c # drop_trailing_commas cs)"
  by pat_completeness auto

termination
  by (relation "measure length") (auto simp: lstrip_def less_Suc_eq_le length_dropWhile_le)

definition count_char :: "char \<Rightarrow> string \<Rightarrow> nat" where
  "count_char c s = length (List.filter (\<lambda>d. d = c) s)"

definition tail_char :: "char \<Rightarrow> bool" where
  "tail_char c \<longleftrightarrow> c \<in> set '',:\"'' \<or> c = CHR 0x27 \<or> is_word c \<or> is_space c"

definition close_brackets :: "string \<Rightarrow> string" where
  "close_brackets cleaned =
     (let s = strip cleaned;
          opens = count_char (CHR ''{'') s - count_char (CHR ''}'') s;
          opens_sq = count_char (CHR ''['') s - count_char (CHR '']'') s;
          t = rev (dropWhile tail_char (rev (rstrip s)))
      in t @ replicate opens_sq (CHR '']'') @ replicate opens (CHR ''}''))"

definition safe_parse_json :: "(string \<Rightarrow> val res) \<Rightarrow> string \<Rightarrow> val res" where
  "safe_parse_json loads raw =
     (case loads raw of
        Inr v \<Rightarrow> Inr v
      | Inl e \<Rightarrow> (let cleaned = drop_trailing_commas raw in
          case loads cleaned of
            Inr v \<Rightarrow> Inr v
          | Inl e \<Rightarrow> loads (close_brackets cleaned)))"

section \<open>Tools and parsing\<close>

datatype failure =
    BadFormat
  | NotExposed string "string option"
  | BadJson
  | NotObject string
  | NotRegistered string
  | Invalid string
  | HostFileFailed
  | NoCapability string
  | Rejected
  | NeedsApproval

record 's tool =
  to_skill_script :: bool
  to_validate :: "val \<Rightarrow> failure + val"
  to_metadata :: "val metadata"
  to_resolver :: "(val \<Rightarrow> (val \<times> intent list) res) option"
  to_revalidate :: "val \<Rightarrow> val res"
  to_capable :: "val \<Rightarrow> bool"
  to_call :: "val \<Rightarrow> 's \<Rightarrow> val res \<times> 's"

definition all_strings :: "val list \<Rightarrow> bool" where
  "all_strings xs \<longleftrightarrow> list_all (\<lambda>x. case x of VStr s \<Rightarrow> True | _ \<Rightarrow> False) xs"

definition normalize_run_script_args :: "(string \<Rightarrow> val res) \<Rightarrow> kws \<Rightarrow> failure + kws" where
  "normalize_run_script_args loads args =
     (case map_of args ''args'' of
        Some (VStr s) \<Rightarrow>
          (case loads s of
             Inl e \<Rightarrow> Inl (Invalid ''an invalid JSON string'')
           | Inr (VList xs) \<Rightarrow>
               (if all_strings xs then Inr (AList.update ''args'' (VList xs) args)
                else Inl (Invalid ''a non-string item''))
           | Inr v \<Rightarrow> Inl (Invalid ''not a list''))
      | _ \<Rightarrow> Inr args)"

definition validate_tool :: "(string \<Rightarrow> val res) \<Rightarrow> string \<Rightarrow> 's tool \<Rightarrow> kws \<Rightarrow> failure + val" where
  "validate_tool loads name t args =
     (if (name = ''run_script'' \<or> name = ''run_skill_script'') \<and> to_skill_script t
      then rbind (normalize_run_script_args loads args) (\<lambda>a. to_validate t (VDict a))
      else to_validate t (VDict args))"

record 's manager =
  tm_tools :: "(string \<times> 's tool) list"
  tm_loads :: "string \<Rightarrow> val res"
  tm_closest :: "string \<Rightarrow> string list \<Rightarrow> string option"

text \<open>
  \<open>_parse_tool_call\<close>: the arguments as far as they were read (\<open>None\<close> before that), and the tool with
  the validated arguments or the failure. \<open>allowed\<close> is \<open>allowed_tool_names\<close>.
\<close>

definition parse_tool_call ::
    "'s manager \<Rightarrow> string list option \<Rightarrow> val \<Rightarrow> val option \<times> (failure + ('s tool \<times> val))" where
  "parse_tool_call m allowed tc =
     (case tc of
        VDict d \<Rightarrow>
          (case dget d ''function'' of
             VDict f \<Rightarrow>
               (case (map_of f ''name'', map_of f ''arguments'') of
                  (Some (VStr nm), Some raw) \<Rightarrow>
                    (if strip nm = [] then (None, Inl BadFormat)
                     else
                       (let name = strip nm;
                            visible = (case allowed of None \<Rightarrow> map fst (tm_tools m)
                                       | Some ns \<Rightarrow> List.filter (\<lambda>n. n \<noteq> []) ns)
                        in if name \<notin> set visible then (Some raw, Inl (NotExposed name (tm_closest m name visible)))
                        else
                          (case (case raw of VStr s \<Rightarrow> safe_parse_json (tm_loads m) s | _ \<Rightarrow> Inr raw) of
                             Inl e \<Rightarrow> (Some (case raw of VStr s \<Rightarrow> VStr (strip s) | _ \<Rightarrow> raw), Inl BadJson)
                           | Inr (VDict args) \<Rightarrow>
                               (Some (VDict args),
                                (case map_of (tm_tools m) name of
                                   None \<Rightarrow> Inl (NotRegistered name)
                                 | Some t \<Rightarrow> (case validate_tool (tm_loads m) name t args of
                                     Inl fl \<Rightarrow> Inl fl | Inr v \<Rightarrow> Inr (t, v))))
                           | Inr v \<Rightarrow> (Some v, Inl (NotObject name)))))
                | _ \<Rightarrow> (None, Inl BadFormat))
           | _ \<Rightarrow> (None, Inl BadFormat))
      | _ \<Rightarrow> (None, Inl BadFormat))"

section \<open>Preparation\<close>

datatype decision = ALLOW | ASK | DENY

record 's prepared =
  pr_index :: nat
  pr_call :: val
  pr_call_id :: string
  pr_name :: string
  pr_args :: "val option"
  pr_valid :: "val option"
  pr_access :: access
  pr_files :: "intent list"
  pr_auth :: decision
  pr_tool :: "'s tool option"
  pr_failure :: "failure option"

definition pr_ready :: "'s prepared \<Rightarrow> bool" where
  "pr_ready p \<longleftrightarrow> pr_valid p \<noteq> None"

text \<open>The host files of a call: the resolver's arguments must survive strict validation unchanged.\<close>

definition resolve_host_files ::
    "(string \<Rightarrow> string list) \<Rightarrow> 's tool \<Rightarrow> val \<Rightarrow> (val \<times> intent list \<times> access) res" where
  "resolve_host_files canon t v =
     (case to_resolver t of
        None \<Rightarrow> Inr (v, [], no_access)
      | Some f \<Rightarrow>
          rbind (f v) (\<lambda>(args, fs).
          rbind (to_revalidate t args) (\<lambda>v'.
          rbind (ensure (v' = args) ValueError) (\<lambda>_.
          rbind (host_file_access canon fs) (\<lambda>ha. Inr (v', fs, ha))))))"

definition prepare_one ::
    "(val \<Rightarrow> string) \<Rightarrow> (string \<Rightarrow> string list) \<Rightarrow> 's manager \<Rightarrow> string list option \<Rightarrow> nat \<Rightarrow> val \<Rightarrow> 's prepared" where
  "prepare_one rep canon m allowed i tc =
     (let d = (case tc of VDict d \<Rightarrow> d | _ \<Rightarrow> []);
          f = (case dget d ''function'' of VDict f \<Rightarrow> f | _ \<Rightarrow> []);
          nm = str_or_empty rep (dget f ''name'');
          cid = str_or_empty rep (dget d ''id'');
          (args, parsed) = parse_tool_call m allowed tc;
          result = rbind parsed (\<lambda>(t, v).
            rbind (ensure (to_capable t v) (NoCapability nm)) (\<lambda>_.
            case resolve_host_files canon t v of
              Inl e \<Rightarrow> Inl HostFileFailed
            | Inr (v', fs, ha) \<Rightarrow> Inr (t, v', fs, join_access (resolve_runtime_access canon (to_metadata t) v') ha)))
      in case result of
           Inl fl \<Rightarrow> \<lparr>pr_index = i, pr_call = tc, pr_call_id = cid, pr_name = nm, pr_args = args, pr_valid = None,
                      pr_access = no_access, pr_files = [], pr_auth = DENY, pr_tool = None, pr_failure = Some fl\<rparr>
         | Inr (t, v, fs, a) \<Rightarrow>
             \<lparr>pr_index = i, pr_call = tc, pr_call_id = cid, pr_name = nm, pr_args = args, pr_valid = Some v,
              pr_access = a, pr_files = fs, pr_auth = DENY, pr_tool = Some t, pr_failure = None\<rparr>)"

text \<open>The policy may answer anything; an answer that is no decision raises.\<close>

definition decide :: "('s prepared \<Rightarrow> decision option) option \<Rightarrow> 's prepared \<Rightarrow> 's prepared res" where
  "decide policy p =
     rbind (case policy of None \<Rightarrow> Inr ALLOW | Some f \<Rightarrow> of_opt ValueError (f p)) (\<lambda>d.
       Inr (p\<lparr>pr_auth := (if pr_ready p then d else DENY)\<rparr>))"

definition prepare_tool_calls ::
    "(val \<Rightarrow> string) \<Rightarrow> (val \<Rightarrow> string) \<Rightarrow> (nat \<Rightarrow> string) \<Rightarrow> (string \<Rightarrow> string list) \<Rightarrow> 's manager \<Rightarrow>
     string list option \<Rightarrow> ('s prepared \<Rightarrow> decision option) option \<Rightarrow> val list \<Rightarrow> 's prepared list res" where
  "prepare_tool_calls rep dumps uuid canon m allowed policy tools =
     (let calls = normalize_tool_calls rep dumps uuid 0 tools
      in rmap (\<lambda>(i, tc). decide policy (prepare_one rep canon m allowed i tc)) (zip [0..<length calls] calls))"

section \<open>Execution\<close>

datatype disposition = Executed | PreparationFailed | Skipped

datatype outcome = OkValue val | ToolError string | Failed failure

record 's record_ =
  rc_prepared :: "'s prepared"
  rc_result :: outcome
  rc_disposition :: disposition
  rc_reason :: string

text \<open>
  The call of a prepared invocation: a failed preparation gives its failure, a tool that raises
  gives an error value, so a step never raises itself.
\<close>

definition build_invocation :: "'s prepared \<Rightarrow> ('s, outcome) tool_step" where
  "build_invocation p s =
     (if \<not> pr_ready p then (Inr (Failed (case pr_failure p of Some fl \<Rightarrow> fl | None \<Rightarrow> BadFormat)), s)
      else case (pr_tool p, pr_valid p) of
        (Some t, Some v) \<Rightarrow>
          (case to_call t v s of (Inr r, s') \<Rightarrow> (Inr (OkValue r), s') | (Inl e, s') \<Rightarrow> (Inr (ToolError (pr_name p)), s'))
      | _ \<Rightarrow> (Inr (ToolError (pr_name p)), s))"

definition invocation_disposition :: "'s prepared \<Rightarrow> disposition" where
  "invocation_disposition p = (if pr_ready p then Executed else PreparationFailed)"

definition needs_approval :: "'s prepared \<Rightarrow> bool" where
  "needs_approval p \<longleftrightarrow> pr_ready p \<and> pr_auth p = ASK"

definition skipped_record :: "'s prepared \<Rightarrow> 's record_" where
  "skipped_record p =
     (if \<not> pr_ready p then
        \<lparr>rc_prepared = p, rc_result = Failed (case pr_failure p of Some fl \<Rightarrow> fl | None \<Rightarrow> BadFormat),
         rc_disposition = PreparationFailed, rc_reason = []\<rparr>
      else
        \<lparr>rc_prepared = p, rc_result = Failed (if needs_approval p then NeedsApproval else Rejected),
         rc_disposition = Skipped,
         rc_reason = (if needs_approval p then ''approval_required'' else ''authorization_rejected'')\<rparr>)"

definition in_range :: "'s prepared list \<Rightarrow> int \<Rightarrow> bool" where
  "in_range ps i \<longleftrightarrow> 0 \<le> i \<and> i < int (length ps)"

definition may_run :: "'s prepared \<Rightarrow> bool \<Rightarrow> bool" where
  "may_run p approved \<longleftrightarrow> pr_ready p \<longrightarrow> pr_auth p = ALLOW \<or> pr_auth p = ASK \<and> approved"

definition selection_check :: "'s prepared list \<Rightarrow> int list \<Rightarrow> int list \<Rightarrow> unit res" where
  "selection_check ps indices approved =
     rbind (ensure (list_all (in_range ps) indices) IndexError) (\<lambda>_.
     rbind (ensure (distinct indices) ValueError) (\<lambda>_.
     rbind (ensure (set approved \<subseteq> set indices) ValueError) (\<lambda>_.
     ensure (list_all (\<lambda>i. may_run (ps ! nat i) (i \<in> set approved)) indices) ValueError)))"

text \<open>
  The selected invocations run in the order of their indices, in segments; \<open>sched\<close> gives the order
  of the threads for the accesses of the selected calls.
\<close>

definition selected :: "'s prepared list \<Rightarrow> int list option \<Rightarrow> int list" where
  "selected ps selection = (case selection of None \<Rightarrow> map int [0..<length ps] | Some is \<Rightarrow> is)"

definition execute_batch ::
    "(access list \<Rightarrow> nat list list) \<Rightarrow> bool \<Rightarrow> 's prepared list \<Rightarrow> int list option \<Rightarrow> int list \<Rightarrow> 's
     \<Rightarrow> 's record_ list res \<times> 's" where
  "execute_batch sched include_skipped ps selection approved s =
     (let indices = selected ps selection in
      case selection_check ps indices approved of
        Inl e \<Rightarrow> (Inl e, s)
      | Inr u \<Rightarrow>
          (let chosen = map (\<lambda>i. ps ! nat i) (sort indices);
               (results, s') = execute_tool_calls (sched (map pr_access chosen)) (length chosen)
                                 (\<lambda>k. build_invocation (chosen ! k)) s
           in (rbind results (\<lambda>rs.
                 let recs = map (\<lambda>(p, r). \<lparr>rc_prepared = p, rc_result = r,
                                rc_disposition = invocation_disposition p, rc_reason = []\<rparr>) (zip chosen rs);
                     rest = (if include_skipped
                             then map skipped_record (List.filter (\<lambda>p. int (pr_index p) \<notin> set indices) ps) else [])
                 in Inr (if include_skipped then sort_key (\<lambda>r. pr_index (rc_prepared r)) (recs @ rest) else recs)),
               s')))"

definition execute_prepared ::
    "(access list \<Rightarrow> nat list list) \<Rightarrow> 's prepared list \<Rightarrow> int list \<Rightarrow> int list option \<Rightarrow> 's
     \<Rightarrow> 's record_ list res \<times> 's" where
  "execute_prepared sched ps approved selection s =
     (case rbind (ensure (list_all (in_range ps) approved) IndexError) (\<lambda>_.
           rbind (ensure (distinct approved) ValueError) (\<lambda>_.
           ensure (list_all (\<lambda>i. pr_ready (ps ! nat i) \<and> pr_auth (ps ! nat i) = ASK) approved) ValueError)) of
        Inl e \<Rightarrow> (Inl e, s)
      | Inr u \<Rightarrow>
          execute_batch sched True ps
            (Some (case selection of
               None \<Rightarrow> map (\<lambda>p. int (pr_index p)) (List.filter (\<lambda>p. pr_auth p = ALLOW) ps) @ approved
             | Some is \<Rightarrow> is)) approved s)"

section \<open>What execution promises\<close>

text \<open>The prepared calls of a batch are numbered by their positions.\<close>

definition numbered :: "'s prepared list \<Rightarrow> bool" where
  "numbered ps \<longleftrightarrow> map pr_index ps = [0..<length ps]"

lemma decide_index: "decide policy p = Inr q \<Longrightarrow> pr_index q = pr_index p \<and> pr_valid q = pr_valid p \<and>
    (\<not> pr_ready q \<longrightarrow> pr_auth q = DENY)"
  by (auto simp: decide_def rbind_eq_Inr pr_ready_def)

lemma prepare_one_index: "pr_index (prepare_one rep canon m allowed i tc) = i"
  by (auto simp: prepare_one_def Let_def split: prod.splits sum.splits)

lemma prepared_numbered:
  assumes "prepare_tool_calls rep dumps uuid canon m allowed policy tools = Inr ps"
  shows "numbered ps \<and> (\<forall>p \<in> set ps. \<not> pr_ready p \<longrightarrow> pr_auth p = DENY)"
proof -
  define calls where "calls = normalize_tool_calls rep dumps uuid 0 tools"
  have r: "list_all2 (\<lambda>x y. (case x of (i, tc) \<Rightarrow> decide policy (prepare_one rep canon m allowed i tc)) = Inr y)
      (zip [0..<length calls] calls) ps"
    using assms by (simp add: prepare_tool_calls_def Let_def calls_def rmap_Inr_iff)
  then have l: "length ps = length calls" by (auto dest: list_all2_lengthD)
  have d: "decide policy (prepare_one rep canon m allowed i (calls ! i)) = Inr (ps ! i)" if "i < length ps" for i
    using list_all2_nthD [OF r, of i] that l by simp
  have "pr_index (ps ! i) = i" if "i < length ps" for i
    using decide_index [OF d [OF that]] by (simp add: prepare_one_index)
  then have "map pr_index ps = [0..<length ps]" by (intro nth_equalityI) auto
  moreover have "\<not> pr_ready p \<longrightarrow> pr_auth p = DENY" if p: "p \<in> set ps" for p
  proof -
    obtain i where "i < length ps" "p = ps ! i" using p by (auto simp: in_set_conv_nth)
    with d decide_index show ?thesis by blast
  qed
  ultimately show ?thesis by (simp add: numbered_def)
qed

text \<open>A call that the policy allowed, or left open and the user approved.\<close>

definition authorized :: "int list \<Rightarrow> 's prepared \<Rightarrow> bool" where
  "authorized approved p \<longleftrightarrow>
     pr_ready p \<and> (pr_auth p = ALLOW \<or> pr_auth p = ASK \<and> int (pr_index p) \<in> set approved)"

lemma run_order_value:
  assumes "\<And>i s. \<exists>r. fst (f i s) = Inr r"
  shows "\<exists>r. fst (run_order f xs res s) i = (if i \<in> set xs then Some (Inr r) else res i)"
proof (induction xs arbitrary: res s)
  case (Cons x xs)
  obtain r s' where x: "f x s = (Inr r, s')" using assms [of x s] by (metis prod.collapse)
  obtain q where "fst (run_order f xs (res(x \<mapsto> Inr r)) s') i =
      (if i \<in> set xs then Some (Inr q) else (res(x \<mapsto> Inr r)) i)"
    using Cons.IH by blast
  with x show ?case by (auto split: if_splits)
qed simp

lemma run_order_state_cong:
  assumes "\<And>i s. i \<in> set xs \<Longrightarrow> snd (f i s) = snd (g i s)"
  shows "snd (run_order f xs res s) = snd (run_order g xs res' s)"
  using assms
proof (induction xs arbitrary: res res' s)
  case (Cons x xs)
  obtain r q t where x: "f x s = (r, t)" "g x s = (q, t)"
    using Cons.prems [of x s] by (cases "f x s"; cases "g x s") auto
  have "snd (run_order f xs r t) = snd (run_order g xs r' t)" for r r' t
    by (rule Cons.IH) (use Cons.prems in auto)
  then show ?case by (simp add: x)
qed simp

lemma sched_set:
  assumes "sched_of as sched"
  shows "set (concat sched) = {..<length as}"
proof -
  have "list_all2 (\<lambda>seg ord. set ord = set seg) (build_segments as) sched"
    using assms unfolding sched_of_def by (auto elim!: list_all2_mono dest: mset_eq_setD)
  then have "set (concat sched) = set (concat (build_segments as))"
    by (induction rule: list_all2_induct) auto
  then show ?thesis using build_segments_ok [of as] by (metis atLeast_upt lessThan_atLeast0 set_upt)
qed

lemma execute_tool_calls_values:
  assumes "\<And>i s. \<exists>r. fst (f i s) = Inr r" and "{..<n} \<subseteq> set (concat sched)"
  shows "\<exists>rs. fst (execute_tool_calls sched n f s) = Inr rs \<and> length rs = n"
proof -
  obtain res t where r: "run_order f (concat sched) (\<lambda>_. None) s = (res, t)" by fastforce
  have v: "\<exists>q. res i = Some (Inr q)" if "i < n" for i
    using run_order_value [of f "concat sched" "\<lambda>_. None" s i, OF assms(1)] r that assms(2)
    by (auto split: if_splits)
  have "List.filter (\<lambda>i. case res i of Some (Inl e) \<Rightarrow> True | _ \<Rightarrow> False) [0..<n] = []"
    using v by (force simp: filter_empty_conv split: option.splits sum.splits)
  then have "first_error n res = None" by (simp add: first_error_def)
  moreover have "\<exists>rs. rmap (\<lambda>i. case res i of Some r \<Rightarrow> r | None \<Rightarrow> Inl KeyError) is = Inr rs \<and> length rs = length is"
    if "set is \<subseteq> {..<n}" for "is"
    using that by (induction "is") (use v in \<open>force\<close>)+
  from this [of "[0..<n]"] have "\<exists>rs. rmap (\<lambda>i. case res i of Some r \<Rightarrow> r | None \<Rightarrow> Inl KeyError) [0..<n] = Inr rs \<and> length rs = n"
    by (simp add: lessThan_atLeast0)
  ultimately show ?thesis using r by (simp add: execute_tool_calls_def collect_def)
qed

lemma build_invocation_value: "\<exists>r. fst (build_invocation p s) = Inr r"
  by (auto simp: build_invocation_def split: option.splits prod.splits sum.splits)

lemma numbered_nth: "numbered ps \<Longrightarrow> i < length ps \<Longrightarrow> pr_index (ps ! i) = i"
  unfolding numbered_def by (metis add_0 length_map nth_map nth_upt)

lemma selection_check_ok:
  "selection_check ps is ap = Inr u \<longleftrightarrow> (\<forall>i \<in> set is. in_range ps i) \<and> distinct is \<and> set ap \<subseteq> set is \<and>
     (\<forall>i \<in> set is. may_run (ps ! nat i) (i \<in> set ap))"
  by (auto simp: selection_check_def rbind_eq_Inr ensure_eq_Inr list_all_iff)

lemma sorted_indices:
  assumes "mset (map f xs) = mset [0..<n]"
  shows "map f (sort_key f xs) = [0..<n]"
proof -
  have "mset (map f (sort_key f xs)) = mset [0..<n]" using assms by (metis mset_map mset_sort)
  moreover have "sorted (map f (sort_key f xs))" by simp
  ultimately show ?thesis by (metis properties_for_sort sorted_upt)
qed

lemma execute_batch_records:
  assumes "execute_batch sched True ps sel ap s = (Inr recs, s')" and "numbered ps"
    and "\<And>as. sched_of as (sched as)"
  shows "map (\<lambda>r. pr_index (rc_prepared r)) recs = [0..<length ps] \<and> set (map rc_prepared recs) \<subseteq> set ps \<and>
    (\<forall>r \<in> set recs. rc_disposition r = Executed \<longrightarrow> authorized ap (rc_prepared r))"
proof -
  define "is" where "is = selected ps sel"
  define chosen where "chosen = map (\<lambda>i. ps ! nat i) (sort is)"
  define rest where "rest = List.filter (\<lambda>p. int (pr_index p) \<notin> set is) ps"
  define made where "made = (\<lambda>rs. map (\<lambda>(p, r). \<lparr>rc_prepared = p, rc_result = r,
      rc_disposition = invocation_disposition p, rc_reason = []\<rparr>) (zip chosen rs))"
  obtain rs where ok: "selection_check ps is ap = Inr ()"
    and x: "fst (execute_tool_calls (sched (map pr_access chosen)) (length chosen) (\<lambda>k. build_invocation (chosen ! k)) s) = Inr rs"
    and recs: "recs = sort_key (\<lambda>r. pr_index (rc_prepared r)) (made rs @ map skipped_record rest)"
    using assms(1) unfolding execute_batch_def Let_def is_def [symmetric] chosen_def [symmetric] rest_def [symmetric] made_def
    by (auto split: sum.splits prod.splits simp: rbind_eq_Inr)
  have l: "length rs = length chosen"
    using execute_tool_calls_values [of "\<lambda>k. build_invocation (chosen ! k)" "length chosen"
        "sched (map pr_access chosen)" s, OF build_invocation_value] sched_set [OF assms(3), of "map pr_access chosen"] x
    by auto
  note sc = ok [unfolded selection_check_ok]
  have idx: "pr_index (ps ! nat i) = nat i" "ps ! nat i \<in> set ps" if "i \<in> set is" for i
    using that sc numbered_nth [OF assms(2)] by (auto simp: in_range_def)
  have m1: "map rc_prepared (made rs) = chosen"
    using l by (simp add: made_def o_def case_prod_unfold map_fst_zip)
  have m2: "map rc_prepared (map skipped_record rest) = rest"
    by (simp add: map_idI skipped_record_def)
  have mp: "mset (map rc_prepared recs) = mset (chosen @ rest)"
    using arg_cong [OF m1, of mset] arg_cong [OF m2, of mset]
    by (simp add: recs image_mset.compositionality)
  have c: "map pr_index chosen = map nat (sort is)"
    unfolding chosen_def using idx by simp
  have all: "pr_index ` set ps = {0..<length ps}" and dist: "distinct (map pr_index ps)"
    using assms(2) by (simp_all add: numbered_def flip: set_map)
  have nonneg: "0 \<le> i" "nat i < length ps" if "i \<in> set is" for i
    using that sc by (auto simp: in_range_def)
  have "mset (map pr_index (chosen @ rest)) = mset [0..<length ps]"
  proof -
    have "j \<in> nat ` set is \<union> pr_index ` set rest \<longleftrightarrow> j < length ps" for j
    proof
      assume "j < length ps"
      then obtain p where "p \<in> set ps" "pr_index p = j" using all by (metis atLeast0LessThan imageE lessThan_iff)
      then show "j \<in> nat ` set is \<union> pr_index ` set rest"
        by (cases "int j \<in> set is") (force simp: rest_def)+
    next
      assume "j \<in> nat ` set is \<union> pr_index ` set rest"
      then show "j < length ps" using all nonneg by (auto simp: rest_def)
    qed
    then have "nat ` set is \<union> pr_index ` set rest = {0..<length ps}" by (auto simp only: atLeast0LessThan lessThan_iff)
    then have "set (map pr_index (chosen @ rest)) = set [0..<length ps]" by (simp only: set_map set_append c set_sort set_upt map_append)
    moreover have "distinct (map pr_index (chosen @ rest))"
    proof -
      have "inj_on nat (set is)" by (rule inj_onI) (metis eq_nat_nat_iff nonneg(1))
      then have "distinct (map nat (sort is))" using sc by (simp add: distinct_map)
      moreover have "distinct (map pr_index rest)" using dist by (simp add: rest_def distinct_map_filter)
      moreover have "nat ` set is \<inter> pr_index ` set rest = {}"
        using nonneg(1) by (auto simp: rest_def) (metis int_nat_eq)
      ultimately show ?thesis by (simp add: c)
    qed
    ultimately show ?thesis by (metis set_eq_iff_mset_eq_distinct distinct_upt)
  qed
  with mp have "image_mset pr_index (mset (map rc_prepared recs)) = mset [0..<length ps]" by simp
  then have "mset (map (\<lambda>r. pr_index (rc_prepared r)) (made rs @ map skipped_record rest)) = mset [0..<length ps]"
    by (simp add: recs image_mset.compositionality o_def)
  from sorted_indices [OF this] have i: "map (\<lambda>r. pr_index (rc_prepared r)) recs = [0..<length ps]"
    by (simp only: recs)
  have "set (map rc_prepared recs) = set (chosen @ rest)" using mp by (rule mset_eq_setD)
  then have sub: "set (map rc_prepared recs) \<subseteq> set ps"
    using idx by (auto simp: chosen_def rest_def)
  have "authorized ap (rc_prepared r)" if r: "r \<in> set recs" "rc_disposition r = Executed" for r
  proof -
    from r(1) consider "r \<in> set (made rs)" | q where "q \<in> set rest" "r = skipped_record q"
      by (auto simp: recs)
    then show ?thesis
    proof cases
      case 1
      then have "rc_prepared r \<in> set chosen" "rc_disposition r = invocation_disposition (rc_prepared r)"
        using m1 by (auto simp: made_def dest: set_zip_leftD)
      with r(2) obtain i where "i \<in> set is" "rc_prepared r = ps ! nat i" "pr_ready (rc_prepared r)"
        by (auto simp: chosen_def invocation_disposition_def split: if_splits)
      with sc idx nonneg show ?thesis by (auto simp: may_run_def authorized_def)
    qed (use r(2) in \<open>auto simp: skipped_record_def split: if_splits\<close>)
  qed
  with i sub show ?thesis by blast
qed

text \<open>
  C6. Executing a prepared batch gives one record for every call, in the order of the calls, and
  only calls that the policy allowed, or left open and the user approved, are recorded as executed.
\<close>

theorem execute_prepared_records:
  assumes "execute_prepared sched ps approved selection s = (Inr recs, s')" and "numbered ps"
    and "\<And>as. sched_of as (sched as)"
  shows "map (\<lambda>r. pr_index (rc_prepared r)) recs = [0..<length ps] \<and>
    (\<forall>r \<in> set recs. rc_disposition r = Executed \<longrightarrow> authorized approved (rc_prepared r))"
  using assms(1) execute_batch_records [OF _ assms(2,3)]
  by (fastforce simp: execute_prepared_def split: sum.splits)

text \<open>Two batches that differ at most in what their unauthorized calls would do.\<close>

definition same_if_authorized :: "int list \<Rightarrow> 's prepared \<Rightarrow> 's prepared \<Rightarrow> bool" where
  "same_if_authorized ap p q \<longleftrightarrow> pr_index q = pr_index p \<and> pr_auth q = pr_auth p \<and> pr_ready q = pr_ready p \<and>
     pr_access q = pr_access p \<and> (authorized ap p \<longrightarrow> q = p)"

lemma in_range_nat: "in_range ps i \<Longrightarrow> nat i < length ps"
  by (simp add: in_range_def nat_less_iff)

lemma same_selection:
  assumes "list_all2 (same_if_authorized ap) ps qs"
  shows "selection_check qs is ap' = selection_check ps is ap'"
proof -
  have l: "length qs = length ps" using assms by (simp add: list_all2_lengthD)
  have r: "in_range qs i = in_range ps i" for i by (simp add: in_range_def l)
  have m: "may_run (qs ! nat i) b = may_run (ps ! nat i) b" if "in_range ps i" for i b
    using list_all2_nthD [OF assms in_range_nat [OF that]]
    by (auto simp: may_run_def same_if_authorized_def)
  have "list_all (\<lambda>i. may_run (qs ! nat i) (i \<in> set ap')) is = list_all (\<lambda>i. may_run (ps ! nat i) (i \<in> set ap')) is"
    if "list_all (in_range ps) is"
    using that m by (auto simp: list_all_iff)
  then show ?thesis
    by (cases "list_all (in_range ps) is") (simp_all add: selection_check_def r [abs_def])
qed

lemma execute_batch_snd:
  "snd (execute_batch sched b ps sel ap s) =
     (case selection_check ps (selected ps sel) ap of
        Inl e \<Rightarrow> s
      | Inr u \<Rightarrow> (let chosen = map (\<lambda>i. ps ! nat i) (sort (selected ps sel))
          in snd (run_order (\<lambda>k. build_invocation (chosen ! k)) (concat (sched (map pr_access chosen))) (\<lambda>_. None) s)))"
  by (simp add: execute_batch_def execute_tool_calls_def Let_def split: sum.split prod.split)

lemma chosen_invocation:
  assumes "list_all2 (same_if_authorized ap) ps qs" and "numbered ps"
    and "selection_check ps is ap = Inr u" and "i \<in> set is"
  shows "same_if_authorized ap (ps ! nat i) (qs ! nat i) \<and>
     snd (build_invocation (qs ! nat i) s) = snd (build_invocation (ps ! nat i) s)"
proof -
  note sc = assms(3) [unfolded selection_check_ok]
  have i: "nat i < length ps" "0 \<le> i" using sc assms(4) by (auto simp: in_range_def)
  have same: "same_if_authorized ap (ps ! nat i) (qs ! nat i)"
    using list_all2_nthD [OF assms(1) i(1)] .
  moreover have "snd (build_invocation (qs ! nat i) s) = snd (build_invocation (ps ! nat i) s)"
  proof (cases "pr_ready (ps ! nat i)")
    case True
    with sc assms(4) i numbered_nth [OF assms(2) i(1)] have "authorized ap (ps ! nat i)"
      by (auto simp: may_run_def authorized_def)
    with same show ?thesis by (simp add: same_if_authorized_def)
  next
    case False
    with same show ?thesis by (simp add: same_if_authorized_def build_invocation_def)
  qed
  ultimately show ?thesis by blast
qed

lemma execute_batch_state:
  assumes "list_all2 (same_if_authorized ap) ps qs" and "numbered ps" and "\<And>as. sched_of as (sched as)"
  shows "snd (execute_batch sched b qs sel ap s) = snd (execute_batch sched b ps sel ap s)"
proof -
  have "length qs = length ps" using assms(1) by (simp add: list_all2_lengthD)
  then have sel: "selected qs sel = selected ps sel" by (simp add: selected_def split: option.split)
  define "is" where "is = selected ps sel"
  show ?thesis
  proof (cases "selection_check ps is ap")
    case (Inr u)
    note ci = chosen_invocation [OF assms(1,2) Inr]
    define c where "c = (\<lambda>ps :: 'a prepared list. map (\<lambda>i. ps ! nat i) (sort is))"
    have c: "c ps = map (\<lambda>i. ps ! nat i) (sort is)" for ps by (simp add: c_def)
    have acc: "map pr_access (c qs) = map pr_access (c ps)"
      using ci by (auto simp: c_def same_if_authorized_def)
    have "snd (build_invocation (c qs ! k) s) = snd (build_invocation (c ps ! k) s)" if "k < length is" for k s
    proof -
      have "sort is ! k \<in> set is" using that by (metis length_sort nth_mem set_sort)
      from ci [OF this] that show ?thesis by (simp add: c_def)
    qed
    moreover have "set (concat (sched (map pr_access (c ps)))) = {..<length is}"
      using sched_set [OF assms(3)] by (simp add: c_def)
    ultimately have "snd (run_order (\<lambda>k. build_invocation (c qs ! k)) (concat (sched (map pr_access (c ps)))) r s) =
        snd (run_order (\<lambda>k. build_invocation (c ps ! k)) (concat (sched (map pr_access (c ps)))) r s)" for r
      by (intro run_order_state_cong) auto
    with Inr same_selection [OF assms(1), of "is" ap] sel acc show ?thesis
      by (simp add: execute_batch_snd Let_def is_def [symmetric] c [symmetric] del: map_map)
  qed (use same_selection [OF assms(1), of "is" ap] sel in \<open>simp add: execute_batch_snd is_def\<close>)
qed

lemma same_allowed:
  "list_all2 (same_if_authorized ap) ps qs \<Longrightarrow>
   map (\<lambda>p. int (pr_index p)) (List.filter (\<lambda>p. pr_auth p = ALLOW) qs) =
   map (\<lambda>p. int (pr_index p)) (List.filter (\<lambda>p. pr_auth p = ALLOW) ps)"
  by (induction rule: list_all2_induct) (auto simp: same_if_authorized_def)

lemma same_approval:
  assumes "list_all2 (same_if_authorized ap) ps qs"
  shows "rbind (ensure (list_all (in_range qs) is) IndexError) (\<lambda>_.
           rbind (ensure (distinct is) ValueError) (\<lambda>_.
           ensure (list_all (\<lambda>i. pr_ready (qs ! nat i) \<and> pr_auth (qs ! nat i) = ASK) is) ValueError)) =
         rbind (ensure (list_all (in_range ps) is) IndexError) (\<lambda>_.
           rbind (ensure (distinct is) ValueError) (\<lambda>_.
           ensure (list_all (\<lambda>i. pr_ready (ps ! nat i) \<and> pr_auth (ps ! nat i) = ASK) is) ValueError))"
proof -
  have r: "in_range qs i = in_range ps i" for i
    using assms by (simp add: in_range_def list_all2_lengthD)
  have "list_all (\<lambda>i. pr_ready (qs ! nat i) \<and> pr_auth (qs ! nat i) = ASK) is =
      list_all (\<lambda>i. pr_ready (ps ! nat i) \<and> pr_auth (ps ! nat i) = ASK) is" if "list_all (in_range ps) is"
    using that list_all2_nthD [OF assms in_range_nat]
    by (auto simp: list_all_iff same_if_authorized_def)
  then show ?thesis
    by (cases "list_all (in_range ps) is") (simp_all add: r [abs_def])
qed

text \<open>
  C15. What an unauthorized call would do has no influence: exchanging the tools and arguments of the
  calls that are not authorized, and of those that failed to prepare, leaves the resulting state
  the same, because they never run.
\<close>

theorem unauthorized_never_run:
  assumes "list_all2 (same_if_authorized approved) ps qs" and "numbered ps" and "\<And>as. sched_of as (sched as)"
  shows "snd (execute_prepared sched qs approved selection s) = snd (execute_prepared sched ps approved selection s)"
  using execute_batch_state [OF assms]
  by (simp add: execute_prepared_def same_approval [OF assms(1)] same_allowed [OF assms(1)] split: sum.split option.split)

text \<open>A tool that counts its calls, and three calls of it: allowed, open, refused.\<close>

definition count_tool :: "nat \<Rightarrow> nat tool" where
  "count_tool k = \<lparr>to_skill_script = False, to_validate = Inr,
     to_metadata = \<lparr>md_read = NoSource, md_write = NoSource, md_exclusive = True\<rparr>, to_resolver = None,
     to_revalidate = Inr, to_capable = (\<lambda>_. True), to_call = (\<lambda>v s. (Inr (VInt (int s)), s + k))\<rparr>"

definition demo_prepared :: "nat \<Rightarrow> decision \<Rightarrow> nat \<Rightarrow> nat prepared" where
  "demo_prepared i d k = \<lparr>pr_index = i, pr_call = VNone, pr_call_id = [], pr_name = ''t'', pr_args = None,
     pr_valid = Some VNone, pr_access = no_access, pr_files = [], pr_auth = d, pr_tool = Some (count_tool k),
     pr_failure = None\<rparr>"

lemma sched_build: "sched_of as (build_segments as)"
  by (simp add: sched_of_def list_all2_same)

theorem execute_prepared_records_witness:
  "let ps = [demo_prepared 0 ALLOW 1, demo_prepared 1 ASK 10, demo_prepared 2 DENY 100];
       (r, s') = execute_prepared build_segments ps [1] None (0 :: nat)
   in s' = 11 \<and> (case r of Inl e \<Rightarrow> False
     | Inr recs \<Rightarrow> map (\<lambda>r. pr_index (rc_prepared r)) recs = [0, 1, 2] \<and>
         map rc_disposition recs = [Executed, Executed, Skipped])"
proof -
  define ps where "ps = [demo_prepared 0 ALLOW 1, demo_prepared 1 ASK 10, demo_prepared 2 DENY 100]"
  have n: "numbered ps" by (simp add: numbered_def ps_def demo_prepared_def upt_rec)
  have e: "snd (execute_prepared build_segments ps [1] None 0) = 11"
    "map_sum (\<lambda>_. ()) (map rc_disposition) (fst (execute_prepared build_segments ps [1] None 0)) =
      Inr [Executed, Executed, Skipped]"
    unfolding ps_def by code_simp+
  then obtain recs where r: "execute_prepared build_segments ps [1] None 0 = (Inr recs, 11)"
    "map rc_disposition recs = [Executed, Executed, Skipped]"
    by (cases "execute_prepared build_segments ps [1] None 0") (auto simp: map_sum_def split: sum.splits)
  have "map (\<lambda>r. pr_index (rc_prepared r)) recs = [0..<length ps]"
    using execute_prepared_records [OF r(1) n sched_build] by blast
  moreover have "[0..<length ps] = [0, 1, 2]" by (simp add: ps_def upt_rec)
  ultimately show ?thesis using r unfolding ps_def [symmetric] by simp
qed

theorem unauthorized_never_run_witness:
  "snd (execute_prepared build_segments [demo_prepared 0 ALLOW 1, demo_prepared 1 ASK 5] [] None (0 :: nat)) =
   snd (execute_prepared build_segments [demo_prepared 0 ALLOW 1, demo_prepared 1 ASK 10] [] None 0)"
  by (rule unauthorized_never_run [OF _ _ sched_build])
     (simp_all add: same_if_authorized_def demo_prepared_def authorized_def pr_ready_def numbered_def upt_rec)

end
