(* ===== verification/SqlParse.thy ===== *)
theory SqlParse
  imports PyText "HOL-Library.List_Lexorder" "HOL-Library.Char_ord"
begin

text \<open>
  The SQL parser of \<open>EvalHardness\<close> in \<open>lazyllm/tools/data/operators/sql_evalhardness.py\<close>: the
  schema, the tokens, and one function per method. A method takes a position in the tokens and
  returns the position behind what it read; \<open>toks[i]\<close> outside the tokens raises
  \<open>IndexError\<close>, a missing key \<open>KeyError\<close>, a failed assertion \<open>AssertionError\<close>. \<open>parse_sql\<close> calls itself
  through \<open>parse_from\<close>, \<open>parse_condition\<close> and \<open>parse_value\<close>, so those take it as an argument, and
  the loops and the recursion take fuel; \<open>parse_sql_total\<close> shows that the fuel never runs out.
  \<open>nltk.word_tokenize\<close> is a parameter.
\<close>

section \<open>Syntax\<close>

datatype colref = CId string | CFunc string string "string option"

type_synonym colunit = "nat \<times> colref \<times> bool"

text \<open>A value unit: an operation on one or two columns, or a function call in its place.\<close>

datatype valunit = VUnit nat colunit "colunit option" | VFunc colref

datatype sql =
    Sql (s_tables: "tunit list") (s_conds: "cond list") (s_distinct: bool) (s_select: "(nat \<times> valunit) list")
      (s_where: "cond list") (s_group: "colunit list") (s_having: "cond list")
      (s_order: "(string \<times> valunit list) option") (s_limit: "nat option")
      (s_iue: "(string \<times> sql) option")
and tunit = TSql sql | TUnit string
and cond = Cond bool nat valunit sval sval | Conn string
and sval = NoVal | STok string | SNum string | SSql sql | SCol colunit

definition CLAUSE_KEYWORDS :: "string list" where
  "CLAUSE_KEYWORDS = [''select'', ''from'', ''where'', ''group'', ''order'', ''limit'', ''intersect'', ''union'', ''except'']"
definition JOIN_KEYWORDS :: "string list" where "JOIN_KEYWORDS = [''join'', ''on'', ''as'']"
definition WHERE_OPS :: "string list" where
  "WHERE_OPS = [''not'', ''between'', ''='', ''>'', ''<'', ''>='', ''<='', ''!='', ''in'', ''like'', ''is'', ''exists'']"
definition UNIT_OPS :: "string list" where "UNIT_OPS = [''none'', ''-'', ''+'', ''*'', ''/'']"
definition AGG_OPS :: "string list" where "AGG_OPS = [''none'', ''max'', ''min'', ''count'', ''sum'', ''avg'']"
definition COND_OPS :: "string list" where "COND_OPS = [''and'', ''or'']"
definition SQL_OPS :: "string list" where "SQL_OPS = [''intersect'', ''union'', ''except'']"
definition ORDER_OPS :: "string list" where "ORDER_OPS = [''desc'', ''asc'']"
definition FUNC_OPS :: "string list" where "FUNC_OPS = [''cast'', ''substring'', ''date'', ''round'', ''coalesce'']"

fun index_of :: "'a list \<Rightarrow> 'a \<Rightarrow> nat" where
  "index_of [] x = 0"
| "index_of (y # ys) x = (if x = y then 0 else Suc (index_of ys x))"

section \<open>Schema\<close>

record schema =
  sc_schema :: "(string, string list) dict"
  sc_idmap :: "(string, string) dict"

definition wrap :: "string \<Rightarrow> string" where "wrap s = ''__'' @ s @ ''__''"

definition schema_new :: "(string \<times> string list) list \<Rightarrow> schema" where
  "schema_new raw =
     (let norm = dict_of (map (\<lambda>(t, cols). (lower (strip t), sort (remdups (map (\<lambda>c. lower (strip c)) cols)))) raw)
      in \<lparr>sc_schema = norm,
          sc_idmap = dict_of ((''*'', ''__all__'') #
            concat (map (\<lambda>(t, cols). map (\<lambda>c. (t @ ''.'' @ c, wrap (t @ ''.'' @ c))) cols) norm) @
            map (\<lambda>(t, cols). (t, wrap t)) norm)\<rparr>)"

section \<open>Tokens\<close>

text \<open>
  The pattern of the literals: a quote, then escapes and other characters up to the first quote of the
  same kind. \<open>close_quote\<close> gives the content and what follows; \<open>None\<close> is no match.
\<close>

fun close_quote :: "char \<Rightarrow> string \<Rightarrow> string \<Rightarrow> (string \<times> string) option" where
  "close_quote q acc [] = None"
| "close_quote q acc (c # cs) =
     (if c = q then Some (rev acc, cs)
      else if c = CHR 0x5C then
        (case cs of
           [] \<Rightarrow> None
         | d # ds \<Rightarrow> (if d = CHR 0x0A then None else close_quote q (d # c # acc) ds))
      else close_quote q (c # acc) cs)"

lemma close_quote_shorter: "close_quote q acc s = Some (content, rest) \<Longrightarrow> length rest < length s"
  by (induction q acc s rule: close_quote.induct) (fastforce split: if_splits list.splits)+

definition literal_key :: "char \<Rightarrow> nat \<Rightarrow> string" where
  "literal_key q n = (if q = CHR 0x60 then ''__col_'' else ''__str_'') @ show_nat n @ ''__''"

function replace_literals :: "string \<Rightarrow> (string, string) dict \<Rightarrow> string \<times> (string, string) dict" where
  "replace_literals [] vals = ([], vals)"
| "replace_literals (c # cs) vals =
     (if c = CHR 0x27 \<or> c = CHR 0x22 \<or> c = CHR 0x60 then
        (case close_quote c [] cs of
           Some (content, rest) \<Rightarrow>
             (let key = literal_key c (length vals);
                  (out, vals') = replace_literals rest (AList.update key content vals)
              in (key @ out, vals'))
         | None \<Rightarrow> (let (out, vals') = replace_literals cs vals in (c # out, vals')))
      else (let (out, vals') = replace_literals cs vals in (c # out, vals')))"
  by pat_completeness auto

termination
  by (relation "measure (\<lambda>(s, vals). length s)") (auto dest!: close_quote_shorter)

text \<open>
  \<open>toks[i - 1]\<close> is the last token for \<open>i = 0\<close>, and \<open>toks[:i - 1]\<close> then leaves out the last one.
\<close>

definition before :: "'a list \<Rightarrow> nat \<Rightarrow> 'a res" where
  "before toks i = (if i = 0 then py_index toks (-1) else py_nth toks (i - 1))"

fun merge_equals :: "nat list \<Rightarrow> string list \<Rightarrow> string list res" where
  "merge_equals [] toks = Inr toks"
| "merge_equals (i # is) toks =
     rbind (before toks i) (\<lambda>pre.
       merge_equals is
         (if pre \<in> set [''!'', ''>'', ''<'']
          then (if i = 0 then butlast toks else take (i - 1) toks) @ [pre @ ''=''] @ drop (i + 1) toks
          else toks))"

definition tokenize :: "(string \<Rightarrow> string list) \<Rightarrow> string \<Rightarrow> string list res" where
  "tokenize word_tokenize query =
     (let (s, vals) = replace_literals query [];
          toks = map (\<lambda>w. let t = lower w in dict_get vals t t) (word_tokenize s)
      in merge_equals (rev (List.filter (\<lambda>i. toks ! i = ''='') [0..<length toks])) toks)"

section \<open>Aliases and columns\<close>

definition scan_alias :: "string list \<Rightarrow> (string, string) dict res" where
  "scan_alias toks =
     rfold (\<lambda>i alias. rbind (py_nth toks (i + 1)) (\<lambda>a. rbind (before toks i) (\<lambda>t. Inr (AList.update a t alias))))
       (List.filter (\<lambda>i. toks ! i = ''as'') [0..<length toks]) []"

record ctx =
  cx_toks :: "string list"
  cx_alias :: "(string, string) dict"
  cx_schema :: schema

definition get_tables_with_alias :: "schema \<Rightarrow> string list \<Rightarrow> (string, string) dict res" where
  "get_tables_with_alias sc toks =
     rbind (scan_alias toks) (\<lambda>tables.
       rfold (\<lambda>k tables. rbind (ensure (map_of tables k = None) AssertionError)
                (\<lambda>_. Inr (AList.update k k tables)))
         (map fst (sc_schema sc)) tables)"

definition id_of :: "schema \<Rightarrow> string \<Rightarrow> string res" where
  "id_of sc k = of_opt KeyError (map_of (sc_idmap sc) k)"

fun find_default :: "ctx \<Rightarrow> string \<Rightarrow> string list \<Rightarrow> string res" where
  "find_default cx tok [] = Inl AssertionError"
| "find_default cx tok (a # as) =
     rbind (of_opt KeyError (map_of (cx_alias cx) a)) (\<lambda>table.
     rbind (of_opt KeyError (map_of (sc_schema (cx_schema cx)) table)) (\<lambda>cols.
       if tok \<in> set cols then id_of (cx_schema cx) (table @ ''.'' @ tok) else find_default cx tok as))"

text \<open>A position and what was read there; \<open>toks\<close> is explicit, since \<open>parse_value\<close> passes a slice.\<close>

type_synonym 'a parse = "(nat \<times> 'a) res"

definition parse_col :: "ctx \<Rightarrow> string list \<Rightarrow> string list \<Rightarrow> nat \<Rightarrow> string parse" where
  "parse_col cx dts toks i =
     rbind (py_nth toks i) (\<lambda>t.
       let tok = lower (strip t) in
       rbind
         (if tok = ''*'' then id_of (cx_schema cx) tok
          else if CHR ''.'' \<in> set tok then
            (case split_on ''.'' tok of
               [alias, col] \<Rightarrow>
                 rbind (of_opt KeyError (map_of (cx_alias cx) alias)) (\<lambda>tb. id_of (cx_schema cx) (tb @ ''.'' @ col))
             | _ \<Rightarrow> Inl ValueError)
          else rbind (ensure (dts \<noteq> []) AssertionError) (\<lambda>_. find_default cx tok dts))
         (\<lambda>c. Inr (i + 1, c)))"

definition expect :: "string list \<Rightarrow> nat \<Rightarrow> string \<Rightarrow> unit res" where
  "expect toks i t = rbind (py_nth toks i) (\<lambda>u. ensure (u = t) AssertionError)"

text \<open>\<open>while toks[idx] != ')': idx += 1\<close>, raising at the end of the tokens.\<close>

fun skip_to_close :: "string list \<Rightarrow> nat \<Rightarrow> nat \<Rightarrow> nat res" where
  "skip_to_close toks i 0 = Inl IndexError"
| "skip_to_close toks i (Suc n) =
     rbind (py_nth toks i) (\<lambda>t. if t = '')'' then Inr i else skip_to_close toks (i + 1) n)"

text \<open>A function call, the same code at the start of two methods.\<close>

definition parse_func :: "ctx \<Rightarrow> string list \<Rightarrow> string list \<Rightarrow> nat \<Rightarrow> colref parse" where
  "parse_func cx dts toks i =
     rbind (py_nth toks i) (\<lambda>f.
     rbind (expect toks (i + 1) ''('') (\<lambda>_.
     rbind (parse_col cx dts toks (i + 2)) (\<lambda>(j, col).
       if f = ''cast'' then
         rbind (expect toks j ''as'') (\<lambda>_.
         rbind (py_nth toks (j + 1)) (\<lambda>ty.
         rbind (expect toks (j + 2) '')'') (\<lambda>_.
         Inr (j + 3, CFunc f col (Some ty)))))
       else
         rbind (skip_to_close toks j (Suc (length toks - j))) (\<lambda>k. Inr (k + 1, CFunc f col None)))))"

definition at :: "string list \<Rightarrow> nat \<Rightarrow> string list \<Rightarrow> bool" where
  "at toks i ws \<longleftrightarrow> i < length toks \<and> toks ! i \<in> set ws"

definition parse_col_unit :: "ctx \<Rightarrow> string list \<Rightarrow> string list \<Rightarrow> nat \<Rightarrow> colunit parse" where
  "parse_col_unit cx dts toks i =
     rbind (py_nth toks i) (\<lambda>t0.
       if t0 \<in> set FUNC_OPS then rbind (parse_func cx dts toks i) (\<lambda>(j, f). Inr (j, (0, f, False)))
       else
         (let block = (t0 = ''(''); i1 = (if block then i + 1 else i) in
          rbind (py_nth toks i1) (\<lambda>t1.
            if t1 \<in> set AGG_OPS then
              rbind (ensure (at toks (i1 + 1) [''('']) AssertionError) (\<lambda>_.
              rbind (py_nth toks (i1 + 2)) (\<lambda>t2.
                let dist = (t2 = ''distinct''); i2 = (if dist then i1 + 3 else i1 + 2) in
                rbind (parse_col cx dts toks i2) (\<lambda>(j, c).
                rbind (ensure (at toks j ['')'']) AssertionError) (\<lambda>_.
                Inr (j + 1, (index_of AGG_OPS t1, CId c, dist))))))
            else
              (let dist = (t1 = ''distinct''); i2 = (if dist then i1 + 1 else i1) in
               rbind (parse_col cx dts toks i2) (\<lambda>(j, c).
                 if block then rbind (expect toks j '')'') (\<lambda>_. Inr (j + 1, (0, CId c, dist)))
                 else Inr (j, (0, CId c, dist)))))))"

definition parse_val_unit :: "ctx \<Rightarrow> string list \<Rightarrow> string list \<Rightarrow> nat \<Rightarrow> valunit parse" where
  "parse_val_unit cx dts toks i =
     rbind (py_nth toks i) (\<lambda>t0.
       if t0 \<in> set FUNC_OPS then rbind (parse_func cx dts toks i) (\<lambda>(j, f). Inr (j, VFunc f))
       else
         (let block = (t0 = ''(''); i1 = (if block then i + 1 else i) in
          rbind (parse_col_unit cx dts toks i1) (\<lambda>(j, c1).
          rbind (if at toks j UNIT_OPS
                 then rbind (parse_col_unit cx dts toks (j + 1)) (\<lambda>(k, c2).
                        Inr (k, VUnit (index_of UNIT_OPS (toks ! j)) c1 (Some c2)))
                 else Inr (j, VUnit 0 c1 None)) (\<lambda>(k, u).
            if block then rbind (expect toks k '')'') (\<lambda>_. Inr (k + 1, u)) else Inr (k, u)))))"

definition parse_table_unit :: "ctx \<Rightarrow> nat \<Rightarrow> (string \<times> string) parse" where
  "parse_table_unit cx i =
     rbind (py_nth (cx_toks cx) i) (\<lambda>t.
     rbind (of_opt KeyError (map_of (cx_alias cx) t)) (\<lambda>key.
     rbind (id_of (cx_schema cx) key) (\<lambda>d.
     Inr (if at (cx_toks cx) (i + 1) [''as''] then i + 3 else i + 1, d, key))))"

section \<open>Values and conditions\<close>

text \<open>\<open>float(s)\<close> accepts \<open>s\<close>: a sign, then digits with a point and an exponent, or a special name.\<close>

definition digits_ok :: "string \<Rightarrow> bool" where
  "digits_ok s \<longleftrightarrow> s \<noteq> [] \<and> list_all (\<lambda>p. p \<noteq> [] \<and> list_all is_digit p) (split_on ''_'' s)"

definition mantissa_ok :: "string \<Rightarrow> bool" where
  "mantissa_ok s \<longleftrightarrow>
     (case split_on ''.'' s of
        [a] \<Rightarrow> digits_ok a
      | [a, b] \<Rightarrow> (a = [] \<and> digits_ok b) \<or> (digits_ok a \<and> (b = [] \<or> digits_ok b))
      | _ \<Rightarrow> False)"

definition unsigned :: "string \<Rightarrow> string" where
  "unsigned s = (case s of c # cs \<Rightarrow> (if c = CHR ''+'' \<or> c = CHR ''-'' then cs else s) | [] \<Rightarrow> [])"

definition float_ok :: "string \<Rightarrow> bool" where
  "float_ok s \<longleftrightarrow>
     (let t = lower (unsigned (strip s)) in
      t = ''inf'' \<or> t = ''infinity'' \<or> t = ''nan'' \<or>
      (case split_on ''e'' t of
         [m] \<Rightarrow> mantissa_ok m
       | [m, x] \<Rightarrow> mantissa_ok m \<and> digits_ok (unsigned x)
       | _ \<Rightarrow> False))"

fun scan_value_end :: "string list \<Rightarrow> nat \<Rightarrow> nat \<Rightarrow> nat" where
  "scan_value_end toks i 0 = i"
| "scan_value_end toks i (Suc n) =
     (if i < length toks \<and> toks ! i \<notin> set ([('','') , '')'', ''and''] @ CLAUSE_KEYWORDS @ JOIN_KEYWORDS)
      then scan_value_end toks (i + 1) n else i)"

definition parse_value :: "(nat \<Rightarrow> sql parse) \<Rightarrow> ctx \<Rightarrow> string list \<Rightarrow> nat \<Rightarrow> sval parse" where
  "parse_value psql cx dts i =
     (let toks = cx_toks cx in
      rbind (py_nth toks i) (\<lambda>t0.
        let block = (t0 = ''(''); i1 = (if block then i + 1 else i) in
        rbind (py_nth toks i1) (\<lambda>t1.
        rbind (if t1 = ''select'' then rbind (psql i1) (\<lambda>(j, q). Inr (j, SSql q))
               else if map_of (sc_idmap (cx_schema cx)) t1 = None then Inr (i1 + 1, STok t1)
               else if float_ok t1 then Inr (i1 + 1, SNum t1)
               else (let e = scan_value_end toks i1 (length toks - i1)
                     in rbind (parse_col_unit cx dts (py_slice i e toks) 0) (\<lambda>(j, c). Inr (e, SCol c))))
          (\<lambda>(j, v). if block then rbind (expect toks j '')'') (\<lambda>_. Inr (j + 1, v)) else Inr (j, v)))))"

definition out_of_fuel :: exn where "out_of_fuel = Raised ''fuel''"

text \<open>One condition: a value unit, perhaps \<open>not\<close>, an operator, one or two values.\<close>

definition condition_op :: "string list \<Rightarrow> nat \<Rightarrow> (bool \<times> nat) parse" where
  "condition_op toks j =
     rbind (py_nth toks j) (\<lambda>t.
       let neg = (t = ''not''); k = (if neg then j + 1 else j) in
       rbind (ensure (at toks k WHERE_OPS) (if k < length toks then AssertionError else IndexError)) (\<lambda>_.
       Inr (k + 1, neg, index_of WHERE_OPS (toks ! k))))"

definition second_value ::
    "(nat \<Rightarrow> sql parse) \<Rightarrow> ctx \<Rightarrow> string list \<Rightarrow> nat \<Rightarrow> nat \<Rightarrow> sval parse" where
  "second_value psql cx dts op l =
     (if op = index_of WHERE_OPS ''between''
      then rbind (expect (cx_toks cx) l ''and'') (\<lambda>_. parse_value psql cx dts (l + 1))
      else Inr (l, NoVal))"

definition one_condition :: "(nat \<Rightarrow> sql parse) \<Rightarrow> ctx \<Rightarrow> string list \<Rightarrow> nat \<Rightarrow> cond parse" where
  "one_condition psql cx dts i =
     rbind (parse_val_unit cx dts (cx_toks cx) i) (\<lambda>(j, u).
     rbind (condition_op (cx_toks cx) j) (\<lambda>(k, neg, op).
     rbind (parse_value psql cx dts k) (\<lambda>(l, v1).
     rbind (second_value psql cx dts op l) (\<lambda>(m, v2).
     Inr (m, Cond neg op u v1 v2)))))"

fun parse_condition ::
    "nat \<Rightarrow> (nat \<Rightarrow> sql parse) \<Rightarrow> ctx \<Rightarrow> string list \<Rightarrow> cond list \<Rightarrow> nat \<Rightarrow> cond list parse" where
  "parse_condition 0 psql cx dts conds i = Inl out_of_fuel"
| "parse_condition (Suc n) psql cx dts conds i =
     (let toks = cx_toks cx in
      if \<not> i < length toks then Inr (i, conds)
      else
        rbind (one_condition psql cx dts i) (\<lambda>(m, c).
          if at toks m (CLAUSE_KEYWORDS @ ['')'', '';''] @ JOIN_KEYWORDS) then Inr (m, conds @ [c])
          else if at toks m COND_OPS
            then parse_condition n psql cx dts (conds @ [c, Conn (toks ! m)]) (m + 1)
          else parse_condition n psql cx dts (conds @ [c]) m))"

section \<open>Clauses\<close>

fun parse_select_loop ::
    "nat \<Rightarrow> ctx \<Rightarrow> string list \<Rightarrow> (nat \<times> valunit) list \<Rightarrow> nat \<Rightarrow> (nat \<times> valunit) list parse" where
  "parse_select_loop 0 cx dts us i = Inl out_of_fuel"
| "parse_select_loop (Suc n) cx dts us i =
     (let toks = cx_toks cx in
      if \<not> i < length toks \<or> at toks i CLAUSE_KEYWORDS then Inr (i, us)
      else
        (let agg = at toks i AGG_OPS; a = (if agg then index_of AGG_OPS (toks ! i) else 0);
             i1 = (if agg then i + 1 else i)
         in rbind (parse_val_unit cx dts toks i1) (\<lambda>(j, u).
              parse_select_loop n cx dts (us @ [(a, u)]) (if at toks j ['',''] then j + 1 else j))))"

definition parse_select :: "ctx \<Rightarrow> string list \<Rightarrow> nat \<Rightarrow> (bool \<times> (nat \<times> valunit) list) parse" where
  "parse_select cx dts i =
     rbind (expect (cx_toks cx) i ''select'') (\<lambda>_.
       let dist = at (cx_toks cx) (i + 1) [''distinct''] in
       rbind (parse_select_loop (Suc (length (cx_toks cx))) cx dts [] (if dist then i + 2 else i + 1))
         (\<lambda>(j, us). Inr (j, dist, us)))"

record from_state =
  fr_units :: "tunit list"
  fr_conds :: "cond list"
  fr_tables :: "string list"

text \<open>One table or subquery of the \<open>from\<close> clause.\<close>

definition from_item :: "(nat \<Rightarrow> sql parse) \<Rightarrow> ctx \<Rightarrow> from_state \<Rightarrow> nat \<Rightarrow> from_state parse" where
  "from_item psql cx fs i =
     (let toks = cx_toks cx in
      rbind (py_nth toks i) (\<lambda>t.
        if t = ''select'' then
          rbind (psql i) (\<lambda>(j, q). Inr (j, fs\<lparr>fr_units := fr_units fs @ [TSql q]\<rparr>))
        else
          (let i1 = (if t = ''join'' then i + 1 else i)
           in rbind (parse_table_unit cx i1) (\<lambda>(j, d, key).
                Inr (j, fs\<lparr>fr_units := fr_units fs @ [TUnit d], fr_tables := fr_tables fs @ [key]\<rparr>)))))"

definition from_on :: "nat \<Rightarrow> (nat \<Rightarrow> sql parse) \<Rightarrow> ctx \<Rightarrow> from_state \<Rightarrow> nat \<Rightarrow> from_state parse" where
  "from_on n psql cx fs i =
     (if at (cx_toks cx) i [''on''] then
        rbind (parse_condition n psql cx (fr_tables fs) [] (i + 1)) (\<lambda>(j, cs).
          Inr (j, fs\<lparr>fr_conds := (if fr_conds fs \<noteq> [] then fr_conds fs @ [Conn ''and''] else []) @ cs\<rparr>))
      else Inr (i, fs))"

text \<open>The bracket that closes a block opened before.\<close>

definition close_block :: "bool \<Rightarrow> string list \<Rightarrow> nat \<Rightarrow> nat res" where
  "close_block block toks k = (if block then rbind (expect toks k '')'') (\<lambda>_. Inr (k + 1)) else Inr k)"

fun parse_from_loop :: "nat \<Rightarrow> (nat \<Rightarrow> sql parse) \<Rightarrow> ctx \<Rightarrow> from_state \<Rightarrow> nat \<Rightarrow> from_state parse" where
  "parse_from_loop 0 psql cx fs i = Inl out_of_fuel"
| "parse_from_loop (Suc n) psql cx fs i =
     (let toks = cx_toks cx in
      if \<not> i < length toks then Inr (i, fs)
      else
        (let block = (toks ! i = ''(''); i1 = (if block then i + 1 else i) in
         rbind (from_item psql cx fs i1) (\<lambda>(j, fs1).
         rbind (from_on (Suc (length toks)) psql cx fs1 j) (\<lambda>(k, fs2).
         rbind (close_block block toks k) (\<lambda>l.
           if at toks l (CLAUSE_KEYWORDS @ ['')'', '';'']) then Inr (l, fs2)
           else parse_from_loop n psql cx fs2 l)))))"

definition parse_from :: "(nat \<Rightarrow> sql parse) \<Rightarrow> ctx \<Rightarrow> nat \<Rightarrow> from_state parse" where
  "parse_from psql cx i =
     (let rest = drop i (cx_toks cx) in
      rbind (ensure (''from'' \<in> set rest) AssertionError) (\<lambda>_.
        parse_from_loop (Suc (length (cx_toks cx))) psql cx
          \<lparr>fr_units = [], fr_conds = [], fr_tables = []\<rparr> (i + index_of rest ''from'' + 1)))"

definition parse_conds_clause ::
    "string \<Rightarrow> (nat \<Rightarrow> sql parse) \<Rightarrow> ctx \<Rightarrow> string list \<Rightarrow> nat \<Rightarrow> cond list parse" where
  "parse_conds_clause kw psql cx dts i =
     (if \<not> at (cx_toks cx) i [kw] then Inr (i, [])
      else parse_condition (Suc (length (cx_toks cx))) psql cx dts [] (i + 1))"

definition parse_where :: "(nat \<Rightarrow> sql parse) \<Rightarrow> ctx \<Rightarrow> string list \<Rightarrow> nat \<Rightarrow> cond list parse" where
  "parse_where = parse_conds_clause ''where''"

definition parse_having :: "(nat \<Rightarrow> sql parse) \<Rightarrow> ctx \<Rightarrow> string list \<Rightarrow> nat \<Rightarrow> cond list parse" where
  "parse_having = parse_conds_clause ''having''"

definition clause_end :: "string list \<Rightarrow> nat \<Rightarrow> bool" where
  "clause_end toks i \<longleftrightarrow> \<not> i < length toks \<or> at toks i (CLAUSE_KEYWORDS @ ['')'', '';''])"

fun parse_group_loop :: "nat \<Rightarrow> ctx \<Rightarrow> string list \<Rightarrow> colunit list \<Rightarrow> nat \<Rightarrow> colunit list parse" where
  "parse_group_loop 0 cx dts us i = Inl out_of_fuel"
| "parse_group_loop (Suc n) cx dts us i =
     (if clause_end (cx_toks cx) i then Inr (i, us)
      else rbind (parse_col_unit cx dts (cx_toks cx) i) (\<lambda>(j, u).
        if at (cx_toks cx) j ['',''] then parse_group_loop n cx dts (us @ [u]) (j + 1)
        else Inr (j, us @ [u])))"

definition parse_group_by :: "ctx \<Rightarrow> string list \<Rightarrow> nat \<Rightarrow> colunit list parse" where
  "parse_group_by cx dts i =
     (if \<not> at (cx_toks cx) i [''group''] then Inr (i, [])
      else rbind (expect (cx_toks cx) (i + 1) ''by'') (\<lambda>_.
        parse_group_loop (Suc (length (cx_toks cx))) cx dts [] (i + 2)))"

fun parse_order_loop ::
    "nat \<Rightarrow> ctx \<Rightarrow> string list \<Rightarrow> string \<Rightarrow> valunit list \<Rightarrow> nat \<Rightarrow> (string \<times> valunit list) parse" where
  "parse_order_loop 0 cx dts ty us i = Inl out_of_fuel"
| "parse_order_loop (Suc n) cx dts ty us i =
     (let toks = cx_toks cx in
      if clause_end toks i then Inr (i, ty, us)
      else rbind (parse_val_unit cx dts toks i) (\<lambda>(j, u).
        let dir = at toks j ORDER_OPS; ty' = (if dir then toks ! j else ty); k = (if dir then j + 1 else j) in
        if at toks k ['',''] then parse_order_loop n cx dts ty' (us @ [u]) (k + 1)
        else Inr (k, ty', us @ [u])))"

definition parse_order_by :: "ctx \<Rightarrow> string list \<Rightarrow> nat \<Rightarrow> (string \<times> valunit list) option parse" where
  "parse_order_by cx dts i =
     (if \<not> at (cx_toks cx) i [''order''] then Inr (i, None)
      else rbind (expect (cx_toks cx) (i + 1) ''by'') (\<lambda>_.
        rbind (parse_order_loop (Suc (length (cx_toks cx))) cx dts ''asc'' [] (i + 2)) (\<lambda>(j, r). Inr (j, Some r))))"

text \<open>The tokens are strings, so \<open>isinstance(toks[idx - 1], int)\<close> is never true.\<close>

definition parse_limit :: "ctx \<Rightarrow> nat \<Rightarrow> nat option parse" where
  "parse_limit cx i =
     (if at (cx_toks cx) i [''limit''] then rbind (py_nth (cx_toks cx) (i + 1)) (\<lambda>t. Inr (i + 2, Some 1))
      else Inr (i, None))"

definition skip_semicolon :: "string list \<Rightarrow> nat \<Rightarrow> nat" where
  "skip_semicolon toks i = i + length (takeWhile (\<lambda>t. t = '';'') (drop i toks))"

section \<open>The query\<close>

text \<open>The clauses of one query, up to its set operation.\<close>

definition parse_body :: "(nat \<Rightarrow> sql parse) \<Rightarrow> ctx \<Rightarrow> nat \<Rightarrow> ((string \<times> sql) option \<Rightarrow> sql) parse" where
  "parse_body psql cx i =
     (let toks = cx_toks cx in
      rbind (py_nth toks i) (\<lambda>t.
        let block = (t = ''(''); i1 = (if block then i + 1 else i) in
        rbind (parse_from psql cx i) (\<lambda>(j, fs).
          let dts = fr_tables fs in
        rbind (parse_select cx dts i1) (\<lambda>(k0, dist, sel).
        rbind (parse_where psql cx dts j) (\<lambda>(k1, wh).
        rbind (parse_group_by cx dts k1) (\<lambda>(k2, gr).
        rbind (parse_having psql cx dts k2) (\<lambda>(k3, hv).
        rbind (parse_order_by cx dts k3) (\<lambda>(k4, ord).
        rbind (parse_limit cx k4) (\<lambda>(k5, lim).
          let k6 = skip_semicolon toks k5 in
        rbind (close_block block toks k6) (\<lambda>k7.
        Inr (skip_semicolon toks k7,
             Sql (fr_units fs) (fr_conds fs) dist sel wh gr hv ord lim)))))))))))"

fun parse_sql :: "nat \<Rightarrow> ctx \<Rightarrow> nat \<Rightarrow> sql parse" where
  "parse_sql 0 cx i = Inl out_of_fuel"
| "parse_sql (Suc n) cx i =
     rbind (parse_body (parse_sql n cx) cx i) (\<lambda>(j, mk).
       if at (cx_toks cx) j SQL_OPS
       then rbind (parse_sql n cx (j + 1)) (\<lambda>(k, q). Inr (k, mk (Some (cx_toks cx ! j, q))))
       else Inr (j, mk None))"

text \<open>\<open>run\<close> up to the hardness: tokens, aliases, the query from the first token.\<close>

definition parse_query :: "(string \<Rightarrow> string list) \<Rightarrow> schema \<Rightarrow> string \<Rightarrow> sql res" where
  "parse_query word_tokenize sc query =
     rbind (tokenize word_tokenize query) (\<lambda>toks.
     rbind (get_tables_with_alias sc toks) (\<lambda>alias.
     rbind (parse_sql (Suc (length toks)) \<lparr>cx_toks = toks, cx_alias = alias, cx_schema = sc\<rparr> 0)
       (\<lambda>(i, q). Inr q)))"

end
