(* ===== verification/SqlTotal.thy ===== *)
theory SqlTotal
  imports SqlParse
begin

text \<open>
  The parser terminates: every method moves forward in the tokens, so the loops and the recursion of
  \<open>parse_sql\<close> end before the fuel does. \<open>safe P r\<close> says that \<open>r\<close> is not the exhausted-fuel
  exception and that a value it returns satisfies \<open>P\<close>.
\<close>

definition safe :: "('a \<Rightarrow> bool) \<Rightarrow> 'a res \<Rightarrow> bool" where
  "safe P r \<longleftrightarrow> (case r of Inl e \<Rightarrow> e \<noteq> out_of_fuel | Inr x \<Rightarrow> P x)"

named_theorems safe_rules \<open>what the parts of the parser guarantee\<close>

lemma safe_simps [simp]: "safe P (Inr x) = P x" "safe P (Inl e) = (e \<noteq> out_of_fuel)"
  by (simp_all add: safe_def)

lemma fuel_simps [simp]:
  "IndexError \<noteq> out_of_fuel" "KeyError \<noteq> out_of_fuel" "ValueError \<noteq> out_of_fuel" "AssertionError \<noteq> out_of_fuel"
  by (simp_all add: out_of_fuel_def)

lemma safe_bind: "safe P r \<Longrightarrow> (\<And>x. P x \<Longrightarrow> safe Q (f x)) \<Longrightarrow> safe Q (rbind r f)"
  by (cases r) auto

lemma safe_weaken: "safe P r \<Longrightarrow> (\<And>x. P x \<Longrightarrow> Q x) \<Longrightarrow> safe Q r"
  by (cases r) auto

lemma safe_nth [safe_rules]: "safe (\<lambda>t. i < length toks \<and> toks ! i = t) (py_nth toks i)"
  by (simp add: py_nth_def)

lemma safe_ensure [safe_rules]: "e \<noteq> out_of_fuel \<Longrightarrow> safe (\<lambda>_. b) (ensure b e)"
  by (simp add: ensure_def)

lemma safe_of_opt [safe_rules]: "e \<noteq> out_of_fuel \<Longrightarrow> safe (\<lambda>x. r = Some x) (of_opt e r)"
  by (cases r) auto

lemma safe_expect [safe_rules]: "safe (\<lambda>_. i < length toks \<and> toks ! i = t) (expect toks i t)"
  unfolding expect_def by (rule safe_bind [OF safe_nth]) (simp add: ensure_def)

lemma safe_id_of [safe_rules]: "safe (\<lambda>_. True) (id_of sc k)"
  unfolding id_of_def by (rule safe_weaken [OF safe_of_opt]) simp_all

lemma safe_find_default: "safe (\<lambda>_. True) (find_default cx tok dts)"
  by (induction dts) (auto intro!: safe_bind [OF safe_of_opt] safe_id_of)

lemma safe_parse_col [safe_rules]: "safe (\<lambda>(j, c). i < j) (parse_col cx dts toks i)"
  unfolding parse_col_def Let_def
  by (rule safe_bind [OF safe_nth], rule safe_bind [where P = "\<lambda>_. True"])
     (auto split: list.split intro!: safe_id_of safe_find_default safe_bind [OF safe_ensure]
        safe_bind [OF safe_of_opt])

lemma safe_skip: "safe (\<lambda>k. i \<le> k) (skip_to_close toks i n)"
proof (induction n arbitrary: i)
  case (Suc n)
  have "safe (\<lambda>k. i \<le> k) (skip_to_close toks (Suc i) n)" by (rule safe_weaken [OF Suc]) simp
  then show ?case by (auto intro!: safe_bind [OF safe_nth])
qed simp

declare skip_to_close.simps [simp del]

lemma safe_parse_func [safe_rules]: "safe (\<lambda>(j, c). i < j) (parse_func cx dts toks i)"
  unfolding parse_func_def
  by (auto intro!: safe_bind [OF safe_nth] safe_bind [OF safe_expect] safe_bind [OF safe_parse_col]
      safe_bind [OF safe_skip])

lemma safe_parse_col_unit [safe_rules]: "safe (\<lambda>(j, c). i < j) (parse_col_unit cx dts toks i)"
  unfolding parse_col_unit_def Let_def
  by (auto intro!: safe_bind [OF safe_nth] safe_bind [OF safe_expect] safe_bind [OF safe_parse_col]
      safe_bind [OF safe_parse_func] safe_bind [OF safe_ensure] split: if_splits)

lemma safe_parse_val_unit [safe_rules]: "safe (\<lambda>(j, c). i < j) (parse_val_unit cx dts toks i)"
proof -
  have op: "safe (\<lambda>(k, c). i < k) (if at toks j UNIT_OPS
      then rbind (parse_col_unit cx dts toks (j + 1)) (\<lambda>(k, c2). Inr (k, VUnit (index_of UNIT_OPS (toks ! j)) c1 (Some c2)))
      else Inr (j, VUnit 0 c1 None))" if "i < j" for j c1
    using that by (auto intro!: safe_bind [OF safe_parse_col_unit])
  show ?thesis
    unfolding parse_val_unit_def Let_def
    by (rule safe_bind [OF safe_nth], auto intro!: safe_bind [OF safe_parse_func] safe_bind [OF safe_parse_col_unit]
        safe_bind [OF op] safe_bind [OF safe_expect])
qed

lemma safe_parse_table_unit [safe_rules]: "safe (\<lambda>(j, d, k). i < j) (parse_table_unit cx i)"
  unfolding parse_table_unit_def
  by (auto intro!: safe_bind [OF safe_nth] safe_bind [OF safe_of_opt] safe_bind [OF safe_id_of])


section \<open>Loops and recursion\<close>

text \<open>What a method needs of \<open>parse_sql\<close>: it is safe from position \<open>b\<close> on.\<close>

definition psql_ok :: "nat \<Rightarrow> ctx \<Rightarrow> (nat \<Rightarrow> sql parse) \<Rightarrow> bool" where
  "psql_ok b cx psql \<longleftrightarrow> (\<forall>k. b \<le> k \<and> k < length (cx_toks cx) \<longrightarrow> safe (\<lambda>(j, q). k < j) (psql k))"

lemma safe_psql: "psql_ok b cx psql \<Longrightarrow> b \<le> k \<Longrightarrow> k < length (cx_toks cx) \<Longrightarrow> safe (\<lambda>(j, q). k < j) (psql k)"
  by (simp add: psql_ok_def)

lemma scan_value_end_ge: "i \<le> scan_value_end toks i n"
proof (induction n arbitrary: i)
  case (Suc n)
  show ?case using Suc [of "i + 1"] by simp
qed simp

declare scan_value_end.simps [simp del]

lemma parse_col_unit_Nil [simp]: "parse_col_unit cx dts [] i = Inl IndexError"
  by (simp add: parse_col_unit_def py_nth_def)

lemma safe_parse_value:
  assumes "psql_ok b cx psql" and "b \<le> i"
  shows "safe (\<lambda>(j, v). i < j) (parse_value psql cx dts i)"
proof -
  have v: "safe (\<lambda>(j, v). i < j)
      (if t1 = ''select'' then rbind (psql i1) (\<lambda>(j, q). Inr (j, SSql q))
       else if map_of (sc_idmap (cx_schema cx)) t1 = None then Inr (i1 + 1, STok t1)
       else if float_ok t1 then Inr (i1 + 1, SNum t1)
       else (let e = scan_value_end (cx_toks cx) i1 (length (cx_toks cx) - i1)
             in rbind (parse_col_unit cx dts (py_slice i e (cx_toks cx)) 0) (\<lambda>(j, c). Inr (e, SCol c))))"
    if "i1 < length (cx_toks cx)" "i \<le> i1" for i1 t1
  proof -
    define e where "e = scan_value_end (cx_toks cx) i1 (length (cx_toks cx) - i1)"
    have ge: "i1 \<le> e" unfolding e_def by (rule scan_value_end_ge)
    have "safe (\<lambda>(j, v). i < j) (rbind (parse_col_unit cx dts (py_slice i e (cx_toks cx)) 0) (\<lambda>(j, c). Inr (e, SCol c)))"
    proof (cases "i = e")
      case True
      then show ?thesis by (simp add: py_slice_def)
    next
      case False
      with ge that show ?thesis by (auto intro!: safe_bind [OF safe_parse_col_unit])
    qed
    moreover have "safe (\<lambda>(j, v). i < j) (rbind (psql i1) (\<lambda>(j, q). Inr (j, SSql q)))"
      using that assms by (auto intro!: safe_bind [OF safe_psql])
    ultimately show ?thesis using that by (simp add: Let_def flip: e_def)
  qed
  show ?thesis
    unfolding parse_value_def Let_def
    by (rule safe_bind [OF safe_nth], rule safe_bind [OF safe_nth], rule safe_bind [OF v [unfolded Let_def]])
       (auto intro!: safe_bind [OF safe_expect])
qed

lemma safe_one_condition:
  assumes "psql_ok b cx psql" and "b \<le> i"
  shows "safe (\<lambda>(m, c). i < m) (one_condition psql cx dts i)"
proof -
  have op: "safe (\<lambda>(k, x). i < k) (condition_op (cx_toks cx) j)" if "i < j" for j
    using that unfolding condition_op_def Let_def
    by (auto intro!: safe_bind [OF safe_nth] safe_bind [OF safe_ensure] split: if_splits)
  have two: "safe (\<lambda>(m, v). i < m) (second_value psql cx dts op l)" if "i < l" for op l
    using that assms(2) unfolding second_value_def
    by (auto intro!: safe_bind [OF safe_expect] safe_weaken [OF safe_parse_value [OF assms(1)]])
  have one: "safe (\<lambda>(l, v). i < l) (parse_value psql cx dts k)" if "i < k" for k
    using that assms(2) by (auto intro!: safe_weaken [OF safe_parse_value [OF assms(1)]])
  show ?thesis
    unfolding one_condition_def
    by (auto intro!: safe_bind [OF safe_parse_val_unit] safe_bind [OF op] safe_bind [OF one] safe_bind [OF two])
qed

lemma safe_parse_condition:
  assumes "psql_ok b cx psql" and "b \<le> i" and "0 < n" and "length (cx_toks cx) < n + i"
  shows "safe (\<lambda>(j, v). i \<le> j) (parse_condition n psql cx dts conds i)"
  using assms(2-4)
proof (induction n arbitrary: conds i)
  case (Suc n)
  have IH: "safe (\<lambda>(j, v). i \<le> j) (parse_condition n psql cx dts cs m)" if "i < m" "i < length (cx_toks cx)" for cs m
    using that Suc.prems by (intro safe_weaken [OF Suc.IH [of m cs]]) auto
  show ?case
    using Suc.prems(1)
    by (auto simp: Let_def intro!: safe_bind [OF safe_one_condition [OF assms(1)]] IH)
qed simp

declare parse_condition.simps [simp del]

lemma safe_select_loop:
  assumes "0 < n" and "length (cx_toks cx) < n + i"
  shows "safe (\<lambda>(j, v). i \<le> j) (parse_select_loop n cx dts us i)"
  using assms
proof (induction n arbitrary: us i)
  case (Suc n)
  have IH: "safe (\<lambda>(j, v). i \<le> j) (parse_select_loop n cx dts cs m)" if "i < m" "i < length (cx_toks cx)" for cs m
    using that Suc.prems by (intro safe_weaken [OF Suc.IH [of m cs]]) auto
  show ?case
    by (auto simp: Let_def intro!: safe_bind [OF safe_parse_val_unit] IH split: if_splits)
qed simp

declare parse_select_loop.simps [simp del]

lemma safe_parse_select: "safe (\<lambda>_. True) (parse_select cx dts i)"
  unfolding parse_select_def Let_def
  by (auto intro!: safe_bind [OF safe_expect] safe_bind [OF safe_select_loop])

lemma safe_from_item:
  assumes "psql_ok b cx psql" and "b \<le> i"
  shows "safe (\<lambda>(j, v). i < j) (from_item psql cx fs i)"
  using assms unfolding from_item_def Let_def
  by (auto intro!: safe_bind [OF safe_nth] safe_bind [OF safe_psql] safe_bind [OF safe_parse_table_unit]
      split: if_splits)

lemma safe_from_on:
  assumes "psql_ok b cx psql" and "b \<le> i"
  shows "safe (\<lambda>(j, v). i \<le> j) (from_on (Suc (length (cx_toks cx))) psql cx fs i)"
  using assms unfolding from_on_def
  by (auto intro!: safe_bind [OF safe_parse_condition])

lemma safe_close_block: "safe (\<lambda>l. k \<le> l) (close_block b toks k)"
  unfolding close_block_def by (auto intro!: safe_bind [OF safe_expect])

lemma safe_from_loop:
  assumes "psql_ok b cx psql" and "b \<le> i" and "0 < n" and "length (cx_toks cx) < n + i"
  shows "safe (\<lambda>(j, v). i \<le> j) (parse_from_loop n psql cx fs i)"
  using assms(2-4)
proof (induction n arbitrary: fs i)
  case (Suc n)
  have IH: "safe (\<lambda>(j, v). i \<le> j) (parse_from_loop n psql cx cs m)" if "i < m" "i < length (cx_toks cx)" for cs m
    using that Suc.prems by (intro safe_weaken [OF Suc.IH [of m cs]]) auto
  have item: "safe (\<lambda>(j, v). i < j) (from_item psql cx fs i1)" if "i \<le> i1" for i1
    using that Suc.prems(1) by (auto intro!: safe_weaken [OF safe_from_item [OF assms(1)]])
  have cond: "safe (\<lambda>(k, v). i < k) (from_on (Suc (length (cx_toks cx))) psql cx fs1 j)" if "i < j" for fs1 j
    using that Suc.prems(1) by (auto intro!: safe_weaken [OF safe_from_on [OF assms(1)]])
  have close: "safe (\<lambda>l. i < l) (close_block b (cx_toks cx) k)" if "i < k" for b k
    by (rule safe_weaken [OF safe_close_block]) (use that in simp)
  show ?case
    unfolding parse_from_loop.simps Let_def
    by (auto intro!: safe_bind [OF item] safe_bind [OF cond] safe_bind [OF close] IH simp del: parse_from_loop.simps)
qed simp

declare parse_from_loop.simps [simp del]

lemma safe_parse_from:
  assumes "psql_ok b cx psql" and "b \<le> Suc i"
  shows "safe (\<lambda>(j, v). i < j) (parse_from psql cx i)"
  using assms unfolding parse_from_def Let_def
  by (auto intro!: safe_bind [OF safe_ensure] safe_weaken [OF safe_from_loop [OF assms(1)]])

lemma safe_conds_clause:
  assumes "psql_ok b cx psql" and "b \<le> i"
  shows "safe (\<lambda>(j, v). i \<le> j) (parse_conds_clause kw psql cx dts i)"
  using assms unfolding parse_conds_clause_def
  by (auto intro!: safe_weaken [OF safe_parse_condition [OF assms(1)]])

lemma safe_group_loop:
  assumes "0 < n" and "length (cx_toks cx) < n + i"
  shows "safe (\<lambda>(j, v). i \<le> j) (parse_group_loop n cx dts us i)"
  using assms
proof (induction n arbitrary: us i)
  case (Suc n)
  have IH: "safe (\<lambda>(j, v). i \<le> j) (parse_group_loop n cx dts cs m)" if "i < m" "\<not> clause_end (cx_toks cx) i" for cs m
    using that Suc.prems by (intro safe_weaken [OF Suc.IH [of m cs]]) (auto simp: clause_end_def)
  show ?case
    by (auto intro!: safe_bind [OF safe_parse_col_unit] IH)
qed simp

declare parse_group_loop.simps [simp del]

lemma safe_parse_group_by: "safe (\<lambda>(j, v). i \<le> j) (parse_group_by cx dts i)"
  unfolding parse_group_by_def
  by (auto intro!: safe_bind [OF safe_expect] safe_weaken [OF safe_group_loop])

lemma safe_order_loop:
  assumes "0 < n" and "length (cx_toks cx) < n + i"
  shows "safe (\<lambda>(j, v). i \<le> j) (parse_order_loop n cx dts ty us i)"
  using assms
proof (induction n arbitrary: ty us i)
  case (Suc n)
  have IH: "safe (\<lambda>(j, v). i \<le> j) (parse_order_loop n cx dts t cs m)" if "i < m" "\<not> clause_end (cx_toks cx) i" for t cs m
    using that Suc.prems by (intro safe_weaken [OF Suc.IH [of m t cs]]) (auto simp: clause_end_def)
  show ?case
    by (auto simp: Let_def intro!: safe_bind [OF safe_parse_val_unit] IH split: if_splits)
qed simp

declare parse_order_loop.simps [simp del]

lemma safe_parse_order_by: "safe (\<lambda>(j, v). i \<le> j) (parse_order_by cx dts i)"
  unfolding parse_order_by_def
  by (auto intro!: safe_bind [OF safe_expect] safe_bind [OF safe_order_loop])

lemma safe_parse_limit: "safe (\<lambda>(j, v). i \<le> j) (parse_limit cx i)"
  unfolding parse_limit_def by (auto intro!: safe_bind [OF safe_nth])

lemma skip_semicolon_ge: "i \<le> skip_semicolon toks i"
  by (simp add: skip_semicolon_def)

lemma safe_parse_body:
  assumes "psql_ok (Suc i) cx psql"
  shows "safe (\<lambda>(j, mk). i < j) (parse_body psql cx i)"
proof -
  have fr: "safe (\<lambda>(j, v). i < j) (parse_from psql cx i)"
    by (rule safe_parse_from [OF assms]) simp
  have cl: "safe (\<lambda>(k, v). i < k) (parse_conds_clause kw psql cx dts j)" if "i < j" for kw dts j
    using that by (auto intro!: safe_weaken [OF safe_conds_clause [OF assms]])
  have gr: "safe (\<lambda>(k, v). i < k) (parse_group_by cx dts j)" if "i < j" for dts j
    using that by (auto intro!: safe_weaken [OF safe_parse_group_by])
  have od: "safe (\<lambda>(k, v). i < k) (parse_order_by cx dts j)" if "i < j" for dts j
    using that by (auto intro!: safe_weaken [OF safe_parse_order_by])
  have lm: "safe (\<lambda>(k, v). i < k) (parse_limit cx j)" if "i < j" for j
    using that by (auto intro!: safe_weaken [OF safe_parse_limit])
  have sk: "i < skip_semicolon toks k" if "i < k" for toks k
    using that skip_semicolon_ge [of k toks] by simp
  have cb: "safe (\<lambda>l. i < l) (close_block b toks k)" if "i < k" for b toks k
    by (rule safe_weaken [OF safe_close_block]) (use that in simp)
  show ?thesis
    unfolding parse_body_def Let_def parse_where_def parse_having_def
    by (auto intro!: safe_bind [OF safe_nth] safe_bind [OF fr] safe_bind [OF safe_parse_select] safe_bind [OF cl]
        safe_bind [OF gr] safe_bind [OF od] safe_bind [OF lm] safe_bind [OF cb] sk)
qed

lemma safe_parse_sql:
  assumes "0 < n" and "length (cx_toks cx) < n + i"
  shows "safe (\<lambda>(j, q). i < j) (parse_sql n cx i)"
  using assms
proof (induction n arbitrary: i)
  case (Suc n)
  have ok: "psql_ok (Suc i) cx (parse_sql n cx)"
    unfolding psql_ok_def
  proof (intro allI impI, elim conjE)
    fix k assume "Suc i \<le> k" "k < length (cx_toks cx)"
    with Suc.prems show "safe (\<lambda>(j, q). k < j) (parse_sql n cx k)" by (intro Suc.IH) auto
  qed
  have next_sql: "safe (\<lambda>(k, q). i < k) (parse_sql n cx (Suc j))" if "i < j" "at (cx_toks cx) j SQL_OPS" for j
    using that Suc.prems by (intro safe_weaken [OF Suc.IH]) (auto simp: at_def)
  show ?case
    by (auto intro!: safe_bind [OF safe_parse_body [OF ok]] safe_bind [OF next_sql])
qed simp

declare parse_sql.simps [simp del]

lemma rfold_safe: "(\<And>x c. safe (\<lambda>_. True) (f x c)) \<Longrightarrow> safe (\<lambda>_. True) (rfold f xs a)"
  by (induction xs arbitrary: a) (auto intro: safe_bind)

text \<open>
  C34. Parsing a query always ends: on every schema and every query text the parser returns a query or
  raises one of the language's exceptions, never running out of its fuel of one unit per token and one.
\<close>

theorem parse_query_total: "parse_query word_tokenize sc query \<noteq> Inl out_of_fuel"
proof -
  have bf: "safe (\<lambda>_. True) (before toks i)" for toks :: "string list" and i
    by (auto simp: before_def py_index_def py_nth_def Let_def)
  have mg: "safe (\<lambda>_. True) (merge_equals is toks)" for "is" toks
    by (induction "is" arbitrary: toks) (auto intro!: safe_bind [OF bf])
  have al: "safe (\<lambda>_. True) (scan_alias toks)" for toks
    unfolding scan_alias_def
    by (rule rfold_safe) (auto intro!: safe_bind [OF safe_nth] safe_bind [OF bf])
  have gt: "safe (\<lambda>_. True) (get_tables_with_alias sc toks)" for toks
    unfolding get_tables_with_alias_def
    by (rule safe_bind [OF al], rule rfold_safe) (auto intro!: safe_bind [OF safe_ensure])
  have "safe (\<lambda>_. True) (parse_query word_tokenize sc query)"
    unfolding parse_query_def tokenize_def
    by (auto simp: Let_def split: prod.split intro!: safe_bind [OF mg] safe_bind [OF gt] safe_bind [OF safe_parse_sql])
  then show ?thesis by (auto simp: safe_def)
qed

text \<open>A schema of two tables, and a query with a join and a nested query.\<close>

definition demo_schema :: schema where
  "demo_schema = schema_new [(''T'', [''a'', ''b'']), (''U'', [''c''])]"

definition demo_query :: string where
  "demo_query = ''select a from T join U on a = c where b in ( select c from U ) limit 7''"

lemma demo_parse:
  "rbind (parse_query words demo_schema demo_query) (\<lambda>q. Inr (s_limit q, length (s_tables q), length (s_where q))) =
     Inr (Some 1, 2, 1)"
  by code_simp

end
