(* ===== verification/SqlHardness.thy ===== *)
theory SqlHardness
  imports SqlTotal
begin

text \<open>
  The difficulty of a parsed query: \<open>eval_hardness\<close> of \<open>EvalHardness\<close> and the scores of
  \<open>EvalHardnessLite\<close> in \<open>sql_evalhardness.py\<close>. \<open>cond_unit[3]\<close> of a connective in a place where the
  code expects a condition is a character of the word, or \<open>IndexError\<close>.
\<close>

section \<open>Counting\<close>

definition has_agg :: "nat \<Rightarrow> bool" where
  "has_agg a \<longleftrightarrow> a \<noteq> index_of AGG_OPS ''none''"

text \<open>\<open>unit[0] != 0\<close> for a condition is its negation flag, for a connective always true.\<close>

fun cond_agg :: "cond \<Rightarrow> bool" where
  "cond_agg (Cond neg op u v1 v2) = neg"
| "cond_agg (Conn s) = True"

text \<open>The columns of an \<open>order by\<close> unit that count: a function call starts with a word, not with 0.\<close>

fun order_aggs :: "valunit \<Rightarrow> bool list" where
  "order_aggs (VUnit op c1 c2) = has_agg (fst c1) # (case c2 of None \<Rightarrow> [] | Some c \<Rightarrow> [has_agg (fst c)])"
| "order_aggs (VFunc f) = [True]"

definition count_true :: "bool list \<Rightarrow> nat" where
  "count_true bs = length (List.filter (\<lambda>b. b) bs)"

fun nested_values :: "cond \<Rightarrow> sql list res" where
  "nested_values (Cond neg op u v1 v2) =
     Inr ((case v1 of SSql q \<Rightarrow> [q] | _ \<Rightarrow> []) @ (case v2 of SSql q \<Rightarrow> [q] | _ \<Rightarrow> []))"
| "nested_values (Conn s) = (if length s > 4 then Inr [] else Inl IndexError)"

definition main_conds :: "sql \<Rightarrow> cond list" where
  "main_conds q = evens (s_conds q) @ evens (s_where q) @ evens (s_having q)"

definition connectives :: "sql \<Rightarrow> cond list" where
  "connectives q = odds (s_conds q) @ odds (s_where q) @ odds (s_having q)"

definition get_nested :: "sql \<Rightarrow> sql list res" where
  "get_nested q =
     rbind (rmap nested_values (main_conds q)) (\<lambda>ns.
       Inr (concat ns @ (case s_iue q of None \<Rightarrow> [] | Some (op, r) \<Rightarrow> [r])))"

definition is_like :: "cond \<Rightarrow> bool" where
  "is_like c = (case c of Cond neg op u v1 v2 \<Rightarrow> op = index_of WHERE_OPS ''like'' | Conn s \<Rightarrow> False)"

definition of_bool_nat :: "bool \<Rightarrow> nat" where
  "of_bool_nat b = (if b then 1 else 0)"

definition count_component1 :: "sql \<Rightarrow> nat" where
  "count_component1 q =
     of_bool_nat (s_where q \<noteq> []) + of_bool_nat (s_group q \<noteq> []) + of_bool_nat (s_order q \<noteq> None) +
     of_bool_nat (s_limit q \<noteq> None) + (length (s_tables q) - 1) +
     length (List.filter (\<lambda>c. c = Conn ''or'') (connectives q)) +
     length (List.filter is_like (main_conds q))"

definition count_component2 :: "sql \<Rightarrow> nat res" where
  "count_component2 q = rbind (get_nested q) (\<lambda>ns. Inr (length ns))"

definition agg_count :: "sql \<Rightarrow> nat" where
  "agg_count q =
     count_true (map (\<lambda>(a, u). has_agg a) (s_select q)) +
     count_true (map cond_agg (evens (s_where q))) +
     count_true (map (\<lambda>c. has_agg (fst c)) (s_group q)) +
     (case s_order q of None \<Rightarrow> 0 | Some (ty, us) \<Rightarrow> count_true (concat (map order_aggs us))) +
     count_true (map cond_agg (s_having q))"

definition count_others :: "sql \<Rightarrow> nat" where
  "count_others q =
     of_bool_nat (agg_count q > 1) + of_bool_nat (length (s_select q) > 1) +
     of_bool_nat (length (s_where q) > 1) + of_bool_nat (length (s_group q) > 1)"

section \<open>Hardness\<close>

datatype hardness = Easy | Medium | Hard | Extra

definition hardness_of :: "nat \<Rightarrow> nat \<Rightarrow> nat \<Rightarrow> hardness" where
  "hardness_of c1 c2 others =
     (if c1 \<le> 1 \<and> others = 0 \<and> c2 = 0 then Easy
      else if (others \<le> 2 \<and> c1 \<le> 1 \<and> c2 = 0) \<or> (c1 \<le> 2 \<and> others < 2 \<and> c2 = 0) then Medium
      else if (others > 2 \<and> c1 \<le> 2 \<and> c2 = 0) \<or> (2 < c1 \<and> c1 \<le> 3 \<and> others \<le> 2 \<and> c2 = 0) \<or>
              (c1 \<le> 1 \<and> others = 0 \<and> c2 \<le> 1) then Hard
      else Extra)"

definition eval_hardness :: "sql \<Rightarrow> hardness res" where
  "eval_hardness q = rbind (count_component2 q) (\<lambda>c2. Inr (hardness_of (count_component1 q) c2 (count_others q)))"

definition run_hardness :: "(string \<Rightarrow> string list) \<Rightarrow> schema \<Rightarrow> string \<Rightarrow> hardness res" where
  "run_hardness word_tokenize sc query = rbind (parse_query word_tokenize sc query) eval_hardness"

text \<open>The order of the levels.\<close>

instantiation hardness :: linorder
begin

fun level :: "hardness \<Rightarrow> nat" where
  "level Easy = 0" | "level Medium = 1" | "level Hard = 2" | "level Extra = 3"

definition less_eq_hardness :: "hardness \<Rightarrow> hardness \<Rightarrow> bool" where
  "less_eq_hardness a b \<longleftrightarrow> level a \<le> level b"

definition less_hardness :: "hardness \<Rightarrow> hardness \<Rightarrow> bool" where
  "less_hardness a b \<longleftrightarrow> level a < level b"

instance
proof
  fix a b c :: hardness
  show "(a < b) = (a \<le> b \<and> \<not> b \<le> a)" by (auto simp: less_eq_hardness_def less_hardness_def)
  show "a \<le> a" by (simp add: less_eq_hardness_def)
  show "a \<le> b \<Longrightarrow> b \<le> c \<Longrightarrow> a \<le> c" by (simp add: less_eq_hardness_def)
  show "a \<le> b \<Longrightarrow> b \<le> a \<Longrightarrow> a = b" by (cases a; cases b) (simp_all add: less_eq_hardness_def)
  show "a \<le> b \<or> b \<le> a" by (auto simp: less_eq_hardness_def)
qed

end

text \<open>
  With any number of other components but two, the level is monotone in the counts of clauses and
  of nested queries: more of them never make a query easier.
\<close>

theorem hardness_mono:
  assumes "c1 \<le> d1" and "c2 \<le> d2" and "others \<noteq> 2"
  shows "hardness_of c1 c2 others \<le> hardness_of d1 d2 others"
  using assms by (auto simp: hardness_of_def less_eq_hardness_def)

theorem hardness_mono_witness: "hardness_of 1 0 1 \<le> hardness_of 3 0 1 \<and> hardness_of 1 0 1 = Medium"
  using hardness_mono [of 1 3 0 0 1] by (simp add: hardness_of_def)

text \<open>
  With two other components it is not: two clauses and no nested query are \<open>extra\<close>, but with one
  clause more, or one other component more, the query is only \<open>hard\<close>. This is the only place: any
  other query without nesting is at most as hard as the one with a clause more.
\<close>

theorem hardness_hole:
  "hardness_of 2 0 2 = Extra \<and> hardness_of 3 0 2 = Hard \<and> hardness_of 2 0 3 = Hard \<and>
   (\<forall>c1 others. (hardness_of (Suc c1) 0 others < hardness_of c1 0 others) = (c1 = 2 \<and> others = 2))"
  by (auto simp: hardness_of_def less_hardness_def split: if_splits)

text \<open>
  Every query with a \<open>limit\<close> clause gets the limit 1, whatever number it gives: the tokens are
  strings, and the test for an integer fails.
\<close>

theorem limit_always_one:
  assumes "parse_limit cx i = Inr (j, Some n)"
  shows "n = 1 \<and> j = i + 2 \<and> at (cx_toks cx) i [''limit'']"
  using assms by (auto simp: parse_limit_def rbind_eq_Inr split: if_splits)

theorem limit_always_one_witness:
  "parse_limit \<lparr>cx_toks = [''limit'', ''7''], cx_alias = [], cx_schema = demo_schema\<rparr> 0 = Inr (2, Some 1) \<and>
   (1 :: nat) = 1"
proof -
  have p: "parse_limit \<lparr>cx_toks = [''limit'', ''7''], cx_alias = [], cx_schema = demo_schema\<rparr> 0 = Inr (2, Some 1)"
    by (simp add: parse_limit_def at_def py_nth_def)
  from limit_always_one [OF p] p show ?thesis by simp
qed

section \<open>The lite scores\<close>

definition count_sub :: "string \<Rightarrow> string \<Rightarrow> nat" where
  "count_sub p s = length (split_on p s) - 1"

text \<open>\<open>re.search(r'\\( *select', sql)\<close>.\<close>

fun paren_select :: "string \<Rightarrow> bool" where
  "paren_select [] = False"
| "paren_select (c # cs) =
     ((c = CHR ''('' \<and> starts_with ''select'' (dropWhile (\<lambda>d. d = CHR '' '') cs)) \<or> paren_select cs)"

definition any_in :: "string list \<Rightarrow> string \<Rightarrow> bool" where
  "any_in ws s \<longleftrightarrow> list_ex (\<lambda>w. contains w s) ws"

definition score_rules :: "string \<Rightarrow> nat list" where
  "score_rules s =
     [if paren_select s then 2 else 0,
      count_sub '' join '' s,
      of_bool_nat (count_sub '','' s > 0 \<and> contains ''from'' s),
      of_bool_nat (count_sub '' and '' s + count_sub '' or '' s \<ge> 2),
      of_bool_nat (any_in [''in'', ''exists'', ''like''] s),
      of_bool_nat (contains ''group by'' s),
      of_bool_nat (contains ''having'' s),
      of_bool_nat (any_in [''cast'', ''round'', ''substring'', ''date'', ''coalesce''] s),
      of_bool_nat (contains ''order by'' s),
      of_bool_nat (contains ''limit'' s),
      if any_in [''union'', ''intersect'', ''except''] s then 2 else 0]"

fun classify_difficulty :: "nat \<Rightarrow> nat list \<Rightarrow> 'l list \<Rightarrow> nat \<Rightarrow> 'l res" where
  "classify_difficulty i [] labels score = py_index labels (-1)"
| "classify_difficulty i (t # ts) labels score =
     (if score \<le> t then py_nth labels i else classify_difficulty (Suc i) ts labels score)"

text \<open>Every \<open>join\<close> also counts as an \<open>in\<close>: the keyword is searched as a part of words.\<close>

lemma contains_append: "contains p (u @ p @ v)"
proof -
  have "find_from i p (u @ p @ v) \<noteq> None" for i
  proof (induction u arbitrary: i)
    case Nil
    show ?case using starts_with_append [of p v] by (cases "p @ v") (auto simp del: starts_with_append)
  qed auto
  then show ?thesis by (simp add: contains_def)
qed

lemma join_counts_as_in:
  assumes "sql = u @ ''join'' @ v"
  shows "score_rules sql ! 4 = 1"
proof -
  have "contains ''in'' ((u @ ''jo'') @ ''in'' @ v)" by (rule contains_append)
  then show ?thesis using assms by (simp add: score_rules_def any_in_def of_bool_nat_def)
qed

end
