(* ===== verification/TextSplit.thy ===== *)
theory TextSplit
  imports Prelude
begin

text \<open>
  The text splitters of \<open>lazyllm/tools/rag/transform/base.py\<close>: \<open>split_text_keep_separator\<close>, the
  recursive \<open>_split\<close> and the merging with overlap of \<open>_TextSplitterBase\<close>, and the sliding
  window of \<open>_TokenTextSplitter\<close>. A text is a list of code points. The token encoder and decoder and
  nltk's sentence tokenizer are parameters.
\<close>

type_synonym utext = "nat list"

section \<open>Splitting at a separator\<close>

definition begins :: "'a list \<Rightarrow> 'a list \<Rightarrow> bool" where
  "begins p s \<longleftrightarrow> take (length p) s = p"

text \<open>\<open>text.find(separator, start)\<close>, and the loop, which keeps the separator at the end of each piece.\<close>

fun find_at :: "'a list \<Rightarrow> 'a list \<Rightarrow> nat \<Rightarrow> nat option" where
  "find_at sep [] i = (if sep = [] then Some i else None)"
| "find_at sep (c # cs) i = (if begins sep (c # cs) then Some i else find_at sep cs (Suc i))"

definition find_sep :: "'a list \<Rightarrow> 'a list \<Rightarrow> nat \<Rightarrow> nat option" where
  "find_sep tx sep start = find_at sep (drop start tx) start"

lemma find_at_ge: "find_at sep s i = Some j \<Longrightarrow> i \<le> j \<and> j \<le> i + length s"
  by (induction sep s i rule: find_at.induct) (auto split: if_splits)

lemma find_at_begins: "find_at sep s i = Some j \<Longrightarrow> begins sep (drop (j - i) s)"
proof (induction sep s i rule: find_at.induct)
  case (2 sep c cs i)
  show ?case
  proof (cases "begins sep (c # cs)")
    case False
    with 2 have f: "find_at sep cs (Suc i) = Some j" by simp
    from find_at_ge [OF f] have "j - i = Suc (j - Suc i)" by arith
    with 2 False f show ?thesis by simp
  qed (use 2 in simp)
qed (auto simp: begins_def split: if_splits)

lemma begins_length: "begins p s \<Longrightarrow> length p \<le> length s"
  by (metis begins_def length_take min.absorb_iff2 min.commute)

lemma find_sep_bounds:
  assumes "find_sep tx sep start = Some i" and "start \<le> length tx"
  shows "start \<le> i" "i + length sep \<le> length tx" "begins sep (drop i tx)"
proof -
  have f: "find_at sep (drop start tx) start = Some i" using assms(1) by (simp add: find_sep_def)
  show ge: "start \<le> i" using find_at_ge [OF f] by simp
  with find_at_begins [OF f] show b: "begins sep (drop i tx)" by simp
  from begins_length [OF b] find_at_ge [OF f] assms(2) show "i + length sep \<le> length tx" by auto
qed

lemma find_sep_progress:
  "find_sep tx sep start = Some i \<Longrightarrow> start < length tx \<Longrightarrow> sep \<noteq> [] \<Longrightarrow> start < i + length sep"
  using find_sep_bounds(1) [of tx sep start i] by (cases sep) auto

function keep_loop :: "'a list \<Rightarrow> 'a list \<Rightarrow> nat \<Rightarrow> 'a list list" where
  "keep_loop tx sep start =
     (if start < length tx \<and> sep \<noteq> [] then
        (case find_sep tx sep start of
           None \<Rightarrow> [drop start tx]
         | Some 0 \<Rightarrow> keep_loop tx sep (length sep)
         | Some (Suc i) \<Rightarrow> py_slice start (Suc i + length sep) tx # keep_loop tx sep (Suc i + length sep))
      else [])"
  by pat_completeness auto

termination
  by (relation "measure (\<lambda>(tx, sep, start). length tx - start)")
     (auto dest: find_sep_progress)

declare keep_loop.simps [simp del]

definition split_text_keep_separator :: "'a list \<Rightarrow> 'a list \<Rightarrow> 'a list list" where
  "split_text_keep_separator tx sep =
     (if sep = [] then (if tx \<noteq> [] then [tx] else [])
      else if find_sep tx sep 0 = None then [tx]
      else keep_loop tx sep 0)"

text \<open>Behind the start, the loop loses nothing.\<close>

lemma concat_keep_loop:
  assumes "0 < start" and "sep \<noteq> []"
  shows "concat (keep_loop tx sep start) = drop start tx \<and> (\<forall>p \<in> set (keep_loop tx sep start). p \<noteq> [])"
  using assms
proof (induction tx sep start rule: keep_loop.induct)
  case (1 tx sep start)
  show ?case
  proof (cases "start < length tx")
    case True
    note c = conjI [OF True 1(4)]
    show ?thesis
    proof (cases "find_sep tx sep start")
      case None
      with True 1(4) show ?thesis by (simp add: keep_loop.simps [of tx sep start])
    next
      case (Some i)
      note b = find_sep_bounds [OF Some less_imp_le [OF True]]
      then obtain k where k: "i = Suc k" using 1(3) by (cases i) auto
      have IH: "concat (keep_loop tx sep (Suc k + length sep)) = drop (Suc k + length sep) tx \<and>
          (\<forall>p \<in> set (keep_loop tx sep (Suc k + length sep)). p \<noteq> [])"
        using 1(2) [OF c Some k] 1(4) by simp
      have "py_slice start (Suc k + length sep) tx @ drop (Suc k + length sep) tx = drop start tx"
      proof -
        have e: "Suc k + length sep = (Suc k + length sep - start) + start" using b(1) k by simp
        show ?thesis
          unfolding py_slice_def by (subst (2) e) (simp only: drop_drop [symmetric] append_take_drop_id)
      qed
      moreover have "py_slice start (Suc k + length sep) tx \<noteq> []"
        using b k True 1(4) by (cases sep) (auto simp: py_slice_def)
      ultimately show ?thesis
        using IH Some k True 1(4) by (simp add: keep_loop.simps [of tx sep start])
    qed
  qed (simp add: keep_loop.simps [of tx sep start])
qed

lemma find_sep_zero: "sep \<noteq> [] \<Longrightarrow> find_sep tx sep 0 = Some 0 \<longleftrightarrow> begins sep tx"
  by (cases tx) (auto simp: find_sep_def begins_def dest: find_at_ge)

lemma split_keep_content:
  "concat (split_text_keep_separator tx sep) = (if sep \<noteq> [] \<and> begins sep tx then drop (length sep) tx else tx) \<and>
   (tx \<noteq> [] \<longrightarrow> (\<forall>p \<in> set (split_text_keep_separator tx sep). p \<noteq> []))"
proof (cases "sep = [] \<or> find_sep tx sep 0 = None")
  case True
  moreover have "\<not> begins sep tx" if "sep \<noteq> []" "find_sep tx sep 0 = None"
    using that find_sep_zero [of sep tx] by auto
  ultimately show ?thesis by (auto simp: split_text_keep_separator_def)
next
  case False
  then obtain i where i: "find_sep tx sep 0 = Some i" and ne: "sep \<noteq> []" by auto
  note b = find_sep_bounds [OF i le0]
  have t: "0 < length tx" "0 < length sep" using b(2) ne by (cases sep; auto)+
  have d: "split_text_keep_separator tx sep = keep_loop tx sep 0"
    using i ne by (simp add: split_text_keep_separator_def)
  show ?thesis
  proof (cases i)
    case 0
    with i ne t have "keep_loop tx sep 0 = keep_loop tx sep (length sep)"
      by (simp add: keep_loop.simps [of tx sep 0])
    with d concat_keep_loop [OF t(2) ne, of tx] i 0 find_sep_zero [OF ne, of tx] show ?thesis by simp
  next
    case (Suc k)
    with i ne t have l: "keep_loop tx sep 0 = take (Suc k + length sep) tx # keep_loop tx sep (Suc k + length sep)"
      by (simp add: keep_loop.simps [of tx sep 0] py_slice_def)
    have "\<not> begins sep tx" using i Suc find_sep_zero [OF ne, of tx] by simp
    with d l concat_keep_loop [OF _ ne, of "Suc k + length sep" tx] t show ?thesis by simp
  qed
qed

text \<open>
  Splitting at a separator keeps the text: the pieces, each with its separator, join to the whole,
  except that a separator at the very start is lost.
\<close>

theorem split_keep_lossless:
  "concat (split_text_keep_separator tx sep) = (if sep \<noteq> [] \<and> begins sep tx then drop (length sep) tx else tx)"
  using split_keep_content by blast

text \<open>A text that starts with its separator.\<close>

lemma split_keep_example:
  "split_text_keep_separator [9, 1, 2, 9, 3 :: nat] [9] = [[1, 2, 9], [3]]"
  by (simp add: split_text_keep_separator_def keep_loop.simps find_sep_def begins_def py_slice_def)

section \<open>Recursive splitting\<close>

record split =
  sp_text :: utext
  sp_sentence :: bool
  sp_size :: nat

text \<open>
  \<open>re.findall(r'[^,.;S]+[,.;S]?', t)\<close> with the ideographic full stop, question and exclamation marks
  in both classes: runs without a stop, each with one stop behind it.
\<close>

definition is_stop :: "nat \<Rightarrow> bool" where
  "is_stop c \<longleftrightarrow> c \<in> {44, 46, 59, 12290, 65311, 65281}"

lemma after_run_shorter:
  assumes "dropWhile is_stop t \<noteq> []"
  shows "length (dropWhile (\<lambda>c. \<not> is_stop c) (dropWhile is_stop t)) < length t"
proof (cases "dropWhile is_stop t")
  case (Cons c cs)
  then have "\<not> is_stop c" using hd_dropWhile [of is_stop t] by simp
  then have "length (dropWhile (\<lambda>c. \<not> is_stop c) (c # cs)) \<le> length cs" by (simp add: length_dropWhile_le)
  moreover have "length (c # cs) \<le> length t" using Cons length_dropWhile_le [of is_stop t] by simp
  ultimately show ?thesis using Cons by simp
qed (use assms in simp)

function find_clauses :: "utext \<Rightarrow> utext list" where
  "find_clauses t =
     (let t1 = dropWhile is_stop t; run = takeWhile (\<lambda>c. \<not> is_stop c) t1;
          rest = dropWhile (\<lambda>c. \<not> is_stop c) t1
      in if t1 = [] then [] else (run @ take 1 rest) # find_clauses (drop 1 rest))"
  by pat_completeness auto

termination
  by (relation "measure length")
     (simp_all add: after_run_shorter less_imp_diff_less del: dropWhile_eq_Nil_conv)

declare find_clauses.simps [simp del]

definition paragraph_sep :: utext where "paragraph_sep = [10, 10, 10]"
definition space_sep :: utext where "space_sep = [32]"

definition get_splits_by_fns :: "(utext \<Rightarrow> utext list) \<Rightarrow> utext \<Rightarrow> utext list \<times> bool" where
  "get_splits_by_fns punkt t =
     (let p = split_text_keep_separator t paragraph_sep; q = punkt t;
          c = find_clauses t; w = split_text_keep_separator t space_sep
      in if 1 < length p then (p, True)
         else if 1 < length q then (q, True)
         else if 1 < length c then (c, False)
         else if 1 < length w then (w, False)
         else (map (\<lambda>x. [x]) t, False))"

fun concat_opt :: "'a list option list \<Rightarrow> 'a list option" where
  "concat_opt [] = Some []"
| "concat_opt (x # xs) =
     (case x of None \<Rightarrow> None | Some ys \<Rightarrow> (case concat_opt xs of None \<Rightarrow> None | Some zs \<Rightarrow> Some (ys @ zs)))"

text \<open>\<open>_split\<close>, with fuel for the recursion; \<open>None\<close> is a recursion that has not ended.\<close>

fun split_rec ::
    "nat \<Rightarrow> (utext \<Rightarrow> 't list) \<Rightarrow> (utext \<Rightarrow> utext list) \<Rightarrow> nat \<Rightarrow> utext \<Rightarrow> split list option" where
  "split_rec 0 enc punkt c t = None"
| "split_rec (Suc n) enc punkt c t =
     (if length (enc t) \<le> c then Some [\<lparr>sp_text = t, sp_sentence = True, sp_size = length (enc t)\<rparr>]
      else
        (let (segs, sent) = get_splits_by_fns punkt t
         in concat_opt (map (\<lambda>g. if length (enc g) \<le> c
                               then Some [\<lparr>sp_text = g, sp_sentence = sent, sp_size = length (enc g)\<rparr>]
                               else split_rec n enc punkt c g) segs)))"

section \<open>Merging with overlap\<close>

definition cut_split :: "(utext \<Rightarrow> 't list) \<Rightarrow> ('t list \<Rightarrow> utext) \<Rightarrow> split \<Rightarrow> split list" where
  "cut_split enc dec s =
     (let ts = enc (sp_text s); h = length ts div 2; p = dec (take h ts); n = dec (drop h ts)
      in [\<lparr>sp_text = p, sp_sentence = sp_sentence s, sp_size = length (enc p)\<rparr>,
          \<lparr>sp_text = n, sp_sentence = sp_sentence s, sp_size = length (enc n)\<rparr>])"

definition merge_step ::
    "(utext \<Rightarrow> 't list) \<Rightarrow> ('t list \<Rightarrow> utext) \<Rightarrow> nat \<Rightarrow> nat \<Rightarrow> split \<Rightarrow> split \<times> utext list \<Rightarrow> (split \<times> utext list) res" where
  "merge_step enc dec overlap c start st =
     (let (end_split, result) = st in
      if sp_size start \<le> overlap \<and> int (sp_size end_split) \<le> int c - int overlap then
        Inr (\<lparr>sp_text = sp_text start @ sp_text end_split,
              sp_sentence = sp_sentence start \<and> sp_sentence end_split,
              sp_size = sp_size start + sp_size end_split\<rparr>, result)
      else if sp_size end_split > c then Inl ValueError
      else
        (let ol = min overlap (min (c - sp_size end_split) (sp_size start));
             ts = enc (sp_text start);
             out = (if 0 < ol then dec (drop (length ts - ol) ts) @ sp_text end_split else sp_text end_split)
         in Inr (start, out # result)))"

definition merge :: "(utext \<Rightarrow> 't list) \<Rightarrow> ('t list \<Rightarrow> utext) \<Rightarrow> nat \<Rightarrow> nat \<Rightarrow> split list \<Rightarrow> utext list res" where
  "merge enc dec overlap c splits =
     (case splits of
        [] \<Rightarrow> Inr []
      | [s] \<Rightarrow> Inr [sp_text s]
      | _ \<Rightarrow>
          (let l = last splits;
               ss = (if sp_size l = c \<and> 0 < overlap then butlast splits @ cut_split enc dec l else splits)
           in rbind (rfold (merge_step enc dec overlap c) (rev (butlast ss)) (last ss, []))
                (\<lambda>(e, result). Inr (sp_text e # result))))"

definition split_text ::
    "nat \<Rightarrow> (utext \<Rightarrow> 't list) \<Rightarrow> ('t list \<Rightarrow> utext) \<Rightarrow> (utext \<Rightarrow> utext list) \<Rightarrow> nat \<Rightarrow> nat \<Rightarrow> nat \<Rightarrow> utext
     \<Rightarrow> utext list res option" where
  "split_text fuel enc dec punkt chunk_size overlap metadata_size t =
     (if t = [] then Some (Inr [[]])
      else if chunk_size \<le> metadata_size then Some (Inl ValueError)
      else (case split_rec fuel enc punkt (chunk_size - metadata_size) t of
              None \<Rightarrow> None
            | Some ss \<Rightarrow> Some (merge enc dec overlap (chunk_size - metadata_size) ss)))"

section \<open>Splitting ends\<close>

lemma pieces_shorter:
  assumes "\<forall>p \<in> set ps. p \<noteq> []" and "length (concat ps) \<le> n" and "1 < length ps" and "p \<in> set ps"
  shows "length p < n"
proof -
  obtain xs ys where ps: "ps = xs @ p # ys" using split_list [OF assms(4)] by blast
  with assms(3) obtain q where "q \<in> set (xs @ ys)" by (cases xs; cases ys) auto
  then have "q \<noteq> []" "length q \<le> length (concat (xs @ ys))"
    using assms(1) ps member_le_sum_list [of "length q" "map length (xs @ ys)"] by (auto simp: length_concat)
  then have "1 \<le> length (concat (xs @ ys))" by (cases q) auto
  moreover have "length p + length (concat (xs @ ys)) \<le> n" using assms(2) ps by simp
  ultimately show ?thesis by arith
qed

lemma find_clauses_pieces:
  "(\<forall>p \<in> set (find_clauses t). p \<noteq> []) \<and> length (concat (find_clauses t)) \<le> length t"
proof (induction t rule: find_clauses.induct)
  case (1 t)
  define t1 where "t1 = dropWhile is_stop t"
  define rest where "rest = dropWhile (\<lambda>c. \<not> is_stop c) t1"
  show ?case
  proof (cases "t1 = []")
    case True
    then show ?thesis by (simp add: find_clauses.simps [of t] Let_def t1_def)
  next
    case False
    have IH: "\<forall>p \<in> set (find_clauses (drop 1 rest)). p \<noteq> []"
      "length (concat (find_clauses (drop 1 rest))) \<le> length (drop 1 rest)"
      using 1 [OF t1_def refl rest_def False] by auto
    have e: "find_clauses t = (takeWhile (\<lambda>c. \<not> is_stop c) t1 @ take 1 rest) # find_clauses (drop 1 rest)"
      using False by (simp add: find_clauses.simps [of t] Let_def t1_def rest_def)
    have "\<not> is_stop (hd t1)" using False hd_dropWhile [of is_stop t] by (simp add: t1_def)
    then have "takeWhile (\<lambda>c. \<not> is_stop c) t1 \<noteq> []" using False by (cases t1) auto
    moreover have "length (takeWhile (\<lambda>c. \<not> is_stop c) t1) + length rest = length t1"
      by (metis length_append rest_def takeWhile_dropWhile_id)
    moreover have "length t1 \<le> length t" by (simp add: t1_def length_dropWhile_le)
    ultimately show ?thesis using IH unfolding e by auto
  qed
qed

definition punkt_shortens :: "(utext \<Rightarrow> utext list) \<Rightarrow> bool" where
  "punkt_shortens punkt \<longleftrightarrow> (\<forall>t. 1 < length (punkt t) \<longrightarrow> (\<forall>p \<in> set (punkt t). length p < length t))"

lemma splits_shorter:
  assumes "punkt_shortens punkt" and "1 < length t" and "get_splits_by_fns punkt t = (segs, sent)" and "g \<in> set segs"
  shows "length g < length t"
proof -
  have keep: "length g < length t" if "1 < length (split_text_keep_separator t sep)" "g \<in> set (split_text_keep_separator t sep)" for sep
  proof (rule pieces_shorter [OF _ _ that])
    show "\<forall>p \<in> set (split_text_keep_separator t sep). p \<noteq> []"
      "length (concat (split_text_keep_separator t sep)) \<le> length t"
      using split_keep_content [of t sep] assms(2) by (auto split: if_splits)
  qed
  have "length g < length t" if "1 < length (find_clauses t)" "g \<in> set (find_clauses t)"
    using pieces_shorter [OF _ _ that, of "length t"] find_clauses_pieces [of t] by blast
  with keep assms show ?thesis
    by (auto simp: get_splits_by_fns_def Let_def punkt_shortens_def split: if_splits)
qed

lemma concat_opt_total: "(\<And>x. x \<in> set xs \<Longrightarrow> x \<noteq> None) \<Longrightarrow> concat_opt xs \<noteq> None"
  by (induction xs) (fastforce split: option.splits)+

lemma split_rec_total:
  assumes "punkt_shortens punkt" and "\<And>t. length t \<le> 1 \<Longrightarrow> length (enc t) \<le> c"
  shows "length t < fuel \<Longrightarrow> split_rec fuel enc punkt c t \<noteq> None"
proof (induction fuel arbitrary: t)
  case (Suc n)
  show ?case
  proof (cases "length (enc t) \<le> c")
    case False
    then have l: "1 < length t" using assms(2) by (meson linorder_not_le)
    obtain segs sent where g: "get_splits_by_fns punkt t = (segs, sent)" by fastforce
    have "\<exists>y. split_rec n enc punkt c g = Some y" if "g \<in> set segs" for g
      using Suc splits_shorter [OF assms(1) l g that] by auto
    then show ?thesis using False g
      by (auto intro!: concat_opt_total split: if_splits simp del: not_None_eq)
  qed simp
qed simp

lemma concat_opt_member:
  "concat_opt xs = Some ys \<Longrightarrow> y \<in> set ys \<Longrightarrow> \<exists>zs. Some zs \<in> set xs \<and> y \<in> set zs"
  by (induction xs arbitrary: ys) (fastforce split: option.splits)+

definition split_fits :: "(utext \<Rightarrow> 't list) \<Rightarrow> nat \<Rightarrow> split \<Rightarrow> bool" where
  "split_fits enc c s \<longleftrightarrow> sp_size s = length (enc (sp_text s)) \<and> sp_size s \<le> c"

lemma split_rec_fits: "split_rec fuel enc punkt c t = Some ss \<Longrightarrow> s \<in> set ss \<Longrightarrow> split_fits enc c s"
proof (induction fuel arbitrary: t ss)
  case (Suc n)
  show ?case
  proof (cases "length (enc t) \<le> c")
    case False
    obtain segs sent where g: "get_splits_by_fns punkt t = (segs, sent)" by fastforce
    with False Suc.prems(1) have "concat_opt (map (\<lambda>g. if length (enc g) \<le> c
        then Some [\<lparr>sp_text = g, sp_sentence = sent, sp_size = length (enc g)\<rparr>]
        else split_rec n enc punkt c g) segs) = Some ss" by simp
    from concat_opt_member [OF this Suc.prems(2)] show ?thesis
      using Suc.IH [OF sym] by (fastforce simp: split_fits_def split: if_splits)
  qed (use Suc.prems in \<open>auto simp: split_fits_def\<close>)
qed simp

section \<open>Chunks fit\<close>

text \<open>
  Nothing is assumed of the tokens here: what a byte pair encoding counts for a text need not be the sum of what it counts for the
  parts, and to encode what was decoded may give other tokens. A chunk is made of tokens of overlap, decoded, if there is one, and
  a group of splits.
\<close>

definition ov_text :: "('t list \<Rightarrow> utext) \<Rightarrow> 't list option \<Rightarrow> utext" where
  "ov_text dec ov = (case ov of None \<Rightarrow> [] | Some ts \<Rightarrow> dec ts)"

definition ov_size :: "'t list option \<Rightarrow> nat" where
  "ov_size ov = (case ov of None \<Rightarrow> 0 | Some ts \<Rightarrow> length ts)"

definition chunk_ok :: "('t list \<Rightarrow> utext) \<Rightarrow> nat \<Rightarrow> nat \<Rightarrow> utext \<Rightarrow> 't list option \<times> split list \<Rightarrow> bool" where
  "chunk_ok dec overlap c k og \<longleftrightarrow> k = ov_text dec (fst og) @ concat (map sp_text (snd og)) \<and>
     ov_size (fst og) \<le> overlap \<and> ov_size (fst og) + sum_list (map sp_size (snd og)) \<le> c"

text \<open>The open chunk is a group, and the chunks behind it are groups with their overlap.\<close>

definition merging ::
    "('t list \<Rightarrow> utext) \<Rightarrow> nat \<Rightarrow> nat \<Rightarrow> split \<times> utext list \<Rightarrow> split list \<Rightarrow> ('t list option \<times> split list) list \<Rightarrow> bool" where
  "merging dec overlap c st g gs \<longleftrightarrow>
     sp_text (fst st) = concat (map sp_text g) \<and> sp_size (fst st) = sum_list (map sp_size g) \<and>
     list_all2 (chunk_ok dec overlap c) (snd st) gs"

lemma merge_step_groups:
  assumes "merge_step enc dec overlap c start st = Inr st'" and "merging dec overlap c st g gs" and "overlap \<le> c"
  shows "\<exists>g' gs'. merging dec overlap c st' g' gs' \<and> g' @ concat (map snd gs') = start # g @ concat (map snd gs) \<and>
    (sp_size start \<le> c \<longrightarrow> sp_size (fst st') \<le> c)"
proof (cases "sp_size start \<le> overlap \<and> int (sp_size (fst st)) \<le> int c - int overlap")
  case True
  then have "st' = (\<lparr>sp_text = sp_text start @ sp_text (fst st), sp_sentence = sp_sentence start \<and> sp_sentence (fst st),
      sp_size = sp_size start + sp_size (fst st)\<rparr>, snd st)"
    using assms(1) by (cases st) (simp add: merge_step_def)
  moreover have "sp_size start + sp_size (fst st) \<le> c" using True assms(3) by arith
  ultimately show ?thesis using assms(2)
    by (intro exI [of _ "start # g"] exI [of _ gs]) (simp add: merging_def)
next
  case False
  define ts where "ts = enc (sp_text start)"
  define ol where "ol = min overlap (min (c - sp_size (fst st)) (sp_size start))"
  define ov where "ov = (if 0 < ol then Some (drop (length ts - ol) ts) else None)"
  have fits: "sp_size (fst st) \<le> c" and st': "st' = (start, (ov_text dec ov @ sp_text (fst st)) # snd st)"
    using False assms(1)
    by (auto simp: merge_step_def Let_def ts_def ol_def ov_def ov_text_def split: prod.splits if_splits)
  have "ov_size ov \<le> ol" by (simp add: ov_def ov_size_def) arith
  then have "ov_size ov \<le> overlap \<and> ov_size ov + sp_size (fst st) \<le> c" using fits by (simp add: ol_def) arith
  then have "chunk_ok dec overlap c (ov_text dec ov @ sp_text (fst st)) (ov, g)"
    using assms(2) by (simp add: chunk_ok_def merging_def)
  then show ?thesis using assms(2) st'
    by (intro exI [of _ "[start]"] exI [of _ "(ov, g) # gs"]) (simp add: merging_def)
qed

lemma merge_step_error: "merge_step enc dec overlap c start st = Inl e \<Longrightarrow> e = ValueError \<and> c < sp_size (fst st)"
  by (auto simp: merge_step_def Let_def split: prod.splits if_splits)

lemma merge_fold_groups:
  assumes "overlap \<le> c"
  shows "merging dec overlap c st g gs \<Longrightarrow>
    case rfold (merge_step enc dec overlap c) ss st of
      Inl e \<Rightarrow> e = ValueError \<and> (c < sp_size (fst st) \<or> (\<exists>s \<in> set ss. c < sp_size s))
    | Inr st' \<Rightarrow> \<exists>g' gs'. merging dec overlap c st' g' gs' \<and> g' @ concat (map snd gs') = rev ss @ g @ concat (map snd gs) \<and>
        (sp_size (if ss = [] then fst st else last ss) \<le> c \<longrightarrow> sp_size (fst st') \<le> c)"
proof (induction ss arbitrary: st g gs)
  case Nil
  then show ?case by auto
next
  case (Cons s ss)
  show ?case
  proof (cases "merge_step enc dec overlap c s st")
    case (Inl e)
    then show ?thesis using merge_step_error [OF Inl] by simp
  next
    case (Inr st1)
    obtain g1 gs1 where m: "merging dec overlap c st1 g1 gs1" "g1 @ concat (map snd gs1) = s # g @ concat (map snd gs)"
      "sp_size s \<le> c \<longrightarrow> sp_size (fst st1) \<le> c"
      using merge_step_groups [OF Inr Cons.prems assms] by blast
    show ?thesis
    proof (cases "rfold (merge_step enc dec overlap c) ss st1")
      case (Inl e)
      then have "e = ValueError \<and> (c < sp_size (fst st1) \<or> (\<exists>s \<in> set ss. c < sp_size s))"
        using Cons.IH [OF m(1)] by simp
      then show ?thesis using Inr Inl m(3) by (auto simp: not_le [symmetric])
    next
      case r: (Inr st')
      then obtain g' gs' where "merging dec overlap c st' g' gs'" "g' @ concat (map snd gs') = rev ss @ g1 @ concat (map snd gs1)"
        "sp_size (if ss = [] then fst st1 else last ss) \<le> c \<longrightarrow> sp_size (fst st') \<le> c"
        using Cons.IH [OF m(1)] by auto
      then show ?thesis using Inr r m(2,3) by (auto split: if_splits)
    qed
  qed
qed

text \<open>The splits as they are merged: a last one that fills a chunk is cut in two, so that a part of it can be repeated.\<close>

definition merged_splits :: "(utext \<Rightarrow> 't list) \<Rightarrow> ('t list \<Rightarrow> utext) \<Rightarrow> nat \<Rightarrow> nat \<Rightarrow> split list \<Rightarrow> split list" where
  "merged_splits enc dec overlap c ss =
     (if 1 < length ss \<and> sp_size (last ss) = c \<and> 0 < overlap then butlast ss @ cut_split enc dec (last ss) else ss)"

lemma merge_groups:
  assumes "overlap \<le> c" and "\<forall>s \<in> set ss. sp_size s \<le> c"
  shows "case merge enc dec overlap c ss of
      Inl e \<Rightarrow> e = ValueError \<and> 1 < length ss \<and> 0 < overlap \<and> sp_size (last ss) = c \<and>
        (\<exists>s \<in> set (cut_split enc dec (last ss)). c < sp_size s)
    | Inr ks \<Rightarrow> \<exists>gs. list_all2 (chunk_ok dec overlap c) ks gs \<and> concat (map snd gs) = merged_splits enc dec overlap c ss"
proof (cases "length ss \<le> 1")
  case True
  then consider "ss = []" | s where "ss = [s]" by (cases ss; cases "tl ss") auto
  then show ?thesis
  proof cases
    case 1
    then show ?thesis by (simp add: merge_def merged_splits_def)
  next
    case 2
    then have "chunk_ok dec overlap c (sp_text s) (None, [s])" using assms(2) by (simp add: chunk_ok_def ov_text_def ov_size_def)
    then show ?thesis using 2 by (auto simp: merge_def merged_splits_def intro!: exI [of _ "[(None, [s])]"])
  qed
next
  case False
  define xs where "xs = merged_splits enc dec overlap c ss"
  obtain a b rest where ss: "ss = a # b # rest" using False by (cases ss; cases "tl ss") auto
  have m: "merge enc dec overlap c ss = rbind (rfold (merge_step enc dec overlap c) (rev (butlast xs)) (last xs, []))
      (\<lambda>(e, result). Inr (sp_text e # result))"
    unfolding xs_def merged_splits_def merge_def by (simp only: ss list.case Let_def) simp
  have xs: "xs \<noteq> []" "hd xs = a" "butlast xs \<noteq> []" "hd (butlast xs) = a"
    by (auto simp: xs_def merged_splits_def ss cut_split_def Let_def butlast_append)
  have size: "sp_size a \<le> c" using assms(2) ss by simp
  have st: "merging dec overlap c (last xs, []) [last xs] []" by (simp add: merging_def)
  note f = merge_fold_groups [OF assms(1) st, where enc = enc and ss = "rev (butlast xs)"]
  show ?thesis
  proof (cases "rfold (merge_step enc dec overlap c) (rev (butlast xs)) (last xs, [])")
    case (Inl e)
    then have "e = ValueError" "\<exists>s \<in> insert (last xs) (set (butlast xs)). c < sp_size s" using f by auto
    moreover have "insert (last xs) (set (butlast xs)) = set xs" using xs(1) by (metis append_butlast_last_id list.set(2) rotate1.simps(2) set_rotate1 list.simps(15) Un_insert_right set_append sup_bot.right_neutral list.set(1))
    ultimately obtain s where s: "s \<in> set xs" "c < sp_size s" by auto
    then have "s \<notin> set ss" using assms(2) by (auto simp: not_less [symmetric])
    then have "1 < length ss \<and> sp_size (last ss) = c \<and> 0 < overlap \<and> s \<in> set (cut_split enc dec (last ss))"
      using s(1) by (auto simp: xs_def merged_splits_def dest: in_set_butlastD split: if_splits)
    then show ?thesis using m Inl \<open>e = ValueError\<close> s(2) by auto
  next
    case (Inr st')
    then obtain g' gs' where g: "merging dec overlap c st' g' gs'" "g' @ concat (map snd gs') = butlast xs @ [last xs]"
      "sp_size (fst st') \<le> c"
      using f size xs by (auto simp: last_rev)
    then have "chunk_ok dec overlap c (sp_text (fst st')) (None, g')"
      by (simp add: chunk_ok_def merging_def ov_text_def ov_size_def)
    then have "list_all2 (chunk_ok dec overlap c) (sp_text (fst st') # snd st') ((None, g') # gs')"
      using g(1) by (simp add: merging_def)
    moreover have "concat (map snd ((None, g') # gs')) = xs" using g(2) xs(1) by simp
    ultimately show ?thesis using m Inr unfolding xs_def by (auto split: prod.splits)
  qed
qed

text \<open>
  C39. For any tokenizer, and a sentence tokenizer whose pieces are shorter than their text, splitting a text ends, if a single
  character fits in what the metadata leaves of the chunk size. The splits have at most that many tokens each, and the chunks
  are these splits, each in one chunk and in order, in groups whose tokens add up, with those of the overlap in front of the
  group, to at most that size; the overlap is never longer than it should be. The one error is a \<open>ValueError\<close>: the last
  split filled a chunk, and a half of its tokens, decoded and encoded again, is too long.
\<close>

theorem split_text_fits:
  assumes "punkt_shortens punkt" and "c = chunk_size - metadata_size" and "\<And>x. length x \<le> 1 \<Longrightarrow> length (enc x) \<le> c"
    and "metadata_size < chunk_size" and "overlap \<le> c" and "length t < fuel" and "t \<noteq> []"
  shows "\<exists>ss. split_rec fuel enc punkt c t = Some ss \<and> (\<forall>s \<in> set ss. sp_size s = length (enc (sp_text s)) \<and> sp_size s \<le> c) \<and>
    (case split_text fuel enc dec punkt chunk_size overlap metadata_size t of
       None \<Rightarrow> False
     | Some (Inl e) \<Rightarrow> e = ValueError \<and> 1 < length ss \<and> 0 < overlap \<and> sp_size (last ss) = c \<and>
         (\<exists>s \<in> set (cut_split enc dec (last ss)). c < sp_size s)
     | Some (Inr chunks) \<Rightarrow>
         \<exists>gs. list_all2 (chunk_ok dec overlap c) chunks gs \<and> concat (map snd gs) = merged_splits enc dec overlap c ss)"
proof -
  obtain ss where ss: "split_rec fuel enc punkt c t = Some ss"
    using split_rec_total [OF assms(1) _ assms(6), of enc c] assms(3) by blast
  then have f: "\<forall>s \<in> set ss. split_fits enc c s" by (blast intro: split_rec_fits)
  have "split_text fuel enc dec punkt chunk_size overlap metadata_size t = Some (merge enc dec overlap c ss)"
    using ss assms(2,4,7) by (simp add: split_text_def)
  moreover have "case merge enc dec overlap c ss of
      Inl e \<Rightarrow> e = ValueError \<and> 1 < length ss \<and> 0 < overlap \<and> sp_size (last ss) = c \<and>
        (\<exists>s \<in> set (cut_split enc dec (last ss)). c < sp_size s)
    | Inr ks \<Rightarrow> \<exists>gs. list_all2 (chunk_ok dec overlap c) ks gs \<and> concat (map snd gs) = merged_splits enc dec overlap c ss"
    by (rule merge_groups [OF assms(5)]) (use f in \<open>unfold split_fits_def, blast\<close>)
  moreover have "\<forall>s \<in> set ss. sp_size s = length (enc (sp_text s)) \<and> sp_size s \<le> c"
    using f unfolding split_fits_def by blast
  ultimately show ?thesis using ss by (cases "merge enc dec overlap c ss") auto
qed

text \<open>A tokenizer that joins two equal characters into one token: no homomorphism.\<close>

fun pair_enc :: "utext \<Rightarrow> utext list" where
  "pair_enc (a # b # cs) = (if a = b then [a, b] # pair_enc cs else [a] # pair_enc (b # cs))"
| "pair_enc [a] = [[a]]"
| "pair_enc [] = []"

lemma pair_enc_small: "length x \<le> 1 \<Longrightarrow> length (pair_enc x) \<le> 1"
  by (cases x; cases "tl x") auto

lemma demo_segs: "get_splits_by_fns (\<lambda>t. [t]) [7, 7, 32, 8] = ([[7, 7, 32], [8]], False)"
  by (simp add: get_splits_by_fns_def Let_def paragraph_sep_def space_sep_def split_text_keep_separator_def
      keep_loop.simps find_sep_def begins_def py_slice_def find_clauses.simps is_stop_def)

lemma demo_rec:
  "split_rec (Suc n) pair_enc (\<lambda>t. [t]) 2 [7, 7, 32, 8] =
     Some [\<lparr>sp_text = [7, 7, 32], sp_sentence = False, sp_size = 2\<rparr>, \<lparr>sp_text = [8], sp_sentence = False, sp_size = 1\<rparr>]"
  by (simp add: demo_segs)

lemma demo_split: "split_text 5 pair_enc concat (\<lambda>t. [t]) 3 1 1 [7, 7, 32, 8] = Some (Inr [[7, 7, 32], [32, 8]])"
  using demo_rec [of 4] by (simp add: split_text_def merge_def merge_step_def)

theorem split_text_fits_witness:
  "\<exists>ss gs. split_rec 5 pair_enc (\<lambda>t. [t]) 2 [7, 7, 32, 8] = Some ss \<and>
     list_all2 (chunk_ok concat 1 2) [[7, 7, 32], [32, 8]] gs \<and> concat (map snd gs) = merged_splits pair_enc concat 1 2 ss"
proof -
  have "\<exists>ss. split_rec 5 pair_enc (\<lambda>t. [t]) 2 [7, 7, 32, 8] = Some ss \<and>
      (\<forall>s \<in> set ss. sp_size s = length (pair_enc (sp_text s)) \<and> sp_size s \<le> 2) \<and>
      (case split_text 5 pair_enc concat (\<lambda>t. [t]) 3 1 1 [7, 7, 32, 8] of
         None \<Rightarrow> False
       | Some (Inl e) \<Rightarrow> e = ValueError \<and> 1 < length ss \<and> 0 < (1::nat) \<and> sp_size (last ss) = 2 \<and>
           (\<exists>s \<in> set (cut_split pair_enc concat (last ss)). 2 < sp_size s)
       | Some (Inr chunks) \<Rightarrow>
           \<exists>gs. list_all2 (chunk_ok concat 1 2) chunks gs \<and> concat (map snd gs) = merged_splits pair_enc concat 1 2 ss)"
    by (rule split_text_fits) (use pair_enc_small in \<open>fastforce simp: punkt_shortens_def\<close>)+
  then show ?thesis unfolding demo_split by auto
qed

text \<open>With a tokenizer that works character by character a chunk then has at most as many tokens as the chunk size.\<close>

lemma chunk_ok_tokens:
  assumes "chunk_ok dec overlap c k (ov, g)" and "\<And>a b. enc (a @ b) = enc a @ enc b" and "\<And>ts. enc (dec ts) = ts"
    and "\<forall>s \<in> set g. sp_size s = length (enc (sp_text s))"
  shows "length (enc k) \<le> c"
proof -
  have "enc [] = []" using assms(2) [of "[]" "[]"] by simp
  then have "enc (concat xs) = concat (map enc xs)" for xs by (induction xs) (simp_all add: assms(2))
  then have "length (enc (concat (map sp_text g))) = sum_list (map sp_size g)"
    using assms(4) by (simp add: length_concat comp_def cong: map_cong)
  moreover have "length (enc (ov_text dec ov)) = ov_size ov"
    using \<open>enc [] = []\<close> by (simp add: ov_text_def ov_size_def assms(3) split: option.split)
  ultimately show ?thesis using assms(1,2) by (simp add: chunk_ok_def)
qed

text \<open>Without overlap, the merged chunks join to the splits: nothing is lost and nothing is repeated.\<close>

lemma merge_fold_joins:
  assumes "rfold (merge_step enc dec 0 c) (rev ss) (e, result) = Inr (e', result')"
  shows "sp_text e' @ concat result' = concat (map sp_text ss) @ sp_text e @ concat result"
  using assms
proof (induction ss arbitrary: e result rule: rev_induct)
  case (snoc s ss)
  then obtain f r where st: "merge_step enc dec 0 c s (e, result) = Inr (f, r)"
    and rest: "rfold (merge_step enc dec 0 c) (rev ss) (f, r) = Inr (e', result')"
    by (auto simp: rbind_eq_Inr)
  from st have "sp_text f @ concat r = sp_text s @ sp_text e @ concat result"
    by (auto simp: merge_step_def Let_def split: if_splits)
  with snoc.IH [OF rest] show ?case by simp
qed simp

lemma merge_joins:
  assumes "merge enc dec 0 c ss = Inr ks"
  shows "concat ks = concat (map sp_text ss)"
proof (cases "length ss \<le> 1")
  case True
  then show ?thesis using assms by (cases ss; cases "tl ss") (auto simp: merge_def)
next
  case False
  then obtain a b rest where ss: "ss = a # b # rest" by (cases ss; cases "tl ss") auto
  with assms obtain e r where "rfold (merge_step enc dec 0 c) (rev (butlast ss)) (last ss, []) = Inr (e, r)"
    "ks = sp_text e # r" by (auto simp: merge_def rbind_eq_Inr simp del: rev.simps rfold.simps split: if_splits)
  with merge_fold_joins [OF this(1)] have "concat ks = concat (map sp_text (butlast ss @ [last ss]))" by simp
  then show ?thesis using ss by (simp del: butlast.simps last.simps)
qed

text \<open>The clause splitter drops every stop behind the first of a run, and the ones a text starts with.\<close>

lemma find_clauses_drops_stops: "find_clauses [46, 97, 46, 46, 46, 98] = [[97, 46], [98]]"
  by (simp add: find_clauses.simps is_stop_def Let_def)

end
