(* ===== verification/TokenWindow.thy ===== *)
theory TokenWindow
  imports TextSplit
begin

text \<open>
  The sliding window of \<open>_TokenTextSplitter\<close> in \<open>lazyllm/tools/rag/transform/base.py\<close>. Positions
  are integers: where the overlap exceeds the window, the next start lies before the current one and
  can be negative, and Python counts a negative slice bound from the end.
\<close>

definition slice_bound :: "nat \<Rightarrow> int \<Rightarrow> nat" where
  "slice_bound n i = (if i < 0 then nat (i + int n) else min n (nat i))"

definition py_slice_int :: "int \<Rightarrow> int \<Rightarrow> 'a list \<Rightarrow> 'a list" where
  "py_slice_int a b xs = py_slice (slice_bound (length xs) a) (slice_bound (length xs) b) xs"

text \<open>The loop of \<open>_split\<close>; \<open>None\<close> is a loop that is still running when its fuel is spent.\<close>

fun window_loop :: "nat \<Rightarrow> 't list \<Rightarrow> int \<Rightarrow> int \<Rightarrow> int \<Rightarrow> int \<Rightarrow> 't list list option" where
  "window_loop 0 ts c overlap start stop = None"
| "window_loop (Suc n) ts c overlap start stop =
     (if start < int (length ts) then
        (let chunk = py_slice_int start stop ts in
         if stop \<ge> int (length ts) then Some [chunk]
         else
           (let start' = min (start + c - overlap) (int (length ts));
                stop' = min (start' + c) (int (length ts))
            in map_option ((#) chunk) (window_loop n ts c overlap start' stop')))
      else Some [])"

definition token_split ::
    "nat \<Rightarrow> (utext \<Rightarrow> 't list) \<Rightarrow> ('t list \<Rightarrow> utext) \<Rightarrow> nat \<Rightarrow> utext \<Rightarrow> nat \<Rightarrow> split list option" where
  "token_split fuel enc dec overlap t c =
     (if length (enc t) \<le> c then Some [\<lparr>sp_text = t, sp_sentence = True, sp_size = length (enc t)\<rparr>]
      else
        (let ts = enc t
         in map_option (map (\<lambda>w. \<lparr>sp_text = dec w, sp_sentence = True, sp_size = length w\<rparr>))
              (window_loop fuel ts (int c) (int overlap) 0 (min (int c) (int (length ts))))))"

definition token_merge :: "split list \<Rightarrow> utext list" where
  "token_merge ss = map sp_text ss"

definition token_split_text ::
    "nat \<Rightarrow> (utext \<Rightarrow> 't list) \<Rightarrow> ('t list \<Rightarrow> utext) \<Rightarrow> nat \<Rightarrow> nat \<Rightarrow> nat \<Rightarrow> utext \<Rightarrow> utext list res option" where
  "token_split_text fuel enc dec chunk_size overlap metadata_size t =
     (if t = [] then Some (Inr [[]])
      else if chunk_size \<le> metadata_size then Some (Inl ValueError)
      else map_option (\<lambda>ss. Inr (token_merge ss)) (token_split fuel enc dec overlap t (chunk_size - metadata_size)))"

section \<open>Windows with an overlap below their size\<close>

definition window_join :: "nat \<Rightarrow> 't list list \<Rightarrow> 't list" where
  "window_join overlap ws = (case ws of [] \<Rightarrow> [] | w # ws' \<Rightarrow> w @ concat (map (drop overlap) ws'))"

lemma py_slice_int_nat [simp]: "py_slice_int (int a) (int b) xs = py_slice (min (length xs) a) (min (length xs) b) xs"
  by (simp add: py_slice_int_def slice_bound_def)

lemma window_loop_joins:
  assumes "overlap < c"
  shows "start < length ts \<Longrightarrow> length ts - start < fuel \<Longrightarrow>
    \<exists>w ws. window_loop fuel ts (int c) (int overlap) (int start) (int (min (start + c) (length ts))) = Some (w # ws) \<and>
      w @ concat (map (drop overlap) ws) = drop start ts \<and> (ws \<noteq> [] \<longrightarrow> length w = c) \<and> (\<forall>x \<in> set (w # ws). x \<noteq> [] \<and> length x \<le> c)"
proof (induction fuel arbitrary: start)
  case (Suc n)
  show ?case
  proof (cases "length ts \<le> start + c")
    case True
    with Suc.prems(1) assms show ?thesis
      by (simp add: Let_def py_slice_def min_def)
  next
    case False
    define s where "s = start + (c - overlap)"
    have s: "s < length ts" "length ts - s < n" "start + c = s + overlap"
      using False Suc.prems assms by (auto simp: s_def)
    from Suc.IH [OF s(1,2)] obtain w ws where
      IH: "window_loop n ts (int c) (int overlap) (int s) (int (min (s + c) (length ts))) = Some (w # ws)"
        "w @ concat (map (drop overlap) ws) = drop s ts" "ws \<noteq> [] \<longrightarrow> length w = c" "\<forall>x \<in> set (w # ws). x \<noteq> [] \<and> length x \<le> c" by blast
    have st: "int start + int c - int overlap = int s" using assms by (simp add: s_def)
    have e: "min (int start + int c - int overlap) (int (length ts)) = int s"
      unfolding st using s(1) by simp
    have e2: "min (int s + int c) (int (length ts)) = int (min (s + c) (length ts))" by simp
    have e3: "min (start + c) (length ts) = start + c" using False by simp
    define chunk where "chunk = take c (drop start ts)"
    have cut: "py_slice_int (int start) (int (start + c)) ts = chunk"
      using False by (simp add: chunk_def py_slice_def del: of_nat_add)
    have loop: "window_loop (Suc n) ts (int c) (int overlap) (int start) (int (min (start + c) (length ts)))
        = Some (chunk # w # ws)"
      using False Suc.prems(1) IH(1) by (simp only: window_loop.simps e e2 e3 cut Let_def) simp
    have l: "length chunk = c" using False by (simp add: chunk_def)
    have "overlap \<le> length w"
    proof (cases "ws = []")
      case True
      with IH(2) have "length w = length ts - s" by simp
      with False s(3) show ?thesis by simp
    qed (use IH(3) assms in simp)
    then have "drop overlap w @ concat (map (drop overlap) ws) = drop overlap (w @ concat (map (drop overlap) ws))"
      by simp
    also have "\<dots> = drop (start + c) ts" by (simp only: IH(2) drop_drop s(3) add.commute [of overlap])
    finally have rest: "concat (map (drop overlap) (w # ws)) = drop (start + c) ts" by simp
    have "chunk @ drop (start + c) ts = drop start ts"
      unfolding chunk_def by (metis append_take_drop_id drop_drop add.commute)
    with rest loop l IH(4) assms show ?thesis by (intro exI [of _ chunk] exI [of _ "w # ws"]) auto
  qed
qed simp

text \<open>
  While the overlap stays below the window, the windows over a long text are non-empty, none is
  longer than the window, and dropping the overlap from every window but the first joins them to the
  token sequence: every token is covered, in order, and neighbours share exactly the overlap.
\<close>

theorem token_windows_cover:
  assumes "overlap < c" and "c < length (enc t)" and "length (enc t) < fuel"
  shows "\<exists>ws. token_split fuel enc dec overlap t c =
      Some (map (\<lambda>w. \<lparr>sp_text = dec w, sp_sentence = True, sp_size = length w\<rparr>) ws) \<and>
    window_join overlap ws = enc t \<and> (\<forall>w \<in> set ws. w \<noteq> [] \<and> length w \<le> c)"
proof -
  from assms have "0 < length (enc t)" "length (enc t) - 0 < fuel" by linarith+
  from window_loop_joins [OF assms(1) this] obtain w ws where
    "window_loop fuel (enc t) (int c) (int overlap) 0 (int (min c (length (enc t)))) = Some (w # ws)"
    "w @ concat (map (drop overlap) ws) = enc t" "\<forall>x \<in> set (w # ws). x \<noteq> [] \<and> length x \<le> c" by auto
  with assms(2) show ?thesis
    by (intro exI [of _ "w # ws"]) (simp add: token_split_def window_join_def Let_def)
qed

theorem token_windows_cover_witness:
  "\<exists>ws. token_split 9 id id 1 [1, 2, 3, 4, 5, 6] 3 =
      Some (map (\<lambda>w. \<lparr>sp_text = w, sp_sentence = True, sp_size = length w\<rparr>) ws) \<and>
    window_join 1 ws = [1, 2, 3, 4, 5, 6 :: nat] \<and> (\<forall>w \<in> set ws. w \<noteq> [] \<and> length w \<le> 3)"
  using token_windows_cover [of 1 3 id "[1, 2, 3, 4, 5, 6]" 9 id] by simp

section \<open>An overlap that is not below the window\<close>

lemma window_loop_stuck:
  assumes "c \<le> overlap" and "0 \<le> c" and "c < int (length ts)"
  shows "start \<le> 0 \<Longrightarrow> stop \<le> c \<Longrightarrow> window_loop fuel ts c overlap start stop = None"
proof (induction fuel arbitrary: start stop)
  case (Suc n)
  have "min (start + c - overlap) (int (length ts)) \<le> 0" using Suc.prems assms by simp
  moreover from this have "min (min (start + c - overlap) (int (length ts)) + c) (int (length ts)) \<le> c" by simp
  ultimately have "window_loop n ts c overlap (min (start + c - overlap) (int (length ts)))
      (min (min (start + c - overlap) (int (length ts)) + c) (int (length ts))) = None"
    by (rule Suc.IH)
  with Suc.prems assms show ?case by (simp add: Let_def)
qed simp

text \<open>
  The constructor compares the overlap with the chunk size, but the window is what the metadata
  leaves of it: where the overlap reaches the window, splitting a text longer than the window never
  returns, however many rounds it is given.
\<close>

theorem token_split_never_returns:
  assumes "metadata_size < chunk_size" and "chunk_size - metadata_size \<le> overlap"
    and "chunk_size - metadata_size < length (enc t)" and "t \<noteq> []"
  shows "token_split_text fuel enc dec chunk_size overlap metadata_size t = None"
proof -
  let ?c = "chunk_size - metadata_size"
  have "window_loop fuel (enc t) (int ?c) (int overlap) 0 (min (int ?c) (int (length (enc t)))) = None"
    using assms(2,3) by (intro window_loop_stuck) simp_all
  then show ?thesis using assms(1,3,4) by (simp add: token_split_text_def token_split_def Let_def)
qed

text \<open>The default sizes, 1024 and 200, with 900 tokens of metadata and 130 of text.\<close>

theorem token_split_never_returns_witness:
  "\<forall>fuel. token_split_text fuel id id 1024 200 900 (replicate 130 7) = None"
  using token_split_never_returns [of 900 1024 200 id "replicate 130 7" _ id] by simp

end
