(* ===== verification/RuleSets.thy ===== *)
theory RuleSets
  imports Prelude "HOL-Library.Product_Lexorder" "HOL-Library.List_Lexorder" "HOL-Library.Char_ord"
    "HOL-Library.Multiset"
begin

text \<open>
  \<open>Rule\<close>, \<open>RuleSet\<close> and \<open>NodeTransform.process\<close> of \<open>lazyllm/tools/rag/transform/base.py\<close>, and the
  layout parser of \<open>layout.py\<close> that runs them over grouped and sorted nodes. What a rule matches and
  applies is a function of the model; \<open>None\<close> is a match that Python takes for false and a result that
  is Python's \<open>None\<close>.
\<close>

section \<open>Rules\<close>

record ('d, 'm, 'r) rule =
  rl_name :: string
  rl_match :: "'d \<Rightarrow> 'm option"
  rl_params :: "nat res"
  rl_apply3 :: "'d \<Rightarrow> 'm \<Rightarrow> 'r option res"
  rl_apply2 :: "'d \<Rightarrow> 'r option res"
  rl_priority :: int

text \<open>
  \<open>Rule.__call__\<close>: \<open>rl_params\<close> is what \<open>inspect.signature\<close> yields, the number of positional
  parameters or an error; \<open>rl_apply3\<close> and \<open>rl_apply2\<close> are the same callable called with the match
  result and without it. A \<open>ValueError\<close> or \<open>TypeError\<close> of the first call leads to the second.
\<close>

definition rule_call :: "('d, 'm, 'r) rule \<Rightarrow> 'd \<Rightarrow> 'r option res" where
  "rule_call r d =
     (case rl_match r d of
        None \<Rightarrow> Inr None
      | Some m \<Rightarrow>
          (case rbind (rl_params r) (\<lambda>n. if 3 \<le> n then rbind (rl_apply3 r d m) (\<lambda>x. Inr (Some x)) else Inr None) of
             Inl ValueError \<Rightarrow> rl_apply2 r d
           | Inl TypeError \<Rightarrow> rl_apply2 r d
           | Inl e \<Rightarrow> Inl e
           | Inr (Some x) \<Rightarrow> Inr x
           | Inr None \<Rightarrow> rl_apply2 r d))"

text \<open>\<open>Rule.build\<close> for a predicate and for a compiled pattern: both wrap a function of three parameters.\<close>

definition build_pred :: "string \<Rightarrow> ('d \<Rightarrow> bool) \<Rightarrow> ('d \<Rightarrow> 'r option res) \<Rightarrow> int \<Rightarrow> ('d, unit, 'r) rule" where
  "build_pred nm p f prio =
     \<lparr>rl_name = nm, rl_match = (\<lambda>d. if p d then Some () else None), rl_params = Inr 3,
      rl_apply3 = (\<lambda>d m. f d), rl_apply2 = (\<lambda>d. Inl TypeError), rl_priority = prio\<rparr>"

definition build_pattern :: "string \<Rightarrow> ('d \<Rightarrow> 'm option) \<Rightarrow> ('m \<Rightarrow> 'd \<Rightarrow> 'r option res) \<Rightarrow> int \<Rightarrow> ('d, 'm, 'r) rule" where
  "build_pattern nm search f prio =
     \<lparr>rl_name = nm, rl_match = search, rl_params = Inr 3,
      rl_apply3 = (\<lambda>d m. f m d), rl_apply2 = (\<lambda>d. Inl TypeError), rl_priority = prio\<rparr>"

section \<open>Rule sets\<close>

type_synonym ('d, 'm, 'r) ruleset = "('d, 'm, 'r) rule list"

definition rs_sort :: "('d, 'm, 'r) ruleset \<Rightarrow> ('d, 'm, 'r) ruleset" where
  "rs_sort rs = sort_key (\<lambda>r. - rl_priority r) rs"

definition rs_extend :: "('d, 'm, 'r) ruleset \<Rightarrow> ('d, 'm, 'r) rule list \<Rightarrow> ('d, 'm, 'r) ruleset" where
  "rs_extend rs new = rs_sort (rs @ new)"

definition rs_init :: "('d, 'm, 'r) rule list \<Rightarrow> ('d, 'm, 'r) ruleset" where
  "rs_init rules = (if rules \<noteq> [] then rs_extend [] rules else [])"

fun rs_first :: "('d, 'm, 'r) ruleset \<Rightarrow> 'd \<Rightarrow> (('d, 'm, 'r) rule \<times> 'r) option res" where
  "rs_first [] d = Inr None"
| "rs_first (r # rs) d =
     rbind (rule_call r d) (\<lambda>x. case x of Some y \<Rightarrow> Inr (Some (r, y)) | None \<Rightarrow> rs_first rs d)"

fun rs_all :: "('d, 'm, 'r) ruleset \<Rightarrow> 'd \<Rightarrow> (('d, 'm, 'r) rule \<times> 'r) list res" where
  "rs_all [] d = Inr []"
| "rs_all (r # rs) d =
     rbind (rule_call r d) (\<lambda>x. rbind (rs_all rs d)
       (\<lambda>ys. Inr (case x of Some y \<Rightarrow> (r, y) # ys | None \<Rightarrow> ys)))"

definition rs_filter :: "('d, 'm, 'r) ruleset \<Rightarrow> (('d, 'm, 'r) rule \<Rightarrow> bool) \<Rightarrow> ('d, 'm, 'r) ruleset" where
  "rs_filter rs p = rs_init (filter p rs)"

lemma rs_first_Some:
  "rs_first rs d = Inr (Some (r, y)) \<Longrightarrow>
   \<exists>before behind. rs = before @ r # behind \<and> rule_call r d = Inr (Some y) \<and> (\<forall>b \<in> set before. rule_call b d = Inr None)"
proof (induction rs)
  case (Cons a rs)
  then obtain x where x: "rule_call a d = Inr x"
    "(case x of Some y \<Rightarrow> Inr (Some (a, y)) | None \<Rightarrow> rs_first rs d) = Inr (Some (r, y))"
    by (auto simp: rbind_eq_Inr)
  show ?case
  proof (cases x)
    case None
    with x Cons.IH obtain before behind where
      "rs = before @ r # behind" "rule_call r d = Inr (Some y)" "\<forall>b \<in> set before. rule_call b d = Inr None" by auto
    with x None show ?thesis by (intro exI [of _ "a # before"] exI [of _ behind]) simp
  qed (use x in force)
qed simp

lemma rs_first_all:
  "rs_all rs d = Inr ys \<Longrightarrow> rs_first rs d = Inr (case ys of [] \<Rightarrow> None | y # _ \<Rightarrow> Some y)"
  by (induction rs arbitrary: ys) (auto simp: rbind_eq_Inr split: option.splits)

lemma rs_extend_stable:
  "filter (\<lambda>r. rl_priority r = p) (rs_extend rs new) =
   filter (\<lambda>r. rl_priority r = p) rs @ filter (\<lambda>r. rl_priority r = p) new"
  using sort_key_stable [of "\<lambda>r. - rl_priority r" "- p" "rs @ new"]
  by (simp add: rs_extend_def rs_sort_def)

lemma sorted_before:
  "sorted (map f (before @ r # behind)) \<Longrightarrow> x \<in> set (before @ r # behind) \<Longrightarrow> f x < f r \<Longrightarrow> x \<in> set before"
  for f :: "'a \<Rightarrow> int"
  by (fastforce simp: sorted_append)

text \<open>
  The first rule of a rule set that answers is one of highest priority: every rule of a higher
  priority has declined, the rules of one priority are asked in the order they were added, and a rule
  set extended twice keeps the older rules first.
\<close>

theorem rs_first_priority:
  assumes "rs_first (rs_extend rs new) d = Inr (Some (r, y))"
  shows "r \<in> set (rs @ new) \<and> rule_call r d = Inr (Some y) \<and>
    (\<forall>q \<in> set (rs @ new). rl_priority r < rl_priority q \<longrightarrow> rule_call q d = Inr None) \<and>
    (\<forall>p. filter (\<lambda>q. rl_priority q = p) (rs_extend rs new) =
       filter (\<lambda>q. rl_priority q = p) rs @ filter (\<lambda>q. rl_priority q = p) new)"
proof -
  obtain before behind where s: "rs_extend rs new = before @ r # behind" "rule_call r d = Inr (Some y)"
      "\<forall>b \<in> set before. rule_call b d = Inr None" using rs_first_Some [OF assms] by blast
  have set: "set (rs @ new) = set (before @ r # behind)"
    using arg_cong [OF s(1), of set] by (simp add: rs_extend_def rs_sort_def)
  have "sorted (map (\<lambda>r. - rl_priority r) (before @ r # behind))"
    using s(1) by (metis rs_extend_def rs_sort_def sorted_sort_key)
  from sorted_before [OF this] have "q \<in> set before" if "q \<in> set (rs @ new)" "rl_priority r < rl_priority q" for q
    using that unfolding set by simp
  with s(3) have high: "\<forall>q \<in> set (rs @ new). rl_priority r < rl_priority q \<longrightarrow> rule_call q d = Inr None" by blast
  have "r \<in> set (rs @ new)" unfolding set by simp
  with s(2) high rs_extend_stable [of _ rs new] show ?thesis by blast
qed

definition sample_rules :: "(int, unit, int) rule list" where
  "sample_rules = [build_pred ''any'' (\<lambda>d. True) (\<lambda>d. Inr (Some 0)) 0, build_pred ''even'' even (\<lambda>d. Inr (Some 2)) 5]"

theorem rs_first_priority_witness:
  "\<exists>r y. rs_first (rs_extend [] sample_rules) 4 = Inr (Some (r, y)) \<and> rule_call r 4 = Inr (Some y) \<and> y = 2"
proof -
  let ?r = "build_pred ''even'' even (\<lambda>d. Inr (Some 2)) 5 :: (int, unit, int) rule"
  have "rs_first (rs_extend [] sample_rules) 4 = Inr (Some (?r, 2))"
    by (simp add: rs_extend_def rs_sort_def sample_rules_def build_pred_def rule_call_def)
  from rs_first_priority [OF this] this show ?thesis by blast
qed

section \<open>Running the rules over nodes\<close>

text \<open>
  \<open>NodeTransform.process\<close> and its \<open>_Context\<close>: the position, the previous node and its result. The
  handlers are parameters; the \<open>total\<close> of the context is the number of nodes.
\<close>

record ('d, 'r) rcontext =
  cx_total :: nat
  cx_idx :: nat
  cx_prev :: "('d \<times> 'r) option"

fun process_loop ::
    "('d, 'm, 'r) ruleset \<Rightarrow> ('d \<Rightarrow> ('d, 'm, 'r) rule \<times> 'r \<Rightarrow> ('d, 'p) rcontext \<Rightarrow> 'p res)
     \<Rightarrow> ('d \<Rightarrow> ('d, 'p) rcontext \<Rightarrow> 'p res) \<Rightarrow> 'd list \<Rightarrow> nat \<Rightarrow> ('d, 'p) rcontext \<Rightarrow> 'p list res" where
  "process_loop rs on_match on_miss [] i ctx = Inr []"
| "process_loop rs on_match on_miss (d # ds) i ctx =
     (let ctx1 = ctx\<lparr>cx_idx := i\<rparr>
      in rbind (rs_first rs d) (\<lambda>m.
         rbind (case m of Some hit \<Rightarrow> on_match d hit ctx1 | None \<Rightarrow> on_miss d ctx1) (\<lambda>p.
         rbind (process_loop rs on_match on_miss ds (Suc i) (ctx1\<lparr>cx_prev := Some (d, p)\<rparr>)) (\<lambda>ps.
         Inr (p # ps)))))"

definition process ::
    "('d, 'm, 'r) ruleset \<Rightarrow> ('d \<Rightarrow> ('d, 'm, 'r) rule \<times> 'r \<Rightarrow> ('d, 'p) rcontext \<Rightarrow> 'p res)
     \<Rightarrow> ('d \<Rightarrow> ('d, 'p) rcontext \<Rightarrow> 'p res) \<Rightarrow> 'd list \<Rightarrow> 'p list res" where
  "process rs on_match on_miss ds =
     process_loop rs on_match on_miss ds 0 \<lparr>cx_total = length ds, cx_idx = 0, cx_prev = None\<rparr>"

definition default_match_handler :: "'d \<Rightarrow> ('d, 'm, 'd) rule \<times> 'd \<Rightarrow> ('d, 'd) rcontext \<Rightarrow> 'd res" where
  "default_match_handler d matched ctx = Inr (snd matched)"

definition default_miss_handler :: "'d \<Rightarrow> ('d, 'd) rcontext \<Rightarrow> 'd res" where
  "default_miss_handler d ctx = Inr d"

lemma process_context_free:
  "process_loop rs (\<lambda>d h c. f d h) (\<lambda>d c. g d) ds i ctx =
   rmap (\<lambda>d. rbind (rs_first rs d) (\<lambda>m. case m of Some hit \<Rightarrow> f d hit | None \<Rightarrow> g d)) ds"
proof (induction ds arbitrary: i ctx)
  case (Cons d ds)
  then show ?case by (cases "rs_first rs d") (auto simp: Let_def)
qed simp

lemma process_default:
  "process rs default_match_handler default_miss_handler ds =
   rmap (\<lambda>d. rbind (rs_first rs d) (\<lambda>m. Inr (case m of Some hit \<Rightarrow> snd hit | None \<Rightarrow> d))) ds"
proof -
  have "default_match_handler = (\<lambda>d h c. Inr (snd h))" "default_miss_handler = (\<lambda>d c. Inr d)"
    by (auto simp: fun_eq_iff default_match_handler_def default_miss_handler_def)
  note h = this
  have "process rs default_match_handler default_miss_handler ds =
      rmap (\<lambda>d. rbind (rs_first rs d) (\<lambda>m. case m of Some hit \<Rightarrow> Inr (snd hit) | None \<Rightarrow> Inr d)) ds"
    unfolding process_def h by (rule process_context_free)
  also have "\<dots> = rmap (\<lambda>d. rbind (rs_first rs d) (\<lambda>m. Inr (case m of Some hit \<Rightarrow> snd hit | None \<Rightarrow> d))) ds"
    by (rule rmap_cong [OF refl], rule rbind_cong [OF refl]) (auto split: option.splits)
  finally show ?thesis .
qed

section \<open>Layout\<close>

text \<open>\<open>itertools.groupby\<close>: the runs of neighbours with one key.\<close>

function groupby :: "('a \<Rightarrow> 'k) \<Rightarrow> 'a list \<Rightarrow> 'a list list" where
  "groupby g [] = []"
| "groupby g (x # xs) = (x # takeWhile (\<lambda>y. g y = g x) xs) # groupby g (dropWhile (\<lambda>y. g y = g x) xs)"
  by pat_completeness auto

termination
  by (relation "measure (length \<circ> snd)") (auto simp: length_dropWhile_le le_imp_less_Suc)

text \<open>
  \<open>LayoutNodeParser.forward\<close>: \<open>None\<close> for \<open>group_by\<close> is \<open>NO_GROUPING\<close>. The handlers it passes to
  \<open>process\<close> are the default ones.
\<close>

definition layout_forward ::
    "('d, 'm, 'd) ruleset \<Rightarrow> ('d \<Rightarrow> 'g :: linorder) option \<Rightarrow> ('d \<Rightarrow> 's :: linorder) \<Rightarrow> ('d list \<Rightarrow> 'd list) \<Rightarrow> 'd list \<Rightarrow> 'd list res" where
  "layout_forward rs group_by sort_by post nodes =
     (let run = (\<lambda>ns. process rs default_match_handler default_miss_handler (sort_key sort_by ns))
      in rbind (case group_by of
                  Some g \<Rightarrow> rbind (rmap run (groupby g (sort_key g nodes))) (\<lambda>xs. Inr (concat xs))
                | None \<Rightarrow> run nodes)
           (\<lambda>res. Inr (post res)))"

definition simple_layout_rules :: "('d, unit, 'd) ruleset" where
  "simple_layout_rules = rs_init [build_pred ''noop'' (\<lambda>d. True) (\<lambda>d. Inr (Some d)) 0]"

record lnode =
  ln_text :: string
  ln_file :: "string option"
  ln_index :: "int option"

definition layout_group_key :: "lnode \<Rightarrow> string" where
  "layout_group_key n = (case ln_file n of None \<Rightarrow> [] | Some f \<Rightarrow> f)"

definition layout_sort_key :: "lnode \<Rightarrow> int" where
  "layout_sort_key n = (case ln_index n of None \<Rightarrow> 0 | Some i \<Rightarrow> i)"

definition layout_post_process :: "lnode list \<Rightarrow> lnode list" where
  "layout_post_process ns = map (\<lambda>(i, n). n\<lparr>ln_index := Some (int i)\<rparr>) (enumerate 0 ns)"

lemma groupby_concat: "concat (groupby g xs) = xs"
  by (induction g xs rule: groupby.induct) (auto simp: takeWhile_dropWhile_id)

lemma groupby_map_mset: "mset (concat (map (sort_key s) (groupby g xs))) = mset xs"
proof (induction g xs rule: groupby.induct)
  case (2 g x xs)
  have "mset (takeWhile (\<lambda>y. g y = g x) xs) + mset (dropWhile (\<lambda>y. g y = g x) xs) = mset xs"
    by (metis mset_append takeWhile_dropWhile_id)
  with 2 show ?case by simp
qed simp

lemma groupby_map_filter:
  "filter (\<lambda>x. g x = a \<and> s x = b) (concat (map (sort_key s) (groupby g xs))) = filter (\<lambda>x. g x = a \<and> s x = b) xs"
proof (induction g xs rule: groupby.induct)
  case (2 g x xs)
  let ?l = "x # takeWhile (\<lambda>y. g y = g x) xs"
  have "filter (\<lambda>x. g x = a \<and> s x = b) (sort_key s ?l) = filter (\<lambda>x. g x = a \<and> s x = b) ?l"
    using arg_cong [OF sort_key_stable [of s b ?l], of "filter (\<lambda>x. g x = a)"]
    by (simp only: filter_filter conj_commute)
  moreover have "filter (\<lambda>x. g x = a \<and> s x = b) (x # xs) =
      filter (\<lambda>x. g x = a \<and> s x = b) ?l @ filter (\<lambda>x. g x = a \<and> s x = b) (dropWhile (\<lambda>y. g y = g x) xs)"
    by (simp only: filter_append [symmetric] append_Cons takeWhile_dropWhile_id)
  ultimately show ?case using 2 by (simp only: groupby.simps list.map concat.simps filter_append)
qed simp

lemma groupby_map_sorted:
  fixes g :: "'a \<Rightarrow> 'k :: linorder" and s :: "'a \<Rightarrow> 's :: linorder"
  shows "sorted (map g xs) \<Longrightarrow> sorted (map (\<lambda>x. (g x, s x)) (concat (map (sort_key s) (groupby g xs))))"
proof (induction g xs rule: groupby.induct)
  case (2 g x xs)
  let ?l = "x # takeWhile (\<lambda>y. g y = g x) xs" and ?r = "dropWhile (\<lambda>y. g y = g x) xs"
  have all: "\<forall>y \<in> set xs. g x \<le> g y" and sx: "sorted (map g xs)" using 2(2) by auto
  have "sorted (map g ?r)" using sx by (metis map_append sorted_append takeWhile_dropWhile_id)
  then have IH: "sorted (map (\<lambda>x. (g x, s x)) (concat (map (sort_key s) (groupby g ?r))))" by (rule 2(1))
  have key: "g y = g x" if "y \<in> set ?l" for y using that by (auto dest: set_takeWhileD)
  have "sorted (map s (sort_key s ?l))" by (rule sorted_sort_key)
  then have l: "sorted (map (\<lambda>x. (g x, s x)) (sort_key s ?l))"
    unfolding sorted_map
  proof (rule sorted_wrt_mono_rel [rotated])
    fix a b assume "a \<in> set (sort_key s ?l)" "b \<in> set (sort_key s ?l)" "s a \<le> s b"
    moreover from this have "g a = g x" "g b = g x" using key [of a] key [of b] by (simp_all only: set_sort)
    ultimately show "(g a, s a) \<le> (g b, s b)" by simp
  qed
  have gt: "g x < g y" if "y \<in> set ?r" for y
  proof -
    have ne: "?r \<noteq> []" using that by (cases ?r) simp_all
    have "g (hd ?r) \<noteq> g x" by (rule hd_dropWhile [OF ne])
    moreover have "hd ?r \<in> set xs" using hd_in_set [OF ne] by (rule set_dropWhileD)
    ultimately have "g x < g (hd ?r)" using all by fastforce
    also have "g (hd ?r) \<le> g y" using \<open>sorted (map g ?r)\<close> that ne by (cases ?r) auto
    finally show ?thesis .
  qed
  have "set (concat (map (sort_key s) (groupby g ?r))) = set ?r"
    by (rule mset_eq_setD [OF groupby_map_mset])
  note sets = this
  have cross: "\<forall>p \<in> set (map (\<lambda>x. (g x, s x)) (sort_key s ?l)).
      \<forall>q \<in> set (map (\<lambda>x. (g x, s x)) (concat (map (sort_key s) (groupby g ?r)))). p \<le> q"
  proof (intro ballI)
    fix p q
    assume "p \<in> set (map (\<lambda>x. (g x, s x)) (sort_key s ?l))"
      "q \<in> set (map (\<lambda>x. (g x, s x)) (concat (map (sort_key s) (groupby g ?r))))"
    then obtain a b where ab: "a \<in> set ?l" "p = (g a, s a)" "b \<in> set ?r" "q = (g b, s b)"
      unfolding set_map set_sort sets by blast
    show "p \<le> q" using key [OF ab(1)] gt [OF ab(3)] by (simp add: ab(2,4))
  qed
  show ?case using l IH cross
    by (simp only: groupby.simps list.map concat.simps map_append sorted_append simp_thms)
qed simp

lemma groupby_sort:
  "concat (map (sort_key s) (groupby g (sort_key g xs))) = sort_key (\<lambda>x. (g x, s x)) xs"
proof (rule properties_for_sort_key [symmetric])
  show "mset (concat (map (sort_key s) (groupby g (sort_key g xs)))) = mset xs" by (simp add: groupby_map_mset)
  show "sorted (map (\<lambda>x. (g x, s x)) (concat (map (sort_key s) (groupby g (sort_key g xs)))))"
    by (rule groupby_map_sorted) simp
  fix k
  show "filter (\<lambda>x. (g k, s k) = (g x, s x)) (concat (map (sort_key s) (groupby g (sort_key g xs)))) =
      filter (\<lambda>x. (g k, s k) = (g x, s x)) xs"
  proof -
    have p: "(\<lambda>x. (g k, s k) = (g x, s x)) = (\<lambda>x. g x = g k \<and> s x = s k)" by auto
    have "filter (\<lambda>x. g x = g k \<and> s x = s k) (sort_key g xs) = filter (\<lambda>x. g x = g k \<and> s x = s k) xs"
      using arg_cong [OF sort_key_stable [of g "g k" xs], of "filter (\<lambda>x. s x = s k)"]
      by (simp only: filter_filter conj_commute)
    then show ?thesis unfolding p by (simp only: groupby_map_filter)
  qed
qed

lemma simple_layout_first: "rs_first simple_layout_rules d = Inr (Some (build_pred ''noop'' (\<lambda>d. True) (\<lambda>d. Inr (Some d)) 0, d))"
  by (simp add: simple_layout_rules_def rs_init_def rs_extend_def rs_sort_def rule_call_def build_pred_def)

lemma rmap_Inr [simp]: "rmap (\<lambda>x. Inr (f x)) xs = Inr (map f xs)"
  by (induction xs) auto

text \<open>
  With the default rules the layout parser is one stable sort by the pair of group and sort key,
  and without grouping a stable sort by the sort key alone: no node is lost and none is changed before
  the post-processing.
\<close>

theorem layout_is_stable_sort:
  "layout_forward simple_layout_rules (Some g) s post nodes = Inr (post (sort_key (\<lambda>n. (g n, s n)) nodes)) \<and>
   layout_forward simple_layout_rules (None :: ('d \<Rightarrow> string) option) s post nodes = Inr (post (sort_key s nodes))"
  by (simp add: layout_forward_def process_default simple_layout_first groupby_sort Let_def)

end
