(* ===== verification/SegmentStore.thy ===== *)
theory SegmentStore
  imports Prelude
begin

text \<open>
  What a segment store (\<open>lazyllm/tools/rag/store\<close>) promises: the segments and criteria that
  \<open>upsert\<close>, \<open>delete\<close> and \<open>get\<close> exchange, a store as a map from collection and uid to the segment
  last written, the operations on it, and the interface a store implements, with the lemmas that follow
  for any sequence of operations. Of a segment, the fields that select it and its content are modelled.
\<close>

section \<open>Segments and criteria\<close>

datatype meta_value = MNull | MStr string | MInt int

record seg =
  sg_uid :: "string option"
  sg_doc :: "string option"
  sg_kb :: "string option"
  sg_parent :: "string option"
  sg_number :: "int option"
  sg_content :: string
  sg_global_meta :: "(string, meta_value) dict"

definition default_kb_id :: string where "default_kb_id = ''default''"

text \<open>
  The criteria of \<open>get\<close> and \<open>delete\<close>. \<open>None\<close> in place of criteria is a dictionary without keys; an
  empty list is a key that is missing or has no values.
\<close>

record criteria =
  cr_uids :: "string list"
  cr_kb :: "string option"
  cr_docs :: "string list"
  cr_parents :: "string list"
  cr_numbers :: "int list"

definition kb_given :: "criteria \<Rightarrow> bool" where
  "kb_given cr \<longleftrightarrow> (case cr_kb cr of None \<Rightarrow> False | Some k \<Rightarrow> k \<noteq> [])"

definition any_given :: "criteria \<Rightarrow> bool" where
  "any_given cr \<longleftrightarrow> cr_uids cr \<noteq> [] \<or> kb_given cr \<or> cr_docs cr \<noteq> [] \<or> cr_parents cr \<noteq> [] \<or> cr_numbers cr \<noteq> []"

definition with_kb :: "seg \<Rightarrow> seg" where
  "with_kb it = it\<lparr>sg_kb := Some (case sg_kb it of None \<Rightarrow> default_kb_id | Some k \<Rightarrow> k)\<rparr>"

definition given :: "string option \<Rightarrow> bool" where
  "given x \<longleftrightarrow> (case x of None \<Rightarrow> False | Some t \<Rightarrow> t \<noteq> [])"

section \<open>What the operations mean\<close>

definition meets :: "criteria \<Rightarrow> seg \<Rightarrow> bool" where
  "meets cr it \<longleftrightarrow>
     (cr_uids cr \<noteq> [] \<longrightarrow> sg_uid it \<in> Some ` set (cr_uids cr)) \<and>
     (kb_given cr \<longrightarrow> sg_kb it = cr_kb cr) \<and>
     (cr_docs cr \<noteq> [] \<longrightarrow> sg_doc it \<in> Some ` set (cr_docs cr)) \<and>
     (cr_parents cr \<noteq> [] \<longrightarrow> sg_parent it \<in> Some ` set (cr_parents cr)) \<and>
     (cr_numbers cr \<noteq> [] \<longrightarrow> sg_number it \<in> Some ` set (cr_numbers cr))"

definition meets_opt :: "criteria option \<Rightarrow> seg \<Rightarrow> bool" where
  "meets_opt crit it \<longleftrightarrow> (case crit of None \<Rightarrow> True | Some cr \<Rightarrow> meets cr it)"

type_synonym contents = "string \<Rightarrow> string \<Rightarrow> seg option"

definition no_contents :: contents where "no_contents = (\<lambda>_ _. None)"

datatype store_op = Upsert string seg | Delete string "criteria option"

definition restrict_to :: "(seg \<Rightarrow> bool) \<Rightarrow> (string \<Rightarrow> seg option) \<Rightarrow> string \<Rightarrow> seg option" where
  "restrict_to p m = (\<lambda>u. case m u of None \<Rightarrow> None | Some it \<Rightarrow> if p it then Some it else None)"

fun apply_op :: "store_op \<Rightarrow> contents \<Rightarrow> contents" where
  "apply_op (Upsert c it) m = m(c := (m c)(the (sg_uid it) := Some (with_kb it)))"
| "apply_op (Delete c crit) m = m(c := restrict_to (\<lambda>it. \<not> meets_opt crit it) (m c))"

text \<open>
  An item is complete when the store accepts it, and it may replace a segment only in its own
  collection and under the same document, knowledge base, parent and number.
\<close>

definition complete :: "seg \<Rightarrow> bool" where
  "complete it \<longleftrightarrow> given (sg_uid it) \<and> given (sg_doc it) \<and> sg_number it \<noteq> None"

definition same_keys :: "seg \<Rightarrow> seg \<Rightarrow> bool" where
  "same_keys a b \<longleftrightarrow> sg_doc a = sg_doc b \<and> sg_kb a = sg_kb b \<and> sg_parent a = sg_parent b \<and> sg_number a = sg_number b"

definition fits :: "contents \<Rightarrow> string \<Rightarrow> seg \<Rightarrow> bool" where
  "fits m c it \<longleftrightarrow> complete it \<and>
     (\<forall>c' old. m c' (the (sg_uid it)) = Some old \<longrightarrow> c' = c \<and> same_keys old (with_kb it))"

fun legal :: "store_op list \<Rightarrow> contents \<Rightarrow> bool" where
  "legal [] m = True"
| "legal (op # ops) m = ((case op of Upsert c it \<Rightarrow> fits m c it | Delete c crit \<Rightarrow> True) \<and> legal ops (apply_op op m))"

definition selected :: "contents \<Rightarrow> string \<Rightarrow> criteria option \<Rightarrow> seg set" where
  "selected m c crit = {it. \<exists>u. m c u = Some it \<and> meets_opt crit it}"

text \<open>
  What a query answers. A store may refuse some criteria when there is nothing in the collection: the
  store in memory does so when criteria name no values at all, with a \<open>ValueError\<close>.
\<close>

definition valueless :: "criteria option \<Rightarrow> bool" where
  "valueless crit \<longleftrightarrow> (case crit of None \<Rightarrow> False | Some cr \<Rightarrow> \<not> any_given cr)"

definition answered :: "(criteria option \<Rightarrow> bool) \<Rightarrow> contents \<Rightarrow> string \<Rightarrow> criteria option \<Rightarrow> seg set res" where
  "answered refuses m c crit =
     (if refuses crit \<and> selected m c None = {} then Inl ValueError else Inr (selected m c crit))"

lemma valueless_meets: "valueless crit \<Longrightarrow> meets_opt crit it"
  by (auto simp: valueless_def any_given_def meets_opt_def meets_def split: option.splits)

lemma valueless_selected: "valueless crit \<Longrightarrow> selected m c crit = selected m c None"
  by (auto simp: selected_def valueless_meets) (simp add: meets_opt_def)+

text \<open>A step of a history on a store, given its way to write one segment and to delete.\<close>

fun run_op :: "(string \<Rightarrow> seg \<Rightarrow> 's \<Rightarrow> 's) \<Rightarrow> (string \<Rightarrow> criteria option \<Rightarrow> 's \<Rightarrow> 's) \<Rightarrow> store_op \<Rightarrow> 's \<Rightarrow> 's" where
  "run_op put del (Upsert c it) s = put c it s"
| "run_op put del (Delete c crit) s = del c crit s"

section \<open>The interface\<close>

locale segment_store =
  fixes inv :: "'s \<Rightarrow> bool"
    and contents :: "'s \<Rightarrow> contents"
    and initial :: 's
    and put :: "string \<Rightarrow> seg \<Rightarrow> 's \<Rightarrow> 's"
    and drop_matching :: "string \<Rightarrow> criteria option \<Rightarrow> 's \<Rightarrow> 's"
    and matching :: "string \<Rightarrow> criteria option \<Rightarrow> 's \<Rightarrow> seg set res"
    and refuses :: "criteria option \<Rightarrow> bool"
  assumes initial: "inv initial" "contents initial = no_contents"
    and put: "inv s \<Longrightarrow> fits (contents s) c it \<Longrightarrow>
      inv (put c it s) \<and> contents (put c it s) = apply_op (Upsert c it) (contents s)"
    and drop_matching: "inv s \<Longrightarrow>
      inv (drop_matching c crit s) \<and> contents (drop_matching c crit s) = apply_op (Delete c crit) (contents s)"
    and matching: "inv s \<Longrightarrow> matching c crit s = answered refuses (contents s) c crit"
begin

lemma run_ops:
  "inv s \<Longrightarrow> legal ops (contents s) \<Longrightarrow>
   inv (fold (run_op put drop_matching) ops s) \<and> contents (fold (run_op put drop_matching) ops s) = fold apply_op ops (contents s)"
proof (induction ops arbitrary: s)
  case (Cons op ops)
  have "inv (run_op put drop_matching op s) \<and> contents (run_op put drop_matching op s) = apply_op op (contents s)"
    using Cons.prems put drop_matching by (cases op) auto
  with Cons show ?case by simp
qed simp

lemma history:
  assumes "legal ops no_contents"
  shows "matching c crit (fold (run_op put drop_matching) ops initial) =
    answered refuses (fold apply_op ops no_contents) c crit"
  using run_ops [OF initial(1), of ops] assms by (simp add: initial(2) matching)

lemma delete_then_none:
  assumes "legal ops no_contents"
  shows "matching c crit (drop_matching c crit (fold (run_op put drop_matching) ops initial)) \<in> {Inr {}, Inl ValueError}"
proof -
  have "inv (fold (run_op put drop_matching) ops initial)" using run_ops [OF initial(1), of ops] assms by (simp add: initial(2))
  with drop_matching show ?thesis
    by (auto simp: matching answered_def selected_def restrict_to_def split: option.splits if_splits)
qed

end

end
