(* ===== verification/MapStore.thy ===== *)
theory MapStore
  imports SegmentStore "HOL-Library.Product_Lexorder" "HOL-Library.List_Lexorder" "HOL-Library.Char_ord"
begin

text \<open>
  The segment store \<open>MapStore\<close> of \<open>lazyllm/tools/rag/store/hybrid/map_store.py\<close>: the dictionaries
  it keeps in memory with their indexes by document, knowledge base, parent and number, and the SQLite
  table beside them. A Python set has no order of its own: the order it is iterated in is a parameter.
  Of a segment, the fields that select it and its content are modelled.
\<close>

section \<open>The store in memory\<close>

record mapstore =
  ms_data :: "string \<Rightarrow> seg option"
  ms_col :: "string \<Rightarrow> string set"
  ms_doc :: "string \<Rightarrow> string \<Rightarrow> string set"
  ms_kb :: "string \<Rightarrow> string \<Rightarrow> (string, string set) dict"
  ms_parent :: "string \<Rightarrow> string option \<Rightarrow> string set"
  ms_number :: "string \<Rightarrow> int option \<Rightarrow> string set"

definition connect :: mapstore where
  "connect = \<lparr>ms_data = (\<lambda>_. None), ms_col = (\<lambda>_. {}), ms_doc = (\<lambda>_ _. {}), ms_kb = (\<lambda>_ _. []),
     ms_parent = (\<lambda>_ _. {}), ms_number = (\<lambda>_ _. {})\<rparr>"

definition upd2 :: "'a \<Rightarrow> 'b \<Rightarrow> ('v \<Rightarrow> 'v) \<Rightarrow> ('a \<Rightarrow> 'b \<Rightarrow> 'v) \<Rightarrow> 'a \<Rightarrow> 'b \<Rightarrow> 'v" where
  "upd2 a b g f = f(a := (f a)(b := g (f a b)))"

definition kb_set :: "mapstore \<Rightarrow> string \<Rightarrow> string \<Rightarrow> string \<Rightarrow> string set" where
  "kb_set s c k d = dict_get (ms_kb s c k) d {}"

text \<open>\<open>_cache_segment\<close>: a missing number raises after the other indexes have been written.\<close>

definition cache_segment :: "string \<Rightarrow> seg \<Rightarrow> (mapstore, unit) sx" where
  "cache_segment c it =
     (case sg_uid it of
        None \<Rightarrow> sret ()
      | Some [] \<Rightarrow> sret ()
      | Some u \<Rightarrow>
          sbind (supd (\<lambda>s. s\<lparr>ms_data := (ms_data s)(u := Some it), ms_col := (ms_col s)(c := insert u (ms_col s c))\<rparr>)) (\<lambda>_.
          sbind (slift (of_opt KeyError (sg_doc it))) (\<lambda>d.
          sbind (supd (\<lambda>s. s\<lparr>ms_doc := upd2 c d (insert u) (ms_doc s)\<rparr>)) (\<lambda>_.
          sbind (slift (of_opt KeyError (sg_kb it))) (\<lambda>k.
          sbind (supd (\<lambda>s. s\<lparr>ms_kb := upd2 c k (AList.update d (insert u (kb_set s c k d))) (ms_kb s),
                            ms_parent := upd2 c (sg_parent it) (insert u) (ms_parent s)\<rparr>)) (\<lambda>_.
          sbind (slift (of_opt KeyError (sg_number it))) (\<lambda>n.
          supd (\<lambda>s. s\<lparr>ms_number := upd2 c (Some n) (insert u) (ms_number s)\<rparr>))))))))"

definition upsert_item :: "string \<Rightarrow> seg \<Rightarrow> (mapstore, unit) sx" where
  "upsert_item c it =
     (if given (sg_uid it) \<and> given (sg_doc it) then cache_segment c (with_kb it) else sraise AssertionError)"

text \<open>\<open>upsert\<close> without a database: an item that raises ends the loop, and the ones before it stay.\<close>

definition upsert :: "string \<Rightarrow> seg list \<Rightarrow> mapstore \<Rightarrow> bool \<times> mapstore" where
  "upsert c items s = (case sfor (upsert_item c) items s of (Inr _, s') \<Rightarrow> (True, s') | (Inl _, s') \<Rightarrow> (False, s'))"

definition doc_uids :: "mapstore \<Rightarrow> string \<Rightarrow> criteria \<Rightarrow> string set" where
  "doc_uids s c cr = (\<Union>d \<in> set (cr_docs cr). ms_doc s c d)"

definition kb_doc_uids :: "mapstore \<Rightarrow> string \<Rightarrow> string \<Rightarrow> string list \<Rightarrow> string set" where
  "kb_doc_uids s c k ds = (\<Union>d \<in> set ds. kb_set s c k d)"

definition uids_by_criteria :: "string \<Rightarrow> criteria option \<Rightarrow> mapstore \<Rightarrow> string set res" where
  "uids_by_criteria c crit s =
     (case crit of
        None \<Rightarrow> Inr (ms_col s c)
      | Some cr \<Rightarrow>
          (let b0 = ms_col s c;
               b1 = (if cr_uids cr \<noteq> [] then b0 \<inter> set (cr_uids cr) else b0);
               k = (case cr_kb cr of None \<Rightarrow> [] | Some k \<Rightarrow> k);
               b2 = (if kb_given cr \<and> cr_docs cr \<noteq> [] then b1 \<inter> kb_doc_uids s c k (cr_docs cr)
                     else if kb_given cr then b1 \<inter> kb_doc_uids s c k (map fst (ms_kb s c k))
                     else if cr_docs cr \<noteq> [] then b1 \<inter> doc_uids s c cr else b1);
               b3 = (if cr_parents cr \<noteq> [] then b2 \<inter> (\<Union>p \<in> set (cr_parents cr). ms_parent s c (Some p)) else b2);
               b4 = (if cr_numbers cr \<noteq> [] then b3 \<inter> (\<Union>n \<in> set (cr_numbers cr). ms_number s c (Some n)) else b3)
           in if b4 = {} \<and> any_given cr then Inr {}
              else if b4 = {} then Inl ValueError
              else Inr b4))"

definition remove_uid :: "string \<Rightarrow> string \<Rightarrow> mapstore \<Rightarrow> mapstore" where
  "remove_uid c u s =
     (case ms_data s u of
        None \<Rightarrow> s
      | Some it \<Rightarrow>
          (let k = (case sg_kb it of None \<Rightarrow> default_kb_id | Some k \<Rightarrow> k);
               d = (case sg_doc it of None \<Rightarrow> [] | Some d \<Rightarrow> d)
           in s\<lparr>ms_data := (ms_data s)(u := None),
                ms_col := (ms_col s)(c := ms_col s c - {u}),
                ms_kb := upd2 c k (AList.update d (kb_set s c k d - {u})) (ms_kb s),
                ms_doc := upd2 c d (\<lambda>x. x - {u}) (ms_doc s),
                ms_parent := upd2 c (sg_parent it) (\<lambda>x. x - {u}) (ms_parent s),
                ms_number := upd2 c (sg_number it) (\<lambda>x. x - {u}) (ms_number s)\<rparr>))"

definition delete_uids :: "(string set \<Rightarrow> string list) \<Rightarrow> string \<Rightarrow> criteria option \<Rightarrow> mapstore \<Rightarrow> bool \<times> mapstore" where
  "delete_uids iter c crit s =
     (case uids_by_criteria c crit s of
        Inl _ \<Rightarrow> (False, s)
      | Inr us \<Rightarrow> (True, fold (remove_uid c) (iter us) s))"

text \<open>\<open>get\<close>: the segments of the selected uids, sorted by number and uid on request, and a page of them.\<close>

definition sort_number_key :: "seg \<Rightarrow> int \<times> string" where
  "sort_number_key it = ((case sg_number it of None \<Rightarrow> 0 | Some n \<Rightarrow> n), (case sg_uid it of None \<Rightarrow> [] | Some u \<Rightarrow> u))"

record paging =
  pg_limit :: "nat option"
  pg_offset :: "int option"
  pg_sort :: bool

definition page_offset :: "paging \<Rightarrow> nat" where
  "page_offset p = (case pg_offset p of None \<Rightarrow> 0 | Some i \<Rightarrow> nat (max i 0))"

definition take_page :: "paging \<Rightarrow> 'a list \<Rightarrow> 'a list" where
  "take_page p xs =
     (let xs' = drop (page_offset p) xs in case pg_limit p of None \<Rightarrow> xs' | Some n \<Rightarrow> take n xs')"

definition get :: "(string set \<Rightarrow> string list) \<Rightarrow> string \<Rightarrow> criteria option \<Rightarrow> paging \<Rightarrow> mapstore \<Rightarrow> (seg list \<times> nat) res" where
  "get iter c crit p s =
     rbind (uids_by_criteria c crit s) (\<lambda>us.
       let res = List.map_filter (ms_data s) (iter us);
           res' = (if pg_sort p then sort_key sort_number_key res else res)
       in Inr (take_page p res', length res'))"

section \<open>The indexes follow the segments\<close>

definition map_contents :: "mapstore \<Rightarrow> contents" where
  "map_contents s = (\<lambda>c u. if u \<in> ms_col s c then ms_data s u else None)"

definition indexes :: "contents \<Rightarrow> (seg \<Rightarrow> 'k) \<Rightarrow> (string \<Rightarrow> 'k \<Rightarrow> string set) \<Rightarrow> bool" where
  "indexes m key f \<longleftrightarrow> (\<forall>c x u. u \<in> f c x \<longleftrightarrow> (\<exists>it. m c u = Some it \<and> key it = x))"

lemma index_insert:
  assumes "indexes m key f" and "\<And>old. m c u = Some old \<Longrightarrow> key old = key it"
  shows "indexes (m(c := (m c)(u := Some it))) key (upd2 c (key it) (insert u) f)"
  using assms by (auto simp: indexes_def upd2_def)

lemma index_remove:
  assumes "indexes m key f" and "m c u = Some it"
  shows "indexes (m(c := (m c)(u := None))) key (upd2 c (key it) (\<lambda>x. x - {u}) f)"
  using assms by (auto simp: indexes_def upd2_def)

definition stored :: "string \<Rightarrow> seg \<Rightarrow> bool" where
  "stored u it \<longleftrightarrow> sg_uid it = Some u \<and> sg_doc it \<noteq> None \<and> sg_kb it \<noteq> None \<and> sg_number it \<noteq> None"

definition kb_doc_key :: "seg \<Rightarrow> string \<times> string" where
  "kb_doc_key it = (the (sg_kb it), the (sg_doc it))"

definition store_inv :: "mapstore \<Rightarrow> bool" where
  "store_inv s \<longleftrightarrow>
     (\<forall>c. finite (ms_col s c)) \<and>
     (\<forall>c u. u \<in> ms_col s c \<longrightarrow> (\<exists>it. ms_data s u = Some it \<and> stored u it)) \<and>
     (\<forall>u c c'. u \<in> ms_col s c \<and> u \<in> ms_col s c' \<longrightarrow> c = c') \<and>
     indexes (map_contents s) (\<lambda>it. the (sg_doc it)) (ms_doc s) \<and>
     indexes (map_contents s) kb_doc_key (\<lambda>c (k, d). kb_set s c k d) \<and>
     indexes (map_contents s) sg_parent (ms_parent s) \<and>
     indexes (map_contents s) sg_number (ms_number s) \<and>
     (\<forall>c k. distinct (map fst (ms_kb s c k)))"

lemma store_inv_stored: "store_inv s \<Longrightarrow> u \<in> ms_col s c \<Longrightarrow> \<exists>it. ms_data s u = Some it \<and> stored u it"
  unfolding store_inv_def by blast

lemma store_inv_connect: "store_inv connect" "map_contents connect = no_contents"
  by (auto simp: store_inv_def connect_def indexes_def map_contents_def kb_set_def dict_get_def no_contents_def)

lemma kb_set_upd:
  "kb_set (s\<lparr>ms_kb := upd2 c k (AList.update d (g (kb_set s c k d))) (ms_kb s)\<rparr>) c' k' d' =
   upd2 c (k, d) g (\<lambda>c (k, d). kb_set s c k d) c' (k', d')"
  by (auto simp: kb_set_def upd2_def dict_get_def)

lemma kb_set_cong: "ms_kb s = ms_kb t \<Longrightarrow> kb_set s = kb_set t"
  by (simp add: kb_set_def fun_eq_iff)

definition cached :: "string \<Rightarrow> string \<Rightarrow> seg \<Rightarrow> mapstore \<Rightarrow> mapstore" where
  "cached c u it s = s\<lparr>ms_data := (ms_data s)(u := Some it), ms_col := (ms_col s)(c := insert u (ms_col s c)),
     ms_doc := upd2 c (the (sg_doc it)) (insert u) (ms_doc s),
     ms_kb := upd2 c (the (sg_kb it)) (AList.update (the (sg_doc it)) (insert u (kb_set s c (the (sg_kb it)) (the (sg_doc it))))) (ms_kb s),
     ms_parent := upd2 c (sg_parent it) (insert u) (ms_parent s),
     ms_number := upd2 c (sg_number it) (insert u) (ms_number s)\<rparr>"

lemma upsert_item_complete:
  assumes "complete it"
  shows "upsert_item c it s = (Inr (), cached c (the (sg_uid it)) (with_kb it) s)"
proof -
  obtain u d n where it: "sg_uid it = Some u" "sg_doc it = Some d" "sg_number it = Some n" "u \<noteq> []"
    using assms by (auto simp: complete_def given_def split: option.splits)
  then obtain a b where "u = a # b" by (cases u) auto
  with it assms show ?thesis
    by (simp add: upsert_item_def complete_def cache_segment_def with_kb_def cached_def sbind_def kb_set_def)
qed

lemma cached_inv:
  assumes "store_inv s" and "fits (map_contents s) c it" and "u = the (sg_uid it)"
  shows "store_inv (cached c u (with_kb it) s)"
    and "map_contents (cached c u (with_kb it) s) = apply_op (Upsert c it) (map_contents s)"
proof -
  let ?it = "with_kb it"
  note I = assms(1) [unfolded store_inv_def]
  have uid: "sg_uid it = Some u" "sg_doc it \<noteq> None" "sg_number it \<noteq> None"
    using assms(2,3) by (auto simp: fits_def complete_def given_def split: option.splits)
  have home: "c' = c" if "u \<in> ms_col s c'" for c'
  proof -
    from store_inv_stored [OF assms(1) that] that obtain old where "map_contents s c' u = Some old"
      by (auto simp: map_contents_def)
    with assms(2,3) show ?thesis by (auto simp: fits_def)
  qed
  have keys: "same_keys old ?it" if "map_contents s c u = Some old" for old
    using that assms(2,3) by (auto simp: fits_def)
  have m: "map_contents (cached c u ?it s) = (map_contents s)(c := (map_contents s c)(u := Some ?it))"
    using home by (auto simp: map_contents_def cached_def fun_eq_iff)
  then show "map_contents (cached c u ?it s) = apply_op (Upsert c it) (map_contents s)"
    by (simp add: assms(3))
  have st: "stored u ?it" using uid by (simp add: stored_def with_kb_def)
  have kb: "(\<lambda>c'' (k, d). kb_set (cached c' u ?it s) c'' k d) =
      upd2 c' (kb_doc_key ?it) (insert u) (\<lambda>c (k, d). kb_set s c k d)" for c'
    using kb_set_upd [where s = s and c = c' and k = "the (sg_kb ?it)" and d = "the (sg_doc ?it)" and g = "insert u"]
    by (auto simp: fun_eq_iff cached_def kb_doc_key_def kb_set_def)
  show "store_inv (cached c u ?it s)"
    unfolding store_inv_def m kb
  proof (intro conjI)
    show "\<forall>c'. finite (ms_col (cached c u ?it s) c')" using I by (simp add: cached_def)
    show "\<forall>c' u'. u' \<in> ms_col (cached c u ?it s) c' \<longrightarrow>
        (\<exists>it'. ms_data (cached c u ?it s) u' = Some it' \<and> stored u' it')"
      using I st by (auto simp: cached_def)
    show "\<forall>u' c' c''. u' \<in> ms_col (cached c u ?it s) c' \<and> u' \<in> ms_col (cached c u ?it s) c'' \<longrightarrow> c' = c''"
      using I home by (auto simp: cached_def split: if_splits)
    show "\<forall>c' k. distinct (map fst (ms_kb (cached c u ?it s) c' k))"
      using I by (auto simp: cached_def upd2_def intro: distinct_fst_update)
    have d: "ms_doc (cached c u ?it s) = upd2 c (the (sg_doc ?it)) (insert u) (ms_doc s)"
      "ms_parent (cached c u ?it s) = upd2 c (sg_parent ?it) (insert u) (ms_parent s)"
      "ms_number (cached c u ?it s) = upd2 c (sg_number ?it) (insert u) (ms_number s)"
      by (simp_all add: cached_def)
    show "indexes ((map_contents s)(c := (map_contents s c)(u := Some ?it))) (\<lambda>it. the (sg_doc it)) (ms_doc (cached c u ?it s))"
      unfolding d by (rule index_insert [where key = "\<lambda>it. the (sg_doc it)"]) (use I keys in \<open>auto simp: same_keys_def\<close>)
    show "indexes ((map_contents s)(c := (map_contents s c)(u := Some ?it))) kb_doc_key
        (upd2 c (kb_doc_key ?it) (insert u) (\<lambda>c (k, d). kb_set s c k d))"
      by (rule index_insert) (use I keys in \<open>auto simp: same_keys_def kb_doc_key_def\<close>)
    show "indexes ((map_contents s)(c := (map_contents s c)(u := Some ?it))) sg_parent (ms_parent (cached c u ?it s))"
      unfolding d by (rule index_insert) (use I keys in \<open>auto simp: same_keys_def\<close>)
    show "indexes ((map_contents s)(c := (map_contents s c)(u := Some ?it))) sg_number (ms_number (cached c u ?it s))"
      unfolding d by (rule index_insert) (use I keys in \<open>auto simp: same_keys_def\<close>)
  qed
qed

lemma remove_inv:
  assumes "store_inv s" and "u \<in> ms_col s c"
  shows "store_inv (remove_uid c u s)"
    and "map_contents (remove_uid c u s) = (map_contents s)(c := (map_contents s c)(u := None))"
proof -
  note I = assms(1) [unfolded store_inv_def]
  obtain it where it: "ms_data s u = Some it" "stored u it" using store_inv_stored [OF assms] by blast
  have here: "map_contents s c u = Some it" using assms(2) it by (simp add: map_contents_def)
  have home: "c' = c" if "u \<in> ms_col s c'" for c' using that assms(2) I by blast
  define t where "t = remove_uid c u s"
  have t: "ms_data t = (ms_data s)(u := None)" "ms_col t = (ms_col s)(c := ms_col s c - {u})"
    "ms_doc t = upd2 c (the (sg_doc it)) (\<lambda>x. x - {u}) (ms_doc s)"
    "ms_parent t = upd2 c (sg_parent it) (\<lambda>x. x - {u}) (ms_parent s)"
    "ms_number t = upd2 c (sg_number it) (\<lambda>x. x - {u}) (ms_number s)"
    "ms_kb t = upd2 c (the (sg_kb it)) (AList.update (the (sg_doc it)) (kb_set s c (the (sg_kb it)) (the (sg_doc it)) - {u})) (ms_kb s)"
    using it by (auto simp: t_def remove_uid_def stored_def)
  show m: "map_contents (remove_uid c u s) = (map_contents s)(c := (map_contents s c)(u := None))"
    unfolding t_def [symmetric] using home by (auto simp: map_contents_def t fun_eq_iff)
  have kb: "(\<lambda>c (k, d). kb_set t c k d) = upd2 c (kb_doc_key it) (\<lambda>x. x - {u}) (\<lambda>c (k, d). kb_set s c k d)"
    by (auto simp: fun_eq_iff t(6) kb_doc_key_def kb_set_def upd2_def dict_get_def)
  show "store_inv (remove_uid c u s)"
    unfolding store_inv_def m unfolding t_def [symmetric] kb
  proof (intro conjI)
    show "\<forall>c'. finite (ms_col t c')" using I by (simp add: t)
    show "\<forall>c' u'. u' \<in> ms_col t c' \<longrightarrow> (\<exists>it'. ms_data t u' = Some it' \<and> stored u' it')"
      using I home by (auto simp: t split: if_splits)
    show "\<forall>u' c' c''. u' \<in> ms_col t c' \<and> u' \<in> ms_col t c'' \<longrightarrow> c' = c''"
      using I by (auto simp: t split: if_splits)
    show "\<forall>c' k. distinct (map fst (ms_kb t c' k))"
      using I by (auto simp: t upd2_def intro: distinct_fst_update)
    show "indexes ((map_contents s)(c := (map_contents s c)(u := None))) (\<lambda>it. the (sg_doc it)) (ms_doc t)"
      unfolding t by (rule index_remove [where key = "\<lambda>it. the (sg_doc it)" and m = "map_contents s"]) (use I here in simp_all)
    show "indexes ((map_contents s)(c := (map_contents s c)(u := None))) kb_doc_key
        (upd2 c (kb_doc_key it) (\<lambda>x. x - {u}) (\<lambda>c (k, d). kb_set s c k d))"
      by (rule index_remove [where m = "map_contents s"]) (use I here in simp_all)
    show "indexes ((map_contents s)(c := (map_contents s c)(u := None))) sg_parent (ms_parent t)"
      unfolding t by (rule index_remove [where m = "map_contents s"]) (use I here in simp_all)
    show "indexes ((map_contents s)(c := (map_contents s c)(u := None))) sg_number (ms_number t)"
      unfolding t by (rule index_remove [where m = "map_contents s"]) (use I here in simp_all)
  qed
qed

lemma fold_remove_inv:
  "store_inv s \<Longrightarrow> \<forall>u \<in> set us. u \<in> ms_col s c \<or> ms_data s u = None \<Longrightarrow>
   store_inv (fold (remove_uid c) us s) \<and>
   map_contents (fold (remove_uid c) us s) =
     (map_contents s)(c := (\<lambda>u. if u \<in> set us then None else map_contents s c u))"
proof (induction us arbitrary: s)
  case (Cons u us)
  show ?case
  proof (cases "u \<in> ms_col s c")
    case True
    note r = remove_inv [OF Cons.prems(1) True]
    have "ms_col (remove_uid c u s) c = ms_col s c - {u}" "ms_data (remove_uid c u s) = (ms_data s)(u := None)"
      using store_inv_stored [OF Cons.prems(1) True] by (auto simp: remove_uid_def Let_def)
    then have "\<forall>v \<in> set us. v \<in> ms_col (remove_uid c u s) c \<or> ms_data (remove_uid c u s) v = None"
      using Cons.prems(2) by auto
    from Cons.IH [OF r(1) this] show ?thesis by (auto simp: r(2) fun_eq_iff)
  next
    case False
    with Cons.prems(2) have "ms_data s u = None" by simp
    then have "remove_uid c u s = s" by (simp add: remove_uid_def)
    moreover have "map_contents s c u = None" using False by (simp add: map_contents_def)
    ultimately show ?thesis using Cons.IH [of s] Cons.prems by (auto simp: fun_eq_iff)
  qed
qed (simp add: fun_upd_idem)

lemma indexes_iff: "indexes m key f \<Longrightarrow> u \<in> f c x \<longleftrightarrow> (\<exists>it. m c u = Some it \<and> key it = x)"
  by (simp add: indexes_def)

text \<open>What the indexes select is what the criteria mean.\<close>

lemma uids_by_criteria_spec:
  assumes "store_inv s"
  shows "uids_by_criteria c crit s =
    (let us = {u. \<exists>it. map_contents s c u = Some it \<and> meets_opt crit it}
     in if us = {} \<and> (\<exists>cr. crit = Some cr \<and> \<not> any_given cr) then Inl ValueError else Inr us)"
proof (cases crit)
  case None
  then show ?thesis using store_inv_stored [OF assms]
    by (force simp: uids_by_criteria_def map_contents_def meets_opt_def Let_def)
next
  case (Some cr)
  note I = assms [unfolded store_inv_def]
  let ?m = "map_contents s c"
  have sto: "stored u it" and inc: "u \<in> ms_col s c" if "?m u = Some it" for u it
  proof -
    from that have d: "ms_data s u = Some it" and u: "u \<in> ms_col s c"
      by (simp_all add: map_contents_def split: if_splits)
    with store_inv_stored [OF assms u] show "stored u it" by simp
    show "u \<in> ms_col s c" by (rule u)
  qed
  have col: "u \<in> ms_col s c \<longleftrightarrow> (\<exists>it. ?m u = Some it)" for u
  proof
    assume u: "u \<in> ms_col s c"
    from store_inv_stored [OF assms u] obtain it where "ms_data s u = Some it" by blast
    with u have "?m u = Some it" by (simp add: map_contents_def)
    then show "\<exists>it. ?m u = Some it" ..
  qed (use inc in blast)
  have doc: "u \<in> ms_doc s c d \<longleftrightarrow> (\<exists>it. ?m u = Some it \<and> sg_doc it = Some d)" for u d
    using I indexes_iff [of "map_contents s" "\<lambda>it. the (sg_doc it)" "ms_doc s" u c d] sto
    by (fastforce simp: stored_def)
  have kb: "u \<in> kb_set s c k d \<longleftrightarrow> (\<exists>it. ?m u = Some it \<and> sg_kb it = Some k \<and> sg_doc it = Some d)" for u k d
    using I indexes_iff [of "map_contents s" kb_doc_key "\<lambda>c (k, d). kb_set s c k d" u c "(k, d)"] sto
    by (fastforce simp: stored_def kb_doc_key_def)
  have par: "u \<in> ms_parent s c p \<longleftrightarrow> (\<exists>it. ?m u = Some it \<and> sg_parent it = p)" for u p
    using I by (simp add: indexes_iff)
  have num: "u \<in> ms_number s c n \<longleftrightarrow> (\<exists>it. ?m u = Some it \<and> sg_number it = n)" for u n
    using I by (simp add: indexes_iff)
  have keys: "(\<exists>d \<in> fst ` set (ms_kb s c k). u \<in> kb_set s c k d) \<longleftrightarrow> (\<exists>it. ?m u = Some it \<and> sg_kb it = Some k)" for u k
  proof -
    have out: "d \<in> fst ` set (ms_kb s c k)" if "u \<in> kb_set s c k d" for d
    proof (rule ccontr)
      assume "d \<notin> fst ` set (ms_kb s c k)"
      then have "map_of (ms_kb s c k) d = None" by (rule map_of_eq_None_iff [THEN iffD2])
      then show False using that by (simp add: kb_set_def dict_get_def)
    qed
    have "(\<exists>d \<in> fst ` set (ms_kb s c k). u \<in> kb_set s c k d) \<longleftrightarrow> (\<exists>d. u \<in> kb_set s c k d)" using out by blast
    also have "\<dots> \<longleftrightarrow> (\<exists>d it. ?m u = Some it \<and> sg_kb it = Some k \<and> sg_doc it = Some d)" by (simp only: kb)
    also have "\<dots> \<longleftrightarrow> (\<exists>it. ?m u = Some it \<and> sg_kb it = Some k)"
      using sto [of u] unfolding stored_def by blast
    finally show ?thesis .
  qed
  define b1 where "b1 = (if cr_uids cr \<noteq> [] then ms_col s c \<inter> set (cr_uids cr) else ms_col s c)"
  define k where "k = (case cr_kb cr of None \<Rightarrow> [] | Some k \<Rightarrow> k)"
  define b2 where "b2 = (if kb_given cr \<and> cr_docs cr \<noteq> [] then b1 \<inter> kb_doc_uids s c k (cr_docs cr)
     else if kb_given cr then b1 \<inter> kb_doc_uids s c k (map fst (ms_kb s c k))
     else if cr_docs cr \<noteq> [] then b1 \<inter> doc_uids s c cr else b1)"
  define b3 where "b3 = (if cr_parents cr \<noteq> [] then b2 \<inter> (\<Union>p \<in> set (cr_parents cr). ms_parent s c (Some p)) else b2)"
  define b4 where "b4 = (if cr_numbers cr \<noteq> [] then b3 \<inter> (\<Union>n \<in> set (cr_numbers cr). ms_number s c (Some n)) else b3)"
  have m1: "u \<in> b1 \<longleftrightarrow> (\<exists>it. ?m u = Some it \<and> (cr_uids cr \<noteq> [] \<longrightarrow> sg_uid it \<in> Some ` set (cr_uids cr)))" for u
    using col [of u] sto [of u] by (auto simp: b1_def stored_def)
  have kbk: "kb_given cr \<Longrightarrow> cr_kb cr = Some k" by (auto simp: kb_given_def k_def split: option.splits)
  have m2: "u \<in> b2 \<longleftrightarrow> u \<in> b1 \<and> (\<exists>it. ?m u = Some it \<and> (kb_given cr \<longrightarrow> sg_kb it = cr_kb cr) \<and>
      (cr_docs cr \<noteq> [] \<longrightarrow> sg_doc it \<in> Some ` set (cr_docs cr)))" for u
  proof -
    have kall: "u \<in> kb_doc_uids s c k (map fst (ms_kb s c k)) \<longleftrightarrow> (\<exists>it. ?m u = Some it \<and> sg_kb it = Some k)"
      using keys [of k u] by (simp only: kb_doc_uids_def set_map UN_iff)
    have kdocs: "u \<in> kb_doc_uids s c k ds \<longleftrightarrow> (\<exists>it. ?m u = Some it \<and> sg_kb it = Some k \<and> sg_doc it \<in> Some ` set ds)" for ds
      by (auto simp: kb_doc_uids_def kb)
    have docs: "u \<in> doc_uids s c cr \<longleftrightarrow> (\<exists>it. ?m u = Some it \<and> sg_doc it \<in> Some ` set (cr_docs cr))"
      by (auto simp: doc_uids_def doc)
    show ?thesis using m1 [of u] kbk
      by (cases "kb_given cr"; cases "cr_docs cr = []") (simp_all add: b2_def kall docs, auto simp: kdocs)
  qed
  have m4: "u \<in> b4 \<longleftrightarrow> (\<exists>it. ?m u = Some it \<and> meets cr it)" for u
  proof (cases "?m u")
    case None
    with m1 [of u] m2 [of u] show ?thesis by (simp add: b4_def b3_def)
  next
    case (Some it)
    have "u \<in> b4 \<longleftrightarrow> u \<in> b2 \<and> (cr_parents cr \<noteq> [] \<longrightarrow> sg_parent it \<in> Some ` set (cr_parents cr)) \<and>
        (cr_numbers cr \<noteq> [] \<longrightarrow> sg_number it \<in> Some ` set (cr_numbers cr))"
      by (auto simp: b4_def b3_def par num Some)
    then show ?thesis using m1 [of u] m2 [of u] Some by (simp add: meets_def)
  qed
  then have "b4 = {u. \<exists>it. ?m u = Some it \<and> meets_opt crit it}" by (auto simp: Some meets_opt_def)
  moreover have "uids_by_criteria c crit s =
      (if b4 = {} \<and> any_given cr then Inr {} else if b4 = {} then Inl ValueError else Inr b4)"
    unfolding Some uids_by_criteria_def option.case Let_def b4_def b3_def b2_def b1_def k_def by (rule refl)
  ultimately show ?thesis by (simp add: Some Let_def)
qed

section \<open>The store implements the interface\<close>

definition map_put :: "string \<Rightarrow> seg \<Rightarrow> mapstore \<Rightarrow> mapstore" where
  "map_put c it s = snd (upsert c [it] s)"

definition map_drop :: "(string set \<Rightarrow> string list) \<Rightarrow> string \<Rightarrow> criteria option \<Rightarrow> mapstore \<Rightarrow> mapstore" where
  "map_drop iter c crit s = snd (delete_uids iter c crit s)"

definition no_paging :: paging where
  "no_paging = \<lparr>pg_limit = None, pg_offset = None, pg_sort = False\<rparr>"

definition map_matching :: "(string set \<Rightarrow> string list) \<Rightarrow> string \<Rightarrow> criteria option \<Rightarrow> mapstore \<Rightarrow> seg set res" where
  "map_matching iter c crit s = rbind (get iter c crit no_paging s) (\<lambda>r. Inr (set (fst r)))"

lemma take_page_none [simp]: "take_page no_paging xs = xs" "pg_sort no_paging = False"
  by (simp_all add: take_page_def no_paging_def page_offset_def)

locale set_iteration =
  fixes iter :: "string set \<Rightarrow> string list"
  assumes iter: "finite A \<Longrightarrow> set (iter A) = A"
begin

lemma finite_selected:
  assumes "store_inv s"
  shows "finite {u. \<exists>it. map_contents s c u = Some it \<and> P it}"
proof (rule finite_subset)
  show "{u. \<exists>it. map_contents s c u = Some it \<and> P it} \<subseteq> ms_col s c"
    by (auto simp: map_contents_def split: if_splits)
  show "finite (ms_col s c)" using assms unfolding store_inv_def by blast
qed

lemma put_law:
  assumes "store_inv s" and "fits (map_contents s) c it"
  shows "store_inv (map_put c it s) \<and> map_contents (map_put c it s) = apply_op (Upsert c it) (map_contents s)"
proof -
  have "complete it" using assms(2) by (simp add: fits_def)
  then have "map_put c it s = cached c (the (sg_uid it)) (with_kb it) s"
    by (simp add: map_put_def upsert_def upsert_item_complete)
  with cached_inv [OF assms refl] show ?thesis by simp
qed

lemma drop_law:
  assumes "store_inv s"
  shows "store_inv (map_drop iter c crit s) \<and> map_contents (map_drop iter c crit s) = apply_op (Delete c crit) (map_contents s)"
proof -
  let ?us = "{u. \<exists>it. map_contents s c u = Some it \<and> meets_opt crit it}"
  have us: "set (iter ?us) = ?us" by (rule iter) (rule finite_selected [OF assms])
  have sub: "\<forall>u \<in> set (iter ?us). u \<in> ms_col s c \<or> ms_data s u = None"
    unfolding us by (auto simp: map_contents_def split: if_splits)
  have r: "(map_contents s)(c := (\<lambda>u. if u \<in> set (iter ?us) then None else map_contents s c u)) =
      apply_op (Delete c crit) (map_contents s)"
    unfolding us by (auto simp: restrict_to_def fun_eq_iff split: option.splits)
  show ?thesis
  proof (cases "?us = {} \<and> (\<exists>cr. crit = Some cr \<and> \<not> any_given cr)")
    case True
    then have "map_drop iter c crit s = s"
      using uids_by_criteria_spec [OF assms, of c crit] by (simp add: map_drop_def delete_uids_def)
    moreover have "apply_op (Delete c crit) (map_contents s) = map_contents s"
      using True by (auto simp: restrict_to_def fun_eq_iff split: option.splits)
    ultimately show ?thesis using assms by simp
  next
    case False
    then have "map_drop iter c crit s = fold (remove_uid c) (iter ?us) s"
      using uids_by_criteria_spec [OF assms, of c crit] by (auto simp: map_drop_def delete_uids_def Let_def)
    with fold_remove_inv [OF assms sub] r show ?thesis by simp
  qed
qed

lemma matching_law:
  assumes "store_inv s"
  shows "map_matching iter c crit s = answered valueless (map_contents s) c crit"
proof -
  let ?us = "{u. \<exists>it. map_contents s c u = Some it \<and> meets_opt crit it}"
  have us: "set (iter ?us) = ?us" by (rule iter) (rule finite_selected [OF assms])
  have d: "ms_data s u = Some it" if "map_contents s c u = Some it" for u it
    using that by (simp add: map_contents_def split: if_splits)
  have g: "set (List.map_filter (ms_data s) (iter ?us)) = selected (map_contents s) c crit"
    unfolding List.map_filter_def set_map set_filter us
    by (auto simp: selected_def image_iff dest: d) (metis d option.sel)+
  show ?thesis
  proof (cases "?us = {} \<and> (\<exists>cr. crit = Some cr \<and> \<not> any_given cr)")
    case True
    then have "get iter c crit no_paging s = Inl ValueError"
      using uids_by_criteria_spec [OF assms, of c crit] by (simp add: get_def)
    moreover have "valueless crit" using True by (auto simp: valueless_def)
    moreover from this have "selected (map_contents s) c None = {}"
      using True by (auto simp: selected_def valueless_meets)
    ultimately show ?thesis by (simp add: map_matching_def answered_def)
  next
    case False
    then have "uids_by_criteria c crit s = Inr ?us"
      using uids_by_criteria_spec [OF assms, of c crit] by (simp add: Let_def del: ex_simps)
    moreover have "selected (map_contents s) c None \<noteq> {}" if "valueless crit"
      using False that by (auto simp: selected_def valueless_meets valueless_def meets_opt_def split: option.splits)
    ultimately show ?thesis by (auto simp: map_matching_def get_def Let_def g answered_def)
  qed
qed

end

sublocale set_iteration \<subseteq> mem: segment_store store_inv map_contents connect map_put "map_drop iter" "map_matching iter" valueless
  by unfold_locales (use store_inv_connect put_law drop_law matching_law in \<open>auto simp del: apply_op.simps\<close>)

interpretation ascending: set_iteration sorted_list_of_set
  by unfold_locales simp

end
