(* ===== verification/MapStoreSql.thy ===== *)
theory MapStoreSql
  imports MapStore
begin

text \<open>
  \<open>MapStore\<close> with a database file (\<open>lazyllm/tools/rag/store/hybrid/map_store.py\<close>): the rows of a
  collection's table by primary key, the WHERE clause that \<open>_build_where\<close> writes and its meaning, and
  the operations, which write the table first and the dictionaries in memory after it. The rows of a
  query without ORDER BY come in the order of the table.
\<close>

section \<open>Rows and WHERE clauses\<close>

type_synonym sql_table = "(string, seg) dict"

record sqlstore =
  sq_db :: "string \<Rightarrow> sql_table option"
  sq_mem :: mapstore

definition sql_connect :: "string list \<Rightarrow> (string \<Rightarrow> sql_table option) \<Rightarrow> sqlstore" where
  "sql_connect cols db =
     \<lparr>sq_db = (\<lambda>c. if c \<in> set cols \<and> db c = None then Some [] else db c), sq_mem = connect\<rparr>"

definition ensure_table :: "string \<Rightarrow> (string \<Rightarrow> sql_table option) \<Rightarrow> string \<Rightarrow> sql_table option" where
  "ensure_table c db = (case db c of None \<Rightarrow> db(c := Some []) | Some _ \<Rightarrow> db)"

datatype clause =
    UidIn "string list"
  | KbIs string
  | DocIn "string list"
  | ParentIn "string list"
  | NumberIn "int list"

definition build_where :: "criteria option \<Rightarrow> clause list" where
  "build_where crit =
     (case crit of
        None \<Rightarrow> []
      | Some cr \<Rightarrow>
          (if cr_uids cr \<noteq> [] then [UidIn (cr_uids cr)] else []) @
          (case cr_kb cr of Some k \<Rightarrow> if k \<noteq> [] then [KbIs k] else [] | None \<Rightarrow> []) @
          (if cr_docs cr \<noteq> [] then [DocIn (cr_docs cr)] else []) @
          (if cr_parents cr \<noteq> [] then [ParentIn (cr_parents cr)] else []) @
          (if cr_numbers cr \<noteq> [] then [NumberIn (cr_numbers cr)] else []))"

text \<open>A NULL column is in no list.\<close>

fun clause_holds :: "seg \<Rightarrow> clause \<Rightarrow> bool" where
  "clause_holds r (UidIn us) = (case sg_uid r of None \<Rightarrow> False | Some u \<Rightarrow> u \<in> set us)"
| "clause_holds r (KbIs k) = (sg_kb r = Some k)"
| "clause_holds r (DocIn ds) = (case sg_doc r of None \<Rightarrow> False | Some d \<Rightarrow> d \<in> set ds)"
| "clause_holds r (ParentIn ps) = (case sg_parent r of None \<Rightarrow> False | Some p \<Rightarrow> p \<in> set ps)"
| "clause_holds r (NumberIn ns) = (case sg_number r of None \<Rightarrow> False | Some n \<Rightarrow> n \<in> set ns)"

definition row_selected :: "criteria option \<Rightarrow> seg \<Rightarrow> bool" where
  "row_selected crit r = list_all (clause_holds r) (build_where crit)"

section \<open>Operations\<close>

text \<open>\<open>_serialize_data\<close> reads the uid, the document and the number of every item before anything is written.\<close>

definition serialize :: "seg \<Rightarrow> (string \<times> seg) res" where
  "serialize it =
     rbind (of_opt KeyError (sg_uid it)) (\<lambda>u.
     rbind (of_opt KeyError (sg_doc it)) (\<lambda>d.
     rbind (of_opt KeyError (sg_number it)) (\<lambda>n. Inr (u, with_kb it))))"

definition insert_or_replace :: "string \<times> seg \<Rightarrow> sql_table \<Rightarrow> sql_table" where
  "insert_or_replace kv t = filter (\<lambda>r. fst r \<noteq> fst kv) t @ [kv]"

definition save_to_uri :: "string \<Rightarrow> seg list \<Rightarrow> (sqlstore, unit) sx" where
  "save_to_uri c items =
     sbind (supd (\<lambda>s. s\<lparr>sq_db := ensure_table c (sq_db s)\<rparr>)) (\<lambda>_.
     sbind (slift (rmap serialize items)) (\<lambda>rows.
     supd (\<lambda>s. s\<lparr>sq_db := (sq_db s)(c := map_option (fold insert_or_replace rows) (sq_db s c))\<rparr>)))"

definition on_mem :: "(mapstore, 'a) sx \<Rightarrow> (sqlstore, 'a) sx" where
  "on_mem m s = (case m (sq_mem s) of (r, t) \<Rightarrow> (r, s\<lparr>sq_mem := t\<rparr>))"

definition sql_upsert :: "string \<Rightarrow> seg list \<Rightarrow> sqlstore \<Rightarrow> bool \<times> sqlstore" where
  "sql_upsert c items s =
     (case sbind (save_to_uri c items) (\<lambda>_. on_mem (sfor (upsert_item c) items)) s of
        (Inr _, s') \<Rightarrow> (True, s')
      | (Inl _, s') \<Rightarrow> (False, s'))"

text \<open>\<open>_del_from_uri\<close> does not create the table: deleting from a collection without one raises.\<close>

definition del_from_uri :: "string \<Rightarrow> criteria option \<Rightarrow> (sqlstore, unit) sx" where
  "del_from_uri c crit s =
     (case sq_db s c of
        None \<Rightarrow> (Inl RuntimeError, s)
      | Some t \<Rightarrow> (Inr (), s\<lparr>sq_db := (sq_db s)(c := Some (filter (\<lambda>r. \<not> row_selected crit (snd r)) t))\<rparr>))"

definition sql_delete :: "(string set \<Rightarrow> string list) \<Rightarrow> string \<Rightarrow> criteria option \<Rightarrow> sqlstore \<Rightarrow> bool \<times> sqlstore" where
  "sql_delete iter c crit s =
     (case del_from_uri c crit s of
        (Inl _, s') \<Rightarrow> (False, s')
      | (Inr _, s') \<Rightarrow> (case delete_uids iter c crit (sq_mem s') of (ok, t) \<Rightarrow> (ok, s'\<lparr>sq_mem := t\<rparr>)))"

definition sql_get :: "string \<Rightarrow> criteria option \<Rightarrow> paging \<Rightarrow> sqlstore \<Rightarrow> (seg list \<times> nat) \<times> sqlstore" where
  "sql_get c crit p s =
     (let s' = s\<lparr>sq_db := ensure_table c (sq_db s)\<rparr>;
          rows = map snd (filter (\<lambda>r. row_selected crit (snd r)) (case sq_db s' c of None \<Rightarrow> [] | Some t \<Rightarrow> t));
          rows' = (if pg_sort p then sort_key sort_number_key rows else rows)
      in ((take_page p rows', length rows'), s'))"

section \<open>The table implements the interface\<close>

lemma row_selected_meets: "row_selected crit r \<longleftrightarrow> meets_opt crit r"
  by (auto simp: row_selected_def build_where_def meets_opt_def meets_def kb_given_def split: option.splits)

definition sql_contents :: "sqlstore \<Rightarrow> contents" where
  "sql_contents s = (\<lambda>c. case sq_db s c of None \<Rightarrow> (\<lambda>_. None) | Some t \<Rightarrow> map_of t)"

definition sql_inv :: "sqlstore \<Rightarrow> bool" where
  "sql_inv s \<longleftrightarrow> (\<forall>c t. sq_db s c = Some t \<longrightarrow> distinct (map fst t))"

definition sql_put :: "string \<Rightarrow> seg \<Rightarrow> sqlstore \<Rightarrow> sqlstore" where
  "sql_put c it s = snd (sql_upsert c [it] s)"

definition sql_drop :: "(string set \<Rightarrow> string list) \<Rightarrow> string \<Rightarrow> criteria option \<Rightarrow> sqlstore \<Rightarrow> sqlstore" where
  "sql_drop iter c crit s = snd (sql_delete iter c crit s)"

definition sql_matching :: "string \<Rightarrow> criteria option \<Rightarrow> sqlstore \<Rightarrow> seg set res" where
  "sql_matching c crit s = Inr (set (fst (fst (sql_get c crit no_paging s))))"

lemma map_of_insert_or_replace [simp]: "map_of (insert_or_replace (u, it) t) = (map_of t)(u \<mapsto> it)"
  by (induction t) (auto simp: insert_or_replace_def fun_eq_iff)

lemma distinct_insert_or_replace: "distinct (map fst t) \<Longrightarrow> distinct (map fst (insert_or_replace kv t))"
  by (induction t) (auto simp: insert_or_replace_def)

lemma map_of_filter_restrict:
  assumes "distinct (map fst t)"
  shows "map_of (filter (\<lambda>r. p (snd r)) t) = restrict_to p (map_of t)"
proof (rule ext)
  fix u
  have "map_of (filter (\<lambda>r. p (snd r)) t) u = Some it \<longleftrightarrow> map_of t u = Some it \<and> p it" for it
    using assms by (auto simp: distinct_map_filter)
  note some = this
  have "restrict_to p (map_of t) u = Some it \<longleftrightarrow> map_of t u = Some it \<and> p it" for it
    by (cases "map_of t u") (auto simp: restrict_to_def)
  note some' = this
  show "map_of (filter (\<lambda>r. p (snd r)) t) u = restrict_to p (map_of t) u"
  proof (cases "restrict_to p (map_of t) u")
    case (Some it)
    then have "map_of t u = Some it \<and> p it" by (rule some' [THEN iffD1])
    then have "map_of (filter (\<lambda>r. p (snd r)) t) u = Some it" by (rule some [THEN iffD2])
    then show ?thesis by (rule trans [OF _ Some [symmetric]])
  next
    case None
    have "map_of (filter (\<lambda>r. p (snd r)) t) u = None"
    proof (rule ccontr)
      assume "map_of (filter (\<lambda>r. p (snd r)) t) u \<noteq> None"
      then obtain it where "map_of (filter (\<lambda>r. p (snd r)) t) u = Some it" by (rule not_None_eq [THEN iffD1, THEN exE])
      then have "map_of t u = Some it \<and> p it" by (rule some [THEN iffD1])
      then have "restrict_to p (map_of t) u = Some it" by (rule some' [THEN iffD2])
      with None show False by simp
    qed
    then show ?thesis by (rule trans [OF _ None [symmetric]])
  qed
qed

lemma sql_put_db:
  assumes "complete it"
  shows "sq_db (sql_put c it s) = (sq_db s)(c := Some (insert_or_replace (the (sg_uid it), with_kb it)
    (case sq_db s c of None \<Rightarrow> [] | Some t \<Rightarrow> t)))"
proof -
  obtain u d n where it: "sg_uid it = Some u" "sg_doc it = Some d" "sg_number it = Some n"
    using assms by (auto simp: complete_def given_def split: option.splits)
  then show ?thesis
    by (auto simp: sql_put_def sql_upsert_def save_to_uri_def serialize_def sbind_def on_mem_def ensure_table_def
        fun_eq_iff upsert_item_complete [OF assms] split: option.splits)
qed

lemma sql_put_law:
  assumes "sql_inv s" and "complete it"
  shows "sql_inv (sql_put c it s) \<and> sql_contents (sql_put c it s) = apply_op (Upsert c it) (sql_contents s)"
  using assms(1) distinct_insert_or_replace
  by (auto simp: sql_inv_def sql_contents_def sql_put_db [OF assms(2)] fun_eq_iff split: option.splits if_splits)

lemma sql_drop_db:
  "sq_db (sql_drop iter c crit s) =
     (sq_db s)(c := map_option (filter (\<lambda>r. \<not> row_selected crit (snd r))) (sq_db s c))"
  by (auto simp: sql_drop_def sql_delete_def del_from_uri_def fun_eq_iff split: option.splits prod.splits)

lemma sql_drop_law:
  assumes "sql_inv s"
  shows "sql_inv (sql_drop iter c crit s) \<and>
    sql_contents (sql_drop iter c crit s) = apply_op (Delete c crit) (sql_contents s)"
proof -
  have "map_of (filter (\<lambda>r. \<not> row_selected crit (snd r)) t) = restrict_to (\<lambda>it. \<not> meets_opt crit it) (map_of t)"
    if "sq_db s c = Some t" for t
    using that assms map_of_filter_restrict [of t "\<lambda>r. \<not> row_selected crit r"] by (simp add: sql_inv_def row_selected_meets)
  moreover have "restrict_to p (\<lambda>_. None) = (\<lambda>_. None)" for p by (simp add: restrict_to_def)
  ultimately show ?thesis using assms
    by (auto simp: sql_inv_def sql_contents_def sql_drop_db fun_eq_iff distinct_map_filter split: option.splits if_splits)
qed

lemma sql_matching_law:
  assumes "sql_inv s"
  shows "sql_matching c crit s = answered (\<lambda>_. False) (sql_contents s) c crit"
proof (cases "sq_db s c")
  case (Some t)
  with assms have "distinct (map fst t)" by (simp add: sql_inv_def)
  then have "selected (sql_contents s) c crit = {it. \<exists>u. (u, it) \<in> set t \<and> meets_opt crit it}"
    by (simp add: selected_def sql_contents_def Some)
  moreover have "sql_matching c crit s = Inr (snd ` {r \<in> set t. meets_opt crit (snd r)})"
    by (simp add: sql_matching_def sql_get_def ensure_table_def row_selected_meets Let_def Some)
  moreover have "snd ` {r \<in> set t. meets_opt crit (snd r)} = {it. \<exists>u. (u, it) \<in> set t \<and> meets_opt crit it}"
    by (auto simp: image_iff)
  ultimately show ?thesis by (simp add: answered_def)
qed (simp add: answered_def sql_matching_def sql_get_def ensure_table_def selected_def sql_contents_def Let_def)

lemma sql_initial:
  "sql_inv (sql_connect [] (\<lambda>_. None))" "sql_contents (sql_connect [] (\<lambda>_. None)) = no_contents"
  by (simp_all add: sql_inv_def sql_connect_def sql_contents_def no_contents_def)

lemma sql_put_fits:
  "sql_inv s \<Longrightarrow> fits (sql_contents s) c it \<Longrightarrow>
   sql_inv (sql_put c it s) \<and> sql_contents (sql_put c it s) = apply_op (Upsert c it) (sql_contents s)"
  by (rule sql_put_law) (simp_all only: fits_def)

interpretation sql: segment_store sql_inv sql_contents "sql_connect [] (\<lambda>_. None)" sql_put "sql_drop sorted_list_of_set" sql_matching "\<lambda>_. False"
  by unfold_locales (rule sql_initial sql_put_fits sql_drop_law sql_matching_law; assumption?)+

end
