(* ===== verification/StoreSearch.thy ===== *)
theory StoreSearch
  imports MapStoreSql
begin

text \<open>
  \<open>MapStore.search\<close> (\<open>lazyllm/tools/rag/store/hybrid/map_store.py\<close>): the metadata filters, in Python
  and as a WHERE clause over the JSON column, and the selection of the best segments. The BM25 ranking is
  a parameter, as is whether the SQLite library has its JSON functions.
\<close>

datatype candidates = CandList "meta_value list" | CandTuple "meta_value list" | CandOne meta_value

type_synonym filters = "(string, candidates) dict"

section \<open>Filters in Python\<close>

definition meta_of :: "seg \<Rightarrow> string \<Rightarrow> meta_value" where
  "meta_of r name = dict_get (sg_global_meta r) name MNull"

text \<open>A tuple of candidates is neither a list nor a set here, and no value equals it.\<close>

fun filter_holds :: "seg \<Rightarrow> string \<times> candidates \<Rightarrow> bool" where
  "filter_holds r (name, CandList vs) = (meta_of r name \<in> set vs)"
| "filter_holds r (name, CandTuple vs) = False"
| "filter_holds r (name, CandOne v) = (meta_of r name = v)"

definition apply_filters :: "seg list \<Rightarrow> filters \<Rightarrow> seg list" where
  "apply_filters segs fs = (if fs = [] then segs else filter (\<lambda>r. list_all (filter_holds r) fs) segs)"

section \<open>Filters as a WHERE clause\<close>

datatype filter_clause =
    JsonIn string "meta_value list"
  | JsonNull string
  | JsonEq string meta_value
  | JsonOr filter_clause filter_clause

text \<open>\<open>_build_filter_where\<close>: \<open>None\<close> is \<open>WHERE 0\<close>, for which no query is run.\<close>

definition candidate_clause :: "string \<Rightarrow> candidates \<Rightarrow> filter_clause option" where
  "candidate_clause name cand =
     (let listed = (\<lambda>vs. if vs = [] then None
        else (let non_null = filter (\<lambda>v. v \<noteq> MNull) vs;
                  subs = (if non_null \<noteq> [] then [JsonIn name non_null] else []) @
                         (if length non_null \<noteq> length vs then [JsonNull name] else [])
              in Some (case subs of [a] \<Rightarrow> a | a # b # _ \<Rightarrow> JsonOr a b | [] \<Rightarrow> JsonNull name)))
      in case cand of CandList vs \<Rightarrow> listed vs | CandTuple vs \<Rightarrow> listed vs
         | CandOne v \<Rightarrow> Some (if v = MNull then JsonNull name else JsonEq name v))"

fun build_filter_where :: "filters \<Rightarrow> filter_clause list option" where
  "build_filter_where [] = Some []"
| "build_filter_where ((name, cand) # fs) =
     (case candidate_clause name cand of
        None \<Rightarrow> None
      | Some cl \<Rightarrow> map_option ((#) cl) (build_filter_where fs))"

text \<open>In SQL a comparison with NULL does not hold.\<close>

fun filter_clause_holds :: "seg \<Rightarrow> filter_clause \<Rightarrow> bool" where
  "filter_clause_holds r (JsonIn name vs) = (meta_of r name \<noteq> MNull \<and> meta_of r name \<in> set vs)"
| "filter_clause_holds r (JsonNull name) = (meta_of r name = MNull)"
| "filter_clause_holds r (JsonEq name v) = (meta_of r name \<noteq> MNull \<and> meta_of r name = v)"
| "filter_clause_holds r (JsonOr a b) = (filter_clause_holds r a \<or> filter_clause_holds r b)"

definition get_by_filters :: "bool \<Rightarrow> string \<Rightarrow> filters \<Rightarrow> sqlstore \<Rightarrow> seg list option \<times> sqlstore" where
  "get_by_filters has_json c fs s =
     (if fs = [] then (None, s)
      else (let s' = s\<lparr>sq_db := ensure_table c (sq_db s)\<rparr>;
                rows = map snd (case sq_db s' c of None \<Rightarrow> [] | Some t \<Rightarrow> t)
            in (if \<not> has_json then None
                else (case build_filter_where fs of
                        None \<Rightarrow> Some []
                      | Some cls \<Rightarrow> Some (filter (\<lambda>r. list_all (filter_clause_holds r) cls) rows)), s')))"

section \<open>Search\<close>

text \<open>
  \<open>_search_by_text\<close>: segments without content are not ranked; a ranked segment is looked up by its uid,
  where the last one of a uid counts, and one without a uid gets a uid of its own that finds nothing.
\<close>

definition search_by_text ::
    "(string \<Rightarrow> seg list \<Rightarrow> (seg \<times> 'sc) list) \<Rightarrow> seg list \<Rightarrow> string \<Rightarrow> nat option \<Rightarrow> (seg \<times> 'sc) list" where
  "search_by_text bm25 segs query topk =
     (let nodes = filter (\<lambda>r. sg_content r \<noteq> []) segs;
          by_uid = dict_of (List.map_filter (\<lambda>r. if given (sg_uid r) then Some (sg_uid r, r) else None) nodes);
          k = (case topk of None \<Rightarrow> length nodes | Some n \<Rightarrow> min n (length nodes))
      in if nodes = [] then []
         else List.map_filter (\<lambda>(r, score). map_option (\<lambda>x. (x, score)) (map_of by_uid (sg_uid r)))
                (take k (bm25 query nodes)))"

record search_args =
  sa_query :: string
  sa_embedding :: bool
  sa_embed_key :: bool
  sa_topk :: "nat option"
  sa_filters :: filters

definition search_args_ok :: "search_args \<Rightarrow> bool" where
  "search_args_ok a \<longleftrightarrow> \<not> sa_embedding a \<and> \<not> sa_embed_key a"

definition mem_search ::
    "(string set \<Rightarrow> string list) \<Rightarrow> (string \<Rightarrow> seg list \<Rightarrow> (seg \<times> 'sc) list) \<Rightarrow> string \<Rightarrow> search_args \<Rightarrow> mapstore
     \<Rightarrow> (seg \<times> 'sc) list res" where
  "mem_search iter bm25 c a s =
     rbind (ensure (search_args_ok a) ValueError) (\<lambda>_.
     rbind (get iter c None no_paging s) (\<lambda>r.
     let segs = apply_filters (fst r) (sa_filters a)
     in Inr (if sa_query a = [] then [] else search_by_text bm25 segs (sa_query a) (sa_topk a))))"

definition sql_search ::
    "bool \<Rightarrow> (string \<Rightarrow> seg list \<Rightarrow> (seg \<times> 'sc) list) \<Rightarrow> string \<Rightarrow> search_args \<Rightarrow> sqlstore
     \<Rightarrow> (seg \<times> 'sc) list res \<times> sqlstore" where
  "sql_search has_json bm25 c a s =
     (if \<not> search_args_ok a then (Inl ValueError, s)
      else
        (let (found, s1) = get_by_filters has_json c (sa_filters a) s;
             (segs, s2) = (case found of
                Some rows \<Rightarrow> (rows, s1)
              | None \<Rightarrow> (case sql_get c None no_paging s1 of ((rows, _), s2) \<Rightarrow> (apply_filters rows (sa_filters a), s2)))
         in (Inr (if sa_query a = [] then [] else search_by_text bm25 segs (sa_query a) (sa_topk a)), s2)))"

section \<open>The two kinds of filter agree\<close>

definition no_tuples :: "filters \<Rightarrow> bool" where
  "no_tuples fs \<longleftrightarrow> (\<forall>vs. CandTuple vs \<notin> snd ` set fs)"

lemma candidate_clause_sound:
  assumes "\<And>vs. cand \<noteq> CandTuple vs"
  shows "(case candidate_clause name cand of None \<Rightarrow> False | Some cl \<Rightarrow> filter_clause_holds r cl) \<longleftrightarrow> filter_holds r (name, cand)"
proof (cases cand)
  case (CandList vs)
  have "MNull \<in> set vs \<longleftrightarrow> length (filter (\<lambda>v. v \<noteq> MNull) vs) \<noteq> length vs"
    by (metis (mono_tags, lifting) filter_id_conv length_filter_less less_irrefl)
  moreover have "filter (\<lambda>v. v \<noteq> MNull) vs = [] \<longleftrightarrow> set vs \<subseteq> {MNull}" by (auto simp: filter_empty_conv)
  ultimately show ?thesis using CandList
    by (cases vs) (auto simp: candidate_clause_def Let_def split: list.splits)
qed (use assms in \<open>auto simp: candidate_clause_def Let_def\<close>)

lemma build_filter_where_sound:
  "no_tuples fs \<Longrightarrow>
   (case build_filter_where fs of None \<Rightarrow> False | Some cls \<Rightarrow> list_all (filter_clause_holds r) cls) \<longleftrightarrow>
   list_all (filter_holds r) fs"
proof (induction fs)
  case (Cons f fs)
  obtain name cand where f: "f = (name, cand)" by (cases f)
  have nt: "no_tuples fs" "\<And>vs. cand \<noteq> CandTuple vs" using Cons.prems by (auto simp: no_tuples_def f)
  show ?case
    using Cons.IH [OF nt(1)] candidate_clause_sound [OF nt(2), where name = name and r = r]
    by (auto simp: f split: option.splits)
qed (simp add: no_tuples_def)

lemma filter_where_rows:
  assumes "no_tuples fs"
  shows "filter (\<lambda>r. list_all (filter_holds r) fs) rows =
    (case build_filter_where fs of None \<Rightarrow> [] | Some cls \<Rightarrow> filter (\<lambda>r. list_all (filter_clause_holds r) cls) rows)"
proof (cases "build_filter_where fs")
  case None
  then have "\<not> list_all (filter_holds r) fs" for r using build_filter_where_sound [OF assms, of r] by simp
  then show ?thesis by (simp add: None)
next
  case (Some cls)
  then have "list_all (filter_holds r) fs = list_all (filter_clause_holds r) cls" for r
    using build_filter_where_sound [OF assms, of r] by simp
  then show ?thesis by (simp add: Some)
qed

text \<open>
  The WHERE clause over the JSON column selects what the filters select in Python, nulls and empty
  candidate lists included, so search ranks the same rows whether or not SQLite has its JSON functions,
  as long as no candidates are given as a tuple.
\<close>

theorem filter_where_agrees:
  assumes "no_tuples (sa_filters a)"
  shows "fst (sql_search True bm25 c a s) = fst (sql_search False bm25 c a s)"
proof -
  let ?s = "s\<lparr>sq_db := ensure_table c (sq_db s)\<rparr>"
  let ?rows = "map snd (case sq_db ?s c of None \<Rightarrow> [] | Some t \<Rightarrow> t)"
  show ?thesis
  proof (cases "sa_filters a = []")
    case True
    then show ?thesis by (simp add: sql_search_def get_by_filters_def)
  next
    case False
    have "filter (\<lambda>r. list_all (filter_holds r) (sa_filters a)) ?rows =
        (case build_filter_where (sa_filters a) of None \<Rightarrow> [] | Some cls \<Rightarrow> filter (\<lambda>r. list_all (filter_clause_holds r) cls) ?rows)"
      by (rule filter_where_rows [OF assms])
    then have t: "fst (get_by_filters True c (sa_filters a) s) = Some (filter (\<lambda>r. list_all (filter_holds r) (sa_filters a)) ?rows)"
      using False by (simp add: get_by_filters_def Let_def split: option.splits)
    have m: "get_by_filters False c (sa_filters a) s = (None, ?s)"
      using False by (simp add: get_by_filters_def Let_def)
    have e: "ensure_table c (ensure_table c (sq_db s)) = ensure_table c (sq_db s)"
      by (simp add: ensure_table_def split: option.splits)
    have q: "sql_get c None no_paging ?s = ((?rows, length ?rows), ?s)"
      by (simp add: sql_get_def e row_selected_def build_where_def Let_def)
    have m': "fst (get_by_filters False c (sa_filters a) s) = None" "snd (get_by_filters False c (sa_filters a) s) = ?s"
      by (simp_all only: m fst_conv snd_conv)
    show ?thesis using False unfolding sql_search_def Let_def case_prod_unfold t m' option.case q
      by (simp only: apply_filters_def fst_conv snd_conv if_False split: if_splits) simp
  qed
qed

definition demo_search :: search_args where
  "demo_search = \<lparr>sa_query = ''q'', sa_embedding = False, sa_embed_key = False, sa_topk = None,
     sa_filters = [(''lang'', CandList [MStr ''en'', MNull]), (''year'', CandOne (MInt 5))]\<rparr>"

theorem filter_where_agrees_witness:
  "fst (sql_search True (\<lambda>q. map (\<lambda>r. (r, 0 :: nat))) ''c'' demo_search (sql_connect [''c''] (\<lambda>_. None))) =
   fst (sql_search False (\<lambda>q. map (\<lambda>r. (r, 0))) ''c'' demo_search (sql_connect [''c''] (\<lambda>_. None)))"
  by (rule filter_where_agrees) (simp add: no_tuples_def demo_search_def)

end
