(* ===== verification/StoreProps.thy ===== *)
theory StoreProps
  imports StoreSearch
begin

text \<open>
  What holds of both ways \<open>MapStore\<close> keeps its segments
  (\<open>lazyllm/tools/rag/store/hybrid/map_store.py\<close>): any history of complete writes and of deletions
  against the abstract store, and the two cases where the code departs from it.
\<close>

definition demo_seg :: "string \<Rightarrow> string \<Rightarrow> seg" where
  "demo_seg u d = \<lparr>sg_uid = Some u, sg_doc = Some d, sg_kb = None, sg_parent = None, sg_number = Some 1, sg_content = d,
     sg_global_meta = []\<rparr>"

definition by_docs :: "string list \<Rightarrow> criteria" where
  "by_docs ds = \<lparr>cr_uids = [], cr_kb = None, cr_docs = ds, cr_parents = [], cr_numbers = []\<rparr>"

definition demo_ops :: "store_op list" where
  "demo_ops = [Upsert ''c'' (demo_seg ''u'' ''d''), Upsert ''c'' (demo_seg ''v'' ''e''), Upsert ''c'' (demo_seg ''u'' ''d''),
     Delete ''c'' (Some (by_docs [''e'']))]"

lemma demo_legal: "legal demo_ops no_contents"
  by (simp add: demo_ops_def demo_seg_def fits_def complete_def given_def no_contents_def same_keys_def with_kb_def
      default_kb_id_def)

lemma demo_contents:
  "fold apply_op demo_ops no_contents ''c'' u = (if u = ''u'' then Some (with_kb (demo_seg ''u'' ''d'')) else None)"
  by (simp add: demo_ops_def restrict_to_def meets_opt_def meets_def by_docs_def kb_given_def no_contents_def
      with_kb_def demo_seg_def)

context set_iteration
begin

lemma store_history:
  "legal ops no_contents \<Longrightarrow>
   map_matching iter c crit (fold (run_op map_put (map_drop iter)) ops connect) =
     answered valueless (fold apply_op ops no_contents) c crit"
  by (rule mem.history)

end

text \<open>
  C3. Whatever order Python iterates its sets in, the store in memory refines the abstract one: after
  any history of writes and deletions in which every written segment is complete and replaces only a
  segment with its own keys, the indexes answer a query with exactly the segments that were last
  written, not deleted, and meet the criteria. The one query that is not answered raises a
  \<open>ValueError\<close>: criteria that name no values, on a collection without segments.
\<close>

theorem store_refines_contents:
  assumes "\<And>A. finite A \<Longrightarrow> set (iter A) = A" and "legal ops no_contents"
  shows "map_matching iter c crit (fold (run_op map_put (map_drop iter)) ops connect) =
    (if valueless crit \<and> (\<forall>u. fold apply_op ops no_contents c u = None) then Inl ValueError
     else Inr {it. \<exists>u. fold apply_op ops no_contents c u = Some it \<and> meets_opt crit it})"
  using set_iteration.store_history [OF set_iteration.intro, of iter ops c crit] assms
  by (simp add: answered_def selected_def meets_opt_def)

lemma demo_fold: "fold apply_op demo_ops no_contents c u =
    (if c = ''c'' \<and> u = ''u'' then Some (with_kb (demo_seg ''u'' ''d'')) else None)"
  by (cases "c = ''c''", simp_all add: demo_contents)
    (simp add: demo_ops_def no_contents_def)

theorem store_refines_contents_witness:
  "map_matching sorted_list_of_set ''c'' (Some (by_docs [])) (fold (run_op map_put (map_drop sorted_list_of_set)) demo_ops connect) =
     Inr {with_kb (demo_seg ''u'' ''d'')} \<and>
   map_matching sorted_list_of_set ''b'' (Some (by_docs [])) (fold (run_op map_put (map_drop sorted_list_of_set)) demo_ops connect) =
     Inl ValueError"
proof -
  have v: "valueless (Some (by_docs []))" by (simp add: valueless_def any_given_def by_docs_def kb_given_def)
  have m: "map_matching sorted_list_of_set c (Some (by_docs [])) (fold (run_op map_put (map_drop sorted_list_of_set)) demo_ops connect) =
    (if valueless (Some (by_docs [])) \<and> (\<forall>u. fold apply_op demo_ops no_contents c u = None) then Inl ValueError
     else Inr {it. \<exists>u. fold apply_op demo_ops no_contents c u = Some it \<and> meets_opt (Some (by_docs [])) it})" for c
    by (rule store_refines_contents) (simp_all add: demo_legal)
  show ?thesis unfolding m by (simp add: demo_fold v valueless_meets)
qed

text \<open>
  C27. The two ways to keep the segments agree but for one query. After the same legal history on an
  empty database, the SQL query returns the segments that the indexes in memory return, for any
  criteria; only for criteria that name no values, on a collection without segments, the store in memory
  raises a \<open>ValueError\<close> where the database answers with no segments.
\<close>

theorem sql_agrees_with_memory:
  assumes "\<And>A. finite A \<Longrightarrow> set (iter A) = A" and "legal ops no_contents"
    and "sql = fold (run_op sql_put (sql_drop sorted_list_of_set)) ops (sql_connect [] (\<lambda>_. None))"
    and "mem = fold (run_op map_put (map_drop iter)) ops connect"
  shows "if valueless crit \<and> map_matching iter c None mem = Inr {}
    then map_matching iter c crit mem = Inl ValueError \<and> sql_matching c crit sql = Inr {}
    else map_matching iter c crit mem = sql_matching c crit sql \<and> (\<exists>its. sql_matching c crit sql = Inr its)"
proof -
  let ?m = "fold apply_op ops no_contents"
  have m: "map_matching iter c cr mem = answered valueless ?m c cr" for cr
    using set_iteration.store_history [OF set_iteration.intro assms(2)] assms(1,4) by simp
  have q: "sql_matching c crit sql = Inr (selected ?m c crit)"
    using sql.history [OF assms(2)] by (simp add: assms(3) answered_def)
  show ?thesis by (simp add: m q answered_def valueless_def [of None] valueless_selected)
qed

theorem sql_agrees_with_memory_witness:
  "map_matching sorted_list_of_set ''b'' (Some (by_docs [])) (fold (run_op map_put (map_drop sorted_list_of_set)) demo_ops connect) =
     Inl ValueError \<and>
   sql_matching ''b'' (Some (by_docs []))
     (fold (run_op sql_put (sql_drop sorted_list_of_set)) demo_ops (sql_connect [] (\<lambda>_. None))) = Inr {}"
proof -
  have v: "valueless (Some (by_docs []))" by (simp add: valueless_def any_given_def by_docs_def kb_given_def)
  have n: "map_matching sorted_list_of_set ''b'' None (fold (run_op map_put (map_drop sorted_list_of_set)) demo_ops connect) =
      Inr {}"
    using ascending.store_history [OF demo_legal, of "''b''" None]
    by (simp add: answered_def selected_def demo_fold valueless_def)
  from sql_agrees_with_memory [OF _ demo_legal refl refl, of sorted_list_of_set "Some (by_docs [])" "''b''"] n v
  show ?thesis by simp
qed

text \<open>
  Deleting with criteria that name no values, such as an empty list of uids or documents, is
  deleting without criteria: it empties the collection, and on an empty collection it reports failure.
\<close>

theorem delete_without_values_deletes_all:
  assumes "\<not> any_given cr"
  shows "delete_uids iter c (Some cr) s =
    (if ms_col s c = {} then (False, s) else delete_uids iter c None s)"
  using assms by (simp add: delete_uids_def uids_by_criteria_def any_given_def)

theorem delete_without_values_deletes_all_witness:
  "ms_col (snd (delete_uids sorted_list_of_set ''c'' (Some (by_docs [])) (map_put ''c'' (demo_seg ''u'' ''d'') connect))) ''c'' = {}"
proof -
  have p: "map_put ''c'' (demo_seg ''u'' ''d'') connect = cached ''c'' ''u'' (with_kb (demo_seg ''u'' ''d'')) connect"
    by (simp add: map_put_def upsert_def upsert_item_complete complete_def given_def demo_seg_def)
  have "\<not> any_given (by_docs [])" by (simp add: any_given_def by_docs_def kb_given_def)
  from delete_without_values_deletes_all [OF this, of sorted_list_of_set "''c''" "cached ''c'' ''u'' (with_kb (demo_seg ''u'' ''d'')) connect"]
  show ?thesis unfolding p
    by (simp add: cached_def connect_def delete_uids_def uids_by_criteria_def remove_uid_def Let_def)
qed

text \<open>
  Writing a segment again under another document leaves its uid in the index of the old document: a
  query for the old document then returns the segment of the new one.
\<close>

theorem rewrite_leaves_old_document:
  assumes "\<And>A. finite A \<Longrightarrow> set (iter A) = A" and "complete a" and "complete b" and "sg_uid a = sg_uid b"
    and "sg_doc a = Some d" and "sg_doc b \<noteq> Some d"
  shows "map_matching iter c (Some (by_docs [d])) (map_put c b (map_put c a connect)) = Inr {with_kb b}"
proof -
  obtain u e where b: "sg_uid b = Some u" "sg_doc b = Some e" "e \<noteq> d"
    using assms(3,6) by (auto simp: complete_def given_def split: option.splits)
  have p: "map_put c b (map_put c a connect) = cached c u (with_kb b) (cached c u (with_kb a) connect)"
    using assms(2,3,4) b(1) by (simp add: map_put_def upsert_def upsert_item_complete)
  have us: "set (iter {u}) = {u}" using assms(1) by simp
  have "uids_by_criteria c (Some (by_docs [d])) (cached c u (with_kb b) (cached c u (with_kb a) connect)) = Inr {u}"
    using assms(5) by (simp add: uids_by_criteria_def by_docs_def kb_given_def doc_uids_def cached_def connect_def
      upd2_def with_kb_def Let_def)
  then show ?thesis unfolding p
    using us by (auto simp: map_matching_def get_def Let_def List.map_filter_def cached_def)
qed

theorem rewrite_leaves_old_document_witness:
  "map_matching sorted_list_of_set ''c'' (Some (by_docs [''d'']))
     (map_put ''c'' (demo_seg ''u'' ''e'') (map_put ''c'' (demo_seg ''u'' ''d'') connect)) = Inr {with_kb (demo_seg ''u'' ''e'')}"
  by (rule rewrite_leaves_old_document [of sorted_list_of_set "demo_seg ''u'' ''d''"])
    (simp_all add: demo_seg_def complete_def given_def)

end
