(* ===== verification/FsQueue.thy ===== *)
theory FsQueue
  imports Prelude
begin

text \<open>
  The queues of \<open>lazyllm/common/queue.py\<close>: \<open>RecentQueue\<close>, the interface of \<open>FileSystemQueue\<close> and its
  SQLite and Redis implementations. A table is the list of its rows; the commands of a Redis server are
  a parameter.
\<close>

section \<open>The interface\<close>

datatype 'm queue_op = Enq string 'm | Deq string "nat option" | Clr string

text \<open>What a queue is: a list per identifier. A limit of 0 is no limit.\<close>

definition upto_limit :: "nat option \<Rightarrow> 'm list \<Rightarrow> 'm list" where
  "upto_limit limit xs = (case limit of None \<Rightarrow> xs | Some 0 \<Rightarrow> xs | Some n \<Rightarrow> take n xs)"

definition beyond_limit :: "nat option \<Rightarrow> 'm list \<Rightarrow> 'm list" where
  "beyond_limit limit xs = (case limit of None \<Rightarrow> [] | Some 0 \<Rightarrow> [] | Some n \<Rightarrow> drop n xs)"

lemma limit_split [simp]: "upto_limit limit xs @ beyond_limit limit xs = xs"
  by (auto simp: upto_limit_def beyond_limit_def split: option.splits nat.splits)

text \<open>A history of operations, with what each identifier has received so far.\<close>

fun run_queue ::
    "(string \<Rightarrow> 'm \<Rightarrow> 's \<Rightarrow> 's) \<Rightarrow> (string \<Rightarrow> nat option \<Rightarrow> 's \<Rightarrow> 'm list \<times> 's) \<Rightarrow> (string \<Rightarrow> 's \<Rightarrow> 's)
     \<Rightarrow> 'm queue_op list \<Rightarrow> (string \<Rightarrow> 'm list) \<times> 's \<Rightarrow> (string \<Rightarrow> 'm list) \<times> 's" where
  "run_queue enq deq clr [] st = st"
| "run_queue enq deq clr (Enq q m # ops) (got, s) = run_queue enq deq clr ops (got, enq q m s)"
| "run_queue enq deq clr (Deq q l # ops) (got, s) =
     (case deq q l s of (ms, s') \<Rightarrow> run_queue enq deq clr ops (got(q := got q @ ms), s'))"
| "run_queue enq deq clr (Clr q # ops) (got, s) = run_queue enq deq clr ops (got, clr q s)"

fun sent_to :: "string \<Rightarrow> 'm queue_op list \<Rightarrow> 'm list" where
  "sent_to q [] = []"
| "sent_to q (Enq p m # ops) = (if p = q then m # sent_to q ops else sent_to q ops)"
| "sent_to q (_ # ops) = sent_to q ops"

locale fifo =
  fixes inv :: "'s \<Rightarrow> bool"
    and items :: "'s \<Rightarrow> string \<Rightarrow> 'm list"
    and new :: 's
    and enq :: "string \<Rightarrow> 'm \<Rightarrow> 's \<Rightarrow> 's"
    and deq :: "string \<Rightarrow> nat option \<Rightarrow> 's \<Rightarrow> 'm list \<times> 's"
    and clr :: "string \<Rightarrow> 's \<Rightarrow> 's"
    and peek :: "string \<Rightarrow> 's \<Rightarrow> 'm option"
    and len :: "string \<Rightarrow> 's \<Rightarrow> nat"
  assumes new: "inv new" "items new = (\<lambda>_. [])"
    and enq: "inv s \<Longrightarrow> inv (enq q m s) \<and> items (enq q m s) = (items s)(q := items s q @ [m])"
    and deq: "inv s \<Longrightarrow> fst (deq q l s) = upto_limit l (items s q) \<and> inv (snd (deq q l s)) \<and>
      items (snd (deq q l s)) = (items s)(q := beyond_limit l (items s q))"
    and clr: "inv s \<Longrightarrow> inv (clr q s) \<and> items (clr q s) = (items s)(q := [])"
    and peek: "inv s \<Longrightarrow> peek q s = (case items s q of [] \<Rightarrow> None | m # _ \<Rightarrow> Some m)"
    and len: "inv s \<Longrightarrow> len q s = length (items s q)"
begin

lemma run_inv: "inv s \<Longrightarrow> inv (snd (run_queue enq deq clr ops (got, s)))"
proof (induction ops arbitrary: got s)
  case (Cons op ops)
  show ?case
  proof (cases op)
    case (Deq q l)
    obtain ms s' where "deq q l s = (ms, s')" by (cases "deq q l s")
    with deq [OF Cons.prems, of q l] Cons.IH show ?thesis by (simp add: Deq)
  qed (use Cons enq clr in simp_all)
qed simp

lemma conservation:
  assumes "inv s" and "Clr q \<notin> set ops"
  shows "(let (got', s') = run_queue enq deq clr ops (got, s) in got' q @ items s' q) =
    got q @ items s q @ sent_to q ops"
  using assms
proof (induction ops arbitrary: got s)
  case (Cons op ops)
  show ?case
  proof (cases op)
    case (Enq p m)
    with Cons.IH [of "enq p m s" got] Cons.prems enq [OF Cons.prems(1), of p m] show ?thesis by (auto simp: Let_def)
  next
    case (Clr p)
    with Cons.IH [of "clr p s" got] Cons.prems clr [OF Cons.prems(1), of p] show ?thesis by (auto simp: Let_def)
  next
    case (Deq p l)
    obtain ms s' where e: "deq p l s = (ms, s')" by (cases "deq p l s")
    with deq [OF Cons.prems(1), of p l] have d: "ms = upto_limit l (items s p)" "inv s'"
      "items s' = (items s)(p := beyond_limit l (items s p))" by simp_all
    have h: "ms @ beyond_limit l (items s p) @ zs = items s p @ zs" for zs
      using limit_split [of l "items s p"] by (simp only: d(1) append.assoc [symmetric])
    have "Clr q \<notin> set ops" using Cons.prems(2) by simp
    note IH = Cons.IH [OF d(2) this, of "got(p := got p @ ms)"]
    have "(got(p := got p @ ms)) q @ items s' q = got q @ items s q"
      using h [of "[]"] by (cases "p = q") (simp_all add: d(3))
    then have "(got(p := got p @ ms)) q @ items s' q @ sent_to q ops = got q @ items s q @ sent_to q ops"
      by (simp only: append.assoc [symmetric])
    with IH show ?thesis unfolding Deq run_queue.simps e prod.case sent_to.simps by (rule trans)
  qed
qed (simp add: Let_def)

lemma fifo_history:
  assumes "Clr q \<notin> set ops" and "run_queue enq deq clr ops (\<lambda>_. [], new) = (got, s)"
  shows "got q @ items s q = sent_to q ops" "peek q s = (case items s q of [] \<Rightarrow> None | m # _ \<Rightarrow> Some m)"
    "len q s + length (got q) = length (sent_to q ops)"
proof -
  show a: "got q @ items s q = sent_to q ops"
    using conservation [OF new(1) assms(1), of "\<lambda>_. []"] by (simp add: assms(2) new(2))
  have i: "inv s" using run_inv [OF new(1), of ops "\<lambda>_. []"] by (simp add: assms(2))
  show "peek q s = (case items s q of [] \<Rightarrow> None | m # _ \<Rightarrow> Some m)" by (rule peek [OF i])
  show "len q s + length (got q) = length (sent_to q ops)" unfolding len [OF i] a [symmetric] by simp
qed

end

section \<open>SQLite\<close>

record 'm qrow =
  qr_id :: string
  qr_pos :: nat
  qr_msg :: 'm

type_synonym 'm qtable = "'m qrow list"

definition initialize_db :: "'m qtable" where "initialize_db = []"

text \<open>\<open>SELECT MAX(position)\<close> of no row is NULL.\<close>

definition max_pos :: "string \<Rightarrow> 'm qtable \<Rightarrow> nat option" where
  "max_pos q t = (case map qr_pos (filter (\<lambda>r. qr_id r = q) t) of [] \<Rightarrow> None | p # ps \<Rightarrow> Some (fold max ps p))"

definition sql_enqueue :: "string \<Rightarrow> 'm \<Rightarrow> 'm qtable \<Rightarrow> 'm qtable" where
  "sql_enqueue q m t =
     t @ [\<lparr>qr_id = q, qr_pos = (case max_pos q t of None \<Rightarrow> 0 | Some p \<Rightarrow> p + 1), qr_msg = m\<rparr>]"

definition ordered_rows :: "string \<Rightarrow> 'm qtable \<Rightarrow> 'm qrow list" where
  "ordered_rows q t = sort_key qr_pos (filter (\<lambda>r. qr_id r = q) t)"

definition sql_dequeue :: "string \<Rightarrow> nat option \<Rightarrow> 'm qtable \<Rightarrow> 'm list \<times> 'm qtable" where
  "sql_dequeue q limit t =
     (let rows = (case limit of Some (Suc n) \<Rightarrow> take (Suc n) (ordered_rows q t) | _ \<Rightarrow> ordered_rows q t)
      in if rows = [] then ([], t)
         else (map qr_msg rows, filter (\<lambda>r. \<not> (qr_id r = q \<and> qr_pos r \<in> set (map qr_pos rows))) t))"

definition sql_peek :: "string \<Rightarrow> 'm qtable \<Rightarrow> 'm option" where
  "sql_peek q t = (case take 1 (ordered_rows q t) of [] \<Rightarrow> None | r # _ \<Rightarrow> Some (qr_msg r))"

definition sql_size :: "string \<Rightarrow> 'm qtable \<Rightarrow> nat" where
  "sql_size q t = length (filter (\<lambda>r. qr_id r = q) t)"

definition sql_clear :: "string \<Rightarrow> 'm qtable \<Rightarrow> 'm qtable" where
  "sql_clear q t = filter (\<lambda>r. qr_id r \<noteq> q) t"

text \<open>The rows of an identifier stand in the order of their positions, and no position occurs twice.\<close>

definition queue_inv :: "'m qtable \<Rightarrow> bool" where
  "queue_inv t \<longleftrightarrow> (\<forall>q. sorted_wrt (<) (map qr_pos (filter (\<lambda>r. qr_id r = q) t)))"

definition queue_items :: "'m qtable \<Rightarrow> string \<Rightarrow> 'm list" where
  "queue_items t q = map qr_msg (filter (\<lambda>r. qr_id r = q) t)"

lemma fold_max_ge: "x \<in> set (p # ps) \<Longrightarrow> x \<le> fold max ps (p :: nat)"
  by (simp flip: Max.set_eq_fold)

lemma next_pos_greater:
  assumes "r \<in> set t" and "qr_id r = q"
  shows "qr_pos r < (case max_pos q t of None \<Rightarrow> 0 | Some p \<Rightarrow> p + 1)"
proof -
  let ?ps = "map qr_pos (filter (\<lambda>r. qr_id r = q) t)"
  have "qr_pos r \<in> set ?ps" using assms by auto
  then show ?thesis using fold_max_ge [of "qr_pos r"]
    by (cases ?ps) (auto simp: max_pos_def less_Suc_eq_le simp del: set_map)
qed

lemma ordered_rows_inv: "queue_inv t \<Longrightarrow> ordered_rows q t = filter (\<lambda>r. qr_id r = q) t"
  by (simp add: ordered_rows_def queue_inv_def sorted_sort_id sort_key_id_if_sorted strict_sorted_imp_sorted)

lemma enqueue_law:
  "queue_inv t \<Longrightarrow> queue_inv (sql_enqueue q m t) \<and>
   queue_items (sql_enqueue q m t) = (queue_items t)(q := queue_items t q @ [m])"
proof -
  assume inv: "queue_inv t"
  define p where "p = (case max_pos q t of None \<Rightarrow> 0 | Some p \<Rightarrow> p + 1)"
  have f: "filter (\<lambda>r. qr_id r = q') (sql_enqueue q m t) =
      filter (\<lambda>r. qr_id r = q') t @ (if q' = q then [\<lparr>qr_id = q, qr_pos = p, qr_msg = m\<rparr>] else [])" for q'
    by (simp add: sql_enqueue_def p_def)
  have "\<forall>x \<in> set (map qr_pos (filter (\<lambda>r. qr_id r = q) t)). x < p"
    using next_pos_greater [of _ t q] by (auto simp: p_def)
  with inv have "queue_inv (sql_enqueue q m t)" unfolding queue_inv_def f by (simp add: sorted_wrt_append)
  moreover have "queue_items (sql_enqueue q m t) = (queue_items t)(q := queue_items t q @ [m])"
    by (rule ext) (simp add: queue_items_def f)
  ultimately show ?thesis ..
qed

lemma filter_beyond:
  "sorted_wrt (<) (map f xs) \<Longrightarrow> filter (\<lambda>x. f x \<notin> set (map f (take n xs))) xs = drop n xs"
  for f :: "'a \<Rightarrow> nat"
proof (induction xs arbitrary: n)
  case (Cons x xs)
  show ?case
  proof (cases n)
    case (Suc m)
    have "filter (\<lambda>y. f y \<notin> set (map f (take n (x # xs)))) xs = filter (\<lambda>y. f y \<notin> set (map f (take m xs))) xs"
      using Cons.prems by (intro filter_cong) (auto simp: Suc)
    moreover have "filter (\<lambda>y. f y \<notin> set (map f (take m xs))) xs = drop m xs" using Cons by simp
    ultimately show ?thesis by (simp add: Suc)
  qed simp
qed simp

lemma dequeue_law:
  assumes "queue_inv t"
  shows "fst (sql_dequeue q l t) = upto_limit l (queue_items t q) \<and> queue_inv (snd (sql_dequeue q l t)) \<and>
    queue_items (snd (sql_dequeue q l t)) = (queue_items t)(q := beyond_limit l (queue_items t q))"
proof -
  let ?rs = "filter (\<lambda>r. qr_id r = q) t"
  define n where "n = (case l of Some (Suc n) \<Rightarrow> Suc n | _ \<Rightarrow> length ?rs)"
  have rows: "(case l of Some (Suc n) \<Rightarrow> take (Suc n) (ordered_rows q t) | _ \<Rightarrow> ordered_rows q t) = take n ?rs"
    by (simp add: n_def ordered_rows_inv [OF assms] split: option.splits nat.splits)
  have lim: "upto_limit l (queue_items t q) = map qr_msg (take n ?rs)"
    "beyond_limit l (queue_items t q) = map qr_msg (drop n ?rs)"
    by (auto simp: upto_limit_def beyond_limit_def queue_items_def n_def take_map drop_map split: option.splits nat.splits)
  define t' where "t' = filter (\<lambda>r. \<not> (qr_id r = q \<and> qr_pos r \<in> set (map qr_pos (take n ?rs)))) t"
  have d: "sql_dequeue q l t = (map qr_msg (take n ?rs), t')"
    unfolding sql_dequeue_def Let_def rows t'_def by (auto simp: filter_id_conv)
  have s: "sorted_wrt (<) (map qr_pos ?rs)" using assms by (simp add: queue_inv_def)
  have own: "filter (\<lambda>r. qr_id r = q) t' = drop n ?rs"
  proof -
    have "filter (\<lambda>r. qr_id r = q) t' = filter (\<lambda>r. qr_pos r \<notin> set (map qr_pos (take n ?rs))) ?rs"
      by (auto simp: t'_def intro: filter_cong)
    then show ?thesis using filter_beyond [OF s, of n] by simp
  qed
  have other: "filter (\<lambda>r. qr_id r = p) t' = filter (\<lambda>r. qr_id r = p) t" if "p \<noteq> q" for p
    using that by (auto simp: t'_def intro: filter_cong)
  have "sorted_wrt (<) (map qr_pos (filter (\<lambda>r. qr_id r = p) t'))" for p
    using assms s by (cases "p = q") (auto simp: own other queue_inv_def sorted_wrt_drop simp flip: drop_map)
  then have "queue_inv t'" by (simp add: queue_inv_def)
  moreover have "queue_items t' = (queue_items t)(q := map qr_msg (drop n ?rs))"
    using own other by (auto simp: queue_items_def fun_eq_iff)
  ultimately show ?thesis by (simp add: d lim)
qed

lemma clear_law:
  assumes "queue_inv t"
  shows "queue_inv (sql_clear q t) \<and> queue_items (sql_clear q t) = (queue_items t)(q := [])"
proof -
  have "filter (\<lambda>r. qr_id r = p) (sql_clear q t) = (if p = q then [] else filter (\<lambda>r. qr_id r = p) t)" for p
    by (auto simp: sql_clear_def filter_empty_conv intro: filter_cong)
  with assms show ?thesis by (simp add: queue_inv_def queue_items_def fun_eq_iff)
qed

lemma peek_law: "queue_inv t \<Longrightarrow> sql_peek q t = (case queue_items t q of [] \<Rightarrow> None | m # _ \<Rightarrow> Some m)"
  by (cases "filter (\<lambda>r. qr_id r = q) t") (simp_all add: sql_peek_def ordered_rows_inv queue_items_def)

lemma size_law: "sql_size q t = length (queue_items t q)"
  by (simp add: sql_size_def queue_items_def)

lemma new_law: "queue_inv initialize_db" "queue_items initialize_db = (\<lambda>_. [])"
  by (simp_all add: queue_inv_def queue_items_def initialize_db_def fun_eq_iff)

interpretation sq: fifo queue_inv queue_items initialize_db sql_enqueue sql_dequeue sql_clear sql_peek sql_size
  by unfold_locales (rule new_law enqueue_law dequeue_law clear_law peek_law size_law; assumption?)+

text \<open>
  C12. The SQLite queue is a queue: over any history from an empty table, with limits, and with other
  sessions' queues in the same table, what an identifier has received followed by what is still queued is
  what was sent to it, in order, once each; peek shows the next message and size counts the rest.
\<close>

theorem sqlite_queue_fifo:
  assumes "Clr q \<notin> set ops"
    and "run_queue sql_enqueue sql_dequeue sql_clear ops (\<lambda>_. [], initialize_db) = (got, t)"
  shows "got q @ queue_items t q = sent_to q ops \<and>
    sql_peek q t = (case queue_items t q of [] \<Rightarrow> None | m # _ \<Rightarrow> Some m) \<and>
    sql_size q t + length (got q) = length (sent_to q ops)"
  using sq.fifo_history [OF assms] by blast

theorem sqlite_queue_fifo_witness:
  "\<exists>got t. run_queue sql_enqueue sql_dequeue sql_clear
       [Enq ''a'' 1, Enq ''b'' 7, Enq ''a'' 2, Enq ''a'' (3 :: nat), Deq ''a'' (Some 2), Clr ''b''] (\<lambda>_. [], initialize_db) = (got, t) \<and>
     got ''a'' @ queue_items t ''a'' = [1, 2, 3]"
proof -
  obtain got t where r: "run_queue sql_enqueue sql_dequeue sql_clear
       [Enq ''a'' 1, Enq ''b'' 7, Enq ''a'' 2, Enq ''a'' (3 :: nat), Deq ''a'' (Some 2), Clr ''b''] (\<lambda>_. [], initialize_db) = (got, t)"
    by fastforce
  from sqlite_queue_fifo [OF _ this, of "''a''"] have "got ''a'' @ queue_items t ''a'' = [1, 2, 3]" by simp
  with r show ?thesis by blast
qed

section \<open>Redis\<close>

text \<open>
  The list commands of the server, on its keys; \<open>documented\<close> is what the Redis documentation says of
  the ones the queue relies on. A list that becomes empty is a key that does not exist.
\<close>

record ('s, 'm) redis =
  rd_exists :: "'s \<Rightarrow> string \<Rightarrow> bool"
  rd_rpush :: "'s \<Rightarrow> string \<Rightarrow> 'm \<Rightarrow> 's"
  rd_lrange :: "'s \<Rightarrow> string \<Rightarrow> int \<Rightarrow> int \<Rightarrow> 'm list"
  rd_ltrim :: "'s \<Rightarrow> string \<Rightarrow> int \<Rightarrow> int \<Rightarrow> 's"
  rd_lindex :: "'s \<Rightarrow> string \<Rightarrow> int \<Rightarrow> 'm option"
  rd_llen :: "'s \<Rightarrow> string \<Rightarrow> nat"
  rd_delete :: "'s \<Rightarrow> string \<Rightarrow> 's"

definition redis_bound :: "nat \<Rightarrow> int \<Rightarrow> int" where
  "redis_bound n i = (if i < 0 then max 0 (i + int n) else i)"

text \<open>The elements from one index to another, both included; an index below 0 counts from the end.\<close>

definition redis_range :: "int \<Rightarrow> int \<Rightarrow> 'm list \<Rightarrow> 'm list" where
  "redis_range i j xs =
     (let a = redis_bound (length xs) i; b = (if j < 0 then j + int (length xs) else j)
      in take (nat (b + 1 - a)) (drop (nat a) xs))"

definition documented :: "('s, 'm) redis \<Rightarrow> ('s \<Rightarrow> string \<Rightarrow> 'm list) \<Rightarrow> bool" where
  "documented r view \<longleftrightarrow>
     (\<forall>s k. rd_exists r s k \<longleftrightarrow> view s k \<noteq> []) \<and>
     (\<forall>s k m. view (rd_rpush r s k m) = (view s)(k := view s k @ [m])) \<and>
     (\<forall>s k i j. rd_lrange r s k i j = redis_range i j (view s k)) \<and>
     (\<forall>s k i j. view (rd_ltrim r s k i j) = (view s)(k := redis_range i j (view s k))) \<and>
     (\<forall>s k i. rd_lindex r s k i = (if 0 \<le> i \<and> nat i < length (view s k) then Some (view s k ! nat i) else None)) \<and>
     (\<forall>s k. rd_llen r s k = length (view s k)) \<and>
     (\<forall>s k. view (rd_delete r s k) = (view s)(k := []))"

definition redis_init :: "('s, 'm) redis \<Rightarrow> 'm \<Rightarrow> string \<Rightarrow> 's \<Rightarrow> 's" where
  "redis_init r start q s = (if rd_exists r s q then s else rd_rpush r s q start)"

definition redis_enqueue :: "('s, 'm) redis \<Rightarrow> string \<Rightarrow> 'm \<Rightarrow> 's \<Rightarrow> 's" where
  "redis_enqueue r q m s = rd_rpush r s q m"

definition redis_dequeue :: "('s, 'm) redis \<Rightarrow> string \<Rightarrow> nat option \<Rightarrow> 's \<Rightarrow> 'm list \<times> 's" where
  "redis_dequeue r q limit s =
     (case limit of
        Some (Suc n) \<Rightarrow> (let k = int (Suc n) + 1 in (rd_lrange r s q 1 k, rd_ltrim r s q k (-1)))
      | _ \<Rightarrow> (rd_lrange r s q 1 (-1), rd_ltrim r s q 0 0))"

definition redis_peek :: "('s, 'm) redis \<Rightarrow> string \<Rightarrow> 's \<Rightarrow> 'm option" where
  "redis_peek r q s = rd_lindex r s q 1"

definition redis_size :: "('s, 'm) redis \<Rightarrow> string \<Rightarrow> 's \<Rightarrow> int" where
  "redis_size r q s = int (rd_llen r s q) - 1"

definition redis_clear :: "('s, 'm) redis \<Rightarrow> string \<Rightarrow> 's \<Rightarrow> 's" where
  "redis_clear r q s = rd_delete r s q"

lemma redis_range_from: "0 \<le> i \<Longrightarrow> redis_range i (-1) xs = drop (nat i) xs"
  by (auto simp: redis_range_def redis_bound_def Let_def nat_diff_distrib')

lemma redis_range_upto: "0 \<le> i \<Longrightarrow> 0 \<le> j \<Longrightarrow> i \<le> j + 1 \<Longrightarrow> redis_range i j xs = take (nat (j + 1 - i)) (drop (nat i) xs)"
  by (auto simp: redis_range_def redis_bound_def Let_def)

lemma redis_view:
  assumes "documented r view"
  shows "view (redis_enqueue r q m s) q = view s q @ [m]"
    and "view (redis_clear r q s) q = []"
    and "redis_size r q s = int (length (view s q)) - 1"
    and "fst (redis_dequeue r q None s) = drop 1 (view s q)"
    and "view (snd (redis_dequeue r q None s)) q = take 1 (view s q)"
    and "fst (redis_dequeue r q (Some (Suc n)) s) = take (n + 2) (drop 1 (view s q))"
    and "view (snd (redis_dequeue r q (Some (Suc n)) s)) q = drop (n + 2) (view s q)"
  using assms
  by (simp_all add: documented_def redis_enqueue_def redis_clear_def redis_size_def redis_dequeue_def
      redis_range_from redis_range_upto Let_def nat_add_distrib)

text \<open>
  The Redis queue keeps a marker at the head of its list, and two operations lose it. A dequeue with
  a limit returns one message more than the limit, and on a list that is not longer it leaves nothing, the
  marker included; so does a clear. The message sent next takes the marker's place: the size stays 0, and
  no dequeue returns it.
\<close>

theorem redis_queue_loses_message:
  assumes "documented r view" and "view s q = start # ms" and "length ms \<le> Suc n"
  shows "(let (got, s1) = redis_dequeue r q (Some (Suc n)) s; s2 = redis_enqueue r q m s1
          in got = ms \<and> redis_size r q s2 = 0 \<and> fst (redis_dequeue r q None s2) = []) \<and>
         (let s2 = redis_enqueue r q m (redis_clear r q s)
          in redis_size r q s2 = 0 \<and> fst (redis_dequeue r q None s2) = []) \<and>
         (length (fst (redis_dequeue r q (Some (Suc n)) (redis_enqueue r q m (redis_enqueue r q m s)))) =
            min (length ms + 2) (n + 2))"
  using assms(2,3) by (simp add: Let_def case_prod_unfold redis_view [OF assms(1)])

text \<open>A server that keeps its lists in a function.\<close>

definition list_server :: "(string \<Rightarrow> nat list, nat) redis" where
  "list_server = \<lparr>rd_exists = (\<lambda>s k. s k \<noteq> []), rd_rpush = (\<lambda>s k m. s(k := s k @ [m])),
     rd_lrange = (\<lambda>s k i j. redis_range i j (s k)), rd_ltrim = (\<lambda>s k i j. s(k := redis_range i j (s k))),
     rd_lindex = (\<lambda>s k i. if 0 \<le> i \<and> nat i < length (s k) then Some (s k ! nat i) else None),
     rd_llen = (\<lambda>s k. length (s k)), rd_delete = (\<lambda>s k. s(k := []))\<rparr>"

lemma list_server_documented: "documented list_server (\<lambda>s. s)"
  by (simp add: documented_def list_server_def)

theorem redis_queue_loses_message_witness:
  "(let s2 = redis_enqueue list_server ''q'' 5 (redis_clear list_server ''q'' (\<lambda>_. [0]))
    in redis_size list_server ''q'' s2 = 0 \<and> fst (redis_dequeue list_server ''q'' None s2) = [])"
  using redis_queue_loses_message [OF list_server_documented, of "\<lambda>_. [0]" "''q''" 0 "[]" 0 5] by simp

section \<open>Recent inputs\<close>

record 'm recent_queue =
  rq_items :: "'m list"
  rq_k :: nat
  rq_recent :: "'m list"

definition recent_limit :: "nat \<Rightarrow> nat \<Rightarrow> nat" where
  "recent_limit recent_k default_k = (if recent_k = 0 then default_k else recent_k)"

definition recent_new :: "nat \<Rightarrow> nat \<Rightarrow> 'm recent_queue" where
  "recent_new recent_k default_k = \<lparr>rq_items = [], rq_k = recent_limit recent_k default_k, rq_recent = []\<rparr>"

text \<open>\<open>deque(maxlen=k)\<close> drops its first element when it is full.\<close>

definition recent_put :: "'m \<Rightarrow> 'm recent_queue \<Rightarrow> 'm recent_queue" where
  "recent_put m q =
     (let q' = q\<lparr>rq_items := rq_items q @ [m]\<rparr>
      in if rq_k q = 0 then q'
         else q'\<lparr>rq_recent := drop (Suc (length (rq_recent q)) - rq_k q) (rq_recent q @ [m])\<rparr>)"

definition get_recent :: "'m recent_queue \<Rightarrow> 'm list" where
  "get_recent q = (if rq_k q = 0 then [] else rq_recent q)"

definition get_recent_joined :: "string \<Rightarrow> string option \<Rightarrow> string recent_queue \<Rightarrow> string" where
  "get_recent_joined sep prefix q =
     (let j = concat (case get_recent q of [] \<Rightarrow> [] | m # ms \<Rightarrow> m # concat (map (\<lambda>x. [sep, x]) ms))
      in case prefix of None \<Rightarrow> j | Some p \<Rightarrow> if p \<noteq> [] \<and> j \<noteq> [] then p @ j else j)"

lemma drop_window:
  "0 < k \<Longrightarrow> drop (Suc (length (drop (length xs - k) xs)) - k) (drop (length xs - k) xs @ [m]) =
     drop (Suc (length xs) - k) (xs @ [m])"
  by (cases "k \<le> length xs") (simp_all add: Suc_diff_le)

lemma recent_window:
  "rq_k (fold recent_put ms (recent_new k d)) = recent_limit k d \<and>
   (recent_limit k d \<noteq> 0 \<longrightarrow>
     rq_recent (fold recent_put ms (recent_new k d)) = drop (length ms - recent_limit k d) ms)"
proof (induction ms rule: rev_induct)
  case (snoc m ms)
  define K where "K = recent_limit k d"
  define q where "q = fold recent_put ms (recent_new k d)"
  have q: "rq_k q = K" "K \<noteq> 0 \<longrightarrow> rq_recent q = drop (length ms - K) ms"
    using snoc by (simp_all add: q_def K_def)
  have "rq_recent (recent_put m q) = drop (length (ms @ [m]) - K) (ms @ [m])" if "K \<noteq> 0"
  proof -
    have "rq_recent (recent_put m q) = drop (Suc (length (rq_recent q)) - K) (rq_recent q @ [m])"
      using that q(1) by (simp add: recent_put_def Let_def)
    also have "\<dots> = drop (Suc (length ms) - K) (ms @ [m])"
      unfolding mp [OF q(2) that] using that by (intro drop_window) simp
    finally show ?thesis by simp
  qed
  moreover have "rq_k (recent_put m q) = K" using q(1) by (simp add: recent_put_def Let_def)
  ultimately show ?case by (simp only: fold_append fold.simps comp_apply id_apply q_def K_def) blast
qed (simp add: recent_new_def)

text \<open>\<open>get_recent\<close> yields the last inputs, as many as were asked for.\<close>

lemma recent_last:
  "get_recent (fold recent_put ms (recent_new k d)) =
     (if recent_limit k d = 0 then [] else drop (length ms - recent_limit k d) ms)"
  using recent_window [of ms k d] by (simp only: get_recent_def split: if_splits) blast

end
