(* ===== verification/UText.thy ===== *)
theory UText
  imports Prelude
begin

text \<open>
  Texts beyond ASCII as lists of code points, with the whitespace, the digits and the pattern pieces
  that the heading parsers use. \<open>\d\<close> stands for the ASCII digits.
\<close>

type_synonym utext = "nat list"

definition uspace :: "nat \<Rightarrow> bool" where
  "uspace c \<longleftrightarrow> (9 \<le> c \<and> c \<le> 13) \<or> (28 \<le> c \<and> c \<le> 32) \<or> c \<in> {133, 160, 5760, 8232, 8233, 8239, 8287, 12288} \<or>
     (8192 \<le> c \<and> c \<le> 8202)"

definition ustrip :: "utext \<Rightarrow> utext" where
  "ustrip s = rev (dropWhile uspace (rev (dropWhile uspace s)))"

definition udigit :: "nat \<Rightarrow> bool" where
  "udigit c \<longleftrightarrow> 48 \<le> c \<and> c \<le> 57"

definition digits_value :: "utext \<Rightarrow> nat" where
  "digits_value ds = fold (\<lambda>c n. 10 * n + (c - 48)) ds 0"

text \<open>\<open>\d{1,3}\<close>, and \<open>\d+\<close>, at the start: the run and what follows.\<close>

definition digits3 :: "utext \<Rightarrow> (utext \<times> utext) option" where
  "digits3 s = (let d = takeWhile udigit (take 3 s) in if d = [] then None else Some (d, drop (length d) s))"

definition digits_run :: "utext \<Rightarrow> (utext \<times> utext) option" where
  "digits_run s = (let d = takeWhile udigit s in if d = [] then None else Some (d, dropWhile udigit s))"

definition open_paren :: "nat \<Rightarrow> bool" where "open_paren c \<longleftrightarrow> c = 40 \<or> c = 65288"
definition close_paren :: "nat \<Rightarrow> bool" where "close_paren c \<longleftrightarrow> c = 41 \<or> c = 65289"

definition starts_with :: "(nat \<Rightarrow> bool) \<Rightarrow> utext \<Rightarrow> bool" where
  "starts_with p s \<longleftrightarrow> (case s of [] \<Rightarrow> False | c # _ \<Rightarrow> p c)"

lemma digits3_shorter: "digits3 s = Some (d, r) \<Longrightarrow> length r < length s"
  by (auto simp: digits3_def Let_def split: if_splits) (metis diff_less length_greater_0_conv take_eq_Nil takeWhile.simps(1))

lemma digits_run_shorter: "digits_run s = Some (d, r) \<Longrightarrow> length r < length s"
proof -
  assume "digits_run s = Some (d, r)"
  then have "d \<noteq> []" "s = d @ r" by (auto simp: digits_run_def Let_def split: if_splits)
  then show ?thesis by (cases d) auto
qed

end
