(* ===== verification/TreeBuild.thy ===== *)
theory TreeBuild
  imports UText
begin

text \<open>
  The heading tree of \<open>lazyllm/tools/rag/transform/treebuilder.py\<close>. \<open>add_child\<close> appends to the list a
  node object carries; the model keeps the calls in order, as pairs of parent and child, so that the
  children of a node are the second components of its pairs.
\<close>

section \<open>Numbering\<close>

function dotted_loop :: "utext \<Rightarrow> utext list" where
  "dotted_loop s =
     (case s of
        [] \<Rightarrow> []
      | c # s1 \<Rightarrow>
          if c = 46 then (case digits3 s1 of None \<Rightarrow> [] | Some (d, r) \<Rightarrow> d # dotted_loop r) else [])"
  by pat_completeness auto

termination
  by (relation "measure length") (auto dest: digits3_shorter)

declare dotted_loop.simps [simp del]

text \<open>
  \<open>_extract_numbering_strict_origin\<close>: a first line that opens with a number in parentheses or with a
  closing one behind it has no numbering; otherwise the groups of digits, joined by dots.
\<close>

definition extract_numbering_strict_origin :: "utext \<Rightarrow> nat list option" where
  "extract_numbering_strict_origin t =
     (if t = [] then None
      else
        (let line = ustrip (takeWhile (\<lambda>c. c \<noteq> 10) t);
             closed = (\<lambda>s. case digits3 (dropWhile uspace s) of
               None \<Rightarrow> False | Some (d, r) \<Rightarrow> starts_with close_paren (dropWhile uspace r))
         in if starts_with open_paren line \<and> closed (drop 1 line) then None
            else if closed line then None
            else (case digits3 line of
                    None \<Rightarrow> None
                  | Some (d, r) \<Rightarrow> Some (map digits_value (d # dotted_loop r)))))"

definition default_is_valid_child :: "utext \<Rightarrow> utext \<Rightarrow> bool" where
  "default_is_valid_child parent child =
     (case (extract_numbering_strict_origin parent, extract_numbering_strict_origin child) of
        (Some p, Some c) \<Rightarrow> p \<noteq> [] \<and> c \<noteq> [] \<and> length c = length p + 1 \<and> take (length p) c = p
      | _ \<Rightarrow> False)"

record bnode =
  bn_text :: utext
  bn_level :: "int option"

text \<open>\<open>_default_get_level\<close>: \<open>None\<close> is a level that is missing or is no number.\<close>

definition default_get_level :: "bnode \<Rightarrow> int" where
  "default_get_level n = (case bn_level n of None \<Rightarrow> 0 | Some l \<Rightarrow> l)"

definition root_node :: bnode where
  "root_node = \<lparr>bn_text = [114, 111, 111, 116], bn_level = Some 0\<rparr>"

section \<open>The stack\<close>

text \<open>The search from the top of the stack for a parent; the stack is a list with its top at the end.\<close>

fun find_parent :: "('n \<Rightarrow> int) \<Rightarrow> ('n \<Rightarrow> 'n \<Rightarrow> bool) \<Rightarrow> 'n list \<Rightarrow> 'n \<Rightarrow> nat \<Rightarrow> nat option" where
  "find_parent level valid stack node 0 = None"
| "find_parent level valid stack node (Suc i) =
     (if level (stack ! i) < level node \<and> valid (stack ! i) node then Some i
      else find_parent level valid stack node i)"

definition build_step ::
    "('n \<Rightarrow> int) \<Rightarrow> ('n \<Rightarrow> 'n \<Rightarrow> bool) \<Rightarrow> 'n \<Rightarrow> 'n list \<times> ('n \<times> 'n) list \<Rightarrow> 'n list \<times> ('n \<times> 'n) list" where
  "build_step level valid node st =
     (let (stack, edges) = st in
      if level node = 0 then (stack, edges @ [(last stack, node)])
      else (case find_parent level valid stack node (length stack) of
              Some i \<Rightarrow> (let stack' = take (i + 1) stack in (stack' @ [node], edges @ [(last stack', node)]))
            | None \<Rightarrow> (let stack' = take 1 stack in (stack' @ [node], edges @ [(hd stack', node)]))))"

definition parse_nodes ::
    "('n \<Rightarrow> int) \<Rightarrow> ('n \<Rightarrow> 'n \<Rightarrow> bool) \<Rightarrow> 'n \<Rightarrow> 'n list \<Rightarrow> ('n \<times> 'n) list" where
  "parse_nodes level valid root nodes = snd (fold (build_step level valid) nodes ([root], []))"

text \<open>The children of the root are the result.\<close>

definition tree_builder_forward :: "bnode list \<Rightarrow> bnode list" where
  "tree_builder_forward nodes =
     (if nodes = [] then []
      else map snd (filter (\<lambda>e. fst e = root_node)
        (parse_nodes default_get_level (\<lambda>p c. default_is_valid_child (bn_text p) (bn_text c)) root_node nodes)))"

section \<open>Every node gets one parent\<close>

text \<open>
  Where a node should hang, without a stack: positions of nodes and the positions of their parents, \<open>None\<close> for the root. The
  headings are the nodes whose level is not 0. The open headings at a position are the last heading before it, the parent of
  that, and so on; a list is that chain when it starts there and ends below the root.
\<close>

fun is_chain :: "(nat \<Rightarrow> nat option) \<Rightarrow> nat option \<Rightarrow> nat list \<Rightarrow> bool" where
  "is_chain par x [] \<longleftrightarrow> x = None"
| "is_chain par x (j # js) \<longleftrightarrow> x = Some j \<and> is_chain par (par j) js"

definition last_heading :: "('n \<Rightarrow> int) \<Rightarrow> 'n list \<Rightarrow> nat \<Rightarrow> nat option" where
  "last_heading level nodes k = List.find (\<lambda>j. level (nodes ! j) \<noteq> 0) (rev [0..<k])"

definition parent_node :: "'n \<Rightarrow> 'n list \<Rightarrow> nat option \<Rightarrow> 'n" where
  "parent_node root nodes x = (case x of None \<Rightarrow> root | Some j \<Rightarrow> nodes ! j)"

definition hung_right ::
    "('n \<Rightarrow> int) \<Rightarrow> ('n \<Rightarrow> 'n \<Rightarrow> bool) \<Rightarrow> 'n list \<Rightarrow> (nat \<Rightarrow> nat option) \<Rightarrow> nat \<Rightarrow> bool" where
  "hung_right level valid nodes par k \<longleftrightarrow>
     (\<exists>opens. is_chain par (last_heading level nodes k) opens \<and>
        (\<forall>j \<in> set opens. j < k \<and> level (nodes ! j) \<noteq> 0) \<and>
        par k = (if level (nodes ! k) = 0 then last_heading level nodes k
                 else List.find (\<lambda>j. level (nodes ! j) < level (nodes ! k) \<and> valid (nodes ! j) (nodes ! k)) opens))"

lemma is_chain_cong: "is_chain par x js \<Longrightarrow> (\<And>j. j \<in> set js \<Longrightarrow> par' j = par j) \<Longrightarrow> is_chain par' x js"
  by (induction js arbitrary: x) auto

lemma is_chain_suffix: "is_chain par x (is @ j # js) \<Longrightarrow> is_chain par (Some j) (j # js)"
  by (induction "is" arbitrary: x) auto

lemma is_chain_unique: "is_chain par x is \<Longrightarrow> is_chain par x js \<Longrightarrow> is = js"
proof (induction "is" arbitrary: x js)
  case Nil
  then show ?case by (cases js) auto
next
  case (Cons i "is")
  then show ?case by (cases js) auto
qed

lemma last_heading_Suc:
  "last_heading level nodes (Suc k) = (if level (nodes ! k) \<noteq> 0 then Some k else last_heading level nodes k)"
  by (simp add: last_heading_def)

lemma find_parent_prefix: "n \<le> length xs \<Longrightarrow> find_parent level valid (xs @ ys) node n = find_parent level valid xs node n"
  by (induction n) (auto simp: nth_append)

text \<open>The search in the stack is the one in the open headings, whose order is the reverse.\<close>

lemma find_parent_opens:
  assumes D: "D = dropWhile (\<lambda>j. \<not> (level (f j) < level node \<and> valid (f j) node)) js"
  shows "find_parent level valid (root # map f (rev js)) node (Suc (length js)) =
    (if D \<noteq> [] then Some (length D) else if level root < level node \<and> valid root node then Some 0 else None)"
  unfolding D
proof (induction js)
  case (Cons j js)
  let ?st = "root # map f (rev js)"
  have "find_parent level valid (?st @ [f j]) node (Suc (length js)) = find_parent level valid ?st node (Suc (length js))"
    by (rule find_parent_prefix) simp
  moreover have "(?st @ [f j]) ! Suc (length js) = f j" by (simp add: nth_append)
  ultimately show ?case using Cons.IH by simp
qed simp

definition built ::
    "('n \<Rightarrow> int) \<Rightarrow> ('n \<Rightarrow> 'n \<Rightarrow> bool) \<Rightarrow> 'n \<Rightarrow> 'n list \<Rightarrow> (nat \<Rightarrow> nat option) \<Rightarrow> nat list \<Rightarrow> nat \<Rightarrow> 'n list \<times> ('n \<times> 'n) list \<Rightarrow> bool" where
  "built level valid root nodes par opens k st \<longleftrightarrow>
     is_chain par (last_heading level nodes k) opens \<and> (\<forall>j \<in> set opens. j < k \<and> level (nodes ! j) \<noteq> 0) \<and>
     fst st = root # map ((!) nodes) (rev opens) \<and>
     snd st = map (\<lambda>i. (parent_node root nodes (par i), nodes ! i)) [0..<k] \<and> (\<forall>i < k. hung_right level valid nodes par i)"

lemma hung_right_cong:
  assumes "hung_right level valid nodes par i" and "\<And>j. j \<le> i \<Longrightarrow> par' j = par j"
  shows "hung_right level valid nodes par' i"
proof -
  obtain opens where o: "is_chain par (last_heading level nodes i) opens" "\<forall>j \<in> set opens. j < i \<and> level (nodes ! j) \<noteq> 0"
    "par i = (if level (nodes ! i) = 0 then last_heading level nodes i
      else List.find (\<lambda>j. level (nodes ! j) < level (nodes ! i) \<and> valid (nodes ! j) (nodes ! i)) opens)"
    using assms(1) by (auto simp: hung_right_def)
  have "is_chain par' (last_heading level nodes i) opens"
    by (rule is_chain_cong [OF o(1)]) (use assms(2) o(2) in auto)
  then show ?thesis unfolding hung_right_def using o(2,3) assms(2) [of i] by (intro exI [of _ opens]) simp
qed

lemma build_step_built:
  assumes "built level valid root nodes par opens k st"
  shows "\<exists>par' opens'. built level valid root nodes par' opens' (Suc k) (build_step level valid (nodes ! k) st)"
proof -
  let ?n = "nodes ! k"
  let ?no = "\<lambda>j. \<not> (level (nodes ! j) < level ?n \<and> valid (nodes ! j) ?n)"
  have b: "is_chain par (last_heading level nodes k) opens" "\<forall>j \<in> set opens. j < k \<and> level (nodes ! j) \<noteq> 0"
    "fst st = root # map ((!) nodes) (rev opens)"
    "snd st = map (\<lambda>i. (parent_node root nodes (par i), nodes ! i)) [0..<k]" "\<forall>i < k. hung_right level valid nodes par i"
    using assms by (simp_all add: built_def)
  define x where "x = (if level ?n = 0 then last_heading level nodes k
      else List.find (\<lambda>j. level (nodes ! j) < level ?n \<and> valid (nodes ! j) ?n) opens)"
  define par' where "par' = par(k := x)"
  have chain: "is_chain par' y js" if "is_chain par y js" "set js \<subseteq> set opens" for y js
    by (rule is_chain_cong [OF that(1)]) (use that(2) b(2) in \<open>auto simp: par'_def\<close>)
  have c: "is_chain par' (last_heading level nodes k) opens" by (rule chain [OF b(1)]) simp
  have h: "hung_right level valid nodes par' i" if "i < Suc k" for i
  proof (cases "i = k")
    case True
    then show ?thesis using c b(2) unfolding hung_right_def by (intro exI [of _ opens]) (simp add: par'_def x_def)
  next
    case False
    then have "hung_right level valid nodes par i" using b(5) that by simp
    then show ?thesis by (rule hung_right_cong) (use False that in \<open>simp add: par'_def\<close>)
  qed
  have e: "snd st @ [(parent_node root nodes x, ?n)] = map (\<lambda>i. (parent_node root nodes (par' i), nodes ! i)) [0..<Suc k]"
    by (simp add: b(4) par'_def)
  show ?thesis
  proof (cases "level ?n = 0")
    case True
    have "last (fst st) = parent_node root nodes x"
      using b(1,3) True by (cases opens) (auto simp: x_def parent_node_def)
    then have "build_step level valid ?n st = (fst st, snd st @ [(parent_node root nodes x, ?n)])"
      using True by (simp add: build_step_def case_prod_beta)
    then have "built level valid root nodes par' opens (Suc k) (build_step level valid ?n st)"
      using c b(2,3) h e True unfolding built_def by (auto simp: last_heading_Suc less_Suc_eq)
    then show ?thesis by blast
  next
    case False
    define D where "D = dropWhile ?no opens"
    have x: "x = (case D of [] \<Rightarrow> None | j # _ \<Rightarrow> Some j)" using False by (simp add: x_def find_dropWhile D_def comp_def)
    have fp: "find_parent level valid (fst st) ?n (length (fst st)) =
        (if D \<noteq> [] then Some (length D) else if level root < level ?n \<and> valid root ?n then Some 0 else None)"
      using find_parent_opens [where f = "(!) nodes" and level = level and valid = valid and node = ?n and js = opens and root = root, OF D_def] by (simp add: b(3))
    have split: "opens = takeWhile ?no opens @ D" by (simp add: D_def)
    have tk: "take (Suc (length D)) (fst st) = root # map ((!) nodes) (rev D)"
      unfolding b(3) by (subst split) (simp add: take_map [symmetric] del: takeWhile_dropWhile_id)
    have l: "last (root # map ((!) nodes) (rev D)) = parent_node root nodes x"
      by (cases D) (simp_all add: x parent_node_def)
    have "build_step level valid ?n st = (root # map ((!) nodes) (rev D) @ [?n], snd st @ [(parent_node root nodes x, ?n)])"
    proof (cases "D = []")
      case True
      then have "find_parent level valid (fst st) ?n (length (fst st)) \<in> {None, Some 0}" using fp by simp
      then show ?thesis using True l b(3) False by (auto simp: build_step_def case_prod_beta)
    next
      case ne: False
      then show ?thesis using fp tk l False by (simp add: build_step_def case_prod_beta Let_def)
    qed
    moreover have "is_chain par' (Some k) (k # D)"
    proof (cases D)
      case Nil
      then show ?thesis by (simp add: par'_def x)
    next
      case (Cons j js)
      have "is_chain par (Some j) D" using is_chain_suffix [of par _ "takeWhile ?no opens" j js] b(1) split Cons by metis
      then have "is_chain par' (Some j) D" by (rule chain) (metis split Un_upper2 set_append)
      then show ?thesis using Cons by (simp add: par'_def x)
    qed
    moreover have "set D \<subseteq> set opens" by (metis split Un_upper2 set_append)
    ultimately have "built level valid root nodes par' (k # D) (Suc k) (build_step level valid ?n st)"
      using h e b(2) False unfolding built_def by (auto simp: last_heading_Suc less_Suc_eq)
    then show ?thesis by blast
  qed
qed

lemma fold_built:
  "k \<le> length nodes \<Longrightarrow>
   \<exists>par opens. built level valid root nodes par opens k (fold (build_step level valid) (take k nodes) ([root], []))"
proof (induction k)
  case 0
  then show ?case by (intro exI [of _ "\<lambda>_. None"] exI [of _ "[]"]) (simp add: built_def last_heading_def)
next
  case (Suc k)
  then obtain par opens where "built level valid root nodes par opens k (fold (build_step level valid) (take k nodes) ([root], []))"
    by auto
  from build_step_built [OF this] Suc.prems show ?case by (simp add: take_Suc_conv_app_nth)
qed

text \<open>
  C40. The tree builder hangs every node exactly once, in the order of the document. A node of level 0 hangs below the last heading
  before it, whatever its level. A heading hangs below the nearest open heading that has a lower level and that the numbering
  accepts, and below the root when there is none, where the open headings are the last heading before it, the parent of that
  one, and so on up to the root. This fixes the parent of every node, and as parents come before their children, there is no cycle.
\<close>

theorem tree_builder_forest:
  "\<exists>par. parse_nodes level valid root nodes = map (\<lambda>k. (parent_node root nodes (par k), nodes ! k)) [0..<length nodes] \<and>
     (\<forall>k < length nodes. hung_right level valid nodes par k)"
proof -
  obtain par opens where "built level valid root nodes par opens (length nodes) (fold (build_step level valid) nodes ([root], []))"
    using fold_built [of "length nodes" nodes level valid root] by auto
  then show ?thesis by (intro exI [of _ par]) (simp add: built_def parse_nodes_def)
qed

text \<open>The parents are determined by what the theorem says of them, and a parent comes before its children.\<close>

lemma hung_right_unique:
  assumes "\<And>k. k < n \<Longrightarrow> hung_right level valid nodes par k" and "\<And>k. k < n \<Longrightarrow> hung_right level valid nodes par' k"
  shows "k < n \<Longrightarrow> par k = par' k"
proof (induction k rule: less_induct)
  case (less k)
  obtain a where a: "is_chain par (last_heading level nodes k) a" "\<forall>j \<in> set a. j < k"
    "par k = (if level (nodes ! k) = 0 then last_heading level nodes k
      else List.find (\<lambda>j. level (nodes ! j) < level (nodes ! k) \<and> valid (nodes ! j) (nodes ! k)) a)"
    using assms(1) [OF less.prems] by (auto simp: hung_right_def)
  obtain b where b: "is_chain par' (last_heading level nodes k) b"
    "par' k = (if level (nodes ! k) = 0 then last_heading level nodes k
      else List.find (\<lambda>j. level (nodes ! j) < level (nodes ! k) \<and> valid (nodes ! j) (nodes ! k)) b)"
    using assms(2) [OF less.prems] by (auto simp: hung_right_def)
  have "is_chain par' (last_heading level nodes k) a"
    by (rule is_chain_cong [OF a(1)]) (use less a(2) in auto)
  then have "a = b" using b(1) by (rule is_chain_unique)
  then show ?case using a(3) b(2) by simp
qed

lemma hung_right_before: "hung_right level valid nodes par k \<Longrightarrow> par k = Some j \<Longrightarrow> j < k"
proof -
  assume h: "hung_right level valid nodes par k" "par k = Some j"
  then obtain a where a: "is_chain par (last_heading level nodes k) a" "\<forall>j \<in> set a. j < k"
    "par k = (if level (nodes ! k) = 0 then last_heading level nodes k
      else List.find (\<lambda>j. level (nodes ! j) < level (nodes ! k) \<and> valid (nodes ! j) (nodes ! k)) a)"
    by (auto simp: hung_right_def)
  have "j \<in> set a"
  proof (cases "level (nodes ! k) = 0")
    case True
    then show ?thesis using a(1,3) h(2) by (cases a) auto
  next
    case False
    then have "List.find (\<lambda>j. level (nodes ! j) < level (nodes ! k) \<and> valid (nodes ! j) (nodes ! k)) a = Some j" using a(3) h(2) by simp
    then show ?thesis by (metis find_Some_iff nth_mem)
  qed
  then show "j < k" using a(2) by blast
qed

text \<open>The parents of two headings, a text below the inner one, and the heading of the next chapter, as the theorem fixes them.\<close>

lemma tree_builder_forest_witness:
  "parse_nodes id (\<lambda>_ _. True) (- 1) [1, 2, 0, 1] = [(- 1, 1), (1, 2), (2, 0), (- 1, 1 :: int)]"
proof -
  let ?ns = "[1, 2, 0, 1 :: int]" and ?v = "\<lambda>_ _ :: int. True"
  let ?par = "\<lambda>k. [None, Some 0, Some 1, None] ! k :: nat option"
  obtain par where p: "parse_nodes id ?v (- 1) ?ns = map (\<lambda>k. (parent_node (- 1) ?ns (par k), ?ns ! k)) [0..<length ?ns]"
    "\<forall>k < length ?ns. hung_right id ?v ?ns par k"
    using tree_builder_forest [of id ?v "- 1" ?ns] by blast
  have h: "hung_right id ?v ?ns ?par k" if "k < 4" for k
  proof -
    have "[0..<1] = [0::nat]" "[0..<2] = [0, 1::nat]" "[0..<3] = [0, 1, 2::nat]" by (simp_all add: upt_rec)
    moreover have "k = 0 \<or> k = 1 \<or> k = 2 \<or> k = 3" using that by linarith
    ultimately show ?thesis
      unfolding hung_right_def by (elim disjE; intro exI [of _ "[[], [0], [1, 0], [1, 0]] ! k"]) (simp_all add: last_heading_def)
  qed
  have "par k = ?par k" if "k < 4" for k
    by (rule hung_right_unique [of 4 id ?v ?ns par ?par]) (use p(2) h that in simp_all)
  then have "par 0 = None" "par 1 = Some 0" "par 2 = Some 1" "par 3 = None" by simp_all
  then show ?thesis unfolding p(1) by (simp add: parent_node_def upt_rec numeral_eq_Suc)
qed

text \<open>A node of level 0 hangs below a heading of a higher level.\<close>

lemma text_below_heading: "parse_nodes id (\<lambda>_ _. True) (- 1) [1, 0] = [(- 1, 1), (1, 0 :: int)]"
  by (simp add: parse_nodes_def build_step_def Let_def)

text \<open>Below "1" stands "1.2", and "2." opens the next chapter.\<close>

lemma tree_builder_example:
  "tree_builder_forward [\<lparr>bn_text = [49], bn_level = Some 1\<rparr>, \<lparr>bn_text = [49, 46, 50], bn_level = Some 2\<rparr>,
     \<lparr>bn_text = [97], bn_level = None\<rparr>, \<lparr>bn_text = [50, 46, 32], bn_level = Some 1\<rparr>] =
   [\<lparr>bn_text = [49], bn_level = Some 1\<rparr>, \<lparr>bn_text = [50, 46, 32], bn_level = Some 1\<rparr>]"
  by (simp add: tree_builder_forward_def parse_nodes_def build_step_def default_get_level_def root_node_def Let_def
      default_is_valid_child_def extract_numbering_strict_origin_def ustrip_def uspace_def udigit_def digits3_def
      dotted_loop.simps starts_with_def open_paren_def close_paren_def digits_value_def numeral_2_eq_2)

end
