(* ===== verification/TreeFix.thy ===== *)
theory TreeFix
  imports UText
begin

text \<open>
  The numbering parser and tree repair of \<open>lazyllm/tools/rag/transform/treefixer.py\<close>. A node carries a
  number that stands for its identity. The children lists of the node objects are kept as one list of
  placements, a node with its parent, or without one when it becomes a top node.
\<close>

section \<open>Numbering patterns\<close>

datatype fmt =
    ChinesePause | ChineseParen | DigitPause | DigitParen | DigitRightParen | Multilevel | DigitDot | Letter
  | OtherFmt string

datatype nval = NumVal int | TupleVal "int list"

definition chinese_digits :: "nat \<Rightarrow> int option" where
  "chinese_digits = map_of [(38646, 0), (19968, 1), (20108, 2), (19977, 3), (22235, 4), (20116, 5), (20845, 6),
     (19971, 7), (20843, 8), (20061, 9)]"

definition chinese_units :: "nat \<Rightarrow> int option" where
  "chinese_units = map_of [(21313, 10), (30334, 100), (21315, 1000), (19975, 10000)]"

definition chinese_numeral :: "nat \<Rightarrow> bool" where
  "chinese_numeral c \<longleftrightarrow> (chinese_digits c \<noteq> None \<and> c \<noteq> 38646) \<or> chinese_units c \<noteq> None"

definition pause_mark :: "nat \<Rightarrow> bool" where "pause_mark c \<longleftrightarrow> c = 12289"

text \<open>A matcher yields the first group of its pattern at the start of a text.\<close>

type_synonym matcher = "utext \<Rightarrow> utext option"

definition run_then :: "(nat \<Rightarrow> bool) \<Rightarrow> (nat \<Rightarrow> bool) \<Rightarrow> matcher" where
  "run_then member stop s =
     (let g = takeWhile member s; r = dropWhile member s
      in if g \<noteq> [] \<and> starts_with stop (dropWhile uspace r) then Some g else None)"

definition paren_run :: "(nat \<Rightarrow> bool) \<Rightarrow> matcher" where
  "paren_run member s =
     (if starts_with open_paren s then run_then member close_paren (dropWhile uspace (drop 1 s)) else None)"

function dotted_groups :: "utext \<Rightarrow> utext" where
  "dotted_groups s =
     (case s of
        [] \<Rightarrow> []
      | c # s1 \<Rightarrow>
          if c = 46 then (case digits_run s1 of None \<Rightarrow> [] | Some (d, r) \<Rightarrow> 46 # d @ dotted_groups r) else [])"
  by pat_completeness auto

termination
  by (relation "measure length") (auto dest: digits_run_shorter)

declare dotted_groups.simps [simp del]

definition multilevel_match :: matcher where
  "multilevel_match s =
     (case digits_run s of
        None \<Rightarrow> None
      | Some (d, r) \<Rightarrow> (let g = dotted_groups r in if g = [] then None else Some (d @ g)))"

definition digit_dot_match :: matcher where
  "digit_dot_match s =
     (case digits_run s of
        None \<Rightarrow> None
      | Some (d, r) \<Rightarrow> (case r of
            c # r' \<Rightarrow> if c = 46 \<and> (r' = [] \<or> starts_with uspace r') then Some d else None
          | [] \<Rightarrow> None))"

definition ascii_letter :: "nat \<Rightarrow> bool" where
  "ascii_letter c \<longleftrightarrow> (65 \<le> c \<and> c \<le> 90) \<or> (97 \<le> c \<and> c \<le> 122)"

definition letter_match :: matcher where
  "letter_match s =
     (case s of c # d # _ \<Rightarrow> if ascii_letter c \<and> (d = 46 \<or> pause_mark d) then Some [c] else None | _ \<Rightarrow> None)"

definition numbering_patterns :: "(matcher \<times> fmt) list" where
  "numbering_patterns =
     [(run_then chinese_numeral pause_mark, ChinesePause), (paren_run chinese_numeral, ChineseParen),
      (run_then udigit pause_mark, DigitPause), (paren_run udigit, DigitParen),
      (run_then udigit close_paren, DigitRightParen), (multilevel_match, Multilevel),
      (digit_dot_match, DigitDot), (letter_match, Letter)]"

section \<open>Values\<close>

definition parse_int :: "utext \<Rightarrow> int res" where
  "parse_int raw = (if raw \<noteq> [] \<and> list_all udigit raw then Inr (int (digits_value raw)) else Inl ValueError)"

fun split_dots :: "utext \<Rightarrow> utext list" where
  "split_dots [] = [[]]"
| "split_dots (c # s) = (if c = 46 then [] # split_dots s else (case split_dots s of [] \<Rightarrow> [[c]] | g # gs \<Rightarrow> (c # g) # gs))"

text \<open>The loop of \<open>_parse_chinese_number\<close> over the sum so far and the digit not yet multiplied.\<close>

fun chinese_loop :: "utext \<Rightarrow> int \<Rightarrow> int \<Rightarrow> int" where
  "chinese_loop [] result temp = result + temp"
| "chinese_loop (c # s) result temp =
     (case chinese_digits c of
        Some d \<Rightarrow> chinese_loop s result d
      | None \<Rightarrow> (case chinese_units c of
            Some unit \<Rightarrow> chinese_loop s (result + (if temp = 0 then 1 else temp) * unit) 0
          | None \<Rightarrow> chinese_loop s result temp))"

definition parse_chinese_number :: "utext \<Rightarrow> int" where
  "parse_chinese_number s =
     (case s of
        [] \<Rightarrow> 0
      | [c] \<Rightarrow> (case chinese_digits c of Some d \<Rightarrow> d | None \<Rightarrow> if c = 21313 then 10 else 1)
      | _ \<Rightarrow> chinese_loop s 0 0)"

definition upper :: "nat \<Rightarrow> nat" where "upper c = (if 97 \<le> c \<and> c \<le> 122 then c - 32 else c)"

definition parse_numbering :: "utext \<Rightarrow> fmt \<Rightarrow> nval res" where
  "parse_numbering raw f =
     (case f of
        ChinesePause \<Rightarrow> Inr (NumVal (parse_chinese_number raw))
      | ChineseParen \<Rightarrow> Inr (NumVal (parse_chinese_number raw))
      | Multilevel \<Rightarrow> rbind (rmap parse_int (split_dots raw)) (\<lambda>ns. Inr (TupleVal ns))
      | Letter \<Rightarrow> (case raw of [c] \<Rightarrow> Inr (NumVal (int (upper c) - 65 + 1)) | _ \<Rightarrow> Inl TypeError)
      | _ \<Rightarrow> rbind (parse_int raw) (\<lambda>n. Inr (NumVal n)))"

record fnode =
  fn_id :: nat
  fn_text :: utext
  fn_level :: "int option"

text \<open>\<open>_extract_numbering\<close>: the first pattern whose group has a value; a \<open>ValueError\<close> goes on to the next.\<close>

fun first_numbering :: "(matcher \<times> fmt) list \<Rightarrow> utext \<Rightarrow> (fmt \<times> nval) option res" where
  "first_numbering [] t = Inr None"
| "first_numbering ((m, f) # ps) t =
     (case m t of
        None \<Rightarrow> first_numbering ps t
      | Some g \<Rightarrow> (case parse_numbering g f of
            Inr v \<Rightarrow> Inr (Some (f, v))
          | Inl ValueError \<Rightarrow> first_numbering ps t
          | Inl IndexError \<Rightarrow> first_numbering ps t
          | Inl e \<Rightarrow> Inl e))"

definition extract_numbering :: "(matcher \<times> fmt) list \<Rightarrow> fnode \<Rightarrow> (fmt \<times> nval) option res" where
  "extract_numbering ps n =
     (if fn_text n = [] \<or> ustrip (fn_text n) = [] then Inr None else first_numbering ps (ustrip (fn_text n)))"

section \<open>Consecutive numbers\<close>

definition multilevel_consecutive :: "int list \<Rightarrow> int list \<Rightarrow> bool" where
  "multilevel_consecutive prev cur =
     (if length prev = length cur then butlast prev = butlast cur \<and> last cur = last prev + 1
      else if length cur = length prev + 1 then butlast cur = prev \<and> last cur = 1
      else if length cur < length prev then
        (let k = length cur - 1 in take k prev = take k cur \<and> last cur = prev ! k + 1)
      else False)"

definition is_consecutive :: "nval \<Rightarrow> nval \<Rightarrow> fmt \<Rightarrow> bool" where
  "is_consecutive prev cur f =
     (if f = Multilevel then
        (case (prev, cur) of (TupleVal p, TupleVal c) \<Rightarrow> multilevel_consecutive p c | _ \<Rightarrow> False)
      else (case (prev, cur) of (NumVal p, NumVal c) \<Rightarrow> c = p + 1 | _ \<Rightarrow> False))"

definition should_skip_numbering :: "int \<Rightarrow> fnode \<Rightarrow> bool" where
  "should_skip_numbering skip_under n \<longleftrightarrow>
     fn_text n \<noteq> [] \<and> (case fn_level n of None \<Rightarrow> 0 | Some l \<Rightarrow> l) < skip_under"

section \<open>The state of a pass\<close>

record fixer =
  fx_places :: "(fnode option \<times> fnode) list"
  fx_stack :: "fnode list"
  fx_formats :: "(fmt \<times> nval) list"
  fx_tracker :: "(fmt, nval) dict"
  fx_content :: "fnode option"

definition reset_state :: fixer where
  "reset_state = \<lparr>fx_places = [], fx_stack = [], fx_formats = [], fx_tracker = [], fx_content = None\<rparr>"

definition add_child :: "fnode \<Rightarrow> fnode \<Rightarrow> fixer \<Rightarrow> fixer" where
  "add_child parent child s = s\<lparr>fx_places := fx_places s @ [(Some parent, child)]\<rparr>"

definition add_result :: "fnode \<Rightarrow> fixer \<Rightarrow> fixer" where
  "add_result n s = s\<lparr>fx_places := fx_places s @ [(None, n)]\<rparr>"

definition attach_to_stack_top :: "fnode \<Rightarrow> fixer \<Rightarrow> fixer" where
  "attach_to_stack_top n s = (if fx_stack s \<noteq> [] then add_child (last (fx_stack s)) n s else add_result n s)"

definition push :: "fnode \<Rightarrow> fmt \<Rightarrow> nval \<Rightarrow> fixer \<Rightarrow> fixer" where
  "push n f v s = s\<lparr>fx_stack := fx_stack s @ [n], fx_formats := fx_formats s @ [(f, v)]\<rparr>"

definition cut_stack :: "nat \<Rightarrow> fixer \<Rightarrow> fixer" where
  "cut_stack i s = s\<lparr>fx_stack := take i (fx_stack s), fx_formats := take i (fx_formats s)\<rparr>"

definition track :: "fmt \<Rightarrow> nval \<Rightarrow> fixer \<Rightarrow> fixer" where
  "track f v s = s\<lparr>fx_tracker := AList.update f v (fx_tracker s)\<rparr>"

text \<open>The topmost entry of a format; \<open>None\<close> is the index -1.\<close>

fun find_from :: "fmt \<Rightarrow> (fmt \<times> nval) list \<Rightarrow> nat \<Rightarrow> nat option" where
  "find_from f fs 0 = None"
| "find_from f fs (Suc i) = (if fst (fs ! i) = f then Some i else find_from f fs i)"

definition find_format_index :: "fmt \<Rightarrow> fixer \<Rightarrow> nat option" where
  "find_format_index f s = find_from f (fx_formats s) (length (fx_formats s))"

definition handle_new_format :: "fnode \<Rightarrow> fmt \<Rightarrow> nval \<Rightarrow> fixer \<Rightarrow> fixer" where
  "handle_new_format n f v s = track f v (push n f v (attach_to_stack_top n s))"

definition handle_multilevel_child :: "fnode \<Rightarrow> fmt \<Rightarrow> nval \<Rightarrow> fixer \<Rightarrow> fixer" where
  "handle_multilevel_child n f v s =
     (case find_format_index f s of
        Some i \<Rightarrow> track f v (push n f v (cut_stack (i + 1) (add_child (fx_stack s ! i) n s)))
      | None \<Rightarrow> track f v (push n f v (attach_to_stack_top n s)))"

definition is_multilevel_child :: "fmt \<Rightarrow> nval \<Rightarrow> fixer \<Rightarrow> bool" where
  "is_multilevel_child f v s \<longleftrightarrow> f = Multilevel \<and>
     (case (map_of (fx_tracker s) f, v) of
        (Some (TupleVal p), TupleVal c) \<Rightarrow> length c = length p + 1 \<and> butlast c = p
      | _ \<Rightarrow> False)"

definition handle_consecutive :: "fnode \<Rightarrow> fmt \<Rightarrow> nval \<Rightarrow> fixer \<Rightarrow> fixer" where
  "handle_consecutive n f v s =
     (if is_multilevel_child f v s then handle_multilevel_child n f v s
      else (case find_format_index f s of
              Some (Suc i) \<Rightarrow> track f v (push n f v (cut_stack (Suc i) (add_child (fx_stack s ! i) n s)))
            | Some 0 \<Rightarrow> track f v (push n f v (cut_stack 0 (add_result n s)))
            | None \<Rightarrow> track f v (push n f v (attach_to_stack_top n s))))"

definition handle_non_consecutive :: "fnode \<Rightarrow> fmt \<Rightarrow> nval \<Rightarrow> fixer \<Rightarrow> fixer" where
  "handle_non_consecutive n f v s =
     (let s1 = (case find_format_index f s of Some i \<Rightarrow> cut_stack i s | None \<Rightarrow> s)
      in track f v (push n f v (attach_to_stack_top n s1)))"

definition attach_non_title_node :: "fnode \<Rightarrow> fixer \<Rightarrow> fixer" where
  "attach_non_title_node n s =
     (case fx_content s of
        Some p \<Rightarrow> add_child p n s
      | None \<Rightarrow> attach_to_stack_top n s)"

definition on_miss_handler :: "(matcher \<times> fmt) list \<Rightarrow> int \<Rightarrow> fnode \<Rightarrow> fixer \<Rightarrow> fixer res" where
  "on_miss_handler ps skip_under n s =
     (if should_skip_numbering skip_under n then Inr (attach_non_title_node n s)
      else
        rbind (extract_numbering ps n) (\<lambda>x.
        Inr (case x of
               None \<Rightarrow> (attach_to_stack_top n s)\<lparr>fx_content := Some n\<rparr>
             | Some (f, v) \<Rightarrow>
                 (let s1 = s\<lparr>fx_content := None\<rparr>
                  in case map_of (fx_tracker s1) f of
                       None \<Rightarrow> handle_new_format n f v s1
                     | Some last_val \<Rightarrow>
                         if is_consecutive last_val v f then handle_consecutive n f v s1
                         else handle_non_consecutive n f v s1))))"

section \<open>Forward\<close>

datatype in_tree = InTree fnode "in_tree list"

fun flatten_node :: "in_tree \<Rightarrow> fnode list" where
  "flatten_node (InTree n ts) = n # concat (map flatten_node ts)"

fun old_edges :: "in_tree \<Rightarrow> (fnode option \<times> fnode) list" where
  "old_edges (InTree n ts) = map (\<lambda>t. (Some n, case t of InTree m _ \<Rightarrow> m)) ts @ concat (map old_edges ts)"

definition children_of :: "(fnode option \<times> fnode) list \<Rightarrow> fnode \<Rightarrow> fnode list" where
  "children_of es n = map snd (filter (\<lambda>e. fst e = Some n) es)"

text \<open>\<open>_update_text_levels\<close>, as the sequence of its assignments; the fuel bounds the depth.\<close>

fun update_text_levels :: "nat \<Rightarrow> (fnode option \<times> fnode) list \<Rightarrow> fnode list \<Rightarrow> int \<Rightarrow> (fnode \<times> int) list" where
  "update_text_levels 0 es ns level = []"
| "update_text_levels (Suc k) es ns level =
     concat (map (\<lambda>n. (if (case fn_level n of None \<Rightarrow> 1 | Some l \<Rightarrow> l) \<ge> 1 then [(n, level)] else []) @
                      update_text_levels k es (children_of es n) (level + 1)) ns)"

record fixed =
  fd_tops :: "fnode list"
  fd_edges :: "(fnode option \<times> fnode) list"
  fd_levels :: "(fnode \<times> int) list"

text \<open>The children that the nodes came with are still in their lists when the pass adds its own.\<close>

definition tree_fixer_forward :: "(matcher \<times> fmt) list \<Rightarrow> int \<Rightarrow> in_tree list \<Rightarrow> fixed res" where
  "tree_fixer_forward ps skip_under ts =
     (let flat = concat (map flatten_node ts); old = concat (map old_edges ts)
      in rbind (rfold (on_miss_handler ps skip_under) flat reset_state) (\<lambda>s.
         let tops = map snd (filter (\<lambda>e. fst e = None) (fx_places s));
             es = old @ filter (\<lambda>e. fst e \<noteq> None) (fx_places s)
         in Inr \<lparr>fd_tops = tops, fd_edges = es, fd_levels = update_text_levels (length flat) es tops 1\<rparr>))"

section \<open>Every node is placed once\<close>

definition fixer_inv :: "fnode list \<Rightarrow> fixer \<Rightarrow> bool" where
  "fixer_inv seen s \<longleftrightarrow>
     length (fx_formats s) = length (fx_stack s) \<and> set (fx_stack s) \<subseteq> set seen \<and>
     (\<forall>p. fx_content s = Some p \<longrightarrow> p \<in> set seen)"

text \<open>One handler has placed one node, below a node already on the stack or at the top.\<close>

definition placed :: "fnode list \<Rightarrow> fnode \<Rightarrow> fixer \<Rightarrow> fixer \<Rightarrow> bool" where
  "placed seen n s s' \<longleftrightarrow>
     (\<exists>p. fx_places s' = fx_places s @ [(p, n)] \<and> (\<forall>q. p = Some q \<longrightarrow> q \<in> set seen)) \<and>
     length (fx_formats s') = length (fx_stack s') \<and> set (fx_stack s') \<subseteq> insert n (set seen) \<and>
     (\<forall>q. fx_content s' = Some q \<longrightarrow> q \<in> insert n (set seen))"

lemmas fixer_ops = add_child_def add_result_def attach_to_stack_top_def push_def cut_stack_def track_def

lemma find_from_bound: "find_from f fs k = Some i \<Longrightarrow> i < k"
  by (induction k) (auto split: if_splits)

lemma index_bound: "fixer_inv seen s \<Longrightarrow> find_format_index f s = Some i \<Longrightarrow> i < length (fx_stack s)"
  using find_from_bound [of f "fx_formats s" "length (fx_formats s)" i]
  by (simp add: find_format_index_def fixer_inv_def)

lemma placed_attach_push:
  assumes "fixer_inv seen s" and "length (fx_formats t) = length (fx_stack t)" and "set (fx_stack t) \<subseteq> set (fx_stack s)"
    and "fx_places t = fx_places s" and "fx_content t = fx_content s"
  shows "placed seen n s (track f v (push n f v (attach_to_stack_top n t)))"
    and "placed seen n s (attach_to_stack_top n t)"
proof -
  have sub: "set (fx_stack t) \<subseteq> set seen" using assms(1,3) by (auto simp: fixer_inv_def)
  moreover have "last (fx_stack t) \<in> set seen" if "fx_stack t \<noteq> []" using sub last_in_set [OF that] by blast
  ultimately show "placed seen n s (track f v (push n f v (attach_to_stack_top n t)))"
    "placed seen n s (attach_to_stack_top n t)"
    using assms by (auto simp: placed_def fixer_inv_def fixer_ops)
qed

lemma placed_child_push:
  assumes "fixer_inv seen s" and "i < length (fx_stack s)" and "j \<le> length (fx_stack s)"
  shows "placed seen n s (track f v (push n f v (cut_stack j (add_child (fx_stack s ! i) n s))))"
proof -
  have "fx_stack s ! i \<in> set seen" using assms(1,2) nth_mem [of i "fx_stack s"] by (auto simp: fixer_inv_def)
  then show ?thesis using assms set_take_subset [of j "fx_stack s"] by (auto simp: placed_def fixer_inv_def fixer_ops)
qed

lemma placed_handlers:
  assumes "fixer_inv seen s"
  shows "placed seen n s (handle_new_format n f v s)" "placed seen n s (handle_multilevel_child n f v s)"
    "placed seen n s (handle_consecutive n f v s)" "placed seen n s (handle_non_consecutive n f v s)"
    "placed seen n s (attach_non_title_node n s)"
proof -
  have len: "length (fx_formats s) = length (fx_stack s)" using assms by (simp add: fixer_inv_def)
  note top = placed_attach_push [OF assms len subset_refl refl refl]
  show "placed seen n s (handle_new_format n f v s)" by (simp add: handle_new_format_def top)
  show m: "placed seen n s (handle_multilevel_child n f v s)"
    using index_bound [OF assms, of f]
    by (auto simp: handle_multilevel_child_def top split: option.splits intro!: placed_child_push [OF assms])
  have zero: "placed seen n s (track f v (push n f v (cut_stack 0 (add_result n s))))"
    using assms by (auto simp: placed_def fixer_inv_def fixer_ops)
  show "placed seen n s (handle_consecutive n f v s)"
  proof (cases "find_format_index f s")
    case (Some i)
    with index_bound [OF assms Some] m zero show ?thesis
      by (cases i) (auto simp: handle_consecutive_def intro!: placed_child_push [OF assms])
  qed (simp add: handle_consecutive_def m top)
  show "placed seen n s (handle_non_consecutive n f v s)"
  proof (cases "find_format_index f s")
    case (Some i)
    have "placed seen n s (track f v (push n f v (attach_to_stack_top n (cut_stack i s))))"
      using len set_take_subset [of i "fx_stack s"] by (intro placed_attach_push(1) [OF assms]) (auto simp: cut_stack_def)
    with Some show ?thesis by (simp add: handle_non_consecutive_def)
  qed (simp add: handle_non_consecutive_def top)
  show "placed seen n s (attach_non_title_node n s)"
  proof (cases "fx_content s")
    case (Some p)
    with assms show ?thesis by (auto simp: attach_non_title_node_def placed_def fixer_inv_def add_child_def)
  qed (simp add: attach_non_title_node_def top)
qed

lemma placed_content:
  "placed seen n s t \<Longrightarrow> placed seen n s (t\<lparr>fx_content := Some n\<rparr>)"
  "placed seen n (s\<lparr>fx_content := None\<rparr>) t \<Longrightarrow> placed seen n s t"
  by (auto simp: placed_def)

lemma placed_step:
  assumes "fixer_inv seen s" and "on_miss_handler ps skip_under n s = Inr t"
  shows "placed seen n s t"
proof -
  have c: "fixer_inv seen (s\<lparr>fx_content := None\<rparr>)" using assms(1) by (simp add: fixer_inv_def)
  have len: "length (fx_formats s) = length (fx_stack s)" using assms(1) by (simp add: fixer_inv_def)
  note h = placed_handlers [OF c, THEN placed_content(2)]
  show ?thesis
  proof (cases "should_skip_numbering skip_under n")
    case True
    with assms(2) placed_handlers(5) [OF assms(1)] show ?thesis by (auto simp: on_miss_handler_def)
  next
    case False
    with assms(2) obtain x where x: "t = (case x of
        None \<Rightarrow> (attach_to_stack_top n s)\<lparr>fx_content := Some n\<rparr>
      | Some (f, v) \<Rightarrow> (let s1 = s\<lparr>fx_content := None\<rparr> in case map_of (fx_tracker s1) f of
             None \<Rightarrow> handle_new_format n f v s1
           | Some last_val \<Rightarrow> if is_consecutive last_val v f then handle_consecutive n f v s1 else handle_non_consecutive n f v s1))"
      by (auto simp: on_miss_handler_def rbind_eq_Inr)
    show ?thesis
    proof (cases x)
      case None
      with x placed_content(1) [OF placed_attach_push(2) [OF assms(1) len subset_refl refl refl]] show ?thesis by simp
    next
      case (Some fv)
      with x h show ?thesis by (cases fv) (simp add: Let_def split: option.split)
    qed
  qed
qed

lemma placed_fold:
  "fixer_inv seen s \<Longrightarrow> map snd (fx_places s) = seen \<Longrightarrow>
   \<forall>k < length (fx_places s). \<forall>q. fst (fx_places s ! k) = Some q \<longrightarrow> q \<in> set (take k seen) \<Longrightarrow>
   rfold (on_miss_handler ps skip_under) ns s = Inr t \<Longrightarrow>
   map snd (fx_places t) = seen @ ns \<and>
   (\<forall>k < length (fx_places t). \<forall>q. fst (fx_places t ! k) = Some q \<longrightarrow> q \<in> set (take k (seen @ ns)))"
proof (induction ns arbitrary: seen s)
  case (Cons n ns)
  from Cons.prems(4) obtain u where u: "on_miss_handler ps skip_under n s = Inr u"
    "rfold (on_miss_handler ps skip_under) ns u = Inr t" by (auto simp: rbind_eq_Inr)
  from placed_step [OF Cons.prems(1) u(1)] obtain p where p: "fx_places u = fx_places s @ [(p, n)]"
    "\<forall>q. p = Some q \<longrightarrow> q \<in> set seen" and inv: "fixer_inv (seen @ [n]) u"
    by (auto simp: placed_def fixer_inv_def)
  have len: "length (fx_places s) = length seen" using arg_cong [OF Cons.prems(2), of length] by simp
  have "\<forall>k < length (fx_places u). \<forall>q. fst (fx_places u ! k) = Some q \<longrightarrow> q \<in> set (take k (seen @ [n]))"
    using Cons.prems(3) p len by (auto simp: nth_append less_Suc_eq)
  from Cons.IH [OF inv _ this u(2)] show ?case using p(1) Cons.prems(2) by simp
qed simp

text \<open>
  The tree fixer places every node of the flattened input exactly once, in order, as a top node or
  below a node that came before it, so its own placements are a forest, and no index of its stacks is out
  of range. The children the nodes came with stay in front of the new ones: a node that arrives below
  another is then in two lists of children.
\<close>

theorem tree_fixer_places_once:
  assumes "tree_fixer_forward ps skip_under ts = Inr r"
  shows "\<exists>places. map snd places = concat (map flatten_node ts) \<and>
    (\<forall>k < length places. \<forall>q. fst (places ! k) = Some q \<longrightarrow> q \<in> set (take k (concat (map flatten_node ts)))) \<and>
    fd_tops r = map snd (filter (\<lambda>e. fst e = None) places) \<and>
    fd_edges r = concat (map old_edges ts) @ filter (\<lambda>e. fst e \<noteq> None) places"
proof -
  from assms obtain s where s: "rfold (on_miss_handler ps skip_under) (concat (map flatten_node ts)) reset_state = Inr s"
    and r: "fd_tops r = map snd (filter (\<lambda>e. fst e = None) (fx_places s))"
      "fd_edges r = concat (map old_edges ts) @ filter (\<lambda>e. fst e \<noteq> None) (fx_places s)"
    by (auto simp: tree_fixer_forward_def Let_def rbind_eq_Inr)
  have "fixer_inv [] reset_state" by (simp add: fixer_inv_def reset_state_def)
  from placed_fold [OF this _ _ s] r show ?thesis
    by (intro exI [of _ "fx_places s"]) (simp add: reset_state_def)
qed

text \<open>A heading that arrives with its paragraph as a child: the paragraph is placed below it a second time.\<close>

definition demo_heading :: fnode where "demo_heading = \<lparr>fn_id = 1, fn_text = [49, 46, 32, 97], fn_level = Some 1\<rparr>"
definition demo_para :: fnode where "demo_para = \<lparr>fn_id = 2, fn_text = [97], fn_level = None\<rparr>"

lemma demo_fixer:
  "tree_fixer_forward numbering_patterns 1 [InTree demo_heading [InTree demo_para []]] =
     Inr \<lparr>fd_tops = [demo_heading], fd_edges = [(Some demo_heading, demo_para), (Some demo_heading, demo_para)],
          fd_levels = [(demo_heading, 1), (demo_para, 2), (demo_para, 2)]\<rparr>"
  by (simp add: tree_fixer_forward_def demo_heading_def demo_para_def on_miss_handler_def should_skip_numbering_def
      extract_numbering_def numbering_patterns_def run_then_def paren_run_def chinese_numeral_def chinese_digits_def
      chinese_units_def udigit_def starts_with_def pause_mark_def open_paren_def close_paren_def ustrip_def uspace_def
      multilevel_match_def digits_run_def dotted_groups.simps digit_dot_match_def parse_numbering_def parse_int_def
      digits_value_def handle_new_format_def fixer_ops reset_state_def attach_non_title_node_def children_of_def
      numeral_2_eq_2 Let_def)

theorem tree_fixer_places_once_witness:
  "\<exists>places. map snd places = [demo_heading, demo_para] \<and>
     [(Some demo_heading, demo_para), (Some demo_heading, demo_para)] =
       (Some demo_heading, demo_para) # filter (\<lambda>e. fst e \<noteq> None) places"
proof -
  let ?ts = "[InTree demo_heading [InTree demo_para []]]"
  obtain places where "map snd places = concat (map flatten_node ?ts)"
      "[(Some demo_heading, demo_para), (Some demo_heading, demo_para)] =
        concat (map old_edges ?ts) @ filter (\<lambda>e. fst e \<noteq> None) places"
    using tree_fixer_places_once [OF demo_fixer] unfolding fixed.simps by blast
  then show ?thesis by (intro exI [of _ places]) simp
qed

section \<open>Chinese numbers\<close>

lemma chinese_digit_cases: "chinese_digits c = Some d \<Longrightarrow> 0 \<le> d \<and> d < 10"
  by (auto simp: chinese_digits_def split: if_splits)

text \<open>Tens and ones are read as written; a ten before the unit of ten thousand is added, not multiplied.\<close>

lemma chinese_tens:
  "chinese_digits a = Some t \<Longrightarrow> t \<noteq> 0 \<Longrightarrow> chinese_digits b = Some d \<Longrightarrow> parse_chinese_number [a, 21313, b] = 10 * t + d"
  by (simp add: parse_chinese_number_def chinese_units_def chinese_digits_def)

lemma chinese_two_hundred_thousand: "parse_chinese_number [20108, 21313, 19975] = 10020"
  by (simp add: parse_chinese_number_def chinese_units_def chinese_digits_def)

end
