(* ===== verification/GroupNodes.thy ===== *)
theory GroupNodes
  imports UText
begin

text \<open>
  The grouping of parsed nodes of \<open>lazyllm/tools/rag/transform/groupby.py\<close>: groups under a title,
  merging of what fits, cutting of what does not, and the lines of the source document that are kept with
  each node. Coordinates are integers; an empty box is a box that is missing.
\<close>

record gline =
  gl_content :: utext
  gl_bbox :: "int list"
  gl_type :: string
  gl_page :: int

record gnode =
  gn_content :: utext
  gn_type :: "string option"
  gn_level :: int
  gn_page :: int
  gn_bbox :: "int list"
  gn_lines :: "gline list"
  gn_title :: "utext option"
  gn_caption :: utext
  gn_footnote :: utext

definition node_type :: "gnode \<Rightarrow> string" where
  "node_type n = (case gn_type n of None \<Rightarrow> ''text'' | Some t \<Rightarrow> t)"

section \<open>Texts\<close>

definition newline :: nat where "newline = 10"

fun split_lines :: "utext \<Rightarrow> utext list" where
  "split_lines [] = [[]]"
| "split_lines (c # s) = (if c = newline then [] # split_lines s else (case split_lines s of [] \<Rightarrow> [[c]] | g # gs \<Rightarrow> (c # g) # gs))"

fun join_lines :: "utext list \<Rightarrow> utext" where
  "join_lines [] = []"
| "join_lines [l] = l"
| "join_lines (l # ls) = l @ newline # join_lines ls"

lemma split_lines_nonempty [simp]: "split_lines s \<noteq> []"
  by (induction s) (auto split: list.splits)

lemma join_split_lines [simp]: "join_lines (split_lines s) = s"
proof (induction s)
  case (Cons c s)
  obtain g gs where g: "split_lines s = g # gs" by (cases "split_lines s") simp_all
  with Cons show ?case by (cases gs) auto
qed simp

lemma split_lines_no_newline: "l \<in> set (split_lines s) \<Longrightarrow> newline \<notin> set l"
proof (induction s arbitrary: l)
  case (Cons c s)
  obtain g gs where g: "split_lines s = g # gs" by (cases "split_lines s") simp_all
  with Cons show ?case by (auto split: if_splits)
qed simp

definition unspaced :: "utext \<Rightarrow> utext" where
  "unspaced s = filter (\<lambda>c. \<not> uspace c) (filter (\<lambda>c. c \<noteq> 36) s)"

text \<open>\<open>_extract_image_text\<close>: the alternative text of a Markdown image, or the paragraph itself.\<close>

definition extract_image_text :: "utext \<Rightarrow> utext" where
  "extract_image_text para =
     (let s = ustrip para in
      case s of
        b # o1 # r \<Rightarrow>
          if b = 33 \<and> o1 = 91 then
            (let alt = takeWhile (\<lambda>c. c \<noteq> 93) r; r1 = dropWhile (\<lambda>c. c \<noteq> 93) r
             in case r1 of
                  _ # p # r2 \<Rightarrow>
                    if p = 40 \<and> takeWhile (\<lambda>c. c \<noteq> 41) r2 \<noteq> [] \<and> dropWhile (\<lambda>c. c \<noteq> 41) r2 \<noteq> [] then alt else para
                | _ \<Rightarrow> para)
          else para
      | _ \<Rightarrow> para)"

definition is_content_in_para :: "utext \<Rightarrow> utext \<Rightarrow> bool" where
  "is_content_in_para content para \<longleftrightarrow> content = [] \<or>
     (let c = unspaced content; p = unspaced (extract_image_text para)
      in length c \<le> length p \<and> take (length c) p = c)"

section \<open>Lines and boxes\<close>

definition merge_line_bbox :: "int list \<Rightarrow> int list \<Rightarrow> int list" where
  "merge_line_bbox a b =
     (if a = [] then b else if b = [] then a
      else if length a < 4 \<or> length b < 4 then a
      else [min (a ! 0) (b ! 0), min (a ! 1) (b ! 1), max (a ! 2) (b ! 2), max (a ! 3) (b ! 3)])"

definition merge_group_lines :: "gline list \<Rightarrow> gline" where
  "merge_group_lines ls =
     \<lparr>gl_content = concat (map gl_content ls), gl_bbox = fold (\<lambda>l b. merge_line_bbox b (gl_bbox l)) ls [],
      gl_type = gl_type (hd ls), gl_page = gl_page (hd ls)\<rparr>"

text \<open>The inner loop takes lines while their text is a prefix of the paragraph.\<close>

fun take_group :: "utext \<Rightarrow> utext \<Rightarrow> gline list \<Rightarrow> gline list \<times> gline list" where
  "take_group para acc [] = ([], [])"
| "take_group para acc (l # ls) =
     (if is_content_in_para (acc @ gl_content l) para then
        (case take_group para (acc @ gl_content l) ls of (g, r) \<Rightarrow> (l # g, r))
      else ([], l # ls))"

fun group_paragraphs :: "utext list \<Rightarrow> gline list \<Rightarrow> gline list" where
  "group_paragraphs [] ls = ls"
| "group_paragraphs (p # ps) ls =
     (case take_group p [] ls of
        (g, r) \<Rightarrow> (if g = [] then group_paragraphs ps r else merge_group_lines g # group_paragraphs ps r))"

definition split_text_into_lines :: "utext \<Rightarrow> gline list \<Rightarrow> gline list" where
  "split_text_into_lines t ls =
     (if t = [] \<or> ls = [] then ls
      else (let paragraphs = filter (\<lambda>p. ustrip p \<noteq> []) (split_lines t)
            in if paragraphs = [] then ls else group_paragraphs paragraphs ls))"

text \<open>The box of the first page among boxes that carry their page.\<close>

definition merge_bbox :: "(int \<times> int list) list \<Rightarrow> int list" where
  "merge_bbox bs =
     (let full = filter (\<lambda>(p, b). 4 \<le> length b) bs
      in if full = [] then []
         else (let first = fold (\<lambda>(p, b) m. min p m) (tl full) (fst (hd full));
                   on_first = map snd (filter (\<lambda>(p, b). p = first) full)
               in [Min (set (map (\<lambda>b. b ! 0) on_first)), Min (set (map (\<lambda>b. b ! 1) on_first)),
                   Max (set (map (\<lambda>b. b ! 2) on_first)), Max (set (map (\<lambda>b. b ! 3) on_first))]))"

definition merge_nodes :: "gnode list \<Rightarrow> gnode option" where
  "merge_nodes ns =
     (let solid = filter (\<lambda>n. ustrip (gn_content n) \<noteq> []) ns
      in if solid = [] then None
         else
           (let text = join_lines (map gn_content solid);
                box = merge_bbox (map (\<lambda>n. (gn_page n, gn_bbox n)) (filter (\<lambda>n. gn_bbox n \<noteq> []) solid));
                ls = concat (map gn_lines solid)
            in Some ((hd ns)\<lparr>gn_content := text, gn_lines := split_text_into_lines text ls,
                             gn_bbox := (if box \<noteq> [] then box else gn_bbox (hd ns))\<rparr>)))"

section \<open>Cutting a large node\<close>

definition table_caption_word :: utext where
  "table_caption_word = [116, 97, 98, 108, 101, 95, 99, 97, 112, 116, 105, 111, 110]"
definition table_footnote_word :: utext where
  "table_footnote_word = [116, 97, 98, 108, 101, 95, 102, 111, 111, 116, 110, 111, 116, 101]"

definition lstrip :: "utext \<Rightarrow> utext" where "lstrip s = dropWhile uspace s"
definition rstrip :: "utext \<Rightarrow> utext" where "rstrip s = rev (dropWhile uspace (rev s))"

definition has_prefix :: "utext \<Rightarrow> utext \<Rightarrow> bool" where "has_prefix p s \<longleftrightarrow> take (length p) s = p"
definition has_suffix :: "utext \<Rightarrow> utext \<Rightarrow> bool" where "has_suffix p s \<longleftrightarrow> has_prefix (rev p) (rev s)"

text \<open>The comparison is with the name of the field, not with its value.\<close>

definition create_split_node :: "utext list \<Rightarrow> gnode \<Rightarrow> gnode" where
  "create_split_node chunks n =
     (let content = join_lines chunks;
          c1 = (if node_type n = ''table'' \<and> gn_caption n \<noteq> [] \<and> \<not> has_prefix table_caption_word (lstrip content)
                then gn_caption n @ newline # content else content);
          c2 = (if node_type n = ''table'' \<and> gn_footnote n \<noteq> [] \<and> \<not> has_suffix table_footnote_word (rstrip c1)
                then rstrip c1 @ [newline, newline] @ gn_footnote n else c1)
      in n\<lparr>gn_content := c2, gn_lines := [\<lparr>gl_content = c2, gl_bbox = gn_bbox n, gl_type = node_type n, gl_page = gn_page n\<rparr>]\<rparr>)"

text \<open>\<open>line[i:i + max_length]\<close> for \<open>i\<close> in steps of the maximum, which is positive.\<close>

function windows :: "nat \<Rightarrow> utext \<Rightarrow> utext list" where
  "windows k s = (if k = 0 \<or> s = [] then [] else take k s # windows k (drop k s))"
  by pat_completeness auto

termination
  by (relation "measure (length \<circ> snd)") auto

declare windows.simps [simp del]

fun split_large_loop :: "nat \<Rightarrow> utext list \<Rightarrow> utext list \<Rightarrow> utext list list" where
  "split_large_loop k [] cur = (if cur \<noteq> [] then [cur] else [])"
| "split_large_loop k (l # ls) cur =
     (if k < length l then (if cur \<noteq> [] then [cur] else []) @ map (\<lambda>w. [w]) (windows k l) @ split_large_loop k ls []
      else if k < length (join_lines (cur @ [l])) then (if cur \<noteq> [] then [cur] else []) @ split_large_loop k ls [l]
      else split_large_loop k ls (cur @ [l]))"

definition split_large_node :: "nat \<Rightarrow> gnode \<Rightarrow> gnode list res" where
  "split_large_node k n =
     (let ls = split_lines (gn_content n)
      in if k = 0 \<and> (\<exists>l \<in> set ls. l \<noteq> []) then Inl ValueError
         else Inr (map (\<lambda>c. create_split_node c n) (split_large_loop k ls [])))"

section \<open>Groups\<close>

definition total_length :: "gnode list \<Rightarrow> nat" where
  "total_length ns = sum_list (map (\<lambda>n. length (gn_content n)) ns)"

definition with_title :: "utext option \<Rightarrow> gnode \<Rightarrow> gnode" where
  "with_title t n = (case t of None \<Rightarrow> n | Some t' \<Rightarrow> if t' = [] then n else n\<lparr>gn_title := Some t'\<rparr>)"

definition process_node :: "nat \<Rightarrow> utext option \<Rightarrow> gnode \<Rightarrow> gnode list res" where
  "process_node k title n =
     (let n1 = n\<lparr>gn_lines := split_text_into_lines (gn_content n) (gn_lines n)\<rparr>
      in rbind (if k < length (gn_content n1) then split_large_node k n1 else Inr [n1])
           (\<lambda>ns. Inr (map (with_title title) ns)))"

definition process_node_group :: "nat \<Rightarrow> utext option \<Rightarrow> gnode list \<Rightarrow> gnode list res" where
  "process_node_group k title g =
     (if total_length g \<le> k then
        Inr (case merge_nodes g of None \<Rightarrow> [] | Some m \<Rightarrow> [with_title title m])
      else rbind (rmap (process_node k title) g) (\<lambda>nss. Inr (concat nss)))"

definition attach_types :: "string set" where
  "attach_types = {''list'', ''image'', ''code'', ''equation''}"

fun group_by_type_loop :: "gnode list \<Rightarrow> gnode list \<Rightarrow> gnode list list" where
  "group_by_type_loop [] cur = (if cur \<noteq> [] then [cur] else [])"
| "group_by_type_loop (n # ns) cur =
     (if node_type n \<in> attach_types then group_by_type_loop ns (cur @ [n])
      else (if cur \<noteq> [] then [cur] else []) @
           (if node_type n = ''table'' then [n] # group_by_type_loop ns [] else group_by_type_loop ns [n]))"

definition group_nodes_by_type :: "gnode list \<Rightarrow> gnode list list" where
  "group_nodes_by_type ns = group_by_type_loop ns []"

definition split_title_and_content :: "bool \<Rightarrow> gnode list \<Rightarrow> gnode option \<times> gnode list" where
  "split_title_and_content merge_title ns =
     (if merge_title then (None, ns)
      else (case ns of [] \<Rightarrow> (None, []) | n # r \<Rightarrow> if 0 < gn_level n then (Some n, r) else (None, ns)))"

definition title_list :: "gnode option \<Rightarrow> gnode list" where
  "title_list t = (case t of None \<Rightarrow> [] | Some n \<Rightarrow> [n])"

definition process_group :: "nat \<Rightarrow> bool \<Rightarrow> gnode list \<Rightarrow> gnode list res" where
  "process_group k merge_title ns =
     (if ns = [] then Inr []
      else
        (let (t0, content) = split_title_and_content merge_title ns;
             t = map_option (\<lambda>n. n\<lparr>gn_lines := split_text_into_lines (gn_content n) (gn_lines n)\<rparr>) t0;
             title = map_option gn_content t
         in if content = [] then Inr (title_list t)
            else if total_length content \<le> k then
              Inr (case merge_nodes content of
                     None \<Rightarrow> title_list t
                   | Some m \<Rightarrow> title_list t @ [with_title title m])
            else rbind (rmap (process_node_group k title) (group_nodes_by_type content))
                   (\<lambda>nss. Inr (title_list t @ concat nss))))"

definition group_by_level :: "gnode list list \<Rightarrow> gnode \<Rightarrow> gnode list list" where
  "group_by_level gs n =
     (if 0 < gn_level n \<or> gs = [] then gs @ [[n]] else butlast gs @ [last gs @ [n]])"

definition group_parse_nodes :: "nat \<Rightarrow> bool \<Rightarrow> gnode list \<Rightarrow> gnode list res" where
  "group_parse_nodes k merge_title ns =
     rbind (rmap (process_group k merge_title) (foldl group_by_level [] ns)) (\<lambda>nss. Inr (concat nss))"

text \<open>\<open>forward\<close> does not pass on what the constructor was given; \<open>process\<close> does.\<close>

definition group_forward :: "nat \<Rightarrow> bool \<Rightarrow> gnode list \<Rightarrow> gnode list res" where
  "group_forward max_length merge_title ns = group_parse_nodes 2048 True ns"

definition group_process :: "nat \<Rightarrow> bool \<Rightarrow> gnode list \<Rightarrow> gnode list res" where
  "group_process max_length merge_title ns = group_parse_nodes max_length merge_title ns"

section \<open>Cutting keeps the text\<close>

lemma windows_join: "0 < k \<Longrightarrow> concat (windows k s) = s \<and> (\<forall>w \<in> set (windows k s). length w \<le> k)"
proof (induction k s rule: windows.induct)
  case (1 k s)
  then show ?case by (cases "s = []") (simp_all add: windows.simps [of k s] windows.simps [of k "[]"])
qed

lemma split_large_fits:
  "0 < k \<Longrightarrow> length (join_lines cur) \<le> k \<Longrightarrow> c \<in> set (split_large_loop k ls cur) \<Longrightarrow> length (join_lines c) \<le> k"
proof (induction k ls cur rule: split_large_loop.induct)
  case (2 k l ls cur)
  then show ?case using windows_join [of k l] by (auto split: if_splits)
qed (auto split: if_splits)

lemma split_large_content: "0 < k \<Longrightarrow> concat (concat (split_large_loop k ls cur)) = concat cur @ concat ls"
proof (induction k ls cur rule: split_large_loop.induct)
  case (2 k l ls cur)
  have "concat (concat (map (\<lambda>w. [w]) ws)) = concat ws" for ws :: "utext list" by (induction ws) auto
  with 2 show ?case using windows_join [of k l] by auto
qed auto

definition printed :: "utext \<Rightarrow> utext" where
  "printed s = filter (\<lambda>c. c \<noteq> newline) s"

lemma printed_join: "printed (join_lines ls) = printed (concat ls)"
  by (induction ls rule: join_lines.induct) (auto simp: printed_def)

lemma printed_split: "printed (concat (split_lines s)) = printed s"
  using printed_join [of "split_lines s"] by simp

lemma printed_chunks: "printed (concat (map join_lines cs)) = printed (concat (concat cs))"
  by (induction cs) (auto simp: printed_def printed_join [unfolded printed_def])

lemma create_split_node_content: "node_type n \<noteq> ''table'' \<Longrightarrow> gn_content (create_split_node c n) = join_lines c"
  by (simp add: create_split_node_def Let_def)

text \<open>
  A node that is too long and is not a table is cut into nodes none of which is longer than the
  maximum, and together they hold its text, up to the line breaks at the cuts.
\<close>

theorem split_large_node_bounded:
  assumes "0 < k" and "node_type n \<noteq> ''table''"
  shows "\<exists>ps. split_large_node k n = Inr ps \<and> (\<forall>p \<in> set ps. length (gn_content p) \<le> k) \<and>
    printed (concat (map gn_content ps)) = printed (gn_content n)"
proof -
  let ?cs = "split_large_loop k (split_lines (gn_content n)) []"
  let ?ps = "map (\<lambda>c. create_split_node c n) ?cs"
  have e: "split_large_node k n = Inr ?ps" using assms(1) by (simp add: split_large_node_def Let_def)
  have "\<forall>p \<in> set ?ps. length (gn_content p) \<le> k"
    using split_large_fits [OF assms(1), of "[]"] by (auto simp: create_split_node_content [OF assms(2)])
  moreover have "map gn_content ?ps = map join_lines ?cs" by (simp add: create_split_node_content [OF assms(2)] comp_def)
  then have "printed (concat (map gn_content ?ps)) = printed (gn_content n)"
    by (simp only: printed_chunks split_large_content [OF assms(1)] concat.simps append_Nil printed_split)
  ultimately show ?thesis using e by blast
qed

definition demo_node :: "string option \<Rightarrow> gnode" where
  "demo_node t = \<lparr>gn_content = [97, 98, 99, 100, 101, 10, 102, 10, 103], gn_type = t, gn_level = 0, gn_page = 0,
     gn_bbox = [], gn_lines = [], gn_title = None, gn_caption = [120, 121], gn_footnote = []\<rparr>"

theorem split_large_node_bounded_witness:
  "\<exists>ps. split_large_node 3 (demo_node None) = Inr ps \<and> (\<forall>p \<in> set ps. length (gn_content p) \<le> 3) \<and>
     printed (concat (map gn_content ps)) = [97, 98, 99, 100, 101, 102, 103]"
proof -
  have "0 < (3 :: nat)" "node_type (demo_node None) \<noteq> ''table''" by (simp_all add: node_type_def demo_node_def)
  from split_large_node_bounded [OF this] show ?thesis by (simp add: demo_node_def printed_def newline_def)
qed

text \<open>A table repeats its caption in front of every part, so its parts can exceed the maximum.\<close>

lemma table_parts_exceed:
  "map gn_content (projr (split_large_node 3 (demo_node (Some ''table'')))) =
     [[120, 121, 10, 97, 98, 99], [120, 121, 10, 100, 101], [120, 121, 10, 102, 10, 103]]"
  by (simp add: split_large_node_def demo_node_def windows.simps create_split_node_def node_type_def newline_def
      lstrip_def uspace_def has_prefix_def table_caption_word_def Let_def)

end
