(* ===== verification/TaskQueue.thy ===== *)
theory TaskQueue
  imports Prelude
begin

text \<open>
  The task queue in a database that the workers of the parsing service share
  (\<open>lazyllm/tools/rag/parsing_service/queue.py\<close>), the scores of tasks (\<open>base.py\<close>), the reset of stale
  tasks when a worker starts (\<open>worker.py\<close>), and the states that any interleaving of workers can reach.
  A table is the list of its rows, and a query that is not ordered further yields them in that order.
  Times are integers. Every operation is one transaction; for \<open>claim\<close>, which reads a row and writes it back, that is the
  documented effect of \<open>SELECT ... FOR UPDATE\<close> on a database with row locks. SQLite ignores the clause, so that there the
  atomicity of a claim is an assumption; \<open>claim_race\<close> at the end shows what two claims do without it.
\<close>

section \<open>Tasks\<close>

datatype task_type = DocAdd | DocDelete | DocUpdateMeta | DocReparse | DocTransfer | OtherType string

datatype task_status = WAITING | WORKING | CANCELED | SUCCESS | FAILED

definition get_task_type_weight :: "task_type \<Rightarrow> int" where
  "get_task_type_weight t = (case t of DocDelete \<Rightarrow> 10 | DocUpdateMeta \<Rightarrow> 30 | _ \<Rightarrow> 100)"

definition calculate_task_score :: "task_type \<Rightarrow> int \<Rightarrow> int" where
  "calculate_task_score t user_priority = get_task_type_weight t * 10 - user_priority * 15"

record 'p trow =
  tr_id :: nat
  tr_task :: string
  tr_type :: task_type
  tr_priority :: int
  tr_score :: int
  tr_message :: 'p
  tr_status :: task_status
  tr_worker :: "string option"
  tr_lease :: "int option"
  tr_created :: int
  tr_updated :: int

section \<open>Operations on a table\<close>

text \<open>The rows of a query in the order of the queue: ascending, or descending with \<open>order_desc\<close>.\<close>

definition build_query :: "('r \<Rightarrow> 'k::linordered_ab_group_add) \<Rightarrow> bool \<Rightarrow> ('r \<Rightarrow> bool) \<Rightarrow> 'r list \<Rightarrow> 'r list" where
  "build_query key desc p t = sort_key (\<lambda>r. if desc then - key r else key r) (filter p t)"

definition next_id :: "('r \<Rightarrow> nat) \<Rightarrow> 'r list \<Rightarrow> nat" where
  "next_id rid t = Suc (fold max (map rid t) 0)"

definition q_enqueue :: "('r \<Rightarrow> nat) \<Rightarrow> (nat \<Rightarrow> 'r) \<Rightarrow> 'r list \<Rightarrow> 'r \<times> 'r list" where
  "q_enqueue rid mk t = (let r = mk (next_id rid t) in (r, t @ [r]))"

definition q_dequeue ::
    "('r \<Rightarrow> nat) \<Rightarrow> ('r \<Rightarrow> 'k::linordered_ab_group_add) \<Rightarrow> bool \<Rightarrow> ('r \<Rightarrow> bool) \<Rightarrow> 'r list \<Rightarrow> 'r option \<times> 'r list" where
  "q_dequeue rid key desc p t =
     (case build_query key desc p t of
        [] \<Rightarrow> (None, t)
      | r # _ \<Rightarrow> (Some r, filter (\<lambda>x. rid x \<noteq> rid r) t))"

definition q_peek :: "('r \<Rightarrow> 'k::linordered_ab_group_add) \<Rightarrow> bool \<Rightarrow> ('r \<Rightarrow> bool) \<Rightarrow> 'r list \<Rightarrow> 'r option" where
  "q_peek key desc p t = (case build_query key desc p t of [] \<Rightarrow> None | r # _ \<Rightarrow> Some r)"

definition q_size :: "('r \<Rightarrow> bool) \<Rightarrow> 'r list \<Rightarrow> nat" where
  "q_size p t = length (filter p t)"

definition q_delete :: "('r \<Rightarrow> bool) \<Rightarrow> 'r list \<Rightarrow> nat \<times> 'r list" where
  "q_delete p t = (length (filter p t), filter (\<lambda>r. \<not> p r) t)"

definition q_clear :: "('r \<Rightarrow> bool) \<Rightarrow> 'r list \<Rightarrow> nat \<times> 'r list" where
  "q_clear p t = q_delete p t"

definition q_update ::
    "('r \<Rightarrow> nat) \<Rightarrow> ('r \<Rightarrow> 'k::linordered_ab_group_add) \<Rightarrow> bool \<Rightarrow> ('r \<Rightarrow> bool) \<Rightarrow> ('r \<Rightarrow> 'r) \<Rightarrow> 'r list \<Rightarrow> 'r option \<times> 'r list" where
  "q_update rid key desc p f t =
     (case build_query key desc p t of
        [] \<Rightarrow> (None, t)
      | r # _ \<Rightarrow> (Some (f r), map (\<lambda>x. if rid x = rid r then f r else x) t))"

text \<open>\<open>claim\<close>: a task that waits, or one whose lease has run out.\<close>

definition claimable :: "int \<Rightarrow> 'p trow \<Rightarrow> bool" where
  "claimable now r \<longleftrightarrow> tr_status r = WAITING \<or>
     (tr_status r = WORKING \<and> (case tr_lease r of None \<Rightarrow> True | Some u \<Rightarrow> u < now))"

definition type_wanted :: "task_type list \<Rightarrow> task_type list \<Rightarrow> 'p trow \<Rightarrow> bool" where
  "type_wanted incl excl r \<longleftrightarrow> (incl \<noteq> [] \<longrightarrow> tr_type r \<in> set incl) \<and> (excl \<noteq> [] \<longrightarrow> tr_type r \<notin> set excl)"

definition take_lease :: "string \<Rightarrow> int \<Rightarrow> int \<Rightarrow> 'p trow \<Rightarrow> 'p trow" where
  "take_lease w now d r = r\<lparr>tr_status := WORKING, tr_worker := Some w, tr_lease := Some (now + d), tr_updated := now\<rparr>"

definition claim ::
    "string \<Rightarrow> int \<Rightarrow> int \<Rightarrow> task_type list \<Rightarrow> task_type list \<Rightarrow> 'p trow list \<Rightarrow> 'p trow option \<times> 'p trow list" where
  "claim w now d incl excl t =
     q_update tr_id tr_score False (\<lambda>r. type_wanted incl excl r \<and> claimable now r) (take_lease w now d) t"

text \<open>\<open>extend_lease\<close> takes the first row of the task that the worker holds, whatever its status.\<close>

fun update_first :: "('r \<Rightarrow> bool) \<Rightarrow> ('r \<Rightarrow> 'r) \<Rightarrow> 'r list \<Rightarrow> bool \<times> 'r list" where
  "update_first p f [] = (False, [])"
| "update_first p f (r # t) = (if p r then (True, f r # t) else (case update_first p f t of (b, t') \<Rightarrow> (b, r # t')))"

definition extend_lease :: "string \<Rightarrow> string \<Rightarrow> int \<Rightarrow> int \<Rightarrow> 'p trow list \<Rightarrow> bool \<times> 'p trow list" where
  "extend_lease task w now d t =
     update_first (\<lambda>r. tr_task r = task \<and> tr_worker r = Some w) (\<lambda>r. r\<lparr>tr_lease := Some (now + d), tr_updated := now\<rparr>) t"

definition submit_row :: "string \<Rightarrow> task_type \<Rightarrow> int \<Rightarrow> 'p \<Rightarrow> int \<Rightarrow> nat \<Rightarrow> 'p trow" where
  "submit_row task ty prio msg now i =
     \<lparr>tr_id = i, tr_task = task, tr_type = ty, tr_priority = prio, tr_score = calculate_task_score ty prio,
      tr_message = msg, tr_status = WAITING, tr_worker = None, tr_lease = None, tr_created = now, tr_updated = now\<rparr>"

definition submit :: "string \<Rightarrow> task_type \<Rightarrow> int \<Rightarrow> 'p \<Rightarrow> int \<Rightarrow> 'p trow list \<Rightarrow> 'p trow list" where
  "submit task ty prio msg now t = snd (q_enqueue tr_id (submit_row task ty prio msg now) t)"

text \<open>The two ways a row leaves the table: its worker has finished it, or it is cancelled while it waits.\<close>

definition finish_task :: "string \<Rightarrow> string \<Rightarrow> 'p trow list \<Rightarrow> nat \<times> 'p trow list" where
  "finish_task task w t = q_delete (\<lambda>r. tr_task r = task \<and> tr_worker r = Some w) t"

definition cancel_task :: "string \<Rightarrow> 'p trow list \<Rightarrow> nat \<times> 'p trow list" where
  "cancel_task task t = q_delete (\<lambda>r. tr_task r = task \<and> tr_status r = WAITING) t"

definition stale :: "int \<Rightarrow> 'p trow \<Rightarrow> bool" where
  "stale now r \<longleftrightarrow> tr_status r = WORKING \<and> (case tr_lease r of None \<Rightarrow> True | Some u \<Rightarrow> u < now)"

definition cleanup_stale_tasks :: "int \<Rightarrow> 'p trow list \<Rightarrow> 'p trow list" where
  "cleanup_stale_tasks now t =
     map (\<lambda>r. if stale now r then r\<lparr>tr_status := WAITING, tr_worker := None, tr_lease := None, tr_updated := now\<rparr> else r) t"

section \<open>Interleavings\<close>

record 'p qstate =
  qs_now :: int
  qs_rows :: "'p trow list"

datatype 'p qevent =
    Tick int
  | Submit string task_type int 'p
  | Claim string int "task_type list" "task_type list"
  | Renew string string int
  | Finish string string
  | Cancel string
  | Cleanup

inductive qstep :: "'p qstate \<Rightarrow> 'p qevent \<Rightarrow> 'p qstate \<Rightarrow> bool" where
  tick: "qs_now s \<le> now \<Longrightarrow> qstep s (Tick now) (s\<lparr>qs_now := now\<rparr>)"
| submit: "qstep s (Submit task ty prio msg) (s\<lparr>qs_rows := submit task ty prio msg (qs_now s) (qs_rows s)\<rparr>)"
| claim: "0 \<le> d \<Longrightarrow> qstep s (Claim w d incl excl) (s\<lparr>qs_rows := snd (claim w (qs_now s) d incl excl (qs_rows s))\<rparr>)"
| renew: "0 \<le> d \<Longrightarrow> qstep s (Renew task w d) (s\<lparr>qs_rows := snd (extend_lease task w (qs_now s) d (qs_rows s))\<rparr>)"
| finish: "qstep s (Finish task w) (s\<lparr>qs_rows := snd (finish_task task w (qs_rows s))\<rparr>)"
| cancel: "qstep s (Cancel task) (s\<lparr>qs_rows := snd (cancel_task task (qs_rows s))\<rparr>)"
| cleanup: "qstep s Cleanup (s\<lparr>qs_rows := cleanup_stale_tasks (qs_now s) (qs_rows s)\<rparr>)"

inductive_cases qstepE: "qstep s e s'"

inductive qreach :: "'p qstate \<Rightarrow> 'p qevent list \<Rightarrow> 'p qstate \<Rightarrow> bool" where
  nil: "qreach s [] s"
| cons: "qstep s e s' \<Longrightarrow> qreach s' es s'' \<Longrightarrow> qreach s (e # es) s''"

definition start_state :: "int \<Rightarrow> 'p qstate" where
  "start_state now = \<lparr>qs_now = now, qs_rows = []\<rparr>"

section \<open>The invariant of the table\<close>

definition row_ok :: "'p trow \<Rightarrow> bool" where
  "row_ok r \<longleftrightarrow>
     (tr_status r = WAITING \<and> tr_worker r = None \<and> tr_lease r = None) \<or>
     (tr_status r = WORKING \<and> tr_worker r \<noteq> None \<and> tr_lease r \<noteq> None)"

definition rows_ok :: "'p trow list \<Rightarrow> bool" where
  "rows_ok t \<longleftrightarrow> distinct (map tr_id t) \<and> list_all row_ok t"

lemma next_id_fresh: "r \<in> set t \<Longrightarrow> rid r < next_id rid t"
  using Max_ge [of "insert 0 (rid ` set t)" "rid r"]
  by (simp add: next_id_def Max.set_eq_fold [symmetric] less_Suc_eq_le)

lemma build_query_set: "set (build_query key desc p t) = {r \<in> set t. p r}"
  by (simp add: build_query_def)

lemma build_query_hd:
  assumes "build_query key desc p t = r # rs"
  shows "r \<in> set t" "p r"
  using build_query_set [of key desc p t] assms by auto

text \<open>Changing one row in place by its identity.\<close>

lemma rows_ok_replace:
  assumes "rows_ok t" and "row_ok (f r)" and "tr_id (f r) = tr_id r"
  shows "rows_ok (map (\<lambda>x. if tr_id x = tr_id r then f r else x) t)"
proof -
  have "map tr_id (map (\<lambda>x. if tr_id x = tr_id r then f r else x) t) = map tr_id t" using assms(3) by simp
  then show ?thesis using assms(1,2) by (simp only: rows_ok_def list_all_iff) auto
qed

lemma rows_ok_map:
  assumes "\<And>r. tr_id (f r) = tr_id r" and "\<And>r. row_ok r \<Longrightarrow> row_ok (f r)" and "rows_ok t"
  shows "rows_ok (map f t)"
proof -
  have "map tr_id (map f t) = map tr_id t" by (simp add: assms(1))
  then show ?thesis using assms(2,3) by (simp only: rows_ok_def list_all_iff) auto
qed

lemma rows_ok_filter: "rows_ok t \<Longrightarrow> rows_ok (filter p t)"
  by (auto simp: rows_ok_def distinct_map_filter list_all_iff)

lemma update_first_rows:
  "\<exists>t1 r t2. update_first p f t = (True, t1 @ f r # t2) \<and> t = t1 @ r # t2 \<and> p r \<or> update_first p f t = (False, t)"
proof (induction t)
  case (Cons a t)
  show ?case
  proof (cases "p a")
    case True
    then show ?thesis by (intro exI [of _ "[]"] exI [of _ a] exI [of _ t]) simp
  next
    case False
    obtain t1 r t2 where "update_first p f t = (True, t1 @ f r # t2) \<and> t = t1 @ r # t2 \<and> p r \<or>
        update_first p f t = (False, t)" using Cons.IH by blast
    with False show ?thesis by (intro exI [of _ "a # t1"] exI [of _ r] exI [of _ t2]) auto
  qed
qed simp

lemma rows_ok_step:
  assumes "qstep s e s'" and "rows_ok (qs_rows s)"
  shows "rows_ok (qs_rows s')"
  using assms
proof (cases rule: qstep.cases)
  case (submit task ty prio msg)
  let ?r = "submit_row task ty prio msg (qs_now s) (next_id tr_id (qs_rows s))"
  have "row_ok ?r" by (simp add: row_ok_def submit_row_def)
  moreover have "tr_id ?r \<notin> tr_id ` set (qs_rows s)"
    using next_id_fresh [of _ "qs_rows s" tr_id] by (fastforce simp: submit_row_def)
  ultimately show ?thesis using submit assms(2) by (simp add: submit_def q_enqueue_def rows_ok_def Let_def)
next
  case (claim d w incl excl)
  have "rows_ok (snd (TaskQueue.claim w (qs_now s) d incl excl (qs_rows s)))"
    unfolding claim_def q_update_def
    using rows_ok_replace [OF assms(2), of "take_lease w (qs_now s) d"] assms(2)
    by (auto simp: take_lease_def row_ok_def split: list.split)
  with claim show ?thesis by simp
next
  case (renew d task w)
  let ?f = "\<lambda>r. r\<lparr>tr_lease := Some (qs_now s + d), tr_updated := qs_now s\<rparr>"
  have "row_ok (?f r)" if "row_ok r" "tr_worker r = Some w" for r :: "'a trow"
    using that by (auto simp: row_ok_def)
  then have "rows_ok (snd (extend_lease task w (qs_now s) d (qs_rows s)))"
    using update_first_rows [of "\<lambda>r. tr_task r = task \<and> tr_worker r = Some w" ?f "qs_rows s"] assms(2)
    by (auto simp: extend_lease_def rows_ok_def)
  with renew show ?thesis by simp
next
  case cleanup
  have "rows_ok (cleanup_stale_tasks (qs_now s) (qs_rows s))"
    unfolding cleanup_stale_tasks_def by (rule rows_ok_map) (use assms(2) in \<open>auto simp: row_ok_def\<close>)
  with cleanup show ?thesis by simp
qed (auto simp: finish_task_def cancel_task_def q_delete_def rows_ok_filter)

lemma rows_ok_reach: "qreach s es s' \<Longrightarrow> rows_ok (qs_rows s) \<Longrightarrow> rows_ok (qs_rows s')"
  by (induction rule: qreach.induct) (auto dest: rows_ok_step)

lemma qstep_clock: "qstep s e s' \<Longrightarrow> qs_now s \<le> qs_now s'"
  by (cases rule: qstep.cases) auto

lemma qreach_clock: "qreach s es s' \<Longrightarrow> qs_now s \<le> qs_now s'"
  by (induction rule: qreach.induct) (auto dest: qstep_clock)

section \<open>A lease is respected\<close>

text \<open>Worker \<open>w\<close> holds row \<open>i\<close> for \<open>task\<close> at least until \<open>u\<close>.\<close>

definition holds_until :: "string \<Rightarrow> string \<Rightarrow> nat \<Rightarrow> int \<Rightarrow> 'p trow list \<Rightarrow> bool" where
  "holds_until w task i u t \<longleftrightarrow>
     list_ex (\<lambda>r. tr_id r = i \<and> tr_task r = task \<and> tr_status r = WORKING \<and> tr_worker r = Some w \<and>
                  (case tr_lease r of None \<Rightarrow> False | Some v \<Rightarrow> u \<le> v)) t"

text \<open>The events of \<open>w\<close> keep to its lease duration \<open>d\<close>, and none of them finishes \<open>task\<close>.\<close>

fun keeps_lease :: "string \<Rightarrow> string \<Rightarrow> int \<Rightarrow> 'p qevent \<Rightarrow> bool" where
  "keeps_lease w task d (Renew task' w' d') \<longleftrightarrow> w' = w \<longrightarrow> d' = d"
| "keeps_lease w task d (Finish task' w') \<longleftrightarrow> \<not> (w' = w \<and> task' = task)"
| "keeps_lease w task d _ \<longleftrightarrow> True"

lemma holds_until_alt:
  "holds_until w task i u t \<longleftrightarrow>
     (\<exists>r\<in>set t. tr_id r = i \<and> tr_task r = task \<and> tr_status r = WORKING \<and> tr_worker r = Some w \<and>
        (\<exists>v. tr_lease r = Some v \<and> u \<le> v))"
  by (auto simp: holds_until_def list_ex_iff split: option.splits)

lemma holds_until_not_claimed:
  assumes "rows_ok t" and "holds_until w task i u t" and "now \<le> u"
  shows "holds_until w task i u (snd (claim w' now d incl excl t))"
proof (cases "build_query tr_score False (\<lambda>r. type_wanted incl excl r \<and> claimable now r) t")
  case Nil
  then show ?thesis using assms(2) by (simp add: claim_def q_update_def)
next
  case (Cons r rs)
  note r = build_query_hd [OF Cons]
  obtain x where x: "x \<in> set t" "tr_id x = i" "tr_task x = task" "tr_status x = WORKING" "tr_worker x = Some w"
      "\<exists>v. tr_lease x = Some v \<and> u \<le> v" using assms(2) by (auto simp: holds_until_alt)
  have "x \<noteq> r" using r(2) x(4,6) assms(3) by (auto simp: claimable_def)
  then have "tr_id x \<noteq> tr_id r" using x(1) r(1) assms(1) by (auto simp: rows_ok_def distinct_map inj_on_def)
  then show ?thesis using x Cons by (auto simp: claim_def q_update_def holds_until_alt image_iff intro!: bexI [of _ x])
qed

lemma holds_until_renew:
  assumes "holds_until w task i u t" and "w' = w \<Longrightarrow> u \<le> now + d"
  shows "holds_until w task i u (snd (extend_lease task' w' now d t))"
proof -
  let ?p = "\<lambda>r. tr_task r = task' \<and> tr_worker r = Some w'"
  let ?f = "\<lambda>r. r\<lparr>tr_lease := Some (now + d), tr_updated := now\<rparr>"
  obtain t1 r t2 where "update_first ?p ?f t = (True, t1 @ ?f r # t2) \<and> t = t1 @ r # t2 \<and> ?p r \<or>
      update_first ?p ?f t = (False, t)" using update_first_rows [of ?p ?f t] by blast
  then show ?thesis
  proof
    assume a: "update_first ?p ?f t = (True, t1 @ ?f r # t2) \<and> t = t1 @ r # t2 \<and> ?p r"
    obtain x where x: "x \<in> set t" "tr_id x = i" "tr_task x = task" "tr_status x = WORKING" "tr_worker x = Some w"
        "\<exists>v. tr_lease x = Some v \<and> u \<le> v" using assms(1) by (auto simp: holds_until_alt)
    have "\<exists>y\<in>set (t1 @ ?f r # t2). tr_id y = i \<and> tr_task y = task \<and> tr_status y = WORKING \<and> tr_worker y = Some w \<and>
        (\<exists>v. tr_lease y = Some v \<and> u \<le> v)"
    proof (cases "x = r")
      case True
      then show ?thesis using x a assms(2) by (intro bexI [of _ "?f r"]) auto
    next
      case False
      then show ?thesis using x a by (intro bexI [of _ x]) auto
    qed
    then show ?thesis unfolding extend_lease_def holds_until_alt by (simp only: a [THEN conjunct1] snd_conv)
  qed (use assms(1) in \<open>simp add: extend_lease_def\<close>)
qed

lemma holds_until_cleanup:
  assumes "holds_until w task i u t" and "now \<le> u"
  shows "holds_until w task i u (cleanup_stale_tasks now t)"
proof -
  obtain x where x: "x \<in> set t" "tr_id x = i" "tr_task x = task" "tr_status x = WORKING" "tr_worker x = Some w"
      "\<exists>v. tr_lease x = Some v \<and> u \<le> v" using assms(1) by (auto simp: holds_until_alt)
  then have "\<not> stale now x" using assms(2) by (auto simp: stale_def)
  then have "x \<in> set (cleanup_stale_tasks now t)" using x(1) by (auto simp: cleanup_stale_tasks_def image_iff intro!: bexI [of _ x])
  with x show ?thesis by (auto simp: holds_until_alt)
qed

lemma holds_until_step:
  assumes "qstep s e s'" and "rows_ok (qs_rows s)" and "holds_until w task i u (qs_rows s)"
    and "qs_now s' \<le> u" and "u \<le> qs_now s + d" and "keeps_lease w task d e"
  shows "holds_until w task i u (qs_rows s')"
  using assms(1)
proof (cases rule: qstep.cases)
  case (submit task' ty prio msg)
  then show ?thesis using assms(3) by (auto simp: submit_def q_enqueue_def Let_def holds_until_alt)
next
  case (claim d' w' incl excl)
  then show ?thesis using holds_until_not_claimed [OF assms(2,3)] assms(4) by simp
next
  case (renew d' task' w')
  then show ?thesis using holds_until_renew [OF assms(3)] assms(5,6) by simp
next
  case cleanup
  then show ?thesis using holds_until_cleanup [OF assms(3)] assms(4) by simp
qed (use assms(3,6) in \<open>auto simp: finish_task_def cancel_task_def q_delete_def holds_until_alt\<close>)

lemma holds_until_reach:
  assumes "qreach s es s'" and "rows_ok (qs_rows s)" and "holds_until w task i u (qs_rows s)"
    and "qs_now s' \<le> u" and "u \<le> qs_now s + d" and "list_all (keeps_lease w task d) es"
  shows "holds_until w task i u (qs_rows s')"
  using assms
proof (induction rule: qreach.induct)
  case (cons s e s' es s'')
  have "qs_now s' \<le> u" using qreach_clock [OF cons.hyps(2)] cons.prems(3) by simp
  moreover have "u \<le> qs_now s' + d" using qstep_clock [OF cons.hyps(1)] cons.prems(4) by simp
  ultimately show ?case
    using cons holds_until_step [OF cons.hyps(1)] rows_ok_step [OF cons.hyps(1)] by simp
qed simp

text \<open>The row that a claim returns is held by its worker for the whole duration.\<close>

lemma claim_holds:
  assumes "fst (claim w now d incl excl t) = Some r"
  shows "holds_until w (tr_task r) (tr_id r) (now + d) (snd (claim w now d incl excl t))"
proof -
  obtain r0 rs where q: "build_query tr_score False (\<lambda>r. type_wanted incl excl r \<and> claimable now r) t = r0 # rs"
    and r: "r = take_lease w now d r0"
    using assms by (auto simp: claim_def q_update_def split: list.splits)
  have "take_lease w now d r0 \<in> set (snd (claim w now d incl excl t))"
    using build_query_hd(1) [OF q] by (auto simp: claim_def q_update_def q image_iff)
  then show ?thesis unfolding holds_until_alt r by (rule bexI [rotated]) (simp add: take_lease_def)
qed

lemma holds_until_finish:
  "holds_until w task i u t \<Longrightarrow> 0 < fst (finish_task task w t)"
  by (auto simp: holds_until_alt finish_task_def q_delete_def length_greater_0_conv [symmetric] filter_empty_conv
      simp del: length_greater_0_conv)

section \<open>Properties\<close>

lemma sort_key_hd_le: "sort_key f xs = y # ys \<Longrightarrow> x \<in> set xs \<Longrightarrow> f y \<le> f x"
  using sorted_sort_key [of f xs] set_sort [of f xs] by auto

text \<open>
  What \<open>claim\<close> returns: with no claimable row of a wanted type it returns nothing and leaves the table;
  otherwise it leases such a row to the worker, and no other such row has a smaller score.
\<close>

theorem claim_takes_minimal:
  "case claim w now d incl excl t of
     (None, t') \<Rightarrow> t' = t \<and> list_all (\<lambda>r. \<not> (type_wanted incl excl r \<and> claimable now r)) t
   | (Some r', t') \<Rightarrow> r' \<in> set t' \<and> length t' = length t \<and>
       list_ex (\<lambda>r. r' = take_lease w now d r \<and> type_wanted incl excl r \<and> claimable now r \<and>
          list_all (\<lambda>x. tr_score r \<le> tr_score x) (filter (\<lambda>x. type_wanted incl excl x \<and> claimable now x) t)) t"
proof (cases "build_query tr_score False (\<lambda>r. type_wanted incl excl r \<and> claimable now r) t")
  case Nil
  have "list_all (\<lambda>r. \<not> (type_wanted incl excl r \<and> claimable now r)) t"
    using build_query_set [of tr_score False "\<lambda>r. type_wanted incl excl r \<and> claimable now r" t]
    by (auto simp: Nil list_all_iff)
  then show ?thesis by (simp add: claim_def q_update_def Nil)
next
  case (Cons r rs)
  have "tr_score r \<le> tr_score x" if "x \<in> set (filter (\<lambda>x. type_wanted incl excl x \<and> claimable now x) t)" for x
    using sort_key_hd_le [OF Cons [unfolded build_query_def] that] by simp
  moreover have "take_lease w now d r \<in> (\<lambda>x. if tr_id x = tr_id r then take_lease w now d r else x) ` set t"
    using build_query_hd(1) [OF Cons] by (auto simp: image_iff)
  ultimately show ?thesis using build_query_hd [OF Cons]
    by (auto simp: claim_def q_update_def Cons list_ex_iff list_all_iff)
qed

text \<open>
  C10. However the workers interleave, with each claim one transaction, a row that a worker has claimed stays with it for the whole lease: as long as
  the clock has not passed the end of the lease, and the worker neither finishes the task nor renews for another
  duration, no claim, cancellation, clean-up or renewal of others takes the row away, and finishing deletes it.
\<close>

theorem lease_respected:
  assumes "qreach (start_state t0) es s" and "claim w (qs_now s) d incl excl (qs_rows s) = (Some r, t)"
    and "qreach (s\<lparr>qs_rows := t\<rparr>) es' s'" and "qs_now s' \<le> qs_now s + d"
    and "list_all (keeps_lease w (tr_task r) d) es'" and "0 \<le> d"
  shows "holds_until w (tr_task r) (tr_id r) (qs_now s + d) (qs_rows s') \<and> 0 < fst (finish_task (tr_task r) w (qs_rows s'))"
proof -
  have ok: "rows_ok (qs_rows s)"
    using rows_ok_reach [OF assms(1)] by (simp add: start_state_def rows_ok_def)
  have t: "t = snd (claim w (qs_now s) d incl excl (qs_rows s))" using assms(2) by simp
  have ok': "rows_ok (qs_rows (s\<lparr>qs_rows := t\<rparr>))"
    by (rule rows_ok_step [OF qstep.claim [OF assms(6), of s w incl excl] ok, folded t])
  have h: "holds_until w (tr_task r) (tr_id r) (qs_now s + d) t"
    using claim_holds [of w "qs_now s" d incl excl "qs_rows s" r] assms(2) by simp
  have "holds_until w (tr_task r) (tr_id r) (qs_now s + d) (qs_rows s')"
    by (rule holds_until_reach [OF assms(3) ok' _ assms(4) _ assms(5)]) (use h in simp_all)
  then show ?thesis using holds_until_finish by blast
qed

definition ex_row :: "nat trow" where
  "ex_row = submit_row ''a'' DocAdd 0 7 0 1"

theorem lease_respected_witness:
  "holds_until ''w'' ''a'' 1 5 (snd (claim ''v'' 3 5 [] [] [take_lease ''w'' 0 5 ex_row]))"
proof -
  let ?s = "(start_state 0)\<lparr>qs_rows := submit ''a'' DocAdd 0 (7 :: nat) 0 []\<rparr>"
  let ?t = "[take_lease ''w'' 0 5 ex_row]"
  let ?s1 = "(?s\<lparr>qs_rows := ?t\<rparr>)\<lparr>qs_now := 3\<rparr>"
  have 1: "qreach (start_state 0) [Submit ''a'' DocAdd 0 7] ?s"
    using qreach.cons [OF qstep.submit [of "start_state 0" "''a''" DocAdd 0 "7 :: nat"] qreach.nil]
    by (simp add: start_state_def)
  have 2: "claim ''w'' (qs_now ?s) 5 [] [] (qs_rows ?s) = (Some (take_lease ''w'' 0 5 ex_row), ?t)"
    by (simp add: start_state_def ex_row_def submit_def q_enqueue_def next_id_def claim_def q_update_def build_query_def
        type_wanted_def claimable_def submit_row_def Let_def)
  have 3: "qreach (?s\<lparr>qs_rows := ?t\<rparr>) [Tick 3, Claim ''v'' 5 [] []]
      (?s1\<lparr>qs_rows := snd (claim ''v'' (qs_now ?s1) 5 [] [] (qs_rows ?s1))\<rparr>)"
    by (rule qreach.cons [OF qstep.tick qreach.cons [OF qstep.claim qreach.nil]]) (simp_all add: start_state_def)
  show ?thesis
    using lease_respected [OF 1 2 3] by (simp add: start_state_def ex_row_def take_lease_def submit_row_def)
qed

section \<open>A claim in two halves\<close>

text \<open>
  A claim that is not atomic: the row is selected, and written when the transaction commits. At once, the halves are \<open>claim\<close>.
\<close>

definition claim_select :: "int \<Rightarrow> task_type list \<Rightarrow> task_type list \<Rightarrow> 'p trow list \<Rightarrow> 'p trow option" where
  "claim_select now incl excl t = q_peek tr_score False (\<lambda>r. type_wanted incl excl r \<and> claimable now r) t"

definition claim_write :: "string \<Rightarrow> int \<Rightarrow> int \<Rightarrow> 'p trow \<Rightarrow> 'p trow list \<Rightarrow> 'p trow list" where
  "claim_write w now d r t = map (\<lambda>x. if tr_id x = tr_id r then take_lease w now d r else x) t"

lemma claim_halves:
  "claim w now d incl excl t =
     (case claim_select now incl excl t of
        None \<Rightarrow> (None, t)
      | Some r \<Rightarrow> (Some (take_lease w now d r), claim_write w now d r t))"
  by (simp add: claim_def claim_select_def claim_write_def q_update_def q_peek_def split: list.split)

text \<open>
  When the selects of two workers come before their writes, both claim the task; the one that writes first does not hold its
  row, and cannot finish it.
\<close>

lemma claim_race:
  defines "t \<equiv> claim_write ''w'' 0 5 ex_row [ex_row]"
  shows "claim_select 0 [] [] [ex_row] = Some ex_row" and "finish_task ''a'' ''w'' t = (1, [])"
    and "finish_task ''a'' ''w'' (claim_write ''v'' 0 5 ex_row t) = (0, claim_write ''v'' 0 5 ex_row t)"
  by (simp_all add: t_def claim_select_def claim_write_def q_peek_def build_query_def type_wanted_def claimable_def
      finish_task_def q_delete_def take_lease_def ex_row_def submit_row_def)

end
