(* ===== verification/TaskCallback.thy ===== *)
theory TaskCallback
  imports Complex_Main TaskQueue
begin

text \<open>
  The delivery of finished tasks to the caller's callback
  (\<open>lazyllm/tools/rag/parsing_service/server.py\<close>, \<open>process_finished_task\<close> and what it calls). The finished
  queue is ordered by \<open>finished_at\<close>, which a retry moves into the future. Times are seconds; the answers to the posts of
  a turn, what a custom function does, the jitter of a delay and the parsed \<open>Retry-After\<close> header are inputs of an
  event. The counts of attempts are those of one run of the server, which keeps them in memory.
\<close>

section \<open>Errors of a callback\<close>

datatype cb_error =
    CbValueError
  | CbNetwork
  | CbHttpNoResponse
  | CbHttp int "real option"
  | CbOther

text \<open>The second component is the delay that the receiver asks for, already bounded below by zero.\<close>

definition parse_retry_after_seconds :: "real option \<Rightarrow> real option" where
  "parse_retry_after_seconds v = (case v of None \<Rightarrow> None | Some x \<Rightarrow> Some (max x 0))"

definition should_retry_callback_error :: "cb_error \<Rightarrow> bool \<times> real option" where
  "should_retry_callback_error e =
     (case e of
        CbValueError \<Rightarrow> (False, None)
      | CbNetwork \<Rightarrow> (True, None)
      | CbHttpNoResponse \<Rightarrow> (True, None)
      | CbHttp code hdr \<Rightarrow>
          if code = 408 \<or> code = 425 then (True, None)
          else if code = 429 then (True, parse_retry_after_seconds hdr)
          else if code \<ge> 500 then (True, None)
          else if 400 \<le> code \<and> code < 500 then (False, None)
          else (True, None)
      | CbOther \<Rightarrow> (True, None))"

section \<open>The queue of finished tasks\<close>

text \<open>
  A row has its url and the number of items of its context, \<open>None\<close> for a context that is missing or cannot be
  decoded to a dictionary.
\<close>

record frow =
  fr_id :: nat
  fr_task :: string
  fr_status :: task_status
  fr_finished_at :: real
  fr_url :: "string option"
  fr_items :: "nat option"

record fstate =
  fs_rows :: "frow list"
  fs_attempts :: "nat \<rightharpoonup> nat"

section \<open>One attempt\<close>

definition normalize_callback_url :: "string option \<Rightarrow> string option" where
  "normalize_callback_url u =
     (case u of None \<Rightarrow> None | Some t \<Rightarrow> if t = [] then None else Some (rev (dropWhile (\<lambda>c. c = CHR ''/'') (rev t))))"

text \<open>The items from the \<open>i\<close>-th on: how many posts are made, and the error that ends them.\<close>

fun post_items :: "(nat \<Rightarrow> cb_error option) \<Rightarrow> nat \<Rightarrow> nat \<Rightarrow> nat \<times> cb_error option" where
  "post_items answer i 0 = (0, None)"
| "post_items answer i (Suc n) =
     (case answer i of
        Some e \<Rightarrow> (1, Some e)
      | None \<Rightarrow> (case post_items answer (Suc i) n of (k, r) \<Rightarrow> (Suc k, r)))"

definition default_post_func :: "(nat \<Rightarrow> cb_error option) \<Rightarrow> frow \<Rightarrow> nat \<times> cb_error option" where
  "default_post_func answer r =
     (case normalize_callback_url (fr_url r) of
        None \<Rightarrow> (0, Some CbValueError)
      | Some u \<Rightarrow>
          if u = [] then (0, Some CbValueError)
          else (case fr_items r of
                  None \<Rightarrow> (0, Some CbValueError)
                | Some n \<Rightarrow> post_items answer 0 (if n = 0 then 1 else n)))"

text \<open>
  A custom function, if there is one, returns or raises; when it raises, the built-in posts follow, and when these fail
  too, the first error stands.
\<close>

definition callback_attempt :: "cb_error option option \<Rightarrow> (nat \<Rightarrow> cb_error option) \<Rightarrow> frow \<Rightarrow> nat \<times> cb_error option" where
  "callback_attempt custom answer r =
     (case custom of
        None \<Rightarrow> default_post_func answer r
      | Some None \<Rightarrow> (0, None)
      | Some (Some e) \<Rightarrow>
          (case default_post_func answer r of (k, None) \<Rightarrow> (k, None) | (k, Some _) \<Rightarrow> (k, Some e)))"

text \<open>The posts stop at the first error, and there are at most as many as items.\<close>

lemma post_items_prefix:
  "post_items answer i n = (k, r) \<Longrightarrow> k \<le> n \<and> (r = None \<longrightarrow> k = n) \<and>
     (\<forall>j < k. answer (i + j) = None \<or> Suc j = k \<and> answer (i + j) = r)"
proof (induction answer i n arbitrary: k rule: post_items.induct)
  case (2 answer i n)
  show ?case
  proof (cases "answer i")
    case None
    obtain k' where k': "post_items answer (Suc i) n = (k', r)" "k = Suc k'"
      using "2.prems" None by (auto split: prod.splits)
    have "answer (i + j) = None \<or> Suc j = k \<and> answer (i + j) = r" if "j < k" for j
      using "2.IH" [OF None k'(1)] that k'(2) None by (cases j) auto
    then show ?thesis using "2.IH" [OF None k'(1)] k'(2) by auto
  qed (use "2.prems" in auto)
qed simp

section \<open>The loop\<close>

definition callback_max_attempts :: nat where "callback_max_attempts = 5"
definition callback_min_interval :: real where "callback_min_interval = 5"
definition callback_max_interval :: real where "callback_max_interval = 300"

definition is_callback_due :: "real \<Rightarrow> frow \<Rightarrow> bool" where
  "is_callback_due now r \<longleftrightarrow> fr_finished_at r \<le> now"

text \<open>A row and the count of its attempts go together.\<close>

definition drop_callback_task :: "nat \<Rightarrow> fstate \<Rightarrow> fstate" where
  "drop_callback_task i s =
     s\<lparr>fs_rows := snd (q_clear (\<lambda>r. fr_id r = i) (fs_rows s)), fs_attempts := (fs_attempts s)(i := None)\<rparr>"

definition retry_delay :: "nat \<Rightarrow> real \<Rightarrow> real option \<Rightarrow> real" where
  "retry_delay attempt jitter asked =
     (let d = callback_min_interval * 2 ^ (attempt - 1) * jitter;
          d = (case asked of None \<Rightarrow> d | Some a \<Rightarrow> max d a)
      in min d callback_max_interval)"

definition schedule_callback_retry :: "real \<Rightarrow> real \<Rightarrow> frow \<Rightarrow> cb_error \<Rightarrow> fstate \<Rightarrow> bool \<times> fstate" where
  "schedule_callback_retry now jitter r e s =
     (let i = fr_id r;
          attempt = (case fs_attempts s i of None \<Rightarrow> 0 | Some n \<Rightarrow> n) + 1;
          s = s\<lparr>fs_attempts := (fs_attempts s)(i \<mapsto> attempt)\<rparr>
      in case should_retry_callback_error e of (again, asked) \<Rightarrow>
         if \<not> again then (False, drop_callback_task i s)
         else if attempt \<ge> callback_max_attempts then (False, drop_callback_task i s)
         else (True, s\<lparr>fs_rows := map (\<lambda>x. if fr_id x = i
                                         then x\<lparr>fr_finished_at := now + retry_delay attempt jitter asked\<rparr> else x) (fs_rows s)\<rparr>))"

text \<open>
  One turn of the loop at time \<open>now\<close>: the attempt that was made, if any, and the state after it. \<open>later\<close> is the
  time when the callback has returned or raised.
\<close>

type_synonym attempt = "string \<times> task_status \<times> nat"

definition process_finished_turn ::
    "real \<Rightarrow> cb_error option option \<Rightarrow> (nat \<Rightarrow> cb_error option) \<Rightarrow> real \<Rightarrow> real \<Rightarrow> fstate \<Rightarrow> attempt option \<times> fstate" where
  "process_finished_turn now custom answer later jitter s =
     (case q_peek fr_finished_at False (\<lambda>_. True) (fs_rows s) of
        None \<Rightarrow> (None, s)
      | Some r \<Rightarrow>
          if \<not> is_callback_due now r then (None, s)
          else (case callback_attempt custom answer r of
                  (k, Some e) \<Rightarrow> (Some (fr_task r, fr_status r, k), snd (schedule_callback_retry later jitter r e s))
                | (k, None) \<Rightarrow> (Some (fr_task r, fr_status r, k), drop_callback_task (fr_id r) s)))"

definition enqueue_finished :: "string \<Rightarrow> task_status \<Rightarrow> real \<Rightarrow> string option \<Rightarrow> nat option \<Rightarrow> fstate \<Rightarrow> fstate" where
  "enqueue_finished task st tm url items s =
     s\<lparr>fs_rows := snd (q_enqueue fr_id (\<lambda>i. \<lparr>fr_id = i, fr_task = task, fr_status = st, fr_finished_at = tm,
       fr_url = url, fr_items = items\<rparr>) (fs_rows s))\<rparr>"

datatype fevent =
    Enqueue string task_status real "string option" "nat option"
  | Turn real "cb_error option option" "nat \<Rightarrow> cb_error option" real real

text \<open>The attempts that a list of events makes, and the state after it.\<close>

fun deliver :: "fevent list \<Rightarrow> fstate \<Rightarrow> attempt list \<times> fstate" where
  "deliver [] s = ([], s)"
| "deliver (Enqueue task st tm url items # es) s = deliver es (enqueue_finished task st tm url items s)"
| "deliver (Turn now custom answer later jitter # es) s =
     (case process_finished_turn now custom answer later jitter s of (a, s') \<Rightarrow>
        (case deliver es s' of (as, s'') \<Rightarrow> ((case a of None \<Rightarrow> as | Some x \<Rightarrow> x # as), s'')))"

definition empty_queue :: fstate where
  "empty_queue = \<lparr>fs_rows = [], fs_attempts = Map.empty\<rparr>"

text \<open>The number of messages of some tasks and statuses.\<close>

fun enqueues :: "(string \<Rightarrow> task_status \<Rightarrow> bool) \<Rightarrow> fevent list \<Rightarrow> nat" where
  "enqueues sel [] = 0"
| "enqueues sel (Enqueue task st _ _ _ # es) = (if sel task st then Suc (enqueues sel es) else enqueues sel es)"
| "enqueues sel (Turn _ _ _ _ _ # es) = enqueues sel es"

section \<open>The attempts that are left\<close>

definition attempts_of :: "fstate \<Rightarrow> nat \<Rightarrow> nat" where
  "attempts_of s i = (case fs_attempts s i of None \<Rightarrow> 0 | Some n \<Rightarrow> n)"

definition row_left :: "(string \<Rightarrow> task_status \<Rightarrow> bool) \<Rightarrow> fstate \<Rightarrow> frow \<Rightarrow> nat" where
  "row_left sel s r = (if sel (fr_task r) (fr_status r) then callback_max_attempts - attempts_of s (fr_id r) else 0)"

definition attempts_left :: "(string \<Rightarrow> task_status \<Rightarrow> bool) \<Rightarrow> fstate \<Rightarrow> nat" where
  "attempts_left sel s = sum_list (map (row_left sel s) (fs_rows s))"

definition one :: "(string \<Rightarrow> task_status \<Rightarrow> bool) \<Rightarrow> frow \<Rightarrow> nat" where
  "one sel r = (if sel (fr_task r) (fr_status r) then 1 else 0)"

definition fs_ok :: "fstate \<Rightarrow> bool" where
  "fs_ok s \<longleftrightarrow> distinct (map fr_id (fs_rows s)) \<and> dom (fs_attempts s) \<subseteq> fr_id ` set (fs_rows s) \<and>
     (\<forall>i. attempts_of s i < callback_max_attempts)"

lemma fs_ok_empty: "fs_ok empty_queue"
  by (simp add: fs_ok_def empty_queue_def attempts_of_def callback_max_attempts_def)

text \<open>Removing the row of one identity, or changing it in place.\<close>

lemma sum_list_remove_row:
  assumes "distinct (map k t)" and "r \<in> set t"
  shows "sum_list (map f t) = f r + sum_list (map (f :: _ \<Rightarrow> nat) (filter (\<lambda>x. k x \<noteq> k r) t))"
  using assms
proof (induction t)
  case (Cons a t)
  show ?case
  proof (cases "a = r")
    case True
    then have "k x \<noteq> k r" if "x \<in> set t" for x
      using Cons.prems(1) imageI [OF that, of k] by auto
    then have "filter (\<lambda>x. k x \<noteq> k r) t = t" by (simp add: filter_id_conv)
    then show ?thesis using True by simp
  next
    case False
    then have "r \<in> set t" using Cons.prems by simp
    then have "k a \<noteq> k r" using Cons.prems(1) by (metis distinct.simps(2) image_eqI list.simps(9) set_map)
    with \<open>r \<in> set t\<close> show ?thesis using Cons by simp
  qed
qed simp

lemma fs_ok_drop:
  assumes "fs_ok s" and "r \<in> set (fs_rows s)"
  shows "fs_ok (drop_callback_task (fr_id r) s)"
    and "attempts_left sel (drop_callback_task (fr_id r) s) + one sel r \<le> attempts_left sel s"
proof -
  let ?s = "drop_callback_task (fr_id r) s"
  show "fs_ok ?s"
    using assms(1) by (auto simp: fs_ok_def drop_callback_task_def q_clear_def q_delete_def distinct_map_filter
        attempts_of_def callback_max_attempts_def dom_def)
  have rows: "fs_rows ?s = filter (\<lambda>x. fr_id x \<noteq> fr_id r) (fs_rows s)"
    by (simp add: drop_callback_task_def q_clear_def q_delete_def)
  have "row_left sel ?s x = row_left sel s x" if "fr_id x \<noteq> fr_id r" for x
    using that by (simp add: row_left_def drop_callback_task_def attempts_of_def)
  then have "attempts_left sel ?s = sum_list (map (row_left sel s) (filter (\<lambda>x. fr_id x \<noteq> fr_id r) (fs_rows s)))"
    unfolding attempts_left_def rows by (intro arg_cong [of _ _ sum_list] map_cong) auto
  moreover have "one sel r \<le> row_left sel s r"
    using assms(1) by (auto simp: one_def row_left_def fs_ok_def Suc_le_eq)
  ultimately show "attempts_left sel ?s + one sel r \<le> attempts_left sel s"
    using sum_list_remove_row [of fr_id "fs_rows s" r "row_left sel s"] assms
    by (simp add: attempts_left_def [of sel s] fs_ok_def)
qed

lemma fs_ok_count_attempt:
  fixes rows :: "frow list"
  assumes "fs_ok s" and "r \<in> set (fs_rows s)"
    and "attempts_of s (fr_id r) + 1 < callback_max_attempts"
    and "map (\<lambda>x. (fr_id x, fr_task x, fr_status x)) rows = map (\<lambda>x. (fr_id x, fr_task x, fr_status x)) (fs_rows s)"
  defines "s' \<equiv> s\<lparr>fs_attempts := (fs_attempts s)(fr_id r \<mapsto> attempts_of s (fr_id r) + 1), fs_rows := rows\<rparr>"
  shows "fs_ok s'" and "attempts_left sel s' + one sel r \<le> attempts_left sel s"
proof -
  have "map fr_id rows = map fr_id (fs_rows s)" using arg_cong [OF assms(4), of "map fst"] by (simp add: comp_def)
  note ids = this arg_cong [OF this, of set, simplified]
  have att: "attempts_of s' i = (if i = fr_id r then attempts_of s i + 1 else attempts_of s i)" for i
    by (simp add: s'_def attempts_of_def)
  show "fs_ok s'"
    using assms(1-3) ids att by (auto simp: fs_ok_def s'_def)
  let ?h = "\<lambda>(i, t, st). if sel t st then callback_max_attempts - attempts_of s' i else 0"
  have h: "row_left sel s' = ?h \<circ> (\<lambda>x. (fr_id x, fr_task x, fr_status x))"
    by (simp add: fun_eq_iff row_left_def)
  have left: "attempts_left sel s' = sum_list (map (row_left sel s') (fs_rows s))"
    using arg_cong [OF assms(4), of "\<lambda>xs. sum_list (map ?h xs)"] unfolding attempts_left_def h by (simp add: s'_def)
  have d: "distinct (map fr_id (fs_rows s))" using assms(1) by (simp add: fs_ok_def)
  have "map (row_left sel s') (filter (\<lambda>x. fr_id x \<noteq> fr_id r) (fs_rows s)) =
      map (row_left sel s) (filter (\<lambda>x. fr_id x \<noteq> fr_id r) (fs_rows s))"
    by (simp add: row_left_def att)
  moreover have "row_left sel s' r + one sel r \<le> row_left sel s r" using assms(3) by (simp add: row_left_def one_def att) arith
  ultimately show "attempts_left sel s' + one sel r \<le> attempts_left sel s"
    unfolding left unfolding attempts_left_def
    by (simp only: sum_list_remove_row [OF d assms(2)])
qed

lemma retry_step:
  assumes "fs_ok s" and "r \<in> set (fs_rows s)" and "s' = snd (schedule_callback_retry now jitter r e s)"
  shows "fs_ok s'" and "attempts_left sel s' + one sel r \<le> attempts_left sel s"
proof -
  let ?n = "attempts_of s (fr_id r) + 1"
  let ?c = "s\<lparr>fs_attempts := (fs_attempts s)(fr_id r \<mapsto> ?n)\<rparr>"
  obtain again asked where again: "should_retry_callback_error e = (again, asked)" by fastforce
  let ?rows = "map (\<lambda>x. if fr_id x = fr_id r then x\<lparr>fr_finished_at := now + retry_delay ?n jitter asked\<rparr> else x) (fs_rows s)"
  have drop: "drop_callback_task (fr_id r) ?c = drop_callback_task (fr_id r) s"
    by (simp add: drop_callback_task_def)
  have s': "s' = (if again \<and> ?n < callback_max_attempts then ?c\<lparr>fs_rows := ?rows\<rparr> else drop_callback_task (fr_id r) s)"
    unfolding assms(3) schedule_callback_retry_def attempts_of_def [symmetric] Let_def again prod.case
    by (auto simp: drop [simplified])
  have rows: "map (\<lambda>x. (fr_id x, fr_task x, fr_status x)) ?rows = map (\<lambda>x. (fr_id x, fr_task x, fr_status x)) (fs_rows s)"
    by simp
  show "fs_ok s'" and "attempts_left sel s' + one sel r \<le> attempts_left sel s"
    unfolding s' using fs_ok_drop [OF assms(1,2)] fs_ok_count_attempt [OF assms(1,2) _ rows] by simp_all
qed

text \<open>A turn changes nothing, or it makes an attempt that is then no longer left.\<close>

definition chosen :: "(string \<Rightarrow> task_status \<Rightarrow> bool) \<Rightarrow> attempt option \<Rightarrow> nat" where
  "chosen sel a = (case a of None \<Rightarrow> 0 | Some (t, st, k) \<Rightarrow> if sel t st then 1 else 0)"

lemma turn_step:
  assumes "fs_ok s" and "process_finished_turn now cu an la j s = (a, s')"
  shows "fs_ok s' \<and> (\<forall>sel. attempts_left sel s' + chosen sel a \<le> attempts_left sel s) \<and> (a = None \<longrightarrow> s' = s)"
proof (cases "build_query fr_finished_at False (\<lambda>_. True) (fs_rows s)")
  case Nil
  then show ?thesis using assms by (simp add: process_finished_turn_def q_peek_def chosen_def)
next
  case (Cons r rs)
  from build_query_hd(1) [OF Cons] have r: "r \<in> set (fs_rows s)" .
  obtain k oe where c: "callback_attempt cu an r = (k, oe)" by fastforce
  have ch: "chosen sel (Some (fr_task r, fr_status r, k)) = one sel r" "chosen sel None = 0" for sel
    by (simp_all add: chosen_def one_def)
  note d = fs_ok_drop [OF assms(1) r] and t = retry_step [OF assms(1) r refl]
  show ?thesis
  proof (cases "is_callback_due now r")
    case True
    then have "a = Some (fr_task r, fr_status r, k)"
      "s' = (case oe of Some e \<Rightarrow> snd (schedule_callback_retry la j r e s) | None \<Rightarrow> drop_callback_task (fr_id r) s)"
      using assms(2) by (auto simp: process_finished_turn_def q_peek_def Cons c split: option.splits)
    then show ?thesis using d t by (cases oe) (simp_all add: ch)
  next
    case False
    then have "a = None \<and> s' = s" using assms(2) by (simp add: process_finished_turn_def q_peek_def Cons)
    then show ?thesis using assms(1) by (simp add: ch)
  qed
qed

lemma enqueue_finished_step:
  assumes "fs_ok s"
  shows "fs_ok (enqueue_finished task st tm url items s)"
    and "attempts_left sel (enqueue_finished task st tm url items s) =
      attempts_left sel s + (if sel task st then callback_max_attempts else 0)"
proof -
  let ?i = "next_id fr_id (fs_rows s)"
  let ?s = "enqueue_finished task st tm url items s"
  have i: "?i \<notin> fr_id ` set (fs_rows s)" using next_id_fresh [of _ "fs_rows s" fr_id] by fastforce
  then have 0: "attempts_of s ?i = 0"
    using assms by (auto simp: fs_ok_def attempts_of_def split: option.splits)
  have rows: "fs_rows ?s = fs_rows s @ [\<lparr>fr_id = ?i, fr_task = task, fr_status = st, fr_finished_at = tm,
      fr_url = url, fr_items = items\<rparr>]"
    and att: "attempts_of ?s = attempts_of s" "fs_attempts ?s = fs_attempts s"
    by (simp_all add: enqueue_finished_def q_enqueue_def Let_def attempts_of_def fun_eq_iff)
  show "fs_ok ?s"
    using assms i by (auto simp: fs_ok_def rows att)
  have "row_left sel ?s = row_left sel s" by (simp add: fun_eq_iff row_left_def att)
  then show "attempts_left sel ?s = attempts_left sel s + (if sel task st then callback_max_attempts else 0)"
    by (simp add: attempts_left_def rows row_left_def 0)
qed

abbreviation made :: "(string \<Rightarrow> task_status \<Rightarrow> bool) \<Rightarrow> attempt list \<Rightarrow> nat" where
  "made sel as \<equiv> length (filter (\<lambda>(t, st, k). sel t st) as)"

lemma deliver_bound:
  "fs_ok s \<Longrightarrow> deliver es s = (as, s') \<Longrightarrow>
     fs_ok s' \<and> made sel as + attempts_left sel s' \<le> attempts_left sel s + callback_max_attempts * enqueues sel es"
proof (induction es s arbitrary: as s' rule: deliver.induct)
  case (2 task st tm url items es s)
  from 2(1) [OF enqueue_finished_step(1) [OF 2(2)] 2(3) [simplified]] show ?case
    by (auto simp: enqueue_finished_step(2) [OF 2(2)] split: if_splits)
next
  case (3 now cu an la j es s)
  obtain a s1 where p: "process_finished_turn now cu an la j s = (a, s1)" by fastforce
  obtain bs where m: "deliver es s1 = (bs, s')" "as = (case a of None \<Rightarrow> bs | Some x \<Rightarrow> x # bs)"
    using "3.prems"(2) p by (auto split: prod.splits)
  note t = turn_step [OF "3.prems"(1) p]
  have "fs_ok s' \<and> made sel bs + attempts_left sel s' \<le> attempts_left sel s1 + callback_max_attempts * enqueues sel es"
    by (rule "3.IH" [OF p [symmetric] _ m(1)]) (use t in simp)
  moreover have "attempts_left sel s1 + chosen sel a \<le> attempts_left sel s" using t by blast
  moreover have "made sel as = made sel bs + chosen sel a" using m(2) by (auto simp: chosen_def split: option.splits)
  ultimately show ?case by simp
qed simp

section \<open>Every message is settled\<close>

text \<open>
  Events in the order of time: a turn is not earlier than what was before it, and its callback returns after it began. A
  message enters with the time at which its task finished.
\<close>

fun in_order :: "real \<Rightarrow> fevent list \<Rightarrow> bool" where
  "in_order t [] \<longleftrightarrow> True"
| "in_order t (Enqueue _ _ tm _ _ # es) \<longleftrightarrow> in_order (max t tm) es"
| "in_order t (Turn now _ _ later _ # es) \<longleftrightarrow> t \<le> now \<and> now \<le> later \<and> in_order later es"

fun clock :: "real \<Rightarrow> fevent list \<Rightarrow> real" where
  "clock t [] = t"
| "clock t (Enqueue _ _ tm _ _ # es) = clock (max t tm) es"
| "clock t (Turn now _ _ later _ # es) = clock later es"

text \<open>
  The loop turns all the time, and most turns find that nothing is due. What counts is how many turns there are with at
  least the longest delay between them: from \<open>v\<close> on, one is taken, and the next one after the longest delay again.
\<close>

fun slots :: "real \<Rightarrow> fevent list \<Rightarrow> nat" where
  "slots v [] = 0"
| "slots v (Enqueue _ _ _ _ _ # es) = slots v es"
| "slots v (Turn now _ _ later _ # es) =
     (if v \<le> now then Suc (slots (later + callback_max_interval) es) else slots v es)"

definition due_by :: "real \<Rightarrow> fstate \<Rightarrow> bool" where
  "due_by u s \<longleftrightarrow> list_all (\<lambda>r. fr_finished_at r \<le> u) (fs_rows s)"

lemma due_by_mono: "due_by u s \<Longrightarrow> u \<le> v \<Longrightarrow> due_by v s"
  by (auto simp: due_by_def list_all_iff)

lemma due_by_drop: "due_by u s \<Longrightarrow> due_by u (drop_callback_task i s)"
  by (auto simp: due_by_def list_all_iff drop_callback_task_def q_clear_def q_delete_def)

lemma retry_delay_le: "retry_delay n j asked \<le> callback_max_interval"
  by (simp add: retry_delay_def Let_def)

lemma due_by_retry:
  assumes "due_by u s" and "u \<le> later + callback_max_interval"
  shows "due_by (later + callback_max_interval) (snd (schedule_callback_retry later j r e s))"
proof -
  have "due_by (later + callback_max_interval) (drop_callback_task i (s\<lparr>fs_attempts := m\<rparr>))" for i m
    by (rule due_by_drop) (use due_by_mono [OF assms] in \<open>simp add: due_by_def\<close>)
  then show ?thesis
    using due_by_mono [OF assms] retry_delay_le
    by (auto simp: schedule_callback_retry_def Let_def due_by_def list_all_iff split: prod.split)
qed

lemma turn_due:
  assumes "process_finished_turn now cu an la j s = (a, s')" and "due_by u s" and "u \<le> la + callback_max_interval"
  shows "due_by (la + callback_max_interval) s' \<and> (due_by now s \<longrightarrow> a \<noteq> None \<or> fs_rows s = [])"
proof (cases "build_query fr_finished_at False (\<lambda>_. True) (fs_rows s)")
  case Nil
  then have "fs_rows s = []" using build_query_set [of fr_finished_at False "\<lambda>_. True" "fs_rows s"] by simp
  then show ?thesis using assms by (auto simp: process_finished_turn_def q_peek_def build_query_def due_by_def)
next
  case (Cons r rs)
  obtain k oe where c: "callback_attempt cu an r = (k, oe)" by fastforce
  have d: "is_callback_due now r" if "due_by now s"
    using build_query_hd(1) [OF Cons] that by (auto simp: is_callback_due_def due_by_def list_all_iff)
  show ?thesis
    using assms(1) d due_by_drop [OF due_by_mono [OF assms(2,3)]] due_by_retry [OF assms(2,3)] due_by_mono [OF assms(2,3)]
    by (auto simp: process_finished_turn_def q_peek_def Cons c split: option.splits if_splits)
qed

abbreviation left :: "fstate \<Rightarrow> nat" where
  "left s \<equiv> attempts_left (\<lambda>_ _. True) s"

lemma left_zero: "fs_ok s \<Longrightarrow> left s = 0 \<Longrightarrow> fs_rows s = []"
  by (cases "fs_rows s") (auto simp: attempts_left_def row_left_def fs_ok_def not_less [symmetric])

text \<open>
  The queue is emptied when no attempt is left that was not given a turn of its own. An attempt that was made between two
  counted turns (the second case) has already used up the next one, at which its message may not be due yet.
\<close>

lemma slots_settle:
  "fs_ok s \<Longrightarrow> in_order t es \<Longrightarrow> enqueues (\<lambda>_ _. True) es = 0 \<Longrightarrow> due_by (t + callback_max_interval) s \<Longrightarrow>
   v \<le> t + callback_max_interval \<Longrightarrow>
   due_by v s \<and> left s \<le> slots v es \<or> left s < slots v es \<Longrightarrow>
   fs_rows (snd (deliver es s)) = []"
proof (induction es arbitrary: s t v)
  case Nil
  then show ?case using left_zero by auto
next
  case (Cons ev es)
  then obtain now cu an la j where ev: "ev = Turn now cu an la j" by (cases ev) auto
  obtain a s' where p: "process_finished_turn now cu an la j s = (a, s')" by fastforce
  have o: "t \<le> now" "now \<le> la" "in_order la es" "enqueues (\<lambda>_ _. True) es = 0" using Cons.prems(2,3) by (simp_all add: ev)
  note st = turn_step [OF Cons.prems(1) p] and du = turn_due [OF p Cons.prems(4)]
  have d': "due_by (la + callback_max_interval) s'" using du o by simp
  have dec: "left s' + (if a = None then 0 else 1) \<le> left s"
    using st [THEN conjunct2, THEN conjunct1, THEN spec, of "\<lambda>_ _. True"] by (auto simp: chosen_def split: option.splits)
  have stay: "a = None \<Longrightarrow> s' = s" using st by blast
  have empty: "left s = 0" if "fs_rows s = []" using that by (simp add: attempts_left_def)
  have "fs_rows (snd (deliver es s')) = []"
  proof (cases "v \<le> now")
    case True
    then have n: "slots v (ev # es) = Suc (slots (la + callback_max_interval) es)" by (simp add: ev)
    have "left s' \<le> slots (la + callback_max_interval) es"
    proof (cases "left s < slots v (ev # es)")
      case True
      then show ?thesis using dec n by simp
    next
      case False
      then have "due_by v s" "left s \<le> slots v (ev # es)" using Cons.prems(6) by auto
      then have "a \<noteq> None \<or> left s = 0" using du o due_by_mono [OF _ True, of s] empty by auto
      then show ?thesis using dec n \<open>left s \<le> slots v (ev # es)\<close> by (auto split: if_splits)
    qed
    then show ?thesis using Cons.IH [OF _ o(3,4) d', of "la + callback_max_interval"] st d' by blast
  next
    case False
    then have n: "slots v (ev # es) = slots v es" by (simp add: ev)
    have v: "v \<le> la + callback_max_interval" using Cons.prems(5) o by simp
    have "due_by v s' \<and> left s' \<le> slots v es \<or> left s' < slots v es"
      using Cons.prems(6) dec stay n by (cases a) auto
    then show ?thesis using Cons.IH [OF _ o(3,4) d' v] st by blast
  qed
  then show ?case by (cases "deliver es s'") (simp add: ev p)
qed

lemma deliver_due:
  "in_order t es \<Longrightarrow> due_by (t + callback_max_interval) s \<Longrightarrow> deliver es s = (as, s') \<Longrightarrow>
   due_by (clock t es + callback_max_interval) s'"
proof (induction es arbitrary: s t as)
  case (Cons ev es)
  show ?case
  proof (cases ev)
    case (Enqueue task st tm url items)
    have "due_by (max t tm + callback_max_interval) (enqueue_finished task st tm url items s)"
      using due_by_mono [OF Cons.prems(2), of "max t tm + callback_max_interval"]
      by (auto simp: due_by_def enqueue_finished_def q_enqueue_def Let_def callback_max_interval_def)
    then show ?thesis using Cons.IH [of "max t tm" "enqueue_finished task st tm url items s" as] Cons.prems Enqueue by simp
  next
    case (Turn now cu an la j)
    obtain a s1 where p: "process_finished_turn now cu an la j s = (a, s1)" by fastforce
    obtain bs where "deliver es s1 = (bs, s')" using Cons.prems(3) p Turn by (auto split: prod.splits)
    moreover have "due_by (la + callback_max_interval) s1" using turn_due [OF p Cons.prems(2)] Cons.prems(1) Turn by simp
    ultimately show ?thesis using Cons.IH [of la s1 bs] Cons.prems(1) Turn by simp
  qed
qed simp

section \<open>Properties\<close>

text \<open>
  C24. Over any history of finished tasks and turns of the loop, in the order of time, every message of a task and status is
  attempted at most five times, whatever the custom function and the receiver answer: the attempts for a task and status
  are at most five times its messages. And once no new messages arrive, the loop, however often it turns, has delivered or
  dropped every message when among its turns there were five for each message with the longest delay between them.
\<close>

theorem callbacks_settle:
  assumes "in_order t es" and "deliver es empty_queue = (attempts, s)"
    and "in_order (clock t es) es'" and "enqueues (\<lambda>_ _. True) es' = 0"
    and "5 * enqueues (\<lambda>_ _. True) es \<le> slots (clock t es + 300) es'"
  shows "length (filter (\<lambda>(t, st, k). t = task \<and> st = status) attempts) \<le> 5 * enqueues (\<lambda>t st. t = task \<and> st = status) es \<and>
    fs_rows (snd (deliver es' s)) = []"
proof -
  have e: "attempts_left sel empty_queue = 0" "due_by u empty_queue" for sel u
    by (simp_all add: attempts_left_def empty_queue_def due_by_def)
  note b = deliver_bound [OF fs_ok_empty assms(2), unfolded e callback_max_attempts_def]
  have "left s \<le> slots (clock t es + callback_max_interval) es'"
    using b [of "\<lambda>_ _. True"] assms(5) by (simp add: callback_max_interval_def)
  then have "fs_rows (snd (deliver es' s)) = []"
    using slots_settle [OF _ assms(3,4), of s "clock t es + callback_max_interval"]
      deliver_due [OF assms(1) e(2) assms(2)] b by simp
  then show ?thesis using b [of "\<lambda>t st. t = task \<and> st = status"] by simp
qed

text \<open>
  The receiver is down; the loop turns twice a second around the times of the retries, the task has two items, and no
  post succeeds.
\<close>

definition failing_turns :: "fevent list" where
  "failing_turns = map (\<lambda>x. Turn x None (\<lambda>_. Some (CbHttp 503 None)) (x + 1 / 2) 1) [300, 301, 305, 620, 930, 1240, 1241, 1600]"

theorem callbacks_settle_witness:
  "fs_rows (snd (deliver failing_turns
     (snd (deliver [Enqueue ''a'' SUCCESS 0 (Some ''http://h'') (Some 2)] empty_queue)))) = []"
proof -
  obtain as s where d: "deliver [Enqueue ''a'' SUCCESS 0 (Some ''http://h'') (Some 2)] empty_queue = (as, s)" by fastforce
  have "fs_rows (snd (deliver failing_turns s)) = []"
    by (rule callbacks_settle [OF _ d, of 0, THEN conjunct2]) (simp_all add: failing_turns_def callback_max_interval_def)
  then show ?thesis by (simp only: d snd_conv)
qed

text \<open>
  A message whose post failed is overtaken by the next message of its task: when the start of a task could not be
  posted and the task succeeds within the delay, the success is delivered first and the start after it.
\<close>

lemma callback_overtaken:
  assumes "t \<le> t'" and "t' < t + 4" and "4 / 5 \<le> j"
  shows "map fr_status (fs_rows (snd (deliver
      [Enqueue a WORKING t (Some ''h'') (Some 1), Turn t None (\<lambda>_. Some CbNetwork) t j,
       Enqueue a SUCCESS t' (Some ''h'') (Some 1), Turn t' None (\<lambda>_. None) t' j'] empty_queue))) = [WORKING]"
proof -
  have "t' < t + retry_delay 1 j None"
    using assms by (simp add: retry_delay_def Let_def callback_min_interval_def callback_max_interval_def)
  then show ?thesis
    using assms(1)
    by (simp add: empty_queue_def enqueue_finished_def q_enqueue_def next_id_def Let_def process_finished_turn_def q_peek_def
        build_query_def is_callback_due_def schedule_callback_retry_def should_retry_callback_error_def
        callback_max_attempts_def drop_callback_task_def q_clear_def q_delete_def callback_attempt_def default_post_func_def
        normalize_callback_url_def)
qed

text \<open>
  A retry posts the items again that were delivered before the one that failed: they are not remembered.
\<close>

lemma items_posted_again:
  "fst (deliver [Enqueue a SUCCESS 0 (Some ''h'') (Some 2), Turn 0 None (\<lambda>i. if i = 1 then Some CbNetwork else None) 0 1,
      Turn 300 None (\<lambda>_. None) 300 1] empty_queue) = [(a, SUCCESS, 2), (a, SUCCESS, 2)]"
  by (simp add: empty_queue_def enqueue_finished_def q_enqueue_def next_id_def Let_def process_finished_turn_def q_peek_def
      build_query_def is_callback_due_def schedule_callback_retry_def should_retry_callback_error_def retry_delay_def
      callback_max_attempts_def drop_callback_task_def q_clear_def q_delete_def callback_attempt_def default_post_func_def
      normalize_callback_url_def callback_min_interval_def callback_max_interval_def numeral_2_eq_2)

end
