(* ===== verification/DocService.thy ===== *)
theory DocService
  imports TaskQueue
begin

text \<open>
  The tables of the document service and the handler of task callbacks
  (\<open>lazyllm/tools/rag/doc_service/doc_manager.py\<close>). A table with a unique key is a map from the key to its row, a
  binding table is the list of its pairs. Columns that no operation reads (creation and update times, file data) and
  those that are only ever written with their defaults (\<open>retry_count\<close>, \<open>max_retry\<close>, \<open>task_score\<close>, \<open>lease_owner\<close>,
  \<open>lease_until\<close>) are left out; a failing database is not modelled.
\<close>

section \<open>Data\<close>

datatype doc_status = Waiting | Working | Success | Failed | Canceled | Deleting | Deleted

datatype kb_status = Active | KbDeleting | KbDeleted

datatype ng_status = NgPending | NgWorking | NgSuccess | NgFailed

datatype event_type = Start | Finish

record task_message =
  tm_cleanup_policy :: "string option"
  tm_mode :: "string option"
  tm_source_kb :: "string option"
  tm_source_doc :: "string option"
  tm_unbind :: bool
  tm_unbind_algo :: string
  tm_exclusive_ngs :: "string list"

definition no_message :: task_message where
  "no_message = \<lparr>tm_cleanup_policy = None, tm_mode = None, tm_source_kb = None, tm_source_doc = None,
     tm_unbind = False, tm_unbind_algo = '''', tm_exclusive_ngs = []\<rparr>"

record dtask =
  dt_type :: task_type
  dt_doc :: string
  dt_kb :: string
  dt_status :: doc_status
  dt_message :: task_message
  dt_error :: "string option \<times> string option"
  dt_started :: "int option"
  dt_finished :: "int option"

record snapshot =
  sn_status :: doc_status
  sn_task :: "string option"
  sn_type :: "task_type option"
  sn_idem :: "string option"
  sn_priority :: int
  sn_queued :: "int option"
  sn_started :: "int option"
  sn_finished :: "int option"
  sn_error :: "string option \<times> string option"
  sn_stage :: "string option"

record dkb =
  kb_state :: kb_status
  kb_docs :: nat

record dstate =
  d_tasks :: "string \<rightharpoonup> dtask"
  d_snaps :: "((string \<times> string) \<times> snapshot) list"
  d_docs :: "string \<rightharpoonup> doc_status"
  d_rels :: "(string \<times> string) list"
  d_kbs :: "string \<rightharpoonup> dkb"
  d_algos :: "(string \<times> string) list"
  d_ngs :: "string \<times> string \<times> string \<rightharpoonup> ng_status"
  d_callbacks :: "string \<rightharpoonup> string"

text \<open>What an action may fail with: an error of the service, or another exception.\<close>

datatype doc_error = StateConflict | NotFound | InvalidParam | OtherError

section \<open>Tables\<close>

definition record_callback :: "string \<Rightarrow> string \<Rightarrow> dstate \<Rightarrow> bool \<times> dstate" where
  "record_callback cid task s =
     (if cid \<in> dom (d_callbacks s) then (False, s) else (True, s\<lparr>d_callbacks := (d_callbacks s)(cid \<mapsto> task)\<rparr>))"

definition forget_callback_record :: "string \<Rightarrow> string \<Rightarrow> dstate \<Rightarrow> dstate" where
  "forget_callback_record cid task s =
     (if d_callbacks s cid = Some task then s\<lparr>d_callbacks := (d_callbacks s)(cid := None)\<rparr> else s)"

definition create_task_record :: "string \<Rightarrow> task_type \<Rightarrow> string \<Rightarrow> string \<Rightarrow> doc_status \<Rightarrow> task_message \<Rightarrow> dstate \<Rightarrow> dstate" where
  "create_task_record task ty doc kb st msg s =
     s\<lparr>d_tasks := (d_tasks s)(task \<mapsto> \<lparr>dt_type = ty, dt_doc = doc, dt_kb = kb, dt_status = st, dt_message = msg,
          dt_error = (None, None), dt_started = None, dt_finished = None\<rparr>)\<rparr>"

definition update_task_record :: "string \<Rightarrow> (dtask \<Rightarrow> dtask) \<Rightarrow> dstate \<Rightarrow> dstate" where
  "update_task_record task f s =
     (case d_tasks s task of None \<Rightarrow> s | Some t \<Rightarrow> s\<lparr>d_tasks := (d_tasks s)(task \<mapsto> f t)\<rparr>)"

definition mark_task_cleanup_policy :: "string \<Rightarrow> string \<Rightarrow> dstate \<Rightarrow> dstate" where
  "mark_task_cleanup_policy task policy s =
     update_task_record task (\<lambda>t. t\<lparr>dt_message := (dt_message t)\<lparr>tm_cleanup_policy := Some policy\<rparr>\<rparr>) s"

definition doc_relation_count :: "string \<Rightarrow> dstate \<Rightarrow> nat" where
  "doc_relation_count doc s = length (filter (\<lambda>p. snd p = doc) (d_rels s))"

definition list_kb_doc_ids :: "string \<Rightarrow> dstate \<Rightarrow> string list" where
  "list_kb_doc_ids kb s = map snd (filter (\<lambda>p. fst p = kb) (d_rels s))"

definition set_doc_upload_status :: "string \<Rightarrow> doc_status \<Rightarrow> dstate \<Rightarrow> dstate" where
  "set_doc_upload_status doc st s =
     (case d_docs s doc of None \<Rightarrow> s | Some _ \<Rightarrow> s\<lparr>d_docs := (d_docs s)(doc \<mapsto> st)\<rparr>)"

definition refresh_kb_doc_count :: "string \<Rightarrow> dstate \<Rightarrow> dstate" where
  "refresh_kb_doc_count kb s =
     (case d_kbs s kb of
        None \<Rightarrow> s
      | Some r \<Rightarrow>
          let n = length (list_kb_doc_ids kb s);
              st = (if kb_state r = KbDeleting \<and> n = 0 then KbDeleted else kb_state r)
          in s\<lparr>d_kbs := (d_kbs s)(kb \<mapsto> \<lparr>kb_state = st, kb_docs = n\<rparr>)\<rparr>)"

definition ensure_kb_document :: "string \<Rightarrow> string \<Rightarrow> dstate \<Rightarrow> bool \<times> dstate" where
  "ensure_kb_document kb doc s =
     (if (kb, doc) \<in> set (d_rels s) then (False, s)
      else (True, refresh_kb_doc_count kb (s\<lparr>d_rels := d_rels s @ [(kb, doc)]\<rparr>)))"

definition remove_kb_document :: "string \<Rightarrow> string \<Rightarrow> dstate \<Rightarrow> bool \<times> dstate" where
  "remove_kb_document kb doc s =
     (if (kb, doc) \<in> set (d_rels s)
      then (True, refresh_kb_doc_count kb (s\<lparr>d_rels := remove1 (kb, doc) (d_rels s)\<rparr>))
      else (False, s))"

definition delete_parse_snapshots :: "string \<Rightarrow> string \<Rightarrow> dstate \<Rightarrow> dstate" where
  "delete_parse_snapshots doc kb s = s\<lparr>d_snaps := AList.delete (doc, kb) (d_snaps s)\<rparr>"

definition delete_ng_status :: "string \<Rightarrow> string \<Rightarrow> dstate \<Rightarrow> dstate" where
  "delete_ng_status doc kb s = s\<lparr>d_ngs := (\<lambda>(d, k, g). if d = doc \<and> k = kb then None else d_ngs s (d, k, g))\<rparr>"

definition delete_ng_status_for_groups :: "string \<Rightarrow> string \<Rightarrow> string list \<Rightarrow> dstate \<Rightarrow> dstate" where
  "delete_ng_status_for_groups doc kb ngs s =
     (if ngs = [] then s
      else s\<lparr>d_ngs := (\<lambda>(d, k, g). if d = doc \<and> k = kb \<and> g \<in> set ngs then None else d_ngs s (d, k, g))\<rparr>)"

fun upsert_ng_status_pending :: "string \<Rightarrow> string \<Rightarrow> string list \<Rightarrow> bool \<Rightarrow> dstate \<Rightarrow> dstate" where
  "upsert_ng_status_pending doc kb [] force s = s"
| "upsert_ng_status_pending doc kb (g # gs) force s =
     upsert_ng_status_pending doc kb gs force
       (if \<not> force \<and> d_ngs s (doc, kb, g) = Some NgSuccess then s
        else s\<lparr>d_ngs := (d_ngs s)((doc, kb, g) \<mapsto> NgPending)\<rparr>)"

definition delete_doc_if_orphaned :: "string \<Rightarrow> dstate \<Rightarrow> bool \<times> dstate" where
  "delete_doc_if_orphaned doc s =
     (if doc_relation_count doc s > 0 then (False, s)
      else case d_docs s doc of
             None \<Rightarrow> (False, s)
           | Some _ \<Rightarrow> (True, s\<lparr>d_docs := (d_docs s)(doc := None)\<rparr>))"

definition remove_kb_document_and_delete_orphan :: "string \<Rightarrow> string \<Rightarrow> dstate \<Rightarrow> bool \<times> dstate" where
  "remove_kb_document_and_delete_orphan kb doc s = delete_doc_if_orphaned doc (snd (remove_kb_document kb doc s))"

definition sync_doc_upload_status :: "string \<Rightarrow> dstate \<Rightarrow> dstate" where
  "sync_doc_upload_status doc s =
     set_doc_upload_status doc (if doc_relation_count doc s > 0 then Success else Deleted) s"

definition purge_deleted_kb_doc_data :: "string \<Rightarrow> string \<Rightarrow> bool \<Rightarrow> dstate \<Rightarrow> dstate" where
  "purge_deleted_kb_doc_data kb doc remove_relation s =
     (case (if remove_relation then remove_kb_document_and_delete_orphan kb doc s else delete_doc_if_orphaned doc s) of
        (gone, s) \<Rightarrow>
          let s = delete_ng_status doc kb (delete_parse_snapshots doc kb s)
          in if gone then s else sync_doc_upload_status doc s)"

definition remove_kb_algo_binding :: "string \<Rightarrow> string \<Rightarrow> dstate \<Rightarrow> dstate" where
  "remove_kb_algo_binding kb algo s = s\<lparr>d_algos := filter (\<lambda>p. p \<noteq> (kb, algo)) (d_algos s)\<rparr>"

definition finalize_kb_deletion_if_empty :: "string \<Rightarrow> dstate \<Rightarrow> bool \<times> dstate" where
  "finalize_kb_deletion_if_empty kb s =
     (if list_kb_doc_ids kb s \<noteq> [] then (False, s)
      else (True, s\<lparr>d_kbs := (d_kbs s)(kb := None), d_algos := filter (\<lambda>p. fst p \<noteq> kb) (d_algos s)\<rparr>))"

definition apply_doc_upload_status :: "string \<Rightarrow> task_type \<Rightarrow> doc_status \<Rightarrow> dstate \<Rightarrow> dstate" where
  "apply_doc_upload_status doc ty st s =
     (if ty = DocAdd then
        (if st \<in> {Working, Failed, Canceled, Success} then set_doc_upload_status doc st s else s)
      else if ty = DocDelete then
        (if st = Deleting then
           (if doc_relation_count doc s \<le> 1 then set_doc_upload_status doc Deleting s else s)
         else if st \<in> {Deleted, Failed, Canceled} then
           set_doc_upload_status doc (if doc_relation_count doc s > 0 then Success else Deleted) s
         else s)
      else s)"

section \<open>Parse snapshots\<close>

definition get_parse_snapshot :: "string \<Rightarrow> string \<Rightarrow> dstate \<Rightarrow> snapshot option" where
  "get_parse_snapshot doc kb s = map_of (d_snaps s) (doc, kb)"

definition count_non_deleted_docs_in_kb :: "string \<Rightarrow> dstate \<Rightarrow> nat" where
  "count_non_deleted_docs_in_kb kb s =
     length (filter (\<lambda>(k, sn). snd k = kb \<and> sn_status sn \<noteq> Deleted) (d_snaps s))"

text \<open>The fields of an update start from the snapshot that was read, or from the defaults when there was none.\<close>

definition build_snapshot_update :: "snapshot option \<Rightarrow> (snapshot \<Rightarrow> snapshot) \<Rightarrow> snapshot" where
  "build_snapshot_update snap overrides = overrides
     (case snap of
        Some sn \<Rightarrow> sn
      | None \<Rightarrow> \<lparr>sn_status = Waiting, sn_task = None, sn_type = None, sn_idem = None, sn_priority = 0, sn_queued = None,
                 sn_started = None, sn_finished = None, sn_error = (None, None), sn_stage = None\<rparr>)"

definition upsert_parse_snapshot :: "string \<Rightarrow> string \<Rightarrow> doc_status \<Rightarrow> snapshot \<Rightarrow> dstate \<Rightarrow> dstate" where
  "upsert_parse_snapshot doc kb st flds s =
     (let ty = (case sn_type flds of
                  Some t \<Rightarrow> Some t
                | None \<Rightarrow> (case get_parse_snapshot doc kb s of None \<Rightarrow> None | Some sn \<Rightarrow> sn_type sn))
      in s\<lparr>d_snaps := AList.update (doc, kb) (flds\<lparr>sn_status := st, sn_type := ty\<rparr>) (d_snaps s)\<rparr>)"

definition update_snapshot_via ::
    "string \<Rightarrow> string \<Rightarrow> snapshot option \<Rightarrow> doc_status \<Rightarrow> string \<Rightarrow> (snapshot \<Rightarrow> snapshot) \<Rightarrow> dstate \<Rightarrow> dstate" where
  "update_snapshot_via doc kb snap st task overrides s =
     upsert_parse_snapshot doc kb st (build_snapshot_update snap (\<lambda>sn. overrides (sn\<lparr>sn_task := Some task\<rparr>))) s"

definition assert_action_allowed :: "string \<Rightarrow> string \<Rightarrow> string \<Rightarrow> dstate \<Rightarrow> doc_error + unit" where
  "assert_action_allowed doc kb action s =
     (let status = map_option sn_status (get_parse_snapshot doc kb s);
          status = (if status = None \<and> action \<in> {''add'', ''upload''} then d_docs s doc else status)
      in if action \<in> {''add'', ''upload''} then
           (if status \<in> {Some Waiting, Some Working, Some Deleting, Some Success} then Inl StateConflict else Inr ())
         else if status \<in> {Some Working, Some Deleting} \<and> action \<in> {''reparse'', ''delete'', ''transfer'', ''metadata''}
           then Inl StateConflict
         else Inr ())"

section \<open>Callbacks\<close>

record callback =
  cb_id :: string
  cb_task :: string
  cb_event :: event_type
  cb_status :: doc_status
  cb_error :: "string option \<times> string option"
  cb_payload :: "(task_type \<times> string \<times> string) option"

text \<open>A callback without an event type is a start when its status is not final.\<close>

definition normalize_event :: "event_type option \<Rightarrow> doc_status \<Rightarrow> event_type" where
  "normalize_event ev st = (case ev of Some e \<Rightarrow> e | None \<Rightarrow> if st \<in> {Waiting, Working} then Start else Finish)"

text \<open>The answer to a callback: the duplicate flag when it is given, and the reason why it was ignored.\<close>

datatype ack = Ack "bool option" "string option"

text \<open>Type, document, base, message and, for a recorded task, status.\<close>

type_synonym task_data = "task_type \<times> string \<times> string \<times> task_message \<times> doc_status option"

definition resolve_callback_task :: "callback \<Rightarrow> dstate \<Rightarrow> task_data option" where
  "resolve_callback_task cb s =
     (case d_tasks s (cb_task cb) of
        Some t \<Rightarrow> Some (dt_type t, dt_doc t, dt_kb t, dt_message t, Some (dt_status t))
      | None \<Rightarrow> (case cb_payload cb of
                   Some (ty, doc, kb) \<Rightarrow> Some (ty, doc, kb, no_message, None)
                 | None \<Rightarrow> None))"

fun valid_task_type :: "task_type \<Rightarrow> bool" where
  "valid_task_type (OtherType _) \<longleftrightarrow> False"
| "valid_task_type _ \<longleftrightarrow> True"

definition start_callback :: "int \<Rightarrow> callback \<Rightarrow> task_type \<Rightarrow> string \<Rightarrow> string \<Rightarrow> snapshot option \<Rightarrow> dstate \<Rightarrow> dstate" where
  "start_callback now cb ty doc kb snap s =
     (let s = update_task_record (cb_task cb)
                (\<lambda>t. t\<lparr>dt_status := Working, dt_started := Some now, dt_finished := None, dt_error := (None, None)\<rparr>) s;
          st = (if ty = DocDelete then Deleting else Working);
          s = update_snapshot_via doc kb snap st (cb_task cb)
                (\<lambda>sn. sn\<lparr>sn_type := Some ty, sn_started := Some now, sn_finished := None, sn_error := (None, None),
                         sn_stage := None\<rparr>) s
      in if ty = DocAdd then apply_doc_upload_status doc ty Working s
         else if ty = DocDelete then apply_doc_upload_status doc ty Deleting s
         else s)"

definition final_status :: "task_type \<Rightarrow> doc_status \<Rightarrow> doc_status" where
  "final_status ty st = (if ty = DocDelete \<and> st = Success then Deleted else st)"

text \<open>A transfer that moves removes the source.\<close>

definition remove_moved_source :: "task_type \<Rightarrow> doc_status \<Rightarrow> string \<Rightarrow> string \<Rightarrow> task_message \<Rightarrow> dstate \<Rightarrow> dstate" where
  "remove_moved_source ty st doc kb msg s =
     (if ty = DocTransfer \<and> st = Success \<and> tm_mode msg = Some ''move'' then
        (let src_doc = (case tm_source_doc msg of Some d \<Rightarrow> if d = '''' then doc else d | None \<Rightarrow> doc)
         in case tm_source_kb msg of
              Some src_kb \<Rightarrow>
                if src_kb \<noteq> '''' \<and> src_kb \<noteq> kb then
                  sync_doc_upload_status src_doc (delete_parse_snapshots src_doc src_kb (snd (remove_kb_document src_kb src_doc s)))
                else s
            | None \<Rightarrow> s)
      else s)"

text \<open>After a deletion: purge, the end of a binding to an algorithm, or the removal of the document from the base.\<close>

definition after_deletion :: "string \<Rightarrow> string \<Rightarrow> task_message \<Rightarrow> dstate \<Rightarrow> dstate" where
  "after_deletion doc kb msg s =
     (if tm_cleanup_policy msg = Some ''purge'' then purge_deleted_kb_doc_data kb doc True s
      else if tm_unbind msg then
        (let s = delete_parse_snapshots doc kb (delete_ng_status_for_groups doc kb (tm_exclusive_ngs msg) s)
         in if count_non_deleted_docs_in_kb kb s = 0 \<and> tm_unbind_algo msg \<noteq> ''''
            then remove_kb_algo_binding kb (tm_unbind_algo msg) s else s)
      else delete_ng_status doc kb (snd (remove_kb_document kb doc s)))"

definition record_finish ::
    "int \<Rightarrow> callback \<Rightarrow> task_type \<Rightarrow> doc_status \<Rightarrow> string \<Rightarrow> string \<Rightarrow> task_message \<Rightarrow> snapshot option \<Rightarrow> dstate \<Rightarrow> dstate" where
  "record_finish now cb ty st doc kb msg snap s =
     (let stage = (if st = Failed then Some (if ty = DocDelete then ''DELETE'' else ''PARSE'') else None);
          s = remove_moved_source ty st doc kb msg s;
          s = update_task_record (cb_task cb) (\<lambda>t. t\<lparr>dt_status := st, dt_error := cb_error cb, dt_finished := Some now\<rparr>) s
      in update_snapshot_via doc kb snap st (cb_task cb)
           (\<lambda>sn. sn\<lparr>sn_type := Some ty, sn_error := cb_error cb, sn_stage := stage, sn_finished := Some now\<rparr>) s)"

definition finish_callback ::
    "int \<Rightarrow> callback \<Rightarrow> task_type \<Rightarrow> string \<Rightarrow> string \<Rightarrow> task_message \<Rightarrow> snapshot option \<Rightarrow> dstate \<Rightarrow> dstate" where
  "finish_callback now cb ty doc kb msg snap s =
     (let st = final_status ty (cb_status cb);
          s = record_finish now cb ty st doc kb msg snap s;
          deleted = (ty = DocDelete \<and> st = Deleted);
          purge = (deleted \<and> tm_cleanup_policy msg = Some ''purge'');
          s = (if deleted then after_deletion doc kb msg s else s);
          s = (if purge then s else apply_doc_upload_status doc ty st s)
      in if purge then snd (finalize_kb_deletion_if_empty kb s) else s)"

definition on_task_callback :: "int \<Rightarrow> callback \<Rightarrow> dstate \<Rightarrow> (doc_error + ack) \<times> dstate" where
  "on_task_callback now cb s =
     (case record_callback (cb_id cb) (cb_task cb) s of
        (False, s) \<Rightarrow> (Inr (Ack (Some True) None), s)
      | (True, s) \<Rightarrow>
          (case resolve_callback_task cb s of
             None \<Rightarrow> (Inr (Ack None (Some ''task_not_found'')), s)
           | Some (ty, doc, kb, msg, recorded) \<Rightarrow>
               if \<not> valid_task_type ty then (Inl OtherError, forget_callback_record (cb_id cb) (cb_task cb) s)
               else let snap = get_parse_snapshot doc kb s in
               if (case snap of None \<Rightarrow> False
                      | Some sn \<Rightarrow> (case sn_task sn of None \<Rightarrow> False | Some t \<Rightarrow> t \<noteq> '''' \<and> t \<noteq> cb_task cb))
                 then (Inr (Ack (Some False) (Some ''stale_task_callback'')), s)
               else if recorded = Some Canceled \<and> cb_status cb \<noteq> Canceled
                 then (Inr (Ack (Some False) (Some ''canceled_task_callback'')), s)
               else if cb_event cb = Start
                 then (Inr (Ack (Some False) None), start_callback now cb ty doc kb snap s)
               else (Inr (Ack (Some False) None), finish_callback now cb ty doc kb msg snap s)))"

end
