(* ===== verification/DocActions.thy ===== *)
theory DocActions
  imports DocService
begin

text \<open>
  The requests that change the tables of the document service: creation of a base, binding of documents, submission
  and cancellation of tasks, deletion of documents and of a base, the end of a binding to an algorithm
  (\<open>lazyllm/tools/rag/doc_service/doc_manager.py\<close>), the steps between states that any sequence of requests and
  callbacks takes, and what every reachable state satisfies. The parser service is a record of what it answers, and
  \<open>gen\<close> names a new task.
\<close>

section \<open>The parser service\<close>

text \<open>
  Whether a task is accepted; the code and the cancel status of a cancellation; the node groups of an algorithm
  (name and identity), with \<open>None\<close> when they cannot be had; and the text of its errors.
\<close>

record parser =
  ps_submit :: "string \<Rightarrow> task_type \<Rightarrow> bool"
  ps_cancel :: "string \<Rightarrow> int \<times> bool"
  ps_groups :: "string \<Rightarrow> (string \<times> string) list option"
  ps_message :: string

section \<open>Bases and bindings\<close>

definition ensure_kb :: "string \<Rightarrow> dstate \<Rightarrow> dstate" where
  "ensure_kb kb s =
     (case d_kbs s kb of
        None \<Rightarrow> s\<lparr>d_kbs := (d_kbs s)(kb \<mapsto> \<lparr>kb_state = Active, kb_docs = 0\<rparr>)\<rparr>
      | Some r \<Rightarrow> s\<lparr>d_kbs := (d_kbs s)(kb \<mapsto> (if kb_state r = KbDeleted then r\<lparr>kb_state := Active\<rparr> else r))\<rparr>)"

definition ensure_kb_algorithm :: "string \<Rightarrow> string \<Rightarrow> dstate \<Rightarrow> dstate" where
  "ensure_kb_algorithm kb algo s =
     (if (kb, algo) \<in> set (d_algos s) then s else s\<lparr>d_algos := d_algos s @ [(kb, algo)]\<rparr>)"

definition ensure_default_kb :: "dstate \<Rightarrow> dstate" where
  "ensure_default_kb s = ensure_kb_algorithm ''__default__'' ''__default__'' (ensure_kb ''__default__'' s)"

definition get_kb_algorithms :: "string \<Rightarrow> dstate \<Rightarrow> doc_error + string list" where
  "get_kb_algorithms kb s =
     (let algos = map snd (filter (\<lambda>p. fst p = kb) (d_algos s)) in if algos = [] then Inl StateConflict else Inr algos)"

definition validate_kb_algorithm :: "string \<Rightarrow> string \<Rightarrow> dstate \<Rightarrow> (doc_error + unit) \<times> dstate" where
  "validate_kb_algorithm kb algo s =
     (let s = (if kb = ''__default__'' then ensure_default_kb s else s)
      in (case d_kbs s kb of
            None \<Rightarrow> (Inl NotFound, s)
          | Some r \<Rightarrow>
              if kb_state r \<noteq> Active then (Inl StateConflict, s)
              else (case get_kb_algorithms kb s of
                      Inl e \<Rightarrow> (Inl e, s)
                    | Inr algos \<Rightarrow> if algo \<in> set algos then (Inr (), s) else (Inl InvalidParam, s))))"

text \<open>The document's row is written and bound in one transaction; its file columns are not modelled.\<close>

definition upsert_doc_and_bind :: "string \<Rightarrow> string \<Rightarrow> doc_status \<Rightarrow> dstate \<Rightarrow> dstate" where
  "upsert_doc_and_bind kb doc st s = snd (ensure_kb_document kb doc (s\<lparr>d_docs := (d_docs s)(doc \<mapsto> st)\<rparr>))"

section \<open>Tasks\<close>

fun algo_ids_to_ng_names :: "(string \<Rightarrow> (string \<times> string) list option) \<Rightarrow> string list \<Rightarrow> (string \<times> string) list \<Rightarrow> (string \<times> string) list option" where
  "algo_ids_to_ng_names groups [] acc = Some acc"
| "algo_ids_to_ng_names groups (a # as) acc =
     (case groups a of
        None \<Rightarrow> None
      | Some gs \<Rightarrow> algo_ids_to_ng_names groups as
          (fold (\<lambda>(name, i) acc. if name \<noteq> '''' \<and> i \<noteq> '''' \<and> name \<notin> fst ` set acc then acc @ [(name, i)] else acc) gs acc))"

definition get_algo_node_group_ids :: "(string \<Rightarrow> (string \<times> string) list option) \<Rightarrow> string \<Rightarrow> string list option" where
  "get_algo_node_group_ids groups algo =
     (case groups algo of
        None \<Rightarrow> None
      | Some gs \<Rightarrow> let is = filter (\<lambda>i. i \<noteq> '''') (map snd gs) in if is = [] then None else Some is)"

text \<open>The node groups of a task to be marked as pending.\<close>

definition resolve_ng_for_task :: "parser \<Rightarrow> task_type \<Rightarrow> string list \<Rightarrow> string list option \<Rightarrow> string list option" where
  "resolve_ng_for_task ps ty algos ng_names =
     (if ng_names \<noteq> None then Some []
      else if length algos > 1 then map_option (map snd) (algo_ids_to_ng_names (ps_groups ps) algos [])
      else if ty \<in> {DocAdd, DocReparse, DocTransfer} then
        (case algos of [] \<Rightarrow> None | a # _ \<Rightarrow> get_algo_node_group_ids (ps_groups ps) a)
      else Some [])"

definition create_parser_task :: "parser \<Rightarrow> string \<Rightarrow> task_type \<Rightarrow> string option \<Rightarrow> bool" where
  "create_parser_task ps task ty path =
     (if ty \<in> {DocAdd, DocReparse, DocTransfer} then path \<notin> {None, Some ''''} \<and> ps_submit ps task ty
      else if ty \<in> {DocUpdateMeta, DocDelete} then ps_submit ps task ty
      else False)"

record task_request =
  rq_doc :: string
  rq_kb :: string
  rq_type :: task_type
  rq_algos :: "string list"
  rq_ng_names :: "string list option"
  rq_path :: "string option"
  rq_idem :: "string option"
  rq_priority :: int
  rq_message :: task_message

definition begin_task :: "int \<Rightarrow> string \<Rightarrow> task_request \<Rightarrow> dstate \<Rightarrow> dstate" where
  "begin_task now task rq s =
     (let st = (if rq_type rq = DocDelete then Deleting else Waiting)
      in upsert_parse_snapshot (rq_doc rq) (rq_kb rq) st
           \<lparr>sn_status = st, sn_task = Some task, sn_type = Some (rq_type rq), sn_idem = rq_idem rq,
            sn_priority = rq_priority rq, sn_queued = Some now, sn_started = None, sn_finished = None,
            sn_error = (None, None), sn_stage = None\<rparr>
           (create_task_record task (rq_type rq) (rq_doc rq) (rq_kb rq) st (rq_message rq) s))"

definition mark_pending :: "task_request \<Rightarrow> string list option \<Rightarrow> dstate \<Rightarrow> dstate" where
  "mark_pending rq pending s =
     (case pending of
        None \<Rightarrow> s
      | Some ngs \<Rightarrow>
          if rq_type rq = DocAdd then upsert_ng_status_pending (rq_doc rq) (rq_kb rq) ngs False s
          else if rq_type rq = DocTransfer then upsert_ng_status_pending (rq_doc rq) (rq_kb rq) ngs True s else s)"

definition fail_submission :: "string \<Rightarrow> int \<Rightarrow> string \<Rightarrow> task_request \<Rightarrow> dstate \<Rightarrow> dstate" where
  "fail_submission msg now task rq s =
     (let doc = rq_doc rq; kb = rq_kb rq; ty = rq_type rq; err = (Some ''PARSER_SUBMIT_FAILED'', Some msg);
          s = update_task_record task (\<lambda>t. t\<lparr>dt_status := Failed, dt_error := err, dt_finished := Some now\<rparr>) s;
          s = update_snapshot_via doc kb (get_parse_snapshot doc kb s) Failed task
                (\<lambda>sn. sn\<lparr>sn_type := Some ty, sn_error := err, sn_stage := Some ''SUBMIT'', sn_finished := Some now\<rparr>) s
      in apply_doc_upload_status doc ty Failed s)"

text \<open>A submission that fails leaves the task and the snapshot as failed, and raises.\<close>

definition enqueue_task ::
    "parser \<Rightarrow> (dstate \<Rightarrow> string) \<Rightarrow> int \<Rightarrow> task_request \<Rightarrow> dstate \<Rightarrow> (doc_error + string) \<times> dstate" where
  "enqueue_task ps gen now rq s =
     (let task = gen s;
          pending = resolve_ng_for_task ps (rq_type rq) (rq_algos rq) (rq_ng_names rq);
          s = mark_pending rq pending (begin_task now task rq s)
      in if pending \<noteq> None \<and> create_parser_task ps task (rq_type rq) (rq_path rq) then (Inr task, s)
         else (Inl OtherError, fail_submission (ps_message ps) now task rq s))"

text \<open>A cancellation is answered with a code; only a waiting task can be cancelled.\<close>

definition cancel_task_doc :: "parser \<Rightarrow> string \<Rightarrow> int \<Rightarrow> string \<Rightarrow> dstate \<Rightarrow> int \<times> dstate" where
  "cancel_task_doc ps cid now task s =
     (case d_tasks s task of
        None \<Rightarrow> (404, s)
      | Some t \<Rightarrow>
          if dt_status t \<noteq> Waiting then (409, s)
          else (case ps_cancel ps task of (code, ok) \<Rightarrow>
            if code \<noteq> 200 then (code, s)
            else if \<not> ok then (409, s)
            else (200, snd (on_task_callback now
              \<lparr>cb_id = cid, cb_task = task, cb_event = Finish, cb_status = Canceled, cb_error = (None, None), cb_payload = None\<rparr> s))))"

section \<open>Upload\<close>

definition unique_doc_ids :: "string list \<Rightarrow> doc_error + unit" where
  "unique_doc_ids ds = (if distinct ds then Inr () else Inl InvalidParam)"

fun assert_uploads :: "string \<Rightarrow> string list \<Rightarrow> dstate \<Rightarrow> doc_error + unit" where
  "assert_uploads kb [] s = Inr ()"
| "assert_uploads kb (doc # ds) s =
     (case (if (kb, doc) \<in> set (d_rels s) then assert_action_allowed doc kb ''upload'' s else Inr ()) of
        Inl e \<Rightarrow> Inl e
      | Inr _ \<Rightarrow> assert_uploads kb ds s)"

text \<open>The files exist; an item is its document and path. A task that is refused does not stop the others.\<close>

definition plain_request :: "string \<Rightarrow> string \<Rightarrow> task_type \<Rightarrow> string list \<Rightarrow> task_request" where
  "plain_request doc kb ty algos =
     \<lparr>rq_doc = doc, rq_kb = kb, rq_type = ty, rq_algos = algos, rq_ng_names = None, rq_path = None, rq_idem = None,
      rq_priority = 0, rq_message = no_message\<rparr>"

fun upload_loop ::
    "parser \<Rightarrow> (dstate \<Rightarrow> string) \<Rightarrow> int \<Rightarrow> string \<Rightarrow> string list \<Rightarrow> string option \<Rightarrow> (string \<times> string) list \<Rightarrow> dstate \<Rightarrow>
     (string \<times> bool) list \<times> dstate" where
  "upload_loop ps gen now kb algos idem [] s = ([], s)"
| "upload_loop ps gen now kb algos idem ((doc, path) # items) s =
     (let s = upsert_doc_and_bind kb doc Success s
      in case enqueue_task ps gen now ((plain_request doc kb DocAdd algos)\<lparr>rq_path := Some path, rq_idem := idem\<rparr>) s of
           (r, s) \<Rightarrow>
             (case upload_loop ps gen now kb algos idem items s of
                (out, s) \<Rightarrow> ((doc, case r of Inl _ \<Rightarrow> False | Inr _ \<Rightarrow> True) # out, s)))"

definition upload_docs ::
    "parser \<Rightarrow> (dstate \<Rightarrow> string) \<Rightarrow> int \<Rightarrow> string \<Rightarrow> string option \<Rightarrow> (string \<times> string) list \<Rightarrow> dstate \<Rightarrow>
     (doc_error + (string \<times> bool) list) \<times> dstate" where
  "upload_docs ps gen now kb idem items s =
     (case get_kb_algorithms kb s of
        Inl e \<Rightarrow> (Inl e, s)
      | Inr algos \<Rightarrow>
          (case unique_doc_ids (map fst items) of
             Inl e \<Rightarrow> (Inl e, s)
           | Inr _ \<Rightarrow>
               (case assert_uploads kb (map fst items) s of
                  Inl e \<Rightarrow> (Inl e, s)
                | Inr _ \<Rightarrow> (case upload_loop ps gen now kb algos idem items s of (out, s) \<Rightarrow> (Inr out, s)))))"

section \<open>Deletion of documents\<close>

datatype delete_item = NoopItem string doc_status "string option" | ExecuteItem string

fun prepare_delete_items :: "string \<Rightarrow> string list \<Rightarrow> dstate \<Rightarrow> doc_error + delete_item list" where
  "prepare_delete_items kb [] s = Inr []"
| "prepare_delete_items kb (doc # ds) s =
     (case get_parse_snapshot doc kb s of
        Some sn \<Rightarrow>
          if sn_status sn \<in> {Deleting, Deleted} then
            (case prepare_delete_items kb ds s of Inl e \<Rightarrow> Inl e | Inr r \<Rightarrow> Inr (NoopItem doc (sn_status sn) (sn_task sn) # r))
          else if d_docs s doc = None \<or> (kb, doc) \<notin> set (d_rels s) then Inl NotFound
          else (case prepare_delete_items kb ds s of Inl e \<Rightarrow> Inl e | Inr r \<Rightarrow> Inr (ExecuteItem doc # r))
      | None \<Rightarrow>
          if d_docs s doc = None \<or> (kb, doc) \<notin> set (d_rels s) then Inl NotFound
          else (case prepare_delete_items kb ds s of Inl e \<Rightarrow> Inl e | Inr r \<Rightarrow> Inr (ExecuteItem doc # r)))"

text \<open>Whether a task is needed, and the task that was cancelled instead.\<close>

definition check_doc_for_delete ::
    "parser \<Rightarrow> string \<Rightarrow> int \<Rightarrow> string \<Rightarrow> string \<Rightarrow> dstate \<Rightarrow> (doc_error + (bool \<times> string option)) \<times> dstate" where
  "check_doc_for_delete ps cid now doc kb s =
     (case get_parse_snapshot doc kb s of
        None \<Rightarrow> (Inr (False, None), s)
      | Some sn \<Rightarrow>
          if sn_status sn = Working then (Inl StateConflict, s)
          else if sn_status sn = Waiting \<and> sn_type sn = Some DocAdd \<and> sn_task sn \<notin> {None, Some ''''} then
            (case cancel_task_doc ps cid now (the (sn_task sn)) s of
               (code, s) \<Rightarrow> if code \<noteq> 200 then (Inl StateConflict, s) else (Inr (False, sn_task sn), s))
          else (Inr (sn_status sn \<notin> {Deleted, Canceled}, None), s))"

definition mark_deleting :: "string \<Rightarrow> dstate \<Rightarrow> (doc_error + unit) \<times> dstate" where
  "mark_deleting doc s =
     (case d_docs s doc of
        None \<Rightarrow> (Inl OtherError, s)
      | Some _ \<Rightarrow> (Inr (), if doc_relation_count doc s \<le> 1 then s\<lparr>d_docs := (d_docs s)(doc \<mapsto> Deleting)\<rparr> else s))"

text \<open>One document of the request: the task and the status of the answer.\<close>

definition delete_one ::
    "parser \<Rightarrow> (dstate \<Rightarrow> string) \<Rightarrow> (dstate \<Rightarrow> string) \<Rightarrow> int \<Rightarrow> string \<Rightarrow> string list \<Rightarrow> string option \<Rightarrow> delete_item \<Rightarrow> dstate \<Rightarrow>
     (doc_error + (string \<times> string option \<times> doc_status)) \<times> dstate" where
  "delete_one ps gen cids now kb algos idem item s =
     (case item of
        NoopItem doc st task \<Rightarrow> (Inr (doc, task, st), s)
      | ExecuteItem doc \<Rightarrow>
          (case check_doc_for_delete ps (cids s) now doc kb s of
             (Inl e, s) \<Rightarrow> (Inl e, s)
           | (Inr (needed, canceled), s) \<Rightarrow>
               if \<not> needed \<and> canceled \<noteq> None
               then (Inr (doc, canceled, Canceled), purge_deleted_kb_doc_data kb doc True s)
               else
                 (case mark_deleting doc s of
                    (Inl e, s) \<Rightarrow> (Inl e, s)
                  | (Inr _, s) \<Rightarrow>
                      (case enqueue_task ps gen now ((plain_request doc kb DocDelete algos)\<lparr>rq_idem := idem\<rparr>) s of
                         (Inl e, s) \<Rightarrow> (Inl e, s)
                       | (Inr task, s) \<Rightarrow>
                           (Inr (doc, Some task, case get_parse_snapshot doc kb s of None \<Rightarrow> Deleting | Some sn \<Rightarrow> sn_status sn), s)))))"

fun delete_loop ::
    "('i \<Rightarrow> dstate \<Rightarrow> (doc_error + 'a) \<times> dstate) \<Rightarrow> 'i list \<Rightarrow> dstate \<Rightarrow> (doc_error + 'a list) \<times> dstate" where
  "delete_loop f [] s = (Inr [], s)"
| "delete_loop f (x # xs) s =
     (case f x s of
        (Inl e, s) \<Rightarrow> (Inl e, s)
      | (Inr a, s) \<Rightarrow> (case delete_loop f xs s of (Inl e, s) \<Rightarrow> (Inl e, s) | (Inr as, s) \<Rightarrow> (Inr (a # as), s)))"

definition delete_docs ::
    "parser \<Rightarrow> (dstate \<Rightarrow> string) \<Rightarrow> (dstate \<Rightarrow> string) \<Rightarrow> int \<Rightarrow> string \<Rightarrow> string option \<Rightarrow> string list \<Rightarrow> dstate \<Rightarrow>
     (doc_error + (string \<times> string option \<times> doc_status) list) \<times> dstate" where
  "delete_docs ps gen cids now kb idem docs s =
     (case get_kb_algorithms kb s of
        Inl e \<Rightarrow> (Inl e, s)
      | Inr algos \<Rightarrow>
          (case unique_doc_ids docs of
             Inl e \<Rightarrow> (Inl e, s)
           | Inr _ \<Rightarrow>
               (case prepare_delete_items kb docs s of
                  Inl e \<Rightarrow> (Inl e, s)
                | Inr items \<Rightarrow> delete_loop (delete_one ps gen cids now kb algos idem) items s)))"

section \<open>Bases\<close>

definition create_kb :: "(string \<Rightarrow> bool) \<Rightarrow> string \<Rightarrow> string \<Rightarrow> dstate \<Rightarrow> (doc_error + unit) \<times> dstate" where
  "create_kb known kb algo s =
     (if kb = '''' then (Inl InvalidParam, s)
      else if d_kbs s kb \<noteq> None then (Inl StateConflict, s)
      else if \<not> known algo then (Inl InvalidParam, s)
      else (Inr (), ensure_kb_algorithm kb algo (ensure_kb kb s)))"

datatype kb_item = PurgeLocal string | ReuseDelete string string | EnqueueDelete string string

fun prepare_kb_items :: "string \<Rightarrow> string list \<Rightarrow> string list \<Rightarrow> dstate \<Rightarrow> doc_error + kb_item list" where
  "prepare_kb_items kb algos [] s = Inr []"
| "prepare_kb_items kb algos (doc # ds) s =
     (case (case get_parse_snapshot doc kb s of
              None \<Rightarrow> Inr [PurgeLocal doc]
            | Some sn \<Rightarrow>
                if sn_status sn = Deleted then Inr [PurgeLocal doc]
                else if sn_status sn \<in> {Waiting, Working} then
                  (if sn_type sn = Some DocDelete \<and> sn_task sn \<notin> {None, Some ''''}
                   then Inr [ReuseDelete doc (the (sn_task sn))] else Inl StateConflict)
                else Inr (map (EnqueueDelete doc) algos)) of
        Inl e \<Rightarrow> Inl e
      | Inr xs \<Rightarrow> (case prepare_kb_items kb algos ds s of Inl e \<Rightarrow> Inl e | Inr ys \<Rightarrow> Inr (xs @ ys)))"

definition prepare_kb_delete_items :: "string \<Rightarrow> dstate \<Rightarrow> doc_error + kb_item list" where
  "prepare_kb_delete_items kb s =
     (case d_kbs s kb of
        None \<Rightarrow> Inl NotFound
      | Some _ \<Rightarrow>
          (case get_kb_algorithms kb s of
             Inl e \<Rightarrow> Inl e
           | Inr algos \<Rightarrow> prepare_kb_items kb algos (list_kb_doc_ids kb s) s))"

definition delete_kb_item ::
    "parser \<Rightarrow> (dstate \<Rightarrow> string) \<Rightarrow> int \<Rightarrow> string \<Rightarrow> kb_item \<Rightarrow> dstate \<Rightarrow> (doc_error + string list) \<times> dstate" where
  "delete_kb_item ps gen now kb item s =
     (case item of
        PurgeLocal doc \<Rightarrow> (Inr [], purge_deleted_kb_doc_data kb doc True s)
      | ReuseDelete doc task \<Rightarrow> (Inr [task], mark_task_cleanup_policy task ''purge'' s)
      | EnqueueDelete doc algo \<Rightarrow>
          (case enqueue_task ps gen now
             ((plain_request doc kb DocDelete [algo])\<lparr>rq_message := no_message\<lparr>tm_cleanup_policy := Some ''purge''\<rparr>\<rparr>) s of
             (Inl e, s) \<Rightarrow> (Inl e, s)
           | (Inr task, s) \<Rightarrow> (Inr [task], s)))"

definition set_kb_deleting :: "string \<Rightarrow> dstate \<Rightarrow> dstate" where
  "set_kb_deleting kb s =
     (case d_kbs s kb of None \<Rightarrow> s | Some r \<Rightarrow> s\<lparr>d_kbs := (d_kbs s)(kb \<mapsto> r\<lparr>kb_state := KbDeleting\<rparr>)\<rparr>)"

text \<open>The state of the base in the answer and the tasks that will finish its deletion.\<close>

definition delete_kb ::
    "parser \<Rightarrow> (dstate \<Rightarrow> string) \<Rightarrow> int \<Rightarrow> string \<Rightarrow> dstate \<Rightarrow> (doc_error + (kb_status \<times> string list)) \<times> dstate" where
  "delete_kb ps gen now kb s =
     (if kb = '''' then (Inl InvalidParam, s)
      else case prepare_kb_delete_items kb s of
             Inl e \<Rightarrow> (Inl e, s)
           | Inr items \<Rightarrow>
               (case delete_loop (delete_kb_item ps gen now kb) items s of
                  (Inl e, s) \<Rightarrow> (Inl e, s)
                | (Inr tasks, s) \<Rightarrow>
                    if concat tasks \<noteq> [] then (Inr (KbDeleting, concat tasks), set_kb_deleting kb s)
                    else (Inr (KbDeleted, []), snd (finalize_kb_deletion_if_empty kb s))))"

text \<open>The end of a binding: the groups that another algorithm of the base shares are kept.\<close>

fun shared_ng_ids :: "(string \<Rightarrow> (string \<times> string) list option) \<Rightarrow> string list \<Rightarrow> string list \<Rightarrow> string list option" where
  "shared_ng_ids groups [] cand = Some []"
| "shared_ng_ids groups (a # as) cand =
     (case get_algo_node_group_ids groups a of
        None \<Rightarrow> None
      | Some gs \<Rightarrow> map_option (\<lambda>r. filter (\<lambda>g. g \<in> set gs) cand @ r) (shared_ng_ids groups as cand))"

definition affected_doc_ids :: "string \<Rightarrow> dstate \<Rightarrow> string list" where
  "affected_doc_ids kb s =
     filter (\<lambda>doc. case get_parse_snapshot doc kb s of None \<Rightarrow> False | Some sn \<Rightarrow> sn_status sn \<notin> {Deleted, Deleting})
       (list_kb_doc_ids kb s)"

definition unbind_one ::
    "parser \<Rightarrow> (dstate \<Rightarrow> string) \<Rightarrow> (dstate \<Rightarrow> string) \<Rightarrow> int \<Rightarrow> string \<Rightarrow> string \<Rightarrow> string list \<Rightarrow> (string \<times> snapshot) \<Rightarrow> dstate \<Rightarrow>
     (doc_error + string) \<times> dstate" where
  "unbind_one ps gen cids now kb algo exclusive item s =
     (case item of (doc, sn) \<Rightarrow>
        if sn_status sn = Working then (Inl StateConflict, s)
        else
          (case (if sn_status sn = Waiting \<and> sn_type sn = Some DocAdd \<and> sn_task sn \<notin> {None, Some ''''}
                 then cancel_task_doc ps (cids s) now (the (sn_task sn)) s else (200, s)) of
             (code, s) \<Rightarrow>
               if code \<noteq> 200 then (Inl StateConflict, s)
               else enqueue_task ps gen now
                 ((plain_request doc kb DocDelete [algo])\<lparr>rq_message :=
                    no_message\<lparr>tm_unbind := True, tm_unbind_algo := algo, tm_exclusive_ngs := exclusive\<rparr>\<rparr>) s))"

definition unbind_algo ::
    "parser \<Rightarrow> (dstate \<Rightarrow> string) \<Rightarrow> (dstate \<Rightarrow> string) \<Rightarrow> int \<Rightarrow> string \<Rightarrow> string \<Rightarrow> bool \<Rightarrow> dstate \<Rightarrow>
     (doc_error + (string list \<times> string list)) \<times> dstate" where
  "unbind_algo ps gen cids now kb algo dry_run s =
     (if kb = '''' \<or> algo = '''' then (Inl InvalidParam, s)
      else case validate_kb_algorithm kb algo s of
        (Inl e, s) \<Rightarrow> (Inl e, s)
      | (Inr _, s) \<Rightarrow>
        (case get_kb_algorithms kb s of
           Inl e \<Rightarrow> (Inl e, s)
         | Inr algos \<Rightarrow>
             if length algos \<le> 1 then (Inl StateConflict, s)
             else case get_algo_node_group_ids (ps_groups ps) algo of
               None \<Rightarrow> (Inl OtherError, s)
             | Some all_ngs \<Rightarrow>
               (case shared_ng_ids (ps_groups ps) (filter (\<lambda>a. a \<noteq> algo) algos) all_ngs of
                  None \<Rightarrow> (Inl OtherError, s)
                | Some shared \<Rightarrow>
                    let exclusive = filter (\<lambda>g. g \<notin> set shared) all_ngs;
                        affected = affected_doc_ids kb s
                    in if dry_run then (Inr ([], affected), s)
                       else (case delete_loop (unbind_one ps gen cids now kb algo exclusive)
                                (map (\<lambda>doc. (doc, the (get_parse_snapshot doc kb s))) affected) s of
                               (Inl e, s) \<Rightarrow> (Inl e, s)
                             | (Inr tasks, s) \<Rightarrow>
                                 (Inr (tasks, affected), if tasks = [] then remove_kb_algo_binding kb algo s else s)))))"

section \<open>Steps\<close>

datatype devent =
    CreateKb string string
  | UploadDocs string "(string \<times> string) list"
  | DeleteDocs string "string list"
  | DeleteKb string
  | UnbindAlgo string string
  | CancelTask string
  | TaskCallback callback

inductive dstep :: "parser \<Rightarrow> (dstate \<Rightarrow> string) \<Rightarrow> (dstate \<Rightarrow> string) \<Rightarrow> dstate \<Rightarrow> devent \<Rightarrow> dstate \<Rightarrow> bool"
  for ps gen cids where
  create_kb: "dstep ps gen cids s (CreateKb kb algo) (snd (create_kb known kb algo s))"
| upload: "dstep ps gen cids s (UploadDocs kb items) (snd (upload_docs ps gen now kb idem items s))"
| delete: "dstep ps gen cids s (DeleteDocs kb docs) (snd (delete_docs ps gen cids now kb idem docs s))"
| delete_kb: "dstep ps gen cids s (DeleteKb kb) (snd (delete_kb ps gen now kb s))"
| unbind: "dstep ps gen cids s (UnbindAlgo kb algo) (snd (unbind_algo ps gen cids now kb algo dry_run s))"
| cancel: "dstep ps gen cids s (CancelTask task) (snd (cancel_task_doc ps (cids s) now task s))"
| callback: "dstep ps gen cids s (TaskCallback cb) (snd (on_task_callback now cb s))"

inductive_cases dstepE: "dstep ps gen cids s e s'"

definition initial_state :: dstate where
  "initial_state =
     \<lparr>d_tasks = Map.empty, d_snaps = [], d_docs = Map.empty, d_rels = [], d_kbs = Map.empty, d_algos = [],
      d_ngs = Map.empty, d_callbacks = Map.empty\<rparr>"

inductive dreach :: "parser \<Rightarrow> (dstate \<Rightarrow> string) \<Rightarrow> (dstate \<Rightarrow> string) \<Rightarrow> dstate \<Rightarrow> bool" for ps gen cids where
  init: "dreach ps gen cids initial_state"
| step: "dreach ps gen cids s \<Longrightarrow> dstep ps gen cids s e s' \<Longrightarrow> dreach ps gen cids s'"

end
