(* ===== verification/DocProps.thy ===== *)
theory DocProps
  imports DocActions TaskCallback
begin

text \<open>
  What every reachable state of the document service satisfies, what a callback does in each case, and what a start
  that is delivered after its task has finished does.
\<close>

section \<open>The invariant of the tables\<close>

definition dstate_ok :: "dstate \<Rightarrow> bool" where
  "dstate_ok s \<longleftrightarrow>
     distinct (d_rels s) \<and> distinct (map fst (d_snaps s)) \<and>
     (\<forall>(kb, doc)\<in>set (d_rels s). doc \<in> dom (d_docs s) \<and> kb \<in> dom (d_kbs s)) \<and>
     (\<forall>(kb, algo)\<in>set (d_algos s). kb \<in> dom (d_kbs s)) \<and>
     (\<forall>kb r. d_kbs s kb = Some r \<longrightarrow> kb_docs r = length (list_kb_doc_ids kb s))"

text \<open>An operation that leaves bindings, bases and the set of documents alone.\<close>

definition framed :: "dstate \<Rightarrow> dstate \<Rightarrow> bool" where
  "framed s s' \<longleftrightarrow> d_rels s' = d_rels s \<and> d_kbs s' = d_kbs s \<and> d_algos s' = d_algos s \<and> dom (d_docs s') = dom (d_docs s) \<and>
     (distinct (map fst (d_snaps s)) \<longrightarrow> distinct (map fst (d_snaps s')))"

lemma framed_refl [simp, intro]: "framed s s"
  by (simp add: framed_def)

lemma framed_trans: "framed s s' \<Longrightarrow> framed s' s'' \<Longrightarrow> framed s s''"
  by (simp add: framed_def)

lemma dstate_ok_framed: "framed s s' \<Longrightarrow> dstate_ok s \<Longrightarrow> dstate_ok s'"
  by (simp add: framed_def dstate_ok_def list_kb_doc_ids_def)

named_theorems frames

lemma framed_record_callback [frames]: "framed s (snd (record_callback c t s))"
  by (simp add: framed_def record_callback_def)

lemma framed_forget_callback [frames]: "framed s (forget_callback_record c t s)"
  by (simp add: framed_def forget_callback_record_def)

lemma framed_create_task [frames]: "framed s (create_task_record t ty d k st m s)"
  by (simp add: framed_def create_task_record_def)

lemma framed_update_task [frames]: "framed s (update_task_record t f s)"
  by (simp add: framed_def update_task_record_def split: option.split)

lemma framed_mark_policy [frames]: "framed s (mark_task_cleanup_policy t p s)"
  by (simp add: mark_task_cleanup_policy_def frames)

lemma framed_upload_status [frames]: "framed s (set_doc_upload_status d st s)"
  by (auto simp: framed_def set_doc_upload_status_def split: option.split)

lemma framed_sync [frames]: "framed s (sync_doc_upload_status d s)"
  by (simp add: sync_doc_upload_status_def frames)

lemma framed_apply_status [frames]: "framed s (apply_doc_upload_status d ty st s)"
  by (simp add: apply_doc_upload_status_def frames)

lemma framed_delete_snapshots [frames]: "framed s (delete_parse_snapshots d k s)"
  by (simp add: framed_def delete_parse_snapshots_def distinct_delete)

lemma framed_delete_ng [frames]: "framed s (delete_ng_status d k s)"
  by (simp add: framed_def delete_ng_status_def)

lemma framed_delete_ngs [frames]: "framed s (delete_ng_status_for_groups d k gs s)"
  by (simp add: framed_def delete_ng_status_for_groups_def)

lemma framed_upsert_ng [frames]: "framed s (upsert_ng_status_pending d k gs force s)"
proof (induction gs arbitrary: s)
  case (Cons g gs)
  let ?s = "if \<not> force \<and> d_ngs s (d, k, g) = Some NgSuccess then s else s\<lparr>d_ngs := (d_ngs s)((d, k, g) \<mapsto> NgPending)\<rparr>"
  have "framed s ?s" by (simp add: framed_def)
  from framed_trans [OF this Cons.IH [of ?s]] show ?case by simp
qed simp

lemma framed_upsert_snapshot [frames]: "framed s (upsert_parse_snapshot d k st f s)"
  by (simp add: framed_def upsert_parse_snapshot_def Let_def distinct_update)

lemma framed_update_snapshot [frames]: "framed s (update_snapshot_via d k sn st t f s)"
  by (simp add: update_snapshot_via_def frames)

lemma framed_start [frames]: "framed s (start_callback now cb ty d k sn s)"
  unfolding start_callback_def Let_def
  by (auto intro!: framed_trans [OF framed_update_task framed_update_snapshot]
      framed_trans [OF framed_trans [OF framed_update_task framed_update_snapshot] framed_apply_status])

lemma framed_mark_deleting [frames]: "framed s (snd (mark_deleting d s))"
  by (auto simp: framed_def mark_deleting_def split: option.split)

lemma framed_pending [frames]: "framed s (mark_pending rq p s)"
  by (simp add: mark_pending_def frames split: option.split)

lemma framed_begin_task [frames]: "framed s (begin_task now task rq s)"
  unfolding begin_task_def Let_def by (rule framed_trans [OF framed_create_task framed_upsert_snapshot])

lemma framed_fail_submission [frames]: "framed s (fail_submission msg now task rq s)"
  unfolding fail_submission_def Let_def
  by (rule framed_trans [OF framed_trans [OF framed_update_task framed_update_snapshot] framed_apply_status])

lemma framed_enqueue [frames]: "framed s (snd (enqueue_task ps gen now rq s))"
  using framed_trans [OF framed_begin_task framed_pending]
    framed_trans [OF framed_trans [OF framed_begin_task framed_pending] framed_fail_submission]
  by (simp add: enqueue_task_def Let_def)

section \<open>Operations on bindings and bases\<close>

lemma list_kb_doc_ids_cong: "d_rels s = d_rels s' \<Longrightarrow> list_kb_doc_ids kb s = list_kb_doc_ids kb s'"
  by (simp add: list_kb_doc_ids_def)

text \<open>The count of one base is refreshed; those of the others were right and have not changed.\<close>

definition counts_ok_but :: "string \<Rightarrow> dstate \<Rightarrow> bool" where
  "counts_ok_but kb s \<longleftrightarrow>
     distinct (d_rels s) \<and> distinct (map fst (d_snaps s)) \<and>
     (\<forall>(kb, doc)\<in>set (d_rels s). doc \<in> dom (d_docs s) \<and> kb \<in> dom (d_kbs s)) \<and>
     (\<forall>(kb, algo)\<in>set (d_algos s). kb \<in> dom (d_kbs s)) \<and>
     (\<forall>kb' r. kb' \<noteq> kb \<and> d_kbs s kb' = Some r \<longrightarrow> kb_docs r = length (list_kb_doc_ids kb' s))"

lemma ok_refresh:
  assumes "counts_ok_but kb s"
  shows "dstate_ok (refresh_kb_doc_count kb s)"
proof (cases "d_kbs s kb")
  case None
  have "kb_docs r = length (list_kb_doc_ids kb' s)" if "d_kbs s kb' = Some r" for kb' r
    using assms that None by (cases "kb' = kb") (auto simp: counts_ok_but_def)
  then show ?thesis
    using assms unfolding counts_ok_but_def dstate_ok_def refresh_kb_doc_count_def None option.case by blast
next
  case (Some r)
  then show ?thesis
    using assms by (auto simp: counts_ok_but_def dstate_ok_def refresh_kb_doc_count_def Let_def list_kb_doc_ids_def)
qed

lemma ok_ensure_kb_document:
  assumes "dstate_ok s" and "doc \<in> dom (d_docs s)" and "kb \<in> dom (d_kbs s)"
  shows "dstate_ok (snd (ensure_kb_document kb doc s))"
proof (cases "(kb, doc) \<in> set (d_rels s)")
  case False
  have "counts_ok_but kb (s\<lparr>d_rels := d_rels s @ [(kb, doc)]\<rparr>)"
    using assms False by (auto simp: counts_ok_but_def dstate_ok_def list_kb_doc_ids_def)
  then show ?thesis by (simp add: ensure_kb_document_def False ok_refresh)
qed (simp add: ensure_kb_document_def assms(1))

lemma filter_remove1_other: "\<not> p x \<Longrightarrow> filter p (remove1 x xs) = filter p xs"
  by (induction xs) auto

lemma ok_remove_kb_document:
  assumes "dstate_ok s"
  shows "dstate_ok (snd (remove_kb_document kb doc s))"
proof (cases "(kb, doc) \<in> set (d_rels s)")
  case True
  have "counts_ok_but kb (s\<lparr>d_rels := remove1 (kb, doc) (d_rels s)\<rparr>)"
    using assms by (auto simp: counts_ok_but_def dstate_ok_def list_kb_doc_ids_def filter_remove1_other dest: notin_set_remove1)
  then show ?thesis by (simp add: remove_kb_document_def True ok_refresh)
qed (simp add: remove_kb_document_def assms)

lemma ok_delete_orphan:
  assumes "dstate_ok s"
  shows "dstate_ok (snd (delete_doc_if_orphaned doc s))"
  using assms
  by (auto simp: delete_doc_if_orphaned_def doc_relation_count_def dstate_ok_def list_kb_doc_ids_def filter_empty_conv
      split: option.split)

lemma ok_purge:
  assumes "dstate_ok s"
  shows "dstate_ok (purge_deleted_kb_doc_data kb doc rel s)"
proof -
  let ?r = "if rel then remove_kb_document_and_delete_orphan kb doc s else delete_doc_if_orphaned doc s"
  have "dstate_ok (snd ?r)"
    using ok_delete_orphan [OF assms] ok_delete_orphan [OF ok_remove_kb_document [OF assms]]
    by (simp add: remove_kb_document_and_delete_orphan_def)
  then have "dstate_ok (delete_ng_status doc kb (delete_parse_snapshots doc kb (snd ?r)))"
    by (rule dstate_ok_framed [OF framed_trans [OF framed_delete_snapshots framed_delete_ng]])
  then show ?thesis
    using dstate_ok_framed [OF framed_sync]
    by (simp add: purge_deleted_kb_doc_data_def Let_def case_prod_beta)
qed

lemma ok_remove_binding: "dstate_ok s \<Longrightarrow> dstate_ok (remove_kb_algo_binding kb algo s)"
  by (auto simp: dstate_ok_def remove_kb_algo_binding_def list_kb_doc_ids_def)

lemma ok_finalize: "dstate_ok s \<Longrightarrow> dstate_ok (snd (finalize_kb_deletion_if_empty kb s))"
  by (fastforce simp: dstate_ok_def finalize_kb_deletion_if_empty_def list_kb_doc_ids_def filter_empty_conv)

lemma ok_ensure_kb:
  assumes "dstate_ok s"
  shows "dstate_ok (ensure_kb kb s)" and "kb \<in> dom (d_kbs (ensure_kb kb s))"
proof -
  have "list_kb_doc_ids kb s = []" if "d_kbs s kb = None"
    using assms that by (fastforce simp: dstate_ok_def list_kb_doc_ids_def filter_empty_conv)
  then show "dstate_ok (ensure_kb kb s)"
    using assms by (auto simp: dstate_ok_def ensure_kb_def list_kb_doc_ids_def split: option.split)
  show "kb \<in> dom (d_kbs (ensure_kb kb s))" by (simp add: ensure_kb_def split: option.split)
qed

lemma ok_ensure_algorithm: "dstate_ok s \<Longrightarrow> kb \<in> dom (d_kbs s) \<Longrightarrow> dstate_ok (ensure_kb_algorithm kb algo s)"
  by (auto simp: dstate_ok_def ensure_kb_algorithm_def list_kb_doc_ids_def)

lemma ok_set_deleting: "dstate_ok s \<Longrightarrow> dstate_ok (set_kb_deleting kb s)"
  by (auto simp: dstate_ok_def set_kb_deleting_def list_kb_doc_ids_def split: option.split)

section \<open>Callbacks and requests\<close>

lemma ok_remove_moved:
  assumes "dstate_ok s"
  shows "dstate_ok (remove_moved_source ty st doc kb msg s)"
proof -
  have "dstate_ok (sync_doc_upload_status d (delete_parse_snapshots d k (snd (remove_kb_document k d s))))" for d k
    by (rule dstate_ok_framed [OF framed_trans [OF framed_delete_snapshots framed_sync] ok_remove_kb_document [OF assms]])
  then show ?thesis using assms by (simp add: remove_moved_source_def Let_def split: option.split)
qed

lemma ok_after_deletion:
  assumes "dstate_ok s"
  shows "dstate_ok (after_deletion doc kb msg s)"
proof -
  let ?u = "delete_parse_snapshots doc kb (delete_ng_status_for_groups doc kb (tm_exclusive_ngs msg) s)"
  have u: "dstate_ok ?u"
    by (rule dstate_ok_framed [OF framed_trans [OF framed_delete_ngs framed_delete_snapshots] assms])
  have d: "dstate_ok (delete_ng_status doc kb (snd (remove_kb_document kb doc s)))"
    by (rule dstate_ok_framed [OF framed_delete_ng ok_remove_kb_document [OF assms]])
  show ?thesis
    using ok_purge [OF assms] u d ok_remove_binding [OF u] by (simp add: after_deletion_def Let_def)
qed

lemma ok_record_finish:
  assumes "dstate_ok s"
  shows "dstate_ok (record_finish now cb ty st doc kb msg sn s)"
  unfolding record_finish_def Let_def
  by (rule dstate_ok_framed [OF framed_trans [OF framed_update_task framed_update_snapshot] ok_remove_moved [OF assms]])

lemma ok_finish_callback:
  assumes "dstate_ok s"
  shows "dstate_ok (finish_callback now cb ty doc kb msg sn s)"
proof -
  note 1 = ok_record_finish [OF assms]
  note 2 = ok_after_deletion [OF 1]
  show ?thesis
    unfolding finish_callback_def Let_def
    using 1 2 dstate_ok_framed [OF framed_apply_status 1] dstate_ok_framed [OF framed_apply_status 2]
    by (simp add: ok_finalize)
qed

lemma ok_callback:
  assumes "dstate_ok s"
  shows "dstate_ok (snd (on_task_callback now cb s))"
proof -
  obtain b s1 where r: "record_callback (cb_id cb) (cb_task cb) s = (b, s1)" by fastforce
  then have 1: "dstate_ok s1" using dstate_ok_framed [OF framed_record_callback assms, of "cb_id cb" "cb_task cb"] by simp
  show ?thesis
    using 1 dstate_ok_framed [OF framed_forget_callback 1] dstate_ok_framed [OF framed_start 1] ok_finish_callback [OF 1]
    by (simp add: on_task_callback_def r Let_def split: bool.split option.split prod.split)
qed

lemma ok_cancel: "dstate_ok s \<Longrightarrow> dstate_ok (snd (cancel_task_doc ps cid now task s))"
  by (simp add: cancel_task_doc_def ok_callback split: option.split prod.split)

lemma ok_enqueue: "dstate_ok s \<Longrightarrow> dstate_ok (snd (enqueue_task ps gen now rq s))"
  by (rule dstate_ok_framed [OF framed_enqueue])

lemma ok_delete_loop:
  assumes "\<And>x s. dstate_ok s \<Longrightarrow> dstate_ok (snd (f x s))"
  shows "dstate_ok s \<Longrightarrow> dstate_ok (snd (delete_loop f xs s))"
proof (induction xs arbitrary: s)
  case (Cons x xs)
  obtain r s1 where r: "f x s = (r, s1)" by fastforce
  have "dstate_ok s1" using assms [OF Cons.prems, of x] r by simp
  then show ?case using Cons.IH [of s1] by (auto simp: r split: sum.split prod.split)
qed simp

lemma ok_check_delete: "dstate_ok s \<Longrightarrow> dstate_ok (snd (check_doc_for_delete ps cid now doc kb s))"
  by (simp add: check_doc_for_delete_def case_prod_beta ok_cancel split: option.split)

lemma ok_mark_deleting: "dstate_ok s \<Longrightarrow> dstate_ok (snd (mark_deleting doc s))"
  by (rule dstate_ok_framed [OF framed_mark_deleting])

lemma ok_delete_one:
  assumes "dstate_ok s"
  shows "dstate_ok (snd (delete_one ps gen cids now kb algos idem item s))"
proof (cases item)
  case (ExecuteItem doc)
  obtain r1 s1 where 1: "check_doc_for_delete ps (cids s) now doc kb s = (r1, s1)" by fastforce
  then have ok1: "dstate_ok s1" using ok_check_delete [OF assms, of ps "cids s" now doc kb] by simp
  obtain r2 s2 where 2: "mark_deleting doc s1 = (r2, s2)" by fastforce
  then have ok2: "dstate_ok s2" using ok_mark_deleting [OF ok1, of doc] by simp
  obtain r3 s3 where 3: "enqueue_task ps gen now ((plain_request doc kb DocDelete algos)\<lparr>rq_idem := idem\<rparr>) s2 = (r3, s3)"
    by fastforce
  then have ok3: "dstate_ok s3"
    using ok_enqueue [OF ok2, of ps gen now "(plain_request doc kb DocDelete algos)\<lparr>rq_idem := idem\<rparr>"] by simp
  show ?thesis
    using ok1 ok2 ok3 ok_purge [OF ok1] by (simp add: delete_one_def ExecuteItem 1 2 3 split: sum.split)
qed (simp add: delete_one_def assms)

lemma ok_delete_docs: "dstate_ok s \<Longrightarrow> dstate_ok (snd (delete_docs ps gen cids now kb idem docs s))"
  using ok_delete_loop [of "delete_one ps gen cids now kb algos idem" s for algos, OF ok_delete_one]
  by (simp add: delete_docs_def split: sum.split)

lemma ok_delete_kb_item: "dstate_ok s \<Longrightarrow> dstate_ok (snd (delete_kb_item ps gen now kb item s))"
  by (cases item)
    (simp_all add: delete_kb_item_def case_prod_beta ok_enqueue ok_purge dstate_ok_framed [OF framed_mark_policy] split: sum.split)

lemma ok_delete_kb: "dstate_ok s \<Longrightarrow> dstate_ok (snd (delete_kb ps gen now kb s))"
  using ok_delete_loop [of "delete_kb_item ps gen now kb", OF ok_delete_kb_item]
  by (simp add: delete_kb_def case_prod_beta ok_set_deleting ok_finalize split: sum.split)

lemma ok_unbind_one: "dstate_ok s \<Longrightarrow> dstate_ok (snd (unbind_one ps gen cids now kb algo ex item s))"
  by (simp add: unbind_one_def case_prod_beta ok_cancel ok_enqueue)

lemma ok_validate: "dstate_ok s \<Longrightarrow> dstate_ok (snd (validate_kb_algorithm kb algo s))"
  by (simp add: validate_kb_algorithm_def Let_def ensure_default_kb_def ok_ensure_kb ok_ensure_algorithm
      split: option.split sum.split)

lemma ok_unbind:
  assumes "dstate_ok s"
  shows "dstate_ok (snd (unbind_algo ps gen cids now kb algo dry s))"
proof -
  have loop: "dstate_ok (snd (delete_loop (unbind_one ps gen cids now kb algo ex) items (snd (validate_kb_algorithm kb algo s))))"
    for ex items by (rule ok_delete_loop [OF ok_unbind_one ok_validate [OF assms]])
  show ?thesis
    using assms ok_validate [OF assms] loop
    by (simp add: unbind_algo_def case_prod_beta Let_def ok_remove_binding split: sum.split option.split)
qed

lemma ok_create_kb: "dstate_ok s \<Longrightarrow> dstate_ok (snd (create_kb known kb algo s))"
  by (simp add: create_kb_def ok_ensure_algorithm ok_ensure_kb)

lemma get_kb_algorithms_kb: "dstate_ok s \<Longrightarrow> get_kb_algorithms kb s = Inr algos \<Longrightarrow> kb \<in> dom (d_kbs s)"
  by (fastforce simp: get_kb_algorithms_def Let_def dstate_ok_def filter_empty_conv split: if_splits)

lemma ok_bind: "dstate_ok s \<Longrightarrow> kb \<in> dom (d_kbs s) \<Longrightarrow> dstate_ok (upsert_doc_and_bind kb doc st s)"
  unfolding upsert_doc_and_bind_def
  by (rule ok_ensure_kb_document) (auto simp: dstate_ok_def list_kb_doc_ids_def)

lemma kbs_bind: "kb' \<in> dom (d_kbs s) \<Longrightarrow> kb' \<in> dom (d_kbs (upsert_doc_and_bind kb doc st s))"
  by (auto simp: upsert_doc_and_bind_def ensure_kb_document_def refresh_kb_doc_count_def Let_def split: option.split)

lemma kbs_enqueue: "d_kbs (snd (enqueue_task ps gen now rq s)) = d_kbs s"
  using framed_enqueue [of s ps gen now rq] by (simp add: framed_def)

lemma ok_upload_loop:
  "dstate_ok s \<Longrightarrow> kb \<in> dom (d_kbs s) \<Longrightarrow> dstate_ok (snd (upload_loop ps gen now kb algos idem items s))"
proof (induction items arbitrary: s)
  case (Cons item items)
  obtain doc path where item: "item = (doc, path)" by fastforce
  let ?rq = "(plain_request doc kb DocAdd algos)\<lparr>rq_path := Some path, rq_idem := idem\<rparr>"
  let ?s = "snd (enqueue_task ps gen now ?rq (upsert_doc_and_bind kb doc Success s))"
  have "dstate_ok ?s" by (rule ok_enqueue [OF ok_bind [OF Cons.prems]])
  moreover have "kb \<in> dom (d_kbs ?s)" unfolding kbs_enqueue by (rule kbs_bind [OF Cons.prems(2)])
  ultimately show ?case using Cons.IH [of ?s] by (simp add: item case_prod_beta Let_def)
qed simp

lemma ok_upload: "dstate_ok s \<Longrightarrow> dstate_ok (snd (upload_docs ps gen now kb idem items s))"
  using ok_upload_loop [of s kb] get_kb_algorithms_kb [of s kb]
  by (simp add: upload_docs_def case_prod_beta split: sum.split)

lemma ok_step: "dstep ps gen cids s e s' \<Longrightarrow> dstate_ok s \<Longrightarrow> dstate_ok s'"
  by (cases rule: dstep.cases)
    (auto intro: ok_create_kb ok_upload ok_delete_docs ok_delete_kb ok_unbind ok_cancel ok_callback)

lemma ok_initial: "dstate_ok initial_state"
  by (simp add: dstate_ok_def initial_state_def)

lemma ok_reach: "dreach ps gen cids s \<Longrightarrow> dstate_ok s"
  by (induction rule: dreach.induct) (blast intro: ok_initial ok_step)+

section \<open>Callbacks that were seen\<close>

text \<open>No operation but the recording of a callback touches the table of callbacks.\<close>

named_theorems callbacks_kept

lemma callbacks_tables [callbacks_kept]:
  "d_callbacks (create_task_record t ty d k st m s) = d_callbacks s"
  "d_callbacks (update_task_record t f s) = d_callbacks s"
  "d_callbacks (mark_task_cleanup_policy t p s) = d_callbacks s"
  "d_callbacks (set_doc_upload_status d st s) = d_callbacks s"
  "d_callbacks (refresh_kb_doc_count k s) = d_callbacks s"
  "d_callbacks (delete_parse_snapshots d k s) = d_callbacks s"
  "d_callbacks (delete_ng_status d k s) = d_callbacks s"
  "d_callbacks (delete_ng_status_for_groups d k gs s) = d_callbacks s"
  "d_callbacks (remove_kb_algo_binding k a s) = d_callbacks s"
  "d_callbacks (upsert_parse_snapshot d k st sn s) = d_callbacks s"
  "d_callbacks (ensure_kb k s) = d_callbacks s"
  "d_callbacks (ensure_kb_algorithm k a s) = d_callbacks s"
  "d_callbacks (set_kb_deleting k s) = d_callbacks s"
  "d_callbacks (snd (mark_deleting d s)) = d_callbacks s"
  "d_callbacks (snd (delete_doc_if_orphaned d s)) = d_callbacks s"
  "d_callbacks (snd (finalize_kb_deletion_if_empty k s)) = d_callbacks s"
  by (simp_all add: create_task_record_def update_task_record_def mark_task_cleanup_policy_def set_doc_upload_status_def
      refresh_kb_doc_count_def delete_parse_snapshots_def delete_ng_status_def delete_ng_status_for_groups_def
      remove_kb_algo_binding_def upsert_parse_snapshot_def ensure_kb_def ensure_kb_algorithm_def set_kb_deleting_def
      mark_deleting_def delete_doc_if_orphaned_def finalize_kb_deletion_if_empty_def Let_def split: option.split)

lemma callbacks_ng [callbacks_kept]: "d_callbacks (upsert_ng_status_pending d k gs f s) = d_callbacks s"
  by (induction gs arbitrary: s) simp_all

lemma callbacks_rels [callbacks_kept]:
  "d_callbacks (snd (ensure_kb_document k d s)) = d_callbacks s"
  "d_callbacks (snd (remove_kb_document k d s)) = d_callbacks s"
  "d_callbacks (update_snapshot_via d k sn st t f s) = d_callbacks s"
  "d_callbacks (sync_doc_upload_status d s) = d_callbacks s"
  "d_callbacks (apply_doc_upload_status d ty st s) = d_callbacks s"
  "d_callbacks (upsert_doc_and_bind k d st s) = d_callbacks s"
  "d_callbacks (ensure_default_kb s) = d_callbacks s"
  by (simp_all add: ensure_kb_document_def remove_kb_document_def update_snapshot_via_def sync_doc_upload_status_def
      apply_doc_upload_status_def upsert_doc_and_bind_def ensure_default_kb_def callbacks_kept)

lemma callbacks_purge [callbacks_kept]: "d_callbacks (purge_deleted_kb_doc_data k d r s) = d_callbacks s"
  by (simp add: purge_deleted_kb_doc_data_def remove_kb_document_and_delete_orphan_def case_prod_beta Let_def callbacks_kept)

lemma callbacks_handlers [callbacks_kept]:
  "d_callbacks (start_callback now cb ty d k sn s) = d_callbacks s"
  "d_callbacks (finish_callback now cb ty d k m sn s) = d_callbacks s"
  "d_callbacks (snd (enqueue_task ps gen now rq s)) = d_callbacks s"
  "d_callbacks (snd (validate_kb_algorithm k a s)) = d_callbacks s"
  by (simp_all add: start_callback_def finish_callback_def record_finish_def remove_moved_source_def after_deletion_def
      enqueue_task_def begin_task_def mark_pending_def fail_submission_def validate_kb_algorithm_def Let_def callbacks_kept
      split: option.split sum.split)

lemma callbacks_callback: "d_callbacks s \<subseteq>\<^sub>m d_callbacks (snd (on_task_callback now cb s))"
  by (auto simp: on_task_callback_def record_callback_def forget_callback_record_def Let_def map_le_def callbacks_kept
      split: option.split prod.split)

lemma acknowledged_recorded: "on_task_callback now cb s = (Inr ack, s1) \<Longrightarrow> cb_id cb \<in> dom (d_callbacks s1)"
  by (auto simp: on_task_callback_def record_callback_def Let_def callbacks_kept split: option.splits prod.splits if_splits)

lemma callbacks_cancel: "d_callbacks s \<subseteq>\<^sub>m d_callbacks (snd (cancel_task_doc ps cid now task s))"
  by (simp add: cancel_task_doc_def callbacks_callback split: option.split prod.split)

lemma callbacks_loop:
  assumes "\<And>x s. d_callbacks s \<subseteq>\<^sub>m d_callbacks (snd (f x s))"
  shows "d_callbacks s \<subseteq>\<^sub>m d_callbacks (snd (delete_loop f xs s))"
proof (induction xs arbitrary: s)
  case (Cons x xs)
  show ?case
    using assms [of s x] map_le_trans [OF assms Cons.IH] by (auto simp: case_prod_beta split: sum.split)
qed simp

lemma callbacks_delete_one: "d_callbacks s \<subseteq>\<^sub>m d_callbacks (snd (delete_one ps gen cids now kb algos idem item s))"
proof (cases item)
  case (ExecuteItem doc)
  have "d_callbacks s \<subseteq>\<^sub>m d_callbacks (snd (check_doc_for_delete ps (cids s) now doc kb s))"
    by (simp add: check_doc_for_delete_def case_prod_beta callbacks_cancel split: option.split)
  then show ?thesis by (simp add: delete_one_def ExecuteItem case_prod_beta callbacks_kept split: sum.split)
qed (simp add: delete_one_def)

lemma callbacks_upload_loop: "d_callbacks (snd (upload_loop ps gen now kb algos idem items s)) = d_callbacks s"
  by (induction items arbitrary: s) (auto simp: case_prod_beta Let_def callbacks_kept)

lemma callbacks_delete_kb_item: "d_callbacks s \<subseteq>\<^sub>m d_callbacks (snd (delete_kb_item ps gen now kb item s))"
  by (cases item) (simp_all add: delete_kb_item_def case_prod_beta callbacks_kept split: sum.split)

lemma callbacks_unbind_one: "d_callbacks s \<subseteq>\<^sub>m d_callbacks (snd (unbind_one ps gen cids now kb algo ex item s))"
  by (simp add: unbind_one_def case_prod_beta callbacks_kept callbacks_cancel)

lemma callbacks_unbind: "d_callbacks s \<subseteq>\<^sub>m d_callbacks (snd (unbind_algo ps gen cids now kb algo dry s))"
  using callbacks_loop [of "unbind_one ps gen cids now kb algo ex" "snd (validate_kb_algorithm kb algo s)" for ex, OF callbacks_unbind_one]
  by (simp add: unbind_algo_def case_prod_beta Let_def callbacks_kept split: sum.split option.split)

lemma callbacks_step: "dstep ps gen cids s e s' \<Longrightarrow> dom (d_callbacks s) \<subseteq> dom (d_callbacks s')"
proof (rule map_le_implies_dom_le, cases rule: dstep.cases, assumption)
  fix now kb idem items
  assume "s' = snd (upload_docs ps gen now kb idem items s)"
  then show "d_callbacks s \<subseteq>\<^sub>m d_callbacks s'"
    by (simp add: upload_docs_def case_prod_beta callbacks_upload_loop split: sum.split)
next
  fix now kb idem docs
  assume "s' = snd (delete_docs ps gen cids now kb idem docs s)"
  then show "d_callbacks s \<subseteq>\<^sub>m d_callbacks s'"
    using callbacks_loop [of "delete_one ps gen cids now kb algos idem" s for algos, OF callbacks_delete_one]
    by (simp add: delete_docs_def split: sum.split)
next
  fix now kb
  assume "s' = snd (delete_kb ps gen now kb s)"
  then show "d_callbacks s \<subseteq>\<^sub>m d_callbacks s'"
    using callbacks_loop [of "delete_kb_item ps gen now kb" s, OF callbacks_delete_kb_item]
    by (simp add: delete_kb_def case_prod_beta callbacks_kept split: sum.split)
qed (simp_all add: create_kb_def callbacks_kept callbacks_unbind callbacks_cancel callbacks_callback)

section \<open>A purge\<close>

lemma remove_kb_document_tables:
  "d_rels (snd (remove_kb_document kb doc s)) = remove1 (kb, doc) (d_rels s)"
  "d_docs (snd (remove_kb_document kb doc s)) = d_docs s"
  "dom (d_kbs (snd (remove_kb_document kb doc s))) = dom (d_kbs s)"
  by (auto simp: remove_kb_document_def refresh_kb_doc_count_def Let_def remove1_idem split: option.split)

lemma purge_removes:
  assumes "dstate_ok s" and "s' = purge_deleted_kb_doc_data kb doc True s"
  shows "(kb, doc) \<notin> set (d_rels s')" and "get_parse_snapshot doc kb s' = None" and "\<forall>g. d_ngs s' (doc, kb, g) = None"
    and "d_docs s' doc = (if doc_relation_count doc s' = 0 then None else map_option (\<lambda>_. Success) (d_docs s doc))"
    and "dom (d_kbs s') = dom (d_kbs s)"
proof -
  let ?u = "snd (remove_kb_document kb doc s)"
  have rels: "d_rels s' = d_rels ?u" and kbs: "d_kbs s' = d_kbs ?u"
    unfolding assms(2)
    by (simp_all add: purge_deleted_kb_doc_data_def remove_kb_document_and_delete_orphan_def delete_doc_if_orphaned_def
        delete_ng_status_def delete_parse_snapshots_def sync_doc_upload_status_def set_doc_upload_status_def Let_def
        split: option.split)
  show "(kb, doc) \<notin> set (d_rels s')"
    using assms(1) by (simp add: rels remove_kb_document_tables dstate_ok_def set_remove1_eq)
  show "dom (d_kbs s') = dom (d_kbs s)" by (simp only: kbs remove_kb_document_tables)
  show "get_parse_snapshot doc kb s' = None" and "\<forall>g. d_ngs s' (doc, kb, g) = None"
    unfolding assms(2)
    by (simp_all add: purge_deleted_kb_doc_data_def remove_kb_document_and_delete_orphan_def case_prod_beta
        delete_ng_status_def delete_parse_snapshots_def sync_doc_upload_status_def set_doc_upload_status_def Let_def
        get_parse_snapshot_def delete_conv' split: option.split)
  have count: "doc_relation_count doc s' = doc_relation_count doc ?u" by (simp add: doc_relation_count_def rels)
  show "d_docs s' doc = (if doc_relation_count doc s' = 0 then None else map_option (\<lambda>_. Success) (d_docs s doc))"
    unfolding count unfolding assms(2)
    by (simp add: purge_deleted_kb_doc_data_def remove_kb_document_and_delete_orphan_def delete_doc_if_orphaned_def
        delete_ng_status_def delete_parse_snapshots_def sync_doc_upload_status_def set_doc_upload_status_def Let_def
        doc_relation_count_def remove_kb_document_tables split: option.split)
qed

lemma finalize_tables:
  "d_rels (snd (finalize_kb_deletion_if_empty kb s)) = d_rels s"
  "get_parse_snapshot d k (snd (finalize_kb_deletion_if_empty kb s)) = get_parse_snapshot d k s"
  "d_ngs (snd (finalize_kb_deletion_if_empty kb s)) = d_ngs s"
  "d_docs (snd (finalize_kb_deletion_if_empty kb s)) = d_docs s"
  "doc_relation_count d (snd (finalize_kb_deletion_if_empty kb s)) = doc_relation_count d s"
  "list_kb_doc_ids k (snd (finalize_kb_deletion_if_empty kb s)) = list_kb_doc_ids k s"
  by (simp_all add: finalize_kb_deletion_if_empty_def get_parse_snapshot_def doc_relation_count_def list_kb_doc_ids_def)

lemma finalize_kb:
  assumes "list_kb_doc_ids kb s \<noteq> [] \<Longrightarrow> d_kbs s kb \<noteq> None" and "s' = snd (finalize_kb_deletion_if_empty kb s)"
  shows "if list_kb_doc_ids kb s' = [] then d_kbs s' kb = None \<and> kb \<notin> fst ` set (d_algos s') else d_kbs s' kb \<noteq> None"
proof (cases "list_kb_doc_ids kb s = []")
  case True
  then show ?thesis
    by (simp only: assms(2) finalize_tables if_True) (auto simp: finalize_kb_deletion_if_empty_def)
next
  case False
  then show ?thesis
    using assms(1) by (simp only: assms(2) finalize_tables if_False) (simp add: finalize_kb_deletion_if_empty_def)
qed

lemma bound_kb_known: "dstate_ok s \<Longrightarrow> list_kb_doc_ids kb s \<noteq> [] \<Longrightarrow> d_kbs s kb \<noteq> None"
  by (fastforce simp: dstate_ok_def list_kb_doc_ids_def filter_empty_conv)

section \<open>Properties\<close>

text \<open>
  C5. In every state that requests and callbacks lead to, in any order and with any answers of the parser service,
  bindings are unique, a bound document and its base have their rows, an algorithm is bound to a base that has one, and
  the document count of every base is the number of its documents.
\<close>

theorem doc_tables_consistent:
  assumes "dreach ps gen cids s"
  shows "distinct (d_rels s) \<and> list_all (\<lambda>(kb, doc). d_docs s doc \<noteq> None \<and> d_kbs s kb \<noteq> None) (d_rels s) \<and>
    list_all (\<lambda>(kb, algo). d_kbs s kb \<noteq> None) (d_algos s) \<and>
    (case d_kbs s kb of None \<Rightarrow> list_kb_doc_ids kb s = [] | Some r \<Rightarrow> kb_docs r = length (list_kb_doc_ids kb s))"
proof -
  have "dstate_ok s" by (rule ok_reach [OF assms])
  then show ?thesis
    by (fastforce simp: dstate_ok_def list_all_iff list_kb_doc_ids_def filter_empty_conv split: option.split)
qed

definition accepting :: parser where
  "accepting = \<lparr>ps_submit = (\<lambda>_ _. True), ps_cancel = (\<lambda>_. (200, True)), ps_groups = (\<lambda>_. Some [(''g'', ''1'')]),
     ps_message = ''''\<rparr>"

definition ex_gen :: "dstate \<Rightarrow> string" where
  "ex_gen s = (if d_tasks s ''t'' = None then ''t'' else ''u'')"

definition ex_state :: dstate where
  "ex_state = snd (upload_docs accepting ex_gen 0 ''k'' None [(''d'', ''p'')] (snd (create_kb (\<lambda>_. True) ''k'' ''a'' initial_state)))"

lemma ex_state_reach: "dreach accepting ex_gen (\<lambda>s. ''c'') ex_state"
  unfolding ex_state_def by (rule dreach.step [OF dreach.step [OF dreach.init dstep.create_kb] dstep.upload])

theorem doc_tables_consistent_witness:
  "case d_kbs ex_state ''k'' of None \<Rightarrow> list_kb_doc_ids ''k'' ex_state = []
   | Some r \<Rightarrow> kb_docs r = length (list_kb_doc_ids ''k'' ex_state)"
proof -
  from doc_tables_consistent [OF ex_state_reach, of "''k''"] show ?thesis by blast
qed

text \<open>
  C20. Callbacks take effect once: after a callback was acknowledged, whatever requests and other callbacks follow,
  delivering it again is answered as a duplicate and leaves every table as it is.
\<close>

theorem callback_once:
  assumes "on_task_callback now cb s = (Inr ack, s1)"
    and "(\<lambda>a b. \<exists>e. dstep ps gen cids a e b)\<^sup>*\<^sup>* s1 s2"
  shows "on_task_callback now' cb s2 = (Inr (Ack (Some True) None), s2)"
proof -
  have "cb_id cb \<in> dom (d_callbacks s1)" by (rule acknowledged_recorded [OF assms(1)])
  with assms(2) have "cb_id cb \<in> dom (d_callbacks s2)"
    by (induction rule: rtranclp_induct) (auto dest: callbacks_step)
  then show ?thesis by (simp add: on_task_callback_def record_callback_def)
qed

definition ex_start :: callback where
  "ex_start = \<lparr>cb_id = ''c'', cb_task = ''x'', cb_event = Start, cb_status = Working, cb_error = (None, None), cb_payload = None\<rparr>"

theorem callback_once_witness:
  "on_task_callback 1 ex_start (snd (delete_kb accepting (\<lambda>s. ''t'') 0 ''k'' (initial_state\<lparr>d_callbacks := [''c'' \<mapsto> ''x'']\<rparr>))) =
     (Inr (Ack (Some True) None), snd (delete_kb accepting (\<lambda>s. ''t'') 0 ''k'' (initial_state\<lparr>d_callbacks := [''c'' \<mapsto> ''x'']\<rparr>)))"
proof (rule callback_once [of 0 ex_start initial_state])
  show "on_task_callback 0 ex_start initial_state =
      (Inr (Ack None (Some ''task_not_found'')), initial_state\<lparr>d_callbacks := [''c'' \<mapsto> ''x'']\<rparr>)"
    by (simp add: on_task_callback_def ex_start_def initial_state_def record_callback_def resolve_callback_task_def)
  show "(\<lambda>a b. \<exists>e. dstep accepting (\<lambda>s. ''t'') (\<lambda>s. ''c'') a e b)\<^sup>*\<^sup>* (initial_state\<lparr>d_callbacks := [''c'' \<mapsto> ''x'']\<rparr>)
      (snd (delete_kb accepting (\<lambda>s. ''t'') 0 ''k'' (initial_state\<lparr>d_callbacks := [''c'' \<mapsto> ''x'']\<rparr>)))"
    by (rule r_into_rtranclp) (blast intro: dstep.delete_kb)
qed

text \<open>
  A start that arrives after its task has finished takes the document back to work: once a parse task of a
  document has succeeded, a start of the same task with a callback that was not seen before sets the snapshot and the
  document to working, and from then on every upload, new parse, deletion, transfer or change of metadata is refused.
\<close>

theorem late_start_reopens:
  assumes "d_tasks s task = Some t" and "dt_type t = DocAdd" and "dt_status t \<noteq> Canceled"
    and "get_parse_snapshot (dt_doc t) (dt_kb t) s = Some sn" and "sn_task sn = Some task" and "sn_status sn = Success"
    and "d_docs s (dt_doc t) = Some Success" and "c \<notin> dom (d_callbacks s)"
    and "s' = snd (on_task_callback now
      \<lparr>cb_id = c, cb_task = task, cb_event = normalize_event None Working, cb_status = Working, cb_error = e, cb_payload = p\<rparr> s)"
  shows "map_option sn_status (get_parse_snapshot (dt_doc t) (dt_kb t) s') = Some Working \<and>
    d_docs s' (dt_doc t) = Some Working \<and>
    list_all (\<lambda>a. assert_action_allowed (dt_doc t) (dt_kb t) a s' = Inl StateConflict)
      [''add'', ''upload'', ''reparse'', ''delete'', ''transfer'', ''metadata'']"
proof -
  let ?cb = "\<lparr>cb_id = c, cb_task = task, cb_event = Start, cb_status = Working, cb_error = e, cb_payload = p\<rparr>"
  let ?s = "s\<lparr>d_callbacks := (d_callbacks s)(c \<mapsto> task)\<rparr>"
  have "s' = start_callback now ?cb DocAdd (dt_doc t) (dt_kb t) (Some sn) ?s"
    using assms by (auto simp: on_task_callback_def record_callback_def resolve_callback_task_def normalize_event_def
        get_parse_snapshot_def Let_def dom_def)
  then have "get_parse_snapshot (dt_doc t) (dt_kb t) s' \<noteq> None \<and>
      map_option sn_status (get_parse_snapshot (dt_doc t) (dt_kb t) s') = Some Working \<and> d_docs s' (dt_doc t) = Some Working"
    using assms(1,7)
    by (simp add: start_callback_def update_task_record_def update_snapshot_via_def upsert_parse_snapshot_def Let_def
        build_snapshot_update_def get_parse_snapshot_def apply_doc_upload_status_def set_doc_upload_status_def update_conv)
  then show ?thesis by (simp add: assert_action_allowed_def)
qed

definition ex_done :: dstate where
  "ex_done = snd (on_task_callback 1
     \<lparr>cb_id = ''f'', cb_task = ''t'', cb_event = Finish, cb_status = Success, cb_error = (None, None), cb_payload = None\<rparr> ex_state)"

theorem late_start_reopens_witness:
  "assert_action_allowed ''d'' ''k'' ''delete''
     (snd (on_task_callback 2
        \<lparr>cb_id = ''c'', cb_task = ''t'', cb_event = normalize_event None Working, cb_status = Working, cb_error = (None, None), cb_payload = None\<rparr>
        ex_done)) = Inl StateConflict"
proof -
  have "map_option dt_type (d_tasks ex_done ''t'') = Some DocAdd \<and> map_option dt_doc (d_tasks ex_done ''t'') = Some ''d'' \<and>
      map_option dt_kb (d_tasks ex_done ''t'') = Some ''k'' \<and> map_option dt_status (d_tasks ex_done ''t'') = Some Success"
    by code_simp
  then obtain t where t: "d_tasks ex_done ''t'' = Some t" "dt_type t = DocAdd" "dt_doc t = ''d''" "dt_kb t = ''k''" "dt_status t = Success"
    by auto
  have "map_option sn_task (get_parse_snapshot ''d'' ''k'' ex_done) = Some (Some ''t'') \<and>
      map_option sn_status (get_parse_snapshot ''d'' ''k'' ex_done) = Some Success"
    by code_simp
  then obtain sn where sn: "get_parse_snapshot ''d'' ''k'' ex_done = Some sn" "sn_task sn = Some ''t''" "sn_status sn = Success"
    by auto
  have "d_docs ex_done ''d'' = Some Success" and "d_callbacks ex_done ''c'' = None" by code_simp+
  then show ?thesis
    using late_start_reopens [OF t(1,2) _ _ sn(2,3) _ _ refl, of "''c''" 2 "(None, None)" None] t sn by (simp add: domIff)
qed

text \<open>
  C33. When the parser has deleted a document for the deletion of its base, the callback removes every trace: the
  binding, the snapshot and the states of its node groups; the document's row when no other base holds it, and
  otherwise the document is available there; and the base with its bindings once its last document is gone.
\<close>

theorem purge_completes:
  assumes "dreach ps gen cids s" and "cb_id cb \<notin> dom (d_callbacks s)"
    and "resolve_callback_task cb s = Some (DocDelete, doc, kb, msg, st)" and "st \<noteq> Some Canceled"
    and "tm_cleanup_policy msg = Some ''purge''" and "get_parse_snapshot doc kb s = Some sn" and "sn_task sn = Some (cb_task cb)"
    and "cb_event cb = Finish" and "cb_status cb = Success" and "s' = snd (on_task_callback now cb s)"
  shows "(kb, doc) \<notin> set (d_rels s') \<and> get_parse_snapshot doc kb s' = None \<and> (\<forall>g. d_ngs s' (doc, kb, g) = None) \<and>
    d_docs s' doc = (if doc_relation_count doc s' = 0 then None else map_option (\<lambda>_. Success) (d_docs s doc)) \<and>
    (if list_kb_doc_ids kb s' = [] then d_kbs s' kb = None \<and> kb \<notin> fst ` set (d_algos s') else d_kbs s' kb \<noteq> None)"
proof -
  let ?s = "s\<lparr>d_callbacks := (d_callbacks s)(cb_id cb \<mapsto> cb_task cb)\<rparr>"
  let ?r = "record_finish now cb DocDelete Deleted doc kb msg (Some sn) ?s"
  have r: "d_rels ?r = d_rels s" "d_kbs ?r = d_kbs s" "d_docs ?r = d_docs s" "d_algos ?r = d_algos s"
    by (simp_all add: record_finish_def remove_moved_source_def update_snapshot_via_def upsert_parse_snapshot_def
        update_task_record_def Let_def split: option.split)
  have s': "s' = snd (finalize_kb_deletion_if_empty kb (purge_deleted_kb_doc_data kb doc True ?r))"
    using assms(2-)
    by (simp add: on_task_callback_def record_callback_def resolve_callback_task_def get_parse_snapshot_def Let_def
        finish_callback_def final_status_def after_deletion_def)
  have ok: "dstate_ok ?r"
    using ok_reach [OF assms(1)] by (intro ok_record_finish) (simp add: dstate_ok_def list_kb_doc_ids_def)
  note p = purge_removes [OF ok refl, where kb = kb and doc = doc, unfolded r]
  note f = finalize_kb [OF bound_kb_known [OF ok_purge [OF ok, of kb doc True]] s']
  have "(kb, doc) \<notin> set (d_rels s')" unfolding s' finalize_tables by (rule p(1))
  moreover have "get_parse_snapshot doc kb s' = None" unfolding s' finalize_tables by (rule p(2))
  moreover have "\<forall>g. d_ngs s' (doc, kb, g) = None" unfolding s' finalize_tables by (rule p(3))
  moreover have "d_docs s' doc = (if doc_relation_count doc s' = 0 then None else map_option (\<lambda>_. Success) (d_docs s doc))"
    unfolding s' finalize_tables by (rule p(4))
  ultimately show ?thesis using f by blast
qed

definition ex_deleting :: dstate where
  "ex_deleting = snd (delete_kb accepting ex_gen 2 ''k'' ex_done)"

theorem purge_completes_witness:
  "d_kbs (snd (on_task_callback 3
     \<lparr>cb_id = ''p'', cb_task = ''u'', cb_event = Finish, cb_status = Success, cb_error = (None, None), cb_payload = None\<rparr> ex_deleting))
     ''k'' = None"
proof -
  let ?cb = "\<lparr>cb_id = ''p'', cb_task = ''u'', cb_event = Finish, cb_status = Success, cb_error = (None, None), cb_payload = None\<rparr>"
  let ?msg = "no_message\<lparr>tm_cleanup_policy := Some ''purge''\<rparr>"
  have reach: "dreach accepting ex_gen (\<lambda>s. ''c'') ex_deleting"
    unfolding ex_deleting_def ex_done_def
    by (rule dreach.step [OF dreach.step [OF ex_state_reach dstep.callback] dstep.delete_kb])
  have "resolve_callback_task ?cb ex_deleting = Some (DocDelete, ''d'', ''k'', ?msg, Some Deleting)" by code_simp
  moreover have "map_option sn_task (get_parse_snapshot ''d'' ''k'' ex_deleting) = Some (Some ''u'')" by code_simp
  then obtain sn where "get_parse_snapshot ''d'' ''k'' ex_deleting = Some sn" "sn_task sn = Some ''u''" by auto
  moreover have "d_callbacks ex_deleting ''p'' = None" by code_simp
  moreover have "list_kb_doc_ids ''k'' (snd (on_task_callback 3 ?cb ex_deleting)) = []" by code_simp
  ultimately show ?thesis
    using purge_completes [OF reach, of ?cb "''d''" "''k''" ?msg "Some Deleting" sn _ 3, OF _ _ _ _ _ _ _ _ refl] by (simp add: domIff)
qed

end
