(* ===== verification/JsonText.thy ===== *)
theory JsonText
  imports UText
begin

text \<open>
  The part of Python's \<open>json\<close> that the code relies on: \<open>dumps\<close> with its defaults (\<open>ensure_ascii\<close>, separators
  with a blank) and \<open>loads\<close>, on texts as lists of code points. A number keeps the text it was read from.
\<close>

datatype json =
    JNull
  | JBool bool
  | JNum utext
  | JStr utext
  | JArr "json list"
  | JObj "(utext \<times> json) list"

section \<open>Writing\<close>

definition hex_digit :: "nat \<Rightarrow> nat" where
  "hex_digit n = (if n < 10 then 48 + n else 87 + n)"

definition hex4 :: "nat \<Rightarrow> utext" where
  "hex4 n = [hex_digit (n div 4096 mod 16), hex_digit (n div 256 mod 16), hex_digit (n div 16 mod 16), hex_digit (n mod 16)]"

definition esc_u :: "nat \<Rightarrow> utext" where
  "esc_u n = [92, 117] @ hex4 n"

definition esc_char :: "nat \<Rightarrow> utext" where
  "esc_char c =
     (if c = 34 then [92, 34] else if c = 92 then [92, 92]
      else if c = 10 then [92, 110] else if c = 13 then [92, 114] else if c = 9 then [92, 116]
      else if c = 8 then [92, 98] else if c = 12 then [92, 102]
      else if 32 \<le> c \<and> c \<le> 126 then [c]
      else if c < 65536 then esc_u c
      else esc_u (55296 + (c - 65536) div 1024 mod 1024) @ esc_u (56320 + (c - 65536) mod 1024))"

definition dump_str :: "utext \<Rightarrow> utext" where
  "dump_str s = [34] @ concat (map esc_char s) @ [34]"

fun ujoin :: "utext \<Rightarrow> utext list \<Rightarrow> utext" where
  "ujoin sep [] = []"
| "ujoin sep [x] = x"
| "ujoin sep (x # y # ys) = x @ sep @ ujoin sep (y # ys)"

fun dumps :: "json \<Rightarrow> utext" where
  "dumps JNull = [110, 117, 108, 108]"
| "dumps (JBool True) = [116, 114, 117, 101]"
| "dumps (JBool False) = [102, 97, 108, 115, 101]"
| "dumps (JNum s) = s"
| "dumps (JStr s) = dump_str s"
| "dumps (JArr js) = [91] @ ujoin [44, 32] (map dumps js) @ [93]"
| "dumps (JObj kvs) = [123] @ ujoin [44, 32] (map (\<lambda>kv. dump_str (fst kv) @ [58, 32] @ dumps (snd kv)) kvs) @ [125]"

section \<open>Reading\<close>

definition hex_val :: "nat \<Rightarrow> nat option" where
  "hex_val c = (if 48 \<le> c \<and> c \<le> 57 then Some (c - 48) else if 97 \<le> c \<and> c \<le> 102 then Some (c - 87)
     else if 65 \<le> c \<and> c \<le> 70 then Some (c - 55) else None)"

definition read_hex4 :: "utext \<Rightarrow> (nat \<times> utext) option" where
  "read_hex4 s =
     (case s of
        a # b # c # d # r \<Rightarrow>
          (case (hex_val a, hex_val b, hex_val c, hex_val d) of
             (Some a, Some b, Some c, Some d) \<Rightarrow> Some (4096 * a + 256 * b + 16 * c + d, r)
           | _ \<Rightarrow> None)
      | _ \<Rightarrow> None)"

definition plain_esc :: "nat \<Rightarrow> nat option" where
  "plain_esc e = map_of [(34, 34), (92, 92), (47, 47), (98, 8), (102, 12), (110, 10), (114, 13), (116, 9)] e"

text \<open>An escape after the backslash: the character and the rest; two surrogates in a row are one character.\<close>

definition read_esc :: "utext \<Rightarrow> (nat \<times> utext) option" where
  "read_esc s =
     (case s of
        [] \<Rightarrow> None
      | e # r \<Rightarrow>
          if e = 117 then
            (case read_hex4 r of
               None \<Rightarrow> None
             | Some (u, r') \<Rightarrow>
                 if 55296 \<le> u \<and> u \<le> 56319 then
                   (case r' of
                      b # v # r'' \<Rightarrow>
                        if b = 92 \<and> v = 117 then
                          (case read_hex4 r'' of
                             None \<Rightarrow> None
                           | Some (w, t) \<Rightarrow>
                               if 56320 \<le> w \<and> w \<le> 57343 then Some (65536 + 1024 * (u - 55296) + (w - 56320), t)
                               else Some (u, r'))
                        else Some (u, r')
                    | _ \<Rightarrow> Some (u, r'))
                 else Some (u, r'))
          else (case plain_esc e of None \<Rightarrow> None | Some c \<Rightarrow> Some (c, r)))"

lemma read_hex4_shorter: "read_hex4 s = Some (u, r) \<Longrightarrow> length r < length s"
  by (auto simp: read_hex4_def split: list.splits option.splits)

lemma read_esc_shorter: "read_esc s = Some (u, r) \<Longrightarrow> length r < length s"
  by (fastforce simp: read_esc_def split: list.splits option.splits if_splits prod.splits dest: read_hex4_shorter)

function read_str :: "utext \<Rightarrow> (utext \<times> utext) option" where
  "read_str [] = None"
| "read_str (c # s) =
     (if c = 34 then Some ([], s)
      else if c = 92 then
        (case read_esc s of
           None \<Rightarrow> None
         | Some (d, r) \<Rightarrow> map_option (\<lambda>(t, r). (d # t, r)) (read_str r))
      else if c < 32 then None
      else map_option (\<lambda>(t, r). (c # t, r)) (read_str s))"
  by pat_completeness auto
termination by (relation "measure length") (auto dest: read_esc_shorter)

definition json_space :: "nat \<Rightarrow> bool" where
  "json_space c \<longleftrightarrow> c \<in> {32, 9, 10, 13}"

definition skip_ws :: "utext \<Rightarrow> utext" where
  "skip_ws s = dropWhile json_space s"

definition take_prefix :: "utext \<Rightarrow> utext \<Rightarrow> utext option" where
  "take_prefix p s = (if take (length p) s = p then Some (drop (length p) s) else None)"

text \<open>\<open>-?(0|[1-9]\d*)(\.\d+)?([eE][-+]?\d+)?\<close>: the text of the number and the rest.\<close>

definition opt_part :: "(utext \<Rightarrow> utext option) \<Rightarrow> utext \<Rightarrow> utext" where
  "opt_part p s = (case p s of None \<Rightarrow> s | Some r \<Rightarrow> r)"

definition skip_digits :: "utext \<Rightarrow> utext option" where
  "skip_digits s = map_option snd (digits_run s)"

definition skip_int :: "utext \<Rightarrow> utext option" where
  "skip_int s = (case s of c # r \<Rightarrow> if c = 48 then Some r else skip_digits s | [] \<Rightarrow> None)"

definition read_num :: "utext \<Rightarrow> (utext \<times> utext) option" where
  "read_num s =
     (case skip_int (case s of c # r \<Rightarrow> if c = 45 then r else s | [] \<Rightarrow> []) of
        None \<Rightarrow> None
      | Some r \<Rightarrow>
          let r = opt_part (\<lambda>s. case s of c # t \<Rightarrow> if c = 46 then skip_digits t else None | [] \<Rightarrow> None) r;
              r = opt_part (\<lambda>s. case s of
                     c # t \<Rightarrow> if c \<in> {69, 101}
                              then skip_digits (case t of d # t' \<Rightarrow> if d \<in> {43, 45} then t' else t | [] \<Rightarrow> []) else None
                   | [] \<Rightarrow> None) r
          in Some (take (length s - length r) s, r))"

text \<open>\<open>NaN\<close>, \<open>Infinity\<close> and \<open>-Infinity\<close>, which the module reads too.\<close>

definition read_word :: "utext \<Rightarrow> utext \<Rightarrow> (utext \<times> utext) option" where
  "read_word w s = map_option (Pair w) (take_prefix w s)"

definition read_number :: "utext \<Rightarrow> (utext \<times> utext) option" where
  "read_number s =
     (case read_num s of Some x \<Rightarrow> Some x | None \<Rightarrow>
     (case read_word [78, 97, 78] s of Some x \<Rightarrow> Some x | None \<Rightarrow>
     (case read_word [73, 110, 102, 105, 110, 105, 116, 121] s of Some x \<Rightarrow> Some x | None \<Rightarrow>
        read_word [45, 73, 110, 102, 105, 110, 105, 116, 121] s)))"

text \<open>The key of a member with its colon.\<close>

definition read_key :: "utext \<Rightarrow> (utext \<times> utext) option" where
  "read_key s =
     (case s of
        [] \<Rightarrow> None
      | c # r \<Rightarrow>
          if c \<noteq> 34 then None
          else (case read_str r of
                  None \<Rightarrow> None
                | Some (k, r) \<Rightarrow>
                    (case skip_ws r of [] \<Rightarrow> None | d # r \<Rightarrow> if d = 58 then Some (k, skip_ws r) else None)))"

fun read_value :: "nat \<Rightarrow> utext \<Rightarrow> (json \<times> utext) option"
  and read_items :: "nat \<Rightarrow> utext \<Rightarrow> (json list \<times> utext) option"
  and read_members :: "nat \<Rightarrow> utext \<Rightarrow> ((utext \<times> json) list \<times> utext) option" where
  "read_value 0 s = None"
| "read_value (Suc n) s =
     (case s of
        [] \<Rightarrow> None
      | c # r \<Rightarrow>
          if c = 34 then map_option (\<lambda>(t, r). (JStr t, r)) (read_str r)
          else if c = 91 then
            (case skip_ws r of
               [] \<Rightarrow> None
             | d # r' \<Rightarrow> if d = 93 then Some (JArr [], r') else map_option (\<lambda>(js, r). (JArr js, r)) (read_items n (d # r')))
          else if c = 123 then
            (case skip_ws r of
               [] \<Rightarrow> None
             | d # r' \<Rightarrow> if d = 125 then Some (JObj [], r')
                         else map_option (\<lambda>(kvs, r). (JObj (dict_of kvs), r)) (read_members n (d # r')))
          else
            (case take_prefix [110, 117, 108, 108] s of Some r \<Rightarrow> Some (JNull, r) | None \<Rightarrow>
            (case take_prefix [116, 114, 117, 101] s of Some r \<Rightarrow> Some (JBool True, r) | None \<Rightarrow>
            (case take_prefix [102, 97, 108, 115, 101] s of Some r \<Rightarrow> Some (JBool False, r) | None \<Rightarrow>
               map_option (\<lambda>(t, r). (JNum t, r)) (read_number s)))))"
| "read_items 0 s = None"
| "read_items (Suc n) s =
     (case read_value n s of
        None \<Rightarrow> None
      | Some (j, r) \<Rightarrow>
          (case skip_ws r of
             [] \<Rightarrow> None
           | d # r \<Rightarrow>
               if d = 93 then Some ([j], r)
               else if d = 44 then map_option (\<lambda>(js, r). (j # js, r)) (read_items n (skip_ws r))
               else None))"
| "read_members 0 s = None"
| "read_members (Suc n) s =
     (case read_key s of
        None \<Rightarrow> None
      | Some (k, r) \<Rightarrow>
          (case read_value n r of
             None \<Rightarrow> None
           | Some (j, r) \<Rightarrow>
               (case skip_ws r of
                  [] \<Rightarrow> None
                | d # r \<Rightarrow>
                    if d = 125 then Some ([(k, j)], r)
                    else if d = 44 then map_option (\<lambda>(kvs, r). ((k, j) # kvs, r)) (read_members n (skip_ws r))
                    else None)))"

definition loads :: "utext \<Rightarrow> json option" where
  "loads s =
     (case read_value (Suc (2 * length s)) (skip_ws s) of
        None \<Rightarrow> None
      | Some (j, r) \<Rightarrow> if skip_ws r = [] then Some j else None)"

section \<open>The fuel is enough\<close>

lemma read_str_shorter: "read_str s = Some (t, r) \<Longrightarrow> length r < length s"
proof (induction s arbitrary: t r rule: read_str.induct)
  case (2 c s)
  then show ?case
    by (fastforce split: if_splits option.splits prod.splits dest: read_esc_shorter)
qed simp

lemma skip_ws_length: "length (skip_ws s) \<le> length s"
  by (simp add: skip_ws_def length_dropWhile_le)

lemma skip_ws_Cons: "skip_ws s = c # r \<Longrightarrow> length r < length s"
  using skip_ws_length [of s] by simp

lemma take_prefix_shorter: "take_prefix p s = Some r \<Longrightarrow> p \<noteq> [] \<Longrightarrow> length r < length s"
  by (cases s) (auto simp: take_prefix_def split: if_splits)

lemma skip_digits_shorter: "skip_digits s = Some r \<Longrightarrow> length r < length s"
  by (auto simp: skip_digits_def dest: digits_run_shorter)

lemma skip_int_shorter: "skip_int s = Some r \<Longrightarrow> length r < length s"
  by (cases s) (auto simp: skip_int_def split: if_splits dest: skip_digits_shorter)

lemma opt_part_length: "(\<And>r. p s = Some r \<Longrightarrow> length r \<le> length s) \<Longrightarrow> length (opt_part p s) \<le> length s"
  by (auto simp: opt_part_def split: option.split)

lemma read_num_shorter: "read_num s = Some (t, r) \<Longrightarrow> length r < length s"
proof -
  assume a: "read_num s = Some (t, r)"
  let ?s = "case s of c # r \<Rightarrow> if c = 45 then r else s | [] \<Rightarrow> []"
  let ?f = "\<lambda>s. case s of c # t \<Rightarrow> if c = 46 then skip_digits t else None | [] \<Rightarrow> None"
  let ?e = "\<lambda>s. case s of
              c # t \<Rightarrow> if c \<in> {69, 101} then skip_digits (case t of d # t' \<Rightarrow> if d \<in> {43, 45} then t' else t | [] \<Rightarrow> []) else None
            | [] \<Rightarrow> None"
  from a obtain r0 where r0: "skip_int ?s = Some r0" and r: "r = opt_part ?e (opt_part ?f r0)"
    by (auto simp: read_num_def Let_def split: option.splits)
  have "length ?s \<le> length s" by (auto split: list.split)
  moreover have "length r0 < length ?s"
    by (rule skip_int_shorter [OF r0])
  moreover have "length (opt_part ?f r0) \<le> length r0"
    by (rule opt_part_length) (auto split: list.splits if_splits dest: skip_digits_shorter)
  moreover have "length (opt_part ?e (opt_part ?f r0)) \<le> length (opt_part ?f r0)"
    by (rule opt_part_length) (fastforce split: list.splits if_splits dest: skip_digits_shorter)
  ultimately show ?thesis by (simp add: r)
qed

lemma read_number_shorter: "read_number s = Some (t, r) \<Longrightarrow> length r < length s"
  by (auto simp: read_number_def read_word_def split: option.splits dest: read_num_shorter take_prefix_shorter)

lemma read_key_shorter:
  assumes "read_key s = Some (k, r)"
  shows "length r < length s"
proof -
  obtain t u v where "s = 34 # t" "read_str t = Some (k, u)" "skip_ws u = 58 # v" "r = skip_ws v"
    using assms by (auto simp: read_key_def split: list.splits if_splits option.splits)
  then show ?thesis using read_str_shorter [of t k u] skip_ws_Cons [of u 58 v] skip_ws_length [of v] by simp
qed

lemma read_shorter:
  "read_value n s = Some (j, r) \<Longrightarrow> length r < length s"
  "read_items n s = Some (js, r) \<Longrightarrow> length r < length s"
  "read_members n s = Some (kvs, r) \<Longrightarrow> length r < length s"
proof (induction n s and n s and n s arbitrary: j r and js r and kvs r rule: read_value_read_items_read_members.induct)
  case (2 n s)
  then show ?case
    apply (simp split: list.splits if_splits option.splits)
    apply (auto dest!: read_str_shorter read_number_shorter take_prefix_shorter skip_ws_Cons)
    apply fastforce+
    done
next
  case (4 n s)
  from "4.prems" obtain j r1 d r2 where 1: "read_value n s = Some (j, r1)" "skip_ws r1 = d # r2"
    "r = r2 \<or> d \<noteq> 93 \<and> d = 44 \<and> (\<exists>js'. read_items n (skip_ws r2) = Some (js', r))"
    by (auto split: option.splits list.splits if_splits)
  have "length r1 < length s" by (rule "4.IH"(1) [OF 1(1)])
  then have 2: "length (skip_ws r2) < length s" "length r2 < length s"
    using skip_ws_Cons [OF 1(2)] skip_ws_length [of r2] by simp_all
  from 1(3) show ?case
  proof
    assume "d \<noteq> 93 \<and> d = 44 \<and> (\<exists>js'. read_items n (skip_ws r2) = Some (js', r))"
    then obtain js' where "d \<noteq> 93" "d = 44" "read_items n (skip_ws r2) = Some (js', r)" by blast
    from "4.IH"(2) [OF 1(1) refl 1(2) this] show ?thesis using 2 by simp
  qed (use 2 in simp)
next
  case (6 n s)
  from "6.prems" obtain k r0 j r1 d r2 where 0: "read_key s = Some (k, r0)" and 1: "read_value n r0 = Some (j, r1)" "skip_ws r1 = d # r2"
    "r = r2 \<or> d \<noteq> 125 \<and> d = 44 \<and> (\<exists>kvs'. read_members n (skip_ws r2) = Some (kvs', r))"
    by (auto split: option.splits list.splits if_splits)
  have "length r1 < length r0" by (rule "6.IH"(1) [OF 0 refl 1(1)])
  then have 2: "length (skip_ws r2) < length s" "length r2 < length s"
    using read_key_shorter [OF 0] skip_ws_Cons [OF 1(2)] skip_ws_length [of r2] by simp_all
  from 1(3) show ?case
  proof
    assume "d \<noteq> 125 \<and> d = 44 \<and> (\<exists>kvs'. read_members n (skip_ws r2) = Some (kvs', r))"
    then obtain kvs' where "d \<noteq> 125" "d = 44" "read_members n (skip_ws r2) = Some (kvs', r)" by blast
    from "6.IH"(2) [OF 0 refl 1(1) refl 1(2) this] show ?thesis using 2 by simp
  qed (use 2 in simp)
qed simp_all

lemma read_fuel:
  "2 * length s < n \<Longrightarrow> 2 * length s < m \<Longrightarrow> read_value n s = read_value m s"
  "2 * length s + 1 < n \<Longrightarrow> 2 * length s + 1 < m \<Longrightarrow> read_items n s = read_items m s"
  "2 * length s + 1 < n \<Longrightarrow> 2 * length s + 1 < m \<Longrightarrow> read_members n s = read_members m s"
proof (induction n s and n s and n s arbitrary: m and m and m rule: read_value_read_items_read_members.induct)
  case (2 n s)
  obtain m' where m: "m = Suc m'" using "2.prems" by (cases m) auto
  have less: "length (d # r') \<le> length r" if "skip_ws r = d # r'" for r r' :: utext and d
    using skip_ws_length [of r] that by simp
  show ?case
  proof (cases s)
    case (Cons c r)
    have "read_items n (d # r') = read_items m' (d # r')" if "c = 91" "skip_ws r = d # r'" "d \<noteq> 93" for d r'
      by (rule "2.IH"(1) [OF Cons _ that(1,2)]) (use that less [OF that(2)] "2.prems" Cons m in auto)
    moreover have "read_members n (d # r') = read_members m' (d # r')" if "c = 123" "skip_ws r = d # r'" "d \<noteq> 125" for d r'
      by (rule "2.IH"(2) [OF Cons _ _ that(1,2)]) (use that less [OF that(2)] "2.prems" Cons m in auto)
    ultimately show ?thesis unfolding m Cons read_value.simps by (simp split: list.split)
  qed (simp add: m)
next
  case (4 n s)
  obtain m' where m: "m = Suc m'" using "4.prems" by (cases m) auto
  have v: "read_value n s = read_value m' s" by (rule "4.IH"(1)) (use "4.prems" m in auto)
  have "read_items n (skip_ws r2) = read_items m' (skip_ws r2)"
    if "read_value n s = Some (j, r1)" "skip_ws r1 = d # r2" "d \<noteq> 93" "d = 44" for j r1 d r2
  proof (rule "4.IH"(2) [OF that(1) refl that(2-)])
    have "length (skip_ws r2) + 2 \<le> length s"
      using read_shorter(1) [OF that(1)] skip_ws_Cons [OF that(2)] skip_ws_length [of r2] by simp
    then show "2 * length (skip_ws r2) + 1 < n" "2 * length (skip_ws r2) + 1 < m'" using "4.prems" m by simp_all
  qed
  then show ?case unfolding m read_items.simps v [symmetric] by (simp split: option.split list.split)
next
  case (6 n s)
  obtain m' where m: "m = Suc m'" using "6.prems" by (cases m) auto
  have v: "read_value n r0 = read_value m' r0" if "read_key s = Some (k, r0)" for k r0
    by (rule "6.IH"(1) [OF that refl]) (use "6.prems" m read_key_shorter [OF that] in auto)
  have "read_members n (skip_ws r2) = read_members m' (skip_ws r2)"
    if "read_key s = Some (k, r0)" "read_value n r0 = Some (j, r1)" "skip_ws r1 = d # r2" "d \<noteq> 125" "d = 44" for k r0 j r1 d r2
  proof (rule "6.IH"(2) [OF that(1) refl that(2) refl that(3-)])
    have "length (skip_ws r2) + 2 \<le> length s"
      using read_key_shorter [OF that(1)] read_shorter(1) [OF that(2)] skip_ws_Cons [OF that(3)] skip_ws_length [of r2] by simp
    then show "2 * length (skip_ws r2) + 1 < n" "2 * length (skip_ws r2) + 1 < m'" using "6.prems" m by simp_all
  qed
  then show ?case unfolding m read_members.simps using v by (simp split: option.split list.split)
qed simp_all

lemma loads_fuel: "2 * length (skip_ws s) < n \<Longrightarrow>
    loads s = (case read_value n (skip_ws s) of None \<Rightarrow> None | Some (j, r) \<Rightarrow> if skip_ws r = [] then Some j else None)"
  unfolding loads_def using read_fuel(1) [of "skip_ws s" "Suc (2 * length s)" n] skip_ws_length [of s] by simp

section \<open>Reading what was written\<close>

definition uchar :: "nat \<Rightarrow> bool" where
  "uchar c \<longleftrightarrow> c < 1114112 \<and> \<not> (55296 \<le> c \<and> c \<le> 57343)"

text \<open>Unicode texts, keys that differ, and no numbers.\<close>

fun json_ok :: "json \<Rightarrow> bool" where
  "json_ok JNull \<longleftrightarrow> True"
| "json_ok (JBool b) \<longleftrightarrow> True"
| "json_ok (JNum s) \<longleftrightarrow> False"
| "json_ok (JStr s) \<longleftrightarrow> list_all uchar s"
| "json_ok (JArr js) \<longleftrightarrow> list_all json_ok js"
| "json_ok (JObj kvs) \<longleftrightarrow> distinct (map fst kvs) \<and> list_all (\<lambda>kv. list_all uchar (fst kv) \<and> json_ok (snd kv)) kvs"

lemma hex_val_digit: "d < 16 \<Longrightarrow> hex_val (hex_digit d) = Some d"
  by (auto simp: hex_val_def hex_digit_def)

lemma read_hex4_digits:
  "a < 16 \<Longrightarrow> b < 16 \<Longrightarrow> c < 16 \<Longrightarrow> d < 16 \<Longrightarrow>
    read_hex4 ([hex_digit a, hex_digit b, hex_digit c, hex_digit d] @ r) = Some (4096 * a + 256 * b + 16 * c + d, r)"
  by (simp add: read_hex4_def hex_val_digit)

lemma read_hex4_hex4: "n < 65536 \<Longrightarrow> read_hex4 (hex4 n @ r) = Some (n, r)"
proof -
  assume n: "n < 65536"
  have m: "n div 4096 mod 16 = n div 4096" using n by (intro mod_less less_mult_imp_div_less) simp
  have "4096 * (n div 4096 mod 16) + 256 * (n div 256 mod 16) + 16 * (n div 16 mod 16) + n mod 16 = n"
  proof -
    note m
    moreover have "n mod 4096 = 256 * (n div 256 mod 16) + n mod 256" using mod_mult2_eq [of n 256 16] by simp
    moreover have "n mod 256 = 16 * (n div 16 mod 16) + n mod 16" using mod_mult2_eq [of n 16 16] by simp
    ultimately show ?thesis using mult_div_mod_eq [of 4096 n] by simp
  qed
  moreover have "n div 4096 mod 16 < 16" "n div 256 mod 16 < 16" "n div 16 mod 16 < 16" "n mod 16 < 16" by simp_all
  ultimately show ?thesis unfolding hex4_def by (metis read_hex4_digits)
qed

lemma read_esc_u: "n < 65536 \<Longrightarrow> \<not> (55296 \<le> n \<and> n \<le> 56319) \<Longrightarrow> read_esc (tl (esc_u n) @ r) = Some (n, r)"
  using read_hex4_hex4 [of n r] by (auto simp: read_esc_def esc_u_def)

lemma read_esc_pair:
  assumes "65536 \<le> c" and "c < 1114112"
  shows "read_esc (tl (esc_u (55296 + (c - 65536) div 1024 mod 1024)) @ esc_u (56320 + (c - 65536) mod 1024) @ r) = Some (c, r)"
proof -
  let ?u = "55296 + (c - 65536) div 1024 mod 1024" and ?w = "56320 + (c - 65536) mod 1024"
  define d where "d = c - 65536"
  have c: "c = 65536 + d" and "d < 1024 * 1024" using assms by (simp_all add: d_def)
  then have "d div 1024 mod 1024 = d div 1024" by (intro mod_less less_mult_imp_div_less)
  then have "65536 + 1024 * (?u - 55296) + (?w - 56320) = c"
    using mult_div_mod_eq [of 1024 d] by (simp add: c)
  moreover have "?u < 65536" "?w < 65536" "?u \<le> 56319" "?w \<le> 57343"
    using mod_less_divisor [of 1024 "(c - 65536) div 1024"] mod_less_divisor [of 1024 "c - 65536"] by linarith+
  ultimately show ?thesis
    using read_hex4_hex4 [of ?u "esc_u ?w @ r"] read_hex4_hex4 [of ?w r]
    by (simp only: read_esc_def esc_u_def) (simp del: mod_mod_trivial)
qed

lemma read_str_Cons:
  assumes "uchar c"
  shows "read_str (esc_char c @ r) = map_option (\<lambda>(t, r). (c # t, r)) (read_str r)"
proof -
  consider "c \<in> {34, 92, 10, 13, 9, 8, 12}" | "32 \<le> c" "c \<le> 126" "c \<noteq> 34" "c \<noteq> 92"
    | "c \<notin> {34, 92, 10, 13, 9, 8, 12}" "\<not> (32 \<le> c \<and> c \<le> 126)" "c < 65536"
    | "65536 \<le> c" "esc_char c = esc_u (55296 + (c - 65536) div 1024 mod 1024) @ esc_u (56320 + (c - 65536) mod 1024)"
    by (cases "c < 65536") (auto simp: esc_char_def)
  then show ?thesis
  proof cases
    case 1
    then show ?thesis by (auto simp: esc_char_def read_esc_def plain_esc_def)
  next
    case 3
    have "read_esc (tl (esc_u c) @ r) = Some (c, r)"
      by (rule read_esc_u) (use assms 3 in \<open>auto simp: uchar_def\<close>)
    moreover have "esc_char c = esc_u c" using 3 by (auto simp: esc_char_def)
    ultimately show ?thesis by (simp add: esc_u_def)
  next
    case 4
    have "c < 1114112" using assms by (simp add: uchar_def)
    from read_esc_pair [OF 4(1) this, of r] show ?thesis unfolding 4(2) by (simp add: esc_u_def)
  qed (auto simp: esc_char_def)
qed

lemma read_str_dump: "list_all uchar s \<Longrightarrow> read_str (tl (dump_str s) @ r) = Some (s, r)"
  by (induction s) (simp_all add: dump_str_def read_str_Cons)

lemma read_key_dump: "list_all uchar k \<Longrightarrow> read_key (dump_str k @ [58, 32] @ r) = Some (k, skip_ws r)"
  using read_str_dump [of k "[58, 32] @ r"]
  by (simp add: read_key_def dump_str_def skip_ws_def json_space_def)

lemma dumps_length: "json_ok j \<Longrightarrow> 2 \<le> length (dumps j)"
  by (cases j rule: dumps.cases) (simp_all add: dump_str_def)

text \<open>What a value starts with: no blank, and no bracket that closes.\<close>

lemma dumps_start: "json_ok j \<Longrightarrow> \<exists>c t. dumps j = c # t \<and> \<not> json_space c \<and> c \<noteq> 93 \<and> c \<noteq> 125"
  by (cases j rule: dumps.cases) (simp_all add: dump_str_def json_space_def)

lemma skip_ws_dumps: "json_ok j \<Longrightarrow> skip_ws (dumps j @ r) = dumps j @ r"
  using dumps_start [of j] by (auto simp: skip_ws_def)

lemma ujoin_Cons: "ujoin sep (x # xs) = x @ (if xs = [] then [] else sep @ ujoin sep xs)"
  by (cases xs) simp_all

lemma read_items_dumps:
  assumes "\<And>j r n. j \<in> set js \<Longrightarrow> length (dumps j) \<le> n \<Longrightarrow> read_value n (dumps j @ r) = Some (j, r)"
    and "list_all json_ok js" and "js \<noteq> []" and "length (ujoin [44, 32] (map dumps js)) < n"
  shows "read_items n (ujoin [44, 32] (map dumps js) @ [93] @ r) = Some (js, r)"
  using assms
proof (induction js arbitrary: n)
  case (Cons j js)
  obtain m where n: "n = Suc m" using Cons.prems(4) by (cases n) auto
  show ?case
  proof (cases "js = []")
    case True
    have "read_value m (dumps j @ 93 # r) = Some (j, 93 # r)"
      by (rule Cons.prems(1)) (use Cons.prems(4) n True in \<open>simp_all\<close>)
    then show ?thesis by (simp add: n True skip_ws_def json_space_def)
  next
    case False
    let ?rest = "ujoin [44, 32] (map dumps js) @ 93 # r"
    have "read_value m (dumps j @ 44 # 32 # ?rest) = Some (j, 44 # 32 # ?rest)"
      by (rule Cons.prems(1)) (use Cons.prems(4) n in \<open>simp_all add: ujoin_Cons\<close>)
    moreover have "read_items m ?rest = Some (js, r)"
      using Cons.IH [of m] Cons.prems False n by (simp add: ujoin_Cons)
    moreover have "skip_ws (32 # ?rest) = ?rest"
      using False Cons.prems(2) dumps_start [of "hd js"] by (cases js) (auto simp: skip_ws_def json_space_def ujoin_Cons)
    ultimately show ?thesis using False by (simp add: n ujoin_Cons skip_ws_def [of "44 # _"] json_space_def)
  qed
qed simp

lemma read_members_dumps:
  assumes "\<And>k j r n. (k, j) \<in> set kvs \<Longrightarrow> length (dumps j) \<le> n \<Longrightarrow> read_value n (dumps j @ r) = Some (j, r)"
    and "list_all (\<lambda>kv. list_all uchar (fst kv) \<and> json_ok (snd kv)) kvs" and "kvs \<noteq> []"
    and "length (ujoin [44, 32] (map (\<lambda>kv. dump_str (fst kv) @ [58, 32] @ dumps (snd kv)) kvs)) < n"
  shows "read_members n (ujoin [44, 32] (map (\<lambda>kv. dump_str (fst kv) @ [58, 32] @ dumps (snd kv)) kvs) @ [125] @ r) = Some (kvs, r)"
  using assms
proof (induction kvs arbitrary: n)
  case (Cons kv kvs)
  obtain m where n: "n = Suc m" using Cons.prems(4) by (cases n) auto
  obtain k j where kv: "kv = (k, j)" by fastforce
  have ok: "list_all uchar k" "json_ok j" using Cons.prems(2) by (simp_all add: kv)
  let ?d = "\<lambda>kv. dump_str (fst kv) @ [58, 32] @ dumps (snd kv)"
  have key: "read_key (dump_str k @ [58, 32] @ dumps j @ t) = Some (k, dumps j @ t)" for t
    using read_key_dump [OF ok(1), of "dumps j @ t"] by (simp add: skip_ws_dumps ok(2))
  show ?case
  proof (cases "kvs = []")
    case True
    have "read_value m (dumps j @ 125 # r) = Some (j, 125 # r)"
      by (rule Cons.prems(1) [of k]) (use Cons.prems(4) n True in \<open>simp_all add: kv\<close>)
    then show ?thesis using key [of "125 # r"] by (simp add: n True kv skip_ws_def json_space_def)
  next
    case False
    let ?rest = "ujoin [44, 32] (map ?d kvs) @ 125 # r"
    have "read_value m (dumps j @ 44 # 32 # ?rest) = Some (j, 44 # 32 # ?rest)"
      by (rule Cons.prems(1) [of k]) (use Cons.prems(4) n in \<open>simp_all add: ujoin_Cons kv\<close>)
    moreover have "read_members m ?rest = Some (kvs, r)"
    proof -
      have "read_value n' (dumps j' @ r') = Some (j', r')" if "(k', j') \<in> set kvs" "length (dumps j') \<le> n'" for k' j' r' n'
        by (rule Cons.prems(1) [of k']) (use that in simp_all)
      from Cons.IH [of m, OF this] show ?thesis using Cons.prems(2,4) False n by (simp add: ujoin_Cons)
    qed
    moreover have "skip_ws (32 # ?rest) = ?rest"
      using False by (cases kvs) (simp_all add: skip_ws_def json_space_def ujoin_Cons dump_str_def)
    ultimately show ?thesis
      using False key [of "44 # 32 # ?rest"] by (simp add: n kv ujoin_Cons skip_ws_def [of "44 # _"] json_space_def)
  qed
qed simp

lemma take_prefix_append: "take_prefix p (p @ r) = Some r"
  by (simp add: take_prefix_def)

text \<open>Whatever follows, reading what was written gives it back, and leaves what follows.\<close>

lemma read_value_dumps: "json_ok j \<Longrightarrow> length (dumps j) \<le> n \<Longrightarrow> read_value n (dumps j @ r) = Some (j, r)"
proof (induction j arbitrary: n r)
  case (JStr s)
  then show ?case using read_str_dump [of s r] by (cases n) (simp_all add: dump_str_def)
next
  case (JArr js)
  obtain m where n: "n = Suc m" using JArr.prems(2) by (cases n) auto
  show ?case
  proof (cases js)
    case (Cons j js')
    obtain c t where c: "dumps j = c # t" "\<not> json_space c" "c \<noteq> 93" using dumps_start [of j] JArr.prems(1) Cons by auto
    have "read_items m (ujoin [44, 32] (map dumps js) @ [93] @ r) = Some (js, r)"
      by (rule read_items_dumps) (use JArr Cons n in \<open>auto simp: list_all_iff\<close>)
    then show ?thesis using c by (simp add: n Cons ujoin_Cons skip_ws_def)
  qed (simp add: n skip_ws_def json_space_def)
next
  case (JObj kvs)
  obtain m where n: "n = Suc m" using JObj.prems(2) by (cases n) auto
  show ?case
  proof (cases kvs)
    case (Cons kv kvs')
    let ?d = "\<lambda>kv. dump_str (fst kv) @ [58, 32] @ dumps (snd kv)"
    have "read_members m (ujoin [44, 32] (map ?d kvs) @ [125] @ r) = Some (kvs, r)"
    proof (rule read_members_dumps)
      fix k j r n
      assume kj: "(k, j) \<in> set kvs" "length (dumps j) \<le> n"
      then have "json_ok j" using JObj.prems(1) by (fastforce simp: list_all_iff)
      then show "read_value n (dumps j @ r) = Some (j, r)"
        by (intro JObj.IH [OF kj(1), of j]) (use kj in simp_all)
    qed (use JObj.prems Cons n in \<open>simp_all\<close>)
    moreover have "dict_of kvs = kvs" using JObj.prems(1) by (intro dict_of_distinct) simp
    ultimately show ?thesis by (simp add: n Cons ujoin_Cons skip_ws_def json_space_def dump_str_def)
  qed (simp add: n skip_ws_def json_space_def)
next
  case JNull
  then show ?case using take_prefix_append [of "[110, 117, 108, 108]" r] by (cases n) simp_all
next
  case (JBool b)
  then show ?case
    using take_prefix_append [of "[116, 114, 117, 101]" r] take_prefix_append [of "[102, 97, 108, 115, 101]" r]
    by (cases n; cases b) (simp_all add: take_prefix_def)
qed simp

theorem loads_dumps: "json_ok j \<Longrightarrow> loads (dumps j) = Some j"
  using read_value_dumps [of j "Suc (2 * length (dumps j))" "[]"] skip_ws_dumps [of j "[]"]
  by (simp add: loads_def skip_ws_def)

end
