(* ===== verification/QueryFiles.thy ===== *)
theory QueryFiles
  imports JsonText
begin

text \<open>
  Queries that carry file paths (\<open>components/formatter/formatterbase.py\<close>): a query with files is one
  string, a prefix and a JSON object. Encoding, decoding, merging, the formatters over them, and the
  rewriting of the paths inside a value.
\<close>

section \<open>Values\<close>

text \<open>A number keeps its text (it is zero when its digits are); a set keeps some order of its elements.\<close>

datatype qval =
    QNone
  | QBool bool
  | QNum utext
  | QStr utext
  | QList "qval list"
  | QTuple "qval list"
  | QPkg "qval list"
  | QSet "qval list"
  | QDict "(utext \<times> qval) list"

fun of_json :: "json \<Rightarrow> qval" where
  "of_json JNull = QNone"
| "of_json (JBool b) = QBool b"
| "of_json (JNum n) = QNum n"
| "of_json (JStr s) = QStr s"
| "of_json (JArr js) = QList (map of_json js)"
| "of_json (JObj kvs) = QDict (map (\<lambda>(k, j). (k, of_json j)) kvs)"

text \<open>What \<open>json.dumps\<close> makes of a value: tuples are arrays, a set is not serialisable.\<close>

fun to_json :: "qval \<Rightarrow> json res" where
  "to_json QNone = Inr JNull"
| "to_json (QBool b) = Inr (JBool b)"
| "to_json (QNum n) = Inr (JNum n)"
| "to_json (QStr s) = Inr (JStr s)"
| "to_json (QList vs) = rbind (rmap to_json vs) (\<lambda>js. Inr (JArr js))"
| "to_json (QTuple vs) = rbind (rmap to_json vs) (\<lambda>js. Inr (JArr js))"
| "to_json (QPkg vs) = rbind (rmap to_json vs) (\<lambda>js. Inr (JArr js))"
| "to_json (QSet vs) = Inl TypeError"
| "to_json (QDict kvs) = rbind (rmap (\<lambda>(k, v). rbind (to_json v) (\<lambda>j. Inr (k, j))) kvs) (\<lambda>js. Inr (JObj js))"

definition zero_number :: "utext \<Rightarrow> bool" where
  "zero_number s \<longleftrightarrow> list_all (\<lambda>c. c \<in> {45, 46, 48}) (takeWhile (\<lambda>c. c \<notin> {69, 101}) s)"

fun qtruthy :: "qval \<Rightarrow> bool" where
  "qtruthy QNone = False"
| "qtruthy (QBool b) = b"
| "qtruthy (QNum s) = (\<not> zero_number s)"
| "qtruthy (QStr s) = (s \<noteq> [])"
| "qtruthy (QList vs) = (vs \<noteq> [])"
| "qtruthy (QTuple vs) = (vs \<noteq> [])"
| "qtruthy (QPkg vs) = (vs \<noteq> [])"
| "qtruthy (QSet vs) = (vs \<noteq> [])"
| "qtruthy (QDict d) = (d \<noteq> [])"

fun is_str :: "qval \<Rightarrow> bool" where
  "is_str (QStr s) = True"
| "is_str _ = False"

fun str_of :: "qval \<Rightarrow> utext res" where
  "str_of (QStr s) = Inr s"
| "str_of _ = Inl TypeError"

text \<open>The elements an iteration goes through, and an item of a dictionary (what is not one has no string keys).\<close>

fun qiter :: "qval \<Rightarrow> qval list res" where
  "qiter (QStr s) = Inr (map (\<lambda>c. QStr [c]) s)"
| "qiter (QList vs) = Inr vs"
| "qiter (QTuple vs) = Inr vs"
| "qiter (QPkg vs) = Inr vs"
| "qiter (QSet vs) = Inr vs"
| "qiter (QDict d) = Inr (map (QStr \<circ> fst) d)"
| "qiter _ = Inl TypeError"

fun qitem :: "qval \<Rightarrow> utext \<Rightarrow> qval res" where
  "qitem (QDict d) k = of_opt KeyError (map_of d k)"
| "qitem _ k = Inl TypeError"

section \<open>Encoding and decoding\<close>

definition query_prefix :: utext where
  "query_prefix = [60, 108, 97, 122, 121, 108, 108, 109, 45, 113, 117, 101, 114, 121, 62]"

definition k_query :: utext where "k_query = [113, 117, 101, 114, 121]"
definition k_files :: utext where "k_files = [102, 105, 108, 101, 115]"

definition encode_query_with_filepaths :: "qval \<Rightarrow> qval \<Rightarrow> qval res" where
  "encode_query_with_filepaths query files =
     (let query = (if qtruthy query then query else QStr []) in
      if qtruthy files then
        (let files = (if is_str files then QList [files] else files) in
         case files of
           QList fs \<Rightarrow>
             if list_all is_str fs then
               rbind (to_json (QDict [(k_query, query), (k_files, files)])) (\<lambda>j. Inr (QStr (query_prefix @ dumps j)))
             else Inl AssertionError
         | _ \<Rightarrow> Inl AssertionError)
      else Inr query)"

definition decode_text :: "utext \<Rightarrow> qval res" where
  "decode_text s =
     (let s = ustrip s in
      case take_prefix query_prefix s of
        Some r \<Rightarrow> (case loads r of Some j \<Rightarrow> Inr (of_json j) | None \<Rightarrow> Inl ValueError)
      | None \<Rightarrow> Inr (QStr s))"

fun decode_query_with_filepaths :: "qval \<Rightarrow> qval res" where
  "decode_query_with_filepaths (QStr s) = decode_text s"
| "decode_query_with_filepaths _ = Inl AssertionError"

text \<open>One argument of a merge: the text so far and the files so far grow.\<close>

definition merge_query_step :: "qval \<Rightarrow> utext \<times> qval list \<Rightarrow> (utext \<times> qval list) res" where
  "merge_query_step item acc =
     rbind (decode_query_with_filepaths item) (\<lambda>d.
       (case d of
          QDict _ \<Rightarrow>
            rbind (qitem d k_query) (\<lambda>q. rbind (str_of q) (\<lambda>q.
              rbind (qitem d k_files) (\<lambda>f. rbind (qiter f) (\<lambda>f. Inr (fst acc @ q, snd acc @ f)))))
        | _ \<Rightarrow> rbind (str_of d) (\<lambda>q. Inr (fst acc @ q, snd acc))))"

definition lazyllm_merge_query :: "qval list \<Rightarrow> qval res" where
  "lazyllm_merge_query args =
     (case args of
        [a] \<Rightarrow> Inr a
      | _ \<Rightarrow>
          if list_all is_str args then
            rbind (rfold merge_query_step args ([], [])) (\<lambda>(querys, files). encode_query_with_filepaths (QStr querys) (QList files))
          else Inl AssertionError)"

definition lazyllm_get_file_list :: "qval \<Rightarrow> qval res" where
  "lazyllm_get_file_list files =
     (case files of
        QStr s \<Rightarrow>
          rbind (decode_query_with_filepaths files) (\<lambda>d.
            (case d of QStr _ \<Rightarrow> Inr (QList [d]) | QDict _ \<Rightarrow> qitem d k_files | _ \<Rightarrow> Inr QNone))
      | QDict d \<Rightarrow> if fst ` set d = {k_query, k_files} then qitem files k_files else Inl TypeError
      | QList vs \<Rightarrow> if list_all is_str vs then Inr files else Inl TypeError
      | _ \<Rightarrow> Inl TypeError)"

section \<open>The formatters\<close>

datatype file_mode = Decode | Encode | Merge

definition decode_one_data :: "file_mode \<Rightarrow> qval \<Rightarrow> qval res" where
  "decode_one_data mode v =
     (if mode = Decode then (if is_str v then decode_query_with_filepaths v else Inr v)
      else
        (case v of
           QDict d \<Rightarrow>
             (case (map_of d k_query, map_of d k_files) of
                (Some q, Some f) \<Rightarrow>
                  if fst ` set d = {k_query, k_files} then encode_query_with_filepaths q f else Inl TypeError
              | _ \<Rightarrow> Inr v)
         | _ \<Rightarrow> Inr v))"

fun file_parse :: "file_mode \<Rightarrow> qval \<Rightarrow> qval res" where
  "file_parse mode v =
     (if mode = Merge then
        (case v of QStr s \<Rightarrow> Inr v | QPkg vs \<Rightarrow> lazyllm_merge_query vs | _ \<Rightarrow> Inl AssertionError)
      else
        (case v of
           QPkg vs \<Rightarrow> rbind (rmap (file_parse mode) vs) (\<lambda>ws. Inr (QPkg ws))
         | QStr _ \<Rightarrow> decode_one_data mode v
         | QDict _ \<Rightarrow> decode_one_data mode v
         | _ \<Rightarrow> Inr v))"

text \<open>
  The formatter's \<open>format\<close>: a chat message becomes its content, with the reasoning before it. \<open>show\<close> is
  \<open>str\<close> of a value.
\<close>

definition k_role :: utext where "k_role = [114, 111, 108, 101]"
definition k_content :: utext where "k_content = [99, 111, 110, 116, 101, 110, 116]"
definition k_reasoning :: utext where
  "k_reasoning = [114, 101, 97, 115, 111, 110, 105, 110, 103, 95, 99, 111, 110, 116, 101, 110, 116]"
definition k_tool_calls :: utext where "k_tool_calls = [116, 111, 111, 108, 95, 99, 97, 108, 108, 115]"
definition k_index :: utext where "k_index = [105, 110, 100, 101, 120]"
definition think_open :: utext where "think_open = [60, 116, 104, 105, 110, 107, 62]"
definition think_close :: utext where "think_close = [60, 47, 116, 104, 105, 110, 107, 62]"

definition chat_text :: "(qval \<Rightarrow> utext) \<Rightarrow> (utext \<times> qval) list \<Rightarrow> qval res" where
  "chat_text show d =
     (case (map_of d k_role, map_of d k_content) of
        (Some _, Some content) \<Rightarrow>
          (case map_of d k_reasoning of
             Some r \<Rightarrow>
               if qtruthy r then rbind (str_of content) (\<lambda>c. Inr (QStr (think_open @ show r @ think_close @ c)))
               else Inr content
           | None \<Rightarrow> Inr content)
      | _ \<Rightarrow> Inr (QDict d))"

definition base_format :: "(qval \<Rightarrow> utext) \<Rightarrow> (utext \<Rightarrow> qval) \<Rightarrow> (qval \<Rightarrow> qval res) \<Rightarrow> qval \<Rightarrow> qval res" where
  "base_format show load parse msg =
     rbind (case msg of QDict d \<Rightarrow> chat_text show d | _ \<Rightarrow> Inr msg) (\<lambda>msg.
       parse (case msg of QStr s \<Rightarrow> load s | _ \<Rightarrow> msg))"

definition formatter_call :: "(qval \<Rightarrow> qval res) \<Rightarrow> qval list \<Rightarrow> qval res" where
  "formatter_call format msgs = (case msgs of [m] \<Rightarrow> format m | _ \<Rightarrow> format (QPkg msgs))"

text \<open>The function-call formatter keeps four fields in their order, and drops the index of each tool call.\<close>

fun strip_index :: "qval \<Rightarrow> qval res" where
  "strip_index (QDict d) = Inr (QDict (filter (\<lambda>(k, v). k \<noteq> k_index) d))"
| "strip_index _ = Inl AttributeError"

definition function_call_format :: "qval \<Rightarrow> qval res" where
  "function_call_format msg =
     (case msg of
        QDict d \<Rightarrow>
          (let ret = List.map_filter (\<lambda>k. map_option (Pair k) (map_of d k)) [k_role, k_content, k_tool_calls, k_reasoning] in
           case map_of ret k_tool_calls of
             Some (QList calls) \<Rightarrow>
               rbind (rmap strip_index calls) (\<lambda>calls. Inr (QDict (AList.update k_tool_calls (QList calls) ret)))
           | _ \<Rightarrow> Inr (QDict ret))
      | _ \<Rightarrow> Inl AssertionError)"

section \<open>What decoding gives back\<close>

definition query_text :: "utext \<Rightarrow> utext list \<Rightarrow> utext" where
  "query_text q fs = query_prefix @ dumps (JObj [(k_query, JStr q), (k_files, JArr (map JStr fs))])"

definition query_dict :: "utext \<Rightarrow> utext list \<Rightarrow> qval" where
  "query_dict q fs = QDict [(k_query, QStr q), (k_files, QList (map QStr fs))]"

lemma rmap_to_json_strs [simp]: "rmap to_json (map QStr fs) = Inr (map JStr fs)"
  by (induction fs) simp_all

lemma encode_strs: "fs \<noteq> [] \<Longrightarrow> encode_query_with_filepaths (QStr q) (QList (map QStr fs)) = Inr (QStr (query_text q fs))"
  by (cases "q = []") (simp_all add: encode_query_with_filepaths_def query_text_def list_all_iff)

lemma encode_no_files: "encode_query_with_filepaths (QStr q) (QList []) = Inr (QStr q)"
  by (simp add: encode_query_with_filepaths_def)

lemma ustrip_id: "s \<noteq> [] \<Longrightarrow> \<not> uspace (hd s) \<Longrightarrow> \<not> uspace (last s) \<Longrightarrow> ustrip s = s"
proof -
  have *: "dropWhile uspace t = t" if "t \<noteq> []" "\<not> uspace (hd t)" for t using that by (cases t) auto
  assume "s \<noteq> []" "\<not> uspace (hd s)" "\<not> uspace (last s)"
  then show ?thesis using * [of s] * [of "rev s"] by (simp add: ustrip_def hd_rev)
qed

lemma query_text_strip: "ustrip (query_text q fs) = query_text q fs"
  by (rule ustrip_id) (simp_all add: query_text_def query_prefix_def uspace_def)

lemma decode_query_text:
  assumes "list_all uchar q" and "list_all (list_all uchar) fs"
  shows "decode_query_with_filepaths (QStr (query_text q fs)) = Inr (query_dict q fs)"
proof -
  have "loads (dumps (JObj [(k_query, JStr q), (k_files, JArr (map JStr fs))])) = Some (JObj [(k_query, JStr q), (k_files, JArr (map JStr fs))])"
    by (rule loads_dumps) (use assms in \<open>simp add: k_query_def k_files_def list_all_iff uchar_def\<close>)
  then show ?thesis unfolding decode_query_with_filepaths.simps decode_text_def query_text_strip
    by (simp add: query_text_def take_prefix_append query_dict_def)
qed

text \<open>
  C21. A query encoded with its files decodes to the same query and the same files, for any unicode texts:
  quotes, line ends, characters beyond the basic plane, the prefix itself.
\<close>

theorem decode_encode_query:
  assumes "list_all uchar q" and "list_all (list_all uchar) fs" and "fs \<noteq> []"
  shows "rbind (encode_query_with_filepaths (QStr q) (QList (map QStr fs))) decode_query_with_filepaths =
    Inr (QDict [(k_query, QStr q), (k_files, QList (map QStr fs))])"
  using assms decode_query_text [OF assms(1,2)] by (simp add: encode_strs query_dict_def)

theorem decode_encode_query_witness:
  "rbind (encode_query_with_filepaths (QStr [34, 10, 128512]) (QList (map QStr [[47, 233]]))) decode_query_with_filepaths =
    Inr (QDict [(k_query, QStr [34, 10, 128512]), (k_files, QList (map QStr [[47, 233]]))])"
  by (rule decode_encode_query) (simp_all add: uchar_def)

text \<open>A text without the prefix is decoded to itself, without the blanks around it.\<close>

lemma decode_plain: "take_prefix query_prefix (ustrip s) = None \<Longrightarrow> decode_query_with_filepaths (QStr s) = Inr (QStr (ustrip s))"
  by (simp add: decode_text_def)

section \<open>Merging\<close>

text \<open>What a merge keeps of a query: without files it is stripped.\<close>

definition merged_part :: "utext \<times> utext list \<Rightarrow> utext" where
  "merged_part = (\<lambda>(q, fs). if fs = [] then ustrip q else q)"

definition unicode_query :: "utext \<times> utext list \<Rightarrow> bool" where
  "unicode_query = (\<lambda>(q, fs). list_all uchar q \<and> list_all (list_all uchar) fs \<and>
     (fs = [] \<longrightarrow> take_prefix query_prefix (ustrip q) = None))"

definition encoded :: "utext \<times> utext list \<Rightarrow> utext" where
  "encoded = (\<lambda>(q, fs). if fs = [] then q else query_text q fs)"

lemma encode_encoded: "encode_query_with_filepaths (QStr q) (QList (map QStr fs)) = Inr (QStr (encoded (q, fs)))"
  by (simp add: encoded_def encode_strs encode_no_files)

lemma merge_query_step_encoded:
  "unicode_query qf \<Longrightarrow> merge_query_step (QStr (encoded qf)) acc = Inr (fst acc @ merged_part qf, snd acc @ map QStr (snd qf))"
  by (cases qf)
    (auto simp del: decode_query_with_filepaths.simps
      simp: merge_query_step_def unicode_query_def encoded_def merged_part_def decode_plain decode_query_text query_dict_def
        k_query_def k_files_def)

lemma merge_fold:
  "list_all unicode_query qfs \<Longrightarrow>
    rfold merge_query_step (map (QStr \<circ> encoded) qfs) acc =
      Inr (fst acc @ concat (map merged_part qfs), snd acc @ map QStr (concat (map snd qfs)))"
  by (induction qfs arbitrary: acc) (simp_all add: merge_query_step_encoded)

text \<open>
  Merging two or more queries is encoding the concatenated texts with the concatenated files, in
  the order of the arguments; the text of a query without files is stripped first, that of a query with
  files is not.
\<close>

theorem merge_concatenates:
  assumes "list_all unicode_query qfs" and "length qfs \<noteq> 1"
    and "rmap (\<lambda>(q, fs). encode_query_with_filepaths (QStr q) (QList (map QStr fs))) qfs = Inr args"
  shows "lazyllm_merge_query args =
    encode_query_with_filepaths (QStr (concat (map merged_part qfs))) (QList (map QStr (concat (map snd qfs))))"
proof -
  have "rmap (\<lambda>(q, fs). encode_query_with_filepaths (QStr q) (QList (map QStr fs))) qfs = Inr (map (QStr \<circ> encoded) qfs)"
    by (induction qfs) (auto simp: encode_encoded)
  then have args: "args = map (QStr \<circ> encoded) qfs" using assms(3) by simp
  have strs: "list_all is_str args" by (simp add: args list_all_iff)
  have "lazyllm_merge_query args =
      rbind (rfold merge_query_step args ([], [])) (\<lambda>(querys, files). encode_query_with_filepaths (QStr querys) (QList files))"
    using assms(2) strs unfolding args lazyllm_merge_query_def by (auto split: list.split)
  then show ?thesis using merge_fold [OF assms(1), of "([], [])"] by (simp add: args)
qed

theorem merge_concatenates_witness:
  "lazyllm_merge_query [QStr [32, 97], QStr (query_text [98, 32] [[47]])] =
    encode_query_with_filepaths (QStr [97, 98, 32]) (QList [QStr [47]])"
  using merge_concatenates [of "[([32, 97], []), ([98, 32], [[47]])]" "[QStr [32, 97], QStr (query_text [98, 32] [[47]])]"]
  by (simp add: unicode_query_def uchar_def ustrip_def uspace_def take_prefix_def query_prefix_def encode_encoded
      encoded_def merged_part_def encode_no_files encode_strs [of "[[47]]", simplified])

end
