(* ===== verification/QueryPaths.thy ===== *)
theory QueryPaths
  imports QueryFiles
begin

text \<open>
  The file paths inside a value (\<open>components/formatter/formatterbase.py\<close>): how a path below the temporary
  directory is made relative and absolute again, and the walk over a value that rewrites the paths of
  every query in it. Paths are POSIX paths.
\<close>

section \<open>\<open>os.path\<close>\<close>

definition isabs :: "utext \<Rightarrow> bool" where
  "isabs p \<longleftrightarrow> take 1 p = [47]"

definition path_join :: "utext \<Rightarrow> utext \<Rightarrow> utext" where
  "path_join a b = (if isabs b then b else if a = [] \<or> last a = 47 then a @ b else a @ [47] @ b)"

fun path_comps :: "utext \<Rightarrow> utext list" where
  "path_comps [] = [[]]"
| "path_comps (c # s) =
     (if c = 47 then [] # path_comps s
      else (case path_comps s of [] \<Rightarrow> [[c]] | x # xs \<Rightarrow> (c # x) # xs))"

text \<open>The components kept so far are in reverse.\<close>

definition norm_comp :: "bool \<Rightarrow> utext \<Rightarrow> utext list \<Rightarrow> utext list" where
  "norm_comp rooted c kept =
     (if c = [] \<or> c = [46] then kept
      else if c \<noteq> [46, 46] \<or> (\<not> rooted \<and> kept = []) \<or> (kept \<noteq> [] \<and> hd kept = [46, 46]) then c # kept
      else tl kept)"

definition normpath :: "utext \<Rightarrow> utext" where
  "normpath p =
     (if p = [] then [46]
      else
        let slashes = (if \<not> isabs p then 0 else if take 2 p = [47, 47] \<and> take 3 p \<noteq> [47, 47, 47] then 2 else 1);
            path = replicate slashes 47 @ ujoin [47] (rev (fold (norm_comp (0 < slashes)) (path_comps p) []))
        in if path = [] then [46] else path)"

definition abspath :: "utext \<Rightarrow> utext \<Rightarrow> utext" where
  "abspath cwd p = normpath (if isabs p then p else path_join cwd p)"

section \<open>Relative and absolute\<close>

text \<open>The working directory, the configured temporary directory, and which paths exist.\<close>

record path_env =
  pe_cwd :: utext
  pe_temp :: utext
  pe_exists :: "utext \<Rightarrow> bool"

definition path_relative_to_absolute :: "path_env \<Rightarrow> utext \<Rightarrow> utext" where
  "path_relative_to_absolute env path =
     (if isabs path then path
      else
        let absolute_path = path_join (pe_temp env) path in
        if pe_exists env absolute_path then abspath (pe_cwd env) absolute_path else path)"

definition path_absolute_to_relative :: "path_env \<Rightarrow> utext \<Rightarrow> utext" where
  "path_absolute_to_relative env path =
     (if \<not> isabs path then path
      else
        case take_prefix (abspath (pe_cwd env) (pe_temp env)) path of
          Some rel \<Rightarrow> (if take 1 rel = [47] then drop 1 rel else rel)
        | None \<Rightarrow> path)"

section \<open>The walk over a value\<close>

fun ucontains :: "utext \<Rightarrow> utext \<Rightarrow> bool" where
  "ucontains p [] \<longleftrightarrow> p = []"
| "ucontains p (c # s) \<longleftrightarrow> take (length p) (c # s) = p \<or> ucontains p s"

definition process_file :: "(utext \<Rightarrow> utext) \<Rightarrow> qval \<Rightarrow> qval res" where
  "process_file f v = rbind (str_of v) (\<lambda>s. Inr (QStr (f s)))"

definition process_query :: "(utext \<Rightarrow> utext) \<Rightarrow> utext \<Rightarrow> qval res" where
  "process_query f s =
     rbind (decode_query_with_filepaths (QStr s)) (\<lambda>res.
     rbind (qitem res k_files) (\<lambda>files.
     rbind (if qtruthy files
            then rbind (qiter files) (\<lambda>paths. rbind (rmap (process_file f) paths) (\<lambda>ps. Inr (QList ps)))
            else Inr files) (\<lambda>files.
     rbind (qitem res k_query) (\<lambda>query. encode_query_with_filepaths query files))))"

fun proccess_path_recursively :: "(utext \<Rightarrow> utext) \<Rightarrow> qval \<Rightarrow> qval res" where
  "proccess_path_recursively f (QStr s) = (if ucontains query_prefix s then process_query f s else Inr (QStr s))"
| "proccess_path_recursively f (QList vs) = rbind (rmap (proccess_path_recursively f) vs) (\<lambda>ws. Inr (QList ws))"
| "proccess_path_recursively f (QTuple vs) = rbind (rmap (proccess_path_recursively f) vs) (\<lambda>ws. Inr (QTuple ws))"
| "proccess_path_recursively f (QPkg vs) = rbind (rmap (proccess_path_recursively f) vs) (\<lambda>ws. Inr (QTuple ws))"
| "proccess_path_recursively f (QSet vs) = rbind (rmap (proccess_path_recursively f) vs) (\<lambda>ws. Inr (QSet (remdups ws)))"
| "proccess_path_recursively f (QDict d) =
     rbind (rmap (\<lambda>(k, v). rbind (proccess_path_recursively f v) (\<lambda>w. Inr (k, w))) d) (\<lambda>d. Inr (QDict d))"
| "proccess_path_recursively f v = Inr v"

datatype path_mode = R2A | A2R

definition transform_path :: "path_env \<Rightarrow> path_mode \<Rightarrow> qval \<Rightarrow> qval res" where
  "transform_path env mode v =
     (case mode of
        R2A \<Rightarrow> proccess_path_recursively (path_relative_to_absolute env) v
      | A2R \<Rightarrow> proccess_path_recursively (path_absolute_to_relative env) v)"

section \<open>Normal paths\<close>

definition good_comp :: "utext \<Rightarrow> bool" where
  "good_comp c \<longleftrightarrow> c \<noteq> [] \<and> c \<noteq> [46] \<and> c \<noteq> [46, 46]"

definition normal_abs :: "utext \<Rightarrow> bool" where
  "normal_abs p \<longleftrightarrow> (case path_comps p of c # cs \<Rightarrow> c = [] \<and> cs \<noteq> [] \<and> list_all good_comp cs | [] \<Rightarrow> False)"

lemma path_comps_ne [simp]: "path_comps p \<noteq> []"
  by (cases p) (auto split: list.split)

lemma join_path_comps: "ujoin [47] (path_comps p) = p"
proof (induction p)
  case (Cons c p)
  then show ?case by (cases "path_comps p") (auto simp: ujoin_Cons)
qed simp

lemma path_comps_append: "path_comps (p @ 47 # q) = path_comps p @ path_comps q"
  by (induction p) (auto split: list.splits)

lemma path_comps_isabs: "path_comps p = [] # cs \<Longrightarrow> cs \<noteq> [] \<Longrightarrow> \<exists>q. p = 47 # q \<and> path_comps q = cs"
  by (cases p) (auto split: if_splits list.splits)

lemma fold_norm_comp: "list_all good_comp cs \<Longrightarrow> fold (norm_comp r) cs kept = rev cs @ kept"
  by (induction cs arbitrary: kept) (simp_all add: norm_comp_def good_comp_def)

lemma normal_abs_cases:
  assumes "normal_abs p"
  obtains q where "p = 47 # q" and "list_all good_comp (path_comps q)" and "take 1 q \<noteq> [47]" and "q \<noteq> []"
proof -
  obtain cs where cs: "path_comps p = [] # cs" "cs \<noteq> []" "list_all good_comp cs"
    using assms by (auto simp: normal_abs_def split: list.splits)
  then obtain q where q: "p = 47 # q" "path_comps q = cs" using path_comps_isabs by blast
  moreover have "q \<noteq> []" using cs(3) q(2) by (auto simp: good_comp_def)
  moreover have "take 1 q \<noteq> [47]" using cs(3) q(2) by (cases q) (auto simp: good_comp_def)
  ultimately show ?thesis using that cs(3) by blast
qed

lemma normpath_slashed:
  assumes "normal_abs p" and "t = p \<or> t = p @ [47]"
  shows "normpath t = p"
proof -
  obtain q where q: "p = 47 # q" "list_all good_comp (path_comps q)" "take 1 q \<noteq> [47]" "q \<noteq> []"
    using normal_abs_cases [OF assms(1)] .
  have "path_comps t = [] # path_comps q \<or> path_comps t = [] # path_comps q @ [[]]"
    using assms(2) q(1) path_comps_append [of q "[]"] by auto
  then have "fold (norm_comp True) (path_comps t) [] = rev (path_comps q)"
    using fold_norm_comp [OF q(2), of True "[]"] by (auto simp: norm_comp_def)
  moreover have "isabs t" "take 2 t \<noteq> [47, 47]" "t \<noteq> []"
    using assms(2) q(1,3,4) by (cases q; auto simp: isabs_def take_Cons' numeral_2_eq_2)+
  ultimately show ?thesis by (simp add: normpath_def join_path_comps q(1))
qed

lemma normal_abs_last: "normal_abs p \<Longrightarrow> last p \<noteq> 47"
proof
  assume p: "normal_abs p" and "last p = 47"
  then obtain t where "p = t @ [47]" using normal_abs_cases [OF p] by (metis append_butlast_last_id list.distinct(1))
  then have "last (path_comps p) = []" using path_comps_append [of t "[]"] by simp
  then show False using p by (auto simp: normal_abs_def good_comp_def list_all_iff split: list.splits if_splits dest: last_in_set)
qed

lemma normal_abs_isabs: "normal_abs p \<Longrightarrow> isabs p"
  by (erule normal_abs_cases) (simp add: isabs_def)

lemma abspath_normal: "normal_abs p \<Longrightarrow> abspath cwd p = p"
  using normal_abs_isabs normpath_slashed by (simp add: abspath_def)

section \<open>There and back\<close>

text \<open>
  A path that survives: a relative one that names no file of the temporary directory, one elsewhere, or
  a normal path to an existing file of the temporary directory.
\<close>

definition portable_path :: "path_env \<Rightarrow> utext \<Rightarrow> bool" where
  "portable_path env p \<longleftrightarrow>
     (if \<not> isabs p then \<not> pe_exists env (path_join (pe_temp env) p)
      else
        (case take_prefix (pe_temp env) p of
           None \<Rightarrow> True
         | Some r \<Rightarrow> normal_abs p \<and> (r = [] \<or> take 1 r = [47]) \<and> pe_exists env (path_join (pe_temp env) (drop 1 r))))"

lemma take_prefix_Some: "take_prefix p s = Some r \<longleftrightarrow> s = p @ r"
  by (auto simp: take_prefix_def) (metis append_take_drop_id)

lemma path_roundtrip:
  assumes "normal_abs (pe_temp env)" and "portable_path env p"
  shows "path_relative_to_absolute env (path_absolute_to_relative env p) = p"
proof (cases "isabs p")
  case True
  show ?thesis
  proof (cases "take_prefix (pe_temp env) p")
    case None
    then show ?thesis using True
      by (simp add: path_absolute_to_relative_def path_relative_to_absolute_def abspath_normal [OF assms(1)])
  next
    case (Some r)
    with assms(2) True have p: "p = pe_temp env @ r" "normal_abs p" "r = [] \<or> take 1 r = [47]"
      and ex: "pe_exists env (path_join (pe_temp env) (drop 1 r))"
      by (simp_all add: portable_path_def take_prefix_Some)
    have rel: "path_absolute_to_relative env p = drop 1 r"
      using True Some p(3) by (auto simp: path_absolute_to_relative_def abspath_normal [OF assms(1)])
    have tmp: "pe_temp env \<noteq> []" "last (pe_temp env) \<noteq> 47"
      using normal_abs_isabs [OF assms(1)] normal_abs_last [OF assms(1)] by (auto simp: isabs_def)
    have "\<not> isabs (drop 1 r)"
    proof
      assume "isabs (drop 1 r)"
      then obtain t where "p = pe_temp env @ 47 # 47 # t"
        using p(1,3) by (cases r; cases "tl r") (auto simp: isabs_def)
      then have "path_comps p = path_comps (pe_temp env) @ [] # path_comps t" by (simp add: path_comps_append)
      then show False using p(2) by (cases "path_comps (pe_temp env)") (simp_all add: normal_abs_def good_comp_def)
    qed
    moreover have "abspath (pe_cwd env) (path_join (pe_temp env) (drop 1 r)) = p"
    proof -
      have j: "path_join (pe_temp env) (drop 1 r) = p \<or> path_join (pe_temp env) (drop 1 r) = p @ [47]"
        using calculation tmp p(1,3) by (cases r) (auto simp: path_join_def)
      obtain q where "p = 47 # q" using normal_abs_cases [OF p(2)] .
      then have "isabs (path_join (pe_temp env) (drop 1 r))" using j by (auto simp: isabs_def)
      then show ?thesis by (simp only: abspath_def if_True normpath_slashed [OF p(2) j])
    qed
    ultimately show ?thesis using ex by (simp add: rel path_relative_to_absolute_def)
  qed
next
  case False
  then show ?thesis using assms(2)
    by (simp add: path_absolute_to_relative_def path_relative_to_absolute_def portable_path_def)
qed

text \<open>
  A value that survives: the texts hold the prefix only as queries encoded with portable paths, and
  nothing is a package.
\<close>

inductive portable :: "path_env \<Rightarrow> qval \<Rightarrow> bool" for env where
  plain: "\<not> ucontains query_prefix s \<Longrightarrow> portable env (QStr s)"
| query: "list_all uchar q \<Longrightarrow> list_all (list_all uchar) fs \<Longrightarrow> list_all (portable_path env) fs \<Longrightarrow> fs \<noteq> [] \<Longrightarrow>
    portable env (QStr (query_text q fs))"
| none: "portable env QNone"
| bool: "portable env (QBool b)"
| num: "portable env (QNum n)"
| seq: "(\<forall>v\<in>set vs. portable env v) \<Longrightarrow> portable env (QList vs)"
| tuple: "(\<forall>v\<in>set vs. portable env v) \<Longrightarrow> portable env (QTuple vs)"
| set: "(\<forall>v\<in>set vs. portable env v) \<Longrightarrow> distinct vs \<Longrightarrow> portable env (QSet vs)"
| dict: "(\<forall>kv\<in>set d. portable env (snd kv)) \<Longrightarrow> portable env (QDict d)"

lemma ucontains_query_text: "ucontains query_prefix (query_text q fs)"
  by (simp add: query_text_def query_prefix_def)

lemma rmap_process_file: "rmap (process_file f) (map QStr fs) = Inr (map (QStr \<circ> f) fs)"
  by (induction fs) (simp_all add: process_file_def)

lemma process_query_text:
  assumes "list_all uchar q" and "list_all (list_all uchar) fs" and "fs \<noteq> []"
  shows "process_query f (query_text q fs) = Inr (QStr (query_text q (map f fs)))"
proof -
  have "process_query f (query_text q fs) = encode_query_with_filepaths (QStr q) (QList (map QStr (map f fs)))"
    unfolding process_query_def decode_query_text [OF assms(1,2)]
    using assms(3) by (simp add: query_dict_def rmap_process_file k_query_def k_files_def)
  then show ?thesis using assms(3) by (simp add: encode_strs del: map_map)
qed

lemma relative_uchar: "list_all uchar p \<Longrightarrow> list_all uchar (path_absolute_to_relative env p)"
  by (auto simp: path_absolute_to_relative_def take_prefix_Some list_all_iff dest: in_set_dropD split: option.split
      simp del: One_nat_def drop_Suc drop0)

lemma rmap_roundtrip:
  assumes "list_all (\<lambda>v. rbind (f v) g = Inr v) vs"
  shows "\<exists>ws. rmap f vs = Inr ws \<and> rmap g ws = Inr vs \<and> (distinct vs \<longrightarrow> distinct ws)"
  using assms
proof (induction vs)
  case (Cons v vs)
  then obtain ws where ws: "rmap f vs = Inr ws" "rmap g ws = Inr vs" "distinct vs \<longrightarrow> distinct ws" by auto
  from Cons.prems obtain w where w: "f v = Inr w" "g w = Inr v" by (auto simp: rbind_eq_Inr)
  have "v \<in> set vs" if "w \<in> set ws"
    using that w(2) ws(2) by (auto simp: rmap_Inr_iff list_all2_conv_all_nth in_set_conv_nth)
  then show ?case using ws w by auto
qed simp

lemma transform_roundtrip:
  assumes "normal_abs (pe_temp env)" and "portable env v"
  shows "rbind (transform_path env A2R v) (transform_path env R2A) = Inr v"
  using assms(2)
proof (induction v)
  case (query q fs)
  have "map (path_relative_to_absolute env) (map (path_absolute_to_relative env) fs) = fs"
    unfolding map_map by (rule map_idI) (use query path_roundtrip [OF assms(1)] in \<open>auto simp: list_all_iff\<close>)
  moreover have "list_all (list_all uchar) (map (path_absolute_to_relative env) fs)"
    using query(2) relative_uchar by (auto simp: list_all_iff)
  ultimately show ?case
    using process_query_text [OF query(1,2,4)] process_query_text [OF query(1), of "map (path_absolute_to_relative env) fs"] query(4)
    by (simp add: transform_path_def ucontains_query_text)
next
  case (dict d)
  let ?F = "\<lambda>f (k, v). rbind (proccess_path_recursively f v) (\<lambda>w. Inr (k, w))"
  have "list_all (\<lambda>v. rbind (?F (path_absolute_to_relative env) v) (?F (path_relative_to_absolute env)) = Inr v) d"
    using dict by (fastforce simp: list_all_iff transform_path_def rbind_eq_Inr)
  from rmap_roundtrip [OF this] show ?case by (auto simp: transform_path_def)
next
  case (seq vs)
  then show ?case using rmap_roundtrip [of "proccess_path_recursively (path_absolute_to_relative env)" _ vs]
    by (fastforce simp: list_all_iff transform_path_def)
next
  case (tuple vs)
  then show ?case using rmap_roundtrip [of "proccess_path_recursively (path_absolute_to_relative env)" _ vs]
    by (fastforce simp: list_all_iff transform_path_def)
next
  case (set vs)
  then show ?case using rmap_roundtrip [of "proccess_path_recursively (path_absolute_to_relative env)" _ vs]
    by (fastforce simp: list_all_iff transform_path_def distinct_remdups_id)
qed (simp_all add: transform_path_def)

section \<open>Where it departs\<close>

text \<open>A text that holds the prefix anywhere but at its start is decoded to itself, and indexing it raises.\<close>

lemma prefix_inside_raises:
  assumes "ucontains query_prefix s" and "take_prefix query_prefix (ustrip s) = None"
  shows "transform_path env mode (QStr s) = Inl TypeError"
  using assms by (simp add: transform_path_def process_query_def decode_text_def split: path_mode.split)

text \<open>A package comes back as a tuple.\<close>

lemma package_becomes_tuple:
  "transform_path env mode (QPkg vs) = Inr w \<Longrightarrow> \<exists>ws. w = QTuple ws \<and> length ws = length vs"
  by (auto simp: transform_path_def rbind_eq_Inr dest: rmap_length split: path_mode.splits)

text \<open>
  A path below a directory whose name only starts like the temporary directory's is cut inside the
  name, and does not come back.
\<close>

lemma sibling_cut:
  assumes "normal_abs (pe_temp env)" and "p = pe_temp env @ r" and "r \<noteq> []" and "take 1 r \<noteq> [47]"
  shows "path_absolute_to_relative env p = r"
    and "\<not> pe_exists env (path_join (pe_temp env) r) \<Longrightarrow>
      path_relative_to_absolute env (path_absolute_to_relative env p) \<noteq> p"
proof -
  show *: "path_absolute_to_relative env p = r"
  proof -
    obtain q where "pe_temp env = 47 # q" using normal_abs_cases [OF assms(1)] .
    then have "isabs p" by (simp add: assms(2) isabs_def)
    moreover have "take_prefix (pe_temp env) p = Some r" by (simp add: assms(2) take_prefix_append)
    ultimately show ?thesis using assms(4) by (simp add: path_absolute_to_relative_def abspath_normal [OF assms(1)])
  qed
  have "pe_temp env \<noteq> []" using normal_abs_isabs [OF assms(1)] by (auto simp: isabs_def)
  then show "path_relative_to_absolute env (path_absolute_to_relative env p) \<noteq> p"
    if "\<not> pe_exists env (path_join (pe_temp env) r)"
    unfolding * using that assms(2,4) by (simp add: path_relative_to_absolute_def isabs_def)
qed

end
