(* ===== verification/ModuleCache.thy ===== *)
theory ModuleCache
  imports QueryPaths "HOL-Library.List_Lexorder" "HOL-Library.Multiset"
begin

text \<open>
  The result cache of modules (\<open>module/module.py\<close>, with the hash of \<open>components/formatter/formatterbase.py\<close>): the
  key of a call, the four stores, and a call that goes through the cache. What the stores promise is the
  locale \<open>cache_strategy\<close>.
\<close>

section \<open>The key of a call\<close>

text \<open>Files that can be read, MD5 as a number below \<open>2 ^ 128\<close>, and UTF-8.\<close>

record hash_env =
  he_temp :: utext
  he_file :: "utext \<Rightarrow> nat list option"
  he_md5 :: "nat list \<Rightarrow> nat"
  he_utf8 :: "utext \<Rightarrow> nat list"

definition hexdigest :: "nat \<Rightarrow> utext" where
  "hexdigest n = map (\<lambda>i. hex_digit (n div 16 ^ i mod 16)) (rev [0..<32])"

fun dec :: "nat \<Rightarrow> utext" where
  "dec n = (if n < 10 then [48 + n] else dec (n div 10) @ [48 + n mod 10])"

definition is_file :: "hash_env \<Rightarrow> utext \<Rightarrow> bool" where
  "is_file env p \<longleftrightarrow> he_file env p \<noteq> None"

text \<open>The path that is opened, and the bytes it adds: those of the path when it cannot be opened.\<close>

definition search_file :: "hash_env \<Rightarrow> utext \<Rightarrow> utext" where
  "search_file env p =
     (if isabs p then p else if is_file env p then p
      else if he_temp env \<noteq> [] \<and> is_file env (path_join (he_temp env) p) then path_join (he_temp env) p
      else p)"

definition file_bytes :: "hash_env \<Rightarrow> qval \<Rightarrow> nat list res" where
  "file_bytes env v =
     rbind (str_of v) (\<lambda>p.
       let full = search_file env p in
       Inr (case he_file env full of Some b \<Rightarrow> b | None \<Rightarrow> he_utf8 env full))"

text \<open>The text that \<open>str\<close> makes of the hash: hexadecimal for a plain text, decimal for a query.\<close>

definition file_content_hash :: "hash_env \<Rightarrow> utext \<Rightarrow> utext res" where
  "file_content_hash env value =
     rbind (decode_query_with_filepaths (QStr value)) (\<lambda>res.
       (case res of
          QStr _ \<Rightarrow>
            Inr (hexdigest (he_md5 env (case he_file env value of Some b \<Rightarrow> b | None \<Rightarrow> he_utf8 env value)))
        | _ \<Rightarrow>
            rbind (qitem res k_query) (\<lambda>query.
            rbind (qitem res k_files) (\<lambda>files.
            rbind (case query of QStr q \<Rightarrow> Inr q | _ \<Rightarrow> Inl AttributeError) (\<lambda>q.
            rbind (qiter files) (\<lambda>paths.
            rbind (rmap (file_bytes env) paths) (\<lambda>bs.
              Inr (dec (he_md5 env (he_utf8 env q @ concat bs)))))))))) "

text \<open>\<open>str(type(value))\<close>.\<close>

definition class_text :: "utext \<Rightarrow> utext" where
  "class_text name = [60, 99, 108, 97, 115, 115, 32, 39] @ name @ [39, 62]"

fun type_text :: "qval \<Rightarrow> utext" where
  "type_text QNone = class_text [78, 111, 110, 101, 84, 121, 112, 101]"
| "type_text (QBool b) = class_text [98, 111, 111, 108]"
| "type_text (QNum n) = class_text (if list_all udigit (dropWhile (\<lambda>c. c = 45) n) then [105, 110, 116] else [102, 108, 111, 97, 116])"
| "type_text (QStr s) = class_text [115, 116, 114]"
| "type_text (QList vs) = class_text [108, 105, 115, 116]"
| "type_text (QTuple vs) = class_text [116, 117, 112, 108, 101]"
| "type_text (QPkg vs) = class_text [108, 97, 122, 121, 108, 108, 109, 46, 99, 111, 109, 109, 111, 110, 46, 99, 111, 109, 109, 111, 110, 46,
     112, 97, 99, 107, 97, 103, 101]"
| "type_text (QSet vs) = class_text [115, 101, 116]"
| "type_text (QDict d) = class_text [100, 105, 99, 116]"

fun value_text :: "qval \<Rightarrow> utext" where
  "value_text (QBool b) = (if b then [84, 114, 117, 101] else [70, 97, 108, 115, 101])"
| "value_text (QNum n) = n"
| "value_text _ = [78, 111, 110, 101]"

definition wrapped :: "qval \<Rightarrow> nat \<Rightarrow> utext list \<Rightarrow> utext" where
  "wrapped v n parts = (let m = type_text v @ dec n in (m @ [62]) @ concat parts @ ([60] @ m))"

definition key_meta :: "utext \<Rightarrow> utext" where
  "key_meta k = [107, 101, 121, 58] @ class_text [115, 116, 114] @ k"

text \<open>
  What a value feeds to the hash, with \<open>order\<close> for \<open>sorted\<close> of the elements of a set (it raises on elements
  that do not compare).
\<close>

fun process_value :: "hash_env \<Rightarrow> (qval list \<Rightarrow> qval list res) \<Rightarrow> qval \<Rightarrow> utext res" where
  "process_value env order (QStr s) = file_content_hash env s"
| "process_value env order (QSet vs) =
     rbind (order vs) (\<lambda>ws.
       let parts = map (\<lambda>v. (v, process_value env order v)) vs in
       rbind (rmap (\<lambda>w. rbind (of_opt TypeError (map_of parts w)) id) ws) (\<lambda>ts. Inr (wrapped (QSet vs) (length vs) ts)))"
| "process_value env order (QList vs) =
     rbind (rmap (process_value env order) vs) (\<lambda>ts. Inr (wrapped (QList vs) (length vs) ts))"
| "process_value env order (QTuple vs) =
     rbind (rmap (process_value env order) vs) (\<lambda>ts. Inr (wrapped (QTuple vs) (length vs) ts))"
| "process_value env order (QPkg vs) =
     rbind (rmap (process_value env order) vs) (\<lambda>ts. Inr (wrapped (QPkg vs) (length vs) ts))"
| "process_value env order (QDict d) =
     (let items = sort_key fst (map (\<lambda>(k, v). (k, process_value env order v)) d) in
      rbind (rmap (\<lambda>(k, r). rbind r (\<lambda>t. Inr (key_meta k @ t))) items) (\<lambda>ts. Inr (wrapped (QDict d) (length d) ts)))"
| "process_value env order v = Inr (type_text v @ value_text v)"

text \<open>The hash of positional arguments (a tuple) and keyword arguments (a dictionary).\<close>

definition cache_hash :: "hash_env \<Rightarrow> (qval list \<Rightarrow> qval list res) \<Rightarrow> qval list \<Rightarrow> (utext \<times> qval) list \<Rightarrow> utext res" where
  "cache_hash env order args kw =
     rbind (process_value env order (QTuple args)) (\<lambda>a.
     rbind (if kw \<noteq> [] then process_value env order (QDict kw) else Inr []) (\<lambda>k.
       Inr (hexdigest (he_md5 env (he_utf8 env (a @ k))))))"

section \<open>The stores\<close>

text \<open>A store keeps a value per module and hash; \<open>storable\<close> are the values it can write.\<close>

definition cache_not_found :: exn where
  "cache_not_found = Raised ''CacheNotFoundError''"

locale cache_strategy =
  fixes get :: "utext \<Rightarrow> utext \<Rightarrow> 's \<Rightarrow> qval res"
    and put :: "utext \<Rightarrow> utext \<Rightarrow> qval \<Rightarrow> 's \<Rightarrow> 's"
    and storable :: "qval \<Rightarrow> bool"
    and inv :: "'s \<Rightarrow> bool"
  assumes get_put: "inv s \<Longrightarrow> storable v \<Longrightarrow> 58 \<notin> set h \<Longrightarrow> 58 \<notin> set h' \<Longrightarrow>
      get k' h' (put k h v s) = (if k' = k \<and> h' = h then Inr v else get k' h' s)"
    and inv_put: "inv s \<Longrightarrow> inv (put k h v s)"
begin

text \<open>After any writes of storable values, a read finds the last one of its key.\<close>

fun puts :: "((utext \<times> utext) \<times> qval) list \<Rightarrow> 's \<Rightarrow> 's" where
  "puts [] s = s"
| "puts (((k, h), v) # ws) s = puts ws (put k h v s)"

lemma puts_refine:
  assumes "inv s" and "list_all (\<lambda>((k, h), v). storable v \<and> 58 \<notin> set h) ws" and "58 \<notin> set h"
  shows "get k h (puts ws s) = (case map_of (rev ws) (k, h) of Some v \<Rightarrow> Inr v | None \<Rightarrow> get k h s)"
  using assms
proof (induction ws s rule: puts.induct)
  case (2 k' h' v ws s)
  then show ?case by (auto simp: inv_put get_put map_add_def split: option.split)
qed simp

end

subsection \<open>In memory\<close>

type_synonym cache_dict = "(utext \<times> (utext \<times> qval) list) list"

definition dict_lookup :: "utext \<Rightarrow> utext \<Rightarrow> cache_dict \<Rightarrow> qval res" where
  "dict_lookup key hash_key d =
     rbind (of_opt cache_not_found (map_of d key)) (\<lambda>e. of_opt cache_not_found (map_of e hash_key))"

definition dict_store :: "utext \<Rightarrow> utext \<Rightarrow> qval \<Rightarrow> cache_dict \<Rightarrow> cache_dict" where
  "dict_store key hash_key v d = AList.update key (AList.update hash_key v (dict_get d key [])) d"

text \<open>Reading a \<open>defaultdict\<close> is guarded by the membership test, so it adds nothing.\<close>

definition mem_get :: "utext \<Rightarrow> utext \<Rightarrow> cache_dict \<Rightarrow> qval res" where
  "mem_get key hash_key cache = dict_lookup key hash_key cache"

definition mem_set :: "utext \<Rightarrow> utext \<Rightarrow> qval \<Rightarrow> cache_dict \<Rightarrow> cache_dict" where
  "mem_set key hash_key v cache = dict_store key hash_key v cache"

lemma dict_lookup_store:
  "dict_lookup k' h' (dict_store k h v d) = (if k' = k \<and> h' = h then Inr v else dict_lookup k' h' d)"
  by (auto simp: dict_lookup_def dict_store_def dict_get_def split: option.split)

interpretation in_memory: cache_strategy mem_get mem_set "\<lambda>_. True" "\<lambda>_. True"
  by unfold_locales (simp_all add: mem_get_def mem_set_def dict_lookup_store)

subsection \<open>In a file\<close>

text \<open>
  The file holds one pickled dictionary. A dictionary with a value that cannot be pickled fails while it is
  written, over the file that was opened for it; such a file does not load.
\<close>

datatype cache_file = NoFile | Pickled cache_dict | Broken

definition load_cache :: "cache_file \<Rightarrow> cache_dict" where
  "load_cache f = (case f of Pickled d \<Rightarrow> d | _ \<Rightarrow> [])"

definition all_values :: "(qval \<Rightarrow> bool) \<Rightarrow> cache_dict \<Rightarrow> bool" where
  "all_values P d = list_all (list_all (P \<circ> snd) \<circ> snd) d"

definition save_cache :: "(qval \<Rightarrow> bool) \<Rightarrow> cache_dict \<Rightarrow> cache_file" where
  "save_cache picklable d = (if all_values picklable d then Pickled d else Broken)"

definition file_get :: "utext \<Rightarrow> utext \<Rightarrow> cache_file \<Rightarrow> qval res" where
  "file_get key hash_key f = dict_lookup key hash_key (load_cache f)"

definition file_set :: "(qval \<Rightarrow> bool) \<Rightarrow> utext \<Rightarrow> utext \<Rightarrow> qval \<Rightarrow> cache_file \<Rightarrow> cache_file" where
  "file_set picklable key hash_key v f = save_cache picklable (dict_store key hash_key v (load_cache f))"

definition file_ok :: "(qval \<Rightarrow> bool) \<Rightarrow> cache_file \<Rightarrow> bool" where
  "file_ok picklable f \<longleftrightarrow> all_values picklable (load_cache f)"

lemma list_all_update: "list_all P d \<Longrightarrow> P (k, v) \<Longrightarrow> list_all P (AList.update k v d)"
  by (induction d) auto

lemma all_values_store: "all_values P d \<Longrightarrow> P v \<Longrightarrow> all_values P (dict_store k h v d)"
proof -
  assume d: "all_values P d" and v: "P v"
  have "list_all (P \<circ> snd) (dict_get d k [])"
  proof (cases "map_of d k")
    case (Some e)
    then show ?thesis using d map_of_SomeD [OF Some] by (fastforce simp: all_values_def dict_get_def list_all_iff)
  qed (simp add: dict_get_def)
  then show ?thesis using d v unfolding all_values_def dict_store_def by (intro list_all_update) (simp_all add: list_all_update)
qed

lemma load_save: "load_cache (save_cache p d) = (if all_values p d then d else [])"
  by (simp add: save_cache_def load_cache_def)

interpretation on_disk: cache_strategy file_get "file_set p" p "file_ok p" for p
proof unfold_locales
  show "file_ok p (file_set p k h v s)" for s k h v
    by (simp add: file_ok_def file_set_def load_save) (simp add: all_values_def)
qed (simp add: file_get_def file_set_def file_ok_def load_save all_values_store dict_lookup_store)

text \<open>One value that cannot be pickled loses every entry of the file.\<close>

lemma unpicklable_loses_all:
  "\<not> p v \<Longrightarrow> file_get k' h' (file_set p k h v f) = Inl cache_not_found"
proof -
  assume "\<not> p v"
  have "map_of (dict_store k h v (load_cache f)) k = Some (AList.update h v (dict_get (load_cache f) k []))"
    by (simp add: dict_store_def)
  from map_of_SomeD [OF this] have "\<not> all_values p (dict_store k h v (load_cache f))"
    using \<open>\<not> p v\<close> map_of_SomeD [of "AList.update h v (dict_get (load_cache f) k [])" h v]
    by (fastforce simp: all_values_def list_all_iff)
  then show ?thesis by (simp add: file_get_def file_set_def load_save dict_lookup_def)
qed

subsection \<open>In SQLite and in Redis\<close>

text \<open>Rows hold what \<open>pickle.dumps\<close> made of the value; a write that fails is dropped.\<close>

record pickler =
  pk_dumps :: "qval \<Rightarrow> nat list option"
  pk_loads :: "nat list \<Rightarrow> qval option"

type_synonym cache_rows = "((utext \<times> utext) \<times> nat list) list"

definition sqlite_get :: "pickler \<Rightarrow> utext \<Rightarrow> utext \<Rightarrow> cache_rows \<Rightarrow> qval res" where
  "sqlite_get pk key hash_key rows =
     rbind (of_opt cache_not_found (map_of rows (key, hash_key))) (\<lambda>b. of_opt cache_not_found (pk_loads pk b))"

definition sqlite_set :: "pickler \<Rightarrow> utext \<Rightarrow> utext \<Rightarrow> qval \<Rightarrow> cache_rows \<Rightarrow> cache_rows" where
  "sqlite_set pk key hash_key v rows =
     (case pk_dumps pk v of Some b \<Rightarrow> AList.update (key, hash_key) b rows | None \<Rightarrow> rows)"

definition redis_key :: "utext \<Rightarrow> utext \<Rightarrow> utext" where
  "redis_key key hash_key = key @ [58] @ hash_key"

definition redis_get :: "pickler \<Rightarrow> utext \<Rightarrow> utext \<Rightarrow> (utext \<times> nat list) list \<Rightarrow> qval res" where
  "redis_get pk key hash_key client =
     rbind (of_opt cache_not_found (map_of client (redis_key key hash_key))) (\<lambda>b. of_opt RuntimeError (pk_loads pk b))"

definition redis_set :: "pickler \<Rightarrow> utext \<Rightarrow> utext \<Rightarrow> qval \<Rightarrow> (utext \<times> nat list) list \<Rightarrow> (utext \<times> nat list) list" where
  "redis_set pk key hash_key v client =
     (case pk_dumps pk v of Some b \<Rightarrow> AList.update (redis_key key hash_key) b client | None \<Rightarrow> client)"

definition pickles :: "pickler \<Rightarrow> qval \<Rightarrow> bool" where
  "pickles pk v \<longleftrightarrow> (case pk_dumps pk v of Some b \<Rightarrow> pk_loads pk b = Some v | None \<Rightarrow> False)"

interpretation sqlite: cache_strategy "sqlite_get pk" "sqlite_set pk" "pickles pk" "\<lambda>_. True" for pk
  by unfold_locales (auto simp: sqlite_get_def sqlite_set_def pickles_def split: option.splits)

text \<open>A hash has no colon, so the keys of Redis do not clash.\<close>

lemma redis_key_inject:
  assumes "58 \<notin> set h" and "58 \<notin> set h'"
  shows "redis_key k h = redis_key k' h' \<longleftrightarrow> k = k' \<and> h = h'"
proof -
  have *: "takeWhile (\<lambda>c. c \<noteq> 58) (t @ 58 # u) = t" if "58 \<notin> set t" for t u :: utext
    using that by (induction t) auto
  have "takeWhile (\<lambda>c. c \<noteq> 58) (rev (redis_key k h)) = rev h" if "58 \<notin> set h" for k h
    using that * [of "rev h" "rev k"] by (simp add: redis_key_def)
  then show ?thesis using assms unfolding redis_key_def by (metis append_same_eq rev_swap)
qed

interpretation redis: cache_strategy "redis_get pk" "redis_set pk" "pickles pk" "\<lambda>_. True" for pk
  by unfold_locales (auto simp: redis_get_def redis_set_def pickles_def redis_key_inject split: option.splits)

section \<open>A call through the cache\<close>

text \<open>The strategy that the configuration names, with its state.\<close>

datatype strategy =
    MemoryStrategy cache_dict
  | FileStrategy cache_file
  | SQLiteStrategy cache_rows
  | RedisStrategy "(utext \<times> nat list) list"

record cache_env =
  ce_read :: bool
  ce_write :: bool
  ce_hash :: hash_env
  ce_order :: "qval list \<Rightarrow> qval list res"
  ce_paths :: path_env
  ce_pickle :: pickler

definition strategy_get :: "cache_env \<Rightarrow> utext \<Rightarrow> utext \<Rightarrow> strategy \<Rightarrow> qval res" where
  "strategy_get env key hash_key s =
     (case s of
        MemoryStrategy d \<Rightarrow> mem_get key hash_key d
      | FileStrategy f \<Rightarrow> file_get key hash_key f
      | SQLiteStrategy rows \<Rightarrow> sqlite_get (ce_pickle env) key hash_key rows
      | RedisStrategy c \<Rightarrow> redis_get (ce_pickle env) key hash_key c)"

definition strategy_set :: "cache_env \<Rightarrow> utext \<Rightarrow> utext \<Rightarrow> qval \<Rightarrow> strategy \<Rightarrow> strategy" where
  "strategy_set env key hash_key v s =
     (case s of
        MemoryStrategy d \<Rightarrow> MemoryStrategy (mem_set key hash_key v d)
      | FileStrategy f \<Rightarrow> FileStrategy (file_set (pickles (ce_pickle env)) key hash_key v f)
      | SQLiteStrategy rows \<Rightarrow> SQLiteStrategy (sqlite_set (ce_pickle env) key hash_key v rows)
      | RedisStrategy c \<Rightarrow> RedisStrategy (redis_set (ce_pickle env) key hash_key v c))"

definition strategy_ok :: "cache_env \<Rightarrow> strategy \<Rightarrow> bool" where
  "strategy_ok env s \<longleftrightarrow> (case s of FileStrategy f \<Rightarrow> file_ok (pickles (ce_pickle env)) f | _ \<Rightarrow> True)"

interpretation strategies: cache_strategy "strategy_get env" "strategy_set env" "pickles (ce_pickle env)" "strategy_ok env" for env
proof unfold_locales
  fix s v and h h' k k' :: utext
  assume a: "strategy_ok env s" "pickles (ce_pickle env) v" "58 \<notin> set h" "58 \<notin> set h'"
  then show "strategy_get env k' h' (strategy_set env k h v s) = (if k' = k \<and> h' = h then Inr v else strategy_get env k' h' s)"
    using in_memory.get_put on_disk.get_put sqlite.get_put redis.get_put
    by (cases s) (simp_all add: strategy_get_def strategy_set_def strategy_ok_def)
next
  fix s v h k
  assume "strategy_ok env s"
  then show "strategy_ok env (strategy_set env k h v s)"
    using on_disk.inv_put by (cases s) (simp_all add: strategy_ok_def strategy_set_def)
qed

definition module_cache_get :: "cache_env \<Rightarrow> utext \<Rightarrow> qval list \<Rightarrow> (utext \<times> qval) list \<Rightarrow> strategy \<Rightarrow> qval res" where
  "module_cache_get env key args kw s =
     (if \<not> ce_read env then Inl cache_not_found
      else
        rbind (cache_hash (ce_hash env) (ce_order env) args kw) (\<lambda>hash_key.
        rbind (strategy_get env key hash_key s) (\<lambda>value.
          transform_path (ce_paths env) R2A value)))"

definition module_cache_set ::
    "cache_env \<Rightarrow> utext \<Rightarrow> qval list \<Rightarrow> (utext \<times> qval) list \<Rightarrow> qval \<Rightarrow> (strategy, unit) sx" where
  "module_cache_set env key args kw value s =
     (if \<not> ce_write env then (Inr (), s)
      else
        case rbind (cache_hash (ce_hash env) (ce_order env) args kw) (\<lambda>hash_key.
               rbind (transform_path (ce_paths env) A2R value) (\<lambda>value. Inr (hash_key, value))) of
          Inl e \<Rightarrow> (Inl e, s)
        | Inr (hash_key, value) \<Rightarrow> (Inr (), strategy_set env key hash_key value s))"

text \<open>
  A module's call: \<open>miss\<close> is what the handler of a miss raises, if anything; \<open>forward\<close> changes a state of its
  own.
\<close>

definition call_impl ::
    "cache_env \<Rightarrow> bool \<Rightarrow> exn option \<Rightarrow> (qval list \<Rightarrow> (utext \<times> qval) list \<Rightarrow> ('w, qval) sx) \<Rightarrow> utext \<Rightarrow> qval list \<Rightarrow>
       (utext \<times> qval) list \<Rightarrow> (strategy \<times> 'w, qval) sx" where
  "call_impl env use_cache miss forward key args kw =
     (\<lambda>(s, w).
       let run = (case forward args kw w of
              (Inl e, w) \<Rightarrow> (Inl e, (s, w))
            | (Inr r, w) \<Rightarrow>
                if use_cache \<and> ce_write env then
                  (case module_cache_set env key args kw r s of
                     (Inl e, s) \<Rightarrow> (Inl e, (s, w))
                   | (Inr _, s) \<Rightarrow> (Inr r, (s, w)))
                else (Inr r, (s, w)))
       in if use_cache \<and> ce_read env then
            (case module_cache_get env key args kw s of
               Inr v \<Rightarrow> (Inr v, (s, w))
             | Inl e \<Rightarrow>
                 if e = cache_not_found then (case miss of Some e \<Rightarrow> (Inl e, (s, w)) | None \<Rightarrow> run)
                 else (Inl e, (s, w)))
          else run)"

text \<open>The class's name, the user's key and the appendix of the module.\<close>

definition cache_key :: "utext \<Rightarrow> utext option \<Rightarrow> utext option \<Rightarrow> utext" where
  "cache_key class_name use_cache appendix =
     class_name @ (case use_cache of Some k \<Rightarrow> [64] @ k | None \<Rightarrow> []) @ (case appendix of Some k \<Rightarrow> [64] @ k | None \<Rightarrow> [])"

section \<open>What a hit returns\<close>

lemma hexdigest_no_colon: "58 \<notin> set (hexdigest n)"
  by (auto simp: hexdigest_def hex_digit_def split: if_splits)

lemma cache_hash_no_colon: "cache_hash env order args kw = Inr h \<Longrightarrow> 58 \<notin> set h"
  by (auto simp: cache_hash_def rbind_eq_Inr hexdigest_no_colon)

lemma get_after_set:
  assumes "strategy_ok env s" and "ce_read env" and "ce_write env" and "normal_abs (pe_temp (ce_paths env))"
    and "cache_hash (ce_hash env) (ce_order env) args kw = Inr h" and "portable (ce_paths env) v"
    and "transform_path (ce_paths env) A2R v = Inr u" and "pickles (ce_pickle env) u"
  shows "\<exists>s'. module_cache_set env key args kw v s = (Inr (), s') \<and> strategy_ok env s' \<and>
    module_cache_get env key args kw s' = Inr v"
proof -
  have "transform_path (ce_paths env) R2A u = Inr v"
    using transform_roundtrip [OF assms(4,6)] assms(7) by simp
  then show ?thesis
    using assms cache_hash_no_colon [OF assms(5)] strategies.get_put [of env s u h h key key] strategies.inv_put [of env s key h u]
    by (simp add: module_cache_set_def module_cache_get_def)
qed

text \<open>
  C22. Let the cache be read and written, and let a call with a key that can be hashed miss and return a value that is
  portable (paths below a normal absolute temporary directory come back from their relative form) and can be pickled. Then
  the next call with the same arguments, on the store that this one left and with the same files and environment, returns
  that value from the cache and leaves the module's state alone, whatever the module would do then, with each of the four
  stores. Values that are not portable are excluded: \<open>package_becomes_tuple\<close>, \<open>prefix_inside_raises\<close> and
  \<open>sibling_cut\<close> show what happens to them.
\<close>

theorem second_call_hits:
  assumes "strategy_ok env s" and "ce_read env" and "ce_write env" and "normal_abs (pe_temp (ce_paths env))"
    and "cache_hash (ce_hash env) (ce_order env) args kw = Inr h"
    and "module_cache_get env key args kw s = Inl cache_not_found"
    and "forward args kw w = (Inr v, w')" and "portable (ce_paths env) v"
    and "transform_path (ce_paths env) A2R v = Inr u" and "pickles (ce_pickle env) u"
  shows "\<exists>s'. call_impl env True None forward key args kw (s, w) = (Inr v, (s', w')) \<and>
    (\<forall>forward' miss w''. call_impl env True miss forward' key args kw (s', w'') = (Inr v, (s', w'')))"
proof -
  obtain s' where "module_cache_set env key args kw v s = (Inr (), s')" "module_cache_get env key args kw s' = Inr v"
    using get_after_set [OF assms(1-5,8-10)] by blast
  then show ?thesis using assms(2,3,6,7) by (simp add: call_impl_def)
qed

definition demo_cache_env :: cache_env where
  "demo_cache_env = \<lparr>ce_read = True, ce_write = True,
     ce_hash = \<lparr>he_temp = [47, 116], he_file = (\<lambda>p. None), he_md5 = sum_list, he_utf8 = id\<rparr>, ce_order = Inr,
     ce_paths = \<lparr>pe_cwd = [47], pe_temp = [47, 116], pe_exists = (\<lambda>p. False)\<rparr>,
     ce_pickle = \<lparr>pk_dumps = (\<lambda>v. case v of QStr s \<Rightarrow> Some s | _ \<Rightarrow> None), pk_loads = (\<lambda>b. Some (QStr b))\<rparr>\<rparr>"

theorem second_call_hits_witness:
  "\<exists>s'. call_impl demo_cache_env True None (\<lambda>args kw n. (Inr (QStr [104]), Suc n)) [77] [] [] (SQLiteStrategy [], 0) =
      (Inr (QStr [104]), (s', Suc 0)) \<and>
    (\<forall>forward' miss w''. call_impl demo_cache_env True miss forward' [77] [] [] (s', w'') = (Inr (QStr [104]), (s', w'')))"
proof -
  obtain h where h: "cache_hash (ce_hash demo_cache_env) (ce_order demo_cache_env) [] [] = Inr h"
    by (simp add: cache_hash_def)
  show ?thesis
  proof (rule second_call_hits [OF _ _ _ _ h])
    show "module_cache_get demo_cache_env [77] [] [] (SQLiteStrategy []) = Inl cache_not_found"
      unfolding module_cache_get_def h by (simp add: strategy_get_def sqlite_get_def demo_cache_env_def)
    show "portable (ce_paths demo_cache_env) (QStr [104])"
      by (rule portable.plain) (simp add: query_prefix_def)
    show "transform_path (ce_paths demo_cache_env) A2R (QStr [104]) = Inr (QStr [104])"
      by (simp add: transform_path_def query_prefix_def)
  qed (simp_all add: strategy_ok_def demo_cache_env_def normal_abs_def good_comp_def pickles_def)
qed

text \<open>A call that raises stores nothing, and without the flag the cache is not touched.\<close>

lemma failed_call_stores_nothing:
  "forward args kw w = (Inl e, w') \<Longrightarrow> fst (snd (call_impl env use miss forward key args kw (s, w))) = s"
  by (simp add: call_impl_def Let_def split: sum.split option.split)

section \<open>The hash and dictionaries\<close>

lemma sort_key_unique:
  assumes "distinct (map fst xs)" and "mset xs = mset ys"
  shows "sort_key fst xs = sort_key fst (ys :: ('a::linorder \<times> 'b) list)"
proof (rule properties_for_sort_key)
  have keys: "distinct (map fst zs)" if "mset zs = mset xs" for zs
  proof -
    have "mset (map fst zs) = mset (map fst xs)" using that by simp
    then show ?thesis using assms(1) mset_eq_imp_distinct_iff by blast
  qed
  have single: "filter (\<lambda>y. fst x = fst y) zs = [x]" if "distinct (map fst zs)" "x \<in> set zs" for x and zs :: "('a \<times> 'b) list"
    using that
  proof (induction zs)
    case (Cons z zs)
    have "filter (\<lambda>y. fst z = fst y) zs = []" using Cons.prems(1) by (auto simp: filter_empty_conv rev_image_eqI)
    then show ?case using Cons by (auto simp: rev_image_eqI)
  qed simp
  fix x
  assume "x \<in> set (sort_key fst ys)"
  then have "x \<in> set ys" "x \<in> set xs" using mset_eq_setD [OF assms(2)] by simp_all
  moreover have "distinct (map fst (sort_key fst ys))" by (rule keys) (simp add: assms(2))
  ultimately show "filter (\<lambda>y. fst x = fst y) (sort_key fst ys) = filter (\<lambda>y. fst x = fst y) xs"
    using single assms(1) by simp
qed (simp_all add: assms(2))

text \<open>
  The hash of a dictionary does not depend on the order in which its keys were inserted, so neither do the
  keys of calls that differ only in the order of keyword arguments.
\<close>

theorem hash_ignores_order:
  assumes "distinct (map fst kw)" and "mset kw = mset kw'"
  shows "cache_hash env order args kw = cache_hash env order args kw'"
proof -
  let ?f = "\<lambda>(k, v). (k, process_value env order v)"
  have "distinct (map fst (map ?f kw))" using assms(1) by (simp add: case_prod_beta' comp_def)
  moreover have "mset (map ?f kw) = mset (map ?f kw')" using assms(2) by (metis mset_map)
  ultimately have "sort_key fst (map ?f kw) = sort_key fst (map ?f kw')" by (rule sort_key_unique)
  moreover have "length kw = length kw'" by (rule mset_eq_length [OF assms(2)])
  moreover have "kw = [] \<longleftrightarrow> kw' = []" using assms(2) by auto
  ultimately show ?thesis by (simp add: cache_hash_def wrapped_def Let_def)
qed

theorem hash_ignores_order_witness:
  "cache_hash (ce_hash demo_cache_env) Inr [] [([97], QNum [49]), ([98], QNum [50])] =
    cache_hash (ce_hash demo_cache_env) Inr [] [([98], QNum [50]), ([97], QNum [49])]"
  by (rule hash_ignores_order) simp_all

text \<open>The keys are not delimited: two different dictionaries feed the same text to the hash.\<close>

lemma hash_collision:
  assumes "int_one = type_text (QNum [49]) @ [49]" and "int_two = type_text (QNum [50]) @ [50]"
    and "d = [([112], QNum [49]), ([113] @ int_two @ key_meta [114], QNum [51])]"
    and "d' = [([112] @ int_one @ key_meta [113], QNum [50]), ([114], QNum [51])]"
  shows "d \<noteq> d'" and "process_value env order (QDict d) = process_value env order (QDict d')"
  using assms by (simp_all add: wrapped_def key_meta_def class_text_def udigit_def)

end
