(* ===== verification/Migrations.thy ===== *)
theory Migrations
  imports PyText "HOL-Library.List_Lexorder" "HOL-Library.Char_ord"
begin

text \<open>
  The migrations of the document database (\<open>tools/rag/db_migrate/runner.py\<close>): which files are migrations and
  in which order, the row that serves as a lock, the detection of databases that are older than the
  runner, and the steps that any number of processes take on one database at the same time.
\<close>

section \<open>Version files\<close>

definition digits_prefix :: "string \<Rightarrow> string" where
  "digits_prefix s = takeWhile is_digit s"

text \<open>\<open>^(dev_\d+)_(.+)$\<close> and \<open>^(\d{4})_(.+)$\<close> on the name without its suffix.\<close>

definition dev_version :: "string \<Rightarrow> string option" where
  "dev_version stem =
     (if take 4 stem = ''dev_'' then
        let d = digits_prefix (drop 4 stem); r = drop (4 + length d) stem in
        if d \<noteq> [] \<and> take 1 r = ''_'' \<and> 1 < length r then Some (''dev_'' @ d) else None
      else None)"

definition release_version :: "string \<Rightarrow> string option" where
  "release_version stem =
     (if length (digits_prefix (take 4 stem)) = 4 \<and> take 1 (drop 4 stem) = ''_'' \<and> 5 < length stem
      then Some (take 4 stem) else None)"

definition parse_filename :: "string \<Rightarrow> (string \<times> string) option" where
  "parse_filename fname =
     (let stem = take (length fname - 3) fname in
      case dev_version stem of
        Some v \<Rightarrow> Some (v, stem)
      | None \<Rightarrow> map_option (\<lambda>v. (v, stem)) (release_version stem))"

definition is_version_file :: "string \<Rightarrow> bool" where
  "is_version_file fname \<longleftrightarrow> ends_with ''.py'' fname \<and> fname \<noteq> ''__init__.py''"

definition is_dev :: "string \<times> string \<Rightarrow> bool" where
  "is_dev x \<longleftrightarrow> take 4 (fst x) = ''dev_''"

text \<open>Releases by version, then development files by version; the sorts are stable.\<close>

definition sorted_version_files :: "string list \<Rightarrow> (string \<times> string) list" where
  "sorted_version_files names =
     (let entries = List.map_filter parse_filename (filter is_version_file names) in
      sort_key fst (filter (Not \<circ> is_dev) entries) @ sort_key fst (filter is_dev entries))"

definition pending_versions :: "string list \<Rightarrow> (string \<times> string) list \<Rightarrow> (string \<times> string) list" where
  "pending_versions applied files = filter (\<lambda>(v, n). v \<notin> set applied) files"

section \<open>The table of versions\<close>

definition lock_version :: string where
  "lock_version = ''__migrating__''"

text \<open>Rows of version and name; the version is the primary key, and the insert ignores a row that is there.\<close>

type_synonym version_rows = "(string \<times> string) list"

definition insert_ignore :: "string \<times> string \<Rightarrow> version_rows \<Rightarrow> version_rows" where
  "insert_ignore r rows = (if fst r \<in> fst ` set rows then rows else rows @ [r])"

text \<open>The lock is taken when the insert added its row.\<close>

definition acquire_lock :: "version_rows \<Rightarrow> bool \<times> version_rows" where
  "acquire_lock rows =
     (let rows' = insert_ignore (lock_version, lock_version) rows in (length rows' = Suc (length rows), rows'))"

definition release_lock :: "version_rows \<Rightarrow> version_rows" where
  "release_lock rows = filter (\<lambda>r. fst r \<noteq> lock_version) rows"

definition lock_exists :: "version_rows \<Rightarrow> bool" where
  "lock_exists rows \<longleftrightarrow> lock_version \<in> fst ` set rows"

definition applied_versions :: "version_rows \<Rightarrow> string list" where
  "applied_versions rows = filter (\<lambda>v. v \<noteq> lock_version) (map fst rows)"

definition record_versions_bulk :: "(string \<times> string) list \<Rightarrow> version_rows \<Rightarrow> version_rows" where
  "record_versions_bulk pairs rows = fold insert_ignore pairs rows"

text \<open>
  A database without versions that has tables: what the tables show, the names of all tables and the columns
  of the table of parse states, decides which versions count as applied.
\<close>

record 's mig_env =
  me_files :: "string list"
  me_up :: "string \<Rightarrow> ('s, unit) sx"
  me_tables :: "'s \<Rightarrow> string list"
  me_parse_columns :: "'s \<Rightarrow> string list"

definition detect_and_bootstrap :: "'s mig_env \<Rightarrow> 's \<Rightarrow> version_rows \<Rightarrow> version_rows" where
  "detect_and_bootstrap env schema rows =
     (if applied_versions rows \<noteq> [] then rows
      else
        let existing = me_tables env schema; files = sorted_version_files (me_files env) in
        if ''documents'' \<in> set existing \<or> ''lazyllm_waiting_task_queue'' \<in> set existing then rows
        else if ''lazyllm_documents'' \<in> set existing then
          let cols = (if ''lazyllm_doc_parse_state'' \<in> set existing then me_parse_columns env schema else []) in
          if ''idempotency_key'' \<notin> set cols then
            record_versions_bulk (filter (\<lambda>(v, n). v \<in> {''0001'', ''0002''}) files) rows
          else record_versions_bulk (filter (\<lambda>(v, n). v \<in> {''0001'', ''0002'', ''0003''}) files) rows
        else rows)"

section \<open>Processes on one database\<close>

text \<open>
  Where a process is in \<open>run_up\<close>: before the attempt to lock, with the lock and the versions that are still to
  run, after one ran and before it is recorded, waiting with the polls that are left, between the two
  queries of a poll, at its end, or gone.
\<close>

datatype proc =
    Start
  | Locked
  | Applying "(string \<times> string) list"
  | Recording "string \<times> string" "(string \<times> string) list"
  | Waiting nat
  | Polled bool nat
  | Finished
  | Failed
  | Crashed

text \<open>The shared database; the migrations that ran to their end, and those of them whose record was lost.\<close>

record 's mig_state =
  ms_rows :: version_rows
  ms_schema :: 's
  ms_proc :: "nat \<Rightarrow> proc"
  ms_ran :: "string list"
  ms_lost :: "string list"

definition goto :: "nat \<Rightarrow> proc \<Rightarrow> 's mig_state \<Rightarrow> 's mig_state" where
  "goto i p s = s\<lparr>ms_proc := (ms_proc s)(i := p)\<rparr>"

definition wait_polls :: nat where
  "wait_polls = 120"

definition all_applied :: "'s mig_env \<Rightarrow> 's mig_state \<Rightarrow> bool" where
  "all_applied env s \<longleftrightarrow>
     (\<forall>f \<in> set (sorted_version_files (me_files env)). fst f \<in> set (applied_versions (ms_rows s)))"

text \<open>The end of a run with the lock: releasing it may fail, and then only leaves its row.\<close>

definition released :: "version_rows \<Rightarrow> version_rows \<Rightarrow> bool" where
  "released rows rows' \<longleftrightarrow> rows' = release_lock rows \<or> rows' = rows"

text \<open>
  A process that is killed leaves everything as it is. An attempt to lock that fails counts as not locked. An
  error with the lock comes from the database, from a migration, which may have changed the schema, or
  from the insert that records it.
\<close>

inductive mig_step :: "'s mig_env \<Rightarrow> 's mig_state \<Rightarrow> 's mig_state \<Rightarrow> bool" for env where
  lock: "ms_proc s i = Start \<Longrightarrow> acquire_lock (ms_rows s) = (True, rows) \<Longrightarrow>
    mig_step env s (goto i Locked (s\<lparr>ms_rows := rows\<rparr>))"
| no_lock: "ms_proc s i = Start \<Longrightarrow> mig_step env s (goto i (Waiting wait_polls) s)"
| boot: "ms_proc s i = Locked \<Longrightarrow> rows = detect_and_bootstrap env (ms_schema s) (ms_rows s) \<Longrightarrow>
    mig_step env s (goto i (Applying (pending_versions (applied_versions rows) (sorted_version_files (me_files env)))) (s\<lparr>ms_rows := rows\<rparr>))"
| up: "ms_proc s i = Applying (f # fs) \<Longrightarrow> me_up env (fst f) (ms_schema s) = (Inr (), schema) \<Longrightarrow>
    mig_step env s (goto i (Recording f fs) (s\<lparr>ms_schema := schema, ms_ran := ms_ran s @ [fst f]\<rparr>))"
| record_up: "ms_proc s i = Recording f fs \<Longrightarrow>
    mig_step env s (goto i (Applying fs) (s\<lparr>ms_rows := insert_ignore f (ms_rows s)\<rparr>))"
| finish: "ms_proc s i = Applying [] \<Longrightarrow> released (ms_rows s) rows \<Longrightarrow> mig_step env s (goto i Finished (s\<lparr>ms_rows := rows\<rparr>))"
| up_raises: "ms_proc s i = Applying (f # fs) \<Longrightarrow> me_up env (fst f) (ms_schema s) = (Inl e, schema) \<Longrightarrow> released (ms_rows s) rows \<Longrightarrow>
    mig_step env s (goto i Failed (s\<lparr>ms_rows := rows, ms_schema := schema\<rparr>))"
| db_raises: "ms_proc s i = Locked \<Longrightarrow> released (ms_rows s) rows \<Longrightarrow> mig_step env s (goto i Failed (s\<lparr>ms_rows := rows\<rparr>))"
| record_raises: "ms_proc s i = Recording f fs \<Longrightarrow> released (ms_rows s) rows \<Longrightarrow>
    mig_step env s (goto i Failed (s\<lparr>ms_rows := rows, ms_lost := ms_lost s @ [fst f]\<rparr>))"
| poll: "ms_proc s i = Waiting (Suc n) \<Longrightarrow> mig_step env s (goto i (Polled (lock_exists (ms_rows s)) n) s)"
| peer_done: "ms_proc s i = Polled False n \<Longrightarrow> all_applied env s \<Longrightarrow> mig_step env s (goto i Finished s)"
| take_over: "ms_proc s i = Polled False n \<Longrightarrow> \<not> all_applied env s \<Longrightarrow> mig_step env s (goto i Start s)"
| wait_more: "ms_proc s i = Polled True n \<Longrightarrow> mig_step env s (goto i (Waiting n) s)"
| timeout: "ms_proc s i = Waiting n \<Longrightarrow> mig_step env s (goto i Failed s)"
| crash: "ms_proc s i \<notin> {Finished, Failed} \<Longrightarrow> (\<And>f fs. ms_proc s i \<noteq> Recording f fs) \<Longrightarrow> mig_step env s (goto i Crashed s)"
| crash_recording: "ms_proc s i = Recording f fs \<Longrightarrow> mig_step env s (goto i Crashed (s\<lparr>ms_lost := ms_lost s @ [fst f]\<rparr>))"

inductive mig_reach :: "'s mig_env \<Rightarrow> 's mig_state \<Rightarrow> 's mig_state \<Rightarrow> bool" for env s where
  refl: "mig_reach env s s"
| step: "mig_reach env s t \<Longrightarrow> mig_step env t u \<Longrightarrow> mig_reach env s u"

text \<open>Processes that only start, on a table without the lock.\<close>

definition mig_init :: "'s \<Rightarrow> version_rows \<Rightarrow> 's mig_state" where
  "mig_init schema rows = \<lparr>ms_rows = rows, ms_schema = schema, ms_proc = (\<lambda>i. Start), ms_ran = [], ms_lost = []\<rparr>"


section \<open>One at a time, in order, once\<close>

fun holds_lock :: "proc \<Rightarrow> bool" where
  "holds_lock Locked = True"
| "holds_lock (Applying fs) = True"
| "holds_lock (Recording f fs) = True"
| "holds_lock _ = False"

text \<open>The versions that the process is about to run, the one it is recording first.\<close>

fun to_run :: "proc \<Rightarrow> (string \<times> string) list" where
  "to_run (Applying fs) = fs"
| "to_run (Recording f fs) = f # fs"
| "to_run _ = []"

lemma fst_insert_ignore: "fst ` set (insert_ignore r rows) = insert (fst r) (fst ` set rows)"
  by (auto simp: insert_ignore_def)

lemma fst_record_bulk: "fst ` set (record_versions_bulk ps rows) = fst ` set ps \<union> fst ` set rows"
  unfolding record_versions_bulk_def by (induction ps arbitrary: rows) (auto simp: fst_insert_ignore)

lemma set_applied: "set (applied_versions rows) = fst ` set rows - {lock_version}"
  by (auto simp: applied_versions_def)

lemma applied_insert: "fst f \<noteq> lock_version \<Longrightarrow> set (applied_versions (insert_ignore f rows)) = insert (fst f) (set (applied_versions rows))"
  by (auto simp: set_applied fst_insert_ignore)

lemma applied_lock: "applied_versions (rows @ [(lock_version, n)]) = applied_versions rows"
  by (simp add: applied_versions_def)

lemma acquire_lock_True:
  "acquire_lock rows = (True, rows') \<longleftrightarrow> \<not> lock_exists rows \<and> rows' = rows @ [(lock_version, lock_version)]"
  by (auto simp: acquire_lock_def insert_ignore_def lock_exists_def Let_def)

lemma lock_exists_insert: "lock_exists rows \<Longrightarrow> lock_exists (insert_ignore r rows)"
  by (simp add: lock_exists_def fst_insert_ignore)

lemma applied_released: "released rows rows' \<Longrightarrow> set (applied_versions rows') = set (applied_versions rows)"
  by (auto simp: released_def release_lock_def set_applied)

lemma files_not_lock: "f \<in> set (sorted_version_files names) \<Longrightarrow> fst f \<noteq> lock_version"
proof -
  assume f: "f \<in> set (sorted_version_files names)"
  have "dev_version stem \<noteq> Some lock_version" for stem
    by (auto simp: dev_version_def lock_version_def Let_def)
  moreover have "release_version stem \<noteq> Some lock_version" for stem
    by (auto simp: release_version_def lock_version_def dest: arg_cong [of _ _ length])
  ultimately have "parse_filename n \<noteq> Some (lock_version, m)" for n m
    by (auto simp: parse_filename_def Let_def split: option.splits)
  then show ?thesis using f by (cases f) (auto simp: sorted_version_files_def List.map_filter_def Let_def)
qed

lemma detect_applied_subset: "set (applied_versions rows) \<subseteq> set (applied_versions (detect_and_bootstrap env schema rows))"
  by (auto simp: detect_and_bootstrap_def Let_def set_applied fst_record_bulk)

lemma detect_lock: "lock_exists rows \<Longrightarrow> lock_exists (detect_and_bootstrap env schema rows)"
  by (auto simp: lock_exists_def detect_and_bootstrap_def Let_def fst_record_bulk)

lemma goto_simps [simp]:
  "ms_proc (goto i p s) = (ms_proc s)(i := p)" "ms_rows (goto i p s) = ms_rows s"
  "ms_ran (goto i p s) = ms_ran s" "ms_lost (goto i p s) = ms_lost s"
  by (simp_all add: goto_def)

lemma all_applied_goto [simp]: "all_applied env (goto i p s) = all_applied env s"
  by (simp add: all_applied_def)

text \<open>What holds at every moment: one holder, whose row is there, and whose list is exactly what is not applied.\<close>

definition one_holder :: "'s mig_state \<Rightarrow> bool" where
  "one_holder s \<longleftrightarrow> (\<forall>i j. holds_lock (ms_proc s i) \<longrightarrow> holds_lock (ms_proc s j) \<longrightarrow> i = j) \<and>
     (\<forall>i. holds_lock (ms_proc s i) \<longrightarrow> lock_exists (ms_rows s))"

definition left_to_run :: "'s mig_env \<Rightarrow> 's mig_state \<Rightarrow> bool" where
  "left_to_run env s \<longleftrightarrow> (\<forall>i. (ms_proc s i \<noteq> Locked \<and> holds_lock (ms_proc s i)) \<longrightarrow>
     to_run (ms_proc s i) = pending_versions (applied_versions (ms_rows s)) (sorted_version_files (me_files env)))"

definition recording :: "'s mig_state \<Rightarrow> string \<Rightarrow> bool" where
  "recording s v \<longleftrightarrow> (\<exists>i f fs. ms_proc s i = Recording f fs \<and> fst f = v)"

definition runs_counted :: "'s mig_state \<Rightarrow> bool" where
  "runs_counted s \<longleftrightarrow> (\<forall>v. count_list (ms_ran s) v \<le>
     count_list (ms_lost s) v + of_bool (v \<in> set (applied_versions (ms_rows s)) \<or> recording s v))"

definition finished_complete :: "'s mig_env \<Rightarrow> 's mig_state \<Rightarrow> bool" where
  "finished_complete env s \<longleftrightarrow> (\<forall>i. ms_proc s i = Finished \<longrightarrow> all_applied env s)"

lemma holder_lock: "one_holder s \<Longrightarrow> ms_proc s i = p \<Longrightarrow> holds_lock p \<Longrightarrow> lock_exists (ms_rows s)"
  by (auto simp: one_holder_def)

lemma only_holder: "one_holder s \<Longrightarrow> ms_proc s i = p \<Longrightarrow> holds_lock p \<Longrightarrow> j \<noteq> i \<Longrightarrow> \<not> holds_lock (ms_proc s j)"
  by (auto simp: one_holder_def)

lemma one_holder_keep:
  "one_holder s \<Longrightarrow> ms_proc t = (ms_proc s)(i := p) \<Longrightarrow> holds_lock (ms_proc s i) \<Longrightarrow>
    lock_exists (ms_rows t) \<or> \<not> holds_lock p \<Longrightarrow> one_holder t"
  unfolding one_holder_def by (metis fun_upd_apply)

lemma one_holder_other:
  "one_holder s \<Longrightarrow> ms_proc t = (ms_proc s)(i := p) \<Longrightarrow> \<not> holds_lock p \<Longrightarrow> ms_rows t = ms_rows s \<Longrightarrow> one_holder t"
  unfolding one_holder_def by (metis fun_upd_apply)

lemma one_holder_take:
  "one_holder s \<Longrightarrow> ms_proc t = (ms_proc s)(i := p) \<Longrightarrow> \<not> lock_exists (ms_rows s) \<Longrightarrow> lock_exists (ms_rows t) \<Longrightarrow> one_holder t"
  unfolding one_holder_def by (auto split: if_splits)

lemma one_holder_step:
  assumes "mig_step env s t" and "one_holder s"
  shows "one_holder t"
  using assms(1)
proof (cases rule: mig_step.cases)
  case (lock i rows)
  then show ?thesis using assms(2) by (intro one_holder_take [OF assms(2)]) (auto simp: acquire_lock_True lock_exists_def)
next
  case (boot i rows)
  have "lock_exists (ms_rows s)" using holder_lock [OF assms(2) boot(2)] by simp
  then show ?thesis using assms(2) boot by (intro one_holder_keep [OF assms(2)]) (auto simp: detect_lock)
next
  case (record_up i f fs)
  have "lock_exists (ms_rows s)" using holder_lock [OF assms(2) record_up(2)] by simp
  then show ?thesis using assms(2) record_up by (intro one_holder_keep [OF assms(2)]) (auto simp: lock_exists_insert)
next
  case (up i f fs schema)
  have "lock_exists (ms_rows s)" using holder_lock [OF assms(2) up(2)] by simp
  then show ?thesis using assms(2) up by (intro one_holder_keep [OF assms(2)]) auto
qed (auto intro: one_holder_keep [OF assms(2)] one_holder_other [OF assms(2)])

text \<open>What a step does to the rows: only a holder changes what is applied, and what is applied stays.\<close>

lemma applied_grows:
  assumes "mig_step env s t"
  shows "set (applied_versions (ms_rows s)) \<subseteq> set (applied_versions (ms_rows t))"
  using assms
proof (cases rule: mig_step.cases)
  case (boot i rows)
  then show ?thesis using detect_applied_subset [of "ms_rows s" env "ms_schema s"] by simp
next
  case (record_up i f fs)
  then show ?thesis by (auto simp: set_applied fst_insert_ignore)
qed (auto simp: acquire_lock_True applied_released applied_lock)

lemma all_applied_mono: "mig_step env s t \<Longrightarrow> all_applied env s \<Longrightarrow> all_applied env t"
  using applied_grows unfolding all_applied_def by blast

lemma pending_cong:
  "set (applied_versions r) = set (applied_versions r') \<Longrightarrow>
    pending_versions (applied_versions r) fs = pending_versions (applied_versions r') fs"
  by (simp add: pending_versions_def)

lemma pending_next:
  assumes "f # fs = pending_versions vs files" and "distinct (map fst files)" and "set ws = insert (fst f) (set vs)"
  shows "fs = pending_versions ws files"
proof -
  have "fs = filter (\<lambda>g. fst g \<noteq> fst f) (f # fs)"
  proof -
    have "distinct (map fst (f # fs))" unfolding assms(1) pending_versions_def by (rule distinct_map_filter [OF assms(2)])
    then have "filter (\<lambda>g. fst g \<noteq> fst f) fs = fs" by (intro filter_True) (auto simp: image_iff)
    then show ?thesis by (metis (mono_tags) filter.simps(2))
  qed
  also have "\<dots> = pending_versions ws files"
    unfolding assms(1) pending_versions_def filter_filter by (rule filter_cong) (auto simp: assms(3))
  finally show ?thesis .
qed

lemma pending_in: "f \<in> set (pending_versions vs files) \<Longrightarrow> f \<in> set files \<and> fst f \<notin> set vs"
  by (auto simp: pending_versions_def)

lemma left_to_run_step:
  assumes "mig_step env s t" and "one_holder s" and "left_to_run env s"
    and "distinct (map fst (sorted_version_files (me_files env)))"
  shows "left_to_run env t"
proof -
  have left: "to_run p = pending_versions (applied_versions (ms_rows s)) (sorted_version_files (me_files env))"
    if "ms_proc s i = p" "holds_lock p" "p \<noteq> Locked" for i p
    using assms(3) that unfolding left_to_run_def by blast
  note others = only_holder [OF assms(2)]
  from assms(1) show ?thesis
  proof (cases rule: mig_step.cases)
    case (lock i rows)
    then have "\<not> holds_lock (ms_proc s j)" for j using holder_lock [OF assms(2)] by (auto simp: acquire_lock_True)
    then show ?thesis using lock by (simp add: left_to_run_def)
  next
    case (boot i rows)
    then show ?thesis using others [OF boot(2)] by (simp add: left_to_run_def)
  next
    case (up i f fs schema)
    then show ?thesis using others [OF up(2)] left [OF up(2)] by (simp add: left_to_run_def)
  next
    case (record_up i f fs)
    have f: "f # fs = pending_versions (applied_versions (ms_rows s)) (sorted_version_files (me_files env))"
      using left [OF record_up(2)] by simp
    then have "fst f \<noteq> lock_version" using pending_in [of f] files_not_lock by (metis list.set_intros(1))
    then have "fs = pending_versions (applied_versions (insert_ignore f (ms_rows s))) (sorted_version_files (me_files env))"
      by (intro pending_next [OF f assms(4)]) (simp add: applied_insert)
    then show ?thesis using record_up others [OF record_up(2)] by (simp add: left_to_run_def)
  next
    case (finish i rows)
    then show ?thesis using others [OF finish(2)] by (simp add: left_to_run_def)
  next
    case (up_raises i f fs e schema rows)
    then show ?thesis using others [OF up_raises(2)] by (simp add: left_to_run_def)
  next
    case (db_raises i rows)
    then show ?thesis using others [OF db_raises(2)] by (simp add: left_to_run_def)
  next
    case (record_raises i f fs rows)
    then show ?thesis using others [OF record_raises(2)] by (simp add: left_to_run_def)
  qed (use left in \<open>auto simp: left_to_run_def\<close>)
qed

lemma recording_upd:
  "ms_proc t = (ms_proc s)(i := p) \<Longrightarrow> (\<And>f fs. ms_proc s i = Recording f fs \<Longrightarrow> fst f \<noteq> v) \<Longrightarrow> recording s v \<Longrightarrow> recording t v"
  unfolding recording_def by (metis fun_upd_apply)

lemma runs_counted_step:
  assumes "mig_step env s t" and "one_holder s" and "left_to_run env s" and "runs_counted s"
  shows "runs_counted t"
proof -
  have counted: "count_list (ms_ran s) v \<le> count_list (ms_lost s) v + of_bool (v \<in> set (applied_versions (ms_rows s)) \<or> recording s v)" for v
    using assms(4) by (simp add: runs_counted_def)
  note grows = applied_grows [OF assms(1)]
  have same: "runs_counted t"
    if "ms_ran t = ms_ran s" "\<And>v. count_list (ms_lost s) v \<le> count_list (ms_lost t) v"
      "\<And>v. recording s v \<Longrightarrow> v \<in> set (applied_versions (ms_rows t)) \<or> recording t v \<or> count_list (ms_lost s) v < count_list (ms_lost t) v"
  proof -
    have "count_list (ms_ran t) v \<le> count_list (ms_lost t) v + of_bool (v \<in> set (applied_versions (ms_rows t)) \<or> recording t v)" for v
      using counted [of v] that(2,3) [of v] grows unfolding that(1) by (auto split: if_splits simp: of_bool_def)
    then show ?thesis by (simp add: runs_counted_def)
  qed
  from assms(1) show ?thesis
  proof (cases rule: mig_step.cases)
    case (up i f fs schema)
    have "f \<in> set (pending_versions (applied_versions (ms_rows s)) (sorted_version_files (me_files env)))"
      using assms(3) up(2) unfolding left_to_run_def by (metis holds_lock.simps(2) list.set_intros(1) proc.distinct(17) to_run.simps(1))
    then have "fst f \<notin> set (applied_versions (ms_rows s))" using pending_in by blast
    moreover have "\<not> recording s v" for v
    proof
      assume "recording s v"
      then obtain j g gs where j: "ms_proc s j = Recording g gs" by (auto simp: recording_def)
      then have "j \<noteq> i" using up(2) by auto
      then show False using only_holder [OF assms(2) up(2)] j by fastforce
    qed
    moreover have "recording t (fst f)" unfolding recording_def using up(1) by (metis fun_upd_same goto_simps(1))
    ultimately have "count_list (ms_ran t) v \<le>
        count_list (ms_lost t) v + of_bool (v \<in> set (applied_versions (ms_rows t)) \<or> recording t v)" for v
      using counted [of v] up(1) by (cases "v = fst f") (auto simp: of_bool_def split: if_splits)
    then show ?thesis by (simp add: runs_counted_def)
  next
    case (record_up i f fs)
    have "recording s v \<Longrightarrow> v = fst f \<or> recording t v" for v
      using record_up by (cases "v = fst f") (auto intro: recording_upd)
    moreover have "fst f \<in> set (applied_versions (ms_rows t))"
    proof -
      have "f \<in> set (pending_versions (applied_versions (ms_rows s)) (sorted_version_files (me_files env)))"
        using assms(3) record_up(2) unfolding left_to_run_def by (metis holds_lock.simps(3) list.set_intros(1) proc.distinct(19) to_run.simps(2))
      then have "fst f \<noteq> lock_version" using pending_in files_not_lock by blast
      then show ?thesis using record_up(1) by (simp add: applied_insert)
    qed
    ultimately show ?thesis using record_up by (intro same) auto
  next
    case (record_raises i f fs rows)
    have "recording s v \<Longrightarrow> v = fst f \<or> recording t v" for v
      using record_raises by (cases "v = fst f") (auto intro: recording_upd)
    then show ?thesis using record_raises by (intro same) auto
  next
    case (crash_recording i f fs)
    have "recording s v \<Longrightarrow> v = fst f \<or> recording t v" for v
      using crash_recording by (cases "v = fst f") (auto intro: recording_upd)
    then show ?thesis using crash_recording by (intro same) auto
  next
    case (crash i)
    then have "recording s v \<Longrightarrow> recording t v" for v by (intro recording_upd [of t s i Crashed]) auto
    then show ?thesis using crash by (intro same) auto
  qed (rule same; auto intro: recording_upd)+
qed

lemma finished_step:
  assumes "mig_step env s t" and "left_to_run env s" and "finished_complete env s"
  shows "finished_complete env t"
proof -
  have old: "all_applied env t" if "ms_proc s j = Finished" for j
    using all_applied_mono [OF assms(1)] assms(3) that by (auto simp: finished_complete_def)
  from assms(1) show ?thesis
  proof (cases rule: mig_step.cases)
    case (finish i rows)
    have "pending_versions (applied_versions (ms_rows s)) (sorted_version_files (me_files env)) = []"
      using assms(2) finish(2) unfolding left_to_run_def by (metis holds_lock.simps(2) proc.distinct(17) to_run.simps(1))
    then have "all_applied env s" by (auto simp: all_applied_def pending_versions_def filter_empty_conv)
    then show ?thesis using all_applied_mono [OF assms(1)] by (simp add: finished_complete_def)
  next
    case (peer_done i n)
    then show ?thesis using all_applied_mono [OF assms(1)] by (simp add: finished_complete_def)
  qed (use old in \<open>auto simp: finished_complete_def split: if_splits\<close>)
qed

lemma mig_invariant:
  assumes "mig_reach env (mig_init schema rows) s" and "\<not> lock_exists rows"
    and "distinct (map fst (sorted_version_files (me_files env)))"
  shows "one_holder s \<and> left_to_run env s \<and> runs_counted s \<and> finished_complete env s"
  using assms(1)
proof induction
  case refl
  show ?case
    by (simp add: one_holder_def left_to_run_def runs_counted_def finished_complete_def mig_init_def)
next
  case (step t u)
  then show ?case
    using one_holder_step left_to_run_step [OF _ _ _ assms(3)] runs_counted_step finished_step by blast
qed

text \<open>
  C11. Whatever the interleaving of processes, their crashes and the errors of the database: at most one process
  has the lock; a migration is started only when the ones before it are recorded and it is not; it runs to
  its end once, and once more for each of its runs whose record was lost; and a process whose run is over
  leaves a database with every version recorded.
\<close>

theorem migrations_safe:
  assumes "mig_reach env (mig_init schema rows) s" and "\<not> lock_exists rows"
    and "distinct (map fst (sorted_version_files (me_files env)))"
  shows "(\<forall>i j. holds_lock (ms_proc s i) \<and> holds_lock (ms_proc s j) \<longrightarrow> i = j) \<and>
    (\<forall>i f fs. ms_proc s i = Applying (f # fs) \<longrightarrow>
       fst f \<notin> set (applied_versions (ms_rows s)) \<and>
       (\<exists>before after. sorted_version_files (me_files env) = before @ f # after \<and>
          fst ` set before \<subseteq> set (applied_versions (ms_rows s)))) \<and>
    (\<forall>v. count_list (ms_ran s) v \<le> Suc (count_list (ms_lost s) v)) \<and>
    (\<forall>i. ms_proc s i = Finished \<longrightarrow>
       fst ` set (sorted_version_files (me_files env)) \<subseteq> set (applied_versions (ms_rows s)))"
proof (intro conjI allI impI)
  note inv = mig_invariant [OF assms]
  fix i j
  assume "holds_lock (ms_proc s i) \<and> holds_lock (ms_proc s j)"
  then show "i = j" using inv by (auto simp: one_holder_def)
next
  note inv = mig_invariant [OF assms]
  fix i f fs
  let ?files = "sorted_version_files (me_files env)" and ?vs = "applied_versions (ms_rows s)"
  assume "ms_proc s i = Applying (f # fs)"
  then have *: "f # fs = filter (\<lambda>g. fst g \<notin> set ?vs) ?files"
    using inv unfolding left_to_run_def pending_versions_def
    by (metis (no_types, lifting) case_prod_beta' filter_cong holds_lock.simps(2) proc.distinct(17) to_run.simps(1))
  then have "f \<in> set (filter (\<lambda>g. fst g \<notin> set ?vs) ?files)" by (metis list.set_intros(1))
  then show "fst f \<notin> set ?vs" by simp
  from * obtain before after where "?files = before @ f # after" "\<forall>g \<in> set before. \<not> fst g \<notin> set ?vs"
    using filter_eq_Cons_iff [of "\<lambda>g. fst g \<notin> set ?vs" ?files f fs] by auto
  then show "\<exists>before after. ?files = before @ f # after \<and> fst ` set before \<subseteq> set ?vs" by blast
next
  note inv = mig_invariant [OF assms]
  fix v
  have "count_list (ms_ran s) v \<le> count_list (ms_lost s) v + of_bool (v \<in> set (applied_versions (ms_rows s)) \<or> recording s v)"
    using inv by (simp add: runs_counted_def)
  then show "count_list (ms_ran s) v \<le> Suc (count_list (ms_lost s) v)" by (simp add: of_bool_def split: if_splits)
next
  note inv = mig_invariant [OF assms]
  fix i
  assume "ms_proc s i = Finished"
  then show "fst ` set (sorted_version_files (me_files env)) \<subseteq> set (applied_versions (ms_rows s))"
    using inv by (auto simp: finished_complete_def all_applied_def)
qed

definition demo_mig_env :: "unit mig_env" where
  "demo_mig_env = \<lparr>me_files = [''0001_base.py'', ''__init__.py''], me_up = (\<lambda>v s. (Inr (), s)), me_tables = (\<lambda>s. []), me_parse_columns = (\<lambda>s. [])\<rparr>"

lemma demo_files: "sorted_version_files (me_files demo_mig_env) = [(''0001'', ''0001_base'')]"
  by (simp add: demo_mig_env_def sorted_version_files_def List.map_filter_def is_version_file_def ends_with_def starts_with_def
      parse_filename_def dev_version_def release_version_def digits_prefix_def is_digit_def code_def is_dev_def numeral_2_eq_2 Let_def)

lemma demo_run:
  "\<exists>s. mig_reach demo_mig_env (mig_init () []) s \<and> ms_proc s 0 = Finished \<and> ms_ran s = [''0001'']"
proof -
  let ?env = demo_mig_env and ?f = "(''0001'', ''0001_base'')"
  define s0 where "s0 = (mig_init () [] :: unit mig_state)"
  define s1 where "s1 = goto 0 Locked (s0\<lparr>ms_rows := [(lock_version, lock_version)]\<rparr>)"
  define s2 where "s2 = goto 0 (Applying [?f]) (s1\<lparr>ms_rows := [(lock_version, lock_version)]\<rparr>)"
  define s3 where "s3 = goto 0 (Recording ?f []) (s2\<lparr>ms_schema := (), ms_ran := ms_ran s2 @ [fst ?f]\<rparr>)"
  define s4 where "s4 = goto 0 (Applying []) (s3\<lparr>ms_rows := insert_ignore ?f (ms_rows s3)\<rparr>)"
  define s5 where "s5 = goto 0 Finished (s4\<lparr>ms_rows := release_lock (ms_rows s4)\<rparr>)"
  have boot: "detect_and_bootstrap ?env () [(lock_version, lock_version)] = [(lock_version, lock_version)]"
    by (simp add: detect_and_bootstrap_def applied_versions_def demo_mig_env_def Let_def)
  have "mig_step ?env s0 s1" unfolding s1_def
    by (rule mig_step.lock) (simp_all add: s0_def mig_init_def acquire_lock_def insert_ignore_def Let_def)
  moreover have "mig_step ?env s1 s2"
  proof -
    have p: "pending_versions (applied_versions [(lock_version, lock_version)]) (sorted_version_files (me_files ?env)) = [?f]"
      unfolding demo_files by (simp add: pending_versions_def applied_versions_def)
    have "ms_rows s1 = [(lock_version, lock_version)]" "ms_proc s1 0 = Locked" by (simp_all add: s1_def)
    with boot mig_step.boot [of s1 0 "[(lock_version, lock_version)]" ?env] show ?thesis unfolding s2_def p by simp
  qed
  moreover have "mig_step ?env s2 s3" unfolding s3_def by (rule mig_step.up) (simp_all add: s2_def demo_mig_env_def)
  moreover have "mig_step ?env s3 s4" unfolding s4_def by (rule mig_step.record_up) (simp add: s3_def)
  moreover have "mig_step ?env s4 s5" unfolding s5_def by (rule mig_step.finish) (simp_all add: s4_def released_def)
  ultimately have "mig_reach ?env s0 s5" by (meson mig_reach.intros)
  moreover have "ms_proc s5 0 = Finished" "ms_ran s5 = [''0001'']"
    by (simp_all add: s5_def s4_def s3_def s2_def s1_def s0_def mig_init_def)
  ultimately show ?thesis by (auto simp: s0_def)
qed

theorem migrations_safe_witness:
  "\<exists>s. mig_reach demo_mig_env (mig_init () []) s \<and> ms_ran s = [''0001''] \<and> ''0001'' \<in> set (applied_versions (ms_rows s))"
proof -
  obtain s where s: "mig_reach demo_mig_env (mig_init () []) s" "ms_proc s 0 = Finished" "ms_ran s = [''0001'']"
    using demo_run by blast
  have "\<not> lock_exists []" "distinct (map fst (sorted_version_files (me_files demo_mig_env)))"
    by (simp_all add: lock_exists_def demo_files)
  from migrations_safe [OF s(1) this] s show ?thesis by (auto simp: demo_files)
qed

section \<open>A lock that nobody holds\<close>

text \<open>
  The row of a process that died with the lock is never removed: nobody starts a migration any more, and who
  waits can only time out.
\<close>

definition orphaned :: "'s mig_state \<Rightarrow> bool" where
  "orphaned s \<longleftrightarrow> lock_exists (ms_rows s) \<and> (\<forall>i. \<not> holds_lock (ms_proc s i)) \<and> (\<forall>i n. ms_proc s i \<noteq> Polled False n)"

lemma orphaned_step: "mig_step env s t \<Longrightarrow> orphaned s \<Longrightarrow> orphaned t \<and> ms_rows t = ms_rows s \<and> (ms_proc t i = Finished \<longrightarrow> ms_proc s i = Finished)"
proof -
  assume step: "mig_step env s t" and o: "orphaned s"
  have free: "\<not> holds_lock p \<and> p \<noteq> Polled False n" if "ms_proc s j = p" for j p n
    using o that by (auto simp: orphaned_def)
  have keep: ?thesis if "t = goto j p s'" "ms_rows s' = ms_rows s" "ms_proc s' = ms_proc s" "\<not> holds_lock p"
      "p \<noteq> Finished" "\<And>n. p \<noteq> Polled False n" for j p s'
    using that o by (simp add: orphaned_def)
  from step show ?thesis
  proof (cases rule: mig_step.cases)
    case (lock j rows)
    then show ?thesis using o by (simp add: orphaned_def acquire_lock_True)
  next
    case (poll j n)
    then show ?thesis using o by (intro keep) (auto simp: orphaned_def)
  next
    case (boot j rows)
    then show ?thesis using free [OF boot(2)] by simp
  next
    case (up j f fs schema)
    then show ?thesis using free [OF up(2)] by simp
  next
    case (record_up j f fs)
    then show ?thesis using free [OF record_up(2)] by simp
  next
    case (finish j rows)
    then show ?thesis using free [OF finish(2)] by simp
  next
    case (up_raises j f fs e schema rows)
    then show ?thesis using free [OF up_raises(2)] by simp
  next
    case (db_raises j rows)
    then show ?thesis using free [OF db_raises(2)] by simp
  next
    case (record_raises j f fs rows)
    then show ?thesis using free [OF record_raises(2)] by simp
  next
    case (peer_done j n)
    then show ?thesis using free [OF peer_done(2), of n] by simp
  next
    case (take_over j n)
    then show ?thesis using free [OF take_over(2), of n] by simp
  next
    case (crash_recording j f fs)
    then show ?thesis using free [OF crash_recording(2)] by simp
  qed (use o in \<open>auto simp: orphaned_def\<close>)
qed

lemma orphaned_forever:
  "mig_reach env s t \<Longrightarrow> orphaned s \<Longrightarrow> orphaned t \<and> ms_rows t = ms_rows s \<and> (ms_proc t i = Finished \<longrightarrow> ms_proc s i = Finished)"
proof (induction rule: mig_reach.induct)
  case (step t u)
  then show ?case using orphaned_step [of env t u i] by simp
qed simp

end
