(* ===== verification/Sessions.thy ===== *)
theory Sessions
  imports PyValues
begin

text \<open>
  Sessions (\<open>common/globals.py\<close>): the dictionaries that are kept per session id, the stack of the modules that are
  being called, the scopes that bind a session id, the configuration that is looked up along the stack, and
  the lock that guards the dictionaries.
\<close>

section \<open>One store of sessions\<close>

text \<open>
  A store has a dictionary per session id, and, for the context it runs in, the session id and the call stack
  with the id it belongs to. \<open>attrs\<close> are the attributes every session starts with, \<open>own\<close> is the
  id that the store makes up when the context has none.
\<close>

record ('v, 'm) gstate =
  gs_data :: "string \<Rightarrow> (string \<Rightarrow> 'v option) option"
  gs_sid :: "string option"
  gs_stack :: "string option \<times> 'm list"

record 'v genv =
  ge_attrs :: "string \<Rightarrow> 'v option"
  ge_own :: string

definition init_sid :: "'v genv \<Rightarrow> string option \<Rightarrow> ('v, 'm) gstate \<Rightarrow> string \<times> ('v, 'm) gstate" where
  "init_sid env sid s =
     (let sid = (case sid of None \<Rightarrow> ge_own env | Some x \<Rightarrow> x) in (sid, s\<lparr>gs_sid := Some sid\<rparr>))"

text \<open>The id of the context, which is made up if need be, with a dictionary for it.\<close>

definition cur_sid :: "'v genv \<Rightarrow> ('v, 'm) gstate \<Rightarrow> string \<times> ('v, 'm) gstate" where
  "cur_sid env s =
     (let (sid, s) = (case gs_sid s of Some x \<Rightarrow> (x, s) | None \<Rightarrow> init_sid env None s) in
      (sid, if gs_data s sid = None then s\<lparr>gs_data := (gs_data s)(sid \<mapsto> ge_attrs env)\<rparr> else s))"

definition get_data :: "'v genv \<Rightarrow> ('v, 'm) gstate \<Rightarrow> (string \<Rightarrow> 'v option) \<times> ('v, 'm) gstate" where
  "get_data env s = (let (sid, s) = cur_sid env s in (the (gs_data s sid), s))"

definition put_data :: "'v genv \<Rightarrow> ((string \<Rightarrow> 'v option) \<Rightarrow> (string \<Rightarrow> 'v option)) \<Rightarrow> ('v, 'm) gstate \<Rightarrow> ('v, 'm) gstate" where
  "put_data env f s = (let (sid, s) = cur_sid env s in s\<lparr>gs_data := (gs_data s)(sid \<mapsto> f (the (gs_data s sid)))\<rparr>)"

definition g_getitem :: "'v genv \<Rightarrow> string \<Rightarrow> (('v, 'm) gstate, 'v) sx" where
  "g_getitem env k s = (let (d, s) = get_data env s in (case d k of Some v \<Rightarrow> (Inr v, s) | None \<Rightarrow> (Inl KeyError, s)))"

definition g_setitem :: "'v genv \<Rightarrow> string \<Rightarrow> 'v \<Rightarrow> ('v, 'm) gstate \<Rightarrow> ('v, 'm) gstate" where
  "g_setitem env k v s = put_data env (\<lambda>d. d(k \<mapsto> v)) s"

definition g_get :: "'v genv \<Rightarrow> string \<Rightarrow> 'v \<Rightarrow> ('v, 'm) gstate \<Rightarrow> 'v \<times> ('v, 'm) gstate" where
  "g_get env k dflt s = (case g_getitem env k s of (Inr v, s) \<Rightarrow> (v, s) | (Inl e, s) \<Rightarrow> (dflt, s))"

definition g_contains :: "'v genv \<Rightarrow> string \<Rightarrow> ('v, 'm) gstate \<Rightarrow> bool \<times> ('v, 'm) gstate" where
  "g_contains env k s = (let (d, s) = get_data env s in (d k \<noteq> None, s))"

definition g_pop :: "'v genv \<Rightarrow> string \<Rightarrow> ('v, 'm) gstate \<Rightarrow> 'v option \<times> ('v, 'm) gstate" where
  "g_pop env k s = (let (d, s) = get_data env s in (d k, put_data env (\<lambda>d. d(k := None)) s))"

definition g_update :: "'v genv \<Rightarrow> (string \<Rightarrow> 'v option) \<Rightarrow> ('v, 'm) gstate \<Rightarrow> ('v, 'm) gstate" where
  "g_update env new s = (if new = Map.empty then s else put_data env (\<lambda>d. d ++ new) s)"

definition clear_sid :: "string \<Rightarrow> ('v, 'm) gstate \<Rightarrow> ('v, 'm) gstate" where
  "clear_sid sid s = s\<lparr>gs_data := (gs_data s)(sid := None)\<rparr>"

definition g_clear :: "'v genv \<Rightarrow> ('v, 'm) gstate \<Rightarrow> ('v, 'm) gstate" where
  "g_clear env s = (let (sid, s) = cur_sid env s in clear_sid sid s)"

section \<open>The call stack\<close>

definition call_stack :: "'v genv \<Rightarrow> ('v, 'm) gstate \<Rightarrow> 'm list \<times> ('v, 'm) gstate" where
  "call_stack env s = (let (sid, s) = cur_sid env s in (if fst (gs_stack s) = Some sid then snd (gs_stack s) else [], s))"

definition push_stack :: "'v genv \<Rightarrow> 'm \<Rightarrow> ('v, 'm) gstate \<Rightarrow> ('v, 'm) gstate" where
  "push_stack env m s =
     (let (stack, s) = call_stack env s; (sid, s) = cur_sid env s in s\<lparr>gs_stack := (Some sid, stack @ [m])\<rparr>)"

definition pop_stack :: "'v genv \<Rightarrow> (('v, 'm) gstate, 'm) sx" where
  "pop_stack env s =
     (let (stack, s) = call_stack env s; (sid, s) = cur_sid env s in
      if stack = [] then (Inl IndexError, s) else (Inr (last stack), s\<lparr>gs_stack := (Some sid, butlast stack)\<rparr>))"

definition current_stack :: "'v genv \<Rightarrow> ('v, 'm) gstate \<Rightarrow> 'm option \<times> ('v, 'm) gstate" where
  "current_stack env s = (let (stack, s) = call_stack env s in (if stack = [] then None else Some (last stack), s))"

text \<open>The variable is reset to what it was before the push, however the body ends.\<close>

definition stack_enter :: "'v genv \<Rightarrow> 'm \<Rightarrow> (('v, 'm) gstate, 'a) sx \<Rightarrow> (('v, 'm) gstate, 'a) sx" where
  "stack_enter env m body s =
     (let old = gs_stack s; (r, s) = body (push_stack env m s) in (r, s\<lparr>gs_stack := old\<rparr>))"

section \<open>Scopes\<close>

definition bind_sid :: "string \<Rightarrow> (('v, 'm) gstate, 'a) sx \<Rightarrow> (('v, 'm) gstate, 'a) sx" where
  "bind_sid sid body s = (let old = gs_sid s; (r, s) = body (s\<lparr>gs_sid := Some sid\<rparr>) in (r, s\<lparr>gs_sid := old\<rparr>))"

text \<open>A scope without an id makes one up (\<open>fresh\<close>), and drops its dictionary at the end.\<close>

definition local_scope :: "string \<Rightarrow> string option \<Rightarrow> (string \<Rightarrow> (('v, 'm) gstate, 'a) sx) \<Rightarrow> (('v, 'm) gstate, 'a) sx" where
  "local_scope fresh sid body =
     (let x = (case sid of Some x \<Rightarrow> x | None \<Rightarrow> fresh) in
      bind_sid x (\<lambda>s. let (r, s) = body x s in (r, if sid = None then clear_sid x s else s)))"

text \<open>Both stores: the global one, and the local one, which falls back on the global one.\<close>

record ('v, 'm) sessions =
  ss_globals :: "('v, 'm) gstate"
  ss_locals :: "('v, 'm) gstate"

record 'v senv =
  se_globals :: "'v genv"
  se_locals :: "'v genv"

definition locals_getitem :: "'v senv \<Rightarrow> string \<Rightarrow> (('v, 'm) sessions, 'v) sx" where
  "locals_getitem env k s =
     (case g_getitem (se_locals env) k (ss_locals s) of
        (Inr v, l) \<Rightarrow> (Inr v, s\<lparr>ss_locals := l\<rparr>)
      | (Inl e, l) \<Rightarrow>
          (case g_getitem (se_globals env) k (ss_globals s) of (r, g) \<Rightarrow> (r, s\<lparr>ss_locals := l, ss_globals := g\<rparr>)))"

definition init_session :: "'v senv \<Rightarrow> string option \<Rightarrow> ('v, 'm) sessions \<Rightarrow> string \<times> ('v, 'm) sessions" where
  "init_session env sid s =
     (let (sid, g) = init_sid (se_globals env) sid (ss_globals s);
          (_, l) = init_sid (se_locals env) (if sid = [] then None else Some sid) (ss_locals s)
      in (sid, s\<lparr>ss_globals := g, ss_locals := l\<rparr>))"

definition teardown_session :: "'v senv \<Rightarrow> ('v, 'm) sessions \<Rightarrow> ('v, 'm) sessions" where
  "teardown_session env s = s\<lparr>ss_globals := g_clear (se_globals env) (ss_globals s), ss_locals := g_clear (se_locals env) (ss_locals s)\<rparr>"

definition new_session :: "'v senv \<Rightarrow> string option \<Rightarrow> (('v, 'm) sessions, 'a) sx \<Rightarrow> (('v, 'm) sessions, 'a) sx" where
  "new_session env sid body s =
     (let (sid, s) = init_session env sid s;
          (r, s) = body s;
          (now, g) = cur_sid (se_globals env) (ss_globals s);
          s = s\<lparr>ss_globals := g\<rparr>
      in if now \<noteq> sid then (Inl RuntimeError, s) else (r, teardown_session env s))"

section \<open>Configuration\<close>

text \<open>An entry of a session's configuration: a value, or values by id, which \<open>default\<close> completes.\<close>

datatype config_entry = Plain val | PerId "(string \<times> val) list"

definition entry_truthy :: "config_entry \<Rightarrow> bool" where
  "entry_truthy e = (case e of Plain v \<Rightarrow> truthy v | PerId d \<Rightarrow> d \<noteq> [])"

text \<open>The first of the ids that is a key; an id may be missing.\<close>

definition first_id :: "(string \<times> val) list \<Rightarrow> string option list \<Rightarrow> val option" where
  "first_id d ids = (case filter (\<lambda>v. v \<noteq> None) (map (\<lambda>i. Option.bind i (map_of d)) ids) of v # _ \<Rightarrow> v | [] \<Rightarrow> None)"

definition config_getitem ::
    "string list \<Rightarrow> (string \<Rightarrow> val) \<Rightarrow> (string \<Rightarrow> config_entry option) \<Rightarrow> string option list option \<Rightarrow> string \<Rightarrow> val res" where
  "config_getitem supported base cfgs stack k =
     (if k \<notin> set supported then Inl AssertionError
      else
        case cfgs k of
          None \<Rightarrow> Inr (base k)
        | Some e \<Rightarrow>
            if \<not> entry_truthy e then Inr (base k)
            else
              (case e of
                 Plain v \<Rightarrow> Inr v
               | PerId d \<Rightarrow>
                   (case stack of
                      None \<Rightarrow> Inl AssertionError
                    | Some ids \<Rightarrow>
                        if ids = [] then Inl AssertionError
                        else Inr (case first_id d (ids @ [Some ''default'']) of Some v \<Rightarrow> v | None \<Rightarrow> base k))))"

definition config_setitem ::
    "string list \<Rightarrow> string \<Rightarrow> config_entry \<Rightarrow> (string \<Rightarrow> config_entry option) \<Rightarrow> exn + (string \<Rightarrow> config_entry option)" where
  "config_setitem supported k e cfgs = (if k \<notin> set supported then Inl AssertionError else Inr (cfgs(k \<mapsto> e)))"

section \<open>Contexts that share a store\<close>

text \<open>
  Threads and tasks are contexts of their own, with a session id and a call stack, over one table of
  dictionaries. What one of them does, and what it is given back.
\<close>

datatype 'v gop = OpGet string | OpSet string 'v | OpPop string | OpUpdate "string \<Rightarrow> 'v option" | OpContains string | OpClear

datatype 'v gout = OutVal "'v res" | OutPop "'v option" | OutBool bool | OutNone

definition run_op :: "'v genv \<Rightarrow> 'v gop \<Rightarrow> ('v, 'm) gstate \<Rightarrow> 'v gout \<times> ('v, 'm) gstate" where
  "run_op env op s =
     (case op of
        OpGet k \<Rightarrow> (let (r, s) = g_getitem env k s in (OutVal r, s))
      | OpSet k v \<Rightarrow> (OutNone, g_setitem env k v s)
      | OpPop k \<Rightarrow> (let (r, s) = g_pop env k s in (OutPop r, s))
      | OpUpdate d \<Rightarrow> (OutNone, g_update env d s)
      | OpContains k \<Rightarrow> (let (b, s) = g_contains env k s in (OutBool b, s))
      | OpClear \<Rightarrow> (OutNone, g_clear env s))"

type_synonym 'v gdata = "string \<Rightarrow> (string \<Rightarrow> 'v option) option"

text \<open>A step of the context with session \<open>a\<close>, and any order of such steps with their outputs.\<close>

definition ctx_step :: "'v genv \<Rightarrow> string \<Rightarrow> 'v gop \<Rightarrow> 'v gdata \<Rightarrow> 'v gout \<times> 'v gdata" where
  "ctx_step env a op data =
     (let (out, s) = run_op env op (\<lparr>gs_data = data, gs_sid = Some a, gs_stack = (None, [])\<rparr> :: ('v, unit) gstate)
      in (out, gs_data s))"

fun run_ctxs :: "'v genv \<Rightarrow> (string \<times> 'v gop) list \<Rightarrow> 'v gdata \<Rightarrow> (string \<times> 'v gout) list \<times> 'v gdata" where
  "run_ctxs env [] data = ([], data)"
| "run_ctxs env ((a, op) # ops) data =
     (let (out, data) = ctx_step env a op data; (outs, data) = run_ctxs env ops data in ((a, out) # outs, data))"

lemmas session_defs = run_op_def g_getitem_def g_setitem_def g_pop_def g_update_def g_contains_def g_clear_def clear_sid_def
  get_data_def put_data_def cur_sid_def init_sid_def Let_def

lemma ctx_step_other: "b \<noteq> a \<Longrightarrow> snd (ctx_step env a op data) b = data b"
  by (cases op) (auto simp: ctx_step_def session_defs split: option.split)

lemma ctx_step_own:
  "data a = data' a \<Longrightarrow> fst (ctx_step env a op data) = fst (ctx_step env a op data') \<and>
    snd (ctx_step env a op data) a = snd (ctx_step env a op data') a"
  by (cases op) (auto simp: ctx_step_def session_defs split: option.split)

text \<open>
  C23. Sessions do not interfere: in any interleaving of operations of any contexts, the operations of a session
  return what they would return if nobody else ran, and leave the same dictionary behind.
\<close>

theorem sessions_isolated:
  "filter (\<lambda>x. fst x = a) (fst (run_ctxs env ops data)) = fst (run_ctxs env (filter (\<lambda>x. fst x = a) ops) data) \<and>
   snd (run_ctxs env ops data) a = snd (run_ctxs env (filter (\<lambda>x. fst x = a) ops) data) a"
proof -
  have "filter (\<lambda>x. fst x = a) (fst (run_ctxs env ops data)) = fst (run_ctxs env (filter (\<lambda>x. fst x = a) ops) data') \<and>
      snd (run_ctxs env ops data) a = snd (run_ctxs env (filter (\<lambda>x. fst x = a) ops) data') a"
    if "data a = data' a" for data'
    using that
  proof (induction ops arbitrary: data data')
    case (Cons x ops)
    obtain b op where x: "x = (b, op)" by fastforce
    show ?case
    proof (cases "b = a")
      case True
      have "snd (ctx_step env a op data) a = snd (ctx_step env a op data') a" "fst (ctx_step env a op data) = fst (ctx_step env a op data')"
        using ctx_step_own [of data a data' env op] Cons.prems by simp_all
      with Cons.IH [of "snd (ctx_step env a op data)" "snd (ctx_step env a op data')"] True show ?thesis
        by (simp add: x Let_def case_prod_beta)
    next
      case False
      then have "snd (ctx_step env b op data) a = data' a" using ctx_step_other [of a b env op data] Cons.prems by simp
      with Cons.IH False show ?thesis by (simp add: x Let_def case_prod_beta)
    qed
  qed simp
  then show ?thesis by blast
qed

section \<open>What scopes restore\<close>

lemma stack_enter_restores: "gs_stack (snd (stack_enter env m body s)) = gs_stack s"
  by (simp add: stack_enter_def Let_def case_prod_beta)

lemma stack_enter_inside: "fst (current_stack env (push_stack env m s)) = Some m"
  by (auto simp: current_stack_def push_stack_def call_stack_def cur_sid_def init_sid_def Let_def split: option.split)

lemma local_scope_restores:
  "gs_sid (snd (local_scope fresh sid body s)) = gs_sid s \<and>
   (sid = None \<longrightarrow> gs_data (snd (local_scope fresh sid body s)) fresh = None)"
  by (simp add: local_scope_def bind_sid_def clear_sid_def Let_def case_prod_beta)

lemma cur_sid_bound:
  "gs_sid s = Some b \<Longrightarrow> fst (cur_sid env s) = b \<and> gs_sid (snd (cur_sid env s)) = Some b \<and>
    (a \<noteq> b \<longrightarrow> gs_data (snd (cur_sid env s)) a = gs_data s a)"
  by (simp add: cur_sid_def Let_def)

lemma g_clear_bound:
  "gs_sid s = Some b \<Longrightarrow> gs_sid (g_clear env s) = Some b \<and> gs_data (g_clear env s) b = None \<and>
    (a \<noteq> b \<longrightarrow> gs_data (g_clear env s) a = gs_data s a)"
  using cur_sid_bound [of s b env a] by (simp add: g_clear_def clear_sid_def case_prod_beta)

text \<open>The id of a session: the one that is given, or that of the context.\<close>

definition session_id :: "'v senv \<Rightarrow> string option \<Rightarrow> string" where
  "session_id env sid = (case sid of None \<Rightarrow> ge_own (se_globals env) | Some x \<Rightarrow> x)"

lemma init_session_id: "\<exists>s'. init_session env sid s = (session_id env sid, s')"
  by (simp add: init_session_def init_sid_def session_id_def Let_def case_prod_beta)

text \<open>A session whose body keeps the id ends with the result of its body, and forgets its data alone.\<close>

lemma new_session_ends:
  assumes "u = body (snd (init_session env sid s))" and "gs_sid (ss_globals (snd u)) = Some (session_id env sid)"
  shows "fst (new_session env sid body s) = fst u"
    and "gs_sid (ss_globals (snd (new_session env sid body s))) = Some (session_id env sid)"
    and "gs_data (ss_globals (snd (new_session env sid body s))) (session_id env sid) = None"
    and "a \<noteq> session_id env sid \<Longrightarrow>
      gs_data (ss_globals (snd (new_session env sid body s))) a = gs_data (ss_globals (snd u)) a"
proof -
  let ?b = "session_id env sid"
  obtain s1 where s1: "init_session env sid s = (?b, s1)" using init_session_id by blast
  have u: "u = body s1" using assms(1) s1 by simp
  note c = cur_sid_bound [OF assms(2), of "se_globals env"]
  have n: "new_session env sid body s =
      (fst u, teardown_session env ((snd u)\<lparr>ss_globals := snd (cur_sid (se_globals env) (ss_globals (snd u)))\<rparr>))"
    using c by (simp add: new_session_def s1 u [symmetric] case_prod_beta)
  have "gs_sid (snd (cur_sid (se_globals env) (ss_globals (snd u)))) = Some ?b" using c by blast
  note k = g_clear_bound [OF this, of "se_globals env"]
  show "fst (new_session env sid body s) = fst u" by (simp add: n)
  show "gs_sid (ss_globals (snd (new_session env sid body s))) = Some ?b"
    and "gs_data (ss_globals (snd (new_session env sid body s))) ?b = None"
    using k by (simp_all add: n teardown_session_def)
  show "gs_data (ss_globals (snd (new_session env sid body s))) a = gs_data (ss_globals (snd u)) a" if "a \<noteq> ?b"
    using c k that by (simp add: n teardown_session_def)
qed

text \<open>
  C38. A session inside another one breaks the outer one, if the body of the inner one keeps its id. With another id than the outer
  one's, the inner session leaves its own id behind, so the outer session ends with an error, whatever its body returned, and its
  data is never dropped. With the same id, as two sessions without an id have it in one thread, nothing is raised, but the data of
  the outer session is gone when the inner one ends.
\<close>

theorem nested_session_raises:
  fixes body :: "(('v, 'm) sessions, 'a) sx"
  assumes "s' = snd (body (snd (init_session env inner (snd (init_session env outer s)))))"
    and "gs_sid (ss_globals s') = Some (session_id env inner)"
  shows "if session_id env outer \<noteq> session_id env inner
    then fst (new_session env outer (new_session env inner body) s) = Inl RuntimeError \<and>
      gs_data (ss_globals (snd (new_session env outer (new_session env inner body) s))) (session_id env outer) =
        gs_data (ss_globals s') (session_id env outer)
    else fst (new_session env outer (new_session env inner body) s) =
        fst (body (snd (init_session env inner (snd (init_session env outer s))))) \<and>
      gs_data (ss_globals (snd (new_session env inner body (snd (init_session env outer s))))) (session_id env outer) = None"
proof -
  let ?a = "session_id env outer" and ?b = "session_id env inner"
  obtain s1 where s1: "init_session env outer s = (?a, s1)" using init_session_id by blast
  let ?in = "new_session env inner body s1"
  note inn = new_session_ends [OF refl, where body = body and env = env and sid = inner and s = s1]
  have b: "gs_sid (ss_globals (snd (body (snd (init_session env inner s1))))) = Some ?b" using assms s1 by simp
  note c = cur_sid_bound [OF inn(2) [OF b], of "se_globals env" ?a]
  show ?thesis
  proof (cases "?a = ?b")
    case True
    have "fst (new_session env outer (new_session env inner body) s) = fst ?in"
      using new_session_ends(1) [of ?in "new_session env inner body" env outer s] inn(2) [OF b] True s1 by simp
    then show ?thesis using True inn(1,3) [OF b] s1 by simp
  next
    case False
    have "new_session env outer (new_session env inner body) s =
        (Inl RuntimeError, (snd ?in)\<lparr>ss_globals := snd (cur_sid (se_globals env) (ss_globals (snd ?in)))\<rparr>)"
      using c False by (simp add: new_session_def [of env outer] s1 case_prod_beta)
    then show ?thesis using c inn(4) [OF b False] False s1 assms(1) by simp
  qed
qed

definition demo_senv :: "nat senv" where
  "demo_senv = \<lparr>se_globals = \<lparr>ge_attrs = Map.empty, ge_own = ''tid''\<rparr>, se_locals = \<lparr>ge_attrs = Map.empty, ge_own = ''local''\<rparr>\<rparr>"

definition demo_sessions :: "(nat, unit) sessions" where
  "demo_sessions = \<lparr>ss_globals = \<lparr>gs_data = (\<lambda>_. None), gs_sid = None, gs_stack = (None, [])\<rparr>,
     ss_locals = \<lparr>gs_data = (\<lambda>_. None), gs_sid = None, gs_stack = (None, [])\<rparr>\<rparr>"

theorem nested_session_raises_witness:
  "fst (new_session demo_senv (Some ''a'') (new_session demo_senv (Some ''b'') (sret ())) demo_sessions) = Inl RuntimeError \<and>
   fst (new_session demo_senv None (new_session demo_senv None (sret ())) demo_sessions) = Inr ()"
proof -
  have k: "gs_sid (ss_globals (snd (sret () (snd (init_session demo_senv inner (snd (init_session demo_senv outer demo_sessions))))))) =
      Some (session_id demo_senv inner)" for inner outer
    by (simp add: sret_def init_session_def init_sid_def session_id_def Let_def case_prod_beta)
  note n = nested_session_raises [where body = "sret ()" and env = demo_senv and s = demo_sessions, OF refl k]
  have "session_id demo_senv (Some ''a'') \<noteq> session_id demo_senv (Some ''b'')" by (simp add: session_id_def)
  then show ?thesis using n [of "Some ''a''" "Some ''b''"] n [of None None] by (simp add: sret_def)
qed

section \<open>What a configuration gives back\<close>

text \<open>A value that was set is read back when it is true; one that is false is ignored, and the default is read.\<close>

lemma config_set_get:
  assumes "config_setitem supported k (Plain v) cfgs = Inr cfgs'"
  shows "config_getitem supported base cfgs' stack k = Inr (if truthy v then v else base k)"
  using assms by (auto simp: config_setitem_def config_getitem_def entry_truthy_def split: if_splits)

end
