(* ===== verification/RWLock.thy ===== *)
theory RWLock
  imports Prelude
begin

text \<open>
  The lock that guards the dictionaries of sessions (\<open>common/globals.py\<close>, \<open>ReadWriteLock\<close>): one condition
  variable with its mutex and a count of readers, as the steps that any number of threads can take.
\<close>

text \<open>
  A thread outside, reading, asleep in \<open>wait\<close>, woken up and about to take the mutex again, or writing, which it
  does with the mutex held. Where a thread takes the mutex only to change the count it gives it back at
  once, and this is one step.
\<close>

datatype rw_thread = Outside | Reading | Asleep | Woken | Writing

record rw_lock =
  rw_readers :: nat
  rw_mutex :: "nat option"
  rw_thread :: "nat \<Rightarrow> rw_thread"

definition rw_init :: rw_lock where
  "rw_init = \<lparr>rw_readers = 0, rw_mutex = None, rw_thread = (\<lambda>i. Outside)\<rparr>"

definition rw_set :: "nat \<Rightarrow> rw_thread \<Rightarrow> rw_lock \<Rightarrow> rw_lock" where
  "rw_set i t s = s\<lparr>rw_thread := (rw_thread s)(i := t)\<rparr>"

text \<open>\<open>notify_all\<close> wakes the threads that sleep.\<close>

definition notify_all :: "rw_lock \<Rightarrow> rw_lock" where
  "notify_all s = s\<lparr>rw_thread := (\<lambda>i. if rw_thread s i = Asleep then Woken else rw_thread s i)\<rparr>"

definition read_enter :: "nat \<Rightarrow> rw_lock \<Rightarrow> rw_lock" where
  "read_enter i s = rw_set i Reading (s\<lparr>rw_readers := rw_readers s + 1\<rparr>)"

definition read_exit :: "nat \<Rightarrow> rw_lock \<Rightarrow> rw_lock" where
  "read_exit i s =
     (let s = rw_set i Outside (s\<lparr>rw_readers := rw_readers s - 1\<rparr>) in
      if rw_readers s = 0 then notify_all s else s)"

text \<open>The loop of a writer that has the mutex: with readers it gives the mutex back and sleeps.\<close>

definition write_check :: "nat \<Rightarrow> rw_lock \<Rightarrow> rw_lock" where
  "write_check i s =
     (if 0 < rw_readers s then rw_set i Asleep (s\<lparr>rw_mutex := None\<rparr>) else rw_set i Writing (s\<lparr>rw_mutex := Some i\<rparr>))"

definition write_exit :: "nat \<Rightarrow> rw_lock \<Rightarrow> rw_lock" where
  "write_exit i s = rw_set i Outside (s\<lparr>rw_mutex := None\<rparr>)"

inductive rw_step :: "rw_lock \<Rightarrow> rw_lock \<Rightarrow> bool" where
  rd: "rw_thread s i = Outside \<Longrightarrow> rw_mutex s = None \<Longrightarrow> rw_step s (read_enter i s)"
| rd_end: "rw_thread s i = Reading \<Longrightarrow> rw_mutex s = None \<Longrightarrow> rw_step s (read_exit i s)"
| wr: "rw_thread s i \<in> {Outside, Woken} \<Longrightarrow> rw_mutex s = None \<Longrightarrow> rw_step s (write_check i s)"
| wr_end: "rw_thread s i = Writing \<Longrightarrow> rw_step s (write_exit i s)"

inductive rw_reach :: "rw_lock \<Rightarrow> bool" where
  init: "rw_reach rw_init"
| step: "rw_reach s \<Longrightarrow> rw_step s t \<Longrightarrow> rw_reach t"

section \<open>The invariant\<close>

text \<open>
  The count is the number of threads that read; the mutex is held exactly by the writer, and then nobody
  reads; who sleeps waits for a reader.
\<close>

definition readers_of :: "rw_lock \<Rightarrow> nat set" where
  "readers_of s = {i. rw_thread s i = Reading}"

definition rw_inv :: "rw_lock \<Rightarrow> bool" where
  "rw_inv s \<longleftrightarrow> finite (readers_of s) \<and> rw_readers s = card (readers_of s) \<and>
     (\<forall>i. rw_thread s i = Writing \<longleftrightarrow> rw_mutex s = Some i) \<and> (rw_mutex s \<noteq> None \<longrightarrow> readers_of s = {}) \<and>
     (\<forall>i. rw_thread s i = Asleep \<longrightarrow> readers_of s \<noteq> {})"

lemma readers_set: "readers_of (rw_set i t s) = (if t = Reading then insert i (readers_of s) else readers_of s - {i})"
  by (auto simp: readers_of_def rw_set_def)

lemma readers_upd [simp]:
  "readers_of (s\<lparr>rw_readers := n\<rparr>) = readers_of s" "readers_of (s\<lparr>rw_mutex := m\<rparr>) = readers_of s"
  by (simp_all add: readers_of_def)

lemma readers_notify: "readers_of (notify_all s) = readers_of s"
  by (auto simp: readers_of_def notify_all_def)

lemma rw_set_simps [simp]:
  "rw_readers (rw_set i t s) = rw_readers s" "rw_mutex (rw_set i t s) = rw_mutex s"
  "rw_thread (rw_set i t s) = (rw_thread s)(i := t)"
  by (simp_all add: rw_set_def)

lemma rw_inv_step: "rw_step s t \<Longrightarrow> rw_inv s \<Longrightarrow> rw_inv t"
proof (induction rule: rw_step.induct)
  case (rd s i)
  then have "i \<notin> readers_of s" by (simp add: readers_of_def)
  then show ?case using rd by (auto simp: rw_inv_def read_enter_def readers_set)
next
  case (rd_end s i)
  then have i: "i \<in> readers_of s" by (simp add: readers_of_def)
  then have card: "card (readers_of s - {i}) = card (readers_of s) - 1" using rd_end(3) by (simp add: rw_inv_def)
  show ?case
  proof (cases "readers_of s - {i} = {}")
    case True
    then have "card (readers_of s - {i}) = 0" by (simp only: card.empty)
    then have "rw_readers s - 1 = 0" using rd_end(3) card by (simp add: rw_inv_def)
    then have t: "read_exit i s = notify_all (rw_set i Outside (s\<lparr>rw_readers := 0\<rparr>))" by (simp add: read_exit_def Let_def)
    have "readers_of (read_exit i s) = {}" using True by (simp add: t readers_notify readers_set)
    moreover have "rw_readers (read_exit i s) = 0" "rw_mutex (read_exit i s) = None"
      using rd_end(2) by (simp_all add: t notify_all_def)
    moreover have "rw_thread (read_exit i s) j \<noteq> Asleep" "rw_thread (read_exit i s) j \<noteq> Writing" for j
      using rd_end(2,3) by (simp_all add: t notify_all_def rw_inv_def)
    ultimately show ?thesis by (simp add: rw_inv_def)
  next
    case False
    then have "rw_readers s - 1 \<noteq> 0" using rd_end(3) card by (auto simp: rw_inv_def)
    then show ?thesis using rd_end i False card by (auto simp: rw_inv_def read_exit_def readers_set Let_def split: if_splits)
  qed
next
  case (wr s i)
  then have "i \<notin> readers_of s" by (auto simp: readers_of_def)
  then show ?case using wr by (auto simp: rw_inv_def write_check_def readers_set card_gt_0_iff split: if_splits)
next
  case (wr_end s i)
  then have "rw_mutex s = Some i" "readers_of s = {}" by (auto simp: rw_inv_def)
  then show ?case using wr_end by (auto simp: rw_inv_def write_exit_def readers_set split: if_splits)
qed

lemma rw_inv_reach: "rw_reach s \<Longrightarrow> rw_inv s"
  by (induction rule: rw_reach.induct) (auto simp: rw_inv_step, simp add: rw_inv_def rw_init_def readers_of_def)

text \<open>
  C25. Whatever the threads do, a writer is alone: no other thread writes and none reads while it does.
  And the lock cannot get stuck: while a thread is inside or waits, one of the threads inside can leave, or one
  that was woken can go on.
\<close>

theorem rw_lock_safe:
  assumes "rw_reach s"
  shows "(rw_thread s i = Writing \<longrightarrow> (\<forall>j. j \<noteq> i \<longrightarrow> rw_thread s j \<noteq> Writing \<and> rw_thread s j \<noteq> Reading)) \<and>
    ((\<exists>j. rw_thread s j \<noteq> Outside) \<longrightarrow>
       (\<exists>j t. rw_step s t \<and> (rw_thread s j = Reading \<and> t = read_exit j s \<or> rw_thread s j = Writing \<and> t = write_exit j s \<or>
          rw_thread s j = Woken \<and> t = write_check j s)))"
proof
  note inv = rw_inv_reach [OF assms]
  show "rw_thread s i = Writing \<longrightarrow> (\<forall>j. j \<noteq> i \<longrightarrow> rw_thread s j \<noteq> Writing \<and> rw_thread s j \<noteq> Reading)"
  proof (intro impI allI)
    fix j
    assume "rw_thread s i = Writing" and "j \<noteq> i"
    then have "rw_mutex s = Some i" "readers_of s = {}" using inv by (auto simp: rw_inv_def)
    then show "rw_thread s j \<noteq> Writing \<and> rw_thread s j \<noteq> Reading" using inv \<open>j \<noteq> i\<close> by (auto simp: rw_inv_def readers_of_def)
  qed
  show "(\<exists>j. rw_thread s j \<noteq> Outside) \<longrightarrow>
       (\<exists>j t. rw_step s t \<and> (rw_thread s j = Reading \<and> t = read_exit j s \<or> rw_thread s j = Writing \<and> t = write_exit j s \<or>
          rw_thread s j = Woken \<and> t = write_check j s))"
  proof
    assume "\<exists>j. rw_thread s j \<noteq> Outside"
    then obtain j where j: "rw_thread s j \<noteq> Outside" ..
    show "\<exists>j t. rw_step s t \<and> (rw_thread s j = Reading \<and> t = read_exit j s \<or> rw_thread s j = Writing \<and> t = write_exit j s \<or>
        rw_thread s j = Woken \<and> t = write_check j s)"
    proof (cases "rw_mutex s")
      case (Some k)
      then show ?thesis using inv rw_step.wr_end [of s k] by (auto simp: rw_inv_def)
    next
      case None
      have "rw_thread s j \<noteq> Writing" using inv None by (auto simp: rw_inv_def)
      then consider "rw_thread s j = Woken" | k where "rw_thread s k = Reading"
        using j inv by (cases "rw_thread s j") (auto simp: rw_inv_def readers_of_def)
      then show ?thesis using None rw_step.rd_end rw_step.wr by cases blast+
    qed
  qed
qed

theorem rw_lock_safe_witness:
  "rw_reach (write_check 1 (read_enter 0 rw_init)) \<and> (\<exists>t. rw_step (write_check 1 (read_enter 0 rw_init)) t)"
proof -
  have "rw_step rw_init (read_enter 0 rw_init)" by (rule rw_step.rd) (simp_all add: rw_init_def)
  moreover have "rw_step (read_enter 0 rw_init) (write_check 1 (read_enter 0 rw_init))"
    by (rule rw_step.wr) (simp_all add: rw_init_def read_enter_def)
  ultimately have r: "rw_reach (write_check 1 (read_enter 0 rw_init))" by (meson rw_reach.intros)
  have "rw_thread (write_check 1 (read_enter 0 rw_init)) 0 \<noteq> Outside"
    by (simp add: write_check_def read_enter_def rw_init_def)
  with rw_lock_safe [OF r] r show ?thesis by blast
qed

end
