(* ===== verification/QueryEnhance.thy ===== *)
theory QueryEnhance
  imports UText "HOL-Library.Product_Lexorder"
begin

text \<open>
  Query enhancement (\<open>tools/rag/query_enh_ac.py\<close>): words of a vocabulary are found in a query by an
  Aho-Corasick automaton, overlapping matches are resolved, a model may reject matches, and the other words
  of a match's cluster are written behind it in parentheses. Queries and words are lists of code points.
\<close>

section \<open>The vocabulary\<close>

text \<open>
  Rows with a cluster and a word; a row that lacks one is skipped. The last row of a word decides its
  cluster. \<open>order\<close> is the order in which Python lists a set.
\<close>

type_synonym 'k vocab_row = "'k option \<times> utext option"

definition add_row :: "'k vocab_row \<Rightarrow> (utext \<times> 'k) list \<times> ('k \<times> utext list) list \<Rightarrow> (utext \<times> 'k) list \<times> ('k \<times> utext list) list" where
  "add_row r acc =
     (case r of
        (Some c, Some w) \<Rightarrow>
          (let ws = dict_get (snd acc) c [] in
           (AList.update w c (fst acc), AList.update c (if w \<in> set ws then ws else ws @ [w]) (snd acc)))
      | _ \<Rightarrow> acc)"

record 'k processor =
  qp_words :: "(utext \<times> 'k) list"
  qp_clusters :: "('k \<times> utext list) list"

definition rebuild_automaton :: "(utext list \<Rightarrow> utext list) \<Rightarrow> 'k vocab_row list \<Rightarrow> 'k processor" where
  "rebuild_automaton order rows =
     (let (words, sets) = fold add_row rows ([], []) in
      \<lparr>qp_words = words, qp_clusters = map (\<lambda>(c, ws). (c, order ws)) sets\<rparr>)"

section \<open>Matches\<close>

record 'k qmatch =
  qm_word :: utext
  qm_cluster :: 'k
  qm_start :: nat
  qm_end :: nat

text \<open>The word stands in the query and ends at this index.\<close>

definition occurs_at :: "utext \<Rightarrow> utext \<Rightarrow> nat \<Rightarrow> bool" where
  "occurs_at q w e \<longleftrightarrow> w \<noteq> [] \<and> length w \<le> Suc e \<and> e < length q \<and> take (length w) (drop (Suc e - length w) q) = w"

text \<open>
  The automaton is a library's: from words and a text it yields, in some order, an end and the value of a word,
  for exactly the places where a word stands.
\<close>

type_synonym 'k automaton = "(utext \<times> 'k) list \<Rightarrow> utext \<Rightarrow> (nat \<times> ('k \<times> utext)) list"

definition finds_all :: "'k automaton \<Rightarrow> bool" where
  "finds_all iter \<longleftrightarrow> (\<forall>words q. set (iter words q) = {(e, (c, w)) | e c w. (w, c) \<in> set words \<and> occurs_at q w e})"

definition to_match :: "nat \<times> ('k \<times> utext) \<Rightarrow> 'k qmatch" where
  "to_match x = (case x of (e, (c, w)) \<Rightarrow> \<lparr>qm_word = w, qm_cluster = c, qm_start = e + 1 - length w, qm_end = e\<rparr>)"

definition match_key :: "'k qmatch \<Rightarrow> nat \<times> int" where
  "match_key m = (qm_start m, - int (length (qm_word m)))"

text \<open>Of overlapping matches the first is kept; \<open>last_end\<close> is where the last kept one ends.\<close>

fun keep_disjoint :: "int \<Rightarrow> 'k qmatch list \<Rightarrow> 'k qmatch list" where
  "keep_disjoint last_end [] = []"
| "keep_disjoint last_end (m # ms) =
     (if int (qm_start m) \<le> last_end then keep_disjoint last_end ms else m # keep_disjoint (int (qm_end m)) ms)"

section \<open>Filters\<close>

text \<open>
  What a model answers at each attempt, or that it raises: a list of booleans for all matches, or the
  probability that one match is a word, in thousandths.
\<close>

type_synonym answers = "nat \<Rightarrow> exn + bool list"

text \<open>The attempts that are left and the number of the next one; no valid answer rejects every match.\<close>

fun llm_filter :: "answers \<Rightarrow> nat \<Rightarrow> nat \<Rightarrow> 'k qmatch list \<Rightarrow> 'k qmatch list" where
  "llm_filter ans 0 k ms = []"
| "llm_filter ans (Suc n) k ms =
     (case ans k of
        Inr bs \<Rightarrow> if length bs = length ms then map fst (filter snd (zip ms bs)) else llm_filter ans n (Suc k) ms
      | Inl e \<Rightarrow> llm_filter ans n (Suc k) ms)"

fun bert_keeps :: "(nat \<Rightarrow> exn + int) \<Rightarrow> int \<Rightarrow> nat \<Rightarrow> nat \<Rightarrow> bool" where
  "bert_keeps ans threshold 0 k = False"
| "bert_keeps ans threshold (Suc n) k =
     (case ans k of Inr p \<Rightarrow> threshold \<le> p | Inl e \<Rightarrow> bert_keeps ans threshold n (Suc k))"

datatype 'k discriminator =
    NoFilter
  | LLMFilter "utext \<Rightarrow> 'k qmatch list \<Rightarrow> answers" nat
  | BERTFilter "utext \<Rightarrow> 'k qmatch \<Rightarrow> nat \<Rightarrow> exn + int" int nat

definition apply_filter :: "'k discriminator \<Rightarrow> utext \<Rightarrow> 'k qmatch list \<Rightarrow> 'k qmatch list" where
  "apply_filter d q ms =
     (case d of
        NoFilter \<Rightarrow> []
      | LLMFilter model retries \<Rightarrow> (if ms = [] then [] else llm_filter (model q ms) retries 0 ms)
      | BERTFilter model threshold retries \<Rightarrow> filter (\<lambda>m. bert_keeps (model q m) threshold retries 0) ms)"

definition get_matches :: "'k automaton \<Rightarrow> 'k discriminator \<Rightarrow> 'k processor \<Rightarrow> utext \<Rightarrow> 'k qmatch list" where
  "get_matches iter d p q =
     (if qp_words p = [] \<or> q = [] then []
      else
        let raw = map to_match (iter (qp_words p) q) in
        if raw = [] then [] else apply_filter d q (keep_disjoint (-1) (sort_key match_key raw)))"

section \<open>The enhanced query\<close>

definition other_words :: "'k processor \<Rightarrow> 'k qmatch \<Rightarrow> utext list" where
  "other_words p m = filter (\<lambda>w. w \<noteq> qm_word m) (dict_get (qp_clusters p) (qm_cluster m) [])"

fun join_words :: "utext list \<Rightarrow> utext" where
  "join_words [] = []"
| "join_words [w] = w"
| "join_words (w # v # ws) = w @ [44, 32] @ join_words (v # ws)"

text \<open>What is written behind a match: nothing when its cluster was seen or has no other word.\<close>

definition insertion :: "'k processor \<Rightarrow> 'k set \<Rightarrow> 'k qmatch \<Rightarrow> utext" where
  "insertion p seen m =
     (if qm_cluster m \<in> seen \<or> other_words p m = [] then [] else [65288] @ join_words (other_words p m) @ [65289])"

text \<open>The parts so far, the end of the last match and the clusters seen.\<close>

definition enhance_step :: "'k processor \<Rightarrow> utext \<Rightarrow> 'k qmatch \<Rightarrow> utext \<times> nat \<times> 'k set \<Rightarrow> utext \<times> nat \<times> 'k set" where
  "enhance_step p q m acc =
     (case acc of (parts, last_pos, seen) \<Rightarrow>
        (parts @ (if last_pos < qm_start m then take (qm_start m - last_pos) (drop last_pos q) else []) @
           qm_word m @ insertion p seen m,
         Suc (qm_end m), insert (qm_cluster m) seen))"

definition enhance_single :: "'k automaton \<Rightarrow> 'k discriminator \<Rightarrow> 'k processor \<Rightarrow> utext \<Rightarrow> utext" where
  "enhance_single iter d p q =
     (let ms = get_matches iter d p q in
      if ms = [] then q
      else case fold (enhance_step p q) ms ([], 0, {}) of
        (parts, last_pos, seen) \<Rightarrow> if last_pos < length q then parts @ drop last_pos q else parts)"

section \<open>Matches do not overlap\<close>

definition sound_match :: "utext \<Rightarrow> 'k qmatch \<Rightarrow> bool" where
  "sound_match q m \<longleftrightarrow> occurs_at q (qm_word m) (qm_end m) \<and> qm_start m = Suc (qm_end m) - length (qm_word m)"

fun apart :: "nat \<Rightarrow> 'k qmatch list \<Rightarrow> bool" where
  "apart pos [] \<longleftrightarrow> True"
| "apart pos (m # ms) \<longleftrightarrow> pos \<le> qm_start m \<and> apart (Suc (qm_end m)) ms"

lemma sound_start: "sound_match q m \<Longrightarrow> qm_start m \<le> qm_end m \<and> qm_end m < length q \<and>
    qm_word m = take (Suc (qm_end m) - qm_start m) (drop (qm_start m) q)"
  by (cases "qm_word m") (auto simp: sound_match_def occurs_at_def)

lemma keep_disjoint_apart: "apart (nat (last_end + 1)) (keep_disjoint last_end ms)"
proof (induction ms arbitrary: last_end)
  case (Cons m ms)
  have "nat (int (qm_end m) + 1) = Suc (qm_end m)" by simp
  with Cons.IH [of "int (qm_end m)"] Cons.IH [of last_end] show ?case by auto
qed simp

lemma set_keep_disjoint: "set (keep_disjoint e ms) \<subseteq> set ms"
  by (induction ms arbitrary: e) auto

lemma apart_mono: "apart pos ms \<Longrightarrow> pos' \<le> pos \<Longrightarrow> apart pos' ms"
  by (cases ms) auto

lemma apart_filter:
  assumes "apart pos ms" and "list_all (sound_match q) ms"
  shows "apart pos (map fst (filter snd (zip ms bs)))"
  using assms
proof (induction ms arbitrary: pos bs)
  case (Cons m ms)
  then have "apart pos ms" using sound_start [of q m] by (intro apart_mono [of "Suc (qm_end m)" ms pos]) auto
  then show ?case using Cons by (cases bs) simp_all
qed simp

lemma apart_filter_by: "apart pos ms \<Longrightarrow> list_all (sound_match q) ms \<Longrightarrow> apart pos (filter P ms)"
proof (induction ms arbitrary: pos)
  case (Cons m ms)
  then have "apart pos ms" using sound_start [of q m] by (intro apart_mono [of "Suc (qm_end m)" ms pos]) auto
  then show ?case using Cons by simp
qed simp

lemma llm_filter_apart:
  "apart pos ms \<Longrightarrow> list_all (sound_match q) ms \<Longrightarrow> apart pos (llm_filter ans n k ms)"
  by (induction ans n k ms rule: llm_filter.induct) (auto split: sum.split intro: apart_filter)

lemma set_llm_filter: "set (llm_filter ans n k ms) \<subseteq> set ms"
  by (induction ans n k ms rule: llm_filter.induct) (auto split: sum.split dest: set_zip_leftD)

lemma apply_filter_apart: "apart pos ms \<Longrightarrow> list_all (sound_match q) ms \<Longrightarrow> apart pos (apply_filter d q ms)"
  by (cases d) (auto simp: apply_filter_def llm_filter_apart apart_filter_by)

lemma set_apply_filter: "set (apply_filter d q ms) \<subseteq> set ms"
  using set_llm_filter [THEN subsetD] by (cases d) (auto simp: apply_filter_def)

lemma raw_sound:
  assumes "finds_all iter" and "m \<in> set (map to_match (iter words q))"
  shows "sound_match q m \<and> (qm_word m, qm_cluster m) \<in> set words"
  using assms by (auto simp: finds_all_def to_match_def sound_match_def)

lemma get_matches_sound:
  assumes "finds_all iter"
  shows "apart 0 (get_matches iter d p q) \<and>
    (\<forall>m \<in> set (get_matches iter d p q). sound_match q m \<and> (qm_word m, qm_cluster m) \<in> set (qp_words p))"
proof (cases "get_matches iter d p q = []")
  case False
  define raw where "raw = map to_match (iter (qp_words p) q)"
  define kept where "kept = keep_disjoint (-1) (sort_key match_key raw)"
  have raw: "sound_match q m \<and> (qm_word m, qm_cluster m) \<in> set (qp_words p)" if "m \<in> set raw" for m
    using raw_sound [OF assms] that by (simp add: raw_def)
  have kept: "set kept \<subseteq> set raw" using set_keep_disjoint [of "-1" "sort_key match_key raw"] by (simp add: kept_def)
  have eq: "get_matches iter d p q = apply_filter d q kept"
    using False by (auto simp: get_matches_def Let_def raw_def kept_def split: if_splits)
  have "list_all (sound_match q) kept" using raw kept unfolding list_all_iff by blast
  then have "apart 0 (apply_filter d q kept)"
    using keep_disjoint_apart [of "-1" "sort_key match_key raw"] by (intro apply_filter_apart) (simp_all add: kept_def)
  moreover have "set (apply_filter d q kept) \<subseteq> set raw" using set_apply_filter kept by blast
  ultimately show ?thesis unfolding eq using raw by blast
qed simp

section \<open>What an enhanced query is\<close>

text \<open>Pieces of the query with what is written behind each: only behind words, only their cluster's other words.\<close>

definition enhanced_piece :: "'k processor \<Rightarrow> utext \<times> utext \<Rightarrow> bool" where
  "enhanced_piece p = (\<lambda>(a, b). b = [] \<or>
     (\<exists>c. (a, c) \<in> set (qp_words p) \<and>
        b = [65288] @ join_words (filter (\<lambda>w. w \<noteq> a) (dict_get (qp_clusters p) c [])) @ [65289]))"

lemma enhance_fold:
  assumes "apart pos ms" and "\<forall>m \<in> set ms. sound_match q m \<and> (qm_word m, qm_cluster m) \<in> set (qp_words p)"
    and "pos \<le> length q" and "take pos q = concat (map fst ps)" and "parts = concat (map (\<lambda>(a, b). a @ b) ps)"
    and "list_all (enhanced_piece p) ps"
  shows "\<exists>ps' pos' seen'. fold (enhance_step p q) ms (parts, pos, seen) = (concat (map (\<lambda>(a, b). a @ b) ps'), pos', seen') \<and>
    take pos' q = concat (map fst ps') \<and> list_all (enhanced_piece p) ps'"
  using assms
proof (induction ms arbitrary: pos ps parts seen)
  case (Cons m ms)
  let ?gap = "take (qm_start m - pos) (drop pos q)"
  let ?ps = "ps @ [(?gap, []), (qm_word m, insertion p seen m)]"
  have m: "qm_start m \<le> qm_end m" "qm_end m < length q" "qm_word m = take (Suc (qm_end m) - qm_start m) (drop (qm_start m) q)"
    using sound_start Cons.prems(2) by (metis list.set_intros(1))+
  have pos: "pos \<le> qm_start m" using Cons.prems(1) by simp
  have "take (Suc (qm_end m)) q = take pos q @ ?gap @ qm_word m"
  proof -
    have "take (Suc (qm_end m)) q = take (qm_start m) q @ qm_word m"
      using m take_add [of "qm_start m" "Suc (qm_end m) - qm_start m" q] by simp
    moreover have "take (qm_start m) q = take pos q @ ?gap"
      using pos take_add [of pos "qm_start m - pos" q] by simp
    ultimately show ?thesis by simp
  qed
  then have "take (Suc (qm_end m)) q = concat (map fst ?ps)" using Cons.prems(4) by simp
  moreover have "list_all (enhanced_piece p) ?ps"
    using Cons.prems(2,6) by (auto simp: enhanced_piece_def insertion_def other_words_def)
  moreover have "enhance_step p q m (parts, pos, seen) =
      (concat (map (\<lambda>(a, b). a @ b) ?ps), Suc (qm_end m), insert (qm_cluster m) seen)"
    using Cons.prems(5) by (simp add: enhance_step_def)
  ultimately show ?case
    using Cons.IH [of "Suc (qm_end m)" ?ps "concat (map (\<lambda>(a, b). a @ b) ?ps)" "insert (qm_cluster m) seen"] Cons.prems(1,2) m(2)
    by simp
next
  case Nil
  then show ?case by auto
qed

text \<open>
  C36. Whatever the model answers, the enhanced query is the query with insertions: it can be cut into pieces such
  that behind some of them, each a word of the vocabulary, the other words of its cluster are written in
  parentheses, and nothing else changes.
\<close>

theorem enhance_only_inserts:
  assumes "finds_all iter"
  shows "\<exists>ps. q = concat (map fst ps) \<and> enhance_single iter d p q = concat (map (\<lambda>(a, b). a @ b) ps) \<and>
    list_all (enhanced_piece p) ps"
proof (cases "get_matches iter d p q = []")
  case True
  then show ?thesis
    by (intro exI [of _ "[(q, [])]"]) (simp add: enhance_single_def enhanced_piece_def)
next
  case False
  obtain ps pos seen where f: "fold (enhance_step p q) (get_matches iter d p q) ([], 0, {}) = (concat (map (\<lambda>(a, b). a @ b) ps), pos, seen)"
    and ps: "take pos q = concat (map fst ps)" "list_all (enhanced_piece p) ps"
    using enhance_fold [of 0 "get_matches iter d p q" q p "[]" "[]" "{}"] get_matches_sound [OF assms, of d p q] by auto
  have "q = concat (map fst (ps @ [(drop pos q, [])]))" using ps(1) by (metis append_take_drop_id concat_append concat.simps append_Nil2 fst_conv list.simps(8,9) map_append)
  moreover have "enhance_single iter d p q = concat (map (\<lambda>(a, b). a @ b) (ps @ [(drop pos q, [])]))"
    using False f by (auto simp: enhance_single_def Let_def)
  moreover have "list_all (enhanced_piece p) (ps @ [(drop pos q, [])])" using ps(2) by (simp add: enhanced_piece_def)
  ultimately show ?thesis by blast
qed

section \<open>Leftmost, longest\<close>

lemma keep_disjoint_covers:
  assumes "sorted (map match_key ms)" and "\<forall>m \<in> set ms. qm_start m \<le> qm_end m" and "m \<in> set ms"
  shows "int (qm_start m) \<le> e \<or>
    (\<exists>k \<in> set (keep_disjoint e ms). match_key k \<le> match_key m \<and> qm_start m \<le> qm_end k)"
  using assms
proof (induction ms arbitrary: e)
  case (Cons x ms)
  show ?case
  proof (cases "m = x")
    case True
    then show ?thesis using Cons.prems(2) by auto
  next
    case False
    then have m: "m \<in> set ms" using Cons.prems(3) by simp
    have le: "match_key x \<le> match_key m" using Cons.prems(1) m by simp
    show ?thesis
    proof (cases "int (qm_start x) \<le> e")
      case True
      then show ?thesis using Cons.IH [of e] Cons.prems m by simp
    next
      case x: False
      then show ?thesis using Cons.IH [of "int (qm_end x)"] Cons.prems m le by auto
    qed
  qed
qed simp

text \<open>
  Overlaps are resolved leftmost, longest: wherever a word of the vocabulary stands in the query, a match
  was kept that starts no later, reaches the place where the word starts, and is no shorter when both start
  together; and the matches that are kept do not overlap.
\<close>

theorem matches_leftmost_longest:
  assumes "finds_all iter" and "(w, c) \<in> set words" and "occurs_at q w e"
  shows "let kept = keep_disjoint (-1) (sort_key match_key (map to_match (iter words q))) in
    apart 0 kept \<and>
    list_ex (\<lambda>k. (qm_start k < Suc e - length w \<or> (qm_start k = Suc e - length w \<and> length w \<le> length (qm_word k))) \<and>
        Suc e - length w \<le> qm_end k) kept"
proof -
  let ?ms = "sort_key match_key (map to_match (iter words q))"
  let ?m = "to_match (e, (c, w))"
  have "(e, (c, w)) \<in> set (iter words q)" using assms by (auto simp: finds_all_def)
  then have m: "?m \<in> set ?ms" by (auto simp: rev_image_eqI)
  have "\<forall>m \<in> set ?ms. qm_start m \<le> qm_end m"
    using raw_sound [OF assms(1), of _ words q] sound_start by fastforce
  from keep_disjoint_covers [OF sorted_sort_key this m, of "-1"]
  obtain k where k: "k \<in> set (keep_disjoint (-1) ?ms)" "match_key k \<le> match_key ?m" "qm_start ?m \<le> qm_end k" by auto
  then have "(qm_start k < Suc e - length w \<or> (qm_start k = Suc e - length w \<and> length w \<le> length (qm_word k))) \<and>
      Suc e - length w \<le> qm_end k"
    by (auto simp: match_key_def to_match_def less_eq_prod_def)
  moreover have "apart 0 (keep_disjoint (-1) ?ms)" using keep_disjoint_apart [of "-1" ?ms] by simp
  ultimately show ?thesis using k(1) unfolding Let_def list_ex_iff by blast
qed

section \<open>An automaton\<close>

definition naive_iter :: "'k automaton" where
  "naive_iter words q =
     concat (map (\<lambda>e. map (\<lambda>(w, c). (e, (c, w))) (filter (\<lambda>(w, c). occurs_at q w e) words)) [0..<length q])"

lemma naive_finds_all: "finds_all naive_iter"
  by (auto simp: finds_all_def naive_iter_def occurs_at_def image_iff)

definition demo_rows :: "nat vocab_row list" where
  "demo_rows = [(Some 1, Some [97, 98]), (Some 1, Some [99]), (None, Some [98]), (Some 2, Some [98])]"

theorem matches_leftmost_longest_witness:
  "let kept = keep_disjoint (-1) (sort_key match_key (map to_match (naive_iter [([97, 98], 1), ([98], 2::nat)] [97, 98, 98]))) in
    apart 0 kept \<and>
    list_ex (\<lambda>k. (qm_start k < Suc 1 - length [98::nat] \<or> (qm_start k = Suc 1 - length [98::nat] \<and> length [98::nat] \<le> length (qm_word k))) \<and>
        Suc 1 - length [98::nat] \<le> qm_end k) kept"
  by (rule matches_leftmost_longest [OF naive_finds_all, where c = 2]) (simp_all add: occurs_at_def)

theorem enhance_only_inserts_witness:
  "\<exists>ps. [97, 98, 98] = concat (map fst ps) \<and>
    enhance_single naive_iter (LLMFilter (\<lambda>q ms k. Inr (map (\<lambda>m. True) ms)) 3) (rebuild_automaton id demo_rows) [97, 98, 98] =
      concat (map (\<lambda>(a, b). a @ b) ps) \<and>
    list_all (enhanced_piece (rebuild_automaton id demo_rows)) ps"
  by (rule enhance_only_inserts [OF naive_finds_all])

end
