(* ===== verification/TraceTree.thy ===== *)
theory TraceTree
  imports Complex_Main Prelude "HOL-Library.Multiset" "HOL-Library.Product_Lexorder" "HOL-Library.List_Lexorder" "HOL-Library.Char_ord"
begin

text \<open>
  The tree of a trace, rebuilt from its spans (\<open>tracing/consume/reconstruction/tree.py\<close>): a span hangs below its
  parent unless the parent is missing or the chain of parents has a cycle; siblings are sorted. Times are
  rational numbers. The tree of Python objects is grown from the lists of children with fuel.
\<close>

section \<open>Spans and steps\<close>

record span =
  sp_id :: string
  sp_parent :: "string option"
  sp_name :: string
  sp_kind :: "string option"
  sp_semantic :: "string option"
  sp_status :: "string option"
  sp_start :: rat
  sp_end :: "rat option"
  sp_error :: "string option"
  sp_error_attr :: "string option"

record step_info =
  si_id :: string
  si_name :: string
  si_type :: string
  si_semantic :: "string option"
  si_status :: string
  si_start :: rat
  si_end :: "rat option"
  si_latency :: "rat option"
  si_error :: "string option"

datatype step = Step (info: step_info) (children: "step list")

definition latency_ms :: "rat option \<Rightarrow> rat option \<Rightarrow> rat option" where
  "latency_ms start fin =
     (case (start, fin) of (Some a, Some b) \<Rightarrow> Some (max 0 ((b - a) * 1000)) | _ \<Rightarrow> None)"

definition end_time_from_latency :: "rat option \<Rightarrow> rat option \<Rightarrow> rat option" where
  "end_time_from_latency start latency =
     (case (start, latency) of (Some a, Some l) \<Rightarrow> Some (a + l / 1000) | _ \<Rightarrow> None)"

definition public_status :: "string option \<Rightarrow> string" where
  "public_status s = (if s = Some ''error'' then ''error'' else ''success'')"

definition step_node_type :: "span \<Rightarrow> string" where
  "step_node_type s = (case sp_kind s of Some k \<Rightarrow> if k \<in> {''flow'', ''module'', ''callable''} then k else ''callable'' | None \<Rightarrow> ''callable'')"

text \<open>Python's \<open>or\<close>: an empty message counts as none.\<close>

definition error_message :: "span \<Rightarrow> string option" where
  "error_message s = (case sp_error s of Some m \<Rightarrow> if m \<noteq> [] then Some m else sp_error_attr s | None \<Rightarrow> sp_error_attr s)"

definition span_step :: "span \<Rightarrow> step_info" where
  "span_step s =
     (let latency = latency_ms (Some (sp_start s)) (sp_end s) in
      \<lparr>si_id = sp_id s, si_name = sp_name s, si_type = step_node_type s, si_semantic = sp_semantic s,
       si_status = public_status (sp_status s), si_start = sp_start s,
       si_end = (case sp_end s of Some e \<Rightarrow> Some e | None \<Rightarrow> end_time_from_latency (Some (sp_start s)) latency),
       si_latency = latency, si_error = error_message s\<rparr>)"

section \<open>Parents\<close>

type_synonym spans_by_id = "(string \<times> span) list"

definition index_spans :: "span list \<Rightarrow> spans_by_id" where
  "index_spans spans = dict_of (map (\<lambda>s. (sp_id s, s)) spans)"

text \<open>The walk up the parents with the ids seen; it ends because every step sees a new id of the index.\<close>

function chain_cycle :: "spans_by_id \<Rightarrow> string list \<Rightarrow> string option \<Rightarrow> bool" where
  "chain_cycle d seen p =
     (case p of
        None \<Rightarrow> False
      | Some q \<Rightarrow>
          (case map_of d q of
             None \<Rightarrow> False
           | Some s \<Rightarrow> if q \<in> set seen then True else chain_cycle d (q # seen) (sp_parent s)))"
  by pat_completeness auto
termination
proof (relation "measure (\<lambda>(d, seen, p). card (fst ` set d - set seen))", goal_cases)
  case (2 d seen p q s)
  then have "q \<in> fst ` set d" by (auto dest: map_of_SomeD simp: rev_image_eqI)
  then have "fst ` set d - set (q # seen) \<subset> fst ` set d - set seen" using 2(3) by auto
  then show ?case by (simp add: psubset_card_mono)
qed simp

declare chain_cycle.simps [simp del]

definition parent_chain_has_cycle :: "span \<Rightarrow> spans_by_id \<Rightarrow> bool" where
  "parent_chain_has_cycle s d = chain_cycle d [sp_id s] (sp_parent s)"

definition is_root :: "spans_by_id \<Rightarrow> span \<Rightarrow> bool" where
  "is_root d s \<longleftrightarrow> (case sp_parent s of None \<Rightarrow> True | Some q \<Rightarrow> map_of d q = None) \<or> parent_chain_has_cycle s d"

text \<open>A root that another trace explains: its parent is missing, or its chain has a cycle.\<close>

definition is_orphan :: "spans_by_id \<Rightarrow> span \<Rightarrow> bool" where
  "is_orphan d s \<longleftrightarrow> (\<exists>q \<in> set_option (sp_parent s). map_of d q = None) \<or> parent_chain_has_cycle s d"

text \<open>The children of each step, the roots, and whether there were orphans.\<close>

record links =
  lk_children :: "string \<Rightarrow> string list"
  lk_roots :: "string list"
  lk_orphans :: bool

definition link_span :: "spans_by_id \<Rightarrow> span \<Rightarrow> links \<Rightarrow> links" where
  "link_span d s l =
     (if is_root d s then
        l\<lparr>lk_orphans := lk_orphans l \<or> is_orphan d s,
          lk_roots := (if sp_id s \<in> set (lk_roots l) then lk_roots l else lk_roots l @ [sp_id s])\<rparr>
      else
        let q = the (sp_parent s) in
        l\<lparr>lk_children := (lk_children l)(q := lk_children l q @ [sp_id s])\<rparr>)"

definition link_spans :: "span list \<Rightarrow> links" where
  "link_spans spans = fold (link_span (index_spans spans)) spans \<lparr>lk_children = (\<lambda>_. []), lk_roots = [], lk_orphans = spans = []\<rparr>"

section \<open>The tree\<close>

definition step_key :: "step_info \<Rightarrow> rat \<times> string \<times> string" where
  "step_key i = (si_start i, si_name i, si_id i)"

text \<open>The step of an id with everything below it; None when the fuel does not reach the leaves.\<close>

fun grow :: "nat \<Rightarrow> (string \<Rightarrow> step_info) \<Rightarrow> (string \<Rightarrow> string list) \<Rightarrow> string \<Rightarrow> step option" where
  "grow 0 mk ch i = None"
| "grow (Suc n) mk ch i = map_option (Step (mk i)) (those (map (grow n mk ch) (ch i)))"

fun sort_step :: "step \<Rightarrow> step" where
  "sort_step (Step i cs) = Step i (sort_key (step_key \<circ> info) (map sort_step cs))"

definition sort_steps :: "step list \<Rightarrow> step list" where
  "sort_steps ss = sort_key (step_key \<circ> info) (map sort_step ss)"

fun dfs :: "step \<Rightarrow> step_info list" where
  "dfs (Step i cs) = i # concat (map dfs cs)"

definition first_error_message :: "step list \<Rightarrow> string option" where
  "first_error_message roots =
     (case filter (\<lambda>i. si_status i = ''error'' \<and> si_error i \<notin> {None, Some []}) (concat (map dfs roots)) of
        i # _ \<Rightarrow> si_error i
      | [] \<Rightarrow> None)"

record raw_trace =
  rt_id :: string
  rt_name :: "string option"
  rt_status :: "string option"
  rt_start :: "rat option"
  rt_end :: "rat option"
  rt_latency :: "rat option"

definition aggregate_status :: "raw_trace \<Rightarrow> span list \<Rightarrow> string" where
  "aggregate_status tr spans =
     (if \<exists>s \<in> set spans. sp_status s = Some ''error'' then ''error''
      else case rt_status tr of Some x \<Rightarrow> if x \<in> {''ok'', ''error''} then x else ''ok'' | None \<Rightarrow> ''ok'')"

definition list_min :: "rat list \<Rightarrow> rat" where "list_min xs = fold min (tl xs) (hd xs)"
definition list_max :: "rat list \<Rightarrow> rat" where "list_max xs = fold max (tl xs) (hd xs)"

definition aggregate_start_time :: "raw_trace \<Rightarrow> span list \<Rightarrow> rat" where
  "aggregate_start_time tr spans =
     (case rt_start tr of Some t \<Rightarrow> t | None \<Rightarrow> if spans \<noteq> [] then list_min (map sp_start spans) else 0)"

definition aggregate_latency_ms :: "raw_trace \<Rightarrow> span list \<Rightarrow> rat option" where
  "aggregate_latency_ms tr spans =
     (let starts = map sp_start spans; ends = List.map_filter sp_end spans in
      if starts \<noteq> [] \<and> ends \<noteq> [] then latency_ms (Some (list_min starts)) (Some (list_max ends))
      else map_option (\<lambda>l. max 0 (l * 1000)) (rt_latency tr))"

definition virtual_root :: "raw_trace \<Rightarrow> step list \<Rightarrow> string \<Rightarrow> rat \<Rightarrow> rat option \<Rightarrow> string option \<Rightarrow> step" where
  "virtual_root tr cs status start latency err =
     Step \<lparr>si_id = ''__root__'', si_name = (case rt_name tr of Some n \<Rightarrow> if n \<noteq> [] then n else rt_id tr | None \<Rightarrow> rt_id tr), si_type = ''flow'',
        si_semantic = None, si_status = public_status (Some status), si_start = start,
        si_end = end_time_from_latency (Some start) latency, si_latency = latency, si_error = err\<rparr> cs"

record structured_trace =
  tr_tree :: step
  tr_start :: rat
  tr_end :: "rat option"
  tr_latency :: "rat option"
  tr_status :: string
  tr_error :: "string option"

definition root_steps :: "span list \<Rightarrow> step list option" where
  "root_steps spans =
     (let l = link_spans spans; mk = (\<lambda>i. span_step (the (map_of (index_spans spans) i))) in
      map_option sort_steps (those (map (grow (Suc (length spans)) mk (lk_children l)) (lk_roots l))))"

definition rebuild :: "raw_trace \<Rightarrow> span list \<Rightarrow> structured_trace option" where
  "rebuild tr spans =
     (case root_steps spans of
        None \<Rightarrow> None
      | Some roots \<Rightarrow>
          let status = aggregate_status tr spans; start = aggregate_start_time tr spans;
              agg = aggregate_latency_ms tr spans; err = first_error_message roots;
              use_virtual = (length roots \<noteq> 1 \<or> lk_orphans (link_spans spans));
              tree = (if use_virtual then virtual_root tr roots status start agg err else hd roots);
              latency = (if use_virtual then agg
                         else case si_latency (info (hd roots)) of Some l \<Rightarrow> Some l | None \<Rightarrow> agg)
          in Some \<lparr>tr_tree = tree, tr_start = start,
                   tr_end = (case rt_end tr of Some e \<Rightarrow> Some e | None \<Rightarrow> end_time_from_latency (Some start) latency),
                   tr_latency = latency, tr_status = public_status (Some status), tr_error = err\<rparr>)"

section \<open>Chains of parents\<close>

lemma chain_cycle_None [simp]: "\<not> chain_cycle d seen None"
  by (simp add: chain_cycle.simps)

lemma chain_cycle_fewer:
  "\<not> chain_cycle d seen p \<Longrightarrow> set seen' \<subseteq> set seen \<Longrightarrow> \<not> chain_cycle d seen' p"
proof (induction d seen p arbitrary: seen' rule: chain_cycle.induct)
  case (1 d seen p)
  show ?case
  proof (cases p)
    case (Some q)
    show ?thesis
    proof (cases "map_of d q")
      case (Some s)
      have q: "q \<notin> set seen" "\<not> chain_cycle d (q # seen) (sp_parent s)"
        using "1.prems"(1) \<open>p = Some q\<close> Some by (simp_all add: chain_cycle.simps [of d seen] split: if_splits)
      then have "\<not> chain_cycle d (q # seen') (sp_parent s)"
        using "1.IH" [OF \<open>p = Some q\<close> Some q(1) q(2), of "q # seen'"] "1.prems"(2) by auto
      then show ?thesis using \<open>p = Some q\<close> Some q(1) "1.prems"(2) by (auto simp: chain_cycle.simps [of d seen'])
    qed (simp add: chain_cycle.simps [of d seen'] \<open>p = Some q\<close>)
  qed simp
qed

text \<open>How many steps the walk takes before it leaves the index.\<close>

function chain_length :: "spans_by_id \<Rightarrow> string list \<Rightarrow> string option \<Rightarrow> nat" where
  "chain_length d seen p =
     (case p of
        None \<Rightarrow> 0
      | Some q \<Rightarrow>
          (case map_of d q of
             None \<Rightarrow> 0
           | Some s \<Rightarrow> if q \<in> set seen then 0 else Suc (chain_length d (q # seen) (sp_parent s))))"
  by pat_completeness auto
termination
proof (relation "measure (\<lambda>(d, seen, p). card (fst ` set d - set seen))", goal_cases)
  case (2 d seen p q s)
  then have "q \<in> fst ` set d" by (auto dest: map_of_SomeD simp: rev_image_eqI)
  then have "fst ` set d - set (q # seen) \<subset> fst ` set d - set seen" using 2(3) by auto
  then show ?case by (simp add: psubset_card_mono)
qed simp

declare chain_length.simps [simp del]

lemma chain_length_bound: "chain_length d seen p \<le> card (fst ` set d - set seen)"
proof (induction d seen p rule: chain_length.induct)
  case (1 d seen p)
  show ?case
  proof (cases p)
    case (Some q)
    show ?thesis
    proof (cases "map_of d q")
      case (Some s)
      show ?thesis
      proof (cases "q \<in> set seen")
        case False
        have "q \<in> fst ` set d" using Some by (auto dest: map_of_SomeD simp: rev_image_eqI)
        then have "fst ` set d - set (q # seen) \<subset> fst ` set d - set seen" using False by auto
        then have "card (fst ` set d - set (q # seen)) < card (fst ` set d - set seen)" by (simp add: psubset_card_mono)
        then show ?thesis
          using "1.IH" [OF \<open>p = Some q\<close> Some False] \<open>p = Some q\<close> Some False by (simp add: chain_length.simps [of d seen])
      qed (simp add: chain_length.simps [of d seen] \<open>p = Some q\<close> Some)
    qed (simp add: chain_length.simps [of d seen] \<open>p = Some q\<close>)
  qed (simp add: chain_length.simps [of d seen])
qed

lemma chain_length_fewer:
  "\<not> chain_cycle d seen p \<Longrightarrow> set seen' \<subseteq> set seen \<Longrightarrow> chain_length d seen' p = chain_length d seen p"
proof (induction d seen p arbitrary: seen' rule: chain_cycle.induct)
  case (1 d seen p)
  show ?case
  proof (cases p)
    case (Some q)
    show ?thesis
    proof (cases "map_of d q")
      case (Some s)
      have q: "q \<notin> set seen" "\<not> chain_cycle d (q # seen) (sp_parent s)"
        using "1.prems"(1) \<open>p = Some q\<close> Some by (simp_all add: chain_cycle.simps [of d seen] split: if_splits)
      then have "chain_length d (q # seen') (sp_parent s) = chain_length d (q # seen) (sp_parent s)"
        using "1.IH" [OF \<open>p = Some q\<close> Some q(1) q(2), of "q # seen'"] "1.prems"(2) by auto
      then show ?thesis using \<open>p = Some q\<close> Some q(1) "1.prems"(2)
        by (auto simp: chain_length.simps [of d seen'] chain_length.simps [of d seen])
    qed (simp add: chain_length.simps [of d seen'] chain_length.simps [of d seen] \<open>p = Some q\<close>)
  qed (simp add: chain_length.simps [of d seen'] chain_length.simps [of d seen])
qed

text \<open>The depth of a span: of a span that is no root it is one more than its parent's, which has no cycle either.\<close>

definition depth :: "spans_by_id \<Rightarrow> span \<Rightarrow> nat" where
  "depth d s = chain_length d [sp_id s] (sp_parent s)"

lemma not_root_parent:
  assumes "\<not> is_root d s"
  obtains q t where "sp_parent s = Some q" and "map_of d q = Some t" and "\<not> parent_chain_has_cycle s d"
  using assms by (auto simp: is_root_def split: option.splits)

lemma parent_depth:
  assumes "\<not> is_root d s" and "sp_parent s = Some q" and "map_of d q = Some t" and "sp_id t = q"
  shows "\<not> parent_chain_has_cycle t d" and "depth d s = Suc (depth d t)"
proof -
  have c: "\<not> chain_cycle d [sp_id s] (Some q)" using assms(1,2) by (simp add: is_root_def parent_chain_has_cycle_def)
  then have q: "q \<noteq> sp_id s" "\<not> chain_cycle d [q, sp_id s] (sp_parent t)"
    using assms(3) by (simp_all add: chain_cycle.simps [of d "[sp_id s]"] split: if_splits)
  then show "\<not> parent_chain_has_cycle t d"
    using chain_cycle_fewer [OF q(2), of "[q]"] assms(4) by (simp add: parent_chain_has_cycle_def)
  show "depth d s = Suc (depth d t)"
    using q chain_length_fewer [OF q(2), of "[q]"] assms(2-4) by (simp add: depth_def chain_length.simps [of d "[sp_id s]"])
qed

lemma depth_bound: "sp_id s \<in> fst ` set d \<Longrightarrow> depth d s < length d"
proof -
  assume s: "sp_id s \<in> fst ` set d"
  have "depth d s \<le> card (fst ` set d - {sp_id s})" using chain_length_bound [of d "[sp_id s]" "sp_parent s"] by (simp add: depth_def)
  also have "\<dots> < card (fst ` set d)" using s by (intro psubset_card_mono) auto
  also have "\<dots> \<le> length d" using card_length [of "map fst d"] by simp
  finally show ?thesis .
qed

section \<open>Every span once\<close>

lemma index_distinct: "distinct (map sp_id spans) \<Longrightarrow> index_spans spans = map (\<lambda>s. (sp_id s, s)) spans"
  by (simp add: index_spans_def dict_of_distinct comp_def)

lemma index_get: "distinct (map sp_id spans) \<Longrightarrow> s \<in> set spans \<Longrightarrow> map_of (index_spans spans) (sp_id s) = Some s"
  by (intro map_of_is_SomeI) (auto simp: index_distinct comp_def)

lemma index_SomeD: "distinct (map sp_id spans) \<Longrightarrow> map_of (index_spans spans) q = Some t \<Longrightarrow> t \<in> set spans \<and> sp_id t = q"
  by (auto simp: index_distinct dest!: map_of_SomeD)

definition kids :: "spans_by_id \<Rightarrow> span list \<Rightarrow> string \<Rightarrow> span list" where
  "kids d spans q = filter (\<lambda>s. \<not> is_root d s \<and> sp_parent s = Some q) spans"

lemma fold_link:
  "lk_children (fold (link_span d) spans l) q = lk_children l q @ map sp_id (kids d spans q)"
proof (induction spans arbitrary: l)
  case (Cons s spans)
  have "lk_children (link_span d s l) q = lk_children l q @ (if \<not> is_root d s \<and> sp_parent s = Some q then [sp_id s] else [])"
    by (auto simp: link_span_def Let_def elim: not_root_parent)
  then show ?case using Cons by (simp add: kids_def)
qed (simp add: kids_def)

lemma fold_link_roots:
  "distinct (lk_roots l @ map sp_id spans) \<Longrightarrow>
    lk_roots (fold (link_span d) spans l) = lk_roots l @ map sp_id (filter (is_root d) spans)"
proof (induction spans arbitrary: l)
  case (Cons s spans)
  have "lk_roots (link_span d s l) = lk_roots l @ (if is_root d s then [sp_id s] else [])"
    using Cons.prems by (auto simp: link_span_def Let_def)
  then show ?case using Cons.IH [of "link_span d s l"] Cons.prems by (auto split: if_splits)
qed simp

lemma link_spans_children: "lk_children (link_spans spans) q = map sp_id (kids (index_spans spans) spans q)"
  by (simp add: link_spans_def fold_link)

lemma link_spans_roots:
  "distinct (map sp_id spans) \<Longrightarrow> lk_roots (link_spans spans) = map sp_id (filter (is_root (index_spans spans)) spans)"
  by (simp add: link_spans_def fold_link_roots)

lemma mset_concat_map: "mset (concat (map f xs)) = (\<Sum>x \<in># mset xs. mset (f x))"
  by (induction xs) simp_all

lemma filter_mset_split: "(\<And>x. \<not> (P x \<and> Q x)) \<Longrightarrow> filter_mset (\<lambda>x. P x \<or> Q x) M = filter_mset P M + filter_mset Q M"
  by (induction M) auto

lemma mset_concat_cong: "mset xs = mset ys \<Longrightarrow> mset (concat (map f xs)) = mset (concat (map f ys))"
  by (simp only: mset_concat_map)

lemma kids_of_list:
  "distinct (map sp_id ps) \<Longrightarrow>
    mset (concat (map (\<lambda>s. kids d spans (sp_id s)) ps)) =
      filter_mset (\<lambda>c. \<not> is_root d c \<and> sp_parent c \<in> Some ` sp_id ` set ps) (mset spans)"
proof (induction ps)
  case (Cons p ps)
  have "filter_mset (\<lambda>c. \<not> is_root d c \<and> sp_parent c \<in> Some ` sp_id ` set (p # ps)) (mset spans) =
      filter_mset (\<lambda>c. \<not> is_root d c \<and> sp_parent c = Some (sp_id p)) (mset spans) +
      filter_mset (\<lambda>c. \<not> is_root d c \<and> sp_parent c \<in> Some ` sp_id ` set ps) (mset spans)"
    using Cons.prems by (subst filter_mset_split [symmetric]) (auto intro!: filter_mset_cong)
  then show ?case using Cons by (simp add: kids_def)
qed simp

text \<open>The spans without a cycle above them, by depth.\<close>

definition level :: "span list \<Rightarrow> nat \<Rightarrow> span list" where
  "level spans k = filter (\<lambda>s. \<not> parent_chain_has_cycle s (index_spans spans) \<and> depth (index_spans spans) s = k) spans"

lemma child_iff:
  assumes "distinct (map sp_id spans)" and "c \<in> set spans"
  shows "\<not> is_root (index_spans spans) c \<and> sp_parent c \<in> Some ` sp_id ` set (level spans k) \<longleftrightarrow>
    \<not> parent_chain_has_cycle c (index_spans spans) \<and> depth (index_spans spans) c = Suc k"
proof
  assume l: "\<not> is_root (index_spans spans) c \<and> sp_parent c \<in> Some ` sp_id ` set (level spans k)"
  then obtain t where t: "t \<in> set (level spans k)" "sp_parent c = Some (sp_id t)" by auto
  then have "t \<in> set spans" "depth (index_spans spans) t = k" by (simp_all add: level_def)
  then show "\<not> parent_chain_has_cycle c (index_spans spans) \<and> depth (index_spans spans) c = Suc k"
    using l t parent_depth(2) [OF _ t(2) index_get [OF assms(1)] refl] by (auto simp: is_root_def)
next
  assume r: "\<not> parent_chain_has_cycle c (index_spans spans) \<and> depth (index_spans spans) c = Suc k"
  then obtain q t where q: "sp_parent c = Some q" "map_of (index_spans spans) q = Some t"
    by (cases "sp_parent c"; cases "map_of (index_spans spans) (the (sp_parent c))")
      (simp_all add: depth_def chain_length.simps)
  then have nr: "\<not> is_root (index_spans spans) c" using r by (simp add: is_root_def)
  have t: "t \<in> set spans" "sp_id t = q" using index_SomeD [OF assms(1) q(2)] by auto
  then have "t \<in> set (level spans k)" using parent_depth [OF nr q t(2)] r by (simp add: level_def)
  then show "\<not> is_root (index_spans spans) c \<and> sp_parent c \<in> Some ` sp_id ` set (level spans k)"
    using nr q(1) t(2) by auto
qed

lemma level_kids:
  assumes "distinct (map sp_id spans)"
  shows "mset (concat (map (\<lambda>s. kids (index_spans spans) spans (sp_id s)) (level spans k))) = mset (level spans (Suc k))"
proof -
  have "distinct (map sp_id (level spans k))" unfolding level_def by (rule distinct_map_filter [OF assms])
  note kids_of_list [OF this, of "index_spans spans" spans]
  also have "filter_mset (\<lambda>c. \<not> is_root (index_spans spans) c \<and> sp_parent c \<in> Some ` sp_id ` set (level spans k)) (mset spans) =
      filter_mset (\<lambda>c. \<not> parent_chain_has_cycle c (index_spans spans) \<and> depth (index_spans spans) c = Suc k) (mset spans)"
    by (intro filter_mset_cong child_iff [OF assms]) simp_all
  finally show ?thesis by (simp add: level_def [of spans "Suc k"])
qed

text \<open>The subtrees of a level hold the spans of this depth and below, each once, when the fuel covers the depth left.\<close>

definition tree_ids :: "step option \<Rightarrow> string list" where
  "tree_ids t = (case t of None \<Rightarrow> [] | Some t \<Rightarrow> map si_id (dfs t))"

lemma those_Some: "those xs = Some ys \<longleftrightarrow> xs = map Some ys"
  by (induction xs arbitrary: ys) (auto split: option.splits simp: map_eq_Cons_conv Cons_eq_map_conv)

lemma tree_ids_grow:
  assumes "si_id (mk i) = i" and "\<forall>c \<in> set (ch i). grow n mk ch c \<noteq> None"
  shows "grow (Suc n) mk ch i \<noteq> None" and "tree_ids (grow (Suc n) mk ch i) = i # concat (map (\<lambda>c. tree_ids (grow n mk ch c)) (ch i))"
proof -
  have g: "map (grow n mk ch) (ch i) = map Some (map (\<lambda>c. the (grow n mk ch c)) (ch i))"
    using assms(2) by auto
  then have t: "those (map (grow n mk ch) (ch i)) = Some (map (\<lambda>c. the (grow n mk ch c)) (ch i))" by (simp only: those_Some)
  then show "grow (Suc n) mk ch i \<noteq> None" by simp
  have "concat (map (\<lambda>c. map si_id (dfs (the (grow n mk ch c)))) cs) = concat (map (\<lambda>c. tree_ids (grow n mk ch c)) cs)"
    if "\<forall>c \<in> set cs. grow n mk ch c \<noteq> None" for cs
    using that by (induction cs) (auto simp: tree_ids_def)
  then show "tree_ids (grow (Suc n) mk ch i) = i # concat (map (\<lambda>c. tree_ids (grow n mk ch c)) (ch i))"
    using t assms by (simp add: tree_ids_def map_concat comp_def)
qed

lemma depth_less: "distinct (map sp_id spans) \<Longrightarrow> s \<in> set spans \<Longrightarrow> depth (index_spans spans) s < length spans"
  using depth_bound [of s "index_spans spans"] by (simp add: index_distinct image_image)

lemma level_trees:
  assumes dist: "distinct (map sp_id spans)" and mk: "\<And>s. s \<in> set spans \<Longrightarrow> si_id (mk (sp_id s)) = sp_id s"
    and ch: "\<And>i. ch i = map sp_id (kids (index_spans spans) spans i)"
  shows "length spans \<le> n + k \<Longrightarrow>
    (\<forall>s \<in> set (level spans k). grow n mk ch (sp_id s) \<noteq> None) \<and>
    mset (concat (map (\<lambda>s. tree_ids (grow n mk ch (sp_id s))) (level spans k))) =
      image_mset sp_id (filter_mset (\<lambda>s. \<not> parent_chain_has_cycle s (index_spans spans) \<and> k \<le> depth (index_spans spans) s) (mset spans))"
proof (induction n arbitrary: k)
  case 0
  have "\<not> k \<le> depth (index_spans spans) s" if "s \<in> set spans" for s using depth_less [OF dist that] 0 by simp
  then have "level spans k = []" "filter_mset (\<lambda>s. \<not> parent_chain_has_cycle s (index_spans spans) \<and> k \<le> depth (index_spans spans) s) (mset spans) = {#}"
    by (auto simp: level_def filter_empty_conv)
  then show ?case by simp
next
  case (Suc n)
  let ?d = "index_spans spans" and ?T = "\<lambda>n s. tree_ids (grow n mk ch (sp_id s))"
  let ?K = "\<lambda>s. kids ?d spans (sp_id s)"
  have IH: "\<forall>s \<in> set (level spans (Suc k)). grow n mk ch (sp_id s) \<noteq> None"
    "mset (concat (map (?T n) (level spans (Suc k)))) =
      image_mset sp_id (filter_mset (\<lambda>s. \<not> parent_chain_has_cycle s ?d \<and> Suc k \<le> depth ?d s) (mset spans))"
    using Suc.IH [of "Suc k"] Suc.prems by simp_all
  have kids: "set (?K s) \<subseteq> set (level spans (Suc k))" if "s \<in> set (level spans k)" for s
    using mset_eq_setD [OF level_kids [OF dist, of k]] that by auto
  have sub: "\<forall>c \<in> set (ch (sp_id s)). grow n mk ch c \<noteq> None" if "s \<in> set (level spans k)" for s
    using IH(1) kids [OF that] by (auto simp: ch)
  have T: "?T (Suc n) s = sp_id s # concat (map (?T n) (?K s))" if "s \<in> set (level spans k)" for s
    using tree_ids_grow(2) [where mk = mk and ch = ch and n = n and i = "sp_id s", OF mk sub [OF that]] that
    by (simp add: ch comp_def level_def)
  have "mset (concat (map (?T (Suc n)) xs)) = image_mset sp_id (mset xs) + mset (concat (map (?T n) (concat (map ?K xs))))"
    if "set xs \<subseteq> set (level spans k)" for xs
    using that by (induction xs) (simp_all add: T del: grow.simps)
  from this [of "level spans k"]
  have "mset (concat (map (?T (Suc n)) (level spans k))) =
      image_mset sp_id (mset (level spans k)) + mset (concat (map (?T n) (concat (map ?K (level spans k)))))" by simp
  also have "mset (concat (map (?T n) (concat (map ?K (level spans k))))) = mset (concat (map (?T n) (level spans (Suc k))))"
    by (rule mset_concat_cong [OF level_kids [OF dist]])
  also have "image_mset sp_id (mset (level spans k)) + \<dots> =
      image_mset sp_id (filter_mset (\<lambda>s. \<not> parent_chain_has_cycle s ?d \<and> k \<le> depth ?d s) (mset spans))"
  proof -
    have "filter_mset (\<lambda>s. \<not> parent_chain_has_cycle s ?d \<and> k \<le> depth ?d s) (mset spans) =
        filter_mset (\<lambda>s. \<not> parent_chain_has_cycle s ?d \<and> depth ?d s = k) (mset spans) +
        filter_mset (\<lambda>s. \<not> parent_chain_has_cycle s ?d \<and> Suc k \<le> depth ?d s) (mset spans)"
      by (subst filter_mset_split [symmetric]) (auto intro!: filter_mset_cong)
    then show ?thesis by (simp add: IH(2) level_def [of spans k])
  qed
  finally show ?case using tree_ids_grow(1) [OF mk sub] by (auto simp: level_def)
qed

lemma cyclic_no_kids: "distinct (map sp_id spans) \<Longrightarrow> s \<in> set spans \<Longrightarrow> parent_chain_has_cycle s (index_spans spans) \<Longrightarrow>
    kids (index_spans spans) spans (sp_id s) = []"
  using parent_depth(1) index_get by (fastforce simp: kids_def filter_empty_conv)

lemma roots_split:
  assumes "distinct (map sp_id spans)"
  shows "mset (filter (is_root (index_spans spans)) spans) =
    filter_mset (\<lambda>s. parent_chain_has_cycle s (index_spans spans)) (mset spans) + mset (level spans 0)"
proof -
  have "is_root (index_spans spans) s \<longleftrightarrow>
      parent_chain_has_cycle s (index_spans spans) \<or> \<not> parent_chain_has_cycle s (index_spans spans) \<and> depth (index_spans spans) s = 0"
    if "s \<in> set spans" for s
  proof (cases "is_root (index_spans spans) s")
    case True
    then show ?thesis by (auto simp: is_root_def depth_def chain_length.simps split: option.splits)
  next
    case False
    then obtain q t where "sp_parent s = Some q" "map_of (index_spans spans) q = Some t" "\<not> parent_chain_has_cycle s (index_spans spans)"
      by (rule not_root_parent)
    then show ?thesis using parent_depth(2) [OF False] index_SomeD [OF assms] False by fastforce
  qed
  then have "mset (filter (is_root (index_spans spans)) spans) =
      filter_mset (\<lambda>s. parent_chain_has_cycle s (index_spans spans) \<or>
        \<not> parent_chain_has_cycle s (index_spans spans) \<and> depth (index_spans spans) s = 0) (mset spans)"
    unfolding mset_filter by (intro filter_mset_cong) simp_all
  then show ?thesis by (simp add: filter_mset_split level_def)
qed

lemma sum_singletons: "(\<Sum>s \<in># M. {#f s#}) = image_mset f M"
  by (induction M) simp_all

text \<open>All roots together hold every span once.\<close>

lemma forest_ids:
  assumes dist: "distinct (map sp_id spans)" and mk: "\<And>s. s \<in> set spans \<Longrightarrow> si_id (mk (sp_id s)) = sp_id s"
    and ch: "\<And>i. ch i = map sp_id (kids (index_spans spans) spans i)"
  shows "(\<forall>s \<in> set (filter (is_root (index_spans spans)) spans). grow (Suc (length spans)) mk ch (sp_id s) \<noteq> None) \<and>
    mset (concat (map (\<lambda>s. tree_ids (grow (Suc (length spans)) mk ch (sp_id s))) (filter (is_root (index_spans spans)) spans))) =
      mset (map sp_id spans)"
proof -
  let ?d = "index_spans spans" and ?n = "Suc (length spans)"
  let ?T = "\<lambda>s. tree_ids (grow ?n mk ch (sp_id s))"
  have cyc: "grow ?n mk ch (sp_id s) \<noteq> None \<and> ?T s = [sp_id s]" if "s \<in> set spans" "parent_chain_has_cycle s ?d" for s
    using tree_ids_grow [where mk = mk and ch = ch and n = "length spans" and i = "sp_id s", OF mk [OF that(1)]]
    by (simp add: ch cyclic_no_kids [OF dist that])
  have lev: "(\<forall>s \<in> set (level spans 0). grow ?n mk ch (sp_id s) \<noteq> None) \<and>
      mset (concat (map ?T (level spans 0))) = image_mset sp_id (filter_mset (\<lambda>s. \<not> parent_chain_has_cycle s ?d) (mset spans))"
    using level_trees [OF dist mk ch, of ?n 0] by (simp del: grow.simps)
  have "s \<in> set (level spans 0) \<or> parent_chain_has_cycle s ?d" if "s \<in> set (filter (is_root ?d) spans)" for s
    using roots_split [OF dist] that by (metis (mono_tags) Un_iff filter_mset_eq_conv mem_Collect_eq set_mset_filter set_mset_mset set_mset_union)
  then have some: "\<forall>s \<in> set (filter (is_root ?d) spans). grow ?n mk ch (sp_id s) \<noteq> None" using cyc lev by fastforce
  have "mset (concat (map ?T (filter (is_root ?d) spans))) = (\<Sum>s \<in># mset (filter (is_root ?d) spans). mset (?T s))"
    by (rule mset_concat_map)
  also have "\<dots> = (\<Sum>s \<in># filter_mset (\<lambda>s. parent_chain_has_cycle s ?d) (mset spans). mset (?T s)) + mset (concat (map ?T (level spans 0)))"
    by (simp only: roots_split [OF dist] image_mset_union sum_mset.union mset_concat_map)
  also have "(\<Sum>s \<in># filter_mset (\<lambda>s. parent_chain_has_cycle s ?d) (mset spans). mset (?T s)) =
      (\<Sum>s \<in># filter_mset (\<lambda>s. parent_chain_has_cycle s ?d) (mset spans). {#sp_id s#})"
    by (intro arg_cong [of _ _ sum_mset] image_mset_cong) (use cyc in simp)
  also have "\<dots> = image_mset sp_id (filter_mset (\<lambda>s. parent_chain_has_cycle s ?d) (mset spans))" by (rule sum_singletons)
  also have "\<dots> + mset (concat (map ?T (level spans 0))) = mset (map sp_id spans)"
  proof -
    have e: "image_mset sp_id (mset spans) = image_mset sp_id (filter_mset (\<lambda>s. parent_chain_has_cycle s ?d) (mset spans)) +
        image_mset sp_id (filter_mset (\<lambda>s. \<not> parent_chain_has_cycle s ?d) (mset spans))"
      using arg_cong [OF multiset_partition, of "image_mset sp_id" "mset spans" "\<lambda>s. parent_chain_has_cycle s ?d"]
      by (simp only: image_mset_union)
    show ?thesis by (simp only: mset_map e lev [THEN conjunct2])
  qed
  finally show ?thesis using some by simp
qed

section \<open>Sorted, and each below its parent\<close>

lemma mset_dfs_sort: "mset (dfs (sort_step t)) = mset (dfs t)"
proof (induction t)
  case (Step i cs)
  have "mset (concat (map dfs (sort_key (step_key \<circ> info) (map sort_step cs)))) = mset (concat (map dfs (map sort_step cs)))"
    by (rule mset_concat_cong) simp
  also have "\<dots> = mset (concat (map dfs cs))" using Step by (induction cs) simp_all
  finally show ?case by simp
qed

lemma mset_dfs_sort_steps: "mset (concat (map dfs (sort_steps ts))) = mset (concat (map dfs ts))"
proof -
  have "mset (concat (map dfs (sort_steps ts))) = mset (concat (map dfs (map sort_step ts)))"
    unfolding sort_steps_def by (rule mset_concat_cong) simp
  also have "\<dots> = mset (concat (map dfs ts))" by (induction ts) (simp_all add: mset_dfs_sort)
  finally show ?thesis .
qed

fun sorted_step :: "step \<Rightarrow> bool" where
  "sorted_step (Step i cs) \<longleftrightarrow> sorted (map (step_key \<circ> info) cs) \<and> list_all sorted_step cs"

lemma sorted_sort_step: "sorted_step (sort_step t)"
  by (induction t) (simp add: list_all_iff)

text \<open>Every step below another has it as the parent of its span.\<close>

fun below_parents :: "spans_by_id \<Rightarrow> step \<Rightarrow> bool" where
  "below_parents d (Step i cs) \<longleftrightarrow>
     list_all (\<lambda>c. (case map_of d (si_id (info c)) of Some s \<Rightarrow> sp_parent s = Some (si_id i) | None \<Rightarrow> False) \<and> below_parents d c) cs"

lemma info_sort [simp]: "info (sort_step t) = info t"
  by (cases t) simp

lemma below_parents_sort: "below_parents d t \<Longrightarrow> below_parents d (sort_step t)"
  by (induction t) (auto simp: list_all_iff)

lemma grow_below:
  assumes "distinct (map sp_id spans)" and mk: "\<And>s. s \<in> set spans \<Longrightarrow> si_id (mk (sp_id s)) = sp_id s"
    and "\<And>i. ch i = map sp_id (kids (index_spans spans) spans i)"
  shows "grow n mk ch (sp_id p) = Some t \<Longrightarrow> p \<in> set spans \<Longrightarrow> info t = mk (sp_id p) \<and> below_parents (index_spans spans) t"
proof (induction n arbitrary: p t)
  case (Suc n)
  then obtain cs where cs: "those (map (grow n mk ch) (ch (sp_id p))) = Some cs" "t = Step (mk (sp_id p)) cs" by auto
  have "(case map_of (index_spans spans) (si_id (info c)) of Some s \<Rightarrow> sp_parent s = Some (sp_id p) | None \<Rightarrow> False) \<and>
      below_parents (index_spans spans) c" if "c \<in> set cs" for c
  proof -
    have "Some c \<in> set (map (grow n mk ch) (ch (sp_id p)))" using cs(1) that by (simp only: those_Some set_map imageI)
    then obtain s where s: "s \<in> set (kids (index_spans spans) spans (sp_id p))" "grow n mk ch (sp_id s) = Some c"
      by (auto simp: assms(3))
    have sp: "s \<in> set spans" "map_of (index_spans spans) (sp_id s) = Some s" "sp_parent s = Some (sp_id p)"
      using s(1) index_get [OF assms(1)] by (auto simp: kids_def)
    then have "info c = mk (sp_id s)" "below_parents (index_spans spans) c" using Suc.IH [OF s(2)] by blast+
    then show ?thesis using sp by (simp add: mk)
  qed
  then have "below_parents (index_spans spans) t" unfolding cs(2) below_parents.simps mk [OF Suc.prems(2)] list_all_iff by blast
  then show ?case by (simp add: cs(2))
qed simp

text \<open>
  C19. Spans with different ids, whatever their parents are: the fuel is enough, so the rebuilding ends; every span
  is in the tree exactly once; a step that is below another has it as its span's parent; siblings are sorted
  by start, name and id; and the result is the only root, or a virtual root over all of them.
\<close>

theorem rebuild_places_once:
  assumes "distinct (map sp_id spans)"
  shows "\<exists>r roots. rebuild tr spans = Some r \<and>
    mset (map si_id (concat (map dfs roots))) = mset (map sp_id spans) \<and>
    list_all (below_parents (index_spans spans)) roots \<and>
    sorted (map (step_key \<circ> info) roots) \<and> list_all sorted_step roots \<and>
    (roots = [tr_tree r] \<or> si_id (info (tr_tree r)) = ''__root__'' \<and> children (tr_tree r) = roots)"
proof -
  let ?d = "index_spans spans"
  let ?mk = "\<lambda>i. span_step (the (map_of ?d i))" and ?ch = "lk_children (link_spans spans)"
  let ?R = "filter (is_root ?d) spans" and ?g = "grow (Suc (length spans)) ?mk ?ch"
  define g where "g = ?g"
  have mk: "si_id (?mk (sp_id s)) = sp_id s" if "s \<in> set spans" for s
    using index_get [OF assms that] by (simp add: span_step_def Let_def)
  note forest = forest_ids [OF assms, of ?mk ?ch, OF mk link_spans_children, folded g_def]
  define ts where "ts = map (\<lambda>s. the (g (sp_id s))) ?R"
  have ts: "those (map g (lk_roots (link_spans spans))) = Some ts"
    unfolding those_Some link_spans_roots [OF assms] ts_def using forest by auto
  then have roots: "root_steps spans = Some (sort_steps ts)" by (simp add: root_steps_def Let_def g_def)
  have "mset (map si_id (concat (map dfs (sort_steps ts)))) = image_mset si_id (mset (concat (map dfs ts)))"
    by (simp only: mset_map mset_dfs_sort_steps)
  also have "\<dots> = mset (concat (map (\<lambda>s. tree_ids (g (sp_id s))) ?R))"
  proof -
    have "image_mset si_id (mset (concat (map dfs (map (\<lambda>s. the (g (sp_id s))) xs)))) = mset (concat (map (\<lambda>s. tree_ids (g (sp_id s))) xs))"
      if "\<forall>s \<in> set xs. g (sp_id s) \<noteq> None" for xs
      using that by (induction xs) (auto simp: tree_ids_def)
    then show ?thesis using forest unfolding ts_def by blast
  qed
  finally have ids: "mset (map si_id (concat (map dfs (sort_steps ts)))) = mset (map sp_id spans)" using forest by simp
  have "below_parents ?d t" if "t \<in> set ts" for t
  proof -
    from that obtain s where "s \<in> set spans" "g (sp_id s) = Some t" using forest by (auto simp: ts_def)
    then show ?thesis using grow_below [OF assms, of ?mk ?ch, OF mk link_spans_children] by (simp add: g_def del: grow.simps)
  qed
  then have below: "list_all (below_parents ?d) (sort_steps ts)"
    by (auto simp: sort_steps_def list_all_iff intro: below_parents_sort)
  have sorted: "sorted (map (step_key \<circ> info) (sort_steps ts))" "list_all sorted_step (sort_steps ts)"
    by (auto simp: sort_steps_def list_all_iff sorted_sort_step)
  obtain r where r: "rebuild tr spans = Some r"
    and tree: "tr_tree r = (if length (sort_steps ts) \<noteq> 1 \<or> lk_orphans (link_spans spans)
      then virtual_root tr (sort_steps ts) (aggregate_status tr spans) (aggregate_start_time tr spans)
        (aggregate_latency_ms tr spans) (first_error_message (sort_steps ts)) else hd (sort_steps ts))"
    by (simp add: rebuild_def roots Let_def)
  have "sort_steps ts = [tr_tree r] \<or> si_id (info (tr_tree r)) = ''__root__'' \<and> children (tr_tree r) = sort_steps ts"
    using tree by (cases "sort_steps ts") (auto simp: virtual_root_def split: if_splits)
  then show ?thesis using r ids below sorted by blast
qed

definition demo_span :: "string \<Rightarrow> string option \<Rightarrow> rat \<Rightarrow> span" where
  "demo_span i p t = \<lparr>sp_id = i, sp_parent = p, sp_name = i, sp_kind = None, sp_semantic = None, sp_status = Some ''ok'',
     sp_start = t, sp_end = None, sp_error = None, sp_error_attr = None\<rparr>"

definition demo_trace :: raw_trace where
  "demo_trace = \<lparr>rt_id = ''t'', rt_name = None, rt_status = None, rt_start = None, rt_end = None, rt_latency = None\<rparr>"

definition demo_spans :: "span list" where
  "demo_spans = [demo_span ''c'' (Some ''b'') 3, demo_span ''b'' (Some ''a'') 2, demo_span ''a'' None 1,
     demo_span ''x'' (Some ''y'') 0, demo_span ''y'' (Some ''x'') 0]"

theorem rebuild_places_once_witness:
  "\<exists>r roots. rebuild demo_trace demo_spans = Some r \<and>
    mset (map si_id (concat (map dfs roots))) = {#''c'', ''b'', ''a'', ''x'', ''y''#} \<and>
    list_all (below_parents (index_spans demo_spans)) roots \<and>
    sorted (map (step_key \<circ> info) roots) \<and> list_all sorted_step roots \<and>
    (roots = [tr_tree r] \<or> si_id (info (tr_tree r)) = ''__root__'' \<and> children (tr_tree r) = roots)"
proof -
  have "map sp_id demo_spans = [''c'', ''b'', ''a'', ''x'', ''y'']" by (simp add: demo_spans_def demo_span_def)
  then show ?thesis using rebuild_places_once [of demo_spans demo_trace] by simp
qed

end
