(* ===== verification/NodeGroups.thy ===== *)
theory NodeGroups
  imports Prelude "HOL-Library.List_Lexorder" "HOL-Library.Char_ord" "HOL-Library.Product_Lexorder"
begin

text \<open>
  The groups of nodes that a document is processed into (\<open>tools/rag/parsing_service/impl.py\<close>): their dependency
  graph with its order and its shortest paths, the recursion that creates the nodes of all groups, and the
  numbering of nodes. Groups are names; the order in which Python lists a set is the order of a list here.
\<close>

section \<open>The dependency graph\<close>

record group_cfg =
  gc_parent :: "string option"
  gc_ref :: "string option"

type_synonym node_groups = "(string \<times> group_cfg) list"

text \<open>Forward edges from a parent to its groups, and what each group depends on.\<close>

record dep_graph =
  dg_forward :: "(string \<times> string list) list"
  dg_deps :: "(string \<times> string list) list"

definition add_to :: "string \<Rightarrow> string \<Rightarrow> (string \<times> string list) list \<Rightarrow> (string \<times> string list) list" where
  "add_to k v g = (let vs = dict_get g k [] in AList.update k (if v \<in> set vs then vs else vs @ [v]) g)"

definition nonempty :: "string option \<Rightarrow> string option" where
  "nonempty x = (case x of Some s \<Rightarrow> if s = [] then None else Some s | None \<Rightarrow> None)"

definition add_group :: "node_groups \<Rightarrow> string \<Rightarrow> dep_graph \<Rightarrow> dep_graph res" where
  "add_group groups g dg =
     (case map_of groups g of
        None \<Rightarrow> Inl ValueError
      | Some cfg \<Rightarrow>
          let dg = (case nonempty (gc_parent cfg) of
                      None \<Rightarrow> dg
                    | Some p \<Rightarrow> dg\<lparr>dg_forward := add_to p g (dg_forward dg), dg_deps := add_to g p (dg_deps dg)\<rparr>)
          in Inr (case nonempty (gc_ref cfg) of None \<Rightarrow> dg | Some r \<Rightarrow> dg\<lparr>dg_deps := add_to g r (dg_deps dg)\<rparr>))"

definition build_graph :: "node_groups \<Rightarrow> string list \<Rightarrow> dep_graph res" where
  "build_graph groups active = rfold (add_group groups) active \<lparr>dg_forward = [], dg_deps = map (\<lambda>g. (g, [])) active\<rparr>"

text \<open>
  \<open>TopologicalSorter.static_order\<close>: batches of the nodes whose predecessors are all done, until none is ready. A
  node is a key or one that a key depends on.
\<close>

definition graph_nodes :: "(string \<times> string list) list \<Rightarrow> string list" where
  "graph_nodes deps = remdups (concat (map (\<lambda>(g, ps). g # ps) deps))"

fun batches :: "nat \<Rightarrow> (string \<times> string list) list \<Rightarrow> string list \<Rightarrow> string list \<Rightarrow> string list res" where
  "batches 0 deps nodes done_nodes = Inl ValueError"
| "batches (Suc n) deps nodes done_nodes =
     (let left = filter (\<lambda>g. g \<notin> set done_nodes) nodes;
          ready = filter (\<lambda>g. set (dict_get deps g []) \<subseteq> set done_nodes) left
      in if left = [] then Inr []
         else if ready = [] then Inl ValueError
         else rbind (batches n deps nodes (done_nodes @ ready)) (\<lambda>r. Inr (ready @ r)))"

definition topological_order :: "dep_graph \<Rightarrow> string list res" where
  "topological_order dg = (let nodes = graph_nodes (dg_deps dg) in batches (Suc (length nodes)) (dg_deps dg) nodes [])"

section \<open>Shortest paths\<close>

definition succs :: "(string \<times> string list) list \<Rightarrow> string \<Rightarrow> string list" where
  "succs g v = dict_get g v []"

text \<open>The neighbours of one node: the end is found, or the new ones are visited and queued.\<close>

fun scan :: "string \<Rightarrow> string list \<Rightarrow> string list \<Rightarrow> string list \<Rightarrow> (string \<times> string list) list \<Rightarrow>
    string list + string list \<times> (string \<times> string list) list" where
  "scan fin path [] visited queue = Inr (visited, queue)"
| "scan fin path (v # vs) visited queue =
     (if v = fin then Inl (path @ [fin])
      else if v \<notin> set visited then scan fin path vs (v # visited) (queue @ [(v, path @ [v])])
      else scan fin path vs visited queue)"

definition all_succs :: "(string \<times> string list) list \<Rightarrow> string set" where
  "all_succs g = set (concat (map snd g))"

lemma succs_all: "v \<in> set (succs g u) \<Longrightarrow> v \<in> all_succs g"
proof -
  assume v: "v \<in> set (succs g u)"
  then obtain vs where vs: "map_of g u = Some vs" by (cases "map_of g u") (simp_all add: succs_def dict_get_def)
  then have "v \<in> set (snd (u, vs))" using v by (simp add: succs_def dict_get_def)
  then show ?thesis using map_of_SomeD [OF vs] unfolding all_succs_def by (auto simp del: snd_conv)
qed

lemma scan_visited: "scan fin path vs visited queue = Inr (visited', queue') \<Longrightarrow>
    set visited' = set visited \<union> set vs \<and> (visited' = visited \<longrightarrow> queue' = queue) \<and> set visited \<subseteq> set visited'"
proof (induction fin path vs visited queue rule: scan.induct)
  case (2 fin path v vs visited queue)
  show ?case
  proof (cases "v \<in> set visited")
    case True
    then show ?thesis using 2 by (auto split: if_splits)
  next
    case False
    then have IH: "set visited' = set (v # visited) \<union> set vs" using 2 by (auto split: if_splits)
    then have "visited' \<noteq> visited" using False by auto
    then show ?thesis using IH by auto
  qed
qed simp

text \<open>The search: it visits more, or the queue gets shorter.\<close>

function bfs :: "(string \<times> string list) list \<Rightarrow> string \<Rightarrow> string list \<Rightarrow> (string \<times> string list) list \<Rightarrow> string list option" where
  "bfs g fin visited [] = None"
| "bfs g fin visited ((v, path) # queue) =
     (case scan fin path (succs g v) visited queue of
        Inl r \<Rightarrow> Some r
      | Inr (visited', queue') \<Rightarrow> bfs g fin visited' queue')"
  by pat_completeness auto
termination
proof (relation "measures [\<lambda>(g, fin, visited, queue). card (all_succs g - set visited), \<lambda>(g, fin, visited, queue). length queue]", goal_cases)
  case (2 g fin visited v path queue x visited' queue')
  then have s: "set visited' = set visited \<union> set (succs g v)" "visited' = visited \<longrightarrow> queue' = queue"
    using scan_visited by metis+
  have fin: "finite (all_succs g)" by (simp add: all_succs_def)
  show ?case
  proof (cases "set (succs g v) \<subseteq> set visited")
    case True
    have "scan fin path vs visited queue = Inr (visited', queue') \<Longrightarrow> set vs \<subseteq> set visited \<Longrightarrow> visited' = visited" for vs
      by (induction vs) (auto split: if_splits)
    then have "visited' = visited" using 2 True by simp
    then show ?thesis using s by simp
  next
    case False
    then have "all_succs g - set visited' \<subset> all_succs g - set visited" using s(1) succs_all [of _ g v] by blast
    then show ?thesis using fin by (simp add: psubset_card_mono)
  qed
qed simp

definition get_shortest_path :: "dep_graph \<Rightarrow> string \<Rightarrow> string \<Rightarrow> string list res" where
  "get_shortest_path dg start fin = of_opt AssertionError (bfs (dg_forward dg) fin [start] [(start, [])])"

section \<open>What the search finds\<close>

text \<open>A path leaves out its start.\<close>

fun is_path :: "(string \<times> string list) list \<Rightarrow> string \<Rightarrow> string list \<Rightarrow> bool" where
  "is_path g v [] \<longleftrightarrow> True"
| "is_path g v (w # ws) \<longleftrightarrow> w \<in> set (succs g v) \<and> is_path g w ws"

definition path_end :: "string \<Rightarrow> string list \<Rightarrow> string" where
  "path_end v ws = (if ws = [] then v else last ws)"

lemma is_path_snoc: "is_path g v (ws @ [w]) \<longleftrightarrow> is_path g v ws \<and> w \<in> set (succs g (path_end v ws))"
  by (induction ws arbitrary: v) (auto simp: path_end_def)

lemma path_end_snoc [simp]: "path_end v (ws @ [w]) = w"
  by (simp add: path_end_def)

lemma scan_Inl: "scan fin path vs visited queue = Inl r \<Longrightarrow> r = path @ [fin] \<and> fin \<in> set vs"
  by (induction fin path vs visited queue rule: scan.induct) (auto split: if_splits)

lemma scan_Inr:
  "scan fin path vs visited queue = Inr (visited', queue') \<Longrightarrow>
    \<exists>ns. queue' = queue @ map (\<lambda>w. (w, path @ [w])) ns \<and> set visited' = set visited \<union> set ns \<and>
      set ns = set vs - set visited \<and> fin \<notin> set vs"
proof (induction fin path vs visited queue rule: scan.induct)
  case (2 fin path v vs visited queue)
  show ?case
  proof (cases "v \<in> set visited")
    case True
    then show ?thesis using 2 by (auto split: if_splits)
  next
    case False
    with 2 obtain ns where "queue' = (queue @ [(v, path @ [v])]) @ map (\<lambda>w. (w, path @ [w])) ns"
      "set visited' = set (v # visited) \<union> set ns" "set ns = set vs - set (v # visited)" "fin \<notin> set vs" "v \<noteq> fin"
      by (auto split: if_splits)
    then show ?thesis using False by (intro exI [of _ "v # ns"]) auto
  qed
qed simp

text \<open>
  Between the steps, with \<open>D\<close> the length of the path by which a node was found: the queue holds paths in the order
  of their lengths, which differ by one at most, and nodes that left the queue have only nodes after them
  that were found, one step later at most.
\<close>

definition bfs_inv ::
    "(string \<times> string list) list \<Rightarrow> string \<Rightarrow> string \<Rightarrow> string list \<Rightarrow> (string \<times> string list) list \<Rightarrow> (string \<Rightarrow> nat) \<Rightarrow> bool" where
  "bfs_inv g fin start visited queue D \<longleftrightarrow>
     (\<forall>(v, p) \<in> set queue. is_path g start p \<and> path_end start p = v \<and> D v = length p \<and> v \<in> set visited) \<and>
     sorted (map (length \<circ> snd) queue) \<and>
     (queue \<noteq> [] \<longrightarrow> (\<forall>v \<in> set visited. D v \<le> Suc (length (snd (hd queue))))) \<and>
     (\<forall>v \<in> set visited. v \<notin> fst ` set queue \<longrightarrow> (\<forall>w \<in> set (succs g v). w \<noteq> fin \<and> w \<in> set visited \<and> D w \<le> Suc (D v))) \<and>
     start \<in> set visited \<and> D start = 0"

lemma bfs_frontier:
  assumes "bfs_inv g fin start visited queue D"
  shows "v \<in> set visited \<Longrightarrow> is_path g v ws \<Longrightarrow> ws \<noteq> [] \<Longrightarrow> last ws = fin \<Longrightarrow>
    \<exists>x \<in> set queue. length (snd x) + 1 \<le> D v + length ws"
proof (induction ws arbitrary: v)
  case (Cons w ws)
  show ?case
  proof (cases "v \<in> fst ` set queue")
    case True
    then obtain p where p: "(v, p) \<in> set queue" by auto
    then have "D v = length p" using assms by (auto simp: bfs_inv_def)
    then show ?thesis using p by (intro bexI [of _ "(v, p)"]) simp_all
  next
    case False
    have w: "w \<noteq> fin" "w \<in> set visited" "D w \<le> Suc (D v)"
      using assms Cons.prems False by (auto simp: bfs_inv_def)
    then have "ws \<noteq> []" using Cons.prems(4) by auto
    then obtain x where x: "x \<in> set queue" "length (snd x) + 1 \<le> D w + length ws" using Cons.IH [OF w(2)] Cons.prems by auto
    show ?thesis using x w(3) by (intro bexI [OF _ x(1)]) simp
  qed
qed simp

lemma bfs_step:
  assumes inv: "bfs_inv g fin start visited ((c, path) # queue) D"
    and scan: "scan fin path (succs g c) visited queue = Inr (visited', queue')"
  shows "\<exists>D'. bfs_inv g fin start visited' queue' D'"
proof -
  obtain ns where q: "queue' = queue @ map (\<lambda>w. (w, path @ [w])) ns" and vis: "set visited' = set visited \<union> set ns"
    and ns: "set ns = set (succs g c) - set visited" and fin: "fin \<notin> set (succs g c)"
    using scan_Inr [OF scan] by blast
  have c: "is_path g start path" "path_end start path = c" "D c = length path" "c \<in> set visited"
    and head: "\<forall>v \<in> set visited. D v \<le> Suc (length path)"
    and old: "\<forall>(v, p) \<in> set queue. is_path g start p \<and> path_end start p = v \<and> D v = length p \<and> v \<in> set visited"
    and srt: "sorted (map (length \<circ> snd) queue)" "\<forall>x \<in> set queue. length path \<le> length (snd x)"
    and dn: "\<forall>v \<in> set visited. v \<noteq> c \<longrightarrow> v \<notin> fst ` set queue \<longrightarrow>
      (\<forall>w \<in> set (succs g v). w \<noteq> fin \<and> w \<in> set visited \<and> D w \<le> Suc (D v))"
    and start: "start \<in> set visited" "D start = 0"
    using inv by (auto simp: bfs_inv_def)
  define D' where "D' = (\<lambda>v. if v \<in> set ns then Suc (length path) else D v)"
  have D': "D' v = D v" if "v \<in> set visited" for v using that ns by (simp add: D'_def)
  have "is_path g start p \<and> path_end start p = u \<and> D' u = length p \<and> u \<in> set visited'" if "(u, p) \<in> set queue'" for u p
  proof (cases "(u, p) \<in> set queue")
    case True
    then show ?thesis using old D' [of u] vis by auto
  next
    case False
    then have "u \<in> set ns" "p = path @ [u]" using that q by auto
    then show ?thesis using c ns vis by (auto simp: is_path_snoc D'_def)
  qed
  moreover have "sorted (map (length \<circ> snd) queue')"
  proof -
    have "\<forall>x \<in> set queue. length (snd x) \<le> Suc (length path)" using old head by fastforce
    moreover have "map (length \<circ> snd) (map (\<lambda>w. (w, path @ [w])) ns) = replicate (length ns) (Suc (length path))"
      by (induction ns) simp_all
    ultimately show ?thesis using srt(1) by (simp add: q sorted_append del: map_map)
  qed
  moreover have "\<forall>v \<in> set visited'. D' v \<le> Suc (length (snd (hd queue')))" if "queue' \<noteq> []"
  proof -
    have "length path \<le> length (snd (hd queue'))" using srt(2) that by (cases queue; cases ns) (auto simp: q)
    moreover have "\<forall>v \<in> set visited'. D' v \<le> Suc (length path)" using head vis by (auto simp: D'_def)
    ultimately show ?thesis by fastforce
  qed
  moreover have "w \<noteq> fin \<and> w \<in> set visited' \<and> D' w \<le> Suc (D' v)"
    if "v \<in> set visited'" "v \<notin> fst ` set queue'" "w \<in> set (succs g v)" for v w
  proof -
    have "fst ` set queue' = fst ` set queue \<union> set ns" by (simp add: q image_Un image_image)
    then have vv: "v \<in> set visited" "v \<notin> fst ` set queue" using that(1,2) vis by auto
    show ?thesis
    proof (cases "v = c")
      case True
      then have "w \<in> set visited \<or> w \<in> set ns" using ns that(3) by auto
      moreover have "D' w \<le> Suc (length path)" if "w \<in> set visited" using head D' that by simp
      ultimately show ?thesis using True that(3) fin vis c(3,4) D' by (auto simp: D'_def)
    next
      case False
      then have "w \<noteq> fin" "w \<in> set visited" "D w \<le> Suc (D v)" using dn vv that(3) by auto
      then show ?thesis using D' vv(1) vis by simp
    qed
  qed
  ultimately have "bfs_inv g fin start visited' queue' D'"
    using start D' vis by (auto simp: bfs_inv_def)
  then show ?thesis by (intro exI [of _ D'])
qed

lemma bfs_correct:
  assumes "bfs_inv g fin start visited queue D"
  shows "(case bfs g fin visited queue of
      Some r \<Rightarrow> is_path g start r \<and> r \<noteq> [] \<and> last r = fin \<and> (\<forall>ws. is_path g start ws \<and> ws \<noteq> [] \<and> last ws = fin \<longrightarrow> length r \<le> length ws)
    | None \<Rightarrow> \<not> (\<exists>ws. is_path g start ws \<and> ws \<noteq> [] \<and> last ws = fin))"
  using assms
proof (induction g fin visited queue arbitrary: D rule: bfs.induct)
  case (1 g fin visited)
  have "start \<in> set visited" using 1 by (simp add: bfs_inv_def)
  then show ?case using bfs_frontier [OF 1] by auto
next
  case (2 g fin visited c path queue)
  show ?case
  proof (cases "scan fin path (succs g c) visited queue")
    case (Inl r)
    have r: "r = path @ [fin]" "fin \<in> set (succs g c)" using scan_Inl [OF Inl] by auto
    have c: "is_path g start path" "path_end start path = c" "start \<in> set visited" "D start = 0"
      and srt: "\<forall>x \<in> set ((c, path) # queue). length path \<le> length (snd x)"
      using "2.prems" by (auto simp: bfs_inv_def)
    have "length r \<le> length ws" if ws: "is_path g start ws" "ws \<noteq> []" "last ws = fin" for ws
    proof -
      obtain x where "x \<in> set ((c, path) # queue)" "length (snd x) + 1 \<le> D start + length ws"
        using bfs_frontier [OF "2.prems" c(3) ws] by blast
      then have "length path + 1 \<le> length ws" using srt c(4) by fastforce
      then show ?thesis by (simp add: r(1))
    qed
    then show ?thesis using Inl r c by (simp add: is_path_snoc)
  next
    case (Inr vq)
    obtain visited' queue' where vq: "vq = (visited', queue')" by fastforce
    then obtain D' where "bfs_inv g fin start visited' queue' D'" using bfs_step "2.prems" Inr by blast
    then show ?thesis using "2.IH" [OF Inr vq [symmetric]] Inr vq by simp
  qed
qed

text \<open>
  C26. The search for the path from a group to another ends, and returns a path of the graph that no other is
  shorter than; it raises only when there is none.
\<close>

theorem shortest_path_correct:
  "(case get_shortest_path dg start fin of
     Inr p \<Rightarrow> is_path (dg_forward dg) start p \<and> p \<noteq> [] \<and> last p = fin \<and>
       (\<forall>ws. is_path (dg_forward dg) start ws \<and> ws \<noteq> [] \<and> last ws = fin \<longrightarrow> length p \<le> length ws)
   | Inl e \<Rightarrow> e = AssertionError \<and> \<not> (\<exists>ws. is_path (dg_forward dg) start ws \<and> ws \<noteq> [] \<and> last ws = fin))"
proof -
  have "bfs_inv (dg_forward dg) fin start [start] [(start, [])] (\<lambda>_. 0)" by (simp add: bfs_inv_def path_end_def)
  from bfs_correct [OF this] show ?thesis
    by (cases "bfs (dg_forward dg) fin [start] [(start, [])]") (simp_all add: get_shortest_path_def)
qed

definition demo_forward :: dep_graph where
  "demo_forward = \<lparr>dg_forward = [(''a'', [''b'', ''c'']), (''b'', [''d'']), (''c'', [''e'']), (''e'', [''d''])], dg_deps = []\<rparr>"

theorem shortest_path_correct_witness:
  "is_path (dg_forward demo_forward) ''a'' [''b'', ''d''] \<and> get_shortest_path demo_forward ''a'' ''d'' = Inr [''b'', ''d'']"
proof -
  have e: "get_shortest_path demo_forward ''a'' ''d'' = Inr [''b'', ''d'']"
    by (simp add: get_shortest_path_def demo_forward_def succs_def dict_get_def)
  then show ?thesis using shortest_path_correct [of demo_forward "''a''" "''d''"] by simp
qed

section \<open>The order of groups\<close>

text \<open>Every node stands behind what it depends on, and the order holds every node once.\<close>

lemma append_split_after: "xs @ q = us @ g # vs \<Longrightarrow> length xs \<le> length us \<Longrightarrow> \<exists>ws. us = xs @ ws \<and> q = ws @ g # vs"
  by (auto simp: append_eq_append_conv2)

lemma batches_order:
  assumes "batches n deps nodes dn = Inr r" and "distinct nodes"
  shows "set r = set nodes - set dn \<and> distinct r \<and>
    (\<forall>us g vs. r = us @ g # vs \<longrightarrow> set (dict_get deps g []) \<subseteq> set dn \<union> set us)"
  using assms
proof (induction n deps nodes dn arbitrary: r rule: batches.induct)
  case (2 n deps nodes dn)
  let ?left = "filter (\<lambda>g. g \<notin> set dn) nodes"
  let ?ready = "filter (\<lambda>g. set (dict_get deps g []) \<subseteq> set dn) ?left"
  show ?case
  proof (cases "?left = []")
    case True
    then have "r = []" using "2.prems"(1) by (simp add: Let_def)
    then show ?thesis using True by (auto simp: filter_empty_conv)
  next
    case False
    then have ready: "?ready \<noteq> []" using "2.prems"(1) by (auto simp: Let_def split: if_splits)
    with False "2.prems"(1) obtain q where q: "batches n deps nodes (dn @ ?ready) = Inr q" "r = ?ready @ q"
      by (auto simp: Let_def rbind_eq_Inr simp del: filter_filter)
    have IH: "set q = set nodes - set (dn @ ?ready)" "distinct q"
      "\<forall>us g vs. q = us @ g # vs \<longrightarrow> set (dict_get deps g []) \<subseteq> set (dn @ ?ready) \<union> set us"
      using "2.IH" [OF refl refl False ready q(1) "2.prems"(2)] by blast+
    have "set (dict_get deps g []) \<subseteq> set dn \<union> set us" if "r = us @ g # vs" for us g vs
    proof (cases "length us < length ?ready")
      case True
      then have "g = ?ready ! length us" using that q(2) by (metis nth_append nth_append_length)
      then have "g \<in> set ?ready" using True nth_mem by metis
      then show ?thesis by auto
    next
      case False
      then have "length ?ready \<le> length us" by simp
      from append_split_after [OF trans [OF q(2) [symmetric] that] this]
      obtain us' where "us = ?ready @ us'" "q = us' @ g # vs" by (elim exE conjE)
      then show ?thesis using IH(3) by fastforce
    qed
    moreover have "distinct r" using IH(1,2) q(2) "2.prems"(2) by auto
    moreover have "set r = set nodes - set dn" using IH(1) q(2) by auto
    ultimately show ?thesis by blast
  qed
qed simp

end
