(* ===== verification/NodeCreate.thy ===== *)
theory NodeCreate
  imports NodeGroups
begin

text \<open>
  The creation of the nodes of all groups below a group (\<open>_create_nodes_recursive\<close> of
  \<open>tools/rag/parsing_service/impl.py\<close>). What creates the nodes of one group is a parameter: it gets the
  parent's nodes and the path to the referenced group, and returns nodes with an error, if there was one, beside
  those that were made before it.
\<close>

section \<open>The recursion\<close>

text \<open>
  The graphs by the names of their groups, the calls that were made, with their paths and whether they gave nodes, and
  the store.
\<close>

record 's creation =
  cr_graphs :: "(string set \<times> dep_graph) list"
  cr_log :: "(string \<times> string list \<times> bool) list"
  cr_store :: 's

type_synonym ('n, 's) creator = "'n list \<Rightarrow> string \<Rightarrow> string list \<Rightarrow> 's \<Rightarrow> ('n list \<times> exn option) \<times> 's"

fun sfold :: "('x \<Rightarrow> 'a \<Rightarrow> ('s, 'a) sx) \<Rightarrow> 'x list \<Rightarrow> 'a \<Rightarrow> ('s, 'a) sx" where
  "sfold f [] a = sret a"
| "sfold f (x # xs) a = sbind (f x a) (sfold f xs)"

definition ref_path :: "dep_graph \<Rightarrow> group_cfg \<Rightarrow> string \<Rightarrow> string list res" where
  "ref_path dg cfg parent = (case nonempty (gc_ref cfg) of None \<Rightarrow> Inr [] | Some r \<Rightarrow> get_shortest_path dg parent r)"

definition call_creator :: "('n, 's) creator \<Rightarrow> 'n list \<Rightarrow> string \<Rightarrow> string list \<Rightarrow> ('s creation, 'n list \<times> exn option) sx" where
  "call_creator cr nodes g rp s =
     (let (r, st) = cr nodes g rp (cr_store s)
      in (Inr r, s\<lparr>cr_log := cr_log s @ [(g, rp, fst r \<noteq> [])], cr_store := st\<rparr>))"

text \<open>An error of the groups below is kept, one of the loop itself ends it.\<close>

definition catch_into :: "exn list \<Rightarrow> ('s, unit) sx \<Rightarrow> ('s, exn list) sx" where
  "catch_into errs m s = (case m s of (Inl e, t) \<Rightarrow> (Inr (errs @ [e]), t) | (Inr _, t) \<Rightarrow> (Inr errs, t))"

definition create_group ::
    "('n list \<Rightarrow> string \<Rightarrow> ('s creation, unit) sx) \<Rightarrow> ('n, 's) creator \<Rightarrow> node_groups \<Rightarrow> dep_graph \<Rightarrow> 'n list \<Rightarrow> string \<Rightarrow>
     string \<Rightarrow> exn list \<Rightarrow> ('s creation, exn list) sx" where
  "create_group recur cr groups dg p_nodes p_name g errs =
     (case map_of groups g of
        None \<Rightarrow> sraise TypeError
      | Some cfg \<Rightarrow>
          if gc_parent cfg \<noteq> Some p_name then sret errs
          else sbind (slift (ref_path dg cfg p_name)) (\<lambda>rp.
            sbind (call_creator cr p_nodes g rp) (\<lambda>(nodes, err).
            sbind (if nodes \<noteq> [] then catch_into errs (recur nodes g) else sret errs) (\<lambda>errs.
            sret (case err of None \<Rightarrow> errs | Some e \<Rightarrow> errs @ [e])))))"

fun create_rec ::
    "nat \<Rightarrow> ('n, 's) creator \<Rightarrow> node_groups \<Rightarrow> dep_graph \<Rightarrow> 'n list \<Rightarrow> string \<Rightarrow> ('s creation, unit) sx" where
  "create_rec 0 cr groups dg p_nodes p_name = sraise RuntimeError"
| "create_rec (Suc n) cr groups dg p_nodes p_name =
     sbind (slift (topological_order dg)) (\<lambda>order.
     sbind (sfold (create_group (create_rec n cr groups dg) cr groups dg p_nodes p_name) order []) (\<lambda>errs.
     (case errs of [] \<Rightarrow> sret () | e # es \<Rightarrow> sraise e)))"

definition get_dependency_graph :: "node_groups \<Rightarrow> string list \<Rightarrow> ('s creation, dep_graph) sx" where
  "get_dependency_graph groups active s =
     (let names = set (map fst groups)
      in case map_of (cr_graphs s) names of
           Some dg \<Rightarrow> (Inr dg, s)
         | None \<Rightarrow>
             case build_graph groups active of
               Inl e \<Rightarrow> (Inl e, s)
             | Inr dg \<Rightarrow> (Inr dg, s\<lparr>cr_graphs := (names, dg) # cr_graphs s\<rparr>))"

definition create_nodes_recursive ::
    "('n, 's) creator \<Rightarrow> node_groups \<Rightarrow> string list \<Rightarrow> 'n list \<Rightarrow> string \<Rightarrow> ('s creation, unit) sx" where
  "create_nodes_recursive cr groups active p_nodes p_name =
     sbind (get_dependency_graph groups active)
       (\<lambda>dg. create_rec (Suc (length (graph_nodes (dg_deps dg)))) cr groups dg p_nodes p_name)"

section \<open>Walks of a forest\<close>

definition before_in :: "'a list \<Rightarrow> 'a \<Rightarrow> 'a \<Rightarrow> bool" where
  "before_in xs a b \<longleftrightarrow> (\<exists>us vs. xs = us @ vs \<and> a \<in> set us \<and> b \<in> set vs)"

lemma before_in_append: "before_in xs a b \<Longrightarrow> before_in (us @ xs @ vs) a b"
  unfolding before_in_def by (metis append.assoc append_Cons Un_iff set_append)

lemma before_in_Cons: "b \<in> set xs \<Longrightarrow> before_in (a # xs) a b"
  unfolding before_in_def by (intro exI [of _ "[a]"] exI [of _ xs]) simp

lemma before_in_concat:
  assumes "before_in order s g" and "a \<in> set (f s)" and "b \<in> set (f g)"
  shows "before_in (concat (map f order)) a b"
proof -
  obtain us vs where "order = us @ vs" "s \<in> set us" "g \<in> set vs" using assms(1) by (auto simp: before_in_def)
  then show ?thesis using assms(2,3) unfolding before_in_def
    by (intro exI [of _ "concat (map f us)"] exI [of _ "concat (map f vs)"]) auto
qed

lemma before_in_concat_one:
  assumes "g \<in> set order" and "before_in (f g) a b"
  shows "before_in (concat (map f order)) a b"
proof -
  obtain us vs where "order = us @ g # vs" using assms(1) by (auto dest: split_list)
  then show ?thesis using before_in_append [OF assms(2), of "concat (map f us)" "concat (map f vs)"] by simp
qed

lemma distinct_concat_map:
  assumes "distinct xs" and "\<And>x. x \<in> set xs \<Longrightarrow> distinct (f x)"
    and "\<And>x y. x \<in> set xs \<Longrightarrow> y \<in> set xs \<Longrightarrow> x \<noteq> y \<Longrightarrow> set (f x) \<inter> set (f y) = {}"
  shows "distinct (concat (map f xs))"
  using assms
proof (induction xs)
  case (Cons x xs)
  have "set (f x) \<inter> set (f y) = {}" if "y \<in> set xs" for y using Cons.prems(1) Cons.prems(3) [of x y] that by auto
  then have "set (f x) \<inter> set (concat (map f xs)) = {}" by auto
  then show ?case using Cons by simp
qed simp

text \<open>The nodes below \<open>p\<close>, each before the ones below it, and siblings in the given order.\<close>

fun visits :: "nat \<Rightarrow> 'a list \<Rightarrow> ('a \<Rightarrow> 'a option) \<Rightarrow> 'a \<Rightarrow> 'a list" where
  "visits 0 order par p = []"
| "visits (Suc n) order par p = concat (map (\<lambda>g. if par g = Some p then g # visits n order par g else []) order)"

definition below :: "'a list \<Rightarrow> ('a \<Rightarrow> 'a option) \<Rightarrow> ('a \<times> 'a) set" where
  "below order par = {(g, p). g \<in> set order \<and> par g = Some p}"

text \<open>Every element stands behind its parent.\<close>

definition parents_first :: "'a list \<Rightarrow> ('a \<Rightarrow> 'a option) \<Rightarrow> bool" where
  "parents_first order par \<longleftrightarrow> (\<forall>us g vs p. order = us @ g # vs \<and> par g = Some p \<longrightarrow> p \<in> set us)"

definition idx :: "'a list \<Rightarrow> 'a \<Rightarrow> nat" where
  "idx xs x = length (takeWhile (\<lambda>y. y \<noteq> x) xs)"

lemma idx_split: "x \<notin> set us \<Longrightarrow> idx (us @ x # vs) x = length us"
  by (simp add: idx_def takeWhile_append)

lemma idx_before:
  assumes "distinct order" and "order = us @ g # vs" and "p \<in> set us"
  shows "idx order p < idx order g" "before_in order p g"
proof -
  obtain as bs where us: "us = as @ p # bs" using assms(3) by (auto dest: split_list)
  have "idx order p = length as" using assms(1,2) us idx_split [of p as "bs @ g # vs"] by simp
  moreover have "idx order g = length us" using assms(1,2) idx_split [of g us vs] by simp
  ultimately show "idx order p < idx order g" by (simp add: us)
  show "before_in order p g" unfolding before_in_def using assms(2,3)
    by (intro exI [of _ us] exI [of _ "g # vs"]) simp
qed

lemma idx_less: "x \<in> set order \<Longrightarrow> idx order x < length order"
  by (induction order) (auto simp: idx_def)

lemma idx_less_before:
  assumes "distinct order" and "x \<in> set order" and "y \<in> set order" and "idx order x < idx order y"
  shows "before_in order x y"
proof -
  obtain us vs where o: "order = us @ y # vs" using assms(3) by (auto dest: split_list)
  have "x \<in> set us"
  proof (rule ccontr)
    assume "x \<notin> set us"
    then have "x = y \<or> x \<in> set vs" using assms(2) o by auto
    then show False
    proof
      assume "x \<in> set vs"
      then obtain as bs where "vs = as @ x # bs" by (auto dest: split_list)
      then have "idx order y < idx order x" using idx_before(1) [of order "us @ y # as" x bs y] assms(1) o by simp
      then show False using assms(4) by simp
    qed (use assms(4) in simp)
  qed
  then show ?thesis using idx_before(2) [OF assms(1) o] by blast
qed

lemma below_idx: "parents_first order par \<Longrightarrow> distinct order \<Longrightarrow> (g, p) \<in> below order par \<Longrightarrow> idx order p < idx order g \<and> p \<in> set order"
proof -
  assume r: "parents_first order par" "distinct order" "(g, p) \<in> below order par"
  then obtain us vs where o: "order = us @ g # vs" "par g = Some p" by (auto simp: below_def dest: split_list)
  then have "p \<in> set us" using r(1) by (auto simp: parents_first_def)
  then show ?thesis using idx_before(1) [OF r(2) o(1)] o(1) by simp
qed

lemma below_trancl_idx:
  assumes "parents_first order par" and "distinct order" and "(g, p) \<in> (below order par)\<^sup>+"
  shows "idx order p < idx order g \<and> g \<in> set order \<and> p \<in> set order"
  using assms(3)
proof (induction rule: trancl_induct)
  case (base q)
  then show ?case using below_idx [OF assms(1,2) base] by (simp add: below_def)
next
  case (step q r)
  then have "idx order r < idx order q" "r \<in> set order" using below_idx [OF assms(1,2) step.hyps(2)] by blast+
  then show ?case using step.IH by simp
qed

lemma below_rtrancl_idx:
  assumes "parents_first order par" and "distinct order" and "(g, p) \<in> (below order par)\<^sup>*"
  shows "idx order p \<le> idx order g"
  using assms(3) below_trancl_idx [OF assms(1,2)] by (auto simp: rtrancl_eq_or_trancl dest: less_imp_le)

lemma below_child:
  assumes "(x, p) \<in> (below order par)\<^sup>+"
  obtains g where "g \<in> set order" "par g = Some p" "(x, g) \<in> (below order par)\<^sup>*"
  using tranclD2 [OF assms] by (auto simp: below_def)

lemma visits_below: "set (visits n order par p) \<subseteq> {g. (g, p) \<in> (below order par)\<^sup>+}"
proof (induction n arbitrary: p)
  case (Suc n)
  show ?case
  proof
    fix x
    assume "x \<in> set (visits (Suc n) order par p)"
    then obtain g where g: "g \<in> set order" "par g = Some p" "x = g \<or> x \<in> set (visits n order par g)"
      by (auto split: if_splits)
    then have b: "(g, p) \<in> below order par" by (simp add: below_def)
    then show "x \<in> {g. (g, p) \<in> (below order par)\<^sup>+}" using g(3) Suc.IH [of g] by (auto intro: trancl_into_trancl)
  qed
qed simp

lemma visits_complete:
  assumes "parents_first order par" and "distinct order"
  shows "length order - idx order p \<le> n \<Longrightarrow> p \<in> set order \<Longrightarrow> (x, p) \<in> (below order par)\<^sup>+ \<Longrightarrow> x \<in> set (visits n order par p)"
proof (induction n arbitrary: p)
  case 0
  then show ?case using idx_less [of p order] by simp
next
  case (Suc n)
  obtain g where g: "g \<in> set order" "par g = Some p" "(x, g) \<in> (below order par)\<^sup>*" using below_child [OF Suc.prems(3)] .
  have "idx order p < idx order g" using below_idx [OF assms] g by (simp add: below_def)
  then have "length order - idx order g \<le> n" using Suc.prems(1) by linarith
  then have "x = g \<or> x \<in> set (visits n order par g)" using Suc.IH g by (auto simp: rtrancl_eq_or_trancl)
  then show ?case using g by auto
qed

text \<open>The nodes below two siblings differ.\<close>

lemma siblings_disjoint:
  assumes r: "parents_first order par" "distinct order"
    and g: "g \<in> set order" "par g = Some p" and h: "h \<in> set order" "par h = Some p"
    and x: "(x, g) \<in> (below order par)\<^sup>*" "(x, h) \<in> (below order par)\<^sup>*"
  shows "g = h"
proof -
  have not: "(a, b) \<notin> (below order par)\<^sup>+" if "par a = Some p" "b \<in> set order" "par b = Some p" for a b
  proof
    assume "(a, b) \<in> (below order par)\<^sup>+"
    from tranclD [OF this] obtain q where "(a, q) \<in> below order par" "(q, b) \<in> (below order par)\<^sup>*" by blast
    then have "(p, b) \<in> (below order par)\<^sup>*" using that by (auto simp: below_def)
    then have "idx order b \<le> idx order p" using below_rtrancl_idx [OF r] by blast
    moreover have "idx order p < idx order b" using below_idx [OF r] that(2,3) by (simp add: below_def)
    ultimately show False by simp
  qed
  have "single_valued (below order par)" by (auto simp: single_valued_def below_def)
  from single_valued_confluent [OF this x] have "(g, h) \<in> (below order par)\<^sup>* \<or> (h, g) \<in> (below order par)\<^sup>*" .
  then show ?thesis using not [OF g(2) h] not [OF h(2) g] by (auto simp: rtrancl_eq_or_trancl)
qed

lemma visits_distinct:
  assumes r: "parents_first order par" "distinct order"
  shows "distinct (visits n order par p)"
proof (induction n arbitrary: p)
  case (Suc n)
  let ?f = "\<lambda>g. if par g = Some p then g # visits n order par g else []"
  have sub: "set (?f g) \<subseteq> {x. (x, g) \<in> (below order par)\<^sup>*}" for g using visits_below [of n order par g] by auto
  have "distinct (concat (map ?f order))"
  proof (rule distinct_concat_map)
    fix g assume "g \<in> set order"
    have "g \<notin> set (visits n order par g)" using visits_below [of n order par g] below_trancl_idx [OF r, of g g] by auto
    then show "distinct (?f g)" using Suc by simp
  next
    fix g h assume gh: "g \<in> set order" "h \<in> set order" "g \<noteq> h"
    show "set (?f g) \<inter> set (?f h) = {}"
    proof (rule ccontr)
      assume "set (?f g) \<inter> set (?f h) \<noteq> {}"
      then obtain x where x: "x \<in> set (?f g)" "x \<in> set (?f h)" by blast
      then have "par g = Some p" "par h = Some p" by (auto split: if_splits)
      then show False using siblings_disjoint [OF r gh(1) _ gh(2)] sub x gh(3) by blast
    qed
  qed (rule r(2))
  then show ?case by simp
qed simp

lemma visits_parent: "x \<in> set (visits n order par p) \<Longrightarrow> \<exists>q. par x = Some q \<and> (q = p \<or> before_in (visits n order par p) q x)"
proof (induction n arbitrary: p)
  case (Suc n)
  then obtain g where g: "g \<in> set order" "par g = Some p" "x = g \<or> x \<in> set (visits n order par g)" by (auto split: if_splits)
  show ?case
  proof (cases "x = g")
    case False
    then have x: "x \<in> set (visits n order par g)" using g(3) by simp
    then obtain q where q: "par x = Some q" "q = g \<or> before_in (visits n order par g) q x" using Suc.IH by blast
    have "before_in (g # visits n order par g) q x"
      using q(2) x before_in_Cons [OF x, of g] before_in_append [of "visits n order par g" q x "[g]" "[]"] by auto
    then have "before_in (visits (Suc n) order par p) q x"
      using before_in_concat_one [OF g(1), of "\<lambda>g. if par g = Some p then g # visits n order par g else []" q x] g(2) by simp
    then show ?thesis using q(1) by blast
  qed (use g in simp)
qed simp

text \<open>
  What stands earlier in the order, below the same parent, is visited earlier.
\<close>

lemma visits_refs:
  assumes r: "parents_first order par" "distinct order"
  shows "length order - idx order p \<le> n \<Longrightarrow> p \<in> set order \<Longrightarrow> x \<in> set (visits n order par p) \<Longrightarrow> par x = Some q \<Longrightarrow>
    (y, q) \<in> (below order par)\<^sup>+ \<Longrightarrow> idx order y < idx order x \<Longrightarrow> before_in (visits n order par p) y x"
proof (induction n arbitrary: p)
  case (Suc n)
  let ?f = "\<lambda>g. if par g = Some p then g # visits n order par g else []"
  have fuel: "length order - idx order g \<le> n" if "g \<in> set order" "par g = Some p" for g
  proof -
    have "idx order p < idx order g" using below_idx [OF r, of g p] that by (simp add: below_def)
    then show ?thesis using Suc.prems(1) by linarith
  qed
  obtain g where g: "g \<in> set order" "par g = Some p" "x = g \<or> x \<in> set (visits n order par g)"
    using Suc.prems(3) by (auto split: if_splits)
  show ?case
  proof (cases "x = g")
    case True
    then have "q = p" using g Suc.prems(4) by simp
    with Suc.prems(5) have yp: "(y, p) \<in> (below order par)\<^sup>+" by simp
    obtain s where s: "s \<in> set order" "par s = Some p" "(y, s) \<in> (below order par)\<^sup>*" using below_child [OF yp] .
    have "idx order s < idx order g" using below_rtrancl_idx [OF r s(3)] Suc.prems(6) True by simp
    then have "before_in order s g" using idx_less_before [OF r(2) s(1) g(1)] by blast
    moreover have "y \<in> set (?f s)"
      using visits_complete [OF r fuel [OF s(1,2)] s(1)] s by (auto simp: rtrancl_eq_or_trancl)
    ultimately show ?thesis using before_in_concat [of order s g y ?f x] g True by simp
  next
    case False
    then have "x \<in> set (visits n order par g)" using g(3) by simp
    then have "before_in (visits n order par g) y x" using Suc.IH [OF fuel [OF g(1,2)] g(1)] Suc.prems(4-6) by blast
    then have "before_in (?f g) y x" using before_in_append [of "visits n order par g" y x "[g]" "[]"] g(2) by simp
    then show ?thesis using before_in_concat_one [OF g(1), of ?f y x] by simp
  qed
qed simp

section \<open>What the graph holds\<close>

definition parent_of :: "node_groups \<Rightarrow> string \<Rightarrow> string option" where
  "parent_of groups g = Option.bind (map_of groups g) (\<lambda>cfg. nonempty (gc_parent cfg))"

definition ref_of :: "node_groups \<Rightarrow> string \<Rightarrow> string option" where
  "ref_of groups g = Option.bind (map_of groups g) (\<lambda>cfg. nonempty (gc_ref cfg))"

lemma dict_get_add_to: "set (dict_get (add_to k v d) k' []) = set (dict_get d k' []) \<union> (if k' = k then {v} else {})"
  by (auto simp: add_to_def dict_get_def Let_def update_conv')

lemma keys_add_to: "fst ` set (add_to k v d) = insert k (fst ` set d)"
proof -
  have "fst ` set (AList.update k w d) = insert k (fst ` set d)" for w :: "string list" by (induction d) auto
  then show ?thesis by (simp add: add_to_def Let_def)
qed

lemma update_subset: "set (AList.update k v d) \<subseteq> insert (k, v) (set d)"
  by (induction d) auto

definition dict_vals :: "(string \<times> string list) list \<Rightarrow> string set" where
  "dict_vals d = (\<Union>(k, vs) \<in> set d. set vs)"

lemma dict_get_vals: "set (dict_get d k []) \<subseteq> dict_vals d"
proof (cases "map_of d k")
  case (Some vs)
  then show ?thesis using map_of_SomeD [OF Some] by (auto simp: dict_get_def dict_vals_def)
qed (simp add: dict_get_def)

lemma vals_add_to: "dict_vals (add_to k v d) \<subseteq> insert v (dict_vals d)"
proof -
  have "dict_vals (AList.update k w d) \<subseteq> set w \<union> dict_vals d" for w
    using update_subset [of k w d] by (fastforce simp: dict_vals_def)
  from this [of "dict_get d k []"] this [of "dict_get d k [] @ [v]"] show ?thesis
    using dict_get_vals [of d k] by (auto simp: add_to_def Let_def split: if_splits)
qed

definition add_opt :: "string \<Rightarrow> string option \<Rightarrow> (string \<times> string list) list \<Rightarrow> (string \<times> string list) list" where
  "add_opt k x d = (case x of None \<Rightarrow> d | Some v \<Rightarrow> add_to k v d)"

lemma add_opt_facts:
  "set (dict_get (add_opt k x d) k' []) = set (dict_get d k' []) \<union> (if k' = k then set_option x else {})"
  "fst ` set d \<subseteq> fst ` set (add_opt k x d)" "fst ` set (add_opt k x d) \<subseteq> insert k (fst ` set d)"
  "dict_vals (add_opt k x d) \<subseteq> dict_vals d \<union> set_option x"
  using vals_add_to by (auto simp: add_opt_def dict_get_add_to keys_add_to split: option.splits)

lemma add_group_Inr:
  assumes "add_group groups g dg = Inr dg'"
  shows "map_of groups g \<noteq> None"
    and "dg_deps dg' = add_opt g (ref_of groups g) (add_opt g (parent_of groups g) (dg_deps dg))"
    and "dg_forward dg' = (case parent_of groups g of None \<Rightarrow> dg_forward dg | Some p \<Rightarrow> add_to p g (dg_forward dg))"
  using assms by (auto simp: add_group_def add_opt_def parent_of_def ref_of_def Let_def split: option.splits)

lemma add_group_graph:
  assumes "add_group groups g dg = Inr dg'"
  shows "w \<in> set (succs (dg_forward dg') v) \<longleftrightarrow> w \<in> set (succs (dg_forward dg) v) \<or> w = g \<and> parent_of groups g = Some v"
    and "set (dict_get (dg_deps dg') k []) =
      set (dict_get (dg_deps dg) k []) \<union> (if k = g then set_option (parent_of groups g) \<union> set_option (ref_of groups g) else {})"
    and "fst ` set (dg_deps dg) \<subseteq> fst ` set (dg_deps dg')" "fst ` set (dg_deps dg') \<subseteq> insert g (fst ` set (dg_deps dg))"
    and "dict_vals (dg_deps dg') \<subseteq> dict_vals (dg_deps dg) \<union> set_option (parent_of groups g) \<union> set_option (ref_of groups g)"
    and "map_of groups g \<noteq> None"
proof -
  note r = add_group_Inr [OF assms]
  show "w \<in> set (succs (dg_forward dg') v) \<longleftrightarrow> w \<in> set (succs (dg_forward dg) v) \<or> w = g \<and> parent_of groups g = Some v"
    using r(3) by (auto simp: succs_def dict_get_add_to split: option.splits if_splits)
  show "set (dict_get (dg_deps dg') k []) =
      set (dict_get (dg_deps dg) k []) \<union> (if k = g then set_option (parent_of groups g) \<union> set_option (ref_of groups g) else {})"
    by (auto simp: r(2) add_opt_facts(1))
  show "fst ` set (dg_deps dg) \<subseteq> fst ` set (dg_deps dg')"
    unfolding r(2) by (rule subset_trans [OF add_opt_facts(2) add_opt_facts(2)])
  show "fst ` set (dg_deps dg') \<subseteq> insert g (fst ` set (dg_deps dg))"
    using add_opt_facts(3) [of g "ref_of groups g" "add_opt g (parent_of groups g) (dg_deps dg)"]
      add_opt_facts(3) [of g "parent_of groups g" "dg_deps dg"] unfolding r(2) by blast
  show "dict_vals (dg_deps dg') \<subseteq> dict_vals (dg_deps dg) \<union> set_option (parent_of groups g) \<union> set_option (ref_of groups g)"
    using add_opt_facts(4) [of g "ref_of groups g" "add_opt g (parent_of groups g) (dg_deps dg)"]
      add_opt_facts(4) [of g "parent_of groups g" "dg_deps dg"] unfolding r(2) by blast
qed (rule add_group_Inr(1) [OF assms])

lemma add_groups_graph:
  assumes "rfold (add_group groups) xs dg = Inr dg'"
  shows "w \<in> set (succs (dg_forward dg') v) \<longleftrightarrow> w \<in> set (succs (dg_forward dg) v) \<or> w \<in> set xs \<and> parent_of groups w = Some v"
    and "set (dict_get (dg_deps dg') k []) =
      set (dict_get (dg_deps dg) k []) \<union> (if k \<in> set xs then set_option (parent_of groups k) \<union> set_option (ref_of groups k) else {})"
    and "fst ` set (dg_deps dg) \<subseteq> fst ` set (dg_deps dg')" "fst ` set (dg_deps dg') \<subseteq> set xs \<union> fst ` set (dg_deps dg)"
    and "dict_vals (dg_deps dg') \<subseteq> dict_vals (dg_deps dg) \<union> (\<Union>k \<in> set xs. set_option (parent_of groups k) \<union> set_option (ref_of groups k))"
    and "k \<in> set xs \<Longrightarrow> map_of groups k \<noteq> None"
  using assms
proof (induction xs arbitrary: dg)
  case (Cons g xs)
  {
    case 1
    then obtain dg1 where s: "add_group groups g dg = Inr dg1" "rfold (add_group groups) xs dg1 = Inr dg'" by (auto simp: rbind_eq_Inr)
    show ?case using add_group_graph(1) [OF s(1)] Cons.IH(1) [OF s(2)] by auto
  next
    case 2
    then obtain dg1 where s: "add_group groups g dg = Inr dg1" "rfold (add_group groups) xs dg1 = Inr dg'" by (auto simp: rbind_eq_Inr)
    show ?case using add_group_graph(2) [OF s(1)] Cons.IH(2) [OF s(2)] by auto
  next
    case 3
    then obtain dg1 where s: "add_group groups g dg = Inr dg1" "rfold (add_group groups) xs dg1 = Inr dg'" by (auto simp: rbind_eq_Inr)
    show ?case using add_group_graph(3) [OF s(1)] Cons.IH(3) [OF s(2)] by (rule subset_trans)
  next
    case 4
    then obtain dg1 where s: "add_group groups g dg = Inr dg1" "rfold (add_group groups) xs dg1 = Inr dg'" by (auto simp: rbind_eq_Inr)
    show ?case using add_group_graph(4) [OF s(1)] Cons.IH(4) [OF s(2)] unfolding list.set by blast
  next
    case 5
    then obtain dg1 where s: "add_group groups g dg = Inr dg1" "rfold (add_group groups) xs dg1 = Inr dg'" by (auto simp: rbind_eq_Inr)
    show ?case using add_group_graph(5) [OF s(1)] Cons.IH(5) [OF s(2)] by auto
  next
    case 6
    then obtain dg1 where s: "add_group groups g dg = Inr dg1" "rfold (add_group groups) xs dg1 = Inr dg'" by (auto simp: rbind_eq_Inr)
    show ?case using add_group_graph(6) [OF s(1)] Cons.IH(6) [OF _ s(2)] 6(1) by auto
  }
qed simp_all

text \<open>Parents and references of active groups are active.\<close>

definition active_closed :: "node_groups \<Rightarrow> string list \<Rightarrow> bool" where
  "active_closed groups active \<longleftrightarrow>
     (\<forall>g \<in> set active. set_option (parent_of groups g) \<union> set_option (ref_of groups g) \<subseteq> set active)"

lemma build_graph_facts:
  assumes "build_graph groups active = Inr dg" and "active_closed groups active"
  shows "w \<in> set (succs (dg_forward dg) v) \<longleftrightarrow> w \<in> set active \<and> parent_of groups w = Some v"
    and "g \<in> set active \<Longrightarrow> set (dict_get (dg_deps dg) g []) = set_option (parent_of groups g) \<union> set_option (ref_of groups g)"
    and "set (graph_nodes (dg_deps dg)) = set active"
    and "g \<in> set active \<Longrightarrow> map_of groups g \<noteq> None"
proof -
  let ?d = "map (\<lambda>g. (g, [])) active :: (string \<times> string list) list"
  note f = add_groups_graph [OF assms(1) [unfolded build_graph_def], simplified]
  have e: "dict_get ?d k [] = []" for k by (induction active) (auto simp: dict_get_def)
  have v: "dict_vals ?d = {}" by (auto simp: dict_vals_def)
  show "w \<in> set (succs (dg_forward dg) v) \<longleftrightarrow> w \<in> set active \<and> parent_of groups w = Some v"
    using f(1) by (simp add: succs_def dict_get_def)
  show "g \<in> set active \<Longrightarrow> set (dict_get (dg_deps dg) g []) = set_option (parent_of groups g) \<union> set_option (ref_of groups g)"
    using f(2) e by simp
  show "g \<in> set active \<Longrightarrow> map_of groups g \<noteq> None" using f(6) by simp
  have "fst ` set ?d = set active" by force
  then have "fst ` set (dg_deps dg) = set active" using f(3,4) by auto
  moreover have "dict_vals (dg_deps dg) \<subseteq> set active"
  proof -
    have "dict_vals (dg_deps dg) \<subseteq> (\<Union>k \<in> set active. set_option (parent_of groups k) \<union> set_option (ref_of groups k))"
      using f(5) v by simp
    moreover have "(\<Union>k \<in> set active. set_option (parent_of groups k) \<union> set_option (ref_of groups k)) \<subseteq> set active"
      using assms(2) unfolding active_closed_def by blast
    ultimately show ?thesis by (rule subset_trans)
  qed
  moreover have "set (graph_nodes (dg_deps dg)) = fst ` set (dg_deps dg) \<union> dict_vals (dg_deps dg)"
    by (force simp: graph_nodes_def dict_vals_def)
  ultimately show "set (graph_nodes (dg_deps dg)) = set active" by blast
qed

section \<open>The order of creation\<close>

text \<open>The groups of a log whose calls gave nodes, and the parents without the groups that gave none.\<close>

definition yields :: "(string \<times> string list \<times> bool) list \<Rightarrow> string set" where
  "yields log = fst ` set (filter (\<lambda>(g, rp, made). made) log)"

lemma yields_simps [simp]:
  "yields [] = {}" "yields ((g, rp, made) # log) = (if made then insert g (yields log) else yields log)"
  "yields (xs @ ys) = yields xs \<union> yields ys"
  by (auto simp: yields_def)

lemma yields_subset: "yields log \<subseteq> fst ` set log"
  by (auto simp: yields_def)

lemma yields_concat: "yields (concat parts) = (\<Union>l \<in> set parts. yields l)"
  by (induction parts) simp_all

definition pruned :: "'a set \<Rightarrow> ('a \<Rightarrow> 'a option) \<Rightarrow> 'a \<Rightarrow> 'a option" where
  "pruned Y par g = (case par g of None \<Rightarrow> None | Some q \<Rightarrow> if q \<in> Y then Some q else None)"

lemma pruned_Some [simp]: "pruned Y par g = Some q \<longleftrightarrow> par g = Some q \<and> q \<in> Y"
  by (auto simp: pruned_def split: option.splits)

lemma below_pruned: "below order (pruned Y par) \<subseteq> below order par"
  by (auto simp: below_def)

lemma pruned_parents_first: "parents_first order par \<Longrightarrow> parents_first order (pruned Y par)"
  by (auto simp: parents_first_def)

lemma visits_pruned_none: "p \<notin> Y \<Longrightarrow> visits n order (pruned Y par) p = []"
  by (cases n) simp_all

lemma visits_pruned_cong:
  "(\<And>x. (x, p) \<in> (below order par)\<^sup>* \<Longrightarrow> x \<in> Y \<longleftrightarrow> x \<in> Z) \<Longrightarrow> visits n order (pruned Y par) p = visits n order (pruned Z par) p"
proof (induction n arbitrary: p)
  case (Suc n)
  have "(if pruned Y par g = Some p then g # visits n order (pruned Y par) g else []) =
      (if pruned Z par g = Some p then g # visits n order (pruned Z par) g else [])" if g: "g \<in> set order" for g
  proof (cases "par g = Some p")
    case True
    then have "(g, p) \<in> below order par" using g by (simp add: below_def)
    then have "visits n order (pruned Y par) g = visits n order (pruned Z par) g"
      by (intro Suc.IH Suc.prems) (rule rtrancl_into_rtrancl)
    then show ?thesis using Suc.prems [of p] True by simp
  qed simp
  then show ?case by (simp cong: map_cong)
qed simp

text \<open>What the comment in the code guarantees: the reference lies below the parent.\<close>

definition refs_below :: "node_groups \<Rightarrow> string list \<Rightarrow> dep_graph \<Rightarrow> bool" where
  "refs_below groups active dg \<longleftrightarrow>
     (\<forall>g \<in> set active. \<forall>p r. parent_of groups g = Some p \<and> ref_of groups g = Some r \<longrightarrow>
       (\<exists>ws. is_path (dg_forward dg) p ws \<and> ws \<noteq> [] \<and> last ws = r))"

lemma sfold_total:
  assumes "\<And>x a s. x \<in> set xs \<Longrightarrow> \<exists>b t new. f x a s = (Inr b, t) \<and> L t = L s @ new \<and> Q x new"
  shows "\<exists>b t parts. sfold f xs a s = (Inr b, t) \<and> L t = L s @ concat parts \<and> list_all2 Q xs parts"
  using assms
proof (induction xs arbitrary: a s)
  case (Cons x xs)
  obtain b t new where 1: "f x a s = (Inr b, t)" "L t = L s @ new" "Q x new" using Cons.prems [of x a s] by auto
  obtain c u parts where 2: "sfold f xs b t = (Inr c, u)" "L u = L t @ concat parts" "list_all2 Q xs parts"
    using Cons.IH [of b t] Cons.prems by auto
  show ?case using 1 2 by (intro exI [of _ c] exI [of _ u] exI [of _ "new # parts"]) simp
qed simp

lemma ref_path_total:
  assumes "refs_below groups active dg" and "g \<in> set active" and "map_of groups g = Some cfg" and "nonempty (gc_parent cfg) = Some p"
  shows "\<exists>rp. ref_path dg cfg p = Inr rp"
proof (cases "nonempty (gc_ref cfg)")
  case (Some r)
  then have "\<exists>ws. is_path (dg_forward dg) p ws \<and> ws \<noteq> [] \<and> last ws = r"
    using assms by (simp add: refs_below_def parent_of_def ref_of_def)
  then have "\<nexists>e. get_shortest_path dg p r = Inl e"
    using bfs_correct [of "dg_forward dg" r p "[p]" "[(p, [])]" "\<lambda>_. 0"]
    by (auto simp: get_shortest_path_def bfs_inv_def path_end_def split: option.splits)
  then show ?thesis using Some by (cases "get_shortest_path dg p r") (simp_all add: ref_path_def)
qed (simp add: ref_path_def)

lemma order_parents_first:
  assumes "build_graph groups active = Inr dg" and "active_closed groups active" and "topological_order dg = Inr order"
  shows "set order = set active" "distinct order" "parents_first order (parent_of groups)"
    and "order = us @ g # vs \<Longrightarrow> ref_of groups g = Some r \<Longrightarrow> r \<in> set us"
proof -
  note f = build_graph_facts [OF assms(1,2)]
  have "distinct (graph_nodes (dg_deps dg))" by (simp add: graph_nodes_def)
  from batches_order [OF assms(3) [unfolded topological_order_def Let_def] this]
  show o: "set order = set active" "distinct order" using f(3) by auto
  have d: "set_option (parent_of groups g) \<union> set_option (ref_of groups g) \<subseteq> set us" if "order = us @ g # vs" for us g vs
  proof -
    have "set (dict_get (dg_deps dg) g []) \<subseteq> set us"
      using batches_order [OF assms(3) [unfolded topological_order_def Let_def] \<open>distinct (graph_nodes (dg_deps dg))\<close>] that
      by simp
    moreover have "g \<in> set active" using that o(1) by auto
    ultimately show ?thesis using f(2) by blast
  qed
  show "parents_first order (parent_of groups)" using d by (fastforce simp: parents_first_def)
  show "order = us @ g # vs \<Longrightarrow> ref_of groups g = Some r \<Longrightarrow> r \<in> set us" using d by fastforce
qed

text \<open>What the call for one group adds to the log: the call, and the calls below it if it gave nodes.\<close>

definition group_log ::
    "nat \<Rightarrow> string list \<Rightarrow> (string \<Rightarrow> string option) \<Rightarrow> string \<Rightarrow> string \<Rightarrow> (string \<times> string list \<times> bool) list \<Rightarrow> bool" where
  "group_log n order par p g new \<longleftrightarrow>
     (if par g = Some p
      then \<exists>rp made sub. new = (g, rp, made) # sub \<and>
        (if made then map fst sub = visits n order (pruned (insert g (yields sub)) par) g else sub = [])
      else new = [])"

lemma group_log_below:
  assumes "group_log n order par p g new" and "x \<in> fst ` set new"
  shows "par g = Some p \<and> (x, g) \<in> (below order par)\<^sup>*"
proof -
  obtain rp made sub where l: "par g = Some p" "new = (g, rp, made) # sub"
    "if made then map fst sub = visits n order (pruned (insert g (yields sub)) par) g else sub = []"
    using assms by (auto simp: group_log_def split: if_splits)
  show ?thesis
  proof (cases "x = g")
    case False
    then have "x \<in> set (map fst sub)" using assms(2) l(2) by auto
    then have "x \<in> set (visits n order (pruned (insert g (yields sub)) par) g)" using l(3) by (cases made) (simp_all del: set_map)
    then have "(x, g) \<in> (below order (pruned (insert g (yields sub)) par))\<^sup>+" using visits_below by fastforce
    then show ?thesis using l(1) trancl_mono [OF _ below_pruned] by (blast intro: trancl_into_rtrancl)
  qed (simp add: l(1))
qed

lemma group_logs_visits:
  assumes r: "parents_first order par" "distinct order" and l: "list_all2 (group_log n order par p) order parts"
  shows "map fst (concat parts) = visits (Suc n) order (pruned (insert p (yields (concat parts))) par) p"
proof -
  let ?Y = "insert p (yields (concat parts))"
  let ?F = "\<lambda>g. if pruned ?Y par g = Some p then g # visits n order (pruned ?Y par) g else []"
  have one: "map fst new = ?F g" if i: "i < length order" "g = order ! i" "new = parts ! i" for i g new
  proof -
    have g: "g \<in> set order" "group_log n order par p g new"
      using i l by (auto simp: list_all2_conv_all_nth)
    show ?thesis
    proof (cases "par g = Some p")
      case False
      then show ?thesis using g(2) by (simp add: group_log_def)
    next
      case True
      then obtain rp made sub where n: "new = (g, rp, made) # sub"
        "if made then map fst sub = visits n order (pruned (insert g (yields sub)) par) g else sub = []"
        using g(2) by (auto simp: group_log_def)
      have gp: "(g, p) \<in> below order par" using g(1) True by (simp add: below_def)
      have same: "x \<in> ?Y \<longleftrightarrow> x \<in> yields new" if x: "(x, g) \<in> (below order par)\<^sup>*" for x
      proof -
        have "x \<noteq> p" using below_trancl_idx [OF r, of x p] rtrancl_into_trancl1 [OF x gp] by auto
        moreover have "x \<in> yields new" if y: "x \<in> yields (concat parts)"
        proof -
          obtain part where part: "part \<in> set parts" "x \<in> yields part" using y unfolding yields_concat by blast
          then obtain j where j: "j < length order" "part = parts ! j"
            using list_all2_lengthD [OF l] by (metis in_set_conv_nth)
          have "x \<in> fst ` set part" using part(2) yields_subset by blast
          then have h: "par (order ! j) = Some p" "(x, order ! j) \<in> (below order par)\<^sup>*"
            using group_log_below [of n order par p "order ! j" part x] l j by (auto simp: list_all2_conv_all_nth)
          have "order ! j = order ! i" using siblings_disjoint [OF r nth_mem [OF j(1)] h(1) g(1) True h(2) x] i(2) by simp
          then show ?thesis using part(2) j i r(2) by (simp add: nth_eq_iff_index_eq)
        qed
        moreover have "x \<in> yields (concat parts)" if "x \<in> yields new"
          using that i list_all2_lengthD [OF l] by (auto simp: yields_concat)
        ultimately show ?thesis by blast
      qed
      have "map fst sub = visits n order (pruned ?Y par) g"
      proof (cases made)
        case True
        have "visits n order (pruned ?Y par) g = visits n order (pruned (insert g (yields sub)) par) g"
          by (rule visits_pruned_cong) (use same n(1) True in simp)
        then show ?thesis using n(2) True by simp
      next
        case False
        then have "g \<notin> ?Y" using same [of g] n by simp
        then show ?thesis using n(2) False by (simp add: visits_pruned_none)
      qed
      then show ?thesis using n(1) True by simp
    qed
  qed
  have "map (map fst) parts = map ?F order"
    by (rule nth_equalityI) (use one list_all2_lengthD [OF l] in auto)
  then show ?thesis by (simp add: map_concat)
qed

lemma create_rec_log:
  assumes order: "topological_order dg = Inr order" "set order = set active" "distinct order" "[] \<notin> set active"
    and first: "parents_first order (parent_of groups)"
    and known: "\<And>g. g \<in> set active \<Longrightarrow> map_of groups g \<noteq> None"
    and refs: "refs_below groups active dg"
  shows "p \<noteq> [] \<Longrightarrow> \<exists>new. cr_log (snd (create_rec n cr groups dg nodes p s)) = cr_log s @ new \<and>
    map fst new = visits n order (pruned (insert p (yields new)) (parent_of groups)) p"
proof (induction n arbitrary: nodes p s)
  case (Suc n)
  let ?par = "parent_of groups"
  have "\<exists>b t new. create_group (create_rec n cr groups dg) cr groups dg nodes p g errs s = (Inr b, t) \<and>
      cr_log t = cr_log s @ new \<and> group_log n order ?par p g new" if g: "g \<in> set order" for g errs s
  proof -
    obtain cfg where cfg: "map_of groups g = Some cfg" using known g order(2) by blast
    have par: "?par g = Some p \<longleftrightarrow> gc_parent cfg = Some p"
      using cfg Suc.prems by (auto simp: parent_of_def nonempty_def split: option.splits)
    show ?thesis
    proof (cases "gc_parent cfg = Some p")
      case True
      then have "nonempty (gc_parent cfg) = Some p" using Suc.prems by (simp add: nonempty_def)
      then obtain rp where rp: "ref_path dg cfg p = Inr rp" using ref_path_total [OF refs _ cfg] g order(2) by auto
      obtain ns err st where c: "cr nodes g rp (cr_store s) = ((ns, err), st)" by (metis surj_pair)
      let ?s = "s\<lparr>cr_log := cr_log s @ [(g, rp, ns \<noteq> [])], cr_store := st\<rparr>"
      show ?thesis
      proof (cases "ns = []")
        case ns: True
        then show ?thesis using cfg True par rp c
          by (cases err) (auto simp: create_group_def call_creator_def group_log_def)
      next
        case ns: False
        obtain r t where rt: "create_rec n cr groups dg ns g ?s = (r, t)" by fastforce
        have "g \<noteq> []" using g order(2,4) by auto
        then obtain sub where "cr_log t = cr_log ?s @ sub" "map fst sub = visits n order (pruned (insert g (yields sub)) ?par) g"
          using Suc.IH [of g ns ?s] rt by auto
        then show ?thesis using cfg True par rp c ns rt
          by (cases r; cases err) (auto simp: create_group_def call_creator_def catch_into_def group_log_def)
      qed
    next
      case False
      then show ?thesis using cfg par by (simp add: create_group_def group_log_def)
    qed
  qed
  from sfold_total [of order "create_group (create_rec n cr groups dg) cr groups dg nodes p" cr_log "group_log n order ?par p" "[]" s, OF this]
  obtain b t parts where t: "sfold (create_group (create_rec n cr groups dg) cr groups dg nodes p) order [] s = (Inr b, t)"
    "cr_log t = cr_log s @ concat parts" "list_all2 (group_log n order ?par p) order parts" by blast
  show ?case using t(1,2) group_logs_visits [OF first order(3) t(3)] order(1)
    by (intro exI [of _ "concat parts"]) (cases b; simp del: visits.simps)
qed simp

lemma path_below:
  assumes "\<And>v w. w \<in> set (succs fw v) \<longleftrightarrow> w \<in> set order \<and> par w = Some v"
  shows "is_path fw p ws \<Longrightarrow> ws \<noteq> [] \<Longrightarrow> (last ws, p) \<in> (below order par)\<^sup>+"
proof (induction ws arbitrary: p)
  case (Cons w ws)
  have "(w, p) \<in> below order par" using Cons.prems(1) assms by (simp add: below_def)
  then show ?case using Cons.IH [of w] Cons.prems(1) by (cases "ws = []") (auto intro: trancl_into_trancl)
qed simp

lemma sfold_keep: "(\<And>x a s. K (snd (f x a s)) = K s) \<Longrightarrow> K (snd (sfold f xs a s)) = K s"
proof (induction xs arbitrary: a s)
  case (Cons x xs)
  have "K (snd (f x a s)) = K s" by (rule Cons.prems)
  then show ?case using Cons.IH [OF Cons.prems] by (auto simp: sbind_def split: sum.splits prod.splits)
qed simp

lemma create_rec_graphs: "cr_graphs (snd (create_rec n cr groups dg nodes p s)) = cr_graphs s"
proof (induction n arbitrary: nodes p s)
  case (Suc n)
  have "cr_graphs (snd (create_group (create_rec n cr groups dg) cr groups dg nodes p g errs s)) = cr_graphs s" for g errs s
    using Suc
    by (auto simp: create_group_def sbind_def call_creator_def catch_into_def split_beta split: option.splits sum.splits prod.splits)
  note k = sfold_keep [of cr_graphs "create_group (create_rec n cr groups dg) cr groups dg nodes p", OF this]
  show ?case
  proof (cases "topological_order dg")
    case (Inr order)
    obtain r t where t: "sfold (create_group (create_rec n cr groups dg) cr groups dg nodes p) order [] s = (r, t)" by fastforce
    then have "cr_graphs t = cr_graphs s" using k [of order "[]" s] by simp
    then show ?thesis using Inr t by (cases r) (auto simp: sbind_def split: list.splits)
  qed simp
qed simp

text \<open>The state before the first call.\<close>

definition fresh :: "'s \<Rightarrow> 's creation" where
  "fresh st = \<lparr>cr_graphs = [], cr_log = [], cr_store = st\<rparr>"

definition created :: "'s creation \<Rightarrow> string list" where
  "created s = map fst (cr_log s)"

text \<open>A descent that is whole up to \<open>p\<close> is whole up to every group between.\<close>

lemma below_between:
  assumes r: "parents_first order par" "distinct order"
    and "(x, q) \<in> (below order par)\<^sup>+" and q: "(q, p) \<in> (below order par)\<^sup>*"
  shows "(x, p) \<in> (below order (pruned Y par))\<^sup>+ \<Longrightarrow> (x, q) \<in> (below order (pruned Y par))\<^sup>+"
  using assms(3)
proof (induction x rule: converse_trancl_induct)
  case (base x)
  obtain x' where x': "(x, x') \<in> below order (pruned Y par)" using tranclD [OF base.prems] by blast
  then have "x' = q" using base.hyps by (simp add: below_def)
  then show ?case using x' by blast
next
  case (step x y)
  obtain x' where x': "(x, x') \<in> below order (pruned Y par)" "(x', p) \<in> (below order (pruned Y par))\<^sup>*"
    using tranclD [OF step.prems] by blast
  then have "x' = y" using step.hyps(1) by (simp add: below_def)
  moreover have "y \<noteq> p" using below_trancl_idx [OF r, of y p] step.hyps(2) q by (auto dest: trancl_rtrancl_trancl)
  ultimately have "(y, p) \<in> (below order (pruned Y par))\<^sup>+" using x'(2) by (simp add: rtrancl_eq_or_trancl)
  then show ?case using step.IH x'(1) \<open>x' = y\<close> by (simp add: trancl_into_trancl2)
qed

lemma graph_creates:
  assumes "build_graph groups active = Inr dg" and "active_closed groups active" and "topological_order dg = Inr order"
    and "[] \<notin> set active" and "refs_below groups active dg" and "p \<in> set active" and "cr_log s = []"
    and "t = snd (create_rec (Suc (length (graph_nodes (dg_deps dg)))) cr groups dg nodes p s)"
  shows "distinct (created t)"
    "g \<in> set (created t) \<longleftrightarrow> g \<in> set active \<and> (\<exists>q. parent_of groups g = Some q \<and> (q = p \<or> q \<in> yields (cr_log t)))"
    "g \<in> set (created t) \<Longrightarrow> parent_of groups g = Some q \<Longrightarrow> q = p \<or> before_in (created t) q g"
    "g \<in> set (created t) \<Longrightarrow> ref_of groups g = Some r \<Longrightarrow> r \<in> set (created t) \<Longrightarrow> before_in (created t) r g"
proof -
  let ?par = "parent_of groups"
  note o = order_parents_first [OF assms(1-3)]
  note f = build_graph_facts [OF assms(1,2)]
  let ?n = "Suc (length (graph_nodes (dg_deps dg)))"
  define Y where "Y = insert p (yields (cr_log t))"
  let ?cp = "pruned Y ?par"
  let ?v = "visits ?n order ?cp p"
  have p: "p \<noteq> []" "p \<in> set order" using assms(4,6) o(1) by auto
  have c: "created t = ?v"
    using create_rec_log [OF assms(3) o(1,2) assms(4) o(3) f(4) assms(5) p(1), of ?n cr nodes s] assms(7)
    by (simp add: assms(8) Y_def created_def del: create_rec.simps visits.simps)
  note o3 = pruned_parents_first [OF o(3), of Y]
  have "set order = set (graph_nodes (dg_deps dg))" using o(1) f(3) by simp
  then have "length order = card (set (graph_nodes (dg_deps dg)))" using o(2) distinct_card [of order] by simp
  then have fuel: "length order - idx order p \<le> ?n" using card_length [of "graph_nodes (dg_deps dg)"] by simp
  have all: "x \<in> set ?v \<longleftrightarrow> (x, p) \<in> (below order ?cp)\<^sup>+" for x
    using visits_below [of ?n order ?cp p] visits_complete [OF o3 o(2) fuel p(2), of x] by (auto simp del: visits.simps)
  have yl: "yields (cr_log t) \<subseteq> set ?v"
    using yields_subset [of "cr_log t"] unfolding c [symmetric] created_def by simp
  show "distinct (created t)" unfolding c by (rule visits_distinct [OF o3 o(2)])
  show "g \<in> set (created t) \<longleftrightarrow> g \<in> set active \<and> (\<exists>q. ?par g = Some q \<and> (q = p \<or> q \<in> yields (cr_log t)))"
  proof
    assume g: "g \<in> set (created t)"
    then have "\<exists>q. ?cp g = Some q" unfolding c using visits_parent [of g ?n order ?cp p] by blast
    moreover have "g \<in> set active"
      using below_trancl_idx [OF o3 o(2) all [THEN iffD1, OF g [unfolded c]]] o(1) by simp
    ultimately show "g \<in> set active \<and> (\<exists>q. ?par g = Some q \<and> (q = p \<or> q \<in> yields (cr_log t)))" by (auto simp: Y_def)
  next
    assume "g \<in> set active \<and> (\<exists>q. ?par g = Some q \<and> (q = p \<or> q \<in> yields (cr_log t)))"
    then obtain q where q: "g \<in> set order" "?par g = Some q" "q = p \<or> q \<in> yields (cr_log t)" using o(1) by blast
    then have "(g, q) \<in> below order ?cp" by (auto simp: below_def Y_def)
    moreover have "q = p \<or> (q, p) \<in> (below order ?cp)\<^sup>+" using q(3) yl unfolding all [symmetric] by blast
    ultimately show "g \<in> set (created t)" unfolding c all by (auto intro: trancl_into_trancl2)
  qed
  show "q = p \<or> before_in (created t) q g" if "g \<in> set (created t)" "?par g = Some q"
    using visits_parent [of g ?n order ?cp p] that unfolding c by auto
  show "before_in (created t) r g" if g: "g \<in> set (created t)" and r: "ref_of groups g = Some r" "r \<in> set (created t)"
  proof -
    obtain q where q: "?cp g = Some q" using visits_parent [OF g [unfolded c]] by blast
    have ga: "g \<in> set active"
      using below_trancl_idx [OF o3 o(2) all [THEN iffD1, OF g [unfolded c]]] o(1) by simp
    obtain ws where "is_path (dg_forward dg) q ws" "ws \<noteq> []" "last ws = r"
      using assms(5) ga q r(1) unfolding refs_below_def pruned_Some by blast
    then have rq: "(r, q) \<in> (below order ?par)\<^sup>+" using path_below [of "dg_forward dg" order ?par q ws] f(1) o(1) by simp
    have "q = p \<or> q \<in> set ?v" using q yl by (auto simp: Y_def)
    then have "(q, p) \<in> (below order ?cp)\<^sup>*" unfolding all by (auto intro: trancl_into_rtrancl)
    then have "(q, p) \<in> (below order ?par)\<^sup>*" using rtrancl_mono [OF below_pruned] by blast
    then have "(r, q) \<in> (below order ?cp)\<^sup>+"
      using below_between [OF o(3,2) rq] r(2) unfolding c all by blast
    moreover obtain us vs where s: "order = us @ g # vs" using split_list [of g order] ga o(1) by auto
    then have "idx order r < idx order g" using idx_before(1) [OF o(2) s o(4) [OF s r(1)]] by simp
    ultimately show ?thesis using visits_refs [OF o3 o(2) fuel p(2) g [unfolded c] q] unfolding c by blast
  qed
qed

lemma create_with_graph:
  assumes "map_of (cr_graphs s) (set (map fst groups)) = Some dg"
  shows "create_nodes_recursive cr groups active nodes p s = create_rec (Suc (length (graph_nodes (dg_deps dg)))) cr groups dg nodes p s"
  using assms by (simp add: create_nodes_recursive_def sbind_def get_dependency_graph_def)

lemma create_fresh:
  assumes "build_graph groups active = Inr dg"
  shows "create_nodes_recursive cr groups active nodes p (fresh st) =
    create_rec (Suc (length (graph_nodes (dg_deps dg)))) cr groups dg nodes p ((fresh st)\<lparr>cr_graphs := [(set (map fst groups), dg)]\<rparr>)"
  using assms by (simp add: create_nodes_recursive_def sbind_def get_dependency_graph_def fresh_def)


text \<open>Two sentences below each chunk, and a summary of the root's text that refers to the sentences.\<close>

definition demo_groups :: node_groups where
  "demo_groups =
     [(''root'', \<lparr>gc_parent = None, gc_ref = None\<rparr>), (''sum'', \<lparr>gc_parent = Some ''root'', gc_ref = Some ''sent''\<rparr>),
      (''sent'', \<lparr>gc_parent = Some ''chunk'', gc_ref = None\<rparr>), (''chunk'', \<lparr>gc_parent = Some ''root'', gc_ref = None\<rparr>)]"

definition demo_active :: "string list" where
  "demo_active = [''root'', ''sum'', ''sent'', ''chunk'']"

definition demo_dg :: dep_graph where
  "demo_dg = \<lparr>dg_forward = [(''root'', [''sum'', ''chunk'']), (''chunk'', [''sent''])],
     dg_deps = [(''root'', []), (''sum'', [''root'', ''sent'']), (''sent'', [''chunk'']), (''chunk'', [''root''])]\<rparr>"

text \<open>A creator that gives no node for the chunks of an empty document.\<close>

definition demo_creator :: "(string, nat) creator" where
  "demo_creator ns g rp s = ((map (\<lambda>n. n @ g) (filter (\<lambda>n. g \<noteq> ''chunk'' \<or> n \<noteq> ''empty'') ns), None), Suc s)"


lemma demo_order: "topological_order demo_dg = Inr [''root'', ''chunk'', ''sent'', ''sum'']"
  by code_simp

lemma demo_hyps:
  "active_closed demo_groups demo_active" "refs_below demo_groups demo_active demo_dg"
  "[] \<notin> set demo_active" "''root'' \<in> set demo_active"
proof -
  show "active_closed demo_groups demo_active"
    by (simp add: active_closed_def demo_active_def demo_groups_def parent_of_def ref_of_def nonempty_def)
  have "is_path (dg_forward demo_dg) ''root'' [''chunk'', ''sent'']" by (simp add: demo_dg_def succs_def dict_get_def)
  then have "\<exists>ws. is_path (dg_forward demo_dg) ''root'' ws \<and> ws \<noteq> [] \<and> last ws = ''sent''"
    by (intro exI [of _ "[''chunk'', ''sent'']"]) simp
  then show "refs_below demo_groups demo_active demo_dg"
    by (simp add: refs_below_def demo_active_def demo_groups_def parent_of_def ref_of_def nonempty_def)
  show "[] \<notin> set demo_active" "''root'' \<in> set demo_active" by (simp_all add: demo_active_def)
qed



text \<open>
  The graph is kept by the names of the groups alone: a group that is activated after nodes were created for the same groups is
  not created, whatever is active then.
\<close>

theorem late_activation_ignored:
  assumes "build_graph groups active = Inr dg" and "active_closed groups active" and "topological_order dg = Inr order"
    and "[] \<notin> set active" and "refs_below groups active dg" and "p \<in> set active"
  shows "let s = snd (create_nodes_recursive cr groups active nodes p (fresh st));
      c = created (snd (create_nodes_recursive cr groups active' nodes' p (s\<lparr>cr_log := []\<rparr>)))
    in set c \<subseteq> set active"
proof -
  let ?s = "snd (create_nodes_recursive cr groups active nodes p (fresh st))\<lparr>cr_log := []\<rparr>"
  have g: "map_of (cr_graphs ?s) (set (map fst groups)) = Some dg"
    unfolding create_fresh [OF assms(1)] by (simp add: create_rec_graphs del: create_rec.simps)
  have "cr_log ?s = []" by simp
  from graph_creates(2) [OF assms this refl] show ?thesis unfolding Let_def create_with_graph [OF g] by blast
qed

theorem late_activation_ignored_witness:
  "let s = snd (create_nodes_recursive demo_creator (demo_groups @ [(''qa'', \<lparr>gc_parent = Some ''root'', gc_ref = None\<rparr>)])
        demo_active [''d''] ''root'' (fresh 0));
      c = created (snd (create_nodes_recursive demo_creator (demo_groups @ [(''qa'', \<lparr>gc_parent = Some ''root'', gc_ref = None\<rparr>)])
        (demo_active @ [''qa'']) [''d''] ''root'' (s\<lparr>cr_log := []\<rparr>)))
    in ''qa'' \<notin> set c"
proof -
  let ?g = "demo_groups @ [(''qa'', \<lparr>gc_parent = Some ''root'', gc_ref = None\<rparr>)]"
  have b: "build_graph ?g demo_active = Inr demo_dg"
    by (simp add: build_graph_def demo_groups_def demo_active_def demo_dg_def add_group_def nonempty_def add_to_def
        dict_get_def Let_def)
  have same: "parent_of ?g x = parent_of demo_groups x" "ref_of ?g x = ref_of demo_groups x" if "x \<in> set demo_active" for x
    using that by (auto simp: parent_of_def ref_of_def demo_active_def demo_groups_def)
  have "active_closed ?g demo_active" "refs_below ?g demo_active demo_dg"
    using demo_hyps(1,2) same by (simp_all add: active_closed_def refs_below_def)
  from late_activation_ignored [OF b this(1) demo_order demo_hyps(3) this(2) demo_hyps(4), of demo_creator "[''d'']" 0
      "demo_active @ [''qa'']" "[''d'']"]
  show ?thesis unfolding Let_def by (auto simp: demo_active_def)
qed

end
