(* ===== verification/NodeNumber.thy ===== *)
theory NodeNumber
  imports Prelude "HOL-Library.List_Lexorder" "HOL-Library.Char_ord" "HOL-Library.Product_Lexorder"
begin

text \<open>
  The numbers of the nodes of a document (\<open>_set_nodes_number\<close> and \<open>_renumber_group_by_tree\<close> of
  \<open>tools/rag/parsing_service/impl.py\<close>): new nodes are counted by document and group, and a group to which nodes
  were added is numbered again in the order of its parents.
\<close>

record store_node =
  sn_uid :: string
  sn_doc :: string
  sn_group :: string
  sn_parent :: string
  sn_null :: bool
  sn_number :: nat

section \<open>Numbers of new nodes\<close>

text \<open>The next number of each group of each document.\<close>

type_synonym counters = "((string \<times> string) \<times> nat) list"

fun set_nodes_number :: "counters \<Rightarrow> store_node list \<Rightarrow> store_node list \<times> counters" where
  "set_nodes_number ctr [] = ([], ctr)"
| "set_nodes_number ctr (n # ns) =
     (if sn_null n then (let (r, ctr) = set_nodes_number ctr ns in (n\<lparr>sn_number := 0\<rparr> # r, ctr))
      else
        let k = (sn_doc n, sn_group n);
            i = dict_get ctr k 1;
            (r, ctr) = set_nodes_number (AList.update k (i + 1) ctr) ns
        in (n\<lparr>sn_number := i\<rparr> # r, ctr))"

definition of_group :: "string \<Rightarrow> string \<Rightarrow> store_node list \<Rightarrow> store_node list" where
  "of_group d g ns = filter (\<lambda>n. \<not> sn_null n \<and> sn_doc n = d \<and> sn_group n = g) ns"

lemma upt_step: "[m..<Suc (m + l)] = m # [Suc m..<Suc (m + l)]"
  by (simp add: upt_rec del: upt_Suc)

lemma dict_get_update: "dict_get (AList.update k v d) k' w = (if k' = k then v else dict_get d k' w)"
  by (simp add: dict_get_def update_conv')

lemma set_nodes_number_counts:
  "map sn_number (of_group d g (fst (set_nodes_number ctr ns))) =
     [dict_get ctr (d, g) 1..<dict_get ctr (d, g) 1 + length (of_group d g ns)]"
proof (induction ns arbitrary: ctr)
  case (Cons n ns)
  show ?case
  proof (cases "sn_null n")
    case True
    then show ?thesis using Cons [of ctr] by (simp add: of_group_def split_beta)
  next
    case False
    let ?k = "(sn_doc n, sn_group n)"
    let ?i = "dict_get ctr ?k 1"
    note IH = Cons [of "AList.update ?k (?i + 1) ctr"]
    show ?thesis using IH False by (auto simp: of_group_def split_beta Let_def dict_get_update upt_step simp del: upt_Suc)
  qed
qed (simp add: of_group_def)

lemma set_nodes_number_nulls: "n \<in> set (fst (set_nodes_number ctr ns)) \<Longrightarrow> sn_null n \<Longrightarrow> sn_number n = 0"
  by (induction ctr ns rule: set_nodes_number.induct) (auto simp: split_beta Let_def split: if_splits)

section \<open>Numbering a group again\<close>

text \<open>The place of each parent of a document; a parent that is not found comes last.\<close>

definition parent_order :: "store_node list \<Rightarrow> string \<Rightarrow> string list" where
  "parent_order parents d =
     map sn_uid (sort_key (\<lambda>p. (sn_number p, sn_uid p)) (filter (\<lambda>p. sn_doc p = d) parents))"

text \<open>The last place of a uid, as a dictionary that is built from the enumeration has it.\<close>

fun place :: "string list \<Rightarrow> string \<Rightarrow> nat option" where
  "place [] u = None"
| "place (v # vs) u = (case place vs u of Some i \<Rightarrow> Some (Suc i) | None \<Rightarrow> if v = u then Some 0 else None)"

definition parent_place :: "string list \<Rightarrow> store_node \<Rightarrow> nat" where
  "parent_place order c = (case place order (sn_parent c) of Some i \<Rightarrow> i | None \<Rightarrow> card (set order))"

definition tree_order :: "store_node list \<Rightarrow> string \<Rightarrow> store_node list \<Rightarrow> store_node list" where
  "tree_order parents d children =
     sort_key (\<lambda>c. (parent_place (parent_order parents d) c, sn_number c, sn_uid c)) (filter (\<lambda>c. sn_doc c = d) children)"

text \<open>The nodes whose number changes, with their new numbers.\<close>

fun renumber_loop :: "nat \<Rightarrow> store_node list \<Rightarrow> store_node list" where
  "renumber_loop i [] = []"
| "renumber_loop i (c # cs) =
     (let expected = (if sn_null c then 0 else i);
          rest = renumber_loop (if sn_null c then i else i + 1) cs
      in if sn_number c \<noteq> expected then c\<lparr>sn_number := expected\<rparr> # rest else rest)"

text \<open>The nodes are objects: later documents see the numbers that were set, and the store is written once.\<close>

definition write_back :: "store_node list \<Rightarrow> store_node \<Rightarrow> store_node" where
  "write_back changed n = (case map_of (map (\<lambda>c. (sn_uid c, c)) changed) (sn_uid n) of Some c \<Rightarrow> c | None \<Rightarrow> n)"

fun renumber_docs :: "store_node list \<Rightarrow> string list \<Rightarrow> store_node list \<Rightarrow> store_node list" where
  "renumber_docs parents [] children = []"
| "renumber_docs parents (d # ds) children =
     (let changed = renumber_loop 1 (tree_order parents d children)
      in changed @ renumber_docs parents ds (map (write_back changed) children))"

section \<open>What the numbers are\<close>

lemma renumber_loop_of: "c \<in> set (renumber_loop i cs) \<Longrightarrow>
    \<exists>c' \<in> set cs. sn_uid c = sn_uid c' \<and> sn_doc c = sn_doc c' \<and> sn_null c = sn_null c'"
  by (induction i cs rule: renumber_loop.induct) (auto simp: Let_def split: if_splits)

lemma write_back_other: "sn_uid n \<notin> sn_uid ` set changed \<Longrightarrow> write_back changed n = n"
proof -
  assume "sn_uid n \<notin> sn_uid ` set changed"
  then have "map_of (map (\<lambda>c. (sn_uid c, c)) changed) (sn_uid n) = None" by (auto simp: map_of_eq_None_iff image_image)
  then show ?thesis by (simp add: write_back_def)
qed

lemma write_back_cases: "write_back changed n = n \<or> write_back changed n \<in> set changed \<and> sn_uid (write_back changed n) = sn_uid n"
  by (auto simp: write_back_def split: option.splits dest!: map_of_SomeD)

lemma write_back_append: "sn_uid n \<notin> sn_uid ` set ys \<Longrightarrow> write_back (xs @ ys) n = write_back xs n"
proof -
  assume "sn_uid n \<notin> sn_uid ` set ys"
  then have "map_of (map (\<lambda>c. (sn_uid c, c)) ys) (sn_uid n) = None" by (auto simp: map_of_eq_None_iff image_image)
  then show ?thesis by (simp add: write_back_def map_add_def split: option.splits)
qed

lemma write_back_skip: "sn_uid n \<notin> sn_uid ` set xs \<Longrightarrow> write_back (xs @ ys) n = write_back ys n"
proof -
  assume "sn_uid n \<notin> sn_uid ` set xs"
  then have "map_of (map (\<lambda>c. (sn_uid c, c)) xs) (sn_uid n) = None" by (auto simp: map_of_eq_None_iff image_image)
  then show ?thesis by (simp add: write_back_def map_add_def split: option.splits)
qed

fun numbered :: "nat \<Rightarrow> store_node list \<Rightarrow> store_node list" where
  "numbered i [] = []"
| "numbered i (c # cs) = c\<lparr>sn_number := (if sn_null c then 0 else i)\<rparr> # numbered (if sn_null c then i else i + 1) cs"

lemma write_back_Cons: "write_back (c # cs) n = (if sn_uid c = sn_uid n then c else write_back cs n)"
  by (simp add: write_back_def)

lemma write_back_loop: "distinct (map sn_uid cs) \<Longrightarrow> map (write_back (renumber_loop i cs)) cs = numbered i cs"
proof (induction i cs rule: renumber_loop.induct)
  case (2 i c cs)
  let ?j = "if sn_null c then i else i + 1"
  let ?r = "renumber_loop ?j cs"
  have c: "sn_uid c \<notin> sn_uid ` set ?r" using renumber_loop_of [of _ ?j cs] 2(2) by fastforce
  have IH: "map (write_back ?r) cs = numbered ?j cs" using 2 by simp
  have "map (write_back (c\<lparr>sn_number := k\<rparr> # ?r)) cs = map (write_back ?r) cs" for k
    using 2(2) by (force simp: write_back_Cons)
  then show ?case using IH write_back_other [OF c] by (auto simp: Let_def write_back_Cons)
qed simp

lemma tree_order_cong:
  "filter (\<lambda>c. sn_doc c = d) children = filter (\<lambda>c. sn_doc c = d) children' \<Longrightarrow>
   tree_order parents d children = tree_order parents d children'"
  by (simp add: tree_order_def)

lemma set_tree_order [simp]: "set (tree_order parents d children) = {c \<in> set children. sn_doc c = d}"
  by (auto simp: tree_order_def)

lemma distinct_tree_order: "distinct (map sn_uid children) \<Longrightarrow> distinct (map sn_uid (tree_order parents d children))"
proof -
  assume "distinct (map sn_uid children)"
  then have "inj_on sn_uid (set children)" "distinct children" by (simp_all add: distinct_map)
  then show ?thesis by (auto simp: distinct_map tree_order_def intro: inj_on_subset)
qed

lemma renumber_docs_of: "c \<in> set (renumber_docs parents ds children) \<Longrightarrow>
    \<exists>c' \<in> set children. sn_uid c = sn_uid c' \<and> sn_doc c = sn_doc c' \<and> sn_doc c \<in> set ds"
proof (induction parents ds children rule: renumber_docs.induct)
  case (2 parents d ds children)
  let ?ch = "renumber_loop 1 (tree_order parents d children)"
  have ch: "\<exists>c' \<in> set children. sn_uid c = sn_uid c' \<and> sn_doc c = sn_doc c' \<and> sn_doc c = d" if "c \<in> set ?ch" for c
    using renumber_loop_of [OF that] by auto
  show ?case
  proof (cases "c \<in> set ?ch")
    case True
    then show ?thesis using ch by fastforce
  next
    case False
    then obtain c1 where c1: "c1 \<in> set children" "sn_uid c = sn_uid (write_back ?ch c1)" "sn_doc c = sn_doc (write_back ?ch c1)"
      "sn_doc c \<in> set ds" using 2 by (auto simp: Let_def)
    then show ?thesis using write_back_cases [of ?ch c1] ch [of "write_back ?ch c1"] by fastforce
  qed
qed simp

lemma renumber_docs_correct:
  assumes "distinct (map sn_uid children)" and "distinct ds" and "d \<in> set ds"
  shows "map (write_back (renumber_docs parents ds children)) (tree_order parents d children) = numbered 1 (tree_order parents d children)"
  using assms
proof (induction parents ds children rule: renumber_docs.induct)
  case (2 parents e ds children)
  let ?ch = "renumber_loop 1 (tree_order parents e children)"
  let ?children = "map (write_back ?ch) children"
  let ?rest = "renumber_docs parents ds ?children"
  have inj: "n = m" if "n \<in> set children" "m \<in> set children" "sn_uid n = sn_uid m" for n m
    using "2.prems"(1) that by (auto simp: distinct_map dest: inj_onD)
  have chd: "sn_uid n \<notin> sn_uid ` set ?ch" if "n \<in> set children" "sn_doc n \<noteq> e" for n
    using renumber_loop_of [of _ 1 "tree_order parents e children"] inj [OF that(1)] that(2) by fastforce
  have keep: "sn_uid (write_back ?ch n) = sn_uid n" "n \<in> set children \<Longrightarrow> sn_doc (write_back ?ch n) = sn_doc n" for n
  proof -
    show "sn_uid (write_back ?ch n) = sn_uid n" using write_back_cases [of ?ch n] by auto
    assume n: "n \<in> set children"
    show "sn_doc (write_back ?ch n) = sn_doc n"
    proof (cases "write_back ?ch n = n")
      case False
      then have w: "write_back ?ch n \<in> set ?ch" "sn_uid (write_back ?ch n) = sn_uid n" using write_back_cases [of ?ch n] by auto
      then obtain c' where "c' \<in> set children" "sn_uid n = sn_uid c'" "sn_doc (write_back ?ch n) = sn_doc c'"
        using renumber_loop_of [OF w(1)] by auto
      then show ?thesis using inj [OF n] by simp
    qed simp
  qed
  have uids: "map sn_uid ?children = map sn_uid children" using keep(1) by simp
  show ?case
  proof (cases "d = e")
    case True
    have "sn_uid n \<notin> sn_uid ` set ?rest" if n: "n \<in> set children" "sn_doc n = d" for n
    proof
      assume "sn_uid n \<in> sn_uid ` set ?rest"
      then obtain c where c: "c \<in> set ?rest" "sn_uid c = sn_uid n" by auto
      from renumber_docs_of [OF c(1)] obtain c' where "c' \<in> set children" "sn_uid n = sn_uid (write_back ?ch c')"
        "sn_doc c = sn_doc (write_back ?ch c')" "sn_doc c \<in> set ds" using c(2) by auto
      then have "sn_doc n \<in> set ds" using keep inj [OF n(1)] by metis
      then show False using n(2) True "2.prems"(2) by simp
    qed
    then have "map (write_back (?ch @ ?rest)) (tree_order parents d children) = map (write_back ?ch) (tree_order parents d children)"
      by (intro map_cong refl write_back_append) auto
    then show ?thesis using write_back_loop [OF distinct_tree_order [OF "2.prems"(1)], of 1 parents d] True by (simp add: Let_def del: map_eq_conv)
  next
    case False
    have same: "write_back ?ch n = n" if "n \<in> set children" "sn_doc n = d" for n
      using write_back_other [OF chd [OF that(1)]] that(2) False by simp
    have "filter (\<lambda>c. sn_doc c = d) ?children = filter (\<lambda>c. sn_doc c = d) children"
    proof -
      have "filter (\<lambda>c. sn_doc c = d) ?children = map (write_back ?ch) (filter (\<lambda>c. sn_doc c = d) children)"
        using keep(2) by (simp add: filter_map o_def cong: filter_cong)
      also have "\<dots> = filter (\<lambda>c. sn_doc c = d) children" using same by (intro map_idI) simp
      finally show ?thesis .
    qed
    then have t: "tree_order parents d ?children = tree_order parents d children" by (rule tree_order_cong)
    have "map (write_back (?ch @ ?rest)) (tree_order parents d children) = map (write_back ?rest) (tree_order parents d children)"
      using chd False by (intro map_cong refl write_back_skip) auto
    also have "\<dots> = numbered 1 (tree_order parents d children)"
    proof -
      have "distinct (map sn_uid ?children)" unfolding uids by (rule "2.prems"(1))
      then show ?thesis using "2.IH" [OF refl, unfolded t] "2.prems"(2,3) False by simp
    qed
    finally show ?thesis by (simp add: Let_def)
  qed
qed simp

lemma numbered_counts: "map sn_number (filter (\<lambda>c. \<not> sn_null c) (numbered i cs)) = [i..<i + length (filter (\<lambda>c. \<not> sn_null c) cs)]"
proof (induction i cs rule: numbered.induct)
  case (2 i c cs)
  then show ?case by (cases "sn_null c") (simp_all add: upt_step del: upt_Suc)
qed simp

lemma numbered_nulls: "c \<in> set (numbered i cs) \<Longrightarrow> sn_null c \<Longrightarrow> sn_number c = 0"
  by (induction i cs rule: numbered.induct) auto

text \<open>
  C32. After a group is numbered again, the nodes of every document that was asked for have the numbers from 1 on, without
  a gap, in the order of their parents and of their old numbers, and its empty nodes have 0.
\<close>

theorem renumber_by_tree:
  assumes "distinct (map sn_uid children)" and "distinct doc_ids" and "d \<in> set doc_ids"
  shows "let after = map (write_back (renumber_docs parents doc_ids children)) (tree_order parents d children) in
    map sn_number (filter (\<lambda>c. \<not> sn_null c) after) = [1..<Suc (length (filter (\<lambda>c. \<not> sn_null c) after))] \<and>
    (\<forall>c \<in> set after. sn_null c \<longrightarrow> sn_number c = 0)"
proof -
  let ?t = "tree_order parents d children"
  have "length (filter (\<lambda>c. \<not> sn_null c) (numbered i cs)) = length (filter (\<lambda>c. \<not> sn_null c) cs)" for i cs
    by (induction i cs rule: numbered.induct) auto
  then show ?thesis unfolding Let_def renumber_docs_correct [OF assms] using numbered_counts [of 1 ?t] numbered_nulls [of _ 1 ?t]
    by simp
qed

definition demo_child :: "string \<Rightarrow> string \<Rightarrow> nat \<Rightarrow> store_node" where
  "demo_child u p i = \<lparr>sn_uid = u, sn_doc = ''d'', sn_group = ''g'', sn_parent = p, sn_null = False, sn_number = i\<rparr>"

theorem renumber_by_tree_witness:
  "map sn_number (map (write_back (renumber_docs [demo_child ''p'' [] 2, demo_child ''q'' [] 1] [''d'']
      [demo_child ''a'' ''p'' 1, demo_child ''b'' ''q'' 1]))
    (tree_order [demo_child ''p'' [] 2, demo_child ''q'' [] 1] ''d'' [demo_child ''a'' ''p'' 1, demo_child ''b'' ''q'' 1])) = [1, 2]"
proof -
  have t: "tree_order [demo_child ''p'' [] 2, demo_child ''q'' [] 1] ''d'' [demo_child ''a'' ''p'' 1, demo_child ''b'' ''q'' 1] =
      [demo_child ''b'' ''q'' 1, demo_child ''a'' ''p'' 1]" by code_simp
  have "filter (\<lambda>c. \<not> sn_null c) (map (write_back (renumber_docs [demo_child ''p'' [] 2, demo_child ''q'' [] 1] [''d'']
      [demo_child ''a'' ''p'' 1, demo_child ''b'' ''q'' 1])) [demo_child ''b'' ''q'' 1, demo_child ''a'' ''p'' 1]) =
    map (write_back (renumber_docs [demo_child ''p'' [] 2, demo_child ''q'' [] 1] [''d'']
      [demo_child ''a'' ''p'' 1, demo_child ''b'' ''q'' 1])) [demo_child ''b'' ''q'' 1, demo_child ''a'' ''p'' 1]"
    by code_simp
  then show ?thesis
    using renumber_by_tree [of "[demo_child ''a'' ''p'' 1, demo_child ''b'' ''q'' 1]" "[''d'']" "''d''"
        "[demo_child ''p'' [] 2, demo_child ''q'' [] 1]"]
    unfolding t Let_def by (simp add: demo_child_def eval_nat_numeral)
qed

end
