(* ===== verification/Configs.thy ===== *)
theory Configs
  imports PyText
begin

text \<open>
  The configuration (\<open>configs.py\<close>): entries that are registered with a type, a default, the environment
  variables they are read from, options and aliases; the instances that namespaces have; setting, refreshing and
  overriding for a block. Types are those of the entries of the package but lists and dictionaries.
\<close>

section \<open>Values and types\<close>

datatype cfg_mode = Display | Normal | Debug
datatype cfg_type = TBool | TInt | TStr | TMode
datatype cfg_val = CBool bool | CInt int | CStr string | CMode cfg_mode

text \<open>Python's \<open>None\<close> is \<open>None\<close>; a boolean is an instance of \<open>int\<close>.\<close>

fun isinst :: "cfg_val \<Rightarrow> cfg_type \<Rightarrow> bool" where
  "isinst (CBool b) t = (t = TBool \<or> t = TInt)"
| "isinst (CInt i) t = (t = TInt)"
| "isinst (CStr s) t = (t = TStr)"
| "isinst (CMode m) t = (t = TMode)"

fun py_eq :: "cfg_val \<Rightarrow> cfg_val \<Rightarrow> bool" where
  "py_eq (CBool b) (CInt i) = (of_bool b = i)"
| "py_eq (CInt i) (CBool b) = (of_bool b = i)"
| "py_eq v w = (v = w)"

definition upper_char :: "char \<Rightarrow> char" where
  "upper_char c = (if 97 \<le> code c \<and> code c \<le> 122 then char_of (code c - 32) else c)"

definition upper :: "string \<Rightarrow> string" where
  "upper s = map upper_char s"

text \<open>\<open>int(s)\<close> of a text: digits with single underscores between, a sign, and white space around.\<close>

fun int_digits :: "bool \<Rightarrow> string \<Rightarrow> string option" where
  "int_digits after [] = (if after then Some [] else None)"
| "int_digits after (c # cs) =
     (if c = CHR ''_'' then (if after then int_digits False cs else None)
      else if is_digit c then map_option (Cons c) (int_digits True cs)
      else None)"

definition int_of_text :: "string \<Rightarrow> int res" where
  "int_of_text s =
     (let t = strip s;
          (neg, t) = (case t of [] \<Rightarrow> (False, [])
                      | c # cs \<Rightarrow> if c = CHR ''-'' then (True, cs) else if c = CHR ''+'' then (False, cs) else (False, t))
      in case Option.bind (int_digits False t) parse_nat of
           None \<Rightarrow> Inl ValueError
         | Some n \<Rightarrow> Inr (if neg then - int n else int n))"

fun mode_text :: "cfg_mode \<Rightarrow> string" where
  "mode_text Display = ''Mode.Display''"
| "mode_text Normal = ''Mode.Normal''"
| "mode_text Debug = ''Mode.Debug''"

text \<open>The call of a type on a value; \<open>bool\<close> is not called.\<close>

fun convert :: "cfg_type \<Rightarrow> cfg_val \<Rightarrow> cfg_val res" where
  "convert TInt (CInt i) = Inr (CInt i)"
| "convert TInt (CBool b) = Inr (CInt (of_bool b))"
| "convert TInt (CStr s) = rbind (int_of_text s) (\<lambda>i. Inr (CInt i))"
| "convert TInt (CMode m) = Inl TypeError"
| "convert TStr (CStr s) = Inr (CStr s)"
| "convert TStr (CInt i) = Inr (CStr (show_int i))"
| "convert TStr (CBool b) = Inr (CStr (if b then ''True'' else ''False''))"
| "convert TStr (CMode m) = Inr (CStr (mode_text m))"
| "convert TMode (CMode m) = Inr (CMode m)"
| "convert TMode v = Inl ValueError"
| "convert TBool v = Inr v"

text \<open>What counts as set for a boolean, and what Python takes as true.\<close>

definition true_words :: "string list" where
  "true_words = [''TRUE'', ''true'', ''True'', ''ON'', ''On'', ''on'', ''1'', ''yes'', ''Yes'', ''Y'', ''y'']"

fun counts_true :: "cfg_val option \<Rightarrow> bool" where
  "counts_true None = False"
| "counts_true (Some (CBool b)) = b"
| "counts_true (Some (CInt i)) = (i = 1)"
| "counts_true (Some (CStr s)) = (s \<in> set true_words)"
| "counts_true (Some (CMode m)) = False"

fun truthy :: "cfg_val option \<Rightarrow> bool" where
  "truthy None = False"
| "truthy (Some (CBool b)) = b"
| "truthy (Some (CInt i)) = (i \<noteq> 0)"
| "truthy (Some (CStr s)) = (s \<noteq> [])"
| "truthy (Some (CMode m)) = True"

section \<open>Entries and instances\<close>

datatype env_spec =
    NoEnv
  | OneEnv string
  | EnvDict "(string \<times> cfg_val option) list"
  | EnvList "string list"

record meta =
  cm_type :: cfg_type
  cm_default :: "cfg_val option"
  cm_env :: env_spec
  cm_options :: "cfg_val list option"
  cm_description :: "string option"
  cm_alias :: "(string \<times> cfg_val option) list option"
  cm_post_action :: "nat option"

type_synonym metas = "(string \<times> meta) list"
type_synonym environ = "(string \<times> string) list"

text \<open>An instance, with what its file still holds; and the calls of actions, which are numbers here.\<close>

record config =
  cf_prefix :: string
  cf_home :: string
  cf_impl :: "string \<Rightarrow> cfg_val option option"
  cf_cfgs :: "(string \<times> cfg_val option) list"

record cfg_run =
  cr_config :: config
  cr_posts :: "(nat \<times> cfg_val option) list"

definition put :: "string \<Rightarrow> cfg_val option \<Rightarrow> (cfg_run, unit) sx" where
  "put name v = supd (\<lambda>r. r\<lparr>cr_config := (cr_config r)\<lparr>cf_impl := (cf_impl (cr_config r))(name \<mapsto> v)\<rparr>\<rparr>)"

text \<open>The stored value; an entry without one reads as \<open>None\<close>.\<close>

definition held :: "string \<Rightarrow> cfg_run \<Rightarrow> cfg_val option" where
  "held name r = (case cf_impl (cr_config r) name of None \<Rightarrow> None | Some v \<Rightarrow> v)"

definition getenv :: "environ \<Rightarrow> string \<Rightarrow> string \<Rightarrow> cfg_type \<Rightarrow> cfg_val option \<Rightarrow> cfg_val option res" where
  "getenv env prefix name t dflt =
     (let r = (case map_of env (prefix @ ''_'' @ upper name) of Some s \<Rightarrow> Some (CStr s) | None \<Rightarrow> dflt)
      in if t = TBool then Inr (Some (CBool (counts_true r)))
         else case r of None \<Rightarrow> Inr None | Some v \<Rightarrow> rbind (convert t v) (\<lambda>w. Inr (Some w)))"

text \<open>The first flag that is set, and the first variable with a value that is true.\<close>

fun flag_value :: "environ \<Rightarrow> string \<Rightarrow> (string \<times> cfg_val option) list \<Rightarrow> cfg_val option \<Rightarrow> cfg_val option" where
  "flag_value env prefix [] v = v"
| "flag_value env prefix ((k, w) # kvs) v =
     (if getenv env prefix k TBool None = Inr (Some (CBool True)) then w else flag_value env prefix kvs v)"

fun first_value :: "environ \<Rightarrow> string \<Rightarrow> cfg_type \<Rightarrow> string list \<Rightarrow> cfg_val option \<Rightarrow> cfg_val option res" where
  "first_value env prefix t [] v = Inr v"
| "first_value env prefix t (k # ks) v =
     rbind (getenv env prefix k t None) (\<lambda>w. if truthy w then Inr w else first_value env prefix t ks v)"

definition from_env :: "environ \<Rightarrow> string \<Rightarrow> cfg_type \<Rightarrow> env_spec \<Rightarrow> cfg_val option \<Rightarrow> cfg_val option res" where
  "from_env env prefix t spec v =
     (case spec of
        NoEnv \<Rightarrow> Inr v
      | OneEnv n \<Rightarrow> if n = [] then Inr v else getenv env prefix n t v
      | EnvDict kvs \<Rightarrow> Inr (flag_value env prefix kvs v)
      | EnvList ks \<Rightarrow> first_value env prefix t ks v)"

definition has_type :: "cfg_type \<Rightarrow> cfg_val option \<Rightarrow> bool" where
  "has_type t v \<longleftrightarrow> (case v of None \<Rightarrow> True | Some w \<Rightarrow> isinst w t)"

definition check_type :: "cfg_type \<Rightarrow> cfg_val option \<Rightarrow> unit res" where
  "check_type t v = ensure (has_type t v) TypeError"

fun alias_of :: "(string \<times> cfg_val option) list \<Rightarrow> string \<Rightarrow> cfg_val option option" where
  "alias_of [] s = None"
| "alias_of ((k, v) # kvs) s = (if lower k = lower s then Some v else alias_of kvs s)"

definition option_texts :: "cfg_val list \<Rightarrow> string list" where
  "option_texts opts = concat (map (\<lambda>v. case v of CStr s \<Rightarrow> [lower s] | _ \<Rightarrow> []) opts)"

definition allowed :: "cfg_val list \<Rightarrow> cfg_val \<Rightarrow> bool" where
  "allowed opts v =
     (case v of
        CStr s \<Rightarrow> if option_texts opts \<noteq> [] then lower s \<in> set (option_texts opts) else v \<in> set opts
      | _ \<Rightarrow> list_ex (py_eq v) opts)"

definition resolved_alias :: "meta \<Rightarrow> cfg_val option \<Rightarrow> cfg_val option option" where
  "resolved_alias m raw =
     (case (cm_alias m, raw) of (Some kvs, Some (CStr s)) \<Rightarrow> alias_of kvs s | _ \<Rightarrow> None)"

definition apply_alias_and_validate :: "metas \<Rightarrow> string \<Rightarrow> (cfg_run, unit) sx" where
  "apply_alias_and_validate metas name r =
     (case map_of metas name of
        None \<Rightarrow> (Inr (), r)
      | Some m \<Rightarrow>
          (case resolved_alias m (held name r) of
             Some v \<Rightarrow> put name v r
           | None \<Rightarrow>
               (case cm_options m of
                  None \<Rightarrow> (Inr (), r)
                | Some opts \<Rightarrow>
                    (case held name r of
                       None \<Rightarrow> put name (cm_default m) r
                     | Some v \<Rightarrow>
                         if v = CStr [] then put name (cm_default m) r
                         else (ensure (allowed opts v) ValueError, r)))))"

definition fire_post_action :: "metas \<Rightarrow> string \<Rightarrow> (cfg_run, unit) sx" where
  "fire_post_action metas name r =
     (case Option.bind (map_of metas name) cm_post_action of
        None \<Rightarrow> (Inr (), r)
      | Some f \<Rightarrow> (Inr (), r\<lparr>cr_posts := cr_posts r @ [(f, held name r)]\<rparr>))"

text \<open>The value that an entry starts from: the file's, which is used up, or the default.\<close>

definition first_cell :: "string \<Rightarrow> cfg_val option \<Rightarrow> (cfg_run, unit) sx" where
  "first_cell name dflt r =
     (let c = cr_config r
      in case map_of (cf_cfgs c) name of
           Some v \<Rightarrow> put name v (r\<lparr>cr_config := c\<lparr>cf_cfgs := AList.delete name (cf_cfgs c)\<rparr>\<rparr>)
         | None \<Rightarrow> put name (if name = ''home'' then Some (CStr (cf_home c)) else dflt) r)"

definition update_impl ::
    "environ \<Rightarrow> metas \<Rightarrow> string \<Rightarrow> cfg_type \<Rightarrow> cfg_val option \<Rightarrow> env_spec \<Rightarrow> (cfg_run, unit) sx" where
  "update_impl env metas name t dflt spec =
     sbind (first_cell name dflt) (\<lambda>_.
     sbind (\<lambda>r. sbind (slift (from_env env (cf_prefix (cr_config r)) t spec (held name r))) (put name) r) (\<lambda>_.
     sbind (\<lambda>r. (check_type t (held name r), r)) (\<lambda>_.
     sbind (apply_alias_and_validate metas name) (\<lambda>_.
     fire_post_action metas name))))"

definition normalize_name :: "string \<Rightarrow> string \<Rightarrow> string" where
  "normalize_name prefix n =
     (let p = lower prefix @ ''_''; l = lower n in if starts_with p l then drop (length p) l else l)"

definition setitem :: "metas \<Rightarrow> string \<Rightarrow> cfg_val option \<Rightarrow> (cfg_run, unit) sx" where
  "setitem metas n v r =
     (let name = normalize_name (cf_prefix (cr_config r)) n
      in case cf_impl (cr_config r) name of
           None \<Rightarrow> (Inl KeyError, r)
         | Some _ \<Rightarrow>
             sbind (slift (case map_of metas name of None \<Rightarrow> Inr () | Some m \<Rightarrow> check_type (cm_type m) v)) (\<lambda>_.
             sbind (put name v) (\<lambda>_.
             sbind (apply_alias_and_validate metas name) (\<lambda>_.
             fire_post_action metas name))) r)"

definition getitem :: "string \<Rightarrow> config \<Rightarrow> cfg_val option res" where
  "getitem n c = of_opt KeyError (cf_impl c (normalize_name (cf_prefix c) n))"

section \<open>Registration and instances\<close>

text \<open>
  The registered entries, the entries by the names of their variables, the instances by their prefixes in lower case,
  and the calls of actions.
\<close>

record cfg_state =
  cs_metas :: metas
  cs_env_names :: "(string \<times> string) list"
  cs_instances :: "(string \<times> config) list"
  cs_posts :: "(nat \<times> cfg_val option) list"

text \<open>An operation on one instance, which keeps what it did when it raises.\<close>

definition on_instance :: "string \<Rightarrow> (cfg_run, unit) sx \<Rightarrow> (cfg_state, unit) sx" where
  "on_instance p f s =
     (case map_of (cs_instances s) p of
        None \<Rightarrow> (Inl KeyError, s)
      | Some c \<Rightarrow>
          (case f \<lparr>cr_config = c, cr_posts = cs_posts s\<rparr> of
             (res, r) \<Rightarrow> (res, s\<lparr>cs_instances := AList.update p (cr_config r) (cs_instances s), cs_posts := cr_posts r\<rparr>)))"

definition env_falsy :: "env_spec \<Rightarrow> bool" where
  "env_falsy e \<longleftrightarrow> e = NoEnv \<or> e = OneEnv [] \<or> e = EnvDict [] \<or> e = EnvList []"

definition env_keys :: "env_spec \<Rightarrow> string list" where
  "env_keys e = (case e of NoEnv \<Rightarrow> [] | OneEnv n \<Rightarrow> [n] | EnvDict kvs \<Rightarrow> map fst kvs | EnvList ks \<Rightarrow> ks)"

text \<open>The registration of an entry that is new or differs: without a variable, its name is the variable.\<close>

definition register :: "string \<Rightarrow> meta \<Rightarrow> cfg_state \<Rightarrow> env_spec \<times> cfg_state" where
  "register name m s =
     (if map_of (cs_metas s) name = Some m then (cm_env m, s)
      else
        let spec = (if env_falsy (cm_env m) then OneEnv (lower name) else cm_env m)
        in (spec, s\<lparr>cs_metas := AList.update name m (cs_metas s),
              cs_env_names := fold (\<lambda>k. AList.update (lower k) name) (env_keys spec) (cs_env_names s)\<rparr>))"

definition meta_add :: "environ \<Rightarrow> string \<Rightarrow> meta \<Rightarrow> (cfg_state, unit) sx" where
  "meta_add env name m s =
     (case register name m s of (spec, s) \<Rightarrow>
        sfor (\<lambda>p s. on_instance p (update_impl env (cs_metas s) name (cm_type m) (cm_default m) spec) s)
          (map fst (cs_instances s)) s)"

text \<open>The names that the class has itself.\<close>

definition class_names :: "string list" where
  "class_names = [''__module__'', ''__init__'', ''add'', ''getenv'', ''get_config'', ''get_all_configs'', ''done'', ''temp'',
     ''_update_impl'', ''_apply_alias_and_validate'', ''_fire_post_action'', ''_normalize_name'', ''__setitem__'',
     ''__getitem__'', ''__str__'', ''_envs'', ''refresh'', ''__dict__'', ''__weakref__'', ''__doc__'']"

definition config_add :: "environ \<Rightarrow> string \<Rightarrow> meta \<Rightarrow> (cfg_state, unit) sx" where
  "config_add env n m s =
     (let name = lower n in if name \<in> set class_names then (Inl RuntimeError, s) else meta_add env name m s)"

definition join_path :: "string \<Rightarrow> string \<Rightarrow> string" where
  "join_path d f = (if d = [] \<or> last d = CHR ''/'' then d @ f else d @ ''/'' @ f)"

text \<open>
  The constructor. \<open>user_home\<close> is the expanded path of the user's directory, \<open>exists\<close> tells which files there are; the
  configuration file is given to the reader of JSON texts as an open file, which is a type error.
\<close>

definition new_config ::
    "environ \<Rightarrow> string \<Rightarrow> (string \<Rightarrow> bool) \<Rightarrow> string \<Rightarrow> metas \<Rightarrow> (nat \<times> cfg_val option) list \<Rightarrow> (exn + unit) \<times> cfg_run" where
  "new_config env user_home exists prefix metas posts =
     (let p = upper prefix;
          home = join_path user_home (if p = ''LAZYLLM'' then ''.lazyllm'' else ''.lazyllm_'' @ lower prefix);
          r0 = \<lparr>cr_config = \<lparr>cf_prefix = p, cf_home = home, cf_impl = Map.empty, cf_cfgs = []\<rparr>, cr_posts = posts\<rparr>
      in sbind (update_impl env metas ''home'' TStr None (OneEnv ''HOME'')) (\<lambda>_.
         sbind (\<lambda>r. (case held ''home'' r of
                       Some (CStr h) \<Rightarrow> ensure (\<not> exists (join_path h ''config.json'')) TypeError
                     | _ \<Rightarrow> Inl TypeError, r)) (\<lambda>_.
         sfor (\<lambda>(name, m). update_impl env metas name (cm_type m) (cm_default m) (cm_env m))
           (filter (\<lambda>(name, m). name \<noteq> ''home'') metas))) r0)"

definition get_instance :: "environ \<Rightarrow> string \<Rightarrow> (string \<Rightarrow> bool) \<Rightarrow> string \<Rightarrow> (cfg_state, unit) sx" where
  "get_instance env user_home exists prefix s =
     (if map_of (cs_instances s) (lower prefix) \<noteq> None then (Inr (), s)
      else
        (case new_config env user_home exists prefix (cs_metas s) (cs_posts s) of
           (Inl e, r) \<Rightarrow> (Inl e, s\<lparr>cs_posts := cr_posts r\<rparr>)
         | (Inr _, r) \<Rightarrow>
             (Inr (), s\<lparr>cs_instances := AList.update (lower prefix) (cr_config r) (cs_instances s), cs_posts := cr_posts r\<rparr>)))"

section \<open>Refreshing\<close>

datatype targets = AllTargets | OneTarget string | Targets "string list"

definition env_names :: "string \<Rightarrow> cfg_state \<Rightarrow> string list" where
  "env_names prefix s = map (\<lambda>(e, _). lower (prefix @ ''_'' @ e)) (cs_env_names s)"

text \<open>Whether a name is an instance, or starts with the prefix of one.\<close>

definition in_class :: "cfg_state \<Rightarrow> string \<Rightarrow> bool" where
  "in_class s key \<longleftrightarrow> map_of (cs_instances s) (lower key) \<noteq> None \<or>
     (CHR ''_'' \<in> set key \<and> map_of (cs_instances s) (lower (takeWhile (\<lambda>c. c \<noteq> CHR ''_'') key)) \<noteq> None)"

definition refresh_one :: "environ \<Rightarrow> string \<Rightarrow> string \<Rightarrow> string \<Rightarrow> (cfg_state, unit) sx" where
  "refresh_one env p prefix n s =
     (let update = (\<lambda>name s.
          case map_of (cs_metas s) name of
            None \<Rightarrow> (Inl KeyError, s)
          | Some m \<Rightarrow>
              (case map_of (cs_instances s) p of
                 None \<Rightarrow> (Inl KeyError, s)
               | Some c \<Rightarrow>
                   if cf_impl c name \<noteq> None
                   then on_instance p (update_impl env (cs_metas s) name (cm_type m) (cm_default m) (cm_env m)) s
                   else (Inr (), s)))
      in if lower n \<in> set (env_names prefix s) then
           (case map_of (cs_env_names s) (drop (length prefix + 1) n) of
              None \<Rightarrow> (Inl KeyError, s)
            | Some name \<Rightarrow> update name s)
         else if in_class s n then (Inr (), s)
         else update n s)"

definition refresh :: "environ \<Rightarrow> string \<Rightarrow> targets \<Rightarrow> (cfg_state, unit) sx" where
  "refresh env p ts s =
     (case map_of (cs_instances s) p of
        None \<Rightarrow> (Inl KeyError, s)
      | Some c \<Rightarrow>
          let prefix = cf_prefix c;
              names = (case ts of
                 AllTargets \<Rightarrow> filter (\<lambda>k. k \<in> set (env_names prefix s)) (map (\<lambda>(k, _). lower k) env)
               | OneTarget t \<Rightarrow> [lower t]
               | Targets ns \<Rightarrow> ns)
          in sfor (refresh_one env p prefix) names s)"

text \<open>What the assignment of an environment variable calls.\<close>

definition refresh_config :: "environ \<Rightarrow> string \<Rightarrow> (cfg_state, unit) sx" where
  "refresh_config env key s =
     (if in_class s key then refresh env (lower (takeWhile (\<lambda>c. c \<noteq> CHR ''_'') key)) (OneTarget key) s else (Inr (), s))"

section \<open>Overriding for a block\<close>

text \<open>
  A block is a computation on the state. Both context managers are generators without a handler: when the block
  raises, what stands after the yield does not run.
\<close>

definition temp :: "string \<Rightarrow> string \<Rightarrow> cfg_val option \<Rightarrow> (cfg_state, unit) sx \<Rightarrow> (cfg_state, unit) sx" where
  "temp p name v block s =
     (case map_of (cs_instances s) p of
        None \<Rightarrow> (Inl KeyError, s)
      | Some c \<Rightarrow>
          sbind (slift (getitem name c)) (\<lambda>old.
          sbind (\<lambda>s. on_instance p (setitem (cs_metas s) name v) s) (\<lambda>_.
          sbind block (\<lambda>_.
          (\<lambda>s. on_instance p (setitem (cs_metas s) name old) s)))) s)"

text \<open>What the current thread uses: a namespace, or the default.\<close>

record ns_state =
  ns_current :: "string option"
  ns_configs :: cfg_state

definition namespace :: "environ \<Rightarrow> string \<Rightarrow> (string \<Rightarrow> bool) \<Rightarrow> string \<Rightarrow> (ns_state, unit) sx \<Rightarrow> (ns_state, unit) sx" where
  "namespace env user_home exists space block n =
     (let old = ns_current n
      in case get_instance env user_home exists space (ns_configs n) of
           (Inl e, s) \<Rightarrow> (Inl e, n\<lparr>ns_configs := s\<rparr>)
         | (Inr _, s) \<Rightarrow>
             sbind block (\<lambda>_. supd (\<lambda>n. n\<lparr>ns_current := old\<rparr>)) (n\<lparr>ns_configs := s, ns_current := Some (lower space)\<rparr>))"

end
