(* ===== verification/ConfigProps.thy ===== *)
theory ConfigProps
  imports Configs
begin

text \<open>
  What the configuration guarantees: values have the type of their entries after any sequence of operations, whether they raised or not,
  when the entries are registered with defaults, flags and aliases of their types; what an assignment does in each case; and where the code departs from what it says.
\<close>

section \<open>Operations that keep a property of the state\<close>

definition keeps :: "('s \<Rightarrow> bool) \<Rightarrow> ('s, 'a) sx \<Rightarrow> bool" where
  "keeps P m \<longleftrightarrow> (\<forall>s. P s \<longrightarrow> P (snd (m s)))"

named_theorems keep \<open>operations that keep a property, whether they raise or not\<close>

lemma keepsI: "(\<And>s. P s \<Longrightarrow> P (snd (m s))) \<Longrightarrow> keeps P m"
  by (simp add: keeps_def)

lemma keepsD: "keeps P m \<Longrightarrow> P s \<Longrightarrow> P (snd (m s))"
  by (simp add: keeps_def)

lemma keeps_pure [keep]: "keeps P (slift r)" "keeps P (sret a)" "keeps P (\<lambda>s. (f s, s))"
  by (simp_all add: keeps_def)

lemma keeps_sbind [keep]: "keeps P m \<Longrightarrow> (\<And>a. keeps P (f a)) \<Longrightarrow> keeps P (sbind m f)"
  by (fastforce simp: keeps_def sbind_def split: prod.splits sum.splits)

lemma keeps_sfor [keep]: "(\<And>x. x \<in> set xs \<Longrightarrow> keeps P (f x)) \<Longrightarrow> keeps P (sfor f xs)"
  by (induction xs) (auto intro: keeps_pure keeps_sbind)

section \<open>Types\<close>

lemma convert_type: "convert t v = Inr w \<Longrightarrow> t \<noteq> TBool \<Longrightarrow> isinst w t"
  by (induction t v rule: convert.induct) (auto simp: rbind_eq_Inr)

lemma getenv_type: "getenv env prefix n t v = Inr w \<Longrightarrow> has_type t w"
  by (auto simp: getenv_def has_type_def Let_def rbind_eq_Inr convert_type split: if_splits option.splits)

definition env_typed :: "cfg_type \<Rightarrow> env_spec \<Rightarrow> bool" where
  "env_typed t e \<longleftrightarrow> (case e of EnvDict kvs \<Rightarrow> list_all (\<lambda>(k, v). has_type t v) kvs | _ \<Rightarrow> True)"

definition meta_ok :: "meta \<Rightarrow> bool" where
  "meta_ok m \<longleftrightarrow> has_type (cm_type m) (cm_default m) \<and> env_typed (cm_type m) (cm_env m) \<and>
     (case cm_alias m of None \<Rightarrow> True | Some kvs \<Rightarrow> list_all (\<lambda>(k, v). has_type (cm_type m) v) kvs)"

lemma flag_value_type: "list_all (\<lambda>(k, v). has_type t v) kvs \<Longrightarrow> has_type t v \<Longrightarrow> has_type t (flag_value env prefix kvs v)"
  by (induction env prefix kvs v rule: flag_value.induct) auto

lemma first_value_type: "first_value env prefix t ks v = Inr w \<Longrightarrow> has_type t v \<Longrightarrow> has_type t w"
  by (induction env prefix t ks v rule: first_value.induct) (auto simp: rbind_eq_Inr getenv_type split: if_splits)

lemma from_env_type: "from_env env prefix t e v = Inr w \<Longrightarrow> has_type t v \<Longrightarrow> env_typed t e \<Longrightarrow> has_type t w"
  by (auto simp: from_env_def env_typed_def intro: getenv_type flag_value_type first_value_type split: env_spec.splits if_splits)

lemma alias_type: "alias_of kvs s = Some v \<Longrightarrow> list_all (\<lambda>(k, v). has_type t v) kvs \<Longrightarrow> has_type t v"
  by (induction kvs s rule: alias_of.induct) (auto split: if_splits)

text \<open>The registered types, and instances whose values have them.\<close>

definition metas_typed :: "(string \<Rightarrow> cfg_type) \<Rightarrow> metas \<Rightarrow> bool" where
  "metas_typed ty metas \<longleftrightarrow> (\<forall>n m. map_of metas n = Some m \<longrightarrow> cm_type m = ty n \<and> meta_ok m)"

lemma metas_typedD:
  assumes "metas_typed ty metas" and "map_of metas n = Some m"
  shows "cm_type m = ty n" "meta_ok m" "has_type (ty n) (cm_default m)" "env_typed (ty n) (cm_env m)"
proof -
  show t: "cm_type m = ty n" "meta_ok m" using assms by (auto simp: metas_typed_def)
  show "has_type (ty n) (cm_default m)" "env_typed (ty n) (cm_env m)" using t by (auto simp: meta_ok_def)
qed

definition config_typed :: "(string \<Rightarrow> cfg_type) \<Rightarrow> metas \<Rightarrow> config \<Rightarrow> bool" where
  "config_typed ty metas c \<longleftrightarrow> cf_cfgs c = [] \<and>
     (\<forall>n v. cf_impl c n = Some v \<longrightarrow> map_of metas n \<noteq> None \<and> has_type (ty n) v)"

abbreviation run_typed :: "(string \<Rightarrow> cfg_type) \<Rightarrow> metas \<Rightarrow> cfg_run \<Rightarrow> bool" where
  "run_typed ty metas r \<equiv> config_typed ty metas (cr_config r)"

lemma put_typed [keep]: "has_type (ty n) v \<Longrightarrow> map_of metas n \<noteq> None \<Longrightarrow> keeps (run_typed ty metas) (put n v)"
  by (auto simp: keeps_def put_def config_typed_def)

lemma held_type: "run_typed ty metas r \<Longrightarrow> has_type (ty n) (held n r)"
  by (cases "cf_impl (cr_config r) n") (auto simp: held_def config_typed_def has_type_def)

lemma alias_and_validate_typed [keep]:
  assumes "metas_typed ty metas"
  shows "keeps (run_typed ty metas) (apply_alias_and_validate metas n)"
proof (rule keepsI)
  fix r
  assume r: "run_typed ty metas r"
  show "run_typed ty metas (snd (apply_alias_and_validate metas n r))"
  proof (cases "map_of metas n")
    case (Some m)
    then have m: "cm_type m = ty n" "meta_ok m" using assms by (auto simp: metas_typed_def)
    then have d: "has_type (ty n) (cm_default m)" by (auto simp: meta_ok_def)
    have a: "has_type (ty n) v" if "resolved_alias m (held n r) = Some v" for v
      using that m by (auto simp: resolved_alias_def meta_ok_def intro: alias_type split: option.splits cfg_val.splits)
    have put: "run_typed ty metas (snd (put n v r))" if "has_type (ty n) v" for v
      using keepsD [OF put_typed [of ty n v metas] r] that Some by simp
    then show ?thesis using Some a d r
      by (auto simp: apply_alias_and_validate_def split: option.splits)
  qed (simp add: apply_alias_and_validate_def r)
qed

lemma fire_typed [keep]: "keeps (run_typed ty metas) (fire_post_action metas' n)"
  by (auto simp: keeps_def fire_post_action_def split: option.splits)

lemma update_impl_typed [keep]:
  assumes "metas_typed ty metas" and "map_of metas n = Some m" and "has_type (ty n) d" and "env_typed (ty n) e"
    and "n = ''home'' \<Longrightarrow> ty n = TStr"
  shows "keeps (run_typed ty metas) (update_impl env metas n (ty n) d e)"
proof -
  have n: "map_of metas n \<noteq> None" using assms(2) by simp
  have "keeps (run_typed ty metas) (first_cell n d)"
  proof (rule keepsI)
    fix r
    assume r: "run_typed ty metas r"
    have "has_type (ty n) (if n = ''home'' then Some (CStr (cf_home (cr_config r))) else d)"
      using assms(3,5) by (auto simp: has_type_def)
    note k = keepsD [OF put_typed [of ty n "if n = ''home'' then Some (CStr (cf_home (cr_config r))) else d" metas, OF this n] r]
    from k r show "run_typed ty metas (snd (first_cell n d r))"
      by (simp add: first_cell_def config_typed_def Let_def)
  qed
  moreover have "keeps (run_typed ty metas)
      (\<lambda>r. sbind (slift (from_env env (cf_prefix (cr_config r)) (ty n) e (held n r))) (put n) r)"
  proof (rule keepsI)
    fix r
    assume r: "run_typed ty metas r"
    show "run_typed ty metas (snd (sbind (slift (from_env env (cf_prefix (cr_config r)) (ty n) e (held n r))) (put n) r))"
    proof (cases "from_env env (cf_prefix (cr_config r)) (ty n) e (held n r)")
      case (Inr w)
      have "has_type (ty n) w" by (rule from_env_type [OF Inr held_type [OF r] assms(4)])
      from keepsD [OF put_typed [of ty n w metas, OF this n] r] show ?thesis using Inr by (simp add: sbind_def)
    qed (simp add: sbind_def r)
  qed
  ultimately show ?thesis unfolding update_impl_def
    by (intro keeps_sbind keeps_pure alias_and_validate_typed fire_typed assms(1))
qed

lemma setitem_typed [keep]:
  assumes "metas_typed ty metas"
  shows "keeps (run_typed ty metas) (setitem metas n v)"
proof (rule keepsI)
  fix r
  assume r: "run_typed ty metas r"
  let ?n = "normalize_name (cf_prefix (cr_config r)) n"
  show "run_typed ty metas (snd (setitem metas n v r))"
  proof (cases "cf_impl (cr_config r) ?n")
    case (Some w)
    then obtain m where m: "map_of metas ?n = Some m" using r by (fastforce simp: config_typed_def)
    then have t: "cm_type m = ty ?n" using assms by (simp add: metas_typed_def)
    show ?thesis
    proof (cases "has_type (ty ?n) v")
      case True
      have "keeps (run_typed ty metas) (sbind (put ?n v) (\<lambda>_. sbind (apply_alias_and_validate metas ?n) (\<lambda>_. fire_post_action metas ?n)))"
        using m by (intro keeps_sbind put_typed True alias_and_validate_typed fire_typed assms) simp
      from keepsD [OF this r] show ?thesis using Some m t True by (simp add: setitem_def Let_def check_type_def)
    next
      case False
      then show ?thesis using Some m t r by (simp add: setitem_def Let_def check_type_def)
    qed
  qed (simp add: setitem_def Let_def r)
qed

section \<open>All instances\<close>

definition state_typed :: "(string \<Rightarrow> cfg_type) \<Rightarrow> cfg_state \<Rightarrow> bool" where
  "state_typed ty s \<longleftrightarrow> ty ''home'' = TStr \<and> metas_typed ty (cs_metas s) \<and> map_of (cs_metas s) ''home'' \<noteq> None \<and>
     distinct (map fst (cs_metas s)) \<and>
     (\<forall>p c. map_of (cs_instances s) p = Some c \<longrightarrow> config_typed ty (cs_metas s) c)"

text \<open>A state with the same entries.\<close>

abbreviation typed_with :: "(string \<Rightarrow> cfg_type) \<Rightarrow> metas \<Rightarrow> cfg_state \<Rightarrow> bool" where
  "typed_with ty metas s \<equiv> cs_metas s = metas \<and> state_typed ty s"

lemma on_instance_typed:
  assumes "keeps (run_typed ty metas) f"
  shows "keeps (typed_with ty metas) (on_instance p f)"
proof (rule keepsI)
  fix s
  assume s: "typed_with ty metas s"
  show "typed_with ty metas (snd (on_instance p f s))"
  proof (cases "map_of (cs_instances s) p")
    case (Some c)
    obtain res r where f: "f \<lparr>cr_config = c, cr_posts = cs_posts s\<rparr> = (res, r)" by fastforce
    have "config_typed ty metas c" using s Some by (auto simp: state_typed_def)
    then have "config_typed ty metas (cr_config r)" using keepsD [OF assms, of "\<lparr>cr_config = c, cr_posts = cs_posts s\<rparr>"] f by simp
    then show ?thesis using s Some f by (auto simp: on_instance_def state_typed_def)
  qed (simp add: on_instance_def s)
qed

lemma update_meta_typed:
  assumes "typed_with ty metas s" and "map_of metas n = Some m" and "env_typed (ty n) e"
  shows "keeps (typed_with ty metas) (on_instance p (update_impl env metas n (cm_type m) (cm_default m) e))"
proof -
  have m: "metas_typed ty metas" "ty ''home'' = TStr" using assms(1) by (auto simp: state_typed_def)
  note t = metas_typedD(1,3) [OF m(1) assms(2)]
  have h: "n = ''home'' \<Longrightarrow> ty n = TStr" using m(2) by simp
  show ?thesis unfolding t(1) by (rule on_instance_typed [OF update_impl_typed [OF m(1) assms(2) t(2) assms(3) h]])
qed

lemma meta_typed: "typed_with ty metas s \<Longrightarrow> map_of metas n = Some m \<Longrightarrow> env_typed (ty n) (cm_env m)"
  using metas_typedD(4) by (auto simp: state_typed_def)

lemma refresh_one_typed: "keeps (typed_with ty metas) (refresh_one env p prefix n)"
proof (rule keepsI)
  fix s
  assume s: "typed_with ty metas s"
  have upd: "typed_with ty metas (snd (on_instance p (update_impl env metas k (cm_type m) (cm_default m) (cm_env m)) s))"
    if "map_of metas k = Some m" for k m
    using keepsD [OF update_meta_typed [OF s that meta_typed [OF s that]] s] .
  show "typed_with ty metas (snd (refresh_one env p prefix n s))"
    using s upd by (auto simp: refresh_one_def Let_def split: option.splits)
qed

lemma refresh_typed: "keeps (typed_with ty metas) (refresh env p ts)"
proof (rule keepsI)
  fix s
  assume s: "typed_with ty metas s"
  have "keeps (typed_with ty metas) (sfor (refresh_one env p prefix) names)" for prefix names
    by (intro keeps_sfor refresh_one_typed)
  from keepsD [OF this s] show "typed_with ty metas (snd (refresh env p ts s))"
    using s by (auto simp: refresh_def Let_def split: option.splits)
qed

lemma set_typed: "keeps (typed_with ty metas) (\<lambda>s. on_instance p (setitem (cs_metas s) n v) s)"
proof (rule keepsI)
  fix s
  assume s: "typed_with ty metas s"
  then have "metas_typed ty metas" by (auto simp: state_typed_def)
  from keepsD [OF on_instance_typed [OF setitem_typed [OF this]] s]
  show "typed_with ty metas (snd (on_instance p (setitem (cs_metas s) n v) s))" using s by auto
qed

lemma config_typed_mono:
  "config_typed ty metas c \<Longrightarrow> (\<And>n. map_of metas n \<noteq> None \<Longrightarrow> map_of metas' n \<noteq> None) \<Longrightarrow> config_typed ty metas' c"
  by (auto simp: config_typed_def)

lemma register_typed:
  assumes "state_typed ty s" and "cm_type m = ty n" and "meta_ok m" and "register n m s = (spec, s')"
  shows "state_typed ty s'" "map_of (cs_metas s') n = Some m" "env_typed (ty n) spec"
proof -
  have r: "cs_instances s' = cs_instances s" "cs_metas s' = cs_metas s \<or> cs_metas s' = AList.update n m (cs_metas s)"
    using assms(4) by (auto simp: register_def Let_def split: if_splits)
  show n: "map_of (cs_metas s') n = Some m" using assms(4) by (auto simp: register_def Let_def split: if_splits)
  have e: "env_typed (ty n) (OneEnv k)" for k by (simp add: env_typed_def)
  show "env_typed (ty n) spec" using assms(2-4) e by (auto simp: register_def Let_def meta_ok_def split: if_splits)
  note st = assms(1) [unfolded state_typed_def]
  have mono: "map_of (cs_metas s) k \<noteq> None \<Longrightarrow> map_of (cs_metas s') k \<noteq> None" for k using r(2) by auto
  have "metas_typed ty (cs_metas s)" using st by blast
  then have 1: "metas_typed ty (cs_metas s')" using assms(2,3) r(2) by (auto simp: metas_typed_def split: if_splits)
  have 2: "map_of (cs_metas s') ''home'' \<noteq> None" using st mono by blast
  have 3: "distinct (map fst (cs_metas s'))" using st r(2) distinct_fst_update [of "cs_metas s" n m] by auto
  have "config_typed ty (cs_metas s') c" if "map_of (cs_instances s') p = Some c" for p c
    using config_typed_mono [of ty "cs_metas s" c "cs_metas s'", OF _ mono] st that r(1) by simp
  then show "state_typed ty s'" using st 1 2 3 unfolding state_typed_def by simp
qed

lemma meta_add_typed:
  assumes "state_typed ty s" and "cm_type m = ty n" and "meta_ok m"
  shows "state_typed ty (snd (meta_add env n m s))"
proof -
  obtain spec s' where r: "register n m s = (spec, s')" by fastforce
  note t = register_typed [OF assms r]
  have "keeps (typed_with ty (cs_metas s')) (\<lambda>t. on_instance p (update_impl env (cs_metas t) n (cm_type m) (cm_default m) spec) t)" for p
    using keepsD [OF update_meta_typed [of s' "cs_metas s'" ty n m spec, OF _ t(2,3)]] t(1) by (auto simp: keeps_def)
  then have "keeps (typed_with ty (cs_metas s'))
      (sfor (\<lambda>p t. on_instance p (update_impl env (cs_metas t) n (cm_type m) (cm_default m) spec) t) (map fst (cs_instances s')))"
    by (intro keeps_sfor)
  from keepsD [OF this, of s'] show ?thesis using t(1) by (simp add: meta_add_def r)
qed

lemma new_config_typed:
  assumes "state_typed ty s"
  shows "run_typed ty (cs_metas s) (snd (new_config env user_home exists prefix (cs_metas s) posts))"
proof -
  let ?m = "cs_metas s"
  obtain h where m: "metas_typed ty ?m" "ty ''home'' = TStr" "map_of ?m ''home'' = Some h" "distinct (map fst ?m)"
    using assms by (auto simp: state_typed_def)
  have home: "keeps (run_typed ty ?m) (update_impl env ?m ''home'' TStr None (OneEnv ''HOME''))"
    using update_impl_typed [of ty ?m "''home''" h None "OneEnv ''HOME''" env, OF m(1,3)] m(2) by (simp add: has_type_def env_typed_def)
  have entry: "keeps (run_typed ty ?m) (case x of (n, e) \<Rightarrow> update_impl env ?m n (cm_type e) (cm_default e) (cm_env e))"
    if x: "x \<in> set (filter (\<lambda>(n, e). n \<noteq> ''home'') ?m)" for x
  proof -
    have e: "map_of ?m (fst x) = Some (snd x)" using x m(4) by auto
    have h: "fst x = ''home'' \<Longrightarrow> ty (fst x) = TStr" using m(2) by simp
    show ?thesis using update_impl_typed [OF m(1) e metas_typedD(3,4) [OF m(1) e] h]
      by (simp add: case_prod_beta metas_typedD(1) [OF m(1) e])
  qed
  have "run_typed ty ?m \<lparr>cr_config = \<lparr>cf_prefix = p, cf_home = d, cf_impl = Map.empty, cf_cfgs = []\<rparr>, cr_posts = posts\<rparr>" for p d
    by (simp add: config_typed_def)
  from keepsD [OF keeps_sbind [OF home keeps_sbind [OF keeps_pure(3) keeps_sfor [OF entry]]] this]
  show ?thesis unfolding new_config_def Let_def .
qed

lemma get_instance_typed: "keeps (typed_with ty metas) (get_instance env user_home exists prefix)"
proof (rule keepsI)
  fix s
  assume s: "typed_with ty metas s"
  then have "run_typed ty (cs_metas s) (snd (new_config env user_home exists prefix (cs_metas s) (cs_posts s)))"
    using new_config_typed by blast
  then show "typed_with ty metas (snd (get_instance env user_home exists prefix s))"
    using s by (auto simp: get_instance_def state_typed_def split: prod.splits sum.splits)
qed

text \<open>A history of operations; each keeps what it did when it raises. Only registrations change the entries.\<close>

datatype cfg_event =
    Add environ string meta
  | Set_item string string "cfg_val option"
  | Refresh environ string targets
  | Instance environ string "string \<Rightarrow> bool" string

fun perform :: "cfg_event \<Rightarrow> (cfg_state, unit) sx" where
  "perform (Add env n m) s = config_add env n m s"
| "perform (Set_item p n v) s = on_instance p (setitem (cs_metas s) n v) s"
| "perform (Refresh env p ts) s = refresh env p ts s"
| "perform (Instance env user_home exists prefix) s = get_instance env user_home exists prefix s"

definition after :: "cfg_event list \<Rightarrow> cfg_state \<Rightarrow> cfg_state" where
  "after es s = fold (\<lambda>e s. snd (perform e s)) es s"

definition initial_configs :: cfg_state where
  "initial_configs =
     \<lparr>cs_metas = [(''home'', \<lparr>cm_type = TStr, cm_default = None, cm_env = OneEnv ''HOME'', cm_options = None,
        cm_description = Some ''The default home directory for LazyLLM.'', cm_alias = None, cm_post_action = None\<rparr>)],
      cs_env_names = [(''home'', ''home'')], cs_instances = [], cs_posts = []\<rparr>"

text \<open>An entry is registered with one type, and its default, its flags and its aliases have that type.\<close>

definition add_ok :: "(string \<Rightarrow> cfg_type) \<Rightarrow> cfg_event \<Rightarrow> bool" where
  "add_ok ty e \<longleftrightarrow> (case e of Add env n m \<Rightarrow> cm_type m = ty (lower n) \<and> meta_ok m | _ \<Rightarrow> True)"

lemma perform_typed: "state_typed ty s \<Longrightarrow> add_ok ty e \<Longrightarrow> state_typed ty (snd (perform e s))"
proof (cases e)
  case (Add env n m)
  assume "state_typed ty s" "add_ok ty e"
  then show ?thesis using meta_add_typed [where ty = ty and s = s and m = m and n = "lower n" and env = env] Add by (auto simp: config_add_def Let_def add_ok_def)
next
  case (Set_item p n v)
  assume "state_typed ty s"
  then show ?thesis using keepsD [OF set_typed [of "cs_metas s" ty p n v], of s] Set_item by simp
next
  case (Refresh env p ts)
  assume "state_typed ty s"
  then show ?thesis using keepsD [OF refresh_typed [of "cs_metas s" ty env p ts], of s] Refresh by simp
next
  case (Instance env h ex prefix)
  assume "state_typed ty s"
  then show ?thesis using keepsD [OF get_instance_typed [of "cs_metas s" ty env h ex prefix], of s] Instance by simp
qed

lemma initial_typed: "ty ''home'' = TStr \<Longrightarrow> state_typed ty initial_configs"
  by (simp add: state_typed_def initial_configs_def metas_typed_def meta_ok_def has_type_def env_typed_def)

text \<open>
  Without such defaults it can fail: \<open>_update_impl\<close> stores the default before it converts and checks it, so a registration
  with a default of another type raises and leaves this default to be read.
\<close>

lemma mistyped_default_kept:
  "let m = \<lparr>cm_type = TInt, cm_default = Some (CStr ''abc''), cm_env = NoEnv, cm_options = None,
      cm_description = None, cm_alias = None, cm_post_action = None\<rparr>;
    s = after [Instance [] ''/u'' (\<lambda>f. False) ''lazyllm''] initial_configs
   in fst (perform (Add [] ''x'' m) s) = Inl ValueError \<and>
     map_option (getitem ''x'') (map_of (cs_instances (snd (perform (Add [] ''x'' m) s))) ''lazyllm'') = Some (Inr (Some (CStr ''abc'')))"
  by code_simp

text \<open>
  C14. Let every entry be registered, however often, with one type, and with a default, flags and aliases of that type. Then after any
  such registrations, assignments, refreshes and new namespaces, whether these raised or not, a value that is read has the type that
  its entry was registered with. A registration whose own default, flag or alias has another type is excluded.
\<close>

theorem config_values_typed:
  assumes "ty ''home'' = TStr" and "list_all (add_ok ty) es"
    and "map_of (cs_instances (after es initial_configs)) p = Some c" and "getitem n c = Inr (Some v)"
  shows "\<exists>m. map_of (cs_metas (after es initial_configs)) (normalize_name (cf_prefix c) n) = Some m \<and> isinst v (cm_type m)"
proof -
  have "state_typed ty s \<Longrightarrow> list_all (add_ok ty) es \<Longrightarrow> state_typed ty (after es s)" for s
    unfolding after_def by (induction es arbitrary: s) (auto intro: perform_typed)
  from this [OF initial_typed [of ty, OF assms(1)] assms(2)] have s: "state_typed ty (after es initial_configs)" .
  let ?n = "normalize_name (cf_prefix c) n"
  have "config_typed ty (cs_metas (after es initial_configs)) c" using s assms(3) by (auto simp: state_typed_def)
  moreover have "cf_impl c ?n = Some (Some v)" using assms(4) by (auto simp: getitem_def of_opt_eq_Inr)
  ultimately obtain m where m: "map_of (cs_metas (after es initial_configs)) ?n = Some m" "has_type (ty ?n) (Some v)"
    by (auto simp: config_typed_def)
  have "metas_typed ty (cs_metas (after es initial_configs))" using s by (auto simp: state_typed_def)
  from metas_typedD(1) [OF this m(1)] m show ?thesis by (simp add: has_type_def)
qed

definition demo_types :: "string \<Rightarrow> cfg_type" where
  "demo_types n = (if n = ''workers'' then TInt else TStr)"

definition demo_meta :: meta where
  "demo_meta = \<lparr>cm_type = TInt, cm_default = Some (CInt 16), cm_env = OneEnv ''WORKERS'', cm_options = None,
     cm_description = None, cm_alias = None, cm_post_action = None\<rparr>"

definition demo_events :: "cfg_event list" where
  "demo_events =
     [Instance [] ''/u'' (\<lambda>f. False) ''lazyllm'', Add [(''LAZYLLM_WORKERS'', ''8'')] ''workers'' demo_meta,
      Set_item ''lazyllm'' ''workers'' (Some (CStr ''many'')), Refresh [(''LAZYLLM_WORKERS'', ''few'')] ''lazyllm'' (OneTarget ''workers'')]"

theorem config_values_typed_witness:
  "\<exists>m. map_of (cs_metas (after demo_events initial_configs)) ''workers'' = Some m \<and> isinst (CInt 16) (cm_type m)"
proof -
  have add: "list_all (add_ok demo_types) demo_events"
    by (simp add: demo_events_def add_ok_def demo_types_def demo_meta_def meta_ok_def has_type_def env_typed_def lower_def
        lower_char_def code_def Let_def)
  have "(case map_of (cs_instances (after demo_events initial_configs)) ''lazyllm'' of
      None \<Rightarrow> False | Some c \<Rightarrow> cf_prefix c = ''LAZYLLM'' \<and> getitem ''workers'' c = Inr (Some (CInt 16)))"
    by code_simp
  then obtain c where c: "map_of (cs_instances (after demo_events initial_configs)) ''lazyllm'' = Some c"
    "cf_prefix c = ''LAZYLLM''" "getitem ''workers'' c = Inr (Some (CInt 16))" by (auto split: option.splits)
  have "normalize_name ''LAZYLLM'' ''workers'' = ''workers''" by code_simp
  with config_values_typed [of demo_types, OF _ add c(1,3)] c(2) show ?thesis by (simp add: demo_types_def)
qed

section \<open>What an assignment does\<close>

text \<open>
  The value that an entry settles on: the alias's, or the default where nothing was configured and there are options, or the one that was
  given, which the options allow.
\<close>

definition settles :: "meta \<Rightarrow> cfg_val option \<Rightarrow> cfg_val option \<Rightarrow> bool" where
  "settles m v w \<longleftrightarrow>
     (case resolved_alias m v of
        Some a \<Rightarrow> w = a
      | None \<Rightarrow>
          (case cm_options m of
             None \<Rightarrow> w = v
           | Some opts \<Rightarrow>
               (case v of
                  None \<Rightarrow> w = cm_default m
                | Some x \<Rightarrow> if x = CStr [] then w = cm_default m else w = v \<and> allowed opts x)))"

definition rejected :: "meta \<Rightarrow> cfg_val option \<Rightarrow> bool" where
  "rejected m v \<longleftrightarrow> resolved_alias m v = None \<and>
     (\<exists>opts x. cm_options m = Some opts \<and> v = Some x \<and> x \<noteq> CStr [] \<and> \<not> allowed opts x)"

lemma put_impl [simp]: "put n v r = (Inr (), r\<lparr>cr_config := (cr_config r)\<lparr>cf_impl := (cf_impl (cr_config r))(n \<mapsto> v)\<rparr>\<rparr>)"
  by (simp add: put_def)

lemma held_put [simp]: "held n (r\<lparr>cr_config := (cr_config r)\<lparr>cf_impl := (cf_impl (cr_config r))(n \<mapsto> v)\<rparr>\<rparr>) = v"
  by (simp add: held_def)

lemma fire_config [simp]: "fst (fire_post_action metas n r) = Inr ()" "cr_config (snd (fire_post_action metas n r)) = cr_config r"
  by (simp_all add: fire_post_action_def split: option.splits)

text \<open>An entry that holds \<open>v\<close> settles, or is refused and keeps it.\<close>

lemma settle:
  assumes "map_of metas n = Some m" and "cf_impl (cr_config r) n = Some v"
  shows "case apply_alias_and_validate metas n r of
      (Inr _, r') \<Rightarrow> cr_posts r' = cr_posts r \<and> (\<exists>w. cf_impl (cr_config r') = (cf_impl (cr_config r))(n \<mapsto> w) \<and> settles m v w) \<and>
        cf_prefix (cr_config r') = cf_prefix (cr_config r)
    | (Inl e, r') \<Rightarrow> e = ValueError \<and> r' = r \<and> rejected m v"
proof -
  have h: "held n r = v" using assms(2) by (simp add: held_def)
  have same: "cf_impl (cr_config r) = (cf_impl (cr_config r))(n \<mapsto> v)" using assms(2) by auto
  show ?thesis
  proof (cases "resolved_alias m v")
    case (Some a)
    then show ?thesis using assms(1) h by (auto simp: apply_alias_and_validate_def settles_def)
  next
    case None
    show ?thesis
    proof (cases "cm_options m")
      case None': None
      then show ?thesis using assms(1) h None same by (auto simp: apply_alias_and_validate_def settles_def)
    next
      case (Some opts)
      show ?thesis
      proof (cases v)
        case None'': None
        then show ?thesis using assms(1) h None Some by (auto simp: apply_alias_and_validate_def settles_def)
      next
        case x: (Some x)
        show ?thesis
        proof (cases "x = CStr [] \<or> \<not> allowed opts x")
          case True
          then show ?thesis using assms(1) h None Some x
            by (auto simp: apply_alias_and_validate_def settles_def rejected_def)
        next
          case False
          then show ?thesis using assms(1) h None Some x same by (auto simp: apply_alias_and_validate_def settles_def)
        qed
      qed
    qed
  qed
qed

text \<open>
  An assignment to a registered entry: the entry settles on its alias, on the default or on a value that the options allow and no other
  entry changes; or the type is wrong and nothing changes; or the options refuse the value, and it is stored all the same.
\<close>

theorem setitem_outcome:
  assumes "map_of metas (normalize_name (cf_prefix (cr_config r)) n) = Some m"
    and "cf_impl (cr_config r) (normalize_name (cf_prefix (cr_config r)) n) \<noteq> None"
  shows "case setitem metas n v r of
      (Inr _, r') \<Rightarrow> has_type (cm_type m) v \<and> (\<exists>w. getitem n (cr_config r') = Inr w \<and> settles m v w \<and>
        cf_impl (cr_config r') = (cf_impl (cr_config r))(normalize_name (cf_prefix (cr_config r)) n \<mapsto> w))
    | (Inl e, r') \<Rightarrow> e = TypeError \<and> r' = r \<and> \<not> has_type (cm_type m) v \<or>
        e = ValueError \<and> rejected m v \<and> getitem n (cr_config r') = Inr v"
proof -
  let ?n = "normalize_name (cf_prefix (cr_config r)) n"
  obtain old where old: "cf_impl (cr_config r) ?n = Some old" using assms(2) by auto
  let ?r = "r\<lparr>cr_config := (cr_config r)\<lparr>cf_impl := (cf_impl (cr_config r))(?n \<mapsto> v)\<rparr>\<rparr>"
  show ?thesis
  proof (cases "has_type (cm_type m) v")
    case False
    then show ?thesis using assms old by (simp add: setitem_def Let_def check_type_def)
  next
    case True
    then have s: "setitem metas n v r = sbind (apply_alias_and_validate metas ?n) (\<lambda>_. fire_post_action metas ?n) ?r"
      using assms old by (simp add: setitem_def Let_def check_type_def)
    obtain res r1 where a: "apply_alias_and_validate metas ?n ?r = (res, r1)" by fastforce
    note se = settle [of metas ?n m ?r v, OF assms(1)]
    show ?thesis
    proof (cases res)
      case (Inl e)
      then have "e = ValueError" "r1 = ?r" "rejected m v" using se a by auto
      then show ?thesis unfolding s using a Inl by (simp add: getitem_def)
    next
      case (Inr u)
      then obtain w where w: "cf_impl (cr_config r1) = (cf_impl (cr_config ?r))(?n \<mapsto> w)" "settles m v w"
        "cf_prefix (cr_config r1) = cf_prefix (cr_config r)" using se a by auto
      obtain x r2 where f: "fire_post_action metas ?n r1 = (x, r2)" by fastforce
      then have "x = Inr ()" "cr_config r2 = cr_config r1"
        using fire_config [of metas ?n r1] by simp_all
      then show ?thesis unfolding s using a Inr w f True by (simp add: getitem_def)
    qed
  qed
qed

text \<open>An entry with options, and a value that is not one of them.\<close>

definition demo_options :: meta where
  "demo_options = demo_meta\<lparr>cm_type := TStr, cm_default := Some (CStr ''a''), cm_options := Some [CStr ''a'', CStr ''b'']\<rparr>"

definition demo_run :: cfg_run where
  "demo_run = \<lparr>cr_config = \<lparr>cf_prefix = ''L'', cf_home = [], cf_impl = [''k'' \<mapsto> Some (CStr ''a'')], cf_cfgs = []\<rparr>, cr_posts = []\<rparr>"

theorem setitem_outcome_witness:
  "fst (setitem [(''k'', demo_options)] ''k'' (Some (CStr ''c'')) demo_run) = Inl ValueError \<and>
   getitem ''k'' (cr_config (snd (setitem [(''k'', demo_options)] ''k'' (Some (CStr ''c'')) demo_run))) = Inr (Some (CStr ''c''))"
proof -
  have n: "normalize_name (cf_prefix (cr_config demo_run)) ''k'' = ''k''" by code_simp
  have f: "fst (setitem [(''k'', demo_options)] ''k'' (Some (CStr ''c'')) demo_run) = Inl ValueError" by code_simp
  have "map_of [(''k'', demo_options)] (normalize_name (cf_prefix (cr_config demo_run)) ''k'') = Some demo_options"
    "cf_impl (cr_config demo_run) (normalize_name (cf_prefix (cr_config demo_run)) ''k'') \<noteq> None"
    by (simp_all add: n) (simp add: demo_run_def)
  from setitem_outcome [OF this, of "Some (CStr ''c'')"] f show ?thesis by (cases "setitem [(''k'', demo_options)] ''k'' (Some (CStr ''c'')) demo_run") auto
qed

section \<open>Where the code departs\<close>

text \<open>
  A block with a namespace that raises leaves the namespace in place: what the thread reads afterwards comes from it, and no
  longer from what was current before. A block that does not raise restores it.
\<close>

lemma namespace_scope:
  assumes "get_instance env user_home exists space (ns_configs n) = (Inr (), s)"
    and "block (n\<lparr>ns_configs := s, ns_current := Some (lower space)\<rparr>) = (res, n')" and "ns_current n' = Some (lower space)"
  shows "ns_current (snd (namespace env user_home exists space block n)) =
    (case res of Inl e \<Rightarrow> Some (lower space) | Inr u \<Rightarrow> ns_current n)"
  using assms by (cases res) (simp_all add: namespace_def Let_def)

text \<open>Likewise a block with another value: when it raises, nothing after it runs.\<close>

lemma temp_scope:
  assumes "map_of (cs_instances s) p = Some c" and "getitem n c = Inr old"
    and "on_instance p (setitem (cs_metas s) n v) s = (Inr (), s1)" and "block s1 = (res, s2)"
  shows "temp p n v block s = (case res of Inl e \<Rightarrow> (Inl e, s2) | Inr u \<Rightarrow> on_instance p (setitem (cs_metas s2) n old) s2)"
  using assms by (cases res) (simp_all add: temp_def sbind_def)

lemma update_impl_plain:
  assumes "map_of metas n = Some m" and "cm_alias m = None" and "cm_options m = None" and "cm_post_action m = None"
    and "cf_cfgs (cr_config r) = []" and "n \<noteq> ''home''"
    and "from_env env (cf_prefix (cr_config r)) t e d = Inr w" and "has_type t w"
  shows "update_impl env metas n t d e r =
    (Inr (), r\<lparr>cr_config := (cr_config r)\<lparr>cf_impl := (cf_impl (cr_config r))(n \<mapsto> w)\<rparr>\<rparr>)"
  using assms
  by (simp add: update_impl_def sbind_def first_cell_def check_type_def apply_alias_and_validate_def resolved_alias_def
      fire_post_action_def Let_def)

lemma lower_append: "lower (a @ b) = lower a @ lower b"
  by (simp add: lower_def)

lemma length_lower [simp]: "length (lower a) = length a"
  by (simp add: lower_def)

lemma lower_upper: "lower s = s \<Longrightarrow> lower (upper s) = s"
proof -
  have "lower_char (upper_char c) = c" if "lower_char c = c" for c
  proof (cases "97 \<le> code c \<and> code c \<le> 122")
    case True
    then have "(code c - 32) mod 256 = code c - 32" by (intro mod_less) linarith
    then have e: "code (char_of (code c - 32)) = code c - 32" by (simp add: code_def)
    have n: "65 \<le> code c - 32" "code c - 32 \<le> 90" "code c - 32 + 32 = code c" using True by linarith+
    have "lower_char (char_of (code c - 32)) = char_of (code c)" unfolding lower_char_def Let_def e n(3) if_P [OF conjI [OF n(1,2)]] ..
    then show ?thesis using True by (simp add: upper_char_def) (simp add: code_def)
  qed (auto simp: upper_char_def that)
  then show "lower s = s \<Longrightarrow> lower (upper s) = s" by (induction s) (simp_all add: lower_def upper_def)
qed

text \<open>
  C37. A text entry that is registered without naming its variable is read from the variable of its own name when it is registered, and loses
  that value at the next refresh, whatever the variables hold then: the registration keeps the name of no variable.
\<close>

theorem unnamed_variable_dropped:
  assumes "cs_instances s = [(p, c)]" and "cf_cfgs c = []" and "lower name = name" and "name \<notin> set class_names"
    and "name \<noteq> ''home''" and "map_of (cs_metas s) name = None" and "name \<noteq> []"
    and "m = \<lparr>cm_type = TStr, cm_default = Some (CStr d), cm_env = NoEnv, cm_options = None, cm_description = txt,
           cm_alias = None, cm_post_action = None\<rparr>"
    and "map_of env (cf_prefix c @ ''_'' @ upper name) = Some x"
  shows "let s1 = snd (config_add env name m s);
      s2 = snd (refresh env' p (OneTarget (cf_prefix c @ ''_'' @ upper name)) s1)
    in (\<exists>c1. map_of (cs_instances s1) p = Some c1 \<and> cf_impl c1 name = Some (Some (CStr x))) \<and>
       (\<exists>c2. map_of (cs_instances s2) p = Some c2 \<and> cf_impl c2 name = Some (Some (CStr d)))"
proof -
  let ?c1 = "c\<lparr>cf_impl := (cf_impl c)(name \<mapsto> Some (CStr x))\<rparr>"
  let ?c2 = "c\<lparr>cf_impl := (cf_impl c)(name \<mapsto> Some (CStr d))\<rparr>"
  let ?s = "s\<lparr>cs_metas := AList.update name m (cs_metas s), cs_env_names := AList.update name name (cs_env_names s)\<rparr>"
  have mm: "cm_type m = TStr" "cm_default m = Some (CStr d)" "cm_env m = NoEnv" "cm_options m = None" "cm_alias m = None"
    "cm_post_action m = None" by (simp_all add: assms(8))
  have l: "lower (upper name) = name" by (rule lower_upper [OF assms(3)])
  have reg: "register name m s = (OneEnv name, ?s)"
    using assms(3,6) mm by (simp add: register_def env_falsy_def env_keys_def Let_def)
  have m: "map_of (cs_metas ?s) name = Some m" by simp
  have "update_impl env (cs_metas ?s) name TStr (Some (CStr d)) (OneEnv name) \<lparr>cr_config = c, cr_posts = cs_posts s\<rparr> =
      (Inr (), \<lparr>cr_config = ?c1, cr_posts = cs_posts s\<rparr>)"
    using update_impl_plain [OF m, of "\<lparr>cr_config = c, cr_posts = cs_posts s\<rparr>" env TStr "OneEnv name" "Some (CStr d)" "Some (CStr x)"]
      assms(2,5,7,9) mm by (simp add: from_env_def getenv_def has_type_def)
  then have s1: "config_add env name m s = (Inr (), ?s\<lparr>cs_instances := [(p, ?c1)]\<rparr>)"
    using assms(1,3,4) mm by (simp add: config_add_def meta_add_def reg on_instance_def sbind_def Let_def)
  let ?s1 = "?s\<lparr>cs_instances := [(p, ?c1)]\<rparr>"
  have s2: "refresh env' p (OneTarget (cf_prefix c @ ''_'' @ upper name)) ?s1 = (Inr (), ?s1\<lparr>cs_instances := [(p, ?c2)]\<rparr>)"
  proof -
    have u: "lower (CHR ''_'' # w) = CHR ''_'' # lower w" for w
      by (simp add: lower_def lower_char_def code_def Let_def)
    have t: "lower (cf_prefix c @ ''_'' @ upper name) = lower (cf_prefix c) @ ''_'' @ name" using l by (simp add: lower_append u)
    have k: "(name, name) \<in> set (AList.update name name (cs_env_names s))" by (metis map_of_SomeD map_of_update fun_upd_same)
    have names: "lower (cf_prefix c) @ ''_'' @ name \<in> set (env_names (cf_prefix c) ?s1)"
      using k assms(3) by (force simp: env_names_def lower_append u)
    have "update_impl env' (cs_metas ?s1) name TStr (Some (CStr d)) NoEnv \<lparr>cr_config = ?c1, cr_posts = cs_posts s\<rparr> =
        (Inr (), \<lparr>cr_config = ?c2, cr_posts = cs_posts s\<rparr>)"
      using update_impl_plain [of "cs_metas ?s1" name m "\<lparr>cr_config = ?c1, cr_posts = cs_posts s\<rparr>" env' TStr NoEnv "Some (CStr d)" "Some (CStr d)"]
        assms(2,5) mm by (simp add: from_env_def has_type_def)
    then have o: "on_instance p (update_impl env' (cs_metas ?s1) name (cm_type m) (cm_default m) (cm_env m)) ?s1 =
        (Inr (), ?s1\<lparr>cs_instances := [(p, ?c2)]\<rparr>)"
      using mm by (simp add: on_instance_def)
    let ?K = "lower (cf_prefix c) @ ''_'' @ name"
    have K: "lower ?K = ?K" using assms(3) by (simp add: lower_append u)
    have d: "drop (length (cf_prefix c) + 1) ?K = name" by simp
    have one: "refresh_one env' p (cf_prefix c) ?K ?s1 = (Inr (), ?s1\<lparr>cs_instances := [(p, ?c2)]\<rparr>)"
      using names o unfolding refresh_one_def K d Let_def by (simp del: append.simps append_Cons append_Nil)
    show ?thesis unfolding refresh_def using one by (simp add: t Let_def sbind_def del: append.simps append_Cons append_Nil)
  qed
  show ?thesis using s1 s2 by (simp add: Let_def)
qed

definition demo_state :: cfg_state where
  "demo_state = \<lparr>cs_metas = [], cs_env_names = [],
     cs_instances = [(''lazyllm'', \<lparr>cf_prefix = ''LAZYLLM'', cf_home = ''/u'', cf_impl = Map.empty, cf_cfgs = []\<rparr>)], cs_posts = []\<rparr>"

definition demo_text :: meta where
  "demo_text = \<lparr>cm_type = TStr, cm_default = Some (CStr ''red''), cm_env = NoEnv, cm_options = None, cm_description = None,
     cm_alias = None, cm_post_action = None\<rparr>"

theorem unnamed_variable_dropped_witness:
  "let s1 = snd (config_add [(''LAZYLLM_COLOR'', ''blue'')] ''color'' demo_text demo_state);
      s2 = snd (refresh [(''LAZYLLM_COLOR'', ''green'')] ''lazyllm'' (OneTarget ''LAZYLLM_COLOR'') s1)
    in (\<exists>c1. map_of (cs_instances s1) ''lazyllm'' = Some c1 \<and> cf_impl c1 ''color'' = Some (Some (CStr ''blue''))) \<and>
       (\<exists>c2. map_of (cs_instances s2) ''lazyllm'' = Some c2 \<and> cf_impl c2 ''color'' = Some (Some (CStr ''red'')))"
proof -
  let ?c = "\<lparr>cf_prefix = ''LAZYLLM'', cf_home = ''/u'', cf_impl = Map.empty, cf_cfgs = []\<rparr>"
  have u: "upper ''color'' = ''COLOR''" "lower ''color'' = ''color''" by code_simp+
  have n: "''color'' \<notin> set class_names" by code_simp
  show ?thesis
    using unnamed_variable_dropped [of demo_state "''lazyllm''" ?c "''color''" demo_text "''red''" None
        "[(''LAZYLLM_COLOR'', ''blue'')]" "''blue''" "[(''LAZYLLM_COLOR'', ''green'')]", OF _ _ u(2) n]
    by (simp add: demo_state_def demo_text_def u(1))
qed

end
