(* ===== verification/Numbering.thy ===== *)
theory Numbering
  imports UText "HOL-Library.List_Lexorder"
begin

text \<open>
  The numbers of sections, figures, tables and code blocks of a document (\<open>tools/writer/numbering.py\<close>): the targets in
  order with their levels, the counters, and the labels in the three styles. Texts are lists of code points.
\<close>

section \<open>Targets\<close>

datatype num_kind = Section | Figure | Table | Code

record target =
  nt_id :: utext
  nt_kind :: num_kind
  nt_level :: "int option"
  nt_caption :: "utext option"
  nt_mode :: "string option"
  nt_restart :: bool

record view =
  nv_targets :: "target list"
  nv_references :: "utext list"
  nv_style :: string

record entry =
  ne_kind :: num_kind
  ne_parts :: "nat list"
  ne_caption :: "utext option"
  ne_label :: utext
  ne_mode :: "string option"
  ne_restart :: bool

type_synonym numbering_map = "(utext \<times> entry) list"

definition styles :: "string list" where
  "styles = [''hierarchical'', ''chinese'', ''parenthesized'']"

definition valid_target :: "target \<Rightarrow> bool" where
  "valid_target t \<longleftrightarrow>
     (nt_kind t = Section \<longrightarrow> (case nt_level t of None \<Rightarrow> False | Some l \<Rightarrow> 1 \<le> l)) \<and>
     (case nt_mode t of None \<Rightarrow> True | Some m \<Rightarrow> m = ''ordered'' \<or> m = ''unordered'') \<and>
     \<not> (nt_restart t \<and> nt_mode t = Some ''unordered'')"

definition validate_numbering_view :: "view \<Rightarrow> unit res" where
  "validate_numbering_view v =
     rbind (ensure (nv_style v \<in> set styles) ValueError) (\<lambda>_.
     rbind (ensure (distinct (map nt_id (nv_targets v))) ValueError) (\<lambda>_.
     rbind (ensure (list_all (\<lambda>r. r \<in> set (map nt_id (nv_targets v))) (nv_references v)) ValueError) (\<lambda>_.
     ensure (list_all valid_target (nv_targets v)) ValueError)))"

section \<open>Numbers as texts\<close>

definition num_text :: "nat \<Rightarrow> utext" where
  "num_text n = map of_char (show_nat n)"

text \<open>The digits from zero to nine, and the units up to a thousand.\<close>

definition chinese_digit :: "nat \<Rightarrow> nat" where
  "chinese_digit d = [38646, 19968, 20108, 19977, 22235, 20116, 20845, 19971, 20843, 20061] ! d"

definition writer_units :: "utext list" where
  "writer_units = [[], [21313], [30334], [21315]]"

fun chinese_digits_loop :: "nat \<Rightarrow> string \<Rightarrow> utext list \<Rightarrow> utext list res" where
  "chinese_digits_loop position [] parts = Inr parts"
| "chinese_digits_loop position (c # cs) parts =
     (if c \<noteq> CHR ''0'' then
        rbind (py_nth writer_units position) (\<lambda>u.
          chinese_digits_loop (position + 1) cs (parts @ [chinese_digit (of_char c - 48) # u]))
      else if parts \<noteq> [] \<and> take 1 (last parts) \<noteq> [38646] then chinese_digits_loop (position + 1) cs (parts @ [[38646]])
      else chinese_digits_loop (position + 1) cs parts)"

definition chinese_number :: "nat \<Rightarrow> utext res" where
  "chinese_number v =
     (if v < 1 then Inr (num_text v)
      else rbind (chinese_digits_loop 0 (rev (show_nat v)) []) (\<lambda>parts.
        let r = concat (rev parts);
            r = (if 11 \<le> v \<and> v \<le> 19 \<and> take 1 r = [19968] then drop 1 r else r)
        in Inr (if r = [] then [38646] else r)))"

definition roman_pairs :: "(nat \<times> string) list" where
  "roman_pairs =
     [(1000, ''M''), (900, ''CM''), (500, ''D''), (400, ''CD''), (100, ''C''), (90, ''XC''), (50, ''L''), (40, ''XL''),
      (10, ''X''), (9, ''IX''), (5, ''V''), (4, ''IV''), (1, ''I'')]"

text \<open>The pairs that are taken: one as long as it fits, then the next; all limits are positive.\<close>

function roman_terms :: "(nat \<times> string) list \<Rightarrow> nat \<Rightarrow> (nat \<times> string) list" where
  "roman_terms [] remaining = []"
| "roman_terms ((limit, letter) # ps) remaining =
     (if 0 < limit \<and> limit \<le> remaining then (limit, letter) # roman_terms ((limit, letter) # ps) (remaining - limit)
      else roman_terms ps remaining)"
  by pat_completeness auto
termination by (relation "measure (\<lambda>(ps, n). length ps + n)") auto

declare roman_terms.simps [simp del]

definition lower_letter :: "nat \<Rightarrow> nat" where
  "lower_letter c = (if 65 \<le> c \<and> c \<le> 90 then c + 32 else c)"

definition roman_number :: "nat \<Rightarrow> bool \<Rightarrow> utext" where
  "roman_number v upper =
     (let r = map of_char (concat (map snd (roman_terms roman_pairs v))) in if upper then r else map lower_letter r)"

fun letter_loop :: "nat \<Rightarrow> nat \<Rightarrow> utext \<Rightarrow> utext" where
  "letter_loop base v r = (if v = 0 then r else letter_loop base ((v - 1) div 26) ((base + (v - 1) mod 26) # r))"

declare letter_loop.simps [simp del]

definition letter_number :: "nat \<Rightarrow> bool \<Rightarrow> utext" where
  "letter_number v upper = (let r = letter_loop (if upper then 65 else 97) v [] in if r = [] then [97] else r)"

definition join_dots :: "nat list \<Rightarrow> utext" where
  "join_dots parts = (case map num_text parts of [] \<Rightarrow> [] | p # ps \<Rightarrow> p @ concat (map (\<lambda>q. 46 # q) ps))"

definition hierarchical_parts :: "nat list \<Rightarrow> utext" where
  "hierarchical_parts parts = join_dots parts @ [46]"

definition format_heading_label :: "string \<Rightarrow> nat list \<Rightarrow> nat \<Rightarrow> utext res" where
  "format_heading_label style parts depth =
     (let v = (if parts = [] then 1 else last parts)
      in if style = ''chinese'' then
           (if depth = 1 then rbind (chinese_number v) (\<lambda>t. Inr (t @ [12289]))
            else if depth = 2 then rbind (chinese_number v) (\<lambda>t. Inr (65288 # t @ [65289]))
            else if depth = 3 then Inr (num_text v @ [46])
            else if depth = 4 then Inr (65288 # num_text v @ [65289])
            else if depth = 5 \<and> 1 \<le> v \<and> v \<le> 20 then Inr [0x245F + v]
            else Inr (hierarchical_parts parts))
         else if style = ''parenthesized'' then
           Inr (if depth = 1 then 40 # num_text v @ [41]
                else if depth = 2 then 40 # letter_number v False @ [41]
                else if depth = 3 then 40 # roman_number v False @ [41]
                else if depth = 4 then 40 # letter_number v True @ [41]
                else if depth = 5 then 40 # roman_number v True @ [41]
                else hierarchical_parts parts)
         else Inr (hierarchical_parts parts))"

section \<open>Counting\<close>

record counting =
  ct_counters :: "nat list"
  ct_root :: "nat option"
  ct_previous :: nat
  ct_floats :: "num_kind \<Rightarrow> nat"

definition start_counting :: counting where
  "start_counting = \<lparr>ct_counters = [], ct_root = None, ct_previous = 0, ct_floats = (\<lambda>_. 0)\<rparr>"

text \<open>The level of a section: relative to the first, and at most one below the section before it.\<close>

definition section_level :: "counting \<Rightarrow> target \<Rightarrow> nat" where
  "section_level c t =
     (let raw = nat (max 1 (case nt_level t of None \<Rightarrow> 1 | Some l \<Rightarrow> if l = 0 then 1 else l));
          root = (case ct_root c of None \<Rightarrow> raw | Some r \<Rightarrow> r);
          level = nat (max 1 (int raw - int root + 1))
      in min level (ct_previous c + 1))"

definition bump :: "nat list \<Rightarrow> nat list" where
  "bump cs = butlast cs @ [last cs + 1]"

definition next_counters :: "bool \<Rightarrow> nat \<Rightarrow> nat list \<Rightarrow> nat list" where
  "next_counters restart level cs =
     (let cs = (if level \<le> length cs then take level cs else cs)
      in bump (if restart
               then (let cs = take (level - 1) cs in cs @ replicate (level - 1 - length cs) 1 @ [0])
               else (let missing = level - length cs in if missing \<noteq> 0 then cs @ replicate (missing - 1) 1 @ [0] else cs)))"

definition count_target :: "string \<Rightarrow> counting \<Rightarrow> target \<Rightarrow> (entry \<times> counting) res" where
  "count_target style c t =
     (if nt_kind t = Section then
        let raw = nat (max 1 (case nt_level t of None \<Rightarrow> 1 | Some l \<Rightarrow> if l = 0 then 1 else l));
            level = section_level c t;
            mode = (case nt_mode t of None \<Rightarrow> ''ordered'' | Some m \<Rightarrow> if m = [] then ''ordered'' else m);
            counters = (if mode = ''ordered'' then next_counters (nt_restart t) level (ct_counters c) else ct_counters c);
            parts = (if mode = ''ordered'' then counters else []);
            c = c\<lparr>ct_counters := counters, ct_root := Some (case ct_root c of None \<Rightarrow> raw | Some r \<Rightarrow> r), ct_previous := level\<rparr>
        in rbind (if mode = ''unordered'' then Inr [] else format_heading_label style parts level) (\<lambda>label.
             Inr (\<lparr>ne_kind = Section, ne_parts = parts, ne_caption = nt_caption t, ne_label = label, ne_mode = Some mode,
                    ne_restart = nt_restart t\<rparr>, c))
      else
        let n = ct_floats c (nt_kind t) + 1
        in Inr (\<lparr>ne_kind = nt_kind t, ne_parts = [n], ne_caption = nt_caption t, ne_label = [], ne_mode = None,
                 ne_restart = nt_restart t\<rparr>, c\<lparr>ct_floats := (ct_floats c)(nt_kind t := n)\<rparr>))"

fun count_targets :: "string \<Rightarrow> counting \<Rightarrow> target list \<Rightarrow> numbering_map res" where
  "count_targets style c [] = Inr []"
| "count_targets style c (t # ts) =
     rbind (count_target style c t) (\<lambda>(e, c). rbind (count_targets style c ts) (\<lambda>m. Inr ((nt_id t, e) # m)))"

definition compute_numbering :: "view \<Rightarrow> numbering_map res" where
  "compute_numbering v =
     rbind (validate_numbering_view v) (\<lambda>_. count_targets (nv_style v) start_counting (nv_targets v))"

definition float_label :: "num_kind \<Rightarrow> utext" where
  "float_label k = (case k of Section \<Rightarrow> [] | Figure \<Rightarrow> [22270] | Table \<Rightarrow> [34920] | Code \<Rightarrow> [20195, 30721])"

definition format_target_number :: "entry \<Rightarrow> utext" where
  "format_target_number e =
     (if ne_kind e = Section then
        (if ne_mode e = Some ''unordered'' then []
         else if ne_label e \<noteq> [] then ne_label e
         else hierarchical_parts (ne_parts e))
      else float_label (ne_kind e) @ num_text (hd (ne_parts e)))"

section \<open>Letters and Roman numbers\<close>

text \<open>The value of letters, most significant first, without a zero.\<close>

definition letter_value :: "nat \<Rightarrow> utext \<Rightarrow> nat" where
  "letter_value base = foldl (\<lambda>v c. 26 * v + (c - base + 1)) 0"

lemma foldl_letter: "foldl (\<lambda>v c. 26 * v + (c - base + 1)) a (r :: nat list) = 26 ^ length r * a + letter_value base r"
proof (induction r arbitrary: a)
  case (Cons c r)
  from Cons [of "26 * a + (c - base + 1)"] Cons [of "c - base + 1"] show ?case
    by (simp add: letter_value_def algebra_simps)
qed (simp add: letter_value_def)

lemma letter_loop_value: "letter_value base (letter_loop base v r) = 26 ^ length r * v + letter_value base r"
proof (induction base v r rule: letter_loop.induct)
  case (1 base v r)
  show ?case
  proof (cases "v = 0")
    case True
    then show ?thesis by (subst letter_loop.simps) simp
  next
    case False
    let ?q = "(v - 1) div 26" and ?m = "(v - 1) mod 26"
    have v: "26 * ?q + (?m + 1) = v" using False by simp
    have "letter_value base ((base + ?m) # r) = 26 ^ length r * (?m + 1) + letter_value base r"
      using foldl_letter [of base "?m + 1" r] by (simp add: letter_value_def)
    then have "26 ^ length ((base + ?m) # r) * ?q + letter_value base ((base + ?m) # r) =
        26 ^ length r * (26 * ?q + (?m + 1)) + letter_value base r"
      by (simp only: list.size power_add power_one_right distrib_left mult.assoc add.assoc One_nat_def add_Suc_right power_Suc ac_simps) simp
    then have "26 ^ length ((base + ?m) # r) * ?q + letter_value base ((base + ?m) # r) = 26 ^ length r * v + letter_value base r"
      unfolding v .
    then show ?thesis using 1 [OF False] False by (subst letter_loop.simps) simp
  qed
qed

lemma letter_number_value: "0 < v \<Longrightarrow> letter_value (if upper then 65 else 97) (letter_number v upper) = v"
proof -
  assume v: "0 < v"
  let ?b = "if upper then 65 else 97 :: nat"
  have e: "letter_value ?b (letter_loop ?b v []) = v" by (simp add: letter_loop_value) (simp add: letter_value_def)
  then have "letter_loop ?b v [] \<noteq> []" using v by (auto simp: letter_value_def)
  then show ?thesis using e by (simp add: letter_number_def Let_def split: if_splits)
qed

text \<open>The terms of a Roman number sum up to it, and are descending.\<close>

lemma roman_terms_sum: "ps \<noteq> [] \<Longrightarrow> fst (last ps) = 1 \<Longrightarrow> sum_list (map fst (roman_terms ps v)) = v"
proof (induction ps v rule: roman_terms.induct)
  case (2 limit l ps v)
  show ?case
  proof (cases "0 < limit \<and> limit \<le> v")
    case True
    then show ?thesis using 2(1) [OF True] 2(4) by (simp add: roman_terms.simps(2) [of limit l ps v])
  next
    case False
    then have r: "roman_terms ((limit, l) # ps) v = roman_terms ps v" by (subst roman_terms.simps(2)) (simp only: False if_False)
    show ?thesis
    proof (cases "ps = []")
      case True
      then have "v = 0" using False 2(4) by simp
      then show ?thesis using True r by (simp add: roman_terms.simps)
    next
      case ps: False
      then show ?thesis using 2(2) [OF False ps] 2(4) r by simp
    qed
  qed
qed simp

lemma roman_sum: "sum_list (map fst (roman_terms roman_pairs v)) = v"
  by (rule roman_terms_sum) (simp_all add: roman_pairs_def)

text \<open>The tenth section of the Chinese style has a digit that it should not have.\<close>

lemma digit_chars: "char_of (48 :: nat) = CHR ''0''" "char_of (49 :: nat) = CHR ''1''"
  by code_simp+

lemma chinese_ten: "chinese_number 10 = Inr [19968, 21313]" "chinese_number 11 = Inr [21313, 19968]"
  by (simp_all add: chinese_number_def show_nat.simps digit_char_def digit_chars writer_units_def py_nth_def chinese_digit_def)

lemma chinese_too_large: "chinese_number 10000 = Inl IndexError"
  by (simp add: chinese_number_def show_nat.simps digit_char_def digit_chars writer_units_def py_nth_def)

section \<open>Numbers grow\<close>

lemma less_append [simp]: "us @ xs < us @ ys \<longleftrightarrow> xs < (ys :: nat list)"
  by (induction us) simp_all

lemma less_extend: "ys \<noteq> [] \<Longrightarrow> (xs :: nat list) < xs @ ys"
  using less_append [of xs "[]" ys] by (cases ys) simp_all

lemma next_counters_greater:
  assumes "1 \<le> level"
  shows "cs < next_counters False level cs"
proof (cases "level \<le> length cs")
  case True
  define us x rest where d: "us = take (level - 1) cs" "x = cs ! (level - 1)" "rest = drop level cs"
  have cs: "cs = us @ x # rest" "take level cs = us @ [x]" "length (us @ [x]) = level"
    using assms True id_take_nth_drop [of "level - 1" cs] take_Suc_conv_app_nth [of "level - 1" cs]
    by (simp_all add: d)
  have n: "next_counters False level cs = us @ [x + 1]" using True cs(2,3) by (simp add: next_counters_def bump_def Let_def)
  have "us @ x # rest < us @ [x + 1]" by simp
  then show ?thesis unfolding n cs(1) [symmetric] .
next
  case False
  then show ?thesis using less_extend [of "replicate (level - length cs - 1) 1 @ [Suc 0]" cs]
    by (simp add: next_counters_def bump_def Let_def butlast_append)
qed

lemma next_counters_length:
  assumes "1 \<le> level"
  shows "length (next_counters restart level cs) = level"
  using assms by (cases "level \<le> length cs") (auto simp: next_counters_def bump_def Let_def min_def)

lemma section_level_ge: "1 \<le> section_level c t"
  by (simp add: section_level_def Let_def)

text \<open>The parts of the ordered sections, in their order.\<close>

definition is_ordered :: "entry \<Rightarrow> bool" where
  "is_ordered e \<longleftrightarrow> ne_kind e = Section \<and> ne_mode e = Some ''ordered''"

definition ordered_entries :: "numbering_map \<Rightarrow> entry list" where
  "ordered_entries m = filter is_ordered (map snd m)"

lemma count_target_parts:
  assumes "count_target style c t = Inr (e, c')"
  shows "if is_ordered e then ne_parts e = next_counters (nt_restart t) (section_level c t) (ct_counters c) \<and> ct_counters c' = ne_parts e \<and>
      format_heading_label style (ne_parts e) (section_level c t) = Inr (ne_label e)
    else valid_target t \<longrightarrow> ct_counters c' = ct_counters c"
  using assms
  by (auto simp: count_target_def is_ordered_def valid_target_def Let_def rbind_eq_Inr split: if_splits option.splits)

lemma count_targets_sorted:
  "count_targets style c ts = Inr m \<Longrightarrow> list_all valid_target ts \<Longrightarrow> list_all (\<lambda>t. \<not> nt_restart t) ts \<Longrightarrow>
    sorted_wrt (<) (ct_counters c # map ne_parts (ordered_entries m))"
proof (induction style c ts arbitrary: m rule: count_targets.induct)
  case (2 style c t ts)
  then obtain e c' m' where m: "count_target style c t = Inr (e, c')" "count_targets style c' ts = Inr m'" "m = (nt_id t, e) # m'"
    by (auto simp: rbind_eq_Inr)
  have IH: "sorted_wrt (<) (ct_counters c' # map ne_parts (ordered_entries m'))"
    using "2.IH" [OF m(1) refl m(2)] "2.prems"(2,3) by simp
  note p = count_target_parts [OF m(1)]
  show ?case
  proof (cases "is_ordered e")
    case True
    then have "ct_counters c < ne_parts e" "ct_counters c' = ne_parts e"
      using p "2.prems"(3) next_counters_greater [OF section_level_ge] by auto
    then show ?thesis using IH True m(3) by (auto simp: ordered_entries_def dest: order.strict_trans)
  next
    case False
    then have "ct_counters c' = ct_counters c" using p "2.prems"(2) by simp
    then show ?thesis using IH False m(3) by (simp add: ordered_entries_def)
  qed
qed (simp add: ordered_entries_def)

lemma validate_Inr: "validate_numbering_view v = Inr u \<longleftrightarrow> nv_style v \<in> set styles \<and> distinct (map nt_id (nv_targets v)) \<and>
    list_all (\<lambda>r. r \<in> set (map nt_id (nv_targets v))) (nv_references v) \<and> list_all valid_target (nv_targets v)"
  by (simp add: validate_numbering_view_def rbind_eq_Inr ensure_eq_Inr)

lemma count_targets_ids: "count_targets style c ts = Inr m \<Longrightarrow> map fst m = map nt_id ts"
  by (induction style c ts arbitrary: m rule: count_targets.induct) (fastforce simp: rbind_eq_Inr)+

lemma count_targets_kinds:
  "count_targets style c ts = Inr m \<Longrightarrow> list_all2 (\<lambda>t (i, e). i = nt_id t \<and> ne_kind e = nt_kind t) ts m"
proof (induction style c ts arbitrary: m rule: count_targets.induct)
  case (2 style c t ts)
  then obtain e c' m' where m: "count_target style c t = Inr (e, c')" "count_targets style c' ts = Inr m'" "m = (nt_id t, e) # m'"
    by (auto simp: rbind_eq_Inr)
  have "ne_kind e = nt_kind t" using m(1) by (auto simp: count_target_def Let_def rbind_eq_Inr split: if_splits)
  then show ?case using "2.IH" [OF m(1) refl m(2)] m(3) by simp
qed simp

section \<open>Labels tell sections apart\<close>

lemma num_text_digits: "c \<in> set (num_text n) \<Longrightarrow> c \<noteq> 46"
proof -
  have "list_all (\<lambda>c. of_char c \<noteq> (46 :: nat)) (show_nat n)"
  proof (induction n rule: show_nat.induct)
    case (1 n)
    have "of_char (digit_char d) \<noteq> (46 :: nat)" if "d < 10" for d using that by (simp add: digit_char_def)
    then show ?case using 1 by (subst show_nat.simps) auto
  qed
  then show "c \<in> set (num_text n) \<Longrightarrow> c \<noteq> 46" by (auto simp: num_text_def list_all_iff)
qed

lemma num_text_inj: "num_text m = num_text n \<Longrightarrow> m = n"
proof -
  assume "num_text m = num_text n"
  then have "map of_char (show_nat m) = (map of_char (show_nat n) :: nat list)" by (simp add: num_text_def)
  then have "show_nat m = show_nat n" by (rule map_injective) (simp add: inj_def)
  then show ?thesis using parse_nat_show_nat by (metis option.inject)
qed

lemma hierarchical_parts_dots: "parts \<noteq> [] \<Longrightarrow> hierarchical_parts parts = concat (map (\<lambda>p. num_text p @ [46]) parts)"
proof -
  have "concat (map (\<lambda>q. 46 # num_text q) ps) @ [46] = 46 # concat (map (\<lambda>p. num_text p @ [46]) ps)" for ps
    by (induction ps) simp_all
  then show "parts \<noteq> [] \<Longrightarrow> ?thesis" by (cases parts) (simp_all add: hierarchical_parts_def join_dots_def o_def)
qed

lemma takeWhile_num_text: "takeWhile (\<lambda>c. c \<noteq> 46) (num_text p @ 46 # r) = num_text p"
  using num_text_digits by (simp add: takeWhile_append2)

lemma dots_inj: "concat (map (\<lambda>p. num_text p @ [46]) ps) = concat (map (\<lambda>p. num_text p @ [46]) qs) \<Longrightarrow> ps = qs"
proof (induction ps arbitrary: qs)
  case (Cons p ps)
  then obtain q qs' where qs: "qs = q # qs'" by (cases qs) auto
  have "num_text p = num_text q"
    using arg_cong [OF Cons.prems, of "takeWhile (\<lambda>c. c \<noteq> 46)"] qs takeWhile_num_text by simp
  then show ?case using Cons qs num_text_inj by auto
qed (case_tac qs, simp_all)

lemma hierarchical_parts_inj: "ps \<noteq> [] \<Longrightarrow> qs \<noteq> [] \<Longrightarrow> hierarchical_parts ps = hierarchical_parts qs \<Longrightarrow> ps = qs"
  using dots_inj hierarchical_parts_dots by metis

lemma count_targets_labels:
  "count_targets ''hierarchical'' c ts = Inr m \<Longrightarrow>
    list_all (\<lambda>e. ne_parts e \<noteq> [] \<and> ne_label e = hierarchical_parts (ne_parts e)) (ordered_entries m)"
proof (induction "''hierarchical''" c ts arbitrary: m rule: count_targets.induct)
  case (2 c t ts)
  then obtain e c' m' where m: "count_target ''hierarchical'' c t = Inr (e, c')" "count_targets ''hierarchical'' c' ts = Inr m'"
    "m = (nt_id t, e) # m'" by (auto simp: rbind_eq_Inr)
  have "length (next_counters r (section_level c t) cs) \<noteq> 0" for r cs
    using next_counters_length [OF section_level_ge] section_level_ge [of c t] by simp
  then have "is_ordered e \<Longrightarrow> ne_parts e \<noteq> [] \<and> ne_label e = hierarchical_parts (ne_parts e)"
    using count_target_parts [OF m(1)] by (auto simp: format_heading_label_def Let_def)
  then show ?case using "2.hyps" [OF m(1) refl m(2)] m(3) by (simp add: ordered_entries_def)
qed (simp add: ordered_entries_def)

lemma sorted_distinct: "sorted_wrt (<) (xs :: 'a :: linorder list) \<Longrightarrow> distinct xs"
  by (simp add: strict_sorted_iff)

text \<open>
  C18. The numbers of a document's ordered sections grow from one to the next in the order of their parts, if none restarts, so no two are equal; in
  the hierarchical style no two sections have the same label.
\<close>

theorem section_numbers_grow:
  assumes "compute_numbering v = Inr m" and "list_all (\<lambda>t. \<not> nt_restart t) (nv_targets v)"
  shows "sorted_wrt (<) (map ne_parts (ordered_entries m)) \<and>
    (nv_style v = ''hierarchical'' \<longrightarrow> distinct (map format_target_number (ordered_entries m)))"
proof -
  have c: "count_targets (nv_style v) start_counting (nv_targets v) = Inr m" and valid: "list_all valid_target (nv_targets v)"
    using assms(1) by (auto simp: compute_numbering_def rbind_eq_Inr validate_Inr)
  have srt: "sorted_wrt (<) (map ne_parts (ordered_entries m))" using count_targets_sorted [OF c valid assms(2)] by simp
  have "distinct (map format_target_number (ordered_entries m))" if "nv_style v = ''hierarchical''"
  proof -
    have l: "ne_parts e \<noteq> []" "ne_label e = hierarchical_parts (ne_parts e)" if "e \<in> set (ordered_entries m)" for e
      using count_targets_labels [of start_counting "nv_targets v" m] c \<open>nv_style v = ''hierarchical''\<close> that by (auto simp: list_all_iff)
    have "format_target_number e = hierarchical_parts (ne_parts e)" if "e \<in> set (ordered_entries m)" for e
      using l [OF that] that by (auto simp: format_target_number_def ordered_entries_def is_ordered_def)
    then have "map format_target_number (ordered_entries m) = map hierarchical_parts (map ne_parts (ordered_entries m))" by simp
    moreover have "inj_on hierarchical_parts (set (map ne_parts (ordered_entries m)))"
      using l(1) by (auto intro!: inj_onI dest: hierarchical_parts_inj)
    ultimately show ?thesis using sorted_distinct [OF srt] by (simp only: distinct_map)
  qed
  then show ?thesis using srt by blast
qed

definition demo_section :: "nat \<Rightarrow> int \<Rightarrow> target" where
  "demo_section i l = \<lparr>nt_id = [i], nt_kind = Section, nt_level = Some l, nt_caption = None, nt_mode = None, nt_restart = False\<rparr>"

definition demo_view :: view where
  "demo_view = \<lparr>nv_targets = [demo_section 1 2, demo_section 2 5, demo_section 3 2], nv_references = [[2]], nv_style = ''hierarchical''\<rparr>"

lemma count_section:
  assumes "nt_kind t = Section" and "nt_mode t = None" and "\<not> nt_restart t" and "section_level c t = l"
    and "next_counters False l (ct_counters c) = cs"
  shows "count_target ''hierarchical'' c t =
    Inr (\<lparr>ne_kind = Section, ne_parts = cs, ne_caption = nt_caption t, ne_label = hierarchical_parts cs, ne_mode = Some ''ordered'',
           ne_restart = False\<rparr>,
         c\<lparr>ct_counters := cs, ct_root := Some (case ct_root c of
             None \<Rightarrow> nat (max 1 (case nt_level t of None \<Rightarrow> 1 | Some l \<Rightarrow> if l = 0 then 1 else l)) | Some r \<Rightarrow> r), ct_previous := l\<rparr>)"
  using assms by (simp add: count_target_def Let_def format_heading_label_def)

definition demo_counting :: "nat list \<Rightarrow> nat \<Rightarrow> counting" where
  "demo_counting cs l = \<lparr>ct_counters = cs, ct_root = Some 2, ct_previous = l, ct_floats = (\<lambda>_. 0)\<rparr>"

definition demo_entry :: "nat list \<Rightarrow> entry" where
  "demo_entry cs = \<lparr>ne_kind = Section, ne_parts = cs, ne_caption = None, ne_label = hierarchical_parts cs, ne_mode = Some ''ordered'',
     ne_restart = False\<rparr>"

lemma demo_steps:
  "count_target ''hierarchical'' start_counting (demo_section 1 2) = Inr (demo_entry [1], demo_counting [1] 1)"
  "count_target ''hierarchical'' (demo_counting [1] 1) (demo_section 2 5) = Inr (demo_entry [1, 1], demo_counting [1, 1] 2)"
  "count_target ''hierarchical'' (demo_counting [1, 1] 2) (demo_section 3 2) = Inr (demo_entry [2], demo_counting [2] 1)"
  by (subst count_section [OF _ _ _ refl refl];
      simp add: demo_section_def demo_counting_def demo_entry_def start_counting_def section_level_def next_counters_def bump_def
        numeral_2_eq_2)+

theorem section_numbers_grow_witness:
  "\<exists>m. compute_numbering demo_view = Inr m \<and> map ne_parts (ordered_entries m) = [[1], [1, 1], [2]] \<and>
    distinct (map format_target_number (ordered_entries m))"
proof -
  have v: "validate_numbering_view demo_view = Inr ()"
    by (simp add: validate_Inr demo_view_def demo_section_def styles_def valid_target_def)
  let ?m = "[([1], demo_entry [1]), ([2], demo_entry [1, 1]), ([3], demo_entry [2])]"
  have "count_targets ''hierarchical'' start_counting [demo_section 1 2, demo_section 2 5, demo_section 3 2] = Inr ?m"
    by (simp add: demo_steps del: One_nat_def) (simp add: demo_section_def)
  then have m: "compute_numbering demo_view = Inr ?m" by (simp add: compute_numbering_def v) (simp add: demo_view_def)
  have o: "ordered_entries ?m = [demo_entry [1], demo_entry [1, 1], demo_entry [2]]"
    by (simp add: ordered_entries_def is_ordered_def demo_entry_def)
  have parts: "map ne_parts (ordered_entries ?m) = [[1], [1, 1], [2]]" unfolding o by (simp add: demo_entry_def)
  have h: "list_all (\<lambda>t. \<not> nt_restart t) (nv_targets demo_view)" "nv_style demo_view = ''hierarchical''"
    by (simp_all add: demo_view_def demo_section_def)
  have "distinct (map format_target_number (ordered_entries ?m))"
    using conjunct2 [OF section_numbers_grow [OF m h(1)]] h(2) by (rule mp)
  then show ?thesis by (intro exI [of _ ?m] conjI m parts)
qed

end
