(* ===== verification/WriterDocs.thy ===== *)
theory WriterDocs
  imports Numbering
begin

text \<open>
  A document as a tree of blocks (\<open>tools/writer/data_models/writer_ir.py\<close>) and its numbers
  (\<open>tools/writer/numbering.py\<close>): the view that is counted, writing the numbers into the text and taking them out
  again, and the changes of the numbering that a user may make.
\<close>

section \<open>Blocks\<close>

text \<open>A span with the link of its style, which has a type and a target, if it is a dictionary.\<close>

record span =
  sp_text :: utext
  sp_link :: "(string \<times> utext option) option"

text \<open>The numbering of a block, without the keys that are not looked at; the payload of the provider.\<close>

record block_numbering =
  bn_level :: "int option"
  bn_mode :: "string option"
  bn_style :: "string option"
  bn_restart :: bool

record block_data =
  bk_id :: utext
  bk_type :: string
  bk_content :: utext
  bk_spans :: "span list"
  bk_numbering :: block_numbering
  bk_payload :: "(string \<times> utext) list"
  bk_editable :: bool

datatype block = Block (data: block_data) (children: "block list")

record document =
  doc_style :: "string option"
  doc_blocks :: "block list"

fun iter_block :: "block \<Rightarrow> block_data list" where
  "iter_block (Block d cs) = d # concat (map iter_block cs)"

definition iter_blocks :: "block list \<Rightarrow> block_data list" where
  "iter_blocks bs = concat (map iter_block bs)"

fun map_block :: "(block_data \<Rightarrow> block_data) \<Rightarrow> block \<Rightarrow> block" where
  "map_block f (Block d cs) = Block (f d) (map (map_block f) cs)"

definition map_blocks :: "(block_data \<Rightarrow> block_data) \<Rightarrow> document \<Rightarrow> document" where
  "map_blocks f doc = doc\<lparr>doc_blocks := map (map_block f) (doc_blocks doc)\<rparr>"

section \<open>The view\<close>

definition kind_by_type :: "string \<Rightarrow> num_kind option" where
  "kind_by_type t =
     map_of [(''heading'', Section), (''image'', Figure), (''table'', Table), (''code'', Code)] t"

definition internal_target_ids :: "block_data \<Rightarrow> utext list" where
  "internal_target_ids d =
     concat (map (\<lambda>s. case sp_link s of Some (k, Some i) \<Rightarrow> if k = ''internal_ref'' \<and> i \<noteq> [] then [i] else [] | _ \<Rightarrow> [])
       (bk_spans d))"

definition block_target :: "block_data \<Rightarrow> target list res" where
  "block_target d =
     (case kind_by_type (bk_type d) of
        None \<Rightarrow> Inr []
      | Some k \<Rightarrow>
          let heading = (bk_type d = ''heading'');
              n = bk_numbering d;
              text = ustrip (bk_content d)
          in if heading \<and> bn_style n \<noteq> None then Inl ValueError
             else Inr [\<lparr>nt_id = bk_id d, nt_kind = k, nt_level = (if heading then bn_level n else None),
                        nt_caption = (if text = [] then None else Some text),
                        nt_mode = (if heading then bn_mode n else None), nt_restart = heading \<and> bn_restart n\<rparr>])"

definition build_numbering_view_from_ir :: "document \<Rightarrow> view res" where
  "build_numbering_view_from_ir doc =
     (let bs = iter_blocks (doc_blocks doc);
          style = (case doc_style doc of None \<Rightarrow> ''hierarchical'' | Some s \<Rightarrow> if s = [] then ''hierarchical'' else s)
      in rbind (rmap block_target bs) (\<lambda>ts.
           Inr \<lparr>nv_targets = concat ts, nv_references = concat (map internal_target_ids bs), nv_style = style\<rparr>))"

section \<open>Numbers in the text\<close>

definition numbered_type :: "string \<Rightarrow> bool" where
  "numbered_type t \<longleftrightarrow> t \<in> {''heading'', ''image'', ''table'', ''code''}"

definition add_prefix :: "utext \<Rightarrow> block_data \<Rightarrow> block_data" where
  "add_prefix p d =
     d\<lparr>bk_content := p @ 32 # bk_content d,
       bk_spans := (case bk_spans d of [] \<Rightarrow> [] | s # ss \<Rightarrow>
                      (if sp_text s \<noteq> [] then s\<lparr>sp_text := p @ 32 # sp_text s\<rparr> else s) # ss)\<rparr>"

definition materialize_block :: "numbering_map \<Rightarrow> block_data \<Rightarrow> block_data" where
  "materialize_block m d =
     (case map_of m (bk_id d) of
        None \<Rightarrow> d
      | Some e \<Rightarrow>
          if \<not> numbered_type (bk_type d) then d
          else
            let p = format_target_number e
            in if bk_type d = ''code'' then d\<lparr>bk_payload := AList.update ''numbering_caption'' p (bk_payload d)\<rparr>
               else if p \<noteq> [] then add_prefix p d
               else d)"

definition materialize_ir :: "document \<Rightarrow> numbering_map \<Rightarrow> document" where
  "materialize_ir doc m = map_blocks (materialize_block m) doc"

definition strip_prefix :: "utext \<Rightarrow> utext \<Rightarrow> utext" where
  "strip_prefix p t = (if p \<noteq> [] \<and> take (length p) t = p then drop (length p) t else t)"

definition join_spans :: "block_data \<Rightarrow> block_data" where
  "join_spans d = (if bk_spans d \<noteq> [] then d\<lparr>bk_content := concat (map sp_text (bk_spans d))\<rparr> else d)"

definition dematerialize_block :: "numbering_map \<Rightarrow> block_data \<Rightarrow> block_data" where
  "dematerialize_block m d =
     (let d = d\<lparr>bk_payload := AList.delete ''numbering_caption'' (bk_payload d)\<rparr>;
          d = (case map_of m (bk_id d) of
                 None \<Rightarrow> d
               | Some e \<Rightarrow>
                   if kind_by_type (bk_type d) \<noteq> Some (ne_kind e) then d
                   else
                     let n = format_target_number e;
                         p = (if n \<noteq> [] then n @ [32] else [])
                     in d\<lparr>bk_content := strip_prefix p (bk_content d),
                          bk_spans := (case bk_spans d of [] \<Rightarrow> [] | s # ss \<Rightarrow> s\<lparr>sp_text := strip_prefix p (sp_text s)\<rparr> # ss)\<rparr>)
      in join_spans d)"

definition dematerialize_ir :: "document \<Rightarrow> numbering_map \<Rightarrow> document" where
  "dematerialize_ir doc m = map_blocks (dematerialize_block m) doc"

section \<open>Changes of the numbering\<close>

text \<open>The raw update: a type, and the values that it gives.\<close>

record num_update =
  up_type :: string
  up_style :: "string option"
  up_target :: "utext option"
  up_mode :: "string option"
  up_restart :: "bool option"

definition validate_numbering_update :: "num_update \<Rightarrow> unit res" where
  "validate_numbering_update u =
     (if up_type u = ''ordered_style'' then ensure (\<exists>s \<in> set_option (up_style u). s \<in> set styles) ValueError
      else if up_type u = ''heading'' then
        rbind (ensure (case up_target u of None \<Rightarrow> False | Some t \<Rightarrow> t \<noteq> []) ValueError) (\<lambda>_.
        rbind (ensure (case up_mode u of None \<Rightarrow> True | Some m \<Rightarrow> m \<in> {''ordered'', ''unordered''}) ValueError) (\<lambda>_.
        rbind (ensure (up_mode u \<noteq> None \<or> up_restart u \<noteq> None) ValueError) (\<lambda>_.
        ensure (\<not> (up_mode u = Some ''unordered'' \<and> up_restart u = Some True)) ValueError)))
      else Inl ValueError)"

definition updated_heading_numbering :: "block_numbering \<Rightarrow> num_update \<Rightarrow> block_numbering" where
  "updated_heading_numbering n u =
     (let mode = (case up_mode u of Some m \<Rightarrow> m | None \<Rightarrow> (case bn_mode n of Some m \<Rightarrow> m | None \<Rightarrow> ''ordered''));
          n = n\<lparr>bn_style := None\<rparr>
      in if mode = ''unordered'' then n\<lparr>bn_mode := Some ''unordered'', bn_restart := False\<rparr>
         else if (case up_restart u of Some r \<Rightarrow> r | None \<Rightarrow> bn_restart n) then n\<lparr>bn_mode := None, bn_restart := True\<rparr>
         else n\<lparr>bn_mode := None, bn_restart := False\<rparr>)"

text \<open>The first block with an id, in the order of the walk, is changed.\<close>

fun update_block :: "utext \<Rightarrow> (block_data \<Rightarrow> block_data) \<Rightarrow> block \<Rightarrow> block option"
  and update_first :: "utext \<Rightarrow> (block_data \<Rightarrow> block_data) \<Rightarrow> block list \<Rightarrow> block list option" where
  "update_block i f (Block d cs) =
     (if bk_id d = i then Some (Block (f d) cs) else map_option (Block d) (update_first i f cs))"
| "update_first i f [] = None"
| "update_first i f (b # bs) =
     (case update_block i f b of Some b' \<Rightarrow> Some (b' # bs) | None \<Rightarrow> map_option (Cons b) (update_first i f bs))"

definition apply_numbering_update_ir :: "document \<Rightarrow> num_update \<Rightarrow> document res" where
  "apply_numbering_update_ir doc u =
     rbind (validate_numbering_update u) (\<lambda>_.
       if up_type u = ''ordered_style'' then Inr (doc\<lparr>doc_style := up_style u\<rparr>)
       else
         let i = (case up_target u of None \<Rightarrow> [] | Some t \<Rightarrow> t)
         in case List.find (\<lambda>d. bk_id d = i) (iter_blocks (doc_blocks doc)) of
              None \<Rightarrow> Inl ValueError
            | Some d \<Rightarrow>
                if bk_type d \<noteq> ''heading'' \<or> \<not> bk_editable d then Inl ValueError
                else of_opt ValueError (map_option (\<lambda>bs. doc\<lparr>doc_blocks := bs\<rparr>)
                  (update_first i (\<lambda>d. d\<lparr>bk_numbering := updated_heading_numbering (bk_numbering d) u\<rparr>) (doc_blocks doc))))"

section \<open>Writing the numbers and taking them out\<close>

text \<open>
  A block as the converters make it: its content is the text of its spans, it carries no caption, and a code block does not
  begin with its own number.
\<close>

definition begins_with :: "utext \<Rightarrow> utext \<Rightarrow> bool" where
  "begins_with p t \<longleftrightarrow> p \<noteq> [] \<and> take (length p) t = p"

definition plain :: "numbering_map \<Rightarrow> block_data \<Rightarrow> bool" where
  "plain m d \<longleftrightarrow>
     (bk_spans d = [] \<or> bk_content d = concat (map sp_text (bk_spans d))) \<and>
     ''numbering_caption'' \<notin> fst ` set (bk_payload d) \<and>
     (bk_type d = ''code'' \<and> map_of m (bk_id d) \<noteq> None \<longrightarrow>
        (let p = format_target_number (the (map_of m (bk_id d))) @ [32]
         in \<not> begins_with p (bk_content d) \<and> list_all (\<lambda>s. \<not> begins_with p (sp_text s)) (take 1 (bk_spans d))))"

lemma strip_prefix_added [simp]: "strip_prefix (n @ [32]) (n @ 32 # t) = t"
  by (simp add: strip_prefix_def)

lemma strip_prefix_none: "\<not> begins_with p t \<Longrightarrow> strip_prefix p t = t" "strip_prefix [] t = t"
  by (auto simp: strip_prefix_def begins_with_def)

lemma delete_update: "k \<notin> fst ` set al \<Longrightarrow> AList.delete k (AList.update k v al) = al"
  by (induction al) auto

lemma delete_absent: "k \<notin> fst ` set al \<Longrightarrow> AList.delete k al = al"
  by (induction al) auto

lemma kind_by_type_simps:
  "kind_by_type ''heading'' = Some Section" "kind_by_type ''image'' = Some Figure" "kind_by_type ''table'' = Some Table"
  "kind_by_type ''code'' = Some Code"
  by (simp_all add: kind_by_type_def)

lemma kind_by_type_None: "kind_by_type t = None \<longleftrightarrow> \<not> numbered_type t"
  by (simp add: kind_by_type_def numbered_type_def)

lemma join_plain: "plain m d \<Longrightarrow> join_spans d = d"
  by (auto simp: join_spans_def plain_def)

lemma block_roundtrip:
  assumes "plain m d" and "\<And>e k. map_of m (bk_id d) = Some e \<Longrightarrow> kind_by_type (bk_type d) = Some k \<Longrightarrow> ne_kind e = k"
  shows "dematerialize_block m (materialize_block m d) = d"
proof -
  have pay: "d\<lparr>bk_payload := AList.delete ''numbering_caption'' (bk_payload d)\<rparr> = d"
    using assms(1) by (simp add: plain_def delete_absent)
  show ?thesis
  proof (cases "map_of m (bk_id d)")
    case None
    then show ?thesis using join_plain [OF assms(1)] pay by (simp add: materialize_block_def dematerialize_block_def)
  next
    case (Some e)
    show ?thesis
    proof (cases "numbered_type (bk_type d)")
      case False
      then have "kind_by_type (bk_type d) = None" by (simp add: kind_by_type_None)
      then show ?thesis using Some False join_plain [OF assms(1)] pay by (simp add: materialize_block_def dematerialize_block_def)
    next
      case True
      then obtain k where k: "kind_by_type (bk_type d) = Some k" using kind_by_type_None by blast
      have e: "ne_kind e = k" by (rule assms(2) [OF Some k])
      let ?n = "format_target_number e"
      show ?thesis
      proof (cases "bk_type d = ''code''")
        case code: True
        have clear: "\<not> begins_with (?n @ [32]) (bk_content d)" "list_all (\<lambda>s. \<not> begins_with (?n @ [32]) (sp_text s)) (take 1 (bk_spans d))"
          using assms(1) code Some by (simp_all add: plain_def Let_def)
        have sp: "(case bk_spans d of [] \<Rightarrow> [] | s # ss \<Rightarrow> s\<lparr>sp_text := strip_prefix (if ?n \<noteq> [] then ?n @ [32] else []) (sp_text s)\<rparr> # ss) = bk_spans d"
          using clear(2) by (auto simp: strip_prefix_none split: list.splits)
        have "strip_prefix (if ?n \<noteq> [] then ?n @ [32] else []) (bk_content d) = bk_content d"
          using clear(1) by (simp add: strip_prefix_none)
        then show ?thesis
          using Some True code k e sp assms(1) join_plain [OF assms(1)]
          by (simp add: materialize_block_def dematerialize_block_def delete_update plain_def Let_def)
      next
        case other: False
        show ?thesis
        proof (cases "?n = []")
          case n: True
          have "(case bk_spans d of [] \<Rightarrow> [] | s # ss \<Rightarrow> s\<lparr>sp_text := strip_prefix [] (sp_text s)\<rparr> # ss) = bk_spans d"
            by (auto simp: strip_prefix_none split: list.splits)
          then show ?thesis using Some True other n k e pay join_plain [OF assms(1)]
            by (simp add: materialize_block_def dematerialize_block_def strip_prefix_none Let_def)
        next
          case n: False
          have sp: "(case bk_spans (add_prefix ?n d) of [] \<Rightarrow> [] | s # ss \<Rightarrow> s\<lparr>sp_text := strip_prefix (?n @ [32]) (sp_text s)\<rparr> # ss) = bk_spans d"
            using n by (auto simp: add_prefix_def strip_prefix_def split: list.splits)
          have ct: "strip_prefix (?n @ [32]) (bk_content (add_prefix ?n d)) = bk_content d" by (simp add: add_prefix_def)
          have same: "bk_id (add_prefix ?n d) = bk_id d" "bk_type (add_prefix ?n d) = bk_type d" "bk_payload (add_prefix ?n d) = bk_payload d"
            by (simp_all add: add_prefix_def)
          have "(add_prefix ?n d)\<lparr>bk_payload := bk_payload d, bk_content := bk_content d, bk_spans := bk_spans d\<rparr> = d"
            by (simp add: add_prefix_def)
          moreover have "AList.delete ''numbering_caption'' (bk_payload d) = bk_payload d" using assms(1) by (simp add: plain_def delete_absent)
          ultimately show ?thesis using Some True other n k e sp ct same join_plain [OF assms(1)]
            by (simp add: materialize_block_def dematerialize_block_def Let_def)
        qed
      qed
    qed
  qed
qed

lemma map_block_id: "(\<And>d. d \<in> set (iter_block b) \<Longrightarrow> f d = d) \<Longrightarrow> map_block f b = b"
proof (induction b)
  case (Block d cs)
  have "map_block f c = c" if "c \<in> set cs" for c using Block.IH [OF that] Block.prems that by auto
  then show ?case using Block.prems by (auto intro: map_idI)
qed

lemma map_block_comp: "map_block f (map_block g b) = map_block (\<lambda>d. f (g d)) b"
  by (induction b) auto

lemma map_blocks_id: "(\<And>d. d \<in> set (iter_blocks (doc_blocks doc)) \<Longrightarrow> f (g d) = d) \<Longrightarrow> map_blocks f (map_blocks g doc) = doc"
proof -
  assume a: "\<And>d. d \<in> set (iter_blocks (doc_blocks doc)) \<Longrightarrow> f (g d) = d"
  have "map_block (\<lambda>d. f (g d)) b = b" if "b \<in> set (doc_blocks doc)" for b
    by (rule map_block_id) (use a that in \<open>auto simp: iter_blocks_def\<close>)
  then have "map (map_block (\<lambda>d. f (g d))) (doc_blocks doc) = doc_blocks doc" by (intro map_idI)
  then show ?thesis by (simp add: map_blocks_def map_block_comp o_def)
qed

text \<open>Every block that is counted has an entry of its kind.\<close>

lemma block_target_kind: "block_target d = Inr ts \<Longrightarrow> kind_by_type (bk_type d) = Some k \<Longrightarrow> \<exists>t. ts = [t] \<and> nt_id t = bk_id d \<and> nt_kind t = k"
  by (auto simp: block_target_def Let_def split: if_splits)

lemma view_entry:
  assumes "build_numbering_view_from_ir doc = Inr v" and "compute_numbering v = Inr m"
    and "d \<in> set (iter_blocks (doc_blocks doc))" and "kind_by_type (bk_type d) = Some k"
  shows "\<exists>e. map_of m (bk_id d) = Some e \<and> ne_kind e = k"
proof -
  obtain tss where ts: "rmap block_target (iter_blocks (doc_blocks doc)) = Inr tss" "nv_targets v = concat tss"
    using assms(1) by (auto simp: build_numbering_view_from_ir_def Let_def rbind_eq_Inr)
  then have all: "list_all2 (\<lambda>x y. block_target x = Inr y) (iter_blocks (doc_blocks doc)) tss" by (simp add: rmap_Inr_iff)
  obtain n where n: "n < length (iter_blocks (doc_blocks doc))" "iter_blocks (doc_blocks doc) ! n = d"
    using assms(3) by (auto simp: in_set_conv_nth)
  have y: "tss ! n \<in> set tss" "block_target d = Inr (tss ! n)"
    using list_all2_nthD [OF all n(1)] n list_all2_lengthD [OF all] by simp_all
  obtain t where t0: "tss ! n = [t]" "nt_id t = bk_id d" "nt_kind t = k"
    using block_target_kind [OF y(2) assms(4)] by blast
  then have t: "t \<in> set (nv_targets v)" "nt_id t = bk_id d" "nt_kind t = k" using y(1) ts(2) by force+
  have c: "count_targets (nv_style v) start_counting (nv_targets v) = Inr m" and dist: "distinct (map nt_id (nv_targets v))"
    using assms(2) by (auto simp: compute_numbering_def rbind_eq_Inr validate_Inr)
  obtain i where i: "i < length (nv_targets v)" "nv_targets v ! i = t" using t(1) by (auto simp: in_set_conv_nth)
  note k = count_targets_kinds [OF c]
  then have len: "length m = length (nv_targets v)" by (simp add: list_all2_lengthD)
  obtain j e where e: "m ! i = (j, e)" by fastforce
  then have "j = bk_id d" "ne_kind e = k" using list_all2_nthD [OF k i(1)] i(2) t by auto
  moreover have "distinct (map fst m)" using dist count_targets_ids [OF c] by simp
  moreover have "(j, e) \<in> set m" using e i(1) len nth_mem by metis
  ultimately show ?thesis by auto
qed

text \<open>
  C8. Writing the numbers of a document into its text and taking them out again gives the document back, for every document whose
  numbering can be computed, with any tree of blocks, if each block's content is the text of its spans and no code block begins
  with its own number.
\<close>

theorem numbering_roundtrip:
  assumes "build_numbering_view_from_ir doc = Inr v" and "compute_numbering v = Inr m"
    and "list_all (plain m) (iter_blocks (doc_blocks doc))"
  shows "dematerialize_ir (materialize_ir doc m) m = doc"
proof -
  have "dematerialize_block m (materialize_block m d) = d" if d: "d \<in> set (iter_blocks (doc_blocks doc))" for d
  proof (rule block_roundtrip)
    show "plain m d" using assms(3) d by (simp add: list_all_iff)
    show "ne_kind e = k" if "map_of m (bk_id d) = Some e" "kind_by_type (bk_type d) = Some k" for e k
      using view_entry [OF assms(1,2) d that(2)] that(1) by simp
  qed
  then show ?thesis unfolding dematerialize_ir_def materialize_ir_def by (rule map_blocks_id)
qed

section \<open>What a change changes\<close>

lemma update_first_split:
  "(\<forall>b'. update_block i f b = Some b' \<longrightarrow> (\<exists>us d vs. iter_block b = us @ d # vs \<and> iter_block b' = us @ f d # vs \<and>
      bk_id d = i \<and> i \<notin> bk_id ` set us)) \<and> (update_block i f b = None \<longrightarrow> i \<notin> bk_id ` set (iter_block b))"
  "(\<forall>bs'. update_first i f bs = Some bs' \<longrightarrow> (\<exists>us d vs. iter_blocks bs = us @ d # vs \<and> iter_blocks bs' = us @ f d # vs \<and>
      bk_id d = i \<and> i \<notin> bk_id ` set us)) \<and> (update_first i f bs = None \<longrightarrow> i \<notin> bk_id ` set (iter_blocks bs))"
proof (induction i f b and i f bs rule: update_block_update_first.induct)
  case (1 i f d cs)
  show ?case
  proof (cases "bk_id d = i")
    case True
    then have ex: "\<exists>us e vs. iter_block (Block d cs) = us @ e # vs \<and> iter_block (Block (f d) cs) = us @ f e # vs \<and> bk_id e = i \<and> i \<notin> bk_id ` set us"
      by (intro exI [of _ "[]"] exI [of _ d] exI [of _ "concat (map iter_block cs)"]) simp
    have u: "update_block i f (Block d cs) = Some (Block (f d) cs)" using True by simp
    show ?thesis
    proof (intro conjI allI impI)
      fix b'
      assume "update_block i f (Block d cs) = Some b'"
      with u have "b' = Block (f d) cs" by (simp only: option.inject)
      then show "\<exists>us e vs. iter_block (Block d cs) = us @ e # vs \<and> iter_block b' = us @ f e # vs \<and> bk_id e = i \<and> i \<notin> bk_id ` set us"
        using ex by (rule ssubst)
    next
      assume "update_block i f (Block d cs) = None"
      from trans [OF u [symmetric] this] show "i \<notin> bk_id ` set (iter_block (Block d cs))" by (rule notE [OF option.distinct(2)])
    qed
  next
    case False
    note IH = 1 [OF False]
    have "\<exists>us e vs. iter_block (Block d cs) = us @ e # vs \<and> iter_block (Block d cs') = us @ f e # vs \<and> bk_id e = i \<and> i \<notin> bk_id ` set us"
      if u: "update_first i f cs = Some cs'" for cs'
    proof -
      obtain us e vs where "iter_blocks cs = us @ e # vs" "iter_blocks cs' = us @ f e # vs" "bk_id e = i" "i \<notin> bk_id ` set us"
        using mp [OF spec [OF conjunct1 [OF IH]] u] by (elim exE conjE)
      then show ?thesis using False by (intro exI [of _ "d # us"] exI [of _ e] exI [of _ vs]) (auto simp: iter_blocks_def)
    qed
    then show ?thesis using IH False by (auto simp: iter_blocks_def)
  qed
next
  case (2 i f)
  then show ?case by (simp add: iter_blocks_def)
next
  case (3 i f b bs)
  show ?case
  proof (cases "update_block i f b")
    case None
    have b: "i \<notin> bk_id ` set (iter_block b)" using 3(1) None by simp
    note IH = 3(2) [OF None]
    have "\<exists>us e vs. iter_blocks (b # bs) = us @ e # vs \<and> iter_blocks (b # bs') = us @ f e # vs \<and> bk_id e = i \<and> i \<notin> bk_id ` set us"
      if u: "update_first i f bs = Some bs'" for bs'
    proof -
      obtain us e vs where "iter_blocks bs = us @ e # vs" "iter_blocks bs' = us @ f e # vs" "bk_id e = i" "i \<notin> bk_id ` set us"
        using mp [OF spec [OF conjunct1 [OF IH]] u] by (elim exE conjE)
      then show ?thesis using b by (intro exI [of _ "iter_block b @ us"] exI [of _ e] exI [of _ vs]) (auto simp: iter_blocks_def)
    qed
    then show ?thesis using IH None b by (auto simp: iter_blocks_def)
  next
    case (Some b')
    then obtain us e vs where "iter_block b = us @ e # vs" "iter_block b' = us @ f e # vs" "bk_id e = i" "i \<notin> bk_id ` set us"
      using mp [OF spec [OF conjunct1 [OF 3(1)]] Some] by (elim exE conjE)
    then have "\<exists>us e vs. iter_blocks (b # bs) = us @ e # vs \<and> iter_blocks (b' # bs) = us @ f e # vs \<and> bk_id e = i \<and> i \<notin> bk_id ` set us"
      by (intro exI [of _ us] exI [of _ e] exI [of _ "vs @ concat (map iter_block bs)"]) (simp add: iter_blocks_def)
    then show ?thesis using Some by simp
  qed
qed

text \<open>
  C31. A change of one heading that is accepted changes the numbering of the first block with that id, which is an editable heading, and no other
  block, text or style; a heading is then never both unordered and restarting.
\<close>

theorem heading_update_changes_one:
  assumes "apply_numbering_update_ir doc u = Inr doc'" and "up_type u = ''heading''"
  shows "\<exists>us d vs. iter_blocks (doc_blocks doc) = us @ d # vs \<and>
    iter_blocks (doc_blocks doc') = us @ d\<lparr>bk_numbering := updated_heading_numbering (bk_numbering d) u\<rparr> # vs \<and>
    up_target u = Some (bk_id d) \<and> bk_id d \<notin> bk_id ` set us \<and> bk_type d = ''heading'' \<and> bk_editable d \<and> doc_style doc' = doc_style doc \<and>
    \<not> (bn_restart (updated_heading_numbering (bk_numbering d) u) \<and> bn_mode (updated_heading_numbering (bk_numbering d) u) = Some ''unordered'')"
proof -
  let ?f = "\<lambda>d. d\<lparr>bk_numbering := updated_heading_numbering (bk_numbering d) u\<rparr>"
  obtain i where i: "up_target u = Some i"
    using assms by (auto simp: apply_numbering_update_ir_def validate_numbering_update_def rbind_eq_Inr ensure_eq_Inr split: option.splits)
  obtain e bs where e: "List.find (\<lambda>d. bk_id d = i) (iter_blocks (doc_blocks doc)) = Some e" "bk_type e = ''heading''" "bk_editable e"
    and bs: "update_first i ?f (doc_blocks doc) = Some bs" "doc' = doc\<lparr>doc_blocks := bs\<rparr>"
    using assms i by (auto simp: apply_numbering_update_ir_def rbind_eq_Inr of_opt_eq_Inr split: option.splits if_splits)
  obtain us d vs where d: "iter_blocks (doc_blocks doc) = us @ d # vs" "iter_blocks bs = us @ ?f d # vs" "bk_id d = i" "i \<notin> bk_id ` set us"
    using update_first_split(2) [of i ?f "doc_blocks doc"] bs(1) by blast
  have "List.find (\<lambda>d. bk_id d = i) us = None" using d(4) by (auto simp: find_None_iff)
  then have "List.find (\<lambda>d. bk_id d = i) (us @ d # vs) = Some d" using d(3) by (induction us) (auto split: if_splits)
  then have "e = d" using e(1) d(1) by simp
  moreover have "\<not> (bn_restart (updated_heading_numbering n u) \<and> bn_mode (updated_heading_numbering n u) = Some ''unordered'')" for n
    by (simp add: updated_heading_numbering_def Let_def)
  ultimately show ?thesis using d e(2,3) i bs(2) by (intro exI [of _ us] exI [of _ d] exI [of _ vs]) simp
qed

lemma count_target_style:
  assumes "count_target st c t = Inr (e, c')" and "count_target st' c t = Inr (e', c'')"
  shows "c'' = c' \<and> ne_parts e' = ne_parts e \<and> ne_kind e' = ne_kind e"
  using assms by (auto simp: count_target_def Let_def rbind_eq_Inr split: if_splits)

lemma count_targets_style:
  "count_targets st c ts = Inr m \<Longrightarrow> count_targets st' c ts = Inr m' \<Longrightarrow>
    map (\<lambda>(i, e). (i, ne_kind e, ne_parts e)) m' = map (\<lambda>(i, e). (i, ne_kind e, ne_parts e)) m"
proof (induction st c ts arbitrary: m m' rule: count_targets.induct)
  case (2 st c t ts)
  obtain e c1 n where 1: "count_target st c t = Inr (e, c1)" "count_targets st c1 ts = Inr n" "m = (nt_id t, e) # n"
    using "2.prems"(1) by (auto simp: rbind_eq_Inr)
  obtain e' c2 n' where 2: "count_target st' c t = Inr (e', c2)" "count_targets st' c2 ts = Inr n'" "m' = (nt_id t, e') # n'"
    using "2.prems"(2) by (auto simp: rbind_eq_Inr)
  note s = count_target_style [OF 1(1) 2(1)]
  then show ?case using "2.IH" [OF 1(1) refl 1(2), of n'] 1(3) 2 by simp
qed simp

text \<open>A change of the style changes labels only.\<close>

lemma style_update_keeps_numbers:
  assumes "apply_numbering_update_ir doc u = Inr doc'" and "up_type u = ''ordered_style''"
    and "build_numbering_view_from_ir doc = Inr v" and "compute_numbering v = Inr m"
    and "build_numbering_view_from_ir doc' = Inr v'" and "compute_numbering v' = Inr m'"
  shows "map (\<lambda>(i, e). (i, ne_kind e, ne_parts e)) m' = map (\<lambda>(i, e). (i, ne_kind e, ne_parts e)) m"
proof -
  have "doc_blocks doc' = doc_blocks doc" using assms(1,2) by (auto simp: apply_numbering_update_ir_def rbind_eq_Inr)
  then have "nv_targets v' = nv_targets v"
    using assms(3,5) by (auto simp: build_numbering_view_from_ir_def Let_def rbind_eq_Inr)
  then show ?thesis
    using assms(4,6) count_targets_style [of "nv_style v" start_counting "nv_targets v" m "nv_style v'" m']
    by (auto simp: compute_numbering_def rbind_eq_Inr)
qed

definition demo_block :: block_data where
  "demo_block = \<lparr>bk_id = [1], bk_type = ''heading'', bk_content = [65], bk_spans = [\<lparr>sp_text = [65], sp_link = None\<rparr>],
     bk_numbering = \<lparr>bn_level = Some 1, bn_mode = None, bn_style = None, bn_restart = False\<rparr>, bk_payload = [], bk_editable = True\<rparr>"

definition demo_doc :: document where
  "demo_doc = \<lparr>doc_style = None, doc_blocks = [Block demo_block []]\<rparr>"

definition demo_heading :: target where
  "demo_heading = \<lparr>nt_id = [1], nt_kind = Section, nt_level = Some 1, nt_caption = Some [65], nt_mode = None, nt_restart = False\<rparr>"

lemma demo_doc_numbers:
  "build_numbering_view_from_ir demo_doc = Inr \<lparr>nv_targets = [demo_heading], nv_references = [], nv_style = ''hierarchical''\<rparr>"
  "compute_numbering \<lparr>nv_targets = [demo_heading], nv_references = [], nv_style = ''hierarchical''\<rparr> =
     Inr [([1], \<lparr>ne_kind = Section, ne_parts = [1], ne_caption = Some [65], ne_label = hierarchical_parts [1],
       ne_mode = Some ''ordered'', ne_restart = False\<rparr>)]"
proof -
  show "build_numbering_view_from_ir demo_doc = Inr \<lparr>nv_targets = [demo_heading], nv_references = [], nv_style = ''hierarchical''\<rparr>"
    by (simp add: build_numbering_view_from_ir_def demo_doc_def demo_block_def demo_heading_def iter_blocks_def block_target_def
        kind_by_type_def ustrip_def uspace_def internal_target_ids_def)
  have v: "validate_numbering_view \<lparr>nv_targets = [demo_heading], nv_references = [], nv_style = ''hierarchical''\<rparr> = Inr ()"
    by (simp add: validate_Inr demo_heading_def styles_def valid_target_def)
  have c: "count_target ''hierarchical'' start_counting demo_heading =
      Inr (\<lparr>ne_kind = Section, ne_parts = [1], ne_caption = Some [65], ne_label = hierarchical_parts [1],
        ne_mode = Some ''ordered'', ne_restart = False\<rparr>, start_counting\<lparr>ct_counters := [1], ct_root := Some 1, ct_previous := 1\<rparr>)"
    by (subst count_section [OF _ _ _ refl refl])
      (simp_all add: demo_heading_def start_counting_def section_level_def next_counters_def bump_def)
  show "compute_numbering \<lparr>nv_targets = [demo_heading], nv_references = [], nv_style = ''hierarchical''\<rparr> =
     Inr [([1], \<lparr>ne_kind = Section, ne_parts = [1], ne_caption = Some [65], ne_label = hierarchical_parts [1],
       ne_mode = Some ''ordered'', ne_restart = False\<rparr>)]"
    by (simp add: compute_numbering_def v c del: One_nat_def) (simp add: demo_heading_def)
qed

theorem numbering_roundtrip_witness:
  "\<exists>m. map bk_content (iter_blocks (doc_blocks (materialize_ir demo_doc m))) = [hierarchical_parts [1] @ [32, 65]] \<and>
    dematerialize_ir (materialize_ir demo_doc m) m = demo_doc"
proof -
  let ?m = "[([1], \<lparr>ne_kind = Section, ne_parts = [1], ne_caption = Some [65], ne_label = hierarchical_parts [1],
       ne_mode = Some ''ordered'', ne_restart = False\<rparr>)] :: numbering_map"
  have l: "hierarchical_parts [1] \<noteq> []" by (simp add: hierarchical_parts_def)
  have "list_all (plain ?m) (iter_blocks (doc_blocks demo_doc))"
    by (simp add: demo_doc_def demo_block_def iter_blocks_def plain_def)
  from numbering_roundtrip [OF demo_doc_numbers this]
  have r: "dematerialize_ir (materialize_ir demo_doc ?m) ?m = demo_doc" .
  have "map bk_content (iter_blocks (doc_blocks (materialize_ir demo_doc ?m))) = [hierarchical_parts [1] @ [32, 65]]"
    using l by (simp add: materialize_ir_def map_blocks_def materialize_block_def demo_doc_def demo_block_def iter_blocks_def
        numbered_type_def format_target_number_def add_prefix_def Let_def del: One_nat_def)
  then show ?thesis using r by (intro exI [of _ ?m] conjI)
qed

definition demo_update :: num_update where
  "demo_update = \<lparr>up_type = ''heading'', up_style = None, up_target = Some [1], up_mode = None, up_restart = Some True\<rparr>"

theorem heading_update_changes_one_witness:
  "\<exists>doc'. apply_numbering_update_ir demo_doc demo_update = Inr doc' \<and> doc_style doc' = None \<and>
    map (bn_restart \<circ> bk_numbering) (iter_blocks (doc_blocks doc')) = [True]"
proof -
  have f: "List.find (\<lambda>d. bk_id d = [1]) (iter_blocks (doc_blocks demo_doc)) = Some demo_block"
    by (simp add: demo_doc_def demo_block_def iter_blocks_def)
  obtain doc' where a: "apply_numbering_update_ir demo_doc demo_update = Inr doc'"
    "map (bn_restart \<circ> bk_numbering) (iter_blocks (doc_blocks doc')) = [True]"
  proof
    let ?d = "demo_block\<lparr>bk_numbering := updated_heading_numbering (bk_numbering demo_block) demo_update\<rparr>"
    show "apply_numbering_update_ir demo_doc demo_update = Inr (demo_doc\<lparr>doc_blocks := [Block ?d []]\<rparr>)"
      by (simp add: apply_numbering_update_ir_def demo_update_def validate_numbering_update_def demo_doc_def demo_block_def
          iter_blocks_def Let_def)
    show "map (bn_restart \<circ> bk_numbering) (iter_blocks (doc_blocks (demo_doc\<lparr>doc_blocks := [Block ?d []]\<rparr>))) = [True]"
      by (simp add: iter_blocks_def updated_heading_numbering_def demo_update_def demo_block_def)
  qed
  have t: "up_type demo_update = ''heading''" by (simp add: demo_update_def)
  from heading_update_changes_one [OF a(1) t] have "doc_style doc' = doc_style demo_doc" by (elim exE conjE)
  then show ?thesis using a by (intro exI [of _ doc'] conjI) (simp_all add: demo_doc_def)
qed

end
