(* ===== verification/AgentTurns.thy ===== *)
theory AgentTurns
  imports ToolBatch "HOL-Library.Multiset"
begin

text \<open>
  The messages of an agent: the results of tools as the model sees them (\<open>tools/agent/base.py\<close>,
  \<open>tools/agent/functionCall.py\<close>), and the complete tool turns of a history with what a history compactor may return
  (\<open>tools/agent/history.py\<close>).
\<close>

section \<open>Results of tools\<close>

text \<open>An envelope holds \<open>ok\<close> and the value or the message.\<close>

definition envelope :: "val \<Rightarrow> (bool \<times> kws) option" where
  "envelope r =
     (case as_dict r of
        None \<Rightarrow> None
      | Some d \<Rightarrow>
          (case map_of d ''ok'' of
             Some (VBool True) \<Rightarrow> if map_of d ''value'' \<noteq> None then Some (True, d) else None
           | Some (VBool False) \<Rightarrow> Some (False, d)
           | _ \<Rightarrow> None))"

text \<open>\<open>str(result.get('msg', repr(result)))\<close>.\<close>

definition failure_text :: "(val \<Rightarrow> string) \<Rightarrow> val \<Rightarrow> kws \<Rightarrow> string" where
  "failure_text rep r d = (case map_of d ''msg'' of Some m \<Rightarrow> py_str rep m | None \<Rightarrow> rep r)"

definition unwrap_tool_result :: "(val \<Rightarrow> string) \<Rightarrow> val \<Rightarrow> val" where
  "unwrap_tool_result rep r =
     (case envelope r of
        Some (True, d) \<Rightarrow> dict_get d ''value'' (VStr [])
      | Some (False, d) \<Rightarrow> VStr (failure_text rep r d)
      | None \<Rightarrow> r)"

definition tool_result_observation :: "(val \<Rightarrow> string) \<Rightarrow> val \<Rightarrow> val" where
  "tool_result_observation rep r =
     (case envelope r of
        Some (ok, d) \<Rightarrow>
          if ok then dict_get d ''value'' (VStr [])
          else (case map_of d ''value'' of Some v \<Rightarrow> v | None \<Rightarrow> VStr (failure_text rep r d))
      | None \<Rightarrow> unwrap_tool_result rep r)"

definition normalize_tool_observation :: "(val \<Rightarrow> string) \<Rightarrow> val \<Rightarrow> val" where
  "normalize_tool_observation rep r =
     (case envelope r of
        Some (ok, d) \<Rightarrow>
          VDict [(''version'', VInt 1), (''ok'', VBool ok), (''value'', if ok then dget d ''value'' else VNone),
                 (''error'', VStr (if ok then [] else failure_text rep r d))]
      | None \<Rightarrow> VDict [(''version'', VInt 1), (''ok'', VNone), (''value'', r), (''error'', VStr [])])"

definition attachable_tool_observation :: "(val \<Rightarrow> string) \<Rightarrow> val \<Rightarrow> val option" where
  "attachable_tool_observation rep r =
     (case r of
        VDict d \<Rightarrow> Some (normalize_tool_observation rep r)
      | VKw d \<Rightarrow> Some (normalize_tool_observation rep r)
      | VList xs \<Rightarrow> Some (normalize_tool_observation rep r)
      | _ \<Rightarrow> None)"

definition observation_key :: string where
  "observation_key = ''_lazyllm_tool_observation''"

definition strip_tool_observations :: "kws list \<Rightarrow> kws list" where
  "strip_tool_observations h = map (AList.delete observation_key) h"

text \<open>The final text of a result that asks the agent to stop.\<close>

definition tool_result_stop_text :: "(val \<Rightarrow> string) \<Rightarrow> val \<Rightarrow> string option" where
  "tool_result_stop_text rep r =
     (case as_dict (tool_result_observation rep r) of
        None \<Rightarrow> None
      | Some d \<Rightarrow>
          (case as_dict (dget d ''_agent_control'') of
             None \<Rightarrow> None
           | Some c \<Rightarrow>
               if dget c ''stop'' \<noteq> VBool True then None
               else (case dget c ''final_text'' of
                       VStr t \<Rightarrow> if strip t = [] then None else Some (strip t)
                     | _ \<Rightarrow> None)))"

section \<open>Tool turns\<close>

record turn =
  tn_start :: nat
  tn_stop :: nat
  tn_results :: "nat list"
  tn_current :: bool

text \<open>The ids of the calls of an assistant message, if they are all there and different.\<close>

definition call_id :: "val \<Rightarrow> string" where
  "call_id c = (case as_dict c of Some d \<Rightarrow> (case dget d ''id'' of VStr s \<Rightarrow> s | _ \<Rightarrow> []) | None \<Rightarrow> [])"

definition call_ids :: "val \<Rightarrow> string list option" where
  "call_ids calls =
     (case calls of
        VList cs \<Rightarrow>
          (let ids = map call_id cs in if cs = [] \<or> [] \<in> set ids \<or> \<not> distinct ids then None else Some ids)
      | _ \<Rightarrow> None)"

text \<open>The walk over the messages; an open turn has its start, the ids that wait for a result and the results.\<close>

fun turns_loop :: "nat \<Rightarrow> nat \<Rightarrow> kws list \<Rightarrow> (nat \<times> string list \<times> nat list) option \<Rightarrow> turn list" where
  "turns_loop n i [] st = []"
| "turns_loop n i (m # ms) st =
     (if dget m ''role'' = VStr ''assistant'' then
        turns_loop n (Suc i) ms (map_option (\<lambda>ids. (i, ids, [])) (call_ids (dget m ''tool_calls'')))
      else
        case st of
          None \<Rightarrow> turns_loop n (Suc i) ms None
        | Some (start, pending, results) \<Rightarrow>
            (case dget m ''tool_call_id'' of
               VStr c \<Rightarrow>
                 if dget m ''role'' = VStr ''tool'' \<and> c \<in> set pending then
                   (let pending = remove1 c pending; results = results @ [i]
                    in if pending = []
                       then \<lparr>tn_start = start, tn_stop = Suc i, tn_results = results, tn_current = n \<le> i\<rparr>
                              # turns_loop n (Suc i) ms None
                       else turns_loop n (Suc i) ms (Some (start, pending, results)))
                 else turns_loop n (Suc i) ms None
             | _ \<Rightarrow> turns_loop n (Suc i) ms None))"

definition describe_tool_turns :: "kws list \<Rightarrow> kws list \<Rightarrow> turn list" where
  "describe_tool_turns prior current = turns_loop (length prior) 0 (prior @ current) None"

section \<open>What a compactor returns\<close>

definition as_message :: "val \<Rightarrow> kws res" where
  "as_message v = of_opt TypeError (as_dict v)"

definition as_messages :: "val \<Rightarrow> kws list res" where
  "as_messages v = (case as_seq v of Some vs \<Rightarrow> rmap as_message vs | None \<Rightarrow> Inl TypeError)"

text \<open>A pair of lists is the prior history and the round; one list is cut again if no message is missing.\<close>

definition compacted_parts :: "kws list \<Rightarrow> kws list \<Rightarrow> val \<Rightarrow> (kws list \<times> kws list) res" where
  "compacted_parts prior current r =
     (case as_tuple r of
        Some [VList a, VList b] \<Rightarrow>
          rbind (as_messages (VList a)) (\<lambda>a. rbind (as_messages (VList b)) (\<lambda>b. Inr (a, b)))
      | _ \<Rightarrow>
          rbind (as_messages r) (\<lambda>ms.
            Inr (if current \<noteq> [] \<and> length ms = length prior + length current
                 then (take (length prior) ms, drop (length prior) ms) else (ms, current))))"

section \<open>Complete turns\<close>

text \<open>
  What the walk looks for: from an assistant message on, only results of its calls, each call at most once. Those that
  have no result yet are a multiset; a turn is complete when it is empty.
\<close>

definition is_role :: "string \<Rightarrow> kws \<Rightarrow> bool" where
  "is_role r m \<longleftrightarrow> dget m ''role'' = VStr r"

definition result_id :: "kws \<Rightarrow> string option" where
  "result_id m = (case dget m ''tool_call_id'' of VStr c \<Rightarrow> Some c | _ \<Rightarrow> None)"

definition answered :: "kws list \<Rightarrow> nat \<Rightarrow> nat \<Rightarrow> string multiset \<Rightarrow> bool" where
  "answered h s i p \<longleftrightarrow>
     s < i \<and> i \<le> length h \<and> is_role ''assistant'' (h ! s) \<and>
     (\<forall>j \<in> {s<..<i}. is_role ''tool'' (h ! j) \<and> result_id (h ! j) \<noteq> None) \<and>
     (\<exists>ids. call_ids (dget (h ! s) ''tool_calls'') = Some ids \<and>
        mset ids = mset (map (\<lambda>j. the (result_id (h ! j))) [Suc s..<i]) + p)"

definition complete_turn :: "kws list \<Rightarrow> nat \<Rightarrow> nat \<Rightarrow> bool" where
  "complete_turn h s i \<longleftrightarrow> answered h s i {#}"

lemma roles_differ [simp]: "is_role ''tool'' m \<Longrightarrow> \<not> is_role ''assistant'' m"
  by (simp add: is_role_def)

lemma call_ids_distinct: "call_ids v = Some ids \<Longrightarrow> distinct ids \<and> ids \<noteq> []"
  by (auto simp: call_ids_def Let_def split: val.splits if_splits)

lemma answered_start:
  "i < length h \<Longrightarrow> answered h s (Suc i) p \<longleftrightarrow>
    (s = i \<and> is_role ''assistant'' (h ! i) \<and> (\<exists>ids. call_ids (dget (h ! i) ''tool_calls'') = Some ids \<and> mset ids = p)) \<or>
    (is_role ''tool'' (h ! i) \<and> (\<exists>c. result_id (h ! i) = Some c \<and> answered h s i (add_mset c p)))"
proof (cases "s = i")
  case True
  then show "i < length h \<Longrightarrow> ?thesis" by (auto simp: answered_def)
next
  case False
  assume i: "i < length h"
  have b: "{s<..<Suc i} = insert i {s<..<i}" if "s < i" using that by auto
  have u: "[Suc s..<Suc i] = [Suc s..<i] @ [i]" if "s < i" using that by (simp add: upt_Suc_append)
  show ?thesis
  proof (cases "s < i")
    case True
    show ?thesis using i False True by (auto simp: answered_def b [OF True] u [OF True] simp del: upt_Suc)
  next
    case less: False
    then show ?thesis using False by (auto simp: answered_def)
  qed
qed

lemma answered_unique: "answered h s i p \<Longrightarrow> answered h t i q \<Longrightarrow> s = t \<and> p = q"
proof -
  assume a: "answered h s i p" "answered h t i q"
  have "s = t"
  proof (rule ccontr)
    assume "s \<noteq> t"
    then have "t \<in> {s<..<i} \<or> s \<in> {t<..<i}" using a by (auto simp: answered_def)
    then show False using a by (auto simp: answered_def)
  qed
  then show ?thesis using a by (auto simp: answered_def)
qed

definition turn_at :: "nat \<Rightarrow> nat \<Rightarrow> nat \<Rightarrow> turn" where
  "turn_at n s e = \<lparr>tn_start = s, tn_stop = e, tn_results = [Suc s..<e], tn_current = n < e\<rparr>"

text \<open>All complete turns that stop at a given index: there is at most one.\<close>

definition turns_at :: "nat \<Rightarrow> kws list \<Rightarrow> nat \<Rightarrow> turn list" where
  "turns_at n h e = map (\<lambda>s. turn_at n s e) (List.filter (\<lambda>s. complete_turn h s e) [0..<e])"

definition open_turn :: "kws list \<Rightarrow> nat \<Rightarrow> (nat \<times> string list \<times> nat list) option \<Rightarrow> bool" where
  "open_turn h i st \<longleftrightarrow>
     (case st of
        None \<Rightarrow> \<forall>s p. p \<noteq> {#} \<longrightarrow> \<not> answered h s i p
      | Some (s, pending, results) \<Rightarrow> pending \<noteq> [] \<and> answered h s i (mset pending) \<and> results = [Suc s..<i])"

lemma filter_eq_single: "distinct xs \<Longrightarrow> x \<in> set xs \<Longrightarrow> List.filter (\<lambda>y. y = x) xs = [x]"
  by (induction xs) (auto simp: filter_empty_conv)

lemma filter_unique:
  assumes "P x" and "x < n" and "\<And>y. P y \<Longrightarrow> y = x"
  shows "List.filter P [0..<n] = [x]"
proof -
  have "P = (\<lambda>y. y = x)" using assms(1,3) by blast
  then show ?thesis using assms(2) by (simp add: filter_eq_single)
qed

lemma turns_at_one:
  assumes "complete_turn h s e"
  shows "turns_at n h e = [turn_at n s e]"
proof -
  have "List.filter (\<lambda>s. complete_turn h s e) [0..<e] = [s]"
  proof (rule filter_unique)
    show "s < e" using assms by (simp add: complete_turn_def answered_def)
    show "t = s" if "complete_turn h t e" for t
      using answered_unique [of h t e "{#}" s "{#}"] assms that by (simp add: complete_turn_def)
  qed (rule assms)
  then show ?thesis by (simp add: turns_at_def)
qed

lemma turns_at_none: "(\<And>s. \<not> complete_turn h s e) \<Longrightarrow> turns_at n h e = []"
  by (simp add: turns_at_def)

lemma complete_turn_Suc:
  "i < length h \<Longrightarrow> complete_turn h s (Suc i) \<longleftrightarrow>
    is_role ''tool'' (h ! i) \<and> (\<exists>c. result_id (h ! i) = Some c \<and> answered h s i {#c#})"
  by (auto simp: complete_turn_def answered_start dest: call_ids_distinct)

lemma open_turn_unique:
  "open_turn h i (Some (s, pending, results)) \<Longrightarrow> answered h t i p \<Longrightarrow> t = s \<and> p = mset pending"
  by (auto simp: open_turn_def dest: answered_unique)

lemma turns_loop_exact:
  "open_turn h i st \<Longrightarrow> i \<le> length h \<Longrightarrow>
    turns_loop n i (drop i h) st = concat (map (turns_at n h) [Suc i..<Suc (length h)])"
proof (induction "length h - i" arbitrary: i st)
  case 0
  then show ?case by simp
next
  case (Suc k)
  then have i: "i < length h" "k = length h - Suc i" "Suc i \<le> length h" by simp_all
  let ?m = "h ! i"
  have d: "drop i h = ?m # drop (Suc i) h" using i(1) by (simp add: Cons_nth_drop_Suc)
  have u: "[Suc i..<Suc (length h)] = Suc i # [Suc (Suc i)..<Suc (length h)]" using i(1) by (simp add: upt_conv_Cons)
  have IH: "open_turn h (Suc i) st' \<Longrightarrow>
      turns_loop n (Suc i) (drop (Suc i) h) st' = concat (map (turns_at n h) [Suc (Suc i)..<Suc (length h)])" for st'
    using Suc.hyps(1) [OF i(2) _ i(3)] .
  have drop_it: ?case if "turns_loop n i (drop i h) st = turns_loop n (Suc i) (drop (Suc i) h) st'"
    "open_turn h (Suc i) st'" "\<And>s. \<not> complete_turn h s (Suc i)" for st'
    using that IH turns_at_none [of h "Suc i" n] by (simp add: u del: upt_Suc)
  show ?case
  proof (cases "is_role ''assistant'' ?m")
    case True
    show ?thesis
    proof (rule drop_it)
      let ?st = "map_option (\<lambda>ids. (i, ids, [])) (call_ids (dget ?m ''tool_calls''))"
      show "turns_loop n i (drop i h) st = turns_loop n (Suc i) (drop (Suc i) h) ?st"
        using True by (simp add: d is_role_def)
      show "open_turn h (Suc i) ?st"
        using True i(1) call_ids_distinct by (auto simp: open_turn_def answered_start split: option.splits)
      show "\<not> complete_turn h s (Suc i)" for s using True i(1) by (auto simp: complete_turn_Suc)
    qed
  next
    case na: False
    show ?thesis
    proof (cases st)
      case None
      show ?thesis
      proof (rule drop_it)
        show "turns_loop n i (drop i h) st = turns_loop n (Suc i) (drop (Suc i) h) None"
          using na by (simp add: d is_role_def None)
        show "open_turn h (Suc i) None" using na Suc.prems(1) i(1) by (auto simp: open_turn_def answered_start None)
        show "\<not> complete_turn h s (Suc i)" for s using Suc.prems(1) i(1) by (auto simp: complete_turn_Suc None open_turn_def)
      qed
    next
      case (Some q)
      obtain s pending results where q: "st = Some (s, pending, results)" using Some by (cases q) auto
      note o = Suc.prems(1) [unfolded q]
      show ?thesis
      proof (cases "is_role ''tool'' ?m \<and> (\<exists>c. result_id ?m = Some c \<and> c \<in> set pending)")
        case False
        show ?thesis
        proof (rule drop_it)
          show "turns_loop n i (drop i h) st = turns_loop n (Suc i) (drop (Suc i) h) None"
            using na False by (auto simp: d is_role_def q result_id_def split: val.splits)
          show "open_turn h (Suc i) None"
            using na False i(1) open_turn_unique [OF o] by (fastforce simp: open_turn_def answered_start dest: union_single_eq_member)
          show "\<not> complete_turn h t (Suc i)" for t
            using False i(1) open_turn_unique [OF o, of t] by (fastforce simp: complete_turn_Suc dest: union_single_eq_member)
        qed
      next
        case True
        then obtain c where c: "result_id ?m = Some c" "c \<in> set pending" "is_role ''tool'' ?m" by auto
        have l: "turns_loop n i (drop i h) st =
            (if remove1 c pending = []
             then \<lparr>tn_start = s, tn_stop = Suc i, tn_results = results @ [i], tn_current = n \<le> i\<rparr>
                    # turns_loop n (Suc i) (drop (Suc i) h) None
             else turns_loop n (Suc i) (drop (Suc i) h) (Some (s, remove1 c pending, results @ [i])))"
          using na c by (auto simp: d is_role_def q result_id_def Let_def split: val.splits)
        have m: "mset pending = add_mset c (mset (remove1 c pending))" using c(2) by simp
        have a: "answered h t (Suc i) p \<longleftrightarrow> t = s \<and> p = mset (remove1 c pending)" for t p
        proof -
          have "answered h t (Suc i) p \<longleftrightarrow> answered h t i (add_mset c p)"
            using c(1,3) na by (simp add: answered_start [OF i(1)])
          also have "\<dots> \<longleftrightarrow> t = s \<and> add_mset c p = mset pending"
            using open_turn_unique [OF o, of t "add_mset c p"] o by (auto simp: open_turn_def)
          finally show ?thesis unfolding m by simp
        qed
        have r: "results @ [i] = [Suc s..<Suc i]" using o by (auto simp: open_turn_def answered_def)
        show ?thesis
        proof (cases "remove1 c pending = []")
          case True
          have ct: "complete_turn h s (Suc i)" by (simp add: complete_turn_def a True)
          have "open_turn h (Suc i) None" by (simp add: open_turn_def a True)
          from IH [OF this] show ?thesis
            using l True turns_at_one [OF ct, of n] r by (simp add: u turn_at_def less_Suc_eq_le del: upt_Suc)
        next
          case False
          show ?thesis
          proof (rule drop_it)
            show "turns_loop n i (drop i h) st = turns_loop n (Suc i) (drop (Suc i) h) (Some (s, remove1 c pending, results @ [i]))"
              using l False by simp
            show "open_turn h (Suc i) (Some (s, remove1 c pending, results @ [i]))" using False r by (simp add: open_turn_def a)
            show "\<not> complete_turn h t (Suc i)" for t using False by (simp add: complete_turn_def a del: mset_remove1)
          qed
        qed
      qed
    qed
  qed
qed

text \<open>
  C17. The turns that are described to a history compactor are exactly the complete ones, in order: from an assistant message
  whose calls have different ids, through results of these calls only, to the result after which each call has one; a
  turn is protected when it reaches into the current round.
\<close>

theorem tool_turns_exact:
  "describe_tool_turns prior current =
     concat (map (turns_at (length prior) (prior @ current)) [1..<Suc (length (prior @ current))])"
proof -
  have "open_turn (prior @ current) 0 None" by (simp add: open_turn_def answered_def)
  from turns_loop_exact [OF this, of "length prior"] show ?thesis by (simp add: describe_tool_turns_def)
qed

end
