(* ===== verification/AgentCall.thy ===== *)
theory AgentCall
  imports AgentTurns FlowCore
begin

text \<open>
  One round of an agent (\<open>tools/agent/functionCall.py\<close>): the history is prepared for the model, the model is asked, the
  calls it makes are run through the tool manager, and what comes back decides whether the agent goes on. The model, the
  tools, the history compactor, the provider of contexts and the validator are parameters that read and write a state of
  their own.
\<close>

section \<open>State and parameters\<close>

record workspace =
  ws_history :: "kws list option"
  ws_trace :: "kws list option"
  ws_round :: "int option"
  ws_limit :: "int option"

definition new_workspace :: workspace where
  "new_workspace = \<lparr>ws_history = None, ws_trace = None, ws_round = None, ws_limit = None\<rparr>"

text \<open>What the runtime observer is told; it cannot disturb the agent, since what it raises is swallowed.\<close>

datatype event =
    ToolsReady "val list"
  | TurnStart int int int
  | HistoryReady "int option" "kws list"
  | ContextDelivered
  | TurnEnd "int option" bool bool

text \<open>The entries of \<open>locals\<close> that belong to an agent, the tools of its round, and the state of the parameters.\<close>

record 'x agent =
  ag_workspace :: "workspace option"
  ag_completed :: "kws list option"
  ag_history :: "kws list option"
  ag_chat :: "kws list option"
  ag_tools :: "val list option"
  ag_events :: "event list"
  ag_ext :: 'x

record 'x fc =
  fc_llm :: "val \<Rightarrow> kws list option \<Rightarrow> val list \<Rightarrow> ('x, val) sx"
  fc_describe :: "'x \<Rightarrow> val list"
  fc_manager :: "'x manager"
  fc_canon :: "string \<Rightarrow> string list"
  fc_rep :: "val \<Rightarrow> string"
  fc_dumps :: "val \<Rightarrow> string"
  fc_uuid :: "'x \<Rightarrow> nat \<Rightarrow> string"
  fc_sched :: "access list \<Rightarrow> nat list list"
  fc_failure :: "outcome \<Rightarrow> kws"
  fc_round_limit :: "int option"
  fc_keep_full :: int
  fc_stop_tools :: "string list"
  fc_compactor :: "(kws list \<Rightarrow> int \<Rightarrow> val \<Rightarrow> kws list \<Rightarrow> turn list \<Rightarrow> int option \<Rightarrow> ('x, val) sx) option"
  fc_context :: "('x, val) sx option"
  fc_validate :: "(kws list \<Rightarrow> val \<Rightarrow> val list \<Rightarrow> ('x, unit) sx) option"
  fc_before :: "('x, val) sx option"

definition on_ext :: "('x, 'a) sx \<Rightarrow> ('x agent, 'a) sx" where
  "on_ext f s = (case f (ag_ext s) of (r, x) \<Rightarrow> (r, s\<lparr>ag_ext := x\<rparr>))"

definition observe :: "event \<Rightarrow> 'x agent \<Rightarrow> 'x agent" where
  "observe e s = s\<lparr>ag_events := ag_events s @ [e]\<rparr>"

text \<open>\<open>locals['_lazyllm_agent']['workspace']\<close>.\<close>

definition get_workspace :: "('x agent, workspace) sx" where
  "get_workspace s = (of_opt KeyError (ag_workspace s), s)"

definition put_workspace :: "workspace \<Rightarrow> ('x agent, unit) sx" where
  "put_workspace w = supd (\<lambda>s. s\<lparr>ag_workspace := Some w\<rparr>)"

section \<open>The tools of a round\<close>

definition current_tools :: "'x fc \<Rightarrow> bool \<Rightarrow> ('x agent, val list) sx" where
  "current_tools env refresh s =
     (case (refresh, ag_tools s) of
        (False, Some ts) \<Rightarrow> (Inr ts, s)
      | _ \<Rightarrow> (let ts = fc_describe env (ag_ext s) in (Inr ts, observe (ToolsReady ts) (s\<lparr>ag_tools := Some ts\<rparr>))))"

definition tool_name :: "val \<Rightarrow> string option" where
  "tool_name item =
     (case as_dict item of
        None \<Rightarrow> None
      | Some d \<Rightarrow> (case as_dict (dget d ''function'') of
          None \<Rightarrow> None
        | Some f \<Rightarrow> (case dget f ''name'' of VStr n \<Rightarrow> if n = [] then None else Some n | _ \<Rightarrow> None)))"

definition visible_tool_names :: "'x fc \<Rightarrow> ('x agent, string list) sx" where
  "visible_tool_names env = sbind (current_tools env False) (\<lambda>ts. sret (List.map_filter tool_name ts))"

section \<open>Preparing a round\<close>

text \<open>The number of the round, the notice for the model and the rounds that remain.\<close>

definition budget_notice :: "int \<Rightarrow> string" where
  "budget_notice n = ''[Internal runtime notice] Internal ReAct rounds left: '' @ show_int n @ ''.''"

definition prepare_round :: "'x fc \<Rightarrow> workspace \<Rightarrow> ('x agent, workspace \<times> (int \<times> int) option) sx" where
  "prepare_round env w =
     (case fc_round_limit env of
        None \<Rightarrow> sret (w, None)
      | Some limit \<Rightarrow>
          (let current = (case ws_round w of None \<Rightarrow> 0 | Some r \<Rightarrow> r) + 1;
               limit = (case ws_limit w of None \<Rightarrow> limit | Some l \<Rightarrow> l);
               remaining = max 0 (limit - current);
               w = w\<lparr>ws_round := Some current\<rparr>
           in sbind (put_workspace w) (\<lambda>_.
              sbind (supd (observe (TurnStart current limit remaining))) (\<lambda>_.
              sret (w, Some (current, remaining))))))"

definition compact_history ::
    "'x fc \<Rightarrow> kws list \<Rightarrow> val \<Rightarrow> kws list \<Rightarrow> int option \<Rightarrow> ('x agent, kws list \<times> kws list) sx" where
  "compact_history env prior input current remaining =
     (case fc_compactor env of
        None \<Rightarrow> sret (strip_tool_observations prior, strip_tool_observations current)
      | Some f \<Rightarrow>
          sbind (on_ext (f prior (fc_keep_full env) input current (describe_tool_turns prior current) remaining)) (\<lambda>r.
          sbind (slift (compacted_parts prior current r)) (\<lambda>(a, b).
          sret (strip_tool_observations a, strip_tool_observations b))))"

definition user_message :: "val \<Rightarrow> kws" where
  "user_message content = [(''role'', VStr ''user''), (''content'', content)]"

text \<open>A context is stripped and cut; a provider that raises or answers nothing adds nothing.\<close>

definition consume_model_context :: "'x fc \<Rightarrow> ('x agent, kws list) sx" where
  "consume_model_context env s =
     (case fc_context env of
        None \<Rightarrow> (Inr [], s)
      | Some f \<Rightarrow>
          (case on_ext f s of
             (Inr (VStr t), s') \<Rightarrow>
               (if strip t = [] then (Inr [], s')
                else (Inr [user_message (VStr (take 2048 (strip t)))], observe ContextDelivered s'))
           | (r, s') \<Rightarrow> (Inr [], s')))"

definition validate_context :: "'x fc \<Rightarrow> kws list \<Rightarrow> val \<Rightarrow> ('x agent, unit) sx" where
  "validate_context env history input =
     (case fc_validate env of
        None \<Rightarrow> sret ()
      | Some f \<Rightarrow> sbind (current_tools env False) (\<lambda>ts. on_ext (f history input ts)))"

definition put_chat :: "kws list \<Rightarrow> ('x agent, unit) sx" where
  "put_chat prior = supd (\<lambda>s. s\<lparr>ag_chat := (if prior = [] then None else Some prior)\<rparr>)"

definition notify_history :: "(int \<times> int) option \<Rightarrow> workspace \<Rightarrow> kws list \<Rightarrow> ('x agent, unit) sx" where
  "notify_history budget w history =
     supd (observe (HistoryReady (case budget of Some (r, _) \<Rightarrow> Some r | None \<Rightarrow> ws_round w) history))"

text \<open>The results of the last round, one message per call; the notice is added to the last one.\<close>

definition tool_message :: "(val \<Rightarrow> string) \<Rightarrow> kws \<Rightarrow> kws res" where
  "tool_message rep call =
     rbind (of_opt KeyError (map_of call ''tool_call_result'')) (\<lambda>raw.
     rbind (of_opt KeyError (map_of call ''id'')) (\<lambda>i.
     rbind (of_opt KeyError (map_of call ''function'')) (\<lambda>f.
     rbind (of_opt TypeError (as_dict f)) (\<lambda>f.
     rbind (of_opt KeyError (map_of f ''name'')) (\<lambda>n.
       let m = [(''role'', VStr ''tool''), (''content'', VStr (py_str rep (tool_result_observation rep raw))),
                (''tool_call_id'', i), (''name'', n)]
       in Inr (case attachable_tool_observation rep raw of None \<Rightarrow> m | Some ob \<Rightarrow> m @ [(observation_key, ob)]))))))"

definition add_notice :: "string \<Rightarrow> kws \<Rightarrow> kws" where
  "add_notice notice m =
     AList.update ''content'' (VStr ((case dget m ''content'' of VStr t \<Rightarrow> t | _ \<Rightarrow> []) @ [CHR 0x0A, CHR 0x0A] @ notice)) m"

definition current_tool_messages :: "'x fc \<Rightarrow> workspace \<Rightarrow> (int \<times> int) option \<Rightarrow> kws list res" where
  "current_tool_messages env w budget =
     rbind (of_opt KeyError (ws_trace w)) (\<lambda>calls.
     rbind (rmap (tool_message (fc_rep env)) calls) (\<lambda>ms.
       Inr (case budget of
              None \<Rightarrow> ms
            | Some (_, n) \<Rightarrow> if ms = [] then ms else butlast ms @ [add_notice (budget_notice n) (last ms)])))"

definition messages_input :: "kws list \<Rightarrow> val" where
  "messages_input ms = VDict [(''input'', VList (map VDict ms))]"

definition assistant_message :: "kws \<Rightarrow> kws" where
  "assistant_message d =
     [(''role'', VStr ''assistant''), (''content'', dict_get d ''content'' (VStr [])),
      (''tool_calls'', dict_get d ''tool_calls'' (VList [])),
      (''reasoning_content'', dict_get d ''reasoning_content'' (VStr []))]"

definition append_history :: "kws list \<Rightarrow> workspace \<Rightarrow> workspace" where
  "append_history ms w = w\<lparr>ws_history := Some ((case ws_history w of None \<Rightarrow> [] | Some h \<Rightarrow> h) @ ms)\<rparr>"

definition history_of :: "workspace \<Rightarrow> kws list" where
  "history_of w = (case ws_history w of None \<Rightarrow> [] | Some h \<Rightarrow> h)"

definition build_tool_call_input ::
    "'x fc \<Rightarrow> kws \<Rightarrow> workspace \<Rightarrow> (int \<times> int) option \<Rightarrow> ('x agent, val) sx" where
  "build_tool_call_input env d w budget =
     sbind (slift (current_tool_messages env w budget)) (\<lambda>ms.
     let w = append_history [assistant_message d] w; prior = history_of w; w = append_history ms w
     in sbind (put_workspace w) (\<lambda>_.
        sbind (compact_history env prior (VStr []) ms (map_option snd budget)) (\<lambda>(prior, current).
        sbind (consume_model_context env) (\<lambda>notices.
        sbind (put_chat prior) (\<lambda>_.
        sbind (validate_context env (prior @ current @ notices) VNone) (\<lambda>_.
        sbind (notify_history budget w (prior @ current @ notices)) (\<lambda>_.
        sret (messages_input (current @ notices)))))))))"

definition before_model_request :: "'x fc \<Rightarrow> ('x agent, unit) sx" where
  "before_model_request env =
     (case fc_before env of
        None \<Rightarrow> sret ()
      | Some f \<Rightarrow> sbind (on_ext f) (\<lambda>r. if r = VNone then sret () else sraise TypeError))"

text \<open>The content of an input that comes from the user; \<open>None\<close> for the output of the last round.\<close>

definition user_input :: "val \<Rightarrow> val option" where
  "user_input input =
     (case input of
        VStr q \<Rightarrow> Some input
      | _ \<Rightarrow> (case as_dict input of
          None \<Rightarrow> None
        | Some d \<Rightarrow>
            if map_of d ''input'' \<noteq> None then Some (dget d ''input'')
            else if dget d ''role'' = VStr ''user'' then Some (dict_get d ''content'' (VStr []))
            else None))"

definition build_user_input ::
    "'x fc \<Rightarrow> val \<Rightarrow> val option \<Rightarrow> kws list \<Rightarrow> workspace \<Rightarrow> (int \<times> int) option \<Rightarrow> ('x agent, val) sx" where
  "build_user_input env input content prior w budget =
     (let current = (case content of None \<Rightarrow> VNone | Some c \<Rightarrow> c)
      in sbind (compact_history env prior current [] (map_option snd budget)) (\<lambda>(prior, _).
         sbind (consume_model_context env) (\<lambda>notices.
         sbind (put_chat prior) (\<lambda>_.
         if notices \<noteq> [] then
           (let ms = user_message current # notices
            in sbind (validate_context env (prior @ ms) VNone) (\<lambda>_.
               sbind (notify_history budget w (prior @ ms)) (\<lambda>_. sret (messages_input ms))))
         else
           sbind (validate_context env prior current) (\<lambda>_.
           sbind (notify_history budget w prior) (\<lambda>_. sret input))))))"

definition build_history :: "'x fc \<Rightarrow> val \<Rightarrow> ('x agent, val) sx" where
  "build_history env input =
     sbind (before_model_request env) (\<lambda>_.
     sbind (current_tools env True) (\<lambda>_.
     sbind get_workspace (\<lambda>w.
     let prior = history_of w; w = w\<lparr>ws_history := Some prior\<rparr>
     in sbind (put_workspace w) (\<lambda>_.
        sbind (prepare_round env w) (\<lambda>(w, budget).
        case (user_input input, as_dict input) of
          (None, Some d) \<Rightarrow> build_tool_call_input env d w budget
        | (content, _) \<Rightarrow>
            (let w = (case content of None \<Rightarrow> w | Some c \<Rightarrow> append_history [user_message c] w)
             in sbind (put_workspace w) (\<lambda>_. build_user_input env input content prior w budget)))))))"

section \<open>After the model\<close>

text \<open>
  \<open>re.search(r'Action:\\s*Call\\s+(\\w+)\\s+with\\s+parameters\\s+(\\{.*?\\})', content)\<close>: no part of the pattern can match
  in two ways, so each match is read from the left.
\<close>

definition eat :: "string \<Rightarrow> string \<Rightarrow> string option" where
  "eat p s = (if PyText.starts_with p s then Some (drop (length p) s) else None)"

definition eat_spaces :: "string \<Rightarrow> string option" where
  "eat_spaces s = (case s of c # cs \<Rightarrow> if is_space c then Some (lstrip cs) else None | [] \<Rightarrow> None)"

definition eat_braces :: "string \<Rightarrow> string option" where
  "eat_braces s =
     Option.bind (eat ''{'' s) (\<lambda>t.
       let body = takeWhile (\<lambda>c. c \<noteq> CHR ''}'' \<and> c \<noteq> CHR 0x0A) t
       in Option.bind (eat ''}'' (drop (length body) t)) (\<lambda>_. Some (CHR ''{'' # body @ ''}'')))"

definition action_at :: "string \<Rightarrow> (string \<times> string) option" where
  "action_at s =
     Option.bind (eat ''Action:'' s) (\<lambda>s.
     Option.bind (eat ''Call'' (lstrip s)) (\<lambda>s.
     Option.bind (eat_spaces s) (\<lambda>s.
     let name = takeWhile is_word s
     in if name = [] then None
        else Option.bind (eat_spaces (drop (length name) s)) (\<lambda>s.
        Option.bind (eat ''with'' s) (\<lambda>s. Option.bind (eat_spaces s) (\<lambda>s.
        Option.bind (eat ''parameters'' s) (\<lambda>s. Option.bind (eat_spaces s) (\<lambda>s.
        Option.bind (eat_braces s) (\<lambda>args. Some (name, args))))))))))"

fun find_action :: "string \<Rightarrow> (string \<times> string) option" where
  "find_action [] = None"
| "find_action (c # cs) = (case action_at (c # cs) of Some r \<Rightarrow> Some r | None \<Rightarrow> find_action cs)"

text \<open>A call that the model wrote into its text, if the parameters are JSON.\<close>

definition calls_from_text :: "'x fc \<Rightarrow> kws \<Rightarrow> kws res" where
  "calls_from_text env d =
     (if truthy (dget d ''tool_calls'') then Inr d
      else
        rbind (of_opt KeyError (map_of d ''content'')) (\<lambda>c.
          case c of
            VStr text \<Rightarrow>
              (case find_action text of
                 None \<Rightarrow> Inr d
               | Some (name, args) \<Rightarrow>
                   (case tm_loads (fc_manager env) args of
                      Inl e \<Rightarrow> Inr d
                    | Inr v \<Rightarrow>
                        Inr (AList.update ''tool_calls''
                          (VList [VDict [(''function'', VDict [(''name'', VStr name), (''arguments'', v)])]]) d)))
          | _ \<Rightarrow> Inl TypeError))"

definition drop_index :: "val \<Rightarrow> val res" where
  "drop_index v = (case v of VDict d \<Rightarrow> Inr (VDict (AList.delete ''index'' d)) | _ \<Rightarrow> Inl AttributeError)"

text \<open>\<open>ToolManager.forward\<close>: the calls are prepared without a policy and run, and each gives an envelope.\<close>

definition result_envelope :: "'x fc \<Rightarrow> outcome \<Rightarrow> val" where
  "result_envelope env r =
     (case r of
        OkValue v \<Rightarrow> VDict [(''ok'', VBool True), (''value'', v)]
      | _ \<Rightarrow> VDict ((''ok'', VBool False) # fc_failure env r))"

definition run_tools :: "'x fc \<Rightarrow> val list \<Rightarrow> string list \<Rightarrow> ('x, val list) sx" where
  "run_tools env calls allowed x =
     (case prepare_tool_calls (fc_rep env) (fc_dumps env) (fc_uuid env x) (fc_canon env) (fc_manager env) (Some allowed) None calls of
        Inl e \<Rightarrow> (Inl e, x)
      | Inr ps \<Rightarrow>
          (case execute_prepared (fc_sched env) ps [] None x of
             (Inl e, x) \<Rightarrow> (Inl e, x)
           | (Inr recs, x) \<Rightarrow> (Inr (map (result_envelope env \<circ> rc_result) recs), x)))"

definition traced_call :: "val \<times> val \<Rightarrow> kws res" where
  "traced_call cr = (case as_dict (fst cr) of Some d \<Rightarrow> Inr (AList.update ''tool_call_result'' (snd cr) d) | None \<Rightarrow> Inl TypeError)"

definition called_name :: "val \<Rightarrow> string option" where
  "called_name tc =
     (case as_dict tc of
        None \<Rightarrow> None
      | Some d \<Rightarrow> (case as_dict (dget d ''function'') of
          None \<Rightarrow> None
        | Some f \<Rightarrow> (case dget f ''name'' of VStr n \<Rightarrow> Some n | _ \<Rightarrow> None)))"

definition is_stop_call :: "'x fc \<Rightarrow> val \<Rightarrow> bool" where
  "is_stop_call env tc = (case called_name tc of Some n \<Rightarrow> n \<in> set (fc_stop_tools env) | None \<Rightarrow> False)"

definition result_failed :: "val \<Rightarrow> bool" where
  "result_failed r = (case as_dict r of Some d \<Rightarrow> \<not> truthy (dict_get d ''ok'' (VBool True)) | None \<Rightarrow> False)"

definition stop_reached :: "'x fc \<Rightarrow> val list \<Rightarrow> val list \<Rightarrow> bool" where
  "stop_reached env calls results \<longleftrightarrow>
     list_ex (is_stop_call env) calls \<and>
     \<not> list_ex (\<lambda>(tc, r). is_stop_call env tc \<and> result_failed r) (zip calls results)"

definition join_lines :: "string list \<Rightarrow> val" where
  "join_lines ts = VStr (intercalate [CHR 0x0A] ts)"

definition turn_end :: "bool \<Rightarrow> bool \<Rightarrow> ('x agent, unit) sx" where
  "turn_end tools stop =
     supd (\<lambda>s. case ag_workspace s of None \<Rightarrow> s | Some w \<Rightarrow> observe (TurnEnd (ws_round w) tools stop) s)"

text \<open>
  A result that asks to stop, or a stop tool all of whose calls succeeded, ends the agent with a text; otherwise the output of
  the model, with its calls, goes into the next round.
\<close>

definition after_results :: "'x fc \<Rightarrow> kws \<Rightarrow> val list \<Rightarrow> val list \<Rightarrow> ('x agent, val) sx" where
  "after_results env d calls results =
     (let stops = List.map_filter (tool_result_stop_text (fc_rep env)) results
      in if stops \<noteq> [] then sret (join_lines stops)
         else if stop_reached env calls results then
           sbind (turn_end True True) (\<lambda>_.
             sret (join_lines (map (py_str (fc_rep env) \<circ> tool_result_observation (fc_rep env)) results)))
         else sbind (turn_end True False) (\<lambda>_. sret (VDict d)))"

definition run_calls :: "'x fc \<Rightarrow> kws \<Rightarrow> val list \<Rightarrow> ('x agent, val) sx" where
  "run_calls env d items =
     sbind (slift (rmap drop_index items)) (\<lambda>items.
     sbind (\<lambda>s. (Inr (normalize_tool_calls (fc_rep env) (fc_dumps env) (fc_uuid env (ag_ext s)) 0 items), s)) (\<lambda>calls.
     sbind (visible_tool_names env) (\<lambda>allowed.
     sbind (on_ext (run_tools env calls allowed)) (\<lambda>results.
     sbind (slift (rmap traced_call (zip calls results))) (\<lambda>trace.
     sbind get_workspace (\<lambda>w.
     sbind (put_workspace (w\<lparr>ws_trace := Some trace\<rparr>)) (\<lambda>_.
     after_results env (AList.update ''tool_calls'' (VList calls) d) calls results)))))))"

definition post_action :: "'x fc \<Rightarrow> val \<Rightarrow> ('x agent, val) sx" where
  "post_action env out =
     (case as_dict out of
        None \<Rightarrow> sraise AttributeError
      | Some d \<Rightarrow>
          sbind (slift (calls_from_text env d)) (\<lambda>d.
            let calls = dget d ''tool_calls''
            in if truthy calls then
                 (case calls of VList items \<Rightarrow> run_calls env d items | _ \<Rightarrow> sraise TypeError)
               else
                 sbind (slift (of_opt KeyError (map_of d ''content''))) (\<lambda>c.
                 sbind (turn_end False False) (\<lambda>_. sret c))))"

section \<open>The call\<close>

definition clear_unfinished :: "'x agent \<Rightarrow> 'x agent" where
  "clear_unfinished s = s\<lparr>ag_workspace := None, ag_chat := None\<rparr>"

text \<open>\<open>sync_active_groups\<close>, without the groups: a workspace, and the history it starts with.\<close>

definition sync_history :: "kws list option \<Rightarrow> 'x agent \<Rightarrow> 'x agent" where
  "sync_history h s =
     (let w = (case ag_workspace s of None \<Rightarrow> new_workspace | Some w \<Rightarrow> w);
          w = (case h of None \<Rightarrow> w | Some h \<Rightarrow> if ws_history w = None then w\<lparr>ws_history := Some h\<rparr> else w)
      in s\<lparr>ag_workspace := Some w\<rparr>)"

definition start_call :: "'x fc \<Rightarrow> kws list option \<Rightarrow> 'x agent \<Rightarrow> 'x agent" where
  "start_call env h s =
     (let w = (case ag_workspace s of None \<Rightarrow> new_workspace | Some w \<Rightarrow> w);
          w = (if ws_history w = None then w\<lparr>ws_history := Some (case h of None \<Rightarrow> [] | Some h \<Rightarrow> h)\<rparr> else w);
          w = (if fc_round_limit env \<noteq> None \<and> h \<noteq> None then w\<lparr>ws_round := None, ws_limit := None\<rparr> else w)
      in s\<lparr>ag_workspace := Some w\<rparr>)"

text \<open>A text ends the agent: the workspace goes, its trace and its history stay.\<close>

definition finish_call :: "'x agent \<Rightarrow> 'x agent" where
  "finish_call s =
     (let w = (case ag_workspace s of None \<Rightarrow> new_workspace | Some w \<Rightarrow> w)
      in s\<lparr>ag_workspace := None,
           ag_completed := Some (case ws_trace w of Some t \<Rightarrow> t | None \<Rightarrow> (case ag_completed s of Some t \<Rightarrow> t | None \<Rightarrow> [])),
           ag_history := Some (history_of w), ag_chat := None\<rparr>)"

text \<open>The pipeline of a call, over the world of the flows.\<close>

definition on_user :: "('s, 'a) sx \<Rightarrow> ('s world, 'a) sx" where
  "on_user f w = (case f (ustate w) of (r, s) \<Rightarrow> (r, w\<lparr>ustate := s\<rparr>))"

definition step_item :: "(val \<Rightarrow> ('s, val) sx) \<Rightarrow> 's item" where
  "step_item f = Plain (\<lambda>args kw. case (args, kw) of ([a], []) \<Rightarrow> on_user (f a) | _ \<Rightarrow> sraise TypeError)"

definition fc_pipeline :: "'x fc \<Rightarrow> 'x agent pipeline" where
  "fc_pipeline env =
     mk_pipeline ''_impl''
       [(''pre_action'', step_item (build_history env)),
        (''llm'', step_item (\<lambda>inp s. on_ext (fc_llm env inp (ag_chat s) (case ag_tools s of Some ts \<Rightarrow> ts | None \<Rightarrow> [])) s)),
        (''post_action'', step_item (post_action env))] False"

definition is_text :: "val \<Rightarrow> bool" where
  "is_text v = (case v of VStr t \<Rightarrow> True | _ \<Rightarrow> False)"

definition fc_forward :: "'x fc \<Rightarrow> val \<Rightarrow> kws list option \<Rightarrow> ('x agent world, val) sx" where
  "fc_forward env input h w =
     (let w = w\<lparr>ustate := sync_history h (start_call env h (ustate w))\<rparr>
      in case flows_call (pipeline_sx (fc_pipeline env)) None Inr [input] [] w of
           (Inl e, w) \<Rightarrow> (Inl e, w\<lparr>ustate := clear_unfinished (ustate w)\<rparr>)
         | (Inr r, w) \<Rightarrow> (Inr r, if is_text r then w\<lparr>ustate := finish_call (ustate w)\<rparr> else w))"

text \<open>The arguments of \<open>forward\<close>: an input and, in the first round, the history of the chat.\<close>

definition fc_item :: "'x fc \<Rightarrow> 'x agent item" where
  "fc_item env =
     Plain (\<lambda>args kw. case (args, kw) of
        ([input], []) \<Rightarrow> fc_forward env input None
      | ([input, h], []) \<Rightarrow> (if h = VNone then fc_forward env input None
                           else sbind (slift (as_messages h)) (\<lambda>ms. fc_forward env input (Some ms)))
      | _ \<Rightarrow> sraise TypeError)"

end
