(* ===== verification/AgentReact.thy ===== *)
theory AgentReact
  imports AgentCall
begin

text \<open>
  \<open>ReactAgent\<close> (\<open>tools/agent/reactAgent.py\<close>): the loop of rounds until the model answers with a text, its limit with the
  callback that may raise it, and the summary that is asked for when the limit is reached.
\<close>

record 'x react =
  ra_fc :: "'x fc"
  ra_max_retries :: nat
  ra_extra_stop :: "(val \<Rightarrow> ('x, val) sx) option"
  ra_on_max :: "(val \<Rightarrow> int \<Rightarrow> int \<Rightarrow> ('x, val) sx) option"
  ra_force :: bool
  ra_force_context :: string
  ra_summary :: "string \<Rightarrow> ('x, val) sx"
  ra_return_last :: bool

definition stop_agent :: "'x react \<Rightarrow> val \<Rightarrow> ('x agent, val) sx" where
  "stop_agent a x =
     (case ra_extra_stop a of
        None \<Rightarrow> sret (VBool (is_text x))
      | Some f \<Rightarrow> sbind (on_ext (f x)) (\<lambda>v. sret (if truthy v then v else VBool (is_text x))))"

definition sync_expanded_round_limit :: "'x react \<Rightarrow> val \<Rightarrow> int \<Rightarrow> int \<Rightarrow> ('x agent, val) sx" where
  "sync_expanded_round_limit a out used limit =
     (case ra_on_max a of
        None \<Rightarrow> sret VNone
      | Some f \<Rightarrow>
          sbind (on_ext (f out used limit)) (\<lambda>v.
          sbind (supd (\<lambda>s.
            case (v, ag_workspace s) of
              (VInt n, Some w) \<Rightarrow> if n > limit then s\<lparr>ag_workspace := Some (w\<lparr>ws_limit := Some n\<rparr>)\<rparr> else s
            | _ \<Rightarrow> s)) (\<lambda>_. sret v)))"

definition limit_item :: "'x react \<Rightarrow> 'x agent item" where
  "limit_item a =
     Plain (\<lambda>args kw. case (args, kw) of
        ([out, VInt used, VInt limit], []) \<Rightarrow> on_user (sync_expanded_round_limit a out used limit)
      | _ \<Rightarrow> sraise TypeError)"

text \<open>The agent's own call has the limit of rounds.\<close>

definition agent_fc :: "'x react \<Rightarrow> 'x fc" where
  "agent_fc a = (ra_fc a)\<lparr>fc_round_limit := Some (int (ra_max_retries a) + 1)\<rparr>"

definition build_agent :: "'x react \<Rightarrow> 'x agent pipeline res" where
  "build_agent a =
     mk_loop ''agent'' [(''fc'', fc_item (agent_fc a))] False (Some (step_item (stop_agent a))) (ra_max_retries a + 1) True
       (if ra_on_max a = None then None else Some (limit_item a))"

section \<open>The summary\<close>

definition function_name :: "val \<Rightarrow> string res" where
  "function_name tc =
     rbind (of_opt AttributeError (as_dict tc)) (\<lambda>d.
     rbind (of_opt AttributeError (as_dict (dict_get d ''function'' (VDict [])))) (\<lambda>f.
       case dict_get f ''name'' (VStr ''?'') of VStr n \<Rightarrow> Inr n | _ \<Rightarrow> Inl TypeError))"

definition observation_line :: "(val \<Rightarrow> string) \<Rightarrow> nat \<Rightarrow> nat \<Rightarrow> kws \<Rightarrow> string option res" where
  "observation_line rep n i m =
     (let role = py_str rep (dict_get m ''role'' (VStr [])); content = dget m ''content''
      in if content = VNone then
           (let calls = dget m ''tool_calls''
            in if \<not> truthy calls then Inr None
               else rbind (of_opt TypeError (as_seq calls)) (\<lambda>cs.
                    rbind (rmap function_name cs) (\<lambda>names.
                      Inr (Some (role @ '': [called tools: '' @ intercalate '', '' names @ '']'')))))
         else Inr (Some (role @ '': '' @ take (if Suc i = n then 1000 else 300) (py_str rep content))))"

definition summary_prompt :: "'x react \<Rightarrow> kws list \<Rightarrow> string res" where
  "summary_prompt a history =
     (let recent = drop (length history - 8) history; n = length recent
      in rbind (rmap (\<lambda>(i, m). observation_line (fc_rep (ra_fc a)) n i m) (zip [0..<n] recent)) (\<lambda>lines.
           Inr ((if ra_force_context a = [] then []
                 else ''Original task context:'' @ [CHR 0x0A] @ take 500 (ra_force_context a) @ [CHR 0x0A, CHR 0x0A]) @
                ''Based on the following recent observations from your tool exploration:'' @ [CHR 0x0A] @
                intercalate [CHR 0x0A] (List.map_filter id lines) @ [CHR 0x0A, CHR 0x0A] @
                ''You have reached the maximum number of tool calls. Stop calling tools now and provide your final answer immediately.'')))"

definition force_summarize_from_history :: "'x react \<Rightarrow> kws list \<Rightarrow> ('x agent, val option) sx" where
  "force_summarize_from_history a history =
     sbind (slift (summary_prompt a history)) (\<lambda>prompt.
     sbind (on_ext (ra_summary a prompt)) (\<lambda>resp.
       let summary = (case resp of
                        VStr t \<Rightarrow> resp
                      | _ \<Rightarrow> (case as_dict resp of Some d \<Rightarrow> dict_get d ''content'' (VStr []) | None \<Rightarrow> VNone))
       in sret (if truthy summary then Some summary else None)))"

section \<open>The call\<close>

definition pop_tool_calls :: "'x react \<Rightarrow> ('x agent, val option) sx" where
  "pop_tool_calls a s =
     (if \<not> ra_return_last a then (Inr None, s)
      else case Option.bind (ag_workspace s) ws_trace of
        Some (t # ts) \<Rightarrow> (Inr (Some (VList (map VDict (t # ts)))), s\<lparr>ag_workspace := None\<rparr>)
      | _ \<Rightarrow>
          (case ag_completed s of
             Some (t # ts) \<Rightarrow> (Inr (Some (VList (map VDict (t # ts)))), s\<lparr>ag_completed := None\<rparr>)
           | _ \<Rightarrow> (Inr None, s)))"

definition finish_agent :: "'x react \<Rightarrow> val \<Rightarrow> ('x agent, val) sx" where
  "finish_agent a ret s =
     (if is_text ret then
        (case pop_tool_calls a s of
           (Inr (Some t), s) \<Rightarrow> (Inr t, s)
         | (_, s) \<Rightarrow> (Inr ret, s))
      else
        let history = (case ag_workspace s of None \<Rightarrow> [] | Some w \<Rightarrow> history_of w)
        in if ra_force a \<and> history \<noteq> [] then
             (case force_summarize_from_history a history s of
                (Inr (Some t), s) \<Rightarrow> (Inr t, s\<lparr>ag_chat := None\<rparr>)
              | (_, s) \<Rightarrow> (Inl ValueError, s))
           else (Inl ValueError, s))"

text \<open>\<open>forward\<close>; \<open>None\<close> is a run that needs more fuel, since the callback may raise the limit for ever.\<close>

definition on_post :: "'x react \<Rightarrow> (exn + val) \<times> 'x agent world \<Rightarrow> (exn + val) \<times> 'x agent world" where
  "on_post a rw =
     (case rw of
        (Inl e, w) \<Rightarrow> (Inl e, w\<lparr>ustate := clear_unfinished (ustate w)\<rparr>)
      | (Inr ret, w) \<Rightarrow>
          (case on_user (finish_agent a ret) w of
             (Inl e, w) \<Rightarrow> (Inl e, w\<lparr>ustate := clear_unfinished (ustate w)\<rparr>)
           | (Inr v, w) \<Rightarrow> (Inr v, w)))"

definition react_forward ::
    "nat \<Rightarrow> 'x react \<Rightarrow> string \<Rightarrow> kws list option \<Rightarrow> 'x agent world \<Rightarrow> ((exn + val) \<times> 'x agent world) option" where
  "react_forward fuel a query h w =
     (case build_agent a of
        Inl e \<Rightarrow> Some (Inl e, w\<lparr>ustate := (ustate w)\<lparr>ag_workspace := None\<rparr>\<rparr>)
      | Inr p \<Rightarrow>
          (let msgs = (case h of None \<Rightarrow> [] | Some ms \<Rightarrow> ms);
               w = w\<lparr>ustate := sync_history h (ustate w)\<rparr>
           in map_option (on_post a) (pipeline_run fuel p (VPkg [VStr query, VList (map VDict msgs)]) [] w)))"

end
