(* ===== verification/AgentRounds.thy ===== *)
theory AgentRounds
  imports AgentReact
begin

text \<open>
  The agent as one loop over its own state: the pipeline of a round and the loop of rounds, which the code builds from
  flows, do the same as a plain sequence of steps and a plain recursion.
\<close>

section \<open>Steps of a flow\<close>

text \<open>What calling a step does with an input: a package of one is unpacked, other packages do not fit.\<close>

definition apply_step :: "(val \<Rightarrow> ('s, val) sx) \<Rightarrow> val \<Rightarrow> ('s, val) sx" where
  "apply_step f v =
     (case v of VPkg xs \<Rightarrow> (case xs of [a] \<Rightarrow> f a | _ \<Rightarrow> sraise TypeError) | VKw d \<Rightarrow> sraise TypeError | _ \<Rightarrow> f v)"

definition flow_step :: "(val \<Rightarrow> ('s, val) sx) \<Rightarrow> val \<Rightarrow> ('s, val) sx" where
  "flow_step f v s = (case apply_step f v s of (Inl e, s) \<Rightarrow> (Inl (to_flow_exn e), s) | (Inr r, s) \<Rightarrow> (Inr r, s))"

fun run_steps :: "(val \<Rightarrow> ('s, val) sx) list \<Rightarrow> val \<Rightarrow> ('s, val) sx" where
  "run_steps [] v = sret v"
| "run_steps (f # fs) v = sbind (flow_step f v) (run_steps fs)"

text \<open>A result over the world, seen over its user state.\<close>

definition seen :: "(exn + 'a) \<times> 's world \<Rightarrow> (exn + 'a) \<times> 's" where
  "seen rw = (fst rw, ustate (snd rw))"

lemma seen_simps [simp]: "seen (r, w) = (r, ustate w)"
  by (simp add: seen_def)

lemma seen_on_user [simp]: "seen (on_user f w) = f (ustate w)"
  by (simp add: on_user_def split: prod.splits)

lemma sraise_on_user: "sraise e w = on_user (sraise e) w"
  by (simp add: on_user_def)

lemma on_user_eq: "on_user f w = (fst (f (ustate w)), w\<lparr>ustate := snd (f (ustate w))\<rparr>)"
  by (simp add: on_user_def split: prod.splits)

lemma call_step_item: "call_item (step_item f) v src [] w = on_user (apply_step f v) w"
  by (auto simp: call_item_def step_item_def apply_step_def on_user_def split: val.splits list.splits prod.splits)

lemma unbound_step [simp]: "unbound (step_item f)"
  by (simp add: step_item_def)

lemma invoke_step_item: "seen (invoke (step_item f) v src [] w) = flow_step f v (ustate w)"
  by (simp add: invoke_def call_step_item on_user_eq flow_step_def split: prod.splits sum.splits)

lemma ustate_put_source [simp]: "ustate (put_source flag i src w) = ustate w"
  by (simp add: put_source_def)

lemma ustate_drop_source [simp]: "ustate (drop_source flag i w) = ustate w"
  by (simp add: drop_source_def)

lemma ustate_record [simp]: "ustate (record_iterations p n w) = ustate w"
  by (simp add: record_iterations_def split: option.splits)

lemma run_items_steps:
  "(case run_items pid flag (map (\<lambda>(i, f). (i, step_item f)) fs) v [] src w of
      (Inl e, w) \<Rightarrow> (Inl e, ustate w) | (Inr (out, kw, src), w) \<Rightarrow> (Inr out, ustate w)) =
   run_steps (map snd fs) v (ustate w)"
proof (induction fs arbitrary: v src w)
  case (Cons x fs)
  obtain i f where x: "x = (i, f)" by fastforce
  have c: "call_item (step_item f) v (Some src) [] w =
      (fst (apply_step f v (ustate w)), w\<lparr>ustate := snd (apply_step f v (ustate w))\<rparr>)"
    by (simp add: call_step_item on_user_eq)
  obtain r s where r: "apply_step f v (ustate w) = (r, s)" by fastforce
  show ?case
  proof (cases r)
    case (Inl e)
    then show ?thesis
      by (simp add: x c r flow_step_def sbind_def fail_source_def)
  next
    case (Inr out)
    let ?src = "AList.update i out src" and ?w = "put_source flag pid (AList.update i out src) (w\<lparr>ustate := s\<rparr>)"
    from Inr Cons.IH [of out ?src ?w] show ?thesis
      by (simp add: x c r flow_step_def sbind_def Let_def)
  qed
qed simp

lemma pipeline_steps:
  "seen (pipeline_sx (mk_pipeline pid (map (\<lambda>(i, f). (i, step_item f)) fs) False) v [] w) = run_steps (map snd fs) v (ustate w)"
proof -
  let ?p = "mk_pipeline pid (map (\<lambda>(i, f). (i, step_item f)) fs) False"
  let ?flag = "case save_flag w of None \<Rightarrow> pl_save ?p | Some f \<Rightarrow> f"
  let ?src = "init_source ?p v []"
  have p: "pl_count ?p = 1" "pl_stop ?p = None" "pl_limit ?p = None" "pl_full ?p" by (simp_all add: mk_pipeline_def)
  note q = run_items_plain [OF p, of 0 ?flag v "[]" ?src "put_source ?flag (pl_id ?p) ?src w"]
  have i: "pl_items ?p = map (\<lambda>(i, f). (i, step_item f)) fs" by (simp add: mk_pipeline_def)
  note r = run_items_steps [of "pl_id ?p" ?flag fs v ?src "put_source ?flag (pl_id ?p) ?src w"]
  show ?thesis
  proof (cases "run_items (pl_id ?p) ?flag (pl_items ?p) v [] ?src (put_source ?flag (pl_id ?p) ?src w)")
    case (Pair res w1)
    show ?thesis
    proof (cases res)
      case (Inl e)
      then show ?thesis using q r Pair i p(1) by (simp add: pipeline_sx_def pipeline_run_def Let_def seen_def del: pipe_loop.simps)
    next
      case (Inr x)
      obtain out kw src where "x = (out, kw, src)" by (cases x) auto
      then show ?thesis using q r Pair i p(1) Inr
        by (simp add: pipeline_sx_def pipeline_run_def Let_def seen_def del: pipe_loop.simps)
    qed
  qed
qed

section \<open>One round\<close>

definition ask_model :: "'x fc \<Rightarrow> val \<Rightarrow> ('x agent, val) sx" where
  "ask_model env inp s = on_ext (fc_llm env inp (ag_chat s) (case ag_tools s of Some ts \<Rightarrow> ts | None \<Rightarrow> [])) s"

definition fc_round :: "'x fc \<Rightarrow> val \<Rightarrow> ('x agent, val) sx" where
  "fc_round env = run_steps [build_history env, ask_model env, post_action env]"

lemma fc_pipeline_round: "seen (pipeline_sx (fc_pipeline env) v [] w) = fc_round env v (ustate w)"
proof -
  have "fc_pipeline env = mk_pipeline ''_impl'' (map (\<lambda>(i, f). (i, step_item f))
      [(''pre_action'', build_history env), (''llm'', ask_model env), (''post_action'', post_action env)]) False"
    by (simp add: fc_pipeline_def ask_model_def [abs_def])
  then have "seen (pipeline_sx (fc_pipeline env) v [] w) = run_steps (map snd
      [(''pre_action'', build_history env), (''llm'', ask_model env), (''post_action'', post_action env)]) v (ustate w)"
    by (simp only: pipeline_steps)
  then show ?thesis by (simp add: fc_round_def)
qed

definition fc_step :: "'x fc \<Rightarrow> val \<Rightarrow> kws list option \<Rightarrow> ('x agent, val) sx" where
  "fc_step env input h s =
     (case fc_round env input (sync_history h (start_call env h s)) of
        (Inl e, s) \<Rightarrow> (Inl e, clear_unfinished s)
      | (Inr r, s) \<Rightarrow> (Inr r, if is_text r then finish_call s else s))"

lemma fc_forward_step: "seen (fc_forward env input h w) = fc_step env input h (ustate w)"
proof -
  let ?w = "w\<lparr>ustate := sync_history h (start_call env h (ustate w))\<rparr>"
  have f: "flows_call (pipeline_sx (fc_pipeline env)) None Inr [input] [] ?w = pipeline_sx (fc_pipeline env) input [] ?w"
    by (simp add: flows_call_def sbind_def sret_def slift_def split: prod.splits sum.splits)
  obtain r w' where r: "pipeline_sx (fc_pipeline env) input [] ?w = (r, w')" by fastforce
  then have "fc_round env input (ustate ?w) = (r, ustate w')" using fc_pipeline_round [of env input ?w] by simp
  then show ?thesis by (cases r) (simp_all add: fc_forward_def fc_step_def f r Let_def)
qed

text \<open>The call of a round with what the loop hands to it.\<close>

definition fc_apply :: "'x fc \<Rightarrow> val \<Rightarrow> ('x agent, val) sx" where
  "fc_apply env v =
     (let call = (\<lambda>args. case args of
            [input] \<Rightarrow> fc_step env input None
          | [input, h] \<Rightarrow> (if h = VNone then fc_step env input None
                         else sbind (slift (as_messages h)) (\<lambda>ms. fc_step env input (Some ms)))
          | _ \<Rightarrow> sraise TypeError)
      in case v of VPkg xs \<Rightarrow> call xs | VKw d \<Rightarrow> (if d = [] then call [] else sraise TypeError) | _ \<Rightarrow> call [v])"

lemma seen_sraise [simp]: "seen (sraise e w) = sraise e (ustate w)"
  by simp

lemma seen_slift_bind: "(\<And>x. seen (f x w) = g x (ustate w)) \<Longrightarrow> seen (sbind (slift r) f w) = sbind (slift r) g (ustate w)"
  by (cases r) (simp_all add: sbind_def)

lemma call_fc_item: "seen (call_item (fc_item env) v src [] w) = fc_apply env v (ustate w)"
  by (auto simp: call_item_def fc_item_def fc_apply_def Let_def fc_forward_step intro!: seen_slift_bind
      split: val.splits list.splits)

section \<open>The loop of rounds\<close>

definition ask_more :: "'x react \<Rightarrow> val \<Rightarrow> nat \<Rightarrow> nat \<Rightarrow> ('x agent, nat) sx" where
  "ask_more a out used limit s =
     (if ra_on_max a \<noteq> None \<and> used = limit then
        (case sync_expanded_round_limit a out (int used) (int limit) s of
           (Inl e, s) \<Rightarrow> (Inl (to_flow_exn e), s)
         | (Inr v, s) \<Rightarrow> (Inr (case v of VInt n \<Rightarrow> if n > int limit then nat n else limit | _ \<Rightarrow> limit), s))
      else (Inr limit, s))"

fun react_rounds :: "nat \<Rightarrow> 'x react \<Rightarrow> nat \<Rightarrow> nat \<Rightarrow> val \<Rightarrow> 'x agent \<Rightarrow> ((exn + val) \<times> 'x agent) option" where
  "react_rounds 0 a used limit v s = None"
| "react_rounds (Suc fuel) a used limit v s =
     (if \<not> used < limit then Some (Inr v, s)
      else case fc_apply (agent_fc a) v s of
        (Inl e, s) \<Rightarrow> Some (Inl (to_flow_exn e), s)
      | (Inr out, s) \<Rightarrow>
          (case flow_step (stop_agent a) out s of
             (Inl e, s) \<Rightarrow> Some (Inl e, s)
           | (Inr b, s) \<Rightarrow>
               if truthy b then Some (Inr out, s)
               else (case ask_more a out (Suc used) limit s of
                       (Inl e, s) \<Rightarrow> Some (Inl e, s)
                     | (Inr limit, s) \<Rightarrow> react_rounds fuel a (Suc used) limit out s)))"

lemma invoke_seen:
  "seen (invoke it v src kw w) = (case seen (call_item it v src kw w) of (Inl e, s) \<Rightarrow> (Inl (to_flow_exn e), s) | (Inr r, s) \<Rightarrow> (Inr r, s))"
  by (simp add: invoke_def seen_def split: prod.splits sum.splits)

lemma ask_stop_seen:
  "seen (ask_stop (Some (step_item f)) v w) = (case flow_step f v (ustate w) of (Inl e, s) \<Rightarrow> (Inl e, s) | (Inr b, s) \<Rightarrow> (Inr (truthy b), s))"
proof -
  obtain r w' where r: "invoke (step_item f) v None [] w = (r, w')" by fastforce
  then have "flow_step f v (ustate w) = (r, ustate w')" using invoke_step_item [of f v None w] by simp
  then show ?thesis using r by (cases r) (simp_all add: ask_stop_def)
qed

lemma ask_limit_seen:
  "seen (ask_limit (if ra_on_max a = None then None else Some (limit_item a)) True out used limit w) = ask_more a out used limit (ustate w)"
proof (cases "ra_on_max a \<noteq> None \<and> used = limit")
  case True
  let ?v = "VPkg [out, VInt (int used), VInt (int limit)]"
  have "call_item (limit_item a) ?v None [] w = on_user (sync_expanded_round_limit a out (int used) (int limit)) w"
    by (simp add: call_item_def limit_item_def)
  then have s: "seen (invoke (limit_item a) ?v None [] w) =
      (case sync_expanded_round_limit a out (int used) (int limit) (ustate w) of
         (Inl e, s) \<Rightarrow> (Inl (to_flow_exn e), s) | (Inr r, s) \<Rightarrow> (Inr r, s))"
    by (simp add: invoke_seen)
  obtain r w' where r: "invoke (limit_item a) ?v None [] w = (r, w')" by fastforce
  then show ?thesis using s True
    by (cases r) (auto simp: ask_limit_def ask_more_def split: prod.splits sum.splits)
qed (auto simp: ask_limit_def ask_more_def)

lemma react_loop_rounds:
  assumes "build_agent a = Inr p"
  shows "map_option (\<lambda>(r, w). (map_sum id fst r, ustate w)) (pipe_loop fuel p flag used limit v [] src w) =
    react_rounds fuel a used limit v (ustate w)"
proof (induction fuel arbitrary: used limit v src w)
  case (Suc fuel)
  have p: "pl_items p = [(''fc'', fc_item (agent_fc a))]" "pl_full p" "pl_stop p = Some (step_item (stop_agent a))" "pl_loop p"
    "pl_limit p = (if ra_on_max a = None then None else Some (limit_item a))"
    using assms by (auto simp: build_agent_def mk_loop_def split: if_splits)
  have u: "unbound (fc_item (agent_fc a))" by (simp add: fc_item_def)
  show ?case
  proof (cases "used < limit")
    case less: True
    obtain r w1 where c: "call_item (fc_item (agent_fc a)) v (Some src) [] w = (r, w1)" by fastforce
    then have c': "fc_apply (agent_fc a) v (ustate w) = (r, ustate w1)" using call_fc_item [of "agent_fc a" v "Some src" w] by simp
    show ?thesis
    proof (cases r)
      case (Inl e)
      then show ?thesis using less c c' u by (simp add: p fail_source_def)
    next
      case (Inr out)
      let ?src = "AList.update ''fc'' out src"
      let ?w = "put_source flag (pl_id p) ?src w1"
      obtain b w2 where b: "ask_stop (Some (step_item (stop_agent a))) out ?w = (b, w2)" by fastforce
      have b': "(case flow_step (stop_agent a) out (ustate w1) of (Inl e, s) \<Rightarrow> (Inl e, s) | (Inr b, s) \<Rightarrow> (Inr (truthy b), s)) =
          (b, ustate w2)"
        using ask_stop_seen [of "stop_agent a" out ?w] b by simp
      obtain n w3 where n: "ask_limit (pl_limit p) True out (Suc used) limit w2 = (n, w3)" by fastforce
      then have n': "ask_more a out (Suc used) limit (ustate w2) = (n, ustate w3)"
        using ask_limit_seen [of a out "Suc used" limit w2] p(5) by simp
      show ?thesis
      proof (cases b)
        case l: (Inl e)
        then have "flow_step (stop_agent a) out (ustate w1) = (Inl e, ustate w2)"
          using b' by (auto split: prod.splits sum.splits)
        then show ?thesis using less c c' Inr b l by (simp add: p Let_def split_exp_def)
      next
        case r: (Inr t)
        then obtain t' where t: "flow_step (stop_agent a) out (ustate w1) = (Inr t', ustate w2)" "t = truthy t'"
          using b' by (auto split: prod.splits sum.splits)
        show ?thesis
        proof (cases t)
          case True
          then show ?thesis using less c c' Inr b r t by (simp add: p Let_def split_exp_def)
        next
          case False
          then show ?thesis using less c c' Inr b r t n n' Suc.IH
            by (cases n) (simp_all add: p Let_def split_exp_def)
        qed
      qed
    qed
  qed simp
qed simp

text \<open>The whole call over the state of the agent.\<close>

definition react_run :: "nat \<Rightarrow> 'x react \<Rightarrow> string \<Rightarrow> kws list option \<Rightarrow> 'x agent \<Rightarrow> ((exn + val) \<times> 'x agent) option" where
  "react_run fuel a query h s =
     map_option (\<lambda>(r, s). case sbind (slift r) (finish_agent a) s of
         (Inl e, s) \<Rightarrow> (Inl e, clear_unfinished s) | (Inr v, s) \<Rightarrow> (Inr v, s))
       (react_rounds fuel a 0 (ra_max_retries a + 1)
          (VPkg [VStr query, VList (map VDict (case h of None \<Rightarrow> [] | Some ms \<Rightarrow> ms))]) (sync_history h s))"

lemma react_forward_run:
  assumes "1 \<le> ra_max_retries a"
  shows "map_option seen (react_forward fuel a query h w) = react_run fuel a query h (ustate w)"
proof -
  obtain p where p: "build_agent a = Inr p" using assms by (auto simp: build_agent_def mk_loop_def)
  have c: "pl_count p = ra_max_retries a + 1" using p by (auto simp: build_agent_def mk_loop_def split: if_splits)
  let ?v = "VPkg [VStr query, VList (map VDict (case h of None \<Rightarrow> [] | Some ms \<Rightarrow> ms))]"
  let ?w = "w\<lparr>ustate := sync_history h (ustate w)\<rparr>"
  let ?flag = "case save_flag ?w of None \<Rightarrow> pl_save p | Some f \<Rightarrow> f"
  let ?src = "init_source p ?v []"
  let ?loop = "pipe_loop fuel p ?flag 0 (pl_count p) ?v [] ?src (put_source ?flag (pl_id p) ?src ?w)"
  have l: "react_rounds fuel a 0 (ra_max_retries a + 1) ?v (sync_history h (ustate w)) =
      map_option (\<lambda>(r, w). (map_sum id fst r, ustate w)) ?loop"
    using react_loop_rounds [OF p, of fuel ?flag 0 "pl_count p" ?v ?src "put_source ?flag (pl_id p) ?src ?w"] c by simp
  have post: "seen (on_post a (r, w')) = (case sbind (slift r) (finish_agent a) (ustate w') of
      (Inl e, s) \<Rightarrow> (Inl e, clear_unfinished s) | (Inr v, s) \<Rightarrow> (Inr v, s))" for r w'
    by (cases r) (auto simp: on_post_def on_user_eq split: prod.splits sum.splits)
  have f: "react_forward fuel a query h w = map_option (on_post a) (pipeline_run fuel p ?v [] ?w)"
    by (simp add: react_forward_def p Let_def)
  show ?thesis
  proof (cases ?loop)
    case None
    then show ?thesis unfolding f react_run_def l by (simp add: pipeline_run_def Let_def)
  next
    case (Some rw)
    obtain r w' where rw: "rw = (r, w')" by fastforce
    show ?thesis
    proof (cases r)
      case (Inl e)
      then show ?thesis using Some rw unfolding f react_run_def l by (simp add: pipeline_run_def Let_def post)
    next
      case (Inr x)
      obtain out n where "x = (out, n)" by fastforce
      then show ?thesis using Some rw Inr unfolding f react_run_def l by (simp add: pipeline_run_def Let_def post)
    qed
  qed
qed

text \<open>
  C29. The agent, which the code builds as a loop of flows around a call whose pipeline prepares the history, asks the model and runs the
  tools, does what a plain recursion over the agent's own state does.
\<close>

theorem agent_is_recursion:
  assumes "1 \<le> ra_max_retries a"
  shows "map_option seen (react_forward fuel a query h w) = react_run fuel a query h (ustate w)"
  using assms by (rule react_forward_run)

end
