(* ===== verification/AgentEffects.thy ===== *)
theory AgentEffects
  imports AgentRounds
begin

text \<open>
  What the parts of a round change: most of them leave the workspace and the announced rounds alone, and the others change them
  in one known way.
\<close>

section \<open>Calm computations\<close>

text \<open>The rounds that were announced: number, limit, remaining rounds.\<close>

fun announced :: "event list \<Rightarrow> (int \<times> int \<times> int) list" where
  "announced [] = []"
| "announced (TurnStart r l m # es) = (r, l, m) # announced es"
| "announced (_ # es) = announced es"

lemma announced_append [simp]: "announced (es @ fs) = announced es @ announced fs"
  by (induction es rule: announced.induct) simp_all

definition calm :: "('x agent, 'a) sx \<Rightarrow> bool" where
  "calm f \<longleftrightarrow> (\<forall>s. ag_workspace (snd (f s)) = ag_workspace s \<and> announced (ag_events (snd (f s))) = announced (ag_events s))"

named_theorems calm_rules \<open>calm computations\<close>

lemma calmD: "calm f \<Longrightarrow> f s = (r, s') \<Longrightarrow> ag_workspace s' = ag_workspace s \<and> announced (ag_events s') = announced (ag_events s)"
  unfolding calm_def by (metis snd_conv)

lemma calm_ret [calm_rules]: "calm (sret a)" "calm (sraise e)" "calm (slift r)"
  by (simp_all add: calm_def)

lemma calm_bind [calm_rules]:
  assumes "calm f" and "\<And>a. calm (g a)"
  shows "calm (sbind f g)"
  using assms unfolding calm_def sbind_def by (simp split: prod.split sum.split) (metis snd_conv)

lemma calm_if [calm_rules]: "(b \<Longrightarrow> calm f) \<Longrightarrow> (\<not> b \<Longrightarrow> calm g) \<Longrightarrow> calm (if b then f else g)"
  by simp

lemma calm_case [calm_rules]:
  "(\<And>a b. p = (a, b) \<Longrightarrow> calm (h a b)) \<Longrightarrow> calm (case p of (a, b) \<Rightarrow> h a b)"
  "(m = None \<Longrightarrow> calm f) \<Longrightarrow> (\<And>a. m = Some a \<Longrightarrow> calm (g a)) \<Longrightarrow> calm (case m of None \<Rightarrow> f | Some a \<Rightarrow> g a)"
  by (cases p; simp) (cases m; simp)

lemma calm_on_ext [calm_rules]: "calm (on_ext f)"
  by (simp add: calm_def on_ext_def split: prod.split)

lemma calm_current_tools [calm_rules]: "calm (current_tools env refresh)"
  by (auto simp: calm_def current_tools_def observe_def Let_def split: bool.split option.split)

lemma calm_visible [calm_rules]: "calm (visible_tool_names env)"
  unfolding visible_tool_names_def by (intro calm_rules)

lemma calm_compact [calm_rules]: "calm (compact_history env prior input current remaining)"
  unfolding compact_history_def by (intro calm_rules)

lemma calm_context [calm_rules]: "calm (consume_model_context env)"
  by (auto simp: calm_def consume_model_context_def on_ext_def observe_def split: option.split prod.split sum.split val.split)

lemma calm_validate [calm_rules]: "calm (validate_context env h i)"
  unfolding validate_context_def by (intro calm_rules)

lemma calm_put_chat [calm_rules]: "calm (put_chat prior)"
  by (simp add: calm_def put_chat_def)

lemma calm_notify [calm_rules]: "calm (notify_history budget w h)"
  by (simp add: calm_def notify_history_def observe_def)

lemma calm_turn_end [calm_rules]: "calm (turn_end tools stop)"
  by (simp add: calm_def turn_end_def observe_def split: option.split)

lemma calm_get_workspace [calm_rules]: "calm get_workspace"
  by (simp add: calm_def get_workspace_def)

lemma calm_before [calm_rules]: "calm (before_model_request env)"
  unfolding before_model_request_def by (intro calm_rules)

lemma calm_ask_model [calm_rules]: "calm (ask_model env v)"
  unfolding ask_model_def calm_def using calm_on_ext unfolding calm_def by blast

lemma calm_build_user [calm_rules]: "calm (build_user_input env input content prior w budget)"
  unfolding build_user_input_def Let_def by (intro calm_rules)

section \<open>Preparing a round\<close>

lemma sbind_put [simp]: "sbind (put_workspace w) f s = f () (s\<lparr>ag_workspace := Some w\<rparr>)"
  by (simp add: sbind_def put_workspace_def)

lemma sbind_get: "ag_workspace s = Some w \<Longrightarrow> sbind get_workspace f s = f w s"
  by (simp add: sbind_def get_workspace_def)

definition next_budget :: "'x fc \<Rightarrow> int \<Rightarrow> workspace \<Rightarrow> int \<times> int" where
  "next_budget env limit w =
     ((case ws_round w of None \<Rightarrow> 0 | Some r \<Rightarrow> r) + 1, (case ws_limit w of None \<Rightarrow> limit | Some l \<Rightarrow> l))"

lemma tool_input_effect:
  assumes "build_tool_call_input env d w budget s = (r, s')"
  shows "announced (ag_events s') = announced (ag_events s) \<and>
    (\<forall>v. r = Inr v \<longrightarrow> (\<exists>ms. current_tool_messages env w budget = Inr ms \<and>
       ag_workspace s' = Some (append_history ms (append_history [assistant_message d] w))))"
proof (cases "current_tool_messages env w budget")
  case (Inl e)
  then show ?thesis using assms by (auto simp: build_tool_call_input_def sbind_def)
next
  case (Inr ms)
  let ?w = "append_history ms (append_history [assistant_message d] w)"
  define rest where "rest =
     sbind (compact_history env (history_of (append_history [assistant_message d] w)) (VStr []) ms (map_option snd budget)) (\<lambda>(prior, current).
        sbind (consume_model_context env) (\<lambda>notices.
        sbind (put_chat prior) (\<lambda>_.
        sbind (validate_context env (prior @ current @ notices) VNone) (\<lambda>_.
        sbind (notify_history budget ?w (prior @ current @ notices)) (\<lambda>_.
        sret (messages_input (current @ notices)))))))"
  have c: "calm rest" unfolding rest_def by (intro calm_rules)
  have "rest (s\<lparr>ag_workspace := Some ?w\<rparr>) = (r, s')"
    using assms by (simp add: build_tool_call_input_def Inr Let_def sbind_def [of "slift _"] rest_def)
  from calmD [OF c this] show ?thesis using Inr by simp
qed

lemma prepare_round_effect:
  assumes "fc_round_limit env = Some limit" and "next_budget env limit w = (cur, lim)"
  shows "sbind (prepare_round env w) f s =
    f (w\<lparr>ws_round := Some cur\<rparr>, Some (cur, max 0 (lim - cur)))
      (s\<lparr>ag_workspace := Some (w\<lparr>ws_round := Some cur\<rparr>), ag_events := ag_events s @ [TurnStart cur lim (max 0 (lim - cur))]\<rparr>)"
  using assms by (auto simp: prepare_round_def next_budget_def Let_def sbind_def put_workspace_def observe_def split: option.splits)

text \<open>
  What a round makes of the history: the input of a user is appended, the output of the last round with the results of its
  calls too.
\<close>

definition round_history :: "'x fc \<Rightarrow> val \<Rightarrow> workspace \<Rightarrow> (int \<times> int) option \<Rightarrow> kws list \<Rightarrow> bool" where
  "round_history env input w budget h \<longleftrightarrow>
     (case (user_input input, as_dict input) of
        (None, Some d) \<Rightarrow> \<exists>ms. current_tool_messages env w budget = Inr ms \<and> h = history_of w @ assistant_message d # ms
      | (None, None) \<Rightarrow> h = history_of w
      | (Some c, _) \<Rightarrow> h = history_of w @ [user_message c])"

lemma build_history_effect:
  assumes "build_history env input s = (r, s')" and "ag_workspace s = Some w" and "fc_round_limit env = Some limit"
    and "next_budget env limit w = (cur, lim)"
  shows "(announced (ag_events s') = announced (ag_events s) \<and> (\<exists>e. r = Inl e)) \<or>
    (announced (ag_events s') = announced (ag_events s) @ [(cur, lim, max 0 (lim - cur))] \<and>
     (\<forall>v. r = Inr v \<longrightarrow> (\<exists>h. round_history env input w (Some (cur, max 0 (lim - cur))) h \<and>
        ag_workspace s' = Some (w\<lparr>ws_round := Some cur, ws_history := Some h\<rparr>))))"
proof -
  define tail where "tail = (\<lambda>w. \<lambda>(w1, budget).
        case (user_input input, as_dict input) of
          (None, Some d) \<Rightarrow> build_tool_call_input env d w1 budget
        | (content, _) \<Rightarrow>
            (let w1 = (case content of None \<Rightarrow> w1 | Some c \<Rightarrow> append_history [user_message c] w1)
             in sbind (put_workspace w1) (\<lambda>_. build_user_input env input content (history_of w) w1 budget)))"
  obtain r1 s1 where b: "sbind (before_model_request env) (\<lambda>_. current_tools env True) s = (r1, s1)" by fastforce
  have c1: "calm (sbind (before_model_request env) (\<lambda>_. current_tools env True))" by (intro calm_rules)
  note e1 = calmD [OF c1 b]
  show ?thesis
  proof (cases r1)
    case (Inl e)
    then have "r = Inl e" "s' = s1"
      using assms(1) b by (auto simp: build_history_def sbind_def split: prod.splits sum.splits)
    then show ?thesis using e1 by simp
  next
    case (Inr ts)
    let ?h = "history_of w"
    let ?b = "Some (cur, max 0 (lim - cur))"
    let ?w0 = "w\<lparr>ws_history := Some ?h\<rparr>"
    let ?w1 = "?w0\<lparr>ws_round := Some cur\<rparr>"
    let ?s2 = "s1\<lparr>ag_workspace := Some ?w1, ag_events := ag_events s1 @ [TurnStart cur lim (max 0 (lim - cur))]\<rparr>"
    have nb: "next_budget env limit ?w0 = (cur, lim)" using assms(4) by (simp add: next_budget_def)
    have "build_history env input s = sbind get_workspace (\<lambda>w. let w0 = w\<lparr>ws_history := Some (history_of w)\<rparr>
        in sbind (put_workspace w0) (\<lambda>_. sbind (prepare_round env w0) (tail w))) s1"
      using b Inr by (auto simp: build_history_def tail_def Let_def sbind_def split: prod.splits sum.splits)
    also have "\<dots> = tail w (?w1, ?b) ?s2"
      using e1 assms(2) by (simp add: sbind_get [of s1 w] Let_def prepare_round_effect [OF assms(3) nb])
    finally have t: "tail w (?w1, ?b) ?s2 = (r, s')" using assms(1) by simp
    have a2: "announced (ag_events ?s2) = announced (ag_events s) @ [(cur, lim, max 0 (lim - cur))]" using e1 by simp
    have hw: "history_of ?w1 = ?h" by (simp add: history_of_def)
    show ?thesis
    proof (cases "user_input input = None \<and> (\<exists>d. as_dict input = Some d)")
      case True
      then obtain d where d: "user_input input = None" "as_dict input = Some d" by blast
      have "build_tool_call_input env d ?w1 ?b ?s2 = (r, s')" using t d by (simp add: tail_def)
      note e = tool_input_effect [OF this]
      have "current_tool_messages env ?w1 ?b = current_tool_messages env w ?b" by (simp add: current_tool_messages_def)
      then show ?thesis using e a2 d hw by (auto simp: round_history_def append_history_def history_of_def)
    next
      case False
      define w2 where "w2 = (case user_input input of None \<Rightarrow> ?w1 | Some c \<Rightarrow> append_history [user_message c] ?w1)"
      have "build_user_input env input (user_input input) ?h w2 ?b (?s2\<lparr>ag_workspace := Some w2\<rparr>) = (r, s')"
        using t False by (auto simp: tail_def w2_def Let_def split: option.splits)
      from calmD [OF calm_build_user this]
      have e: "ag_workspace s' = Some w2" "announced (ag_events s') = announced (ag_events ?s2)" by simp_all
      have "w2 = w\<lparr>ws_round := Some cur, ws_history := Some (?h @ (case user_input input of None \<Rightarrow> [] | Some c \<Rightarrow> [user_message c]))\<rparr>"
        by (simp add: w2_def append_history_def hw split: option.split)
      then show ?thesis using e a2 False by (auto simp: round_history_def split: option.splits)
    qed
  qed
qed

section \<open>The calls of a round\<close>

lemma normalize_length [simp]: "length (normalize_tool_calls rep dumps uuid i tcs) = length tcs"
  by (induction tcs arbitrary: i) simp_all

lemma prepare_length: "prepare_tool_calls rep dumps uuid canon m allowed policy tools = Inr ps \<Longrightarrow> length ps = length tools"
  by (auto simp: prepare_tool_calls_def Let_def dest!: rmap_length)

definition fair_threads :: "'x fc \<Rightarrow> bool" where
  "fair_threads env \<longleftrightarrow> (\<forall>as. sched_of as (fc_sched env as))"

lemma run_tools_length:
  assumes "run_tools env calls allowed x = (Inr rs, x')" and "fair_threads env"
  shows "length rs = length calls"
proof -
  obtain ps recs where p: "prepare_tool_calls (fc_rep env) (fc_dumps env) (fc_uuid env x) (fc_canon env) (fc_manager env) (Some allowed) None calls = Inr ps"
    and e: "execute_prepared (fc_sched env) ps [] None x = (Inr recs, x')" and rs: "rs = map (result_envelope env \<circ> rc_result) recs"
    using assms(1) by (auto simp: run_tools_def split: sum.splits prod.splits)
  have n: "numbered ps" using prepared_numbered [OF p] by simp
  obtain sel where "execute_batch (fc_sched env) True ps sel [] x = (Inr recs, x')"
    using e by (auto simp: execute_prepared_def split: sum.splits)
  from execute_batch_records [OF this n] assms(2) have "map (\<lambda>r. pr_index (rc_prepared r)) recs = [0..<length ps]"
    by (auto simp: fair_threads_def)
  then have "length recs = length ps" by (metis length_map map_nth)
  then show ?thesis using prepare_length [OF p] rs by simp
qed

text \<open>The output of a round that goes on, and the trace that it leaves in the workspace: one result for each call.\<close>

definition made_calls :: "kws \<Rightarrow> workspace \<Rightarrow> bool" where
  "made_calls d w \<longleftrightarrow>
     (\<exists>calls rs trace. dget d ''tool_calls'' = VList calls \<and> calls \<noteq> [] \<and> length rs = length calls \<and>
        rmap traced_call (zip calls rs) = Inr trace \<and> ws_trace w = Some trace)"

lemma calm_after [calm_rules]: "calm (after_results env d calls results)"
  unfolding after_results_def Let_def by (intro calm_rules)

lemma run_calls_effect:
  assumes "run_calls env d items s = (r, s')" and "ag_workspace s = Some w" and "fair_threads env" and "items \<noteq> []"
  shows "announced (ag_events s') = announced (ag_events s) \<and>
    (\<forall>v. r = Inr v \<longrightarrow> (\<exists>trace. ag_workspace s' = Some (w\<lparr>ws_trace := Some trace\<rparr>) \<and>
       (is_text v \<or> (\<exists>calls. v = VDict (AList.update ''tool_calls'' (VList calls) d) \<and>
          made_calls (AList.update ''tool_calls'' (VList calls) d) (w\<lparr>ws_trace := Some trace\<rparr>)))))"
proof (cases "rmap drop_index items")
  case (Inl e)
  then show ?thesis using assms(1) by (auto simp: run_calls_def sbind_def)
next
  case (Inr its)
  define calls where "calls = normalize_tool_calls (fc_rep env) (fc_dumps env) (fc_uuid env (ag_ext s)) 0 its"
  have l: "length calls = length items" using rmap_length [OF Inr] by (simp add: calls_def)
  let ?d = "AList.update ''tool_calls'' (VList calls) d"
  have rc: "run_calls env d items s =
      sbind (sbind (visible_tool_names env) (\<lambda>allowed. on_ext (run_tools env calls allowed))) (\<lambda>results.
      sbind (slift (rmap traced_call (zip calls results))) (\<lambda>trace.
      sbind get_workspace (\<lambda>w.
      sbind (put_workspace (w\<lparr>ws_trace := Some trace\<rparr>)) (\<lambda>_. after_results env ?d calls results)))) s"
    by (simp add: run_calls_def Inr calls_def [symmetric] sbind_def split: prod.splits sum.splits)
  obtain r1 s1 where t: "sbind (visible_tool_names env) (\<lambda>allowed. on_ext (run_tools env calls allowed)) s = (r1, s1)" by fastforce
  have "calm (sbind (visible_tool_names env) (\<lambda>allowed. on_ext (run_tools env calls allowed)))" by (intro calm_rules)
  note e1 = calmD [OF this t]
  show ?thesis
  proof (cases r1)
    case (Inl e)
    then show ?thesis using assms(1) rc e1 by (auto simp: sbind_def [of "sbind _ _"] t)
  next
    case r1: (Inr results)
    have lr: "length results = length calls"
    proof -
      obtain allowed s2 where "on_ext (run_tools env calls allowed) s2 = (Inr results, s1)"
        using t r1 by (auto simp: sbind_eq)
      then obtain x where "run_tools env calls allowed (ag_ext s2) = (Inr results, x)"
        by (cases "run_tools env calls allowed (ag_ext s2)") (simp add: on_ext_def)
      then show ?thesis by (rule run_tools_length [OF _ assms(3)])
    qed
    show ?thesis
    proof (cases "rmap traced_call (zip calls results)")
      case (Inl e)
      then show ?thesis using assms(1) rc e1 r1 by (auto simp: sbind_def [of "sbind _ _"] t sbind_def [of "slift _"])
    next
      case tr: (Inr trace)
      let ?w = "w\<lparr>ws_trace := Some trace\<rparr>"
      have a: "after_results env ?d calls results (s1\<lparr>ag_workspace := Some ?w\<rparr>) = (r, s')"
        using assms(1,2) rc e1 r1 tr by (simp add: sbind_def [of "sbind _ _"] t sbind_def [of "slift _"] sbind_get)
      from calmD [OF calm_after this] have e2: "ag_workspace s' = Some ?w" "announced (ag_events s') = announced (ag_events s1)" by simp_all
      have m: "made_calls ?d ?w"
        using lr l tr assms(4) by (auto simp: made_calls_def dget_def dict_get_def map_of_update)
      have "is_text v \<or> v = VDict ?d" if "r = Inr v" for v
        using that a by (auto simp: after_results_def Let_def sbind_def is_text_def join_lines_def turn_end_def split: if_splits)
      then have "\<exists>trace. ag_workspace s' = Some (w\<lparr>ws_trace := Some trace\<rparr>) \<and> (is_text v \<or> (\<exists>calls. v = VDict (AList.update ''tool_calls'' (VList calls) d) \<and>
          made_calls (AList.update ''tool_calls'' (VList calls) d) (w\<lparr>ws_trace := Some trace\<rparr>)))" if "r = Inr v" for v
        using m e2(1) that by (intro exI [of _ trace] conjI) auto
      then show ?thesis using e1 e2(2) by auto
    qed
  qed
qed

section \<open>A whole round\<close>

text \<open>
  What the model with its formatter answers: a dictionary without a key \<open>input\<close> and not in the role of the user. Its content may
  be missing or null, as it is in answers that call tools.
\<close>

definition answer_ok :: "kws \<Rightarrow> bool" where
  "answer_ok d \<longleftrightarrow> map_of d ''input'' = None \<and> dget d ''role'' \<noteq> VStr ''user''"

definition model_answers :: "'x fc \<Rightarrow> bool" where
  "model_answers env \<longleftrightarrow>
     (\<forall>inp chat tools x v x'. fc_llm env inp chat tools x = (Inr v, x') \<longrightarrow> (\<exists>d. v = VDict d \<and> answer_ok d))"

lemma answer_ok_update [simp]: "answer_ok (AList.update ''tool_calls'' v d) = answer_ok d"
  by (simp add: answer_ok_def dget_def dict_get_def map_of_update)

lemma calls_from_text_ok:
  assumes "calls_from_text env d = Inr d'" and "answer_ok d"
  shows "answer_ok d' \<and> (truthy (dget d' ''tool_calls'') \<or> (\<exists>t. map_of d' ''content'' = Some (VStr t)))"
proof (cases "truthy (dget d ''tool_calls'')")
  case False
  then obtain t where t: "map_of d ''content'' = Some (VStr t)"
    using assms(1) unfolding calls_from_text_def
    by (cases "map_of d ''content''"; cases "the (map_of d ''content'')") (simp_all add: of_opt_def)
  then have "d' = d \<or> (\<exists>v. d' = AList.update ''tool_calls'' v d)"
    using assms(1) False by (auto simp: calls_from_text_def split: option.splits sum.splits)
  then show ?thesis using assms(2) t by (auto simp: map_of_update)
qed (use assms in \<open>simp add: calls_from_text_def\<close>)

lemma post_action_effect:
  assumes "post_action env (VDict d) s = (r, s')" and "ag_workspace s = Some w" and "fair_threads env" and "answer_ok d"
  shows "announced (ag_events s') = announced (ag_events s) \<and>
    (\<forall>v. r = Inr v \<longrightarrow> (\<exists>w'. ag_workspace s' = Some w' \<and> w' = w\<lparr>ws_trace := ws_trace w'\<rparr> \<and>
       (is_text v \<or> (\<exists>d. v = VDict d \<and> answer_ok d \<and> made_calls d w'))))"
proof (cases "calls_from_text env d")
  case (Inl e)
  then show ?thesis using assms(1) by (auto simp: post_action_def sbind_def)
next
  case (Inr d')
  note ct = calls_from_text_ok [OF Inr assms(4)]
  then have ok: "answer_ok d'" ..
  show ?thesis
  proof (cases "truthy (dget d' ''tool_calls'')")
    case False
    then obtain t where t: "map_of d' ''content'' = Some (VStr t)" using ct by blast
    then have r: "turn_end False False s = (Inr (), s') \<and> r = Inr (VStr t)"
      using assms(1) Inr t False by (auto simp: post_action_def sbind_def turn_end_def)
    then show ?thesis using calmD [OF calm_turn_end, of False False s] assms(2) by (auto simp: is_text_def)
  next
    case True
    show ?thesis
    proof (cases "\<exists>items. dget d' ''tool_calls'' = VList items")
      case False
      then show ?thesis using assms(1) Inr True by (auto simp: post_action_def sbind_def split: val.splits)
    next
      case v: True
      then obtain items where i: "dget d' ''tool_calls'' = VList items" by blast
      then have "items \<noteq> []" using True by simp
      moreover have "run_calls env d' items s = (r, s')" using assms(1) Inr True i by (simp add: post_action_def sbind_def)
      ultimately show ?thesis using run_calls_effect [of env d' items s r s' w] assms(2,3) ok by fastforce
    qed
  qed
qed

text \<open>A round that raises may have been announced; one that returns was, and it leaves the history that it showed.\<close>

definition round_done :: "'x fc \<Rightarrow> val \<Rightarrow> workspace \<Rightarrow> int \<Rightarrow> int \<Rightarrow> val \<Rightarrow> workspace \<Rightarrow> bool" where
  "round_done env input w cur lim v w' \<longleftrightarrow>
     ws_round w' = Some cur \<and> ws_limit w' = ws_limit w \<and>
     (\<exists>h. ws_history w' = Some h \<and> round_history env input w (Some (cur, max 0 (lim - cur))) h) \<and>
     (is_text v \<or> (\<exists>d. v = VDict d \<and> answer_ok d \<and> made_calls d w'))"

definition plain_input :: "val \<Rightarrow> bool" where
  "plain_input v \<longleftrightarrow> is_text v \<or> (\<exists>d. v = VDict d)"

lemma flow_step_plain:
  "plain_input v \<Longrightarrow> flow_step f v s = (case f v s of (Inl e, s) \<Rightarrow> (Inl (to_flow_exn e), s) | (Inr r, s) \<Rightarrow> (Inr r, s))"
  by (auto simp: plain_input_def is_text_def flow_step_def apply_step_def split: val.splits)

lemma build_history_plain: "build_history env input s = (Inr v, s') \<Longrightarrow> plain_input input \<Longrightarrow> plain_input v"
  unfolding build_history_def build_tool_call_input_def build_user_input_def messages_input_def Let_def
  by (auto simp: sbind_eq plain_input_def split: option.splits if_splits prod.splits)

lemma fc_round_effect:
  assumes "fc_round env input s = (r, s')" and "ag_workspace s = Some w" and "fc_round_limit env = Some limit"
    and "next_budget env limit w = (cur, lim)" and "plain_input input" and "model_answers env" and "fair_threads env"
  shows "(announced (ag_events s') = announced (ag_events s) \<and> (\<exists>e. r = Inl e)) \<or>
    (announced (ag_events s') = announced (ag_events s) @ [(cur, lim, max 0 (lim - cur))] \<and>
     (\<forall>v. r = Inr v \<longrightarrow> (\<exists>w'. ag_workspace s' = Some w' \<and> round_done env input w cur lim v w')))"
proof -
  obtain r1 s1 where b: "build_history env input s = (r1, s1)" by fastforce
  note eb = build_history_effect [OF b assms(2-4)]
  show ?thesis
  proof (cases r1)
    case (Inl e)
    then have "s' = s1 \<and> (\<exists>e. r = Inl e)"
      using assms(1) b by (auto simp: fc_round_def flow_step_plain [OF assms(5)] sbind_def)
    then show ?thesis using eb Inl by auto
  next
    case (Inr m)
    have pm: "plain_input m" using build_history_plain b Inr assms(5) by blast
    obtain h where h: "announced (ag_events s1) = announced (ag_events s) @ [(cur, lim, max 0 (lim - cur))]"
      "round_history env input w (Some (cur, max 0 (lim - cur))) h"
      "ag_workspace s1 = Some (w\<lparr>ws_round := Some cur, ws_history := Some h\<rparr>)"
      using eb Inr by auto
    obtain r2 s2 where l: "ask_model env m s1 = (r2, s2)" by fastforce
    note el = calmD [OF calm_ask_model l]
    show ?thesis
    proof (cases r2)
      case (Inl e)
      then have "s' = s2 \<and> (\<exists>e. r = Inl e)"
        using assms(1) b Inr l by (auto simp: fc_round_def flow_step_plain [OF assms(5)] flow_step_plain [OF pm] sbind_def)
      then show ?thesis using h el by auto
    next
      case r2: (Inr out)
      obtain d where d: "out = VDict d" "answer_ok d"
        using l r2 assms(6) unfolding ask_model_def on_ext_def model_answers_def by (fastforce split: prod.splits)
      have po: "plain_input out" using d by (simp add: plain_input_def)
      obtain r3 s3 where p: "post_action env (VDict d) s2 = (r3, s3)" by fastforce
      have ws: "ag_workspace s2 = Some (w\<lparr>ws_round := Some cur, ws_history := Some h\<rparr>)" using el h by simp
      note ep = post_action_effect [OF p ws assms(7) d(2)]
      have e: "s' = s3 \<and> (\<forall>v. r = Inr v \<longrightarrow> r3 = Inr v)"
        using assms(1) b Inr l r2 p d
        by (cases r3) (auto simp: fc_round_def flow_step_plain [OF assms(5)] flow_step_plain [OF pm] flow_step_plain [OF po [unfolded d(1)]] sbind_def)
      have "\<exists>w'. ag_workspace s' = Some w' \<and> round_done env input w cur lim v w'" if v: "r = Inr v" for v
      proof -
        obtain w' where w': "ag_workspace s3 = Some w'" "w' = w\<lparr>ws_round := Some cur, ws_history := Some h, ws_trace := ws_trace w'\<rparr>"
          "is_text v \<or> (\<exists>d. v = VDict d \<and> answer_ok d \<and> made_calls d w')"
          using ep e v by auto
        have "ws_round w' = Some cur" "ws_limit w' = ws_limit w" "ws_history w' = Some h"
          by (subst w'(2), simp)+
        then show ?thesis using w' e h(2) by (auto simp: round_done_def)
      qed
      then show ?thesis using h(1) el ep e by auto
    qed
  qed
qed

end
