(* ===== verification/AgentProps.thy ===== *)
theory AgentProps
  imports AgentEffects
begin

text \<open>
  What the agent promises: the rounds that it announces to the model are the rounds that it has, the history it leaves is made of
  complete tool turns, nothing unfinished stays behind, it ends, and tools that the model does not see never run.
\<close>

section \<open>Tool turns of the history\<close>

text \<open>A message that answers a call: a tool message with the id of the call.\<close>

definition answers_call :: "val \<Rightarrow> kws \<Rightarrow> bool" where
  "answers_call c m \<longleftrightarrow>
     is_role ''tool'' m \<and>
     (case as_dict c of None \<Rightarrow> False | Some d \<Rightarrow> map_of d ''id'' \<noteq> None \<and> map_of m ''tool_call_id'' = map_of d ''id'')"

text \<open>A message of the assistant with its calls, and one answer for each call, in the order of the calls.\<close>

definition tool_turn :: "kws list \<Rightarrow> bool" where
  "tool_turn t \<longleftrightarrow>
     (case t of
        [] \<Rightarrow> False
      | m # ms \<Rightarrow> is_role ''assistant'' m \<and>
          (case dget m ''tool_calls'' of VList calls \<Rightarrow> calls \<noteq> [] \<and> list_all2 answers_call calls ms | _ \<Rightarrow> False))"

lemma tool_message_answers:
  assumes "traced_call (c, r) = Inr t" and "tool_message rep t = Inr m"
  shows "answers_call c m"
proof -
  obtain d where d: "as_dict c = Some d" "t = AList.update ''tool_call_result'' r d"
    using assms(1) by (auto simp: traced_call_def split: option.splits)
  then show ?thesis
    using assms(2)
    by (auto simp: tool_message_def answers_call_def rbind_eq_Inr of_opt_eq_Inr map_of_update is_role_def dget_def dict_get_def
        Let_def split: option.splits)
qed

lemma answers_add_notice: "answers_call c m \<Longrightarrow> answers_call c (add_notice n m)"
  by (auto simp: answers_call_def is_role_def add_notice_def dget_def dict_get_def map_of_update split: option.splits)

lemma current_messages_turn:
  assumes "made_calls d w" and "current_tool_messages env w budget = Inr ms"
  shows "tool_turn (assistant_message d # ms)"
proof -
  obtain calls rs trace where c: "dget d ''tool_calls'' = VList calls" "calls \<noteq> []" "length rs = length calls"
    "rmap traced_call (zip calls rs) = Inr trace" "ws_trace w = Some trace"
    using assms(1) by (auto simp: made_calls_def)
  obtain ms0 where m: "rmap (tool_message (fc_rep env)) trace = Inr ms0"
    "ms = (case budget of None \<Rightarrow> ms0 | Some (_, n) \<Rightarrow> if ms0 = [] then ms0 else butlast ms0 @ [add_notice (budget_notice n) (last ms0)])"
    using assms(2) c(5) by (auto simp: current_tool_messages_def rbind_eq_Inr)
  have t: "list_all2 (\<lambda>x y. traced_call x = Inr y) (zip calls rs) trace" using c(4) by (simp add: rmap_Inr_iff)
  have u: "list_all2 (\<lambda>x y. tool_message (fc_rep env) x = Inr y) trace ms0" using m(1) by (simp add: rmap_Inr_iff)
  have l: "length trace = length calls" "length ms0 = length calls"
    using list_all2_lengthD [OF t] list_all2_lengthD [OF u] c(3) by simp_all
  have a: "answers_call (calls ! i) (ms0 ! i)" if "i < length calls" for i
    using list_all2_nthD [OF t, of i] list_all2_nthD [OF u, of i] that l c(3) by (auto intro: tool_message_answers)
  have "list_all2 answers_call calls ms"
  proof (cases "\<exists>r n. budget = Some (r, n)")
    case False
    then have "ms = ms0" using m(2) by (auto split: option.splits)
    then show ?thesis using a l by (simp add: list_all2_conv_all_nth)
  next
    case True
    have "ms0 \<noteq> []" using l c(2) by auto
    then obtain n where "ms = butlast ms0 @ [add_notice (budget_notice n) (last ms0)]"
      using m(2) \<open>\<exists>r n. budget = Some (r, n)\<close> by auto
    moreover have "answers_call (calls ! i) ((butlast ms0 @ [add_notice (budget_notice n) (last ms0)]) ! i)" if "i < length calls" for i
    proof (cases "i = length calls - 1")
      case True
      have "last ms0 = ms0 ! i" using True l \<open>ms0 \<noteq> []\<close> by (simp add: last_conv_nth)
      then show ?thesis using True a [OF that] l by (simp add: nth_append answers_add_notice)
    next
      case False
      then have "i < length calls - 1" using that by simp
      then show ?thesis using a [OF that] l by (simp add: nth_append nth_butlast)
    qed
    ultimately show ?thesis using l c(2) by (simp add: list_all2_conv_all_nth)
  qed
  moreover have "dget (assistant_message d) ''tool_calls'' = VList calls"
    using c(1) by (auto simp: assistant_message_def dget_def dict_get_def split: option.splits)
  ultimately show ?thesis using c(2)
    by (simp add: tool_turn_def is_role_def) (simp add: assistant_message_def dget_def dict_get_def)
qed

text \<open>With different ids that are texts, such a turn is complete.\<close>

lemma tool_turn_complete:
  assumes "tool_turn t" and "call_ids (dget (hd t) ''tool_calls'') = Some ids"
  shows "complete_turn t 0 (length t)"
proof -
  obtain m ms calls where t: "t = m # ms" "is_role ''assistant'' m" "dget m ''tool_calls'' = VList calls" "list_all2 answers_call calls ms"
    using assms(1) by (auto simp: tool_turn_def split: list.splits val.splits)
  have ids: "ids = map call_id calls" "[] \<notin> set ids"
    using assms(2) t(1,3) by (auto simp: call_ids_def Let_def split: if_splits)
  have l: "length ms = length calls" using t(4) by (simp add: list_all2_lengthD)
  have r: "is_role ''tool'' (ms ! i) \<and> result_id (ms ! i) = Some (call_id (calls ! i))" if "i < length calls" for i
  proof -
    have a: "answers_call (calls ! i) (ms ! i)" using list_all2_nthD [OF t(4) that] .
    then obtain d v where d: "as_dict (calls ! i) = Some d" "map_of d ''id'' = Some v" "map_of (ms ! i) ''tool_call_id'' = Some v"
      by (auto simp: answers_call_def split: option.splits)
    have "call_id (calls ! i) \<noteq> []" using ids that by (metis length_map nth_map nth_mem)
    then have "v = VStr (call_id (calls ! i))" using d by (auto simp: call_id_def dget_def dict_get_def split: val.splits)
    then show ?thesis using a d by (simp add: answers_call_def result_id_def dget_def dict_get_def)
  qed
  have "map (\<lambda>j. the (result_id (t ! j))) [Suc 0..<length t] = ids"
  proof (rule nth_equalityI)
    fix i
    assume "i < length (map (\<lambda>j. the (result_id (t ! j))) [Suc 0..<length t])"
    then have i: "i < length calls" by (simp add: t(1) l del: upt_Suc)
    then have "[Suc 0..<length t] ! i = Suc i" by (simp add: t(1) l del: upt_Suc)
    then show "map (\<lambda>j. the (result_id (t ! j))) [Suc 0..<length t] ! i = ids ! i"
      using i r [OF i] by (simp add: t(1) l ids(1) del: upt_Suc)
  qed (simp add: t(1) l ids(1) del: upt_Suc)
  moreover have "is_role ''tool'' (t ! j) \<and> result_id (t ! j) \<noteq> None" if "j \<in> {0<..<length t}" for j
    using that r [of "j - 1"] by (auto simp: t(1) l nth_Cons')
  ultimately show ?thesis using assms t by (auto simp: complete_turn_def answered_def)
qed

section \<open>What a round does to the agent\<close>

definition user_turn :: "string \<Rightarrow> kws" where
  "user_turn q = user_message (VStr q)"

definition turns_after :: "kws list \<Rightarrow> string \<Rightarrow> kws list \<Rightarrow> bool" where
  "turns_after h q hist \<longleftrightarrow> (\<exists>ts. hist = h @ user_turn q # concat ts \<and> (\<forall>t \<in> set ts. tool_turn t))"

lemma turns_after_add: "turns_after h q hist \<Longrightarrow> tool_turn t \<Longrightarrow> turns_after h q (hist @ t)"
  unfolding turns_after_def by (elim exE conjE) (rule_tac x = "ts @ [t]" in exI, auto)

text \<open>The state between two rounds of a run that began with a history and a query.\<close>

definition between :: "'x react \<Rightarrow> kws list \<Rightarrow> string \<Rightarrow> nat \<Rightarrow> nat \<Rightarrow> val \<Rightarrow> 'x agent \<Rightarrow> bool" where
  "between a h q k limit v s \<longleftrightarrow>
     (\<exists>d w. v = VDict d \<and> answer_ok d \<and> made_calls d w \<and> ag_workspace s = Some w \<and> ws_round w = Some (int k) \<and>
        (case ws_limit w of None \<Rightarrow> int (ra_max_retries a) + 1 | Some l \<Rightarrow> l) = int limit \<and>
        turns_after h q (history_of w))"

definition at_end :: "kws list \<Rightarrow> string \<Rightarrow> 'x agent \<Rightarrow> bool" where
  "at_end h q s \<longleftrightarrow> ag_workspace s = None \<and> ag_chat s = None \<and> (\<exists>hist. ag_history s = Some hist \<and> turns_after h q hist)"

lemma agent_fc_simps [simp]:
  "fc_round_limit (agent_fc a) = Some (int (ra_max_retries a) + 1)" "fc_llm (agent_fc a) = fc_llm (ra_fc a)"
  "model_answers (agent_fc a) = model_answers (ra_fc a)" "fair_threads (agent_fc a) = fair_threads (ra_fc a)"
  "fc_sched (agent_fc a) = fc_sched (ra_fc a)"
  by (simp_all add: agent_fc_def model_answers_def fair_threads_def)

lemma step_effect:
  assumes "fc_step (agent_fc a) input hh s = (r, s')"
    and "ag_workspace (sync_history hh (start_call (agent_fc a) hh s)) = Some w"
    and "next_budget (agent_fc a) (int (ra_max_retries a) + 1) w = (int k + 1, int limit)" and "k < limit"
    and "plain_input input" and "model_answers (ra_fc a)" and "fair_threads (ra_fc a)"
    and "\<And>b hist. round_history (agent_fc a) input w b hist \<Longrightarrow> turns_after h q hist"
  shows "\<exists>new. announced (ag_events s') = announced (ag_events s) @ new \<and>
    (new = [(int k + 1, int limit, int limit - (int k + 1))] \<or> new = [] \<and> (\<exists>e. r = Inl e)) \<and>
    (\<forall>v. r = Inr v \<longrightarrow> (if is_text v then at_end h q s' else between a h q (Suc k) limit v s'))"
proof -
  let ?s = "sync_history hh (start_call (agent_fc a) hh s)"
  have ev: "ag_events ?s = ag_events s" by (simp add: sync_history_def start_call_def Let_def)
  obtain r1 s1 where f: "fc_round (agent_fc a) input ?s = (r1, s1)" by fastforce
  note e = fc_round_effect [OF f assms(2) agent_fc_simps(1) assms(3) assms(5) assms(6) [folded agent_fc_simps(3)]
      assms(7) [folded agent_fc_simps(4)]]
  have rem: "max 0 (int limit - (int k + 1)) = int limit - (int k + 1)" using assms(4) by simp
  show ?thesis
  proof (cases r1)
    case (Inl x)
    then have "r = Inl x" "s' = clear_unfinished s1" using assms(1) f by (simp_all add: fc_step_def)
    then show ?thesis using e ev rem by (auto simp: clear_unfinished_def)
  next
    case (Inr v)
    then have r: "r = Inr v" "s' = (if is_text v then finish_call s1 else s1)" using assms(1) f by (simp_all add: fc_step_def)
    have a: "announced (ag_events s1) = announced (ag_events s) @ [(int k + 1, int limit, int limit - (int k + 1))]"
      using e Inr ev rem by auto
    obtain w' where w': "ag_workspace s1 = Some w'" "round_done (agent_fc a) input w (int k + 1) (int limit) v w'"
      using e Inr by auto
    then obtain hist where h: "ws_history w' = Some hist" "turns_after h q hist"
      using assms(8) by (auto simp: round_done_def)
    show ?thesis
    proof (cases "is_text v")
      case True
      then have "at_end h q s'" using r w'(1) h by (simp add: at_end_def finish_call_def history_of_def)
      moreover have "announced (ag_events s') = announced (ag_events s1)" using r True by (simp add: finish_call_def Let_def)
      ultimately show ?thesis using a r True by auto
    next
      case False
      have "(case ws_limit w' of None \<Rightarrow> int (ra_max_retries a) + 1 | Some l \<Rightarrow> l) = int limit"
        using w'(2) assms(3) by (simp add: round_done_def next_budget_def)
      then have "between a h q (Suc k) limit v s'"
        using False r w' h by (auto simp: between_def round_done_def history_of_def)
      then show ?thesis using a r False by auto
    qed
  qed
qed

section \<open>The loop\<close>

lemma on_ext_state: "\<exists>x. snd (on_ext f s) = s\<lparr>ag_ext := x\<rparr>"
  by (auto simp: on_ext_def split: prod.split)

lemma stop_agent_effect:
  assumes "flow_step (stop_agent a) out s = (r, s')" and "plain_input out"
  shows "(\<exists>x. s' = s\<lparr>ag_ext := x\<rparr>) \<and> (\<forall>b. r = Inr b \<longrightarrow> is_text out \<longrightarrow> truthy b)"
proof (cases "ra_extra_stop a")
  case None
  then show ?thesis using assms by (auto simp: flow_step_plain stop_agent_def intro!: exI [of _ "ag_ext s"])
next
  case (Some f)
  obtain r1 s1 where f: "on_ext (f out) s = (r1, s1)" by fastforce
  then show ?thesis using assms Some on_ext_state [of "f out" s]
    by (cases r1) (auto simp: flow_step_plain stop_agent_def)
qed

lemma ask_more_effect:
  assumes "ask_more a out used limit s = (r, s')"
  shows "ag_events s' = ag_events s \<and> (\<forall>n. r = Inr n \<longrightarrow> limit \<le> n \<and> (ra_on_max a = None \<longrightarrow> n = limit) \<and>
    ((n = limit \<and> ag_workspace s' = ag_workspace s) \<or>
     ag_workspace s' = map_option (\<lambda>w. w\<lparr>ws_limit := Some (int n)\<rparr>) (ag_workspace s)))"
proof (cases "ra_on_max a \<noteq> None \<and> used = limit")
  case False
  then show ?thesis using assms by (auto simp: ask_more_def)
next
  case True
  then obtain f where f: "ra_on_max a = Some f" by blast
  obtain r1 s1 where o: "on_ext (f out (int used) (int limit)) s = (r1, s1)" by fastforce
  have s1: "ag_events s1 = ag_events s" "ag_workspace s1 = ag_workspace s"
    using on_ext_state [of "f out (int used) (int limit)" s] o by auto
  show ?thesis
  proof (cases r1)
    case (Inl e)
    then show ?thesis using assms True f o s1 by (auto simp: ask_more_def sync_expanded_round_limit_def)
  next
    case (Inr v)
    show ?thesis
    proof (cases "\<exists>n. v = VInt n \<and> n > int limit")
      case False
      then have "ask_more a out used limit s = (Inr limit, s1)"
        using True f o Inr by (auto simp: ask_more_def sync_expanded_round_limit_def split: val.splits option.splits)
      then show ?thesis using assms s1 by simp
    next
      case big: True
      then obtain n where n: "v = VInt n" "n > int limit" by blast
      define s2 where "s2 = (case ag_workspace s1 of None \<Rightarrow> s1 | Some w \<Rightarrow> s1\<lparr>ag_workspace := Some (w\<lparr>ws_limit := Some n\<rparr>)\<rparr>)"
      have "ask_more a out used limit s = (Inr (nat n), s2)"
        using True f o Inr n by (auto simp: ask_more_def sync_expanded_round_limit_def s2_def split: option.splits)
      moreover have "ag_events s2 = ag_events s1" "ag_workspace s2 = map_option (\<lambda>w. w\<lparr>ws_limit := Some n\<rparr>) (ag_workspace s1)"
        by (simp_all add: s2_def split: option.split)
      ultimately show ?thesis using assms s1 n f by auto
    qed
  qed
qed

lemma between_expanded:
  "between a h q k limit v s \<Longrightarrow>
   (n = limit \<and> ag_workspace s' = ag_workspace s) \<or> ag_workspace s' = map_option (\<lambda>w. w\<lparr>ws_limit := Some (int n)\<rparr>) (ag_workspace s) \<Longrightarrow>
   between a h q k n v s'"
  unfolding between_def made_calls_def history_of_def by auto

lemma start_call_None: "ag_workspace s = Some w \<Longrightarrow> ws_history w \<noteq> None \<Longrightarrow>
    ag_workspace (sync_history None (start_call env None s)) = Some w"
  by (auto simp: sync_history_def start_call_def Let_def)

lemma fc_apply_plain: "plain_input v \<Longrightarrow> fc_apply env v s = fc_step env v None s"
  by (auto simp: plain_input_def is_text_def fc_apply_def split: val.splits)

text \<open>A round between two others.\<close>

lemma next_round:
  assumes "between a h q k limit v s" and "fc_apply (agent_fc a) v s = (r, s')" and "k < limit"
    and "model_answers (ra_fc a)" and "fair_threads (ra_fc a)"
  shows "\<exists>new. announced (ag_events s') = announced (ag_events s) @ new \<and>
    (new = [(int k + 1, int limit, int limit - (int k + 1))] \<or> new = [] \<and> (\<exists>e. r = Inl e)) \<and>
    (\<forall>out. r = Inr out \<longrightarrow> (if is_text out then at_end h q s' else between a h q (Suc k) limit out s'))"
proof -
  obtain d w where d: "v = VDict d" "answer_ok d" "made_calls d w" "ag_workspace s = Some w" "ws_round w = Some (int k)"
    "(case ws_limit w of None \<Rightarrow> int (ra_max_retries a) + 1 | Some l \<Rightarrow> l) = int limit" "turns_after h q (history_of w)"
    using assms(1) by (auto simp: between_def)
  have p: "plain_input v" using d by (simp add: plain_input_def)
  have hist: "ws_history w \<noteq> None" using d(7) by (cases "ws_history w") (auto simp: history_of_def turns_after_def)
  show ?thesis
  proof (rule step_effect)
    show "fc_step (agent_fc a) v None s = (r, s')" using assms(2) p by (simp add: fc_apply_plain)
    show "ag_workspace (sync_history None (start_call (agent_fc a) None s)) = Some w" using start_call_None [OF d(4) hist] .
    show "next_budget (agent_fc a) (int (ra_max_retries a) + 1) w = (int k + 1, int limit)"
      using d(5,6) by (simp add: next_budget_def)
    show "turns_after h q hist" if rh: "round_history (agent_fc a) v w b hist" for b hist
    proof -
      have "user_input v = None" using d(1,2) by (simp add: user_input_def answer_ok_def)
      then obtain ms where "current_tool_messages (agent_fc a) w b = Inr ms" "hist = history_of w @ assistant_message d # ms"
        using rh d(1) by (auto simp: round_history_def)
      then show ?thesis using turns_after_add [OF d(7) current_messages_turn [OF d(3)]] by simp
    qed
  qed (use assms p in simp_all)
qed

text \<open>An agent that ran out of rounds before an answer: its workspace has the history.\<close>

definition left_at :: "kws list \<Rightarrow> string \<Rightarrow> 'x agent \<Rightarrow> bool" where
  "left_at h q s \<longleftrightarrow> (\<exists>w. ag_workspace s = Some w \<and> turns_after h q (history_of w))"

lemma between_left: "between a h q k limit v s \<Longrightarrow> left_at h q s"
  by (auto simp: between_def left_at_def)

lemma left_at_ext [simp]: "left_at h q (s\<lparr>ag_ext := x\<rparr>) = left_at h q s"
  by (simp add: left_at_def)

text \<open>The rounds that are announced from the \<open>k\<close>-th on, with the limits that hold for them.\<close>

definition budget_rounds :: "nat \<Rightarrow> nat list \<Rightarrow> (int \<times> int \<times> int) list" where
  "budget_rounds k ls = map (\<lambda>(i, l). (int i + 1, int l, int l - (int i + 1))) (zip [k..<k + length ls] ls)"

lemma budget_rounds_Cons: "budget_rounds k (l # ls) = (int k + 1, int l, int l - (int k + 1)) # budget_rounds (Suc k) ls"
  by (simp add: budget_rounds_def upt_conv_Cons del: upt_Suc)

definition limits_ok :: "'x react \<Rightarrow> nat \<Rightarrow> nat \<Rightarrow> nat list \<Rightarrow> bool" where
  "limits_ok a k limit ls \<longleftrightarrow>
     sorted (limit # ls) \<and> (\<forall>i < length ls. k + i < ls ! i) \<and> (ra_on_max a = None \<longrightarrow> set ls \<subseteq> {limit})"

lemma limits_ok_Nil [simp]: "limits_ok a k limit []"
  by (simp add: limits_ok_def)

lemma limits_ok_Cons:
  "k < limit \<Longrightarrow> limits_ok a (Suc k) n ls \<Longrightarrow> limit \<le> n \<Longrightarrow> (ra_on_max a = None \<longrightarrow> n = limit) \<Longrightarrow> limits_ok a k limit (limit # ls)"
  unfolding limits_ok_def
  by (intro conjI allI impI; (auto simp: less_Suc_eq_0_disj)?)

text \<open>The rest of a run after a round that was announced: what it announces, and how it ends.\<close>

definition run_ok :: "'x react \<Rightarrow> kws list \<Rightarrow> string \<Rightarrow> nat \<Rightarrow> nat \<Rightarrow> 'x agent \<Rightarrow> (exn + val) \<times> 'x agent \<Rightarrow> bool" where
  "run_ok a h q k limit s rs \<longleftrightarrow>
     (\<exists>ls. announced (ag_events (snd rs)) = announced (ag_events s) @ budget_rounds k ls \<and> limits_ok a k limit ls) \<and>
     (\<forall>out. fst rs = Inr out \<longrightarrow> plain_input out \<and> (if is_text out then at_end h q (snd rs) else left_at h q (snd rs)))"

lemma at_end_ext [simp]: "at_end h q (s\<lparr>ag_ext := x\<rparr>) = at_end h q s"
  by (simp add: at_end_def)

lemma between_ext [simp]: "between a h q k limit v (s\<lparr>ag_ext := x\<rparr>) = between a h q k limit v s"
  by (simp add: between_def)

text \<open>What follows a round, given that the rest of the run is right.\<close>

lemma after_round:
  assumes "fc_apply (agent_fc a) v s = (r, s1)" and "k < limit"
    and new: "announced (ag_events s1) = announced (ag_events s) @ new"
      "new = [(int k + 1, int limit, int limit - (int k + 1))] \<or> new = [] \<and> (\<exists>e. r = Inl e)"
    and out: "\<And>out. r = Inr out \<Longrightarrow> (if is_text out then at_end h q s1 else between a h q (Suc k) limit out s1)"
    and run: "react_rounds (Suc fuel) a k limit v s = Some rs"
    and rest: "\<And>n out t. between a h q (Suc k) n out t \<Longrightarrow> react_rounds fuel a (Suc k) n out t = Some rs \<Longrightarrow> run_ok a h q (Suc k) n t rs"
  shows "run_ok a h q k limit s rs"
proof (cases r)
  case (Inl e)
  then have "rs = (Inl (to_flow_exn e), s1)" using run assms(1,2) by simp
  moreover have "\<exists>ls. new = budget_rounds k ls \<and> limits_ok a k limit ls"
    using new(2)
  proof
    assume "new = [(int k + 1, int limit, int limit - (int k + 1))]"
    then have "new = budget_rounds k [limit]" by (simp add: budget_rounds_Cons) (simp add: budget_rounds_def)
    moreover have "limits_ok a k limit [limit]" using assms(2) by (simp add: limits_ok_def)
    ultimately show ?thesis by blast
  next
    assume "new = [] \<and> (\<exists>e. r = Inl e)"
    then have "new = budget_rounds k []" by (simp add: budget_rounds_def)
    then show ?thesis by (intro exI [of _ "[]"]) simp
  qed
  ultimately show ?thesis using new(1) by (auto simp: run_ok_def)
next
  case (Inr o1)
  have one: "announced (ag_events s1) = announced (ag_events s) @ [(int k + 1, int limit, int limit - (int k + 1))]"
    using new Inr by auto
  have last: "announced (ag_events s1) = announced (ag_events s) @ budget_rounds k [limit] \<and> limits_ok a k limit [limit]"
    using one assms(2) by (simp add: budget_rounds_Cons limits_ok_def) (simp add: budget_rounds_def)
  have p: "plain_input o1" using out [OF Inr] by (auto simp: plain_input_def between_def split: if_splits)
  obtain b s2 where b: "flow_step (stop_agent a) o1 s1 = (b, s2)" by fastforce
  obtain x where x: "s2 = s1\<lparr>ag_ext := x\<rparr>" and tb: "\<And>t. b = Inr t \<Longrightarrow> is_text o1 \<Longrightarrow> truthy t"
    using stop_agent_effect [OF b p] by auto
  show ?thesis
  proof (cases b)
    case (Inl e)
    then have "rs = (Inl e, s2)" using run assms(1,2) Inr b by simp
    then show ?thesis using last x by (auto simp: run_ok_def)
  next
    case t: (Inr t)
    show ?thesis
    proof (cases "truthy t")
      case True
      then have "rs = (Inr o1, s2)" using run assms(1,2) Inr b t by simp
      then show ?thesis using last x p out [OF Inr] by (auto simp: run_ok_def dest: between_left)
    next
      case False
      then have nt: "\<not> is_text o1" using tb [OF t] by blast
      obtain n s3 where n: "ask_more a o1 (Suc k) limit s2 = (n, s3)" by fastforce
      note em = ask_more_effect [OF n]
      show ?thesis
      proof (cases n)
        case (Inl e)
        then have "rs = (Inl e, s3)" using run assms(1,2) Inr b t False n by simp
        then show ?thesis using last x em by (auto simp: run_ok_def)
      next
        case m: (Inr m)
        have bt: "between a h q (Suc k) m o1 s3"
          using between_expanded [of a h q "Suc k" limit o1 s2 m s3] out [OF Inr] nt em m x by auto
        moreover have "react_rounds fuel a (Suc k) m o1 s3 = Some rs" using run assms(1,2) Inr b t False n m by simp
        ultimately have "run_ok a h q (Suc k) m s3 rs" by (rule rest)
        then obtain ls where ls: "announced (ag_events (snd rs)) = announced (ag_events s3) @ budget_rounds (Suc k) ls"
          "limits_ok a (Suc k) m ls" and o: "\<forall>out. fst rs = Inr out \<longrightarrow> plain_input out \<and> (if is_text out then at_end h q (snd rs) else left_at h q (snd rs))"
          by (auto simp: run_ok_def)
        have "announced (ag_events (snd rs)) = announced (ag_events s) @ budget_rounds k (limit # ls)"
          using ls(1) em x one by (simp add: budget_rounds_Cons)
        moreover have "limits_ok a k limit (limit # ls)" using limits_ok_Cons [OF assms(2) ls(2)] em m by simp
        ultimately show ?thesis using o by (auto simp: run_ok_def)
      qed
    qed
  qed
qed

lemma rounds_ok:
  assumes "model_answers (ra_fc a)" and "fair_threads (ra_fc a)"
  shows "between a h q k limit v s \<Longrightarrow> react_rounds fuel a k limit v s = Some rs \<Longrightarrow> run_ok a h q k limit s rs"
proof (induction fuel arbitrary: k limit v s)
  case (Suc fuel)
  show ?case
  proof (cases "k < limit")
    case False
    then have "rs = (Inr v, s)" using Suc.prems(2) by simp
    moreover have "\<exists>ls. announced (ag_events s) = announced (ag_events s) @ budget_rounds k ls \<and> limits_ok a k limit ls"
      by (intro exI [of _ "[]"]) (simp add: budget_rounds_def)
    moreover have "plain_input v" "\<not> is_text v" using Suc.prems(1) by (auto simp: between_def plain_input_def is_text_def)
    ultimately show ?thesis using between_left [OF Suc.prems(1)] by (simp add: run_ok_def)
  next
    case True
    obtain r s1 where f: "fc_apply (agent_fc a) v s = (r, s1)" by fastforce
    obtain new where new: "announced (ag_events s1) = announced (ag_events s) @ new"
      "new = [(int k + 1, int limit, int limit - (int k + 1))] \<or> new = [] \<and> (\<exists>e. r = Inl e)"
      "\<And>out. r = Inr out \<Longrightarrow> (if is_text out then at_end h q s1 else between a h q (Suc k) limit out s1)"
      using next_round [OF Suc.prems(1) f True assms] by blast
    show ?thesis by (rule after_round [OF f True new Suc.prems(2) Suc.IH])
  qed
qed simp

section \<open>A run\<close>

text \<open>The history that a run starts from: that of a workspace that was retained, or the one that is handed in.\<close>

definition started :: "kws list option \<Rightarrow> 'x agent \<Rightarrow> kws list" where
  "started h s =
     (case Option.bind (ag_workspace s) ws_history of
        Some old \<Rightarrow> old
      | None \<Rightarrow> (case h of None \<Rightarrow> [] | Some ms \<Rightarrow> ms))"

lemma as_messages_dicts: "as_messages (VList (map VDict ms)) = Inr ms"
proof -
  have "rmap as_message (map VDict ms) = Inr ms" by (induction ms) (simp_all add: as_message_def)
  then show ?thesis by (simp add: as_messages_def)
qed

lemma start_workspace:
  fixes a :: "'x react" and h :: "kws list option"
  defines "ms \<equiv> (case h of None \<Rightarrow> [] | Some ms \<Rightarrow> ms)"
  shows "\<exists>w. ag_workspace (sync_history (Some ms) (start_call (agent_fc a) (Some ms) (sync_history h s))) = Some w \<and>
    ws_round w = None \<and> ws_limit w = None \<and> history_of w = started h s"
  by (cases "ag_workspace s"; cases h)
    (auto simp: ms_def start_call_def sync_history_def Let_def started_def new_workspace_def history_of_def split: option.splits)

lemma first_round:
  fixes a :: "'x react" and h :: "kws list option"
  assumes "fc_apply (agent_fc a) (VPkg [VStr q, VList (map VDict (case h of None \<Rightarrow> [] | Some ms \<Rightarrow> ms))]) (sync_history h s) = (r, s')"
    and "model_answers (ra_fc a)" and "fair_threads (ra_fc a)"
  shows "\<exists>new. announced (ag_events s') = announced (ag_events (sync_history h s)) @ new \<and>
    (new = [(int 0 + 1, int (ra_max_retries a + 1), int (ra_max_retries a + 1) - (int 0 + 1))] \<or> new = [] \<and> (\<exists>e. r = Inl e)) \<and>
    (\<forall>v. r = Inr v \<longrightarrow> (if is_text v then at_end (started h s) q s' else between a (started h s) q (Suc 0) (ra_max_retries a + 1) v s'))"
proof -
  let ?ms = "case h of None \<Rightarrow> [] | Some ms \<Rightarrow> ms"
  have f: "fc_step (agent_fc a) (VStr q) (Some ?ms) (sync_history h s) = (r, s')"
    using assms(1) by (simp add: fc_apply_def as_messages_dicts sbind_def)
  obtain w where w: "ag_workspace (sync_history (Some ?ms) (start_call (agent_fc a) (Some ?ms) (sync_history h s))) = Some w"
    "ws_round w = None" "ws_limit w = None" "history_of w = started h s"
    using start_workspace [of h a s] by blast
  have "next_budget (agent_fc a) (int (ra_max_retries a) + 1) w = (int 0 + 1, int (ra_max_retries a + 1))"
    using w(2,3) by (simp add: next_budget_def)
  moreover have "turns_after (started h s) q hist" if "round_history (agent_fc a) (VStr q) w b hist" for b hist
  proof -
    have "hist = started h s @ [user_turn q]"
      using that w(4) by (simp add: round_history_def user_input_def user_turn_def)
    then show ?thesis by (auto simp: turns_after_def intro!: exI [of _ "[]"])
  qed
  ultimately show ?thesis
    by (intro step_effect [OF f w(1)]) (use assms(2,3) in \<open>simp_all add: plain_input_def is_text_def\<close>)
qed

lemma rounds_from_start:
  fixes h :: "kws list option"
  assumes "model_answers (ra_fc a)" and "fair_threads (ra_fc a)"
    and "react_rounds fuel a 0 (ra_max_retries a + 1) (VPkg [VStr q, VList (map VDict (case h of None \<Rightarrow> [] | Some ms \<Rightarrow> ms))]) (sync_history h s) = Some rs"
  shows "run_ok a (started h s) q 0 (ra_max_retries a + 1) s rs"
proof -
  let ?v = "VPkg [VStr q, VList (map VDict (case h of None \<Rightarrow> [] | Some ms \<Rightarrow> ms))]"
  obtain f where fuel: "fuel = Suc f" using assms(3) by (cases fuel) simp_all
  obtain r s1 where c: "fc_apply (agent_fc a) ?v (sync_history h s) = (r, s1)" by fastforce
  have ev: "ag_events (sync_history h s) = ag_events s" by (simp add: sync_history_def Let_def)
  obtain new where new: "announced (ag_events s1) = announced (ag_events (sync_history h s)) @ new"
    "new = [(int 0 + 1, int (ra_max_retries a + 1), int (ra_max_retries a + 1) - (int 0 + 1))] \<or> new = [] \<and> (\<exists>e. r = Inl e)"
    "\<And>out. r = Inr out \<Longrightarrow> (if is_text out then at_end (started h s) q s1 else between a (started h s) q (Suc 0) (ra_max_retries a + 1) out s1)"
    using first_round [OF c assms(1,2)] by (elim exE conjE) blast
  have "run_ok a (started h s) q 0 (ra_max_retries a + 1) (sync_history h s) rs"
    by (rule after_round [OF c _ new assms(3) [unfolded fuel]]) (simp_all add: rounds_ok [OF assms(1,2)])
  then show ?thesis by (simp add: run_ok_def ev)
qed

lemma forward_seen:
  assumes "react_forward fuel a q h w = Some (r, w')" and "1 \<le> ra_max_retries a"
  shows "react_run fuel a q h (ustate w) = Some (r, ustate w')"
  using react_forward_run [OF assms(2), of fuel q h w] assms(1) by simp

lemma summarize_state: "\<exists>x. snd (force_summarize_from_history a hist s) = s\<lparr>ag_ext := x\<rparr>"
proof (cases "summary_prompt a hist")
  case (Inl e)
  then show ?thesis by (auto simp: force_summarize_from_history_def sbind_def intro: exI [of _ "ag_ext s"])
next
  case (Inr p)
  obtain r s1 where o: "on_ext (ra_summary a p) s = (r, s1)" by fastforce
  then obtain x where "s1 = s\<lparr>ag_ext := x\<rparr>" using on_ext_state [of "ra_summary a p" s] by auto
  then show ?thesis using Inr o by (cases r) (auto simp: force_summarize_from_history_def sbind_def Let_def)
qed

text \<open>What is left after the answer was looked at.\<close>

lemma post_process_state:
  assumes "finish_agent a v s = (r, s')"
  shows "ag_events s' = ag_events s \<and> ag_history s' = ag_history s \<and>
    (\<forall>x. r = Inr x \<longrightarrow> (if is_text v then (ag_workspace s = None \<longrightarrow> ag_workspace s' = None) \<and> ag_chat s' = ag_chat s
       else ra_force a \<and> ag_chat s' = None \<and> ag_workspace s' = ag_workspace s))"
proof (cases "is_text v")
  case True
  then show ?thesis using assms
    by (auto simp: finish_agent_def pop_tool_calls_def split: if_splits option.splits list.splits prod.splits sum.splits)
next
  case False
  let ?h = "case ag_workspace s of None \<Rightarrow> [] | Some w \<Rightarrow> history_of w"
  show ?thesis
  proof (cases "ra_force a \<and> ?h \<noteq> []")
    case force: True
    obtain r1 s1 where f: "force_summarize_from_history a ?h s = (r1, s1)" by fastforce
    obtain x where "s1 = s\<lparr>ag_ext := x\<rparr>" using summarize_state [of a ?h s] f by auto
    then show ?thesis using assms False force f by (auto simp: finish_agent_def Let_def split: sum.splits option.splits)
  next
    case no: False
    then have "finish_agent a v s = (Inl ValueError, s)" using False by (auto simp: finish_agent_def Let_def)
    then show ?thesis using assms by simp
  qed
qed

lemma run_end:
  assumes "react_run fuel a q h s = Some (r, s')" and "model_answers (ra_fc a)" and "fair_threads (ra_fc a)"
  shows "(\<exists>ls. announced (ag_events s') = announced (ag_events s) @ budget_rounds 0 ls \<and> limits_ok a 0 (ra_max_retries a + 1) ls) \<and>
    ag_chat s' = None \<and> (ag_workspace s' = None \<or> ra_force a \<and> (\<exists>v. r = Inr v)) \<and>
    (\<forall>v. r = Inr v \<longrightarrow>
       (if ag_workspace s' = None then \<exists>hist. ag_history s' = Some hist \<and> turns_after (started h s) q hist
        else left_at (started h s) q s'))"
proof -
  obtain r1 s1 where l: "react_rounds fuel a 0 (ra_max_retries a + 1)
      (VPkg [VStr q, VList (map VDict (case h of None \<Rightarrow> [] | Some ms \<Rightarrow> ms))]) (sync_history h s) = Some (r1, s1)"
    and e: "(case sbind (slift r1) (finish_agent a) s1 of (Inl e, s) \<Rightarrow> (Inl e, clear_unfinished s) | (Inr v, s) \<Rightarrow> (Inr v, s)) = (r, s')"
    using assms(1) by (auto simp: react_run_def)
  note ok = rounds_from_start [OF assms(2,3) l]
  then obtain ls where ls: "announced (ag_events s1) = announced (ag_events s) @ budget_rounds 0 ls" "limits_ok a 0 (ra_max_retries a + 1) ls"
    by (auto simp: run_ok_def)
  have cl: "ag_events (clear_unfinished t) = ag_events t" "ag_chat (clear_unfinished t) = None" "ag_workspace (clear_unfinished t) = None"
    for t :: "'a agent" by (simp_all add: clear_unfinished_def)
  show ?thesis
  proof (cases r1)
    case (Inl x)
    then have "r = Inl x" "s' = clear_unfinished s1" using e by (simp_all add: sbind_def)
    then show ?thesis using ls cl by auto
  next
    case (Inr v)
    obtain r2 s2 where p: "finish_agent a v s1 = (r2, s2)" by fastforce
    note ps = post_process_state [OF p]
    have te: "if is_text v then at_end (started h s) q s1 else left_at (started h s) q s1"
      using ok Inr by (cases "is_text v") (simp_all add: run_ok_def)
    show ?thesis
    proof (cases r2)
      case l: (Inl x)
      then have "r = Inl x" "s' = clear_unfinished s2" using e Inr p by (simp_all add: sbind_def)
      then show ?thesis using ls cl ps by auto
    next
      case r2: (Inr x)
      then have "r = Inr x" "s' = s2" using e Inr p by (simp_all add: sbind_def)
      then show ?thesis using ls ps te r2 by (auto simp: at_end_def left_at_def split: if_splits)
    qed
  qed
qed


text \<open>
  C1. The history that an agent leaves when it returns is the one it started from, the query and complete tool turns: each is a
  message of the assistant with calls, and one answer for each call, with its id, in the order of the calls. With different ids
  such a turn is one that a history compactor is told of. After an answer of the model the history is the one handed over and
  there is no workspace; after a forced summary it is the one of the workspace, which is retained. The agent has at least one
  retry; the model answers with dictionaries without a key \<open>input\<close> and not in the role of the user, whatever their content;
  the threads of a batch run each call once, in any order.
\<close>

theorem agent_history_complete:
  assumes "react_forward fuel a q h w = Some (Inr v, w')" and "1 \<le> ra_max_retries a"
    and "model_answers (ra_fc a)" and "fair_threads (ra_fc a)"
  shows "\<exists>ts. (case ag_workspace (ustate w') of
        None \<Rightarrow> ag_history (ustate w') = Some (started h (ustate w) @ user_turn q # concat ts)
      | Some wk \<Rightarrow> ra_force a \<and> history_of wk = started h (ustate w) @ user_turn q # concat ts) \<and>
    (\<forall>t \<in> set ts. tool_turn t \<and> (call_ids (dget (hd t) ''tool_calls'') \<noteq> None \<longrightarrow> complete_turn t 0 (length t)))"
proof -
  note e = run_end [OF forward_seen [OF assms(1,2)] assms(3,4)]
  obtain ts where "case ag_workspace (ustate w') of
        None \<Rightarrow> ag_history (ustate w') = Some (started h (ustate w) @ user_turn q # concat ts)
      | Some wk \<Rightarrow> ra_force a \<and> history_of wk = started h (ustate w) @ user_turn q # concat ts" "\<forall>t \<in> set ts. tool_turn t"
    using e by (cases "ag_workspace (ustate w')") (auto simp: turns_after_def left_at_def)
  then show ?thesis using tool_turn_complete by (intro exI [of _ ts]) auto
qed

text \<open>
  C7. An agent whose limit is not raised ends, after at most one round more than its retries; then no history of the model is left
  and no workspace, unless a summary was forced, whatever the model, the tools and the callbacks raised on the way.
  It has at least one retry, and the answers and threads are those of \<open>model_answers\<close> and \<open>fair_threads\<close>.
\<close>

theorem agent_settles:
  assumes "1 \<le> ra_max_retries a" and "ra_on_max a = None" and "model_answers (ra_fc a)" and "fair_threads (ra_fc a)"
  shows "\<exists>r w' rounds. react_forward (ra_max_retries a + 2) a q h w = Some (r, w') \<and>
    announced (ag_events (ustate w')) = announced (ag_events (ustate w)) @ rounds \<and> length rounds \<le> ra_max_retries a + 1 \<and>
    ag_chat (ustate w') = None \<and> (ag_workspace (ustate w') = None \<or> ra_force a \<and> (\<exists>v. r = Inr v))"
proof -
  obtain p where p: "build_agent a = Inr p" "pl_limit p = None" "pl_count p = ra_max_retries a + 1"
    using assms(1,2) by (auto simp: build_agent_def mk_loop_def)
  have fuel: "pl_count p < ra_max_retries a + 2" using p(3) by simp
  obtain r w' where f: "react_forward (ra_max_retries a + 2) a q h w = Some (r, w')"
    using pipeline_run_total [OF p(2) fuel, of "VPkg [VStr q, VList (map VDict (case h of None \<Rightarrow> [] | Some ms \<Rightarrow> ms))]" "[]"
        "w\<lparr>ustate := sync_history h (ustate w)\<rparr>"] p(1)
    by (fastforce simp: react_forward_def Let_def)
  note e = run_end [OF forward_seen [OF f assms(1)] assms(3,4)]
  then obtain ls where ls: "announced (ag_events (ustate w')) = announced (ag_events (ustate w)) @ budget_rounds 0 ls"
    "\<forall>i < length ls. i < ls ! i" "set ls \<subseteq> {ra_max_retries a + 1}"
    using assms(2) by (auto simp: limits_ok_def)
  have "length ls \<le> ra_max_retries a + 1"
  proof (cases ls rule: rev_cases)
    case (snoc ys y)
    then have "y = ra_max_retries a + 1" "length ys < y" using ls(2) [rule_format, of "length ys"] ls(3) by auto
    then show ?thesis using snoc by simp
  qed simp
  then have "length (budget_rounds 0 ls) \<le> ra_max_retries a + 1" by (simp add: budget_rounds_def)
  then show ?thesis using f e ls(1) by blast
qed

section \<open>A run of two rounds\<close>

text \<open>The model calls a tool that counts, and then answers.\<close>

definition demo_answer :: "nat \<Rightarrow> kws" where
  "demo_answer x =
     (''role'', VStr ''assistant'') #
     (if x = 0 then
        [(''content'', VNone),
         (''tool_calls'', VList [VDict [(''id'', VStr ''c1''), (''function'', VDict [(''name'', VStr ''t''), (''arguments'', VStr ''{}'')])]])]
      else [(''content'', VStr ''done'')])"

definition demo_fc :: "nat fc" where
  "demo_fc =
     \<lparr>fc_llm = (\<lambda>inp chat tools x. (Inr (VDict (demo_answer x)), x)),
      fc_describe = (\<lambda>x. [VDict [(''function'', VDict [(''name'', VStr ''t'')])]]),
      fc_manager = \<lparr>tm_tools = [(''t'', count_tool 1)], tm_loads = (\<lambda>s. Inr (VDict [])), tm_closest = (\<lambda>n ns. None)\<rparr>,
      fc_canon = (\<lambda>p. [p]), fc_rep = (\<lambda>v. ''?''), fc_dumps = (\<lambda>v. ''{}''), fc_uuid = (\<lambda>x i. show_nat i),
      fc_sched = build_segments, fc_failure = (\<lambda>r. []), fc_round_limit = None, fc_keep_full = 0, fc_stop_tools = [],
      fc_compactor = None, fc_context = None, fc_validate = None, fc_before = None\<rparr>"

definition demo_react :: "nat react" where
  "demo_react =
     \<lparr>ra_fc = demo_fc, ra_max_retries = 2, ra_extra_stop = None, ra_on_max = None, ra_force = False,
      ra_force_context = [], ra_summary = (\<lambda>p. sret VNone), ra_return_last = False\<rparr>"

definition demo_world :: "nat agent world" where
  "demo_world =
     \<lparr>ustate = \<lparr>ag_workspace = None, ag_completed = None, ag_history = None, ag_chat = None, ag_tools = None, ag_events = [], ag_ext = 0\<rparr>,
      bind_args = [], save_flag = None, actual_iterations = None\<rparr>"

lemma demo_answers: "model_answers demo_fc"
  by (auto simp: model_answers_def demo_fc_def demo_answer_def answer_ok_def dget_def dict_get_def)

lemma demo_fair: "fair_threads demo_fc"
  by (simp add: fair_threads_def demo_fc_def sched_build)

lemma demo_retries [simp]: "ra_max_retries demo_react = 2" "ra_on_max demo_react = None" "\<not> ra_force demo_react"
  "ra_fc demo_react = demo_fc"
  by (simp_all add: demo_react_def)

lemma demo_agent_run_code:
  "(case react_forward 4 demo_react ''q'' None demo_world of
      Some (Inr v, w) \<Rightarrow> v = VStr ''done'' \<and> announced (ag_events (ustate w)) = [(1, 3, 2), (2, 3, 1)] \<and>
        map_option length (ag_history (ustate w)) = Some 3 \<and> ag_workspace (ustate w) = None
    | _ \<Rightarrow> False)"
  by code_simp

lemma demo_agent_run:
  obtains w where "react_forward 4 demo_react ''q'' None demo_world = Some (Inr (VStr ''done''), w)"
    "announced (ag_events (ustate w)) = [(1, 3, 2), (2, 3, 1)]" "map_option length (ag_history (ustate w)) = Some 3" "ag_workspace (ustate w) = None"
  using demo_agent_run_code by (auto split: option.splits prod.splits sum.splits)

lemma demo_start [simp]: "announced (ag_events (ustate demo_world)) = []" "started None (ustate demo_world) = []"
  by (simp_all add: demo_world_def started_def)


theorem agent_history_complete_witness:
  "\<exists>w ts. react_forward 4 demo_react ''q'' None demo_world = Some (Inr (VStr ''done''), w) \<and>
    ag_history (ustate w) = Some (user_turn ''q'' # concat ts) \<and> length (concat ts) = 2 \<and> (\<forall>t \<in> set ts. tool_turn t)"
proof -
  obtain w where w: "react_forward 4 demo_react ''q'' None demo_world = Some (Inr (VStr ''done''), w)"
    "map_option length (ag_history (ustate w)) = Some 3" "ag_workspace (ustate w) = None"
    by (rule demo_agent_run)
  obtain ts where ts: "ag_history (ustate w) = Some (user_turn ''q'' # concat ts)" "\<forall>t \<in> set ts. tool_turn t"
    using agent_history_complete [OF w(1)] demo_answers demo_fair w(3) by auto
  have "length (concat ts) = 2" using w(2) ts(1) by simp
  then show ?thesis using w(1) ts by blast
qed

theorem agent_settles_witness:
  "\<exists>r w rounds. react_forward 4 demo_react ''q'' None demo_world = Some (r, w) \<and> announced (ag_events (ustate w)) = rounds \<and>
    length rounds \<le> 3 \<and> ag_workspace (ustate w) = None"
  using agent_settles [of demo_react "''q''" None demo_world] demo_answers demo_fair by fastforce

theorem agent_is_recursion_witness:
  "map_option seen (react_forward 4 demo_react ''q'' None demo_world) = react_run 4 demo_react ''q'' None (ustate demo_world)"
  by (rule agent_is_recursion) simp

end
