(* ===== verification/AgentTools.thy ===== *)
theory AgentTools
  imports AgentProps
begin

text \<open>Tools that are never described to the model have no influence on the agent.\<close>

section \<open>Two managers\<close>

text \<open>The agent with other tools in its manager, and agreement on the tools that can be described.\<close>

definition with_tools :: "(string \<times> 'x tool) list \<Rightarrow> 'x fc \<Rightarrow> 'x fc" where
  "with_tools tools env = env\<lparr>fc_manager := (fc_manager env)\<lparr>tm_tools := tools\<rparr>\<rparr>"

definition describable :: "'x fc \<Rightarrow> string set" where
  "describable env = {n. \<exists>x. \<exists>item \<in> set (fc_describe env x). tool_name item = Some n}"

definition same_described :: "(string \<times> 'x tool) list \<Rightarrow> 'x fc \<Rightarrow> bool" where
  "same_described tools env \<longleftrightarrow> (\<forall>n \<in> describable env. map_of tools n = map_of (tm_tools (fc_manager env)) n)"

lemma parse_same:
  assumes "\<And>n. n \<in> set allowed \<Longrightarrow> map_of tools n = map_of (tm_tools m) n"
  shows "parse_tool_call (m\<lparr>tm_tools := tools\<rparr>) (Some allowed) tc = parse_tool_call m (Some allowed) tc"
  using assms by (auto simp: parse_tool_call_def Let_def split: val.splits option.splits sum.splits)

lemma prepare_same:
  assumes "\<And>n. n \<in> set allowed \<Longrightarrow> map_of tools n = map_of (tm_tools m) n"
  shows "prepare_tool_calls rep dumps uuid canon (m\<lparr>tm_tools := tools\<rparr>) (Some allowed) policy calls =
    prepare_tool_calls rep dumps uuid canon m (Some allowed) policy calls"
proof -
  have "prepare_one rep canon (m\<lparr>tm_tools := tools\<rparr>) (Some allowed) = prepare_one rep canon m (Some allowed)"
    by (intro ext) (simp add: prepare_one_def parse_same [OF assms])
  then show ?thesis by (simp add: prepare_tool_calls_def)
qed

lemma with_tools_simps [simp]:
  "fc_llm (with_tools tools env) = fc_llm env" "fc_describe (with_tools tools env) = fc_describe env"
  "fc_manager (with_tools tools env) = (fc_manager env)\<lparr>tm_tools := tools\<rparr>" "fc_canon (with_tools tools env) = fc_canon env"
  "fc_rep (with_tools tools env) = fc_rep env" "fc_dumps (with_tools tools env) = fc_dumps env"
  "fc_uuid (with_tools tools env) = fc_uuid env" "fc_sched (with_tools tools env) = fc_sched env"
  "fc_failure (with_tools tools env) = fc_failure env" "fc_round_limit (with_tools tools env) = fc_round_limit env"
  "fc_keep_full (with_tools tools env) = fc_keep_full env" "fc_stop_tools (with_tools tools env) = fc_stop_tools env"
  "fc_compactor (with_tools tools env) = fc_compactor env" "fc_context (with_tools tools env) = fc_context env"
  "fc_validate (with_tools tools env) = fc_validate env" "fc_before (with_tools tools env) = fc_before env"
  by (simp_all add: with_tools_def)

lemma run_tools_same:
  assumes "\<And>n. n \<in> set allowed \<Longrightarrow> map_of tools n = map_of (tm_tools (fc_manager env)) n"
  shows "run_tools (with_tools tools env) calls allowed = run_tools env calls allowed"
proof -
  have e: "result_envelope (with_tools tools env) = result_envelope env" by (intro ext) (unfold result_envelope_def with_tools_simps, rule refl)
  show ?thesis unfolding run_tools_def with_tools_simps e by (simp only: prepare_same [OF assms])
qed

section \<open>What is shown\<close>

definition shown :: "'x fc \<Rightarrow> 'x agent \<Rightarrow> bool" where
  "shown env s \<longleftrightarrow> (\<forall>ts. ag_tools s = Some ts \<longrightarrow> (\<exists>x. ts = fc_describe env x))"

definition keeps_shown :: "'x fc \<Rightarrow> ('x agent, 'a) sx \<Rightarrow> bool" where
  "keeps_shown env f \<longleftrightarrow> (\<forall>s. shown env s \<longrightarrow> shown env (snd (f s)))"

named_theorems shown_rules \<open>computations that keep the shown tools describable\<close>

lemma keeps_ret [shown_rules]: "keeps_shown env (sret a)" "keeps_shown env (sraise e)" "keeps_shown env (slift r)"
  by (simp_all add: keeps_shown_def)

lemma keeps_bind [shown_rules]:
  assumes "keeps_shown env f" and "\<And>a. keeps_shown env (g a)"
  shows "keeps_shown env (sbind f g)"
  unfolding keeps_shown_def sbind_def
proof (intro allI impI)
  fix s
  assume s: "shown env s"
  obtain r s1 where f: "f s = (r, s1)" by fastforce
  then have "shown env s1" using assms(1) s unfolding keeps_shown_def by (metis snd_conv)
  then show "shown env (snd (case f s of (Inl e, s') \<Rightarrow> (Inl e, s') | (Inr a, s') \<Rightarrow> g a s'))"
    using assms(2) f by (cases r) (simp_all add: keeps_shown_def)
qed

lemma keeps_if [shown_rules]: "(b \<Longrightarrow> keeps_shown env f) \<Longrightarrow> (\<not> b \<Longrightarrow> keeps_shown env g) \<Longrightarrow> keeps_shown env (if b then f else g)"
  by simp

lemma keeps_case [shown_rules]:
  "(\<And>a b. p = (a, b) \<Longrightarrow> keeps_shown env (h a b)) \<Longrightarrow> keeps_shown env (case p of (a, b) \<Rightarrow> h a b)"
  "(m = None \<Longrightarrow> keeps_shown env f) \<Longrightarrow> (\<And>a. m = Some a \<Longrightarrow> keeps_shown env (g a)) \<Longrightarrow>
     keeps_shown env (case m of None \<Rightarrow> f | Some a \<Rightarrow> g a)"
  by (cases p; simp) (cases m; simp)

lemma keeps_supd: "(\<And>s. ag_tools (f s) = ag_tools s) \<Longrightarrow> keeps_shown env (supd f)"
  by (simp add: keeps_shown_def shown_def)

lemma keeps_on_ext [shown_rules]: "keeps_shown env (on_ext f)"
  by (simp add: keeps_shown_def shown_def on_ext_def split: prod.split)

lemma keeps_current_tools [shown_rules]: "keeps_shown env (current_tools env refresh)"
  by (auto simp: keeps_shown_def shown_def current_tools_def observe_def Let_def split: bool.split option.split)

lemma keeps_context [shown_rules]: "keeps_shown env (consume_model_context env)"
  by (auto simp: keeps_shown_def shown_def consume_model_context_def on_ext_def observe_def
      split: option.split prod.split sum.split val.split)

lemma keeps_updates [shown_rules]:
  "keeps_shown env (put_chat prior)" "keeps_shown env (put_workspace w)" "keeps_shown env (notify_history budget w h)"
  "keeps_shown env (supd (observe e))"
  unfolding put_chat_def put_workspace_def notify_history_def by (rule keeps_supd; simp add: observe_def)+

lemma keeps_get [shown_rules]: "keeps_shown env get_workspace"
  by (simp add: keeps_shown_def get_workspace_def)

lemma keeps_build [shown_rules]: "keeps_shown env (build_history env input)"
  unfolding build_history_def build_tool_call_input_def build_user_input_def prepare_round_def compact_history_def
    validate_context_def before_model_request_def Let_def
  by (intro shown_rules)

lemma keeps_ask_model: "keeps_shown env (ask_model env v)"
  using keeps_on_ext unfolding keeps_shown_def ask_model_def by blast

lemma visible_described:
  "shown env s \<Longrightarrow> visible_tool_names env s = (Inr allowed, s') \<Longrightarrow> set allowed \<subseteq> describable env"
  by (auto simp: visible_tool_names_def current_tools_def sbind_def shown_def describable_def map_filter_def Let_def
      split: option.splits; blast)

section \<open>The same round\<close>

lemma build_history_same: "build_history (with_tools tools env) = build_history env"
proof -
  have t: "current_tools (with_tools tools env) = current_tools env" by (intro ext) (unfold current_tools_def with_tools_simps, rule refl)
  have p: "prepare_round (with_tools tools env) = prepare_round env" by (intro ext) (unfold prepare_round_def with_tools_simps, rule refl)
  have c: "compact_history (with_tools tools env) = compact_history env" by (intro ext) (unfold compact_history_def with_tools_simps, rule refl)
  have x: "consume_model_context (with_tools tools env) = consume_model_context env" by (intro ext) (unfold consume_model_context_def with_tools_simps, rule refl)
  have v: "validate_context (with_tools tools env) = validate_context env" by (intro ext) (unfold validate_context_def t with_tools_simps, rule refl)
  have m: "current_tool_messages (with_tools tools env) = current_tool_messages env" by (intro ext) (unfold current_tool_messages_def with_tools_simps, rule refl)
  have b: "before_model_request (with_tools tools env) = before_model_request env" by (unfold before_model_request_def with_tools_simps, rule refl)
  have i: "build_tool_call_input (with_tools tools env) = build_tool_call_input env"
    by (intro ext) (unfold build_tool_call_input_def c x v m, rule refl)
  have u: "build_user_input (with_tools tools env) = build_user_input env"
    by (intro ext) (unfold build_user_input_def c x v m, rule refl)
  show ?thesis by (intro ext) (unfold build_history_def t p b i u, rule refl)
qed

lemma ask_same: "ask_model (with_tools tools env) = ask_model env"
  by (intro ext) (unfold ask_model_def with_tools_simps, rule refl)

lemma run_calls_same:
  assumes "same_described tools env" and "shown env s"
  shows "run_calls (with_tools tools env) d items s = run_calls env d items s"
proof (cases "rmap drop_index items")
  case (Inl e)
  then show ?thesis by (simp add: run_calls_def sbind_def)
next
  case (Inr its)
  have v: "visible_tool_names (with_tools tools env) = visible_tool_names env"
    by (intro ext) (unfold visible_tool_names_def current_tools_def with_tools_simps, rule refl)
  have a: "after_results (with_tools tools env) = after_results env"
    by (intro ext) (unfold after_results_def stop_reached_def is_stop_call_def with_tools_simps, rule refl)
  obtain r s1 where n: "visible_tool_names env s = (r, s1)" by fastforce
  show ?thesis
  proof (cases r)
    case (Inl e)
    then show ?thesis using Inr n by (simp add: run_calls_def v sbind_def)
  next
    case r: (Inr allowed)
    then have "map_of tools k = map_of (tm_tools (fc_manager env)) k" if "k \<in> set allowed" for k
      using visible_described [OF assms(2)] n that assms(1) by (auto simp: same_described_def)
    from run_tools_same [OF this] show ?thesis using Inr n r by (simp add: run_calls_def v a sbind_def)
  qed
qed

lemma post_same:
  assumes "same_described tools env" and "shown env s"
  shows "post_action (with_tools tools env) out s = post_action env out s"
proof -
  have l: "tm_loads ((fc_manager env)\<lparr>tm_tools := tools\<rparr>) = tm_loads (fc_manager env)" by simp
  have "calls_from_text (with_tools tools env) = calls_from_text env"
    by (intro ext) (unfold calls_from_text_def with_tools_simps l, rule refl)
  then show ?thesis
    by (auto simp: post_action_def sbind_def Let_def run_calls_same [OF assms] split: option.split sum.split val.split)
qed

lemma flow_step_cong:
  assumes "\<And>v. f v s = g v s"
  shows "flow_step f v s = flow_step g v s"
  using assms by (auto simp: flow_step_def apply_step_def split: val.splits list.splits)

lemma flow_step_keeps: "(\<And>v. keeps_shown env (f v)) \<Longrightarrow> keeps_shown env (flow_step f v)"
proof -
  assume k: "\<And>v. keeps_shown env (f v)"
  have "keeps_shown env (apply_step f v)"
    using k by (cases v) (auto simp: apply_step_def intro: shown_rules split: list.split)
  then show ?thesis by (auto simp: keeps_shown_def flow_step_def split: prod.splits sum.splits)
qed

lemma sbind_local_cong:
  assumes "f s = f' s" and "\<And>a t. f' s = (Inr a, t) \<Longrightarrow> g a t = g' a t"
  shows "sbind f g s = sbind f' g' s"
  using assms by (auto simp: sbind_def split: prod.split sum.split)

lemma keeps_at: "keeps_shown env f \<Longrightarrow> shown env s \<Longrightarrow> f s = (r, t) \<Longrightarrow> shown env t"
  unfolding keeps_shown_def by (metis snd_conv)

lemma round_same:
  assumes "same_described tools env" and "shown env s"
  shows "fc_round (with_tools tools env) v s = fc_round env v s"
  unfolding fc_round_def run_steps.simps build_history_same ask_same
proof (rule sbind_local_cong [OF refl])
  fix m t
  assume "flow_step (build_history env) v s = (Inr m, t)"
  then have t: "shown env t" using keeps_at [OF flow_step_keeps assms(2)] keeps_build by blast
  show "sbind (flow_step (ask_model env) m) (\<lambda>v. sbind (flow_step (post_action (with_tools tools env)) v) sret) t =
      sbind (flow_step (ask_model env) m) (\<lambda>v. sbind (flow_step (post_action env) v) sret) t"
  proof (rule sbind_local_cong [OF refl])
    fix out u
    assume "flow_step (ask_model env) m t = (Inr out, u)"
    then have u: "shown env u" using keeps_at [OF flow_step_keeps t] keeps_ask_model by blast
    show "sbind (flow_step (post_action (with_tools tools env)) out) sret u = sbind (flow_step (post_action env) out) sret u"
      by (rule sbind_local_cong [OF flow_step_cong refl]) (rule post_same [OF assms(1) u])
  qed
qed

section \<open>The same agent\<close>

lemma step_same:
  assumes "same_described tools env" and "shown env s"
  shows "fc_step (with_tools tools env) v h s = fc_step env v h s"
proof -
  have "start_call (with_tools tools env) h s = start_call env h s" by (simp add: start_call_def)
  moreover have "shown env (sync_history h (start_call env h s))"
    using assms(2) by (simp add: shown_def sync_history_def start_call_def Let_def)
  ultimately show ?thesis by (simp add: fc_step_def round_same [OF assms(1)])
qed

lemma keeps_turn_end [shown_rules]: "keeps_shown env (turn_end tools stop)"
  unfolding turn_end_def by (rule keeps_supd) (simp add: observe_def split: option.split)

lemma keeps_visible [shown_rules]: "keeps_shown env (visible_tool_names env)"
  unfolding visible_tool_names_def by (intro shown_rules)

lemma keeps_after [shown_rules]: "keeps_shown env (after_results env d calls results)"
  unfolding after_results_def Let_def by (intro shown_rules)

lemma keeps_read [shown_rules]: "keeps_shown env (\<lambda>s. (Inr (f s), s))"
  by (simp add: keeps_shown_def)

lemma keeps_run_calls [shown_rules]: "keeps_shown env (run_calls env d items)"
  unfolding run_calls_def by (intro shown_rules)

lemma keeps_post: "keeps_shown env (post_action env v)"
proof (cases "as_dict v")
  case None
  then show ?thesis by (simp add: post_action_def shown_rules)
next
  case (Some d)
  have "keeps_shown env (case calls of VList items \<Rightarrow> run_calls env d items | _ \<Rightarrow> sraise TypeError)" for calls d
    by (cases calls) (simp_all add: shown_rules)
  then show ?thesis unfolding post_action_def Some option.case Let_def by (intro shown_rules)
qed

lemma keeps_step: "keeps_shown env (fc_step env v h)"
  unfolding keeps_shown_def
proof (intro allI impI)
  fix s
  assume s: "shown env s"
  let ?s = "sync_history h (start_call env h s)"
  have "shown env ?s" using s by (simp add: shown_def sync_history_def start_call_def Let_def)
  moreover have "keeps_shown env (fc_round env v)"
    unfolding fc_round_def run_steps.simps
    by (intro shown_rules flow_step_keeps keeps_ask_model keeps_post)
  moreover obtain r t where t: "fc_round env v ?s = (r, t)" by fastforce
  ultimately have "shown env t" using keeps_at by metis
  then show "shown env (snd (fc_step env v h s))"
    using t by (cases r) (auto simp: fc_step_def shown_def clear_unfinished_def finish_call_def Let_def)
qed

lemma agent_with_tools: "agent_fc (a\<lparr>ra_fc := with_tools tools (ra_fc a)\<rparr>) = with_tools tools (agent_fc a)"
  by (simp add: agent_fc_def with_tools_def)

lemma apply_same:
  assumes "same_described tools env" and "shown env s"
  shows "fc_apply (with_tools tools env) v s = fc_apply env v s"
proof -
  have st: "fc_step (with_tools tools env) x h s = fc_step env x h s" for x h using step_same [OF assms] .
  have "sbind (slift r) (\<lambda>ms. fc_step (with_tools tools env) x (Some ms)) s = sbind (slift r) (\<lambda>ms. fc_step env x (Some ms)) s" for x r
    by (rule sbind_local_cong [OF refl]) (auto simp: st)
  then show ?thesis by (auto simp: fc_apply_def Let_def st split: val.split list.split)
qed

lemma keeps_apply: "keeps_shown env (fc_apply env v)"
proof -
  have "keeps_shown env (case args of
            [input] \<Rightarrow> fc_step env input None
          | [input, h] \<Rightarrow> (if h = VNone then fc_step env input None
                         else sbind (slift (as_messages h)) (\<lambda>ms. fc_step env input (Some ms)))
          | _ \<Rightarrow> sraise TypeError)" for args
    by (auto split: list.split intro!: shown_rules keeps_step)
  then show ?thesis by (cases v) (simp_all add: fc_apply_def Let_def shown_rules keeps_step)
qed

lemma same_shown_ext: "ag_tools t = ag_tools s \<Longrightarrow> shown env t = shown env s"
  by (simp add: shown_def)

lemma stop_agent_tools: "flow_step (stop_agent a) out s = (r, t) \<Longrightarrow> shown env s \<Longrightarrow> shown env t"
proof (rule keeps_at [OF flow_step_keeps])
  show "keeps_shown env (stop_agent a v)" for v
    unfolding stop_agent_def by (intro shown_rules)
qed

lemma ask_more_tools: "ask_more a out used limit s = (r, t) \<Longrightarrow> shown env s \<Longrightarrow> shown env t"
proof -
  assume m: "ask_more a out used limit s = (r, t)" and s: "shown env s"
  have "keeps_shown env (sync_expanded_round_limit a out u l)" for u l
    unfolding sync_expanded_round_limit_def
    by (intro shown_rules keeps_supd) (simp split: val.split option.split)
  then show "shown env t" using m s
    by (auto simp: ask_more_def keeps_shown_def split: if_splits prod.splits sum.splits) (metis snd_conv)+
qed

lemma rounds_same:
  fixes a :: "'x react" and tools :: "(string \<times> 'x tool) list"
  defines "b \<equiv> a\<lparr>ra_fc := with_tools tools (ra_fc a)\<rparr>"
  assumes "same_described tools (agent_fc a)" and "shown (agent_fc a) s"
  shows "react_rounds fuel b used limit v s = react_rounds fuel a used limit v s"
  using assms(3)
proof (induction fuel arbitrary: used limit v s)
  case (Suc fuel)
  have ap: "fc_apply (agent_fc b) v s = fc_apply (agent_fc a) v s"
    unfolding b_def agent_with_tools by (rule apply_same [OF assms(2) Suc.prems])
  have st: "stop_agent b = stop_agent a" by (intro ext) (unfold stop_agent_def b_def, simp)
  have mo: "ask_more b = ask_more a" by (intro ext) (unfold ask_more_def sync_expanded_round_limit_def b_def, simp)
  obtain r1 s1 where 1: "fc_apply (agent_fc a) v s = (r1, s1)" by fastforce
  have k1: "shown (agent_fc a) s1" by (rule keeps_at [OF keeps_apply Suc.prems 1])
  show ?case
  proof (cases r1)
    case (Inl e)
    then show ?thesis by (simp add: ap 1)
  next
    case (Inr out)
    obtain r2 s2 where 2: "flow_step (stop_agent a) out s1 = (r2, s2)" by fastforce
    note k2 = stop_agent_tools [OF 2 k1]
    show ?thesis
    proof (cases r2)
      case (Inl e)
      then show ?thesis using Inr by (simp add: ap 1 st 2)
    next
      case t: (Inr t)
      obtain r3 s3 where 3: "ask_more a out (Suc used) limit s2 = (r3, s3)" by fastforce
      note k3 = ask_more_tools [OF 3 k2]
      show ?thesis using Inr t by (cases r3) (simp_all add: ap 1 st 2 mo 3 Suc.IH [OF k3])
    qed
  qed
qed simp

text \<open>
  C4. Tools of the manager that are never described to the model have no influence: with any other tools under their names, the
  agent gives the same answers, leaves the same state and does the same to the outside. It has at least one retry and starts
  with no tools prepared in \<open>locals\<close> by an earlier round.
\<close>

theorem hidden_tools_inert:
  assumes "1 \<le> ra_max_retries a" and "same_described tools (ra_fc a)" and "ag_tools (ustate w) = None"
  shows "map_option seen (react_forward fuel (a\<lparr>ra_fc := with_tools tools (ra_fc a)\<rparr>) q h w) = map_option seen (react_forward fuel a q h w)"
proof -
  let ?b = "a\<lparr>ra_fc := with_tools tools (ra_fc a)\<rparr>"
  have d: "same_described tools (agent_fc a)" using assms(2) by (simp add: same_described_def describable_def agent_fc_def)
  have s: "shown (agent_fc a) (sync_history h (ustate w))" using assms(3) by (simp add: shown_def sync_history_def Let_def)
  have p: "finish_agent ?b = finish_agent a"
  proof -
    have "summary_prompt ?b = summary_prompt a" by (intro ext) (unfold summary_prompt_def, simp)
    then have f: "force_summarize_from_history ?b = force_summarize_from_history a"
      by (intro ext) (simp add: force_summarize_from_history_def)
    have c: "pop_tool_calls ?b = pop_tool_calls a" by (intro ext) (simp add: pop_tool_calls_def)
    show ?thesis by (intro ext) (unfold finish_agent_def f c, simp)
  qed
  have "react_run fuel ?b q h (ustate w) = react_run fuel a q h (ustate w)"
    using rounds_same [OF d s, of fuel] by (simp add: react_run_def p)
  then show ?thesis using react_forward_run [of a fuel q h w] react_forward_run [of ?b fuel q h w] assms(1) by simp
qed

text \<open>A second tool is never described, so another second tool makes no difference.\<close>

theorem hidden_tools_inert_witness:
  "map_option seen (react_forward 4 (demo_react\<lparr>ra_fc := with_tools [(''t'', count_tool 1), (''u'', count_tool 100)] demo_fc\<rparr>) ''q'' None demo_world) =
   map_option seen (react_forward 4 demo_react ''q'' None demo_world)"
proof -
  have "same_described [(''t'', count_tool 1), (''u'', count_tool 100)] demo_fc"
    by (simp add: same_described_def describable_def demo_fc_def tool_name_def dget_def dict_get_def)
  then show ?thesis
    using hidden_tools_inert [of demo_react "[(''t'', count_tool 1), (''u'', count_tool 100)]" demo_world 4 "''q''" None]
    by (simp add: demo_world_def)
qed

end
