(* ===== verification/Spec2Isabelle.thy ===== *)
theory Spec2Isabelle
  imports FlowProps BranchProps FlowGraph Hooks ModelCall ToolBatch SqlHardness
    TokenWindow RuleSets StoreProps FsQueue
    TreeBuild TreeFix GroupNodes
    TaskQueue TaskCallback DocProps
    ModuleCache Migrations Sessions RWLock QueryEnhance TraceTree
    NodeCreate NodeNumber ConfigProps WriterDocs
    AgentProps AgentTools
begin

text \<open>
  A verification development for LazyLLM, a Python framework for applications of language models. The
  theories model parts of the package \<open>src/lazyllm\<close> as functions of HOL and prove what makes these
  parts correct. Paths below are relative to that package.

  \<^bold>\<open>Conventions.\<close> \<open>Prelude\<close> holds what the others share. An exception is a value of the datatype
  \<open>exn\<close>; a computation that may raise has type \<open>exn + 'a\<close>; one that also changes a state returns the
  state it reached on both sides (\<open>('s, 'a) sx\<close>), since Python keeps the assignments made before a
  raise. A dictionary that is iterated is an association list in insertion order, one that is only looked
  up is a function to an option. Python's integers are \<open>int\<close>, or \<open>nat\<close> where the code keeps them from
  being negative. Text that must hold more than ASCII is a list of code points (\<open>UText\<close>,
  \<open>TextSplit\<close>). \<open>PyValues\<close> has the Python values that pass through flows, \<open>PyText\<close> the string methods.

  \<^bold>\<open>Flows\<close> (\<open>flow/flow.py\<close>, \<open>common/bind.py\<close>). \<open>FlowCore\<close> has bound arguments, the invocation of an
  item, the pipeline with its loop and the sources it records for bound arguments; \<open>FlowBranch\<close> has
  Parallel, Diverter, Warp, Switch and IFS; \<open>GraphSort\<close> the nodes and edges of a Graph with the
  topological sort; \<open>FlowGraph\<close> the evaluation of a graph by tasks. \<open>FlowProps\<close>, \<open>BranchProps\<close> and the
  last sections of the two graph theories show that nesting pipelines is concatenation, that a loop with a
  count ends, that concurrent branches without effects give the sequential result, that the sort orders
  every edge, finds every cycle, and that the inputs of a task are submitted before it, whatever order
  the tasks finish in. The run of a pipeline takes fuel for its iterations; one more than its count is
  enough, and the theorem says so.

  \<^bold>\<open>Hooks\<close> (\<open>hook.py\<close>). \<open>Hooks\<close> models preparation by priority, the phases around a call and finalization,
  on a log of what was called: every prepared hook is finalized once, except in the case that is proved to
  leak.

  \<^bold>\<open>Model calls\<close> (\<open>module/llms\<close>). \<open>ModelCall\<close> has the retry loop of an online call, its outcome and its
  events, and the frames of a streamed response, which do not depend on how the bytes were cut.

  \<^bold>\<open>Tools\<close> (\<open>tools/agent/tool_runtime.py\<close>, \<open>tools/agent/toolsManager.py\<close>). \<open>ToolAccess\<close> has the resources
  a call declares and the segments of calls that may run side by side, with serializability for any
  order of the threads; \<open>ToolBatch\<close> has parsing, preparation, authorization and the execution of a batch:
  a call without permission does not run.

  \<^bold>\<open>SQL hardness\<close> (\<open>tools/data/operators/sql_evalhardness.py\<close>). \<open>SqlParse\<close> is the recursive descent parser
  with fuel, \<open>SqlTotal\<close> proves that fuel linear in the tokens is enough for any input, and
  \<open>SqlHardness\<close> has the counts and the level, with the linear order of levels.

  \<^bold>\<open>Transforms of documents\<close> (\<open>tools/rag/transform\<close>). \<open>TextSplit\<close> has the splitting of a text by paragraphs,
  sentences, clauses, words and characters and the merging with overlap (\<open>base.py\<close>): it ends, with the
  length of the text as enough fuel, and every chunk fits. \<open>TokenWindow\<close> has the sliding window over tokens: it
  covers the text when the overlap is below the window, and never ends otherwise. \<open>RuleSets\<close> has rules with
  priorities, the loop that applies them and the layout parser, one stable sort (\<open>base.py\<close>,
  \<open>layout.py\<close>). \<open>TreeBuild\<close> and \<open>TreeFix\<close> have the two heading trees (\<open>treebuilder.py\<close>,
  \<open>treefixer.py\<close>): every node is placed once, below an earlier one, which for \<open>TreeBuild\<close> is stated exactly. \<open>GroupNodes\<close> has grouping,
  merging and cutting of nodes (\<open>groupby.py\<close>): parts are bounded and keep the text.

  \<^bold>\<open>The segment store\<close> (\<open>tools/rag/store/hybrid/map_store.py\<close>). \<open>SegmentStore\<close> states what a store is, a map
  from collection and uid to the last segment written, and the interface as the locale \<open>segment_store\<close>, with
  the lemmas on histories of operations. \<open>MapStore\<close> has the dictionaries in memory with their indexes,
  their invariant, and an interpretation for any order in which Python may iterate a set (locale
  \<open>set_iteration\<close>); \<open>MapStoreSql\<close> has the SQLite table and interprets the same interface; \<open>StoreSearch\<close>
  has the filters of a search in Python and in SQL. \<open>StoreProps\<close> draws the consequences: both modes refine
  the abstract store, and agree but for criteria without values, which the memory mode refuses on a selection of nothing;
  the lemmas after it have the cases where the code departs from a store.

  \<^bold>\<open>Queues\<close> (\<open>common/queue.py\<close>). \<open>FsQueue\<close> states the interface as the locale \<open>fifo\<close>, interprets it on the
  SQLite table, and shows that the Redis queue, over a server that behaves as documented, is not one.

  \<^bold>\<open>The document service\<close> (\<open>tools/rag/doc_service\<close>, \<open>tools/rag/parsing_service\<close>). \<open>TaskQueue\<close> has the queue of parsing
  tasks in a database: claims with leases, renewal, completion and the repetition of lost tasks (\<open>queue.py\<close>, \<open>server.py\<close>),
  each operation one transaction, which for claims is an assumption on SQLite;
  \<open>TaskCallback\<close> the callbacks to the service, their posts and retries and what is written off, with the theorem that
  a message is attempted at most five times and that the loop ends by delivering or dropping it. \<open>DocService\<close> has the tables of the
  service, \<open>DocActions\<close> its operations on documents and the handler of callbacks; \<open>DocProps\<close> proves the invariant of
  the tables, that a callback takes effect once, that a purge ends with nothing left, and what an event that arrives late does.
  \<open>NodeGroups\<close> has the dependency graph of the groups of nodes, its order and the search for paths; \<open>NodeCreate\<close> the
  recursion that creates all groups, with the order of creation, for any creator of the nodes of a group, also one that gives none (its fuel, one more than the nodes of the graph, is
  enough since every call goes down the order); \<open>NodeNumber\<close> the numbers of nodes (\<open>impl.py\<close>).

  \<^bold>\<open>Values in files\<close> (\<open>components/formatter/formatterbase.py\<close>, \<open>module/module.py\<close>). \<open>JsonText\<close> has the JSON texts that Python writes and
  reads, with enough fuel for the reader, linear in the text; \<open>QueryFiles\<close> and \<open>QueryPaths\<close> the queries that carry files,
  with their round trip, merging and the rewriting of paths. \<open>ModuleCache\<close> states the interface of a cache as the locale
  \<open>cache_strategy\<close>, interprets it on the stores of the code, and has the calls of a module through it.

  \<^bold>\<open>Sessions, locks and migrations\<close> (\<open>common/globals.py\<close>, \<open>tools/rag/db_migrate/runner.py\<close>). \<open>Sessions\<close> has the
  data of sessions and the configuration that a session overrides; \<open>RWLock\<close> the lock with many readers as a step
  relation; \<open>Migrations\<close> the runs of several processes that migrate one database, with crashes at any step.

  \<^bold>\<open>Configuration\<close> (\<open>configs.py\<close>). \<open>Configs\<close> has the entries with their types, the environment variables, options and
  aliases, the instances of namespaces, refreshing and overriding for a block; \<open>ConfigProps\<close> the invariant of types over any
  history of operations that may raise, as long as no default of a wrong type is registered (which raises and stays), and
  what an assignment does in each case.

  \<^bold>\<open>The agent\<close> (\<open>tools/agent\<close>). \<open>AgentTurns\<close> has the results of tools as the model sees them, the complete tool turns
  of a history and what a history compactor may return (\<open>base.py\<close>, \<open>history.py\<close>); \<open>AgentCall\<close> one round of \<open>FunctionCall\<close>
  (\<open>functionCall.py\<close>) over the entries of \<open>locals\<close> that belong to the agent, with the tools run by \<open>ToolBatch\<close>;
  \<open>AgentReact\<close> the loop of \<open>ReactAgent\<close> (\<open>reactAgent.py\<close>) as a loop of \<open>FlowCore\<close>, the callback that raises its limit and the
  forced summary. \<open>AgentRounds\<close> shows that the flows do what a plain recursion does, \<open>AgentEffects\<close> what each part of a
  round changes, \<open>AgentProps\<close> that histories consist of complete turns, also when the forced summary ends the run, that announced budgets are true and that the agent
  ends and leaves nothing unfinished, \<open>AgentTools\<close> that tools the model does not see have no influence. A run takes fuel,
  since the callback may raise the limit for ever; two more than the retries are enough without it. The model, the tools, the
  compactor, the provider of contexts and the validator are parameters (\<open>model_answers\<close> states what a model with its
  formatter returns). Streams, skills, sandboxes and tool groups are not modelled.

  \<^bold>\<open>Documents being written\<close> (\<open>tools/writer\<close>). \<open>Numbering\<close> counts the sections, figures, tables and code blocks of a
  document and writes their labels in the three styles (\<open>compute_numbering\<close>, \<open>_format_heading_label\<close>); its lemmas read the letters
  and the Roman numbers back. \<open>WriterDocs\<close> has the tree of blocks (\<open>data_models/writer_ir.py\<close>), the view that is counted, writing
  the numbers into the text and taking them out again, and the changes that a user makes. Levels are taken as integers and a
  link as its type and target; the Markdown side of \<open>numbering.py\<close>, which finds its targets with regular expressions, is not
  modelled.

  \<^bold>\<open>Traces and queries\<close>. \<open>TraceTree\<close> rebuilds the tree of a trace from its spans
  (\<open>tracing/consume/reconstruction/tree.py\<close>; the fuel for chains of parents and for the depth is one more than the
  spans); \<open>QueryEnhance\<close> has the words that are inserted into a query (\<open>tools/rag/query_enh_ac.py\<close>) with the automaton
  and the models as parameters.

  \<^bold>\<open>Parameters.\<close> Code that is not in the repository is an argument: token encoders and decoders, nltk's
  sentence tokenizer, the canonical form of a path, the BM25 ranking, the Redis server, the functions that
  users hand in. What the theorems need of them is a named hypothesis (\<open>punkt_shortens\<close>,
  \<open>documented\<close>; of token encoders and decoders nothing is assumed but that one character fits in a chunk), and each theorem with one has a witness on a concrete function.

  \<^bold>\<open>Not modelled.\<close> Threads and locks beyond the orders that the theorems quantify over; clients of remote
  services, databases other than SQLite, launchers, readers of file formats, documentation strings, the
  command line. The components of the manifest say for each modelled file what is left out.
\<close>

end
